(* ===== verification/Prelude.thy ===== *)
theory Prelude
  imports Main "HOL-Library.Char_ord" "HOL-Library.List_Lexorder" "HOL-Library.Sublist"
begin

text \<open>
  Shared vocabulary of the development: results with errors as values, Python's character
  classes and decimal literals, insertion-ordered dictionaries as association lists, and the
  list lemmas the component theories share.

  Strings. A Python \<open>str\<close> is modelled as \<^typ>\<open>string\<close>, one \<^typ>\<open>char\<close> per code point, so the
  model covers texts over the code points U+0000 to U+00FF. The order on strings is the
  lexicographic order by code point (\<open>HOL-Library.List_Lexorder\<close>, \<open>HOL-Library.Char_ord\<close>), as
  Python's \<open>sorted\<close> uses.
\<close>

section \<open>Collections of rewrite rules\<close>

named_theorems frame_simps \<open>what an operation leaves unchanged\<close>
named_theorems progress \<open>how far an operation moves a cursor\<close>

section \<open>Results: a value or a raised exception\<close>

text \<open>An exception is \<^const>\<open>Inl\<close>, a returned value \<^const>\<open>Inr\<close>. Sequencing stops at the first
  exception.\<close>

type_synonym ('e, 'a) result = "'e + 'a"

definition bind_r :: "('e, 'a) result \<Rightarrow> ('a \<Rightarrow> ('e, 'b) result) \<Rightarrow> ('e, 'b) result" where
  "bind_r m f = (case m of Inl e \<Rightarrow> Inl e | Inr x \<Rightarrow> f x)"

lemma bind_r_simps [simp]:
  "bind_r (Inl e) f = Inl e"
  "bind_r (Inr x) f = f x"
  by (simp_all add: bind_r_def)

lemma bind_r_Inr_iff [simp]:
  "bind_r m f = Inr y \<longleftrightarrow> (\<exists>x. m = Inr x \<and> f x = Inr y)"
  by (cases m) simp_all

lemma bind_r_Inl_iff:
  "bind_r m f = Inl e \<longleftrightarrow> m = Inl e \<or> (\<exists>x. m = Inr x \<and> f x = Inl e)"
  by (cases m) simp_all

lemma bind_r_cong [fundef_cong]:
  "m = m' \<Longrightarrow> (\<And>x. m' = Inr x \<Longrightarrow> f x = f' x) \<Longrightarrow> bind_r m f = bind_r m' f'"
  by (cases m') simp_all

text \<open>A list comprehension whose element expression may raise.\<close>

fun map_r :: "('a \<Rightarrow> ('e, 'b) result) \<Rightarrow> 'a list \<Rightarrow> ('e, 'b list) result" where
  "map_r f [] = Inr []"
| "map_r f (x # xs) = bind_r (f x) (\<lambda>y. bind_r (map_r f xs) (\<lambda>ys. Inr (y # ys)))"

lemma map_r_Inr: "map_r f xs = Inr ys \<longleftrightarrow> list_all2 (\<lambda>x y. f x = Inr y) xs ys"
  by (induction xs arbitrary: ys) (auto simp: list_all2_Cons1)

section \<open>Characters and decimal literals\<close>

text \<open>Python's \<open>str.isalpha\<close>, \<open>str.isdigit\<close> and \<open>str.isalnum\<close> on the code points U+0000 to U+00FF:
  the superscripts two, three and one (U+00B2, U+00B3, U+00B9) are digits, the feminine and
  masculine ordinals, the micro sign and the Latin-1 letters are alphabetic, and the vulgar
  fractions (U+00BC to U+00BE) are alphanumeric only.\<close>

definition code :: "char \<Rightarrow> nat" where
  "code c = of_char c"

definition py_isdecimal :: "char \<Rightarrow> bool" where
  "py_isdecimal c \<longleftrightarrow> 48 \<le> code c \<and> code c \<le> 57"

definition py_isdigit :: "char \<Rightarrow> bool" where
  "py_isdigit c \<longleftrightarrow> py_isdecimal c \<or> code c \<in> {178, 179, 185}"

definition py_isalpha :: "char \<Rightarrow> bool" where
  "py_isalpha c \<longleftrightarrow>
     (let n = code c in
      (65 \<le> n \<and> n \<le> 90) \<or> (97 \<le> n \<and> n \<le> 122) \<or> n \<in> {170, 181, 186} \<or>
      (192 \<le> n \<and> n \<le> 214) \<or> (216 \<le> n \<and> n \<le> 246) \<or> 248 \<le> n)"

definition py_isalnum :: "char \<Rightarrow> bool" where
  "py_isalnum c \<longleftrightarrow> py_isalpha c \<or> py_isdigit c \<or> code c \<in> {188, 189, 190}"

text \<open>\<open>int(s)\<close> on a string of decimal digits; \<^const>\<open>None\<close> where Python raises \<open>ValueError\<close>: the
  superscript digits the lexer lets through, and more than 4300 digits (the interpreter's default
  \<open>sys.get_int_max_str_digits()\<close>).\<close>

definition digit_value :: "char \<Rightarrow> int option" where
  "digit_value c = (if py_isdecimal c then Some (int (code c) - 48) else None)"

fun digits_value :: "int \<Rightarrow> string \<Rightarrow> int option" where
  "digits_value acc [] = Some acc"
| "digits_value acc (c # cs) =
     (case digit_value c of None \<Rightarrow> None | Some d \<Rightarrow> digits_value (10 * acc + d) cs)"

definition py_int :: "string \<Rightarrow> int option" where
  "py_int s = (if s = [] \<or> 4300 < length s then None else digits_value 0 s)"

lemma digit_value_nonneg: "digit_value c = Some d \<Longrightarrow> 0 \<le> d \<and> d < 10"
  by (auto simp: digit_value_def py_isdecimal_def split: if_splits)

lemma digits_value_nonneg: "0 \<le> acc \<Longrightarrow> digits_value acc s = Some n \<Longrightarrow> 0 \<le> n"
  by (induction acc s rule: digits_value.induct)
    (auto split: option.splits dest: digit_value_nonneg)

lemma py_int_nonneg: "py_int s = Some n \<Longrightarrow> 0 \<le> n"
  using digits_value_nonneg [of 0 s n] by (simp add: py_int_def split: if_splits)

lemma digits_value_total: "list_all py_isdecimal s \<Longrightarrow> \<exists>n. digits_value acc s = Some n"
  by (induction s arbitrary: acc) (auto simp: digit_value_def)

lemma py_int_total:
  "list_all py_isdecimal s \<Longrightarrow> s \<noteq> [] \<Longrightarrow> length s \<le> 4300 \<Longrightarrow> \<exists>n. py_int s = Some n"
  by (simp add: py_int_def digits_value_total)

text \<open>\<open>sep.join(parts)\<close>.\<close>

fun py_join :: "string \<Rightarrow> string list \<Rightarrow> string" where
  "py_join sep [] = []"
| "py_join sep [x] = x"
| "py_join sep (x # y # ys) = x @ sep @ py_join sep (y # ys)"

text \<open>A UUID is its canonical text.\<close>

type_synonym uuid = string

section \<open>Insertion-ordered dictionaries\<close>

text \<open>A Python \<open>dict\<close> is an association list in insertion order with distinct keys: assigning to
  an existing key keeps its place, a new key goes to the end.\<close>

type_synonym ('k, 'v) dict = "('k \<times> 'v) list"

fun dict_set :: "'k \<Rightarrow> 'v \<Rightarrow> ('k, 'v) dict \<Rightarrow> ('k, 'v) dict" where
  "dict_set k v [] = [(k, v)]"
| "dict_set k v ((k', v') # d) = (if k = k' then (k, v) # d else (k', v') # dict_set k v d)"

fun dict_update :: "('k, 'v) dict \<Rightarrow> ('k, 'v) dict \<Rightarrow> ('k, 'v) dict" where
  "dict_update d [] = d"
| "dict_update d ((k, v) # e) = dict_update (dict_set k v d) e"

abbreviation dict_keys :: "('k, 'v) dict \<Rightarrow> 'k list" where
  "dict_keys d \<equiv> map fst d"

lemma map_of_dict_set [simp]: "map_of (dict_set k v d) = (map_of d)(k \<mapsto> v)"
  by (induction d) auto

lemma set_keys_dict_set [simp]: "fst ` set (dict_set k v d) = insert k (fst ` set d)"
  by (induction k v d rule: dict_set.induct) (simp_all add: insert_commute)

lemma distinct_dict_set: "distinct (dict_keys d) \<Longrightarrow> distinct (dict_keys (dict_set k v d))"
  by (induction k v d rule: dict_set.induct) simp_all

lemma map_of_dict_update: "map_of (dict_update d e) k =
   (case map_of (rev e) k of Some v \<Rightarrow> Some v | None \<Rightarrow> map_of d k)"
  by (induction d e rule: dict_update.induct) (auto simp: map_add_def split: option.splits)

lemma keys_dict_update [simp]: "fst ` set (dict_update d e) = fst ` set d \<union> fst ` set e"
  by (induction d e rule: dict_update.induct) auto

lemma distinct_dict_update: "distinct (dict_keys d) \<Longrightarrow> distinct (dict_keys (dict_update d e))"
  by (induction d e rule: dict_update.induct) (simp_all add: distinct_dict_set)

lemma map_of_dict_update_const:
  assumes "k \<in> f ` set xs"
  shows "map_of (dict_update [] (map (\<lambda>p. (f p, c)) xs)) k = Some c"
proof -
  have "k \<in> f ` set ys \<Longrightarrow> map_of (map (\<lambda>p. (f p, c)) ys) k = Some c" for ys
    by (induction ys) auto
  from this [of "rev xs"] assms show ?thesis by (simp add: map_of_dict_update rev_map [symmetric])
qed

text \<open>Deletion of a key.\<close>

definition dict_pop :: "'k \<Rightarrow> ('k, 'v) dict \<Rightarrow> ('k, 'v) dict" where
  "dict_pop k d = filter (\<lambda>e. fst e \<noteq> k) d"

lemma map_of_dict_pop: "map_of (dict_pop k d) = (map_of d)(k := None)"
  by (induction d) (auto simp: dict_pop_def fun_eq_iff)

lemma dict_pop_distinct: "distinct (dict_keys d) \<Longrightarrow> distinct (dict_keys (dict_pop k d))"
  by (simp add: dict_pop_def distinct_map_filter)

lemma map_of_filter_keys: "map_of (filter (\<lambda>e. P (fst e)) d) k = (if P k then map_of d k else None)"
  by (induction d) auto

lemma length_dict_set: "length (dict_set k v d) = (if k \<in> fst ` set d then length d else Suc (length d))"
  by (induction k v d rule: dict_set.induct) auto

lemma keys_filter_values:
  assumes "distinct (dict_keys d)"
  shows "fst ` set (filter (\<lambda>e. P (snd e)) d) = {k. \<exists>v. map_of d k = Some v \<and> P v}"
  using assms by (auto simp: image_iff)

lemma map_of_Some_in: "map_of d k = Some v \<Longrightarrow> (k, v) \<in> set d"
  by (rule map_of_SomeD)

text \<open>An order in which a set of identifiers or names is iterated over: each element once.\<close>

definition lists_sets :: "(string set \<Rightarrow> string list) \<Rightarrow> bool" where
  "lists_sets it \<longleftrightarrow> (\<forall>s. finite s \<longrightarrow> set (it s) = s \<and> distinct (it s))"

lemma sorted_lists_sets: "lists_sets sorted_list_of_set"
  by (simp add: lists_sets_def)

section \<open>Lists\<close>

text \<open>The first element satisfying a test: a \<open>for\<close> loop that returns on its first hit.\<close>

fun find_first :: "('a \<Rightarrow> bool) \<Rightarrow> 'a list \<Rightarrow> 'a option" where
  "find_first P [] = None"
| "find_first P (x # xs) = (if P x then Some x else find_first P xs)"

lemma find_first_Some: "find_first P xs = Some x \<Longrightarrow> x \<in> set xs \<and> P x"
  by (induction xs) (auto split: if_splits)

lemma find_first_None_iff: "find_first P xs = None \<longleftrightarrow> (\<forall>x\<in>set xs. \<not> P x)"
  by (induction xs) auto

lemma find_first_append:
  "find_first P (xs @ ys) = (case find_first P xs of Some x \<Rightarrow> Some x | None \<Rightarrow> find_first P ys)"
  by (induction xs) auto

lemma find_first_unique:
  assumes "x \<in> set xs" "P x" and uniq: "\<And>y. y \<in> set xs \<Longrightarrow> P y \<Longrightarrow> y = x"
  shows "find_first P xs = Some x"
proof (cases "find_first P xs")
  case None
  with assms(1,2) show ?thesis by (auto simp: find_first_None_iff)
next
  case (Some y)
  then have "y = x" using find_first_Some [of P xs y] uniq by blast
  with Some show ?thesis by simp
qed

text \<open>\<open>{x.name: x for x in xs}\<close> as a map: of several objects with one name the last counts.\<close>

definition by_name :: "('a \<Rightarrow> string) \<Rightarrow> 'a list \<Rightarrow> string \<Rightarrow> 'a option" where
  "by_name key xs n = find_first (\<lambda>x. key x = n) (rev xs)"

lemma by_name_dom: "by_name key xs n = None \<longleftrightarrow> n \<notin> key ` set xs"
  by (auto simp: by_name_def find_first_None_iff)

lemma by_name_key: "by_name key xs n = Some x \<Longrightarrow> key x = n \<and> x \<in> set xs"
  by (auto simp: by_name_def dest: find_first_Some)

lemma by_name_mem: "n \<in> key ` set xs \<longleftrightarrow> (\<exists>x. by_name key xs n = Some x)"
  using by_name_dom [of key xs n] by auto

text \<open>One element comes strictly before another in a list.\<close>

definition precedes :: "'a list \<Rightarrow> 'a \<Rightarrow> 'a \<Rightarrow> bool" where
  "precedes xs a b \<longleftrightarrow> (\<exists>i j. i < j \<and> j < length xs \<and> xs ! i = a \<and> xs ! j = b)"

lemma precedes_append: "a \<in> set xs \<Longrightarrow> b \<in> set ys \<Longrightarrow> precedes (xs @ ys) a b"
  unfolding precedes_def in_set_conv_nth
proof (elim exE conjE)
  fix i j
  assume "i < length xs" "xs ! i = a" "j < length ys" "ys ! j = b"
  then show "\<exists>i j. i < j \<and> j < length (xs @ ys) \<and> (xs @ ys) ! i = a \<and> (xs @ ys) ! j = b"
    by (intro exI [of _ i] exI [of _ "length xs + j"]) (simp add: nth_append)
qed

lemma precedes_appendI: "precedes xs a b \<Longrightarrow> precedes (xs @ ys) a b"
  unfolding precedes_def
proof (elim exE conjE)
  fix i j
  assume "i < j" "j < length xs" "xs ! i = a" "xs ! j = b"
  then show "\<exists>i j. i < j \<and> j < length (xs @ ys) \<and> (xs @ ys) ! i = a \<and> (xs @ ys) ! j = b"
    by (intro exI [of _ i] exI [of _ j]) (simp add: nth_append)
qed

end
