(* ===== verification/Tokens.thy ===== *)
theory Tokens
  imports Prelude
begin

text \<open>
  The lexical elements of the Charter DSL (\<open>libs/canon/src/canon/dsl/tokens.py\<close>): the token types,
  the keyword table and the token with its source position.
\<close>

datatype TokenType =
    CHARTER | SCHEMAS | PACKAGES | POLICIES | TRIGGERS | WORKFLOW | PHASE | REQUIRE | AWAIT
  | ACTION | OUTPUT | CERTIFY | EVIDENCE | GRANTS | FOR | SITUATIONS | WHEN | WAITING_PERIOD
  | ROLES | BREAK_GLASS | REQUIRES_MFA | ACTIONS | IMMUTABLE | DAYS | HOURS | PASSED | COMPLETE
  | TRUE | FALSE | OR_T
  | IDENT | STRING | DOCSTRING | INT_T | FLOAT
  | COLON | COMMA | DOT | DOTDOT | LPAREN | RPAREN | LBRACKET | RBRACKET | AT | DASH
  | EQ | NEQ | GT | GTE | LT | LTE
  | INDENT | DEDENT | NEWLINE
  | EOF

definition KEYWORDS :: "(string, TokenType) dict" where
  "KEYWORDS =
    [(''charter'', CHARTER), (''schemas'', SCHEMAS), (''packages'', PACKAGES),
     (''policies'', POLICIES), (''triggers'', TRIGGERS), (''workflow'', WORKFLOW),
     (''phase'', PHASE), (''require'', REQUIRE), (''await'', AWAIT), (''action'', ACTION),
     (''output'', OUTPUT), (''certify'', CERTIFY), (''evidence'', EVIDENCE),
     (''grants'', GRANTS), (''for'', FOR), (''situations'', SITUATIONS), (''when'', WHEN),
     (''waiting_period'', WAITING_PERIOD), (''roles'', ROLES), (''break_glass'', BREAK_GLASS),
     (''requires_mfa'', REQUIRES_MFA), (''actions'', ACTIONS), (''immutable'', IMMUTABLE),
     (''days'', DAYS), (''hours'', HOURS), (''passed'', PASSED), (''complete'', COMPLETE),
     (''true'', TRUE), (''false'', FALSE), (''or'', OR_T)]"

record Token =
  tk_type :: TokenType
  tk_value :: string
  tk_line :: nat
  tk_column :: nat

definition mk_token :: "TokenType \<Rightarrow> string \<Rightarrow> nat \<Rightarrow> nat \<Rightarrow> Token" where
  "mk_token t v l c = \<lparr>tk_type = t, tk_value = v, tk_line = l, tk_column = c\<rparr>"

lemma mk_token_sel [simp]:
  "tk_type (mk_token t v l c) = t" "tk_value (mk_token t v l c) = v"
  "tk_line (mk_token t v l c) = l" "tk_column (mk_token t v l c) = c"
  by (simp_all add: mk_token_def)

text \<open>\<open>KEYWORDS.get(word, TokenType.IDENT)\<close>.\<close>

definition word_type :: "string \<Rightarrow> TokenType" where
  "word_type w = (case map_of KEYWORDS w of Some t \<Rightarrow> t | None \<Rightarrow> IDENT)"

lemma KEYWORDS_layout_free:
  "t \<in> snd ` set KEYWORDS \<Longrightarrow> t \<notin> {INDENT, DEDENT, NEWLINE, EOF}"
  by (auto simp: KEYWORDS_def)

lemma word_type_layout_free [simp]:
  "word_type w \<noteq> INDENT" "word_type w \<noteq> DEDENT" "word_type w \<noteq> NEWLINE" "word_type w \<noteq> EOF"
  using KEYWORDS_layout_free map_of_Some_in [of KEYWORDS w]
  by (force simp: word_type_def split: option.splits)+

end
