(* ===== verification/Lexer.thy ===== *)
theory Lexer
  imports Tokens
begin

text \<open>
  The indentation-aware tokenizer of the Charter DSL (\<open>libs/canon/src/canon/dsl/lexer.py\<close>).

  The \<open>Lexer\<close> object is the record \<open>lexer\<close>; each method takes the record and returns the updated one,
  with its result, or the exception it raises. The indentation stack is kept with its top at
  the head. A \<open>LexError\<close> carries the values its message interpolates, and the line and column.
  \<open>tokenize\<close> is the main loop: one iteration is \<open>tokenize_step\<close>, whose result says whether the
  loop goes on (\<open>continue\<close>) or stops (\<open>break\<close>). The loop terminates because every iteration that
  goes on has moved the position forward (\<open>tokenize_step_progress\<close>).

  Results: the token stream ends in its only EOF token, INDENT and DEDENT are well bracketed, the
  indentation stack is strictly increasing, no internal index error occurs, and words are
  tokenized back exactly.
\<close>

section \<open>State and errors\<close>

record lexer =
  lx_text :: string
  lx_pos :: nat
  lx_line :: nat
  lx_column :: nat
  lx_tokens :: "Token list"
  indent_stack :: "nat list"
  at_line_start :: bool

datatype lex_message =
    UnterminatedString
  | UnterminatedDocstring nat \<comment> \<open>the line it starts at\<close>
  | TabIndentation
  | InconsistentIndentation nat nat \<comment> \<open>expected and found width\<close>
  | UnexpectedCharacter char

datatype lex_error =
    LexError lex_message nat nat \<comment> \<open>message, line, column\<close>
  | LexIndexError \<comment> \<open>Python's IndexError: the top of an empty stack\<close>

definition new_lexer :: "string \<Rightarrow> lexer" where
  "new_lexer source =
    \<lparr>lx_text = source, lx_pos = 0, lx_line = 1, lx_column = 1, lx_tokens = [],
     indent_stack = [0], at_line_start = True\<rparr>"

section \<open>Character access\<close>

definition peek_char :: "nat \<Rightarrow> lexer \<Rightarrow> char option" where
  "peek_char offset lx =
    (if lx_pos lx + offset \<ge> length (lx_text lx) then None
     else Some (lx_text lx ! (lx_pos lx + offset)))"

definition current_char :: "lexer \<Rightarrow> char option" where
  "current_char lx = (if lx_pos lx \<ge> length (lx_text lx) then None else Some (lx_text lx ! lx_pos lx))"

definition newline :: char where
  "newline = CHR 0x0A"

definition tab :: char where
  "tab = CHR 0x09"

definition carriage_return :: char where
  "carriage_return = CHR 0x0D"

definition advance :: "lexer \<Rightarrow> lexer" where
  "advance lx =
    (if lx_pos lx < length (lx_text lx) then
       (if lx_text lx ! lx_pos lx = newline
        then lx\<lparr>lx_line := lx_line lx + 1, lx_column := 1, lx_pos := lx_pos lx + 1\<rparr>
        else lx\<lparr>lx_column := lx_column lx + 1, lx_pos := lx_pos lx + 1\<rparr>)
     else lx)"

definition emit :: "TokenType \<Rightarrow> string \<Rightarrow> nat \<Rightarrow> nat \<Rightarrow> lexer \<Rightarrow> lexer" where
  "emit t v l c lx = lx\<lparr>lx_tokens := lx_tokens lx @ [mk_token t v l c]\<rparr>"

definition remaining :: "lexer \<Rightarrow> nat" where
  "remaining lx = length (lx_text lx) - lx_pos lx"

lemma current_char_Some:
  "current_char lx = Some c \<longleftrightarrow> lx_pos lx < length (lx_text lx) \<and> lx_text lx ! lx_pos lx = c"
  by (auto simp: current_char_def)

lemma current_char_None: "current_char lx = None \<longleftrightarrow> length (lx_text lx) \<le> lx_pos lx"
  by (auto simp: current_char_def)

lemma advance_frame [simp]:
  "lx_text (advance lx) = lx_text lx" "lx_tokens (advance lx) = lx_tokens lx"
  "indent_stack (advance lx) = indent_stack lx" "at_line_start (advance lx) = at_line_start lx"
  by (simp_all add: advance_def)

lemma lx_pos_advance:
  "lx_pos (advance lx) = (if lx_pos lx < length (lx_text lx) then lx_pos lx + 1 else lx_pos lx)"
  by (simp add: advance_def)

lemma emit_frame [simp]:
  "lx_text (emit t v l c lx) = lx_text lx" "lx_pos (emit t v l c lx) = lx_pos lx"
  "lx_line (emit t v l c lx) = lx_line lx" "lx_column (emit t v l c lx) = lx_column lx"
  "indent_stack (emit t v l c lx) = indent_stack lx"
  "at_line_start (emit t v l c lx) = at_line_start lx"
  "lx_tokens (emit t v l c lx) = lx_tokens lx @ [mk_token t v l c]"
  by (simp_all add: emit_def)

lemma remaining_advance: "current_char lx = Some c \<Longrightarrow> remaining (advance lx) < remaining lx"
  by (auto simp: remaining_def current_char_Some lx_pos_advance)

section \<open>Readers\<close>

text \<open>The \<open>while (ch := self.current_char()) and P(ch): self.advance()\<close> loops.\<close>

function advance_while :: "(char \<Rightarrow> bool) \<Rightarrow> lexer \<Rightarrow> lexer" where
  "advance_while P lx =
    (case current_char lx of
       None \<Rightarrow> lx
     | Some c \<Rightarrow> if P c then advance_while P (advance lx) else lx)"
  by pat_completeness auto
termination
  by (relation "measure (\<lambda>(P, lx). remaining lx)") (auto simp: remaining_advance)

text \<open>\<open>self.text[start : self.pos]\<close>.\<close>

definition text_slice :: "nat \<Rightarrow> lexer \<Rightarrow> string" where
  "text_slice start lx = take (lx_pos lx - start) (drop start (lx_text lx))"

definition ident_char :: "char \<Rightarrow> bool" where
  "ident_char c \<longleftrightarrow> py_isalnum c \<or> c = CHR ''_''"

definition read_identifier :: "lexer \<Rightarrow> string \<times> lexer" where
  "read_identifier lx =
    (let lx' = advance_while ident_char lx in (text_slice (lx_pos lx) lx', lx'))"

definition read_number :: "lexer \<Rightarrow> (string \<times> bool) \<times> lexer" where
  "read_number lx =
    (let lx1 = advance_while py_isdigit lx;
         is_float =
           (current_char lx1 = Some (CHR ''.'') \<and>
            (case peek_char 1 lx1 of None \<Rightarrow> False | Some c \<Rightarrow> c \<noteq> CHR ''.'' \<and> py_isdigit c));
         lx2 = (if is_float then advance_while py_isdigit (advance lx1) else lx1)
     in ((text_slice (lx_pos lx) lx2, is_float), lx2))"

definition escape_char :: "char \<Rightarrow> char" where
  "escape_char esc =
    (if esc = CHR ''n'' then newline
     else if esc = CHR ''t'' then tab
     else if esc = CHR ''r'' then carriage_return
     else esc)"

definition backslash :: char where
  "backslash = CHR 0x5C"

function read_string_loop :: "char \<Rightarrow> string \<Rightarrow> lexer \<Rightarrow> string \<times> lexer" where
  "read_string_loop quote acc lx =
    (case current_char lx of
       None \<Rightarrow> (acc, lx)
     | Some ch \<Rightarrow>
         if ch = quote then (acc, lx)
         else if ch = backslash then
           (case current_char (advance lx) of
              None \<Rightarrow> (acc, advance lx)
            | Some esc \<Rightarrow>
                read_string_loop quote (acc @ [escape_char esc]) (advance (advance lx)))
         else read_string_loop quote (acc @ [ch]) (advance lx))"
  by pat_completeness auto
termination
proof (relation "measure (\<lambda>(q, acc, lx). remaining lx)", goal_cases)
  case (2 quote acc lx ch esc)
  have "remaining (advance (advance lx)) < remaining (advance lx)"
    using 2 by (simp add: remaining_advance)
  also have "remaining (advance lx) < remaining lx"
    using 2 by (simp add: remaining_advance)
  finally show ?case by simp
qed (auto simp: remaining_advance)

definition closes_triple :: "char \<Rightarrow> lexer \<Rightarrow> bool" where
  "closes_triple quote lx \<longleftrightarrow>
    current_char lx = Some quote \<and> peek_char 1 lx = Some quote \<and> peek_char 2 lx = Some quote"

definition advance3 :: "lexer \<Rightarrow> lexer" where
  "advance3 lx = advance (advance (advance lx))"

function read_triple_loop :: "char \<Rightarrow> nat \<Rightarrow> string \<Rightarrow> lexer \<Rightarrow> (lex_error, string \<times> lexer) result" where
  "read_triple_loop quote start_line acc lx =
    (case current_char lx of
       None \<Rightarrow> Inl (LexError (UnterminatedDocstring start_line) (lx_line lx) (lx_column lx))
     | Some ch \<Rightarrow>
         if closes_triple quote lx then Inr (acc, advance3 lx)
         else read_triple_loop quote start_line (acc @ [ch]) (advance lx))"
  by pat_completeness auto
termination
  by (relation "measure (\<lambda>(q, s, acc, lx). remaining lx)") (auto simp: remaining_advance)

definition read_triple_quoted_string :: "char \<Rightarrow> lexer \<Rightarrow> (lex_error, string \<times> lexer) result" where
  "read_triple_quoted_string quote lx = read_triple_loop quote (lx_line lx) [] lx"

text \<open>With no current character the quote is Python's \<open>None\<close>, every peek equals it, and the
  docstring reader raises at once.\<close>

definition read_string :: "lexer \<Rightarrow> (lex_error, (string \<times> bool) \<times> lexer) result" where
  "read_string lx =
    (case current_char lx of
       None \<Rightarrow> Inl (LexError (UnterminatedDocstring (lx_line lx)) (lx_line lx) (lx_column lx))
     | Some quote \<Rightarrow>
         if peek_char 1 lx = Some quote \<and> peek_char 2 lx = Some quote then
           bind_r (read_triple_quoted_string quote (advance3 lx)) (\<lambda>(v, lx'). Inr ((v, True), lx'))
         else
           (let (v, lx1) = read_string_loop quote [] (advance lx) in
            if current_char lx1 = Some quote then Inr ((v, False), advance lx1)
            else Inl (LexError UnterminatedString (lx_line lx1) (lx_column lx1))))"

definition skip_comment :: "lexer \<Rightarrow> lexer" where
  "skip_comment lx = advance_while (\<lambda>c. c \<noteq> newline) lx"

section \<open>Indentation\<close>

function measure_indent_loop :: "nat \<Rightarrow> lexer \<Rightarrow> (lex_error, nat \<times> lexer) result" where
  "measure_indent_loop spaces lx =
    (case current_char lx of
       None \<Rightarrow> Inr (spaces, lx)
     | Some ch \<Rightarrow>
         if ch = CHR '' '' then measure_indent_loop (spaces + 1) (advance lx)
         else if ch = tab then Inl (LexError TabIndentation (lx_line lx) (lx_column lx))
         else Inr (spaces, lx))"
  by pat_completeness auto
termination
  by (relation "measure (\<lambda>(s, lx). remaining lx)") (auto simp: remaining_advance)

definition measure_indent :: "lexer \<Rightarrow> (lex_error, nat \<times> lexer) result" where
  "measure_indent lx = measure_indent_loop 0 lx"

text \<open>Pop every level deeper than the new indentation, one DEDENT each.\<close>

fun pop_indents :: "nat \<Rightarrow> nat \<Rightarrow> nat list \<Rightarrow> Token list \<Rightarrow> nat list \<times> Token list" where
  "pop_indents lvl ln [] toks = ([], toks)"
| "pop_indents lvl ln (s # st) toks =
    (if lvl < s then pop_indents lvl ln st (toks @ [mk_token DEDENT [] ln 1]) else (s # st, toks))"

definition handle_indentation :: "nat \<Rightarrow> lexer \<Rightarrow> (lex_error, lexer) result" where
  "handle_indentation indent_level lx =
    (case indent_stack lx of
       [] \<Rightarrow> Inl LexIndexError
     | current_indent # _ \<Rightarrow>
         if current_indent < indent_level then
           Inr (emit INDENT [] (lx_line lx) 1 (lx\<lparr>indent_stack := indent_level # indent_stack lx\<rparr>))
         else if indent_level < current_indent then
           (let (st, toks) = pop_indents indent_level (lx_line lx) (indent_stack lx) (lx_tokens lx) in
            (case st of
               [] \<Rightarrow> Inl LexIndexError
             | deepest # _ \<Rightarrow>
                 if deepest \<noteq> indent_level
                 then Inl (LexError (InconsistentIndentation deepest indent_level) (lx_line lx) 1)
                 else Inr (lx\<lparr>indent_stack := st, lx_tokens := toks\<rparr>)))
         else Inr lx)"

fun drop_dedents :: "nat \<Rightarrow> nat \<Rightarrow> nat list \<Rightarrow> Token list \<Rightarrow> nat list \<times> Token list" where
  "drop_dedents ln col (s # s' # st) toks =
     drop_dedents ln col (s' # st) (toks @ [mk_token DEDENT [] ln col])"
| "drop_dedents ln col st toks = (st, toks)"

definition emit_remaining_dedents :: "lexer \<Rightarrow> lexer" where
  "emit_remaining_dedents lx =
    (let (st, toks) = drop_dedents (lx_line lx) (lx_column lx) (indent_stack lx) (lx_tokens lx)
     in lx\<lparr>indent_stack := st, lx_tokens := toks\<rparr>)"

section \<open>The main loop\<close>

datatype loop_ctl = Break lexer | Continue lexer

definition double_quote :: char where
  "double_quote = CHR 0x22"

definition single_quote :: char where
  "single_quote = CHR 0x27"

definition two_char_token :: "char \<Rightarrow> char option \<Rightarrow> (TokenType \<times> string) option" where
  "two_char_token ch next_ch =
    (if ch = CHR ''.'' \<and> next_ch = Some (CHR ''.'') then Some (DOTDOT, ''..'')
     else if ch = CHR ''='' \<and> next_ch = Some (CHR ''='') then Some (EQ, ''=='')
     else if ch = CHR ''!'' \<and> next_ch = Some (CHR ''='') then Some (NEQ, ''!='')
     else if ch = CHR ''>'' \<and> next_ch = Some (CHR ''='') then Some (GTE, ''>='')
     else if ch = CHR ''<'' \<and> next_ch = Some (CHR ''='') then Some (LTE, ''<='')
     else None)"

definition single_char_tokens :: "(char, TokenType) dict" where
  "single_char_tokens =
    [(CHR '':'', COLON), (CHR '','', COMMA), (CHR ''.'', DOT), (CHR ''('', LPAREN),
     (CHR '')'', RPAREN), (CHR ''['', LBRACKET), (CHR '']'', RBRACKET), (CHR ''@'', AT),
     (CHR ''-'', DASH), (CHR ''>'', GT), (CHR ''<'', LT)]"

text \<open>The part of the loop body after the line-start handling.\<close>

definition scan_token :: "lexer \<Rightarrow> (lex_error, loop_ctl) result" where
  "scan_token lx =
    (case current_char lx of
       None \<Rightarrow> Inr (Break lx)
     | Some ch \<Rightarrow>
         if ch = newline then
           Inr (Continue
             ((advance (emit NEWLINE [newline] (lx_line lx) (lx_column lx) lx))\<lparr>at_line_start := True\<rparr>))
         else if ch \<in> {CHR '' '', tab, carriage_return} then Inr (Continue (advance lx))
         else if ch = CHR ''#'' then Inr (Continue (skip_comment lx))
         else if ch \<in> {double_quote, single_quote} then
           bind_r (read_string lx) (\<lambda>((value, is_docstring), lx').
             Inr (Continue (emit (if is_docstring then DOCSTRING else STRING) value
                              (lx_line lx) (lx_column lx) lx')))
         else if py_isdigit ch then
           (let ((value, is_float), lx') = read_number lx in
            Inr (Continue (emit (if is_float then FLOAT else INT_T) value
                             (lx_line lx) (lx_column lx) lx')))
         else if py_isalpha ch \<or> ch = CHR ''_'' then
           (let (word, lx') = read_identifier lx in
            Inr (Continue (emit (word_type word) word (lx_line lx) (lx_column lx) lx')))
         else
           (case two_char_token ch (peek_char 1 lx) of
              Some (t, v) \<Rightarrow>
                Inr (Continue (advance (advance (emit t v (lx_line lx) (lx_column lx) lx))))
            | None \<Rightarrow>
                (case map_of single_char_tokens ch of
                   Some t \<Rightarrow> Inr (Continue (advance (emit t [ch] (lx_line lx) (lx_column lx) lx)))
                 | None \<Rightarrow> Inl (LexError (UnexpectedCharacter ch) (lx_line lx) (lx_column lx)))))"

definition tokenize_step :: "lexer \<Rightarrow> (lex_error, loop_ctl) result" where
  "tokenize_step lx =
    (if at_line_start lx then
       bind_r (measure_indent (lx\<lparr>at_line_start := False\<rparr>)) (\<lambda>(indent_level, lx1).
         case current_char lx1 of
           None \<Rightarrow> Inr (Break lx1)
         | Some ch \<Rightarrow>
             if ch = newline then Inr (Continue ((advance lx1)\<lparr>at_line_start := True\<rparr>))
             else if ch = CHR ''#'' then Inr (Continue (skip_comment lx1))
             else bind_r (handle_indentation indent_level lx1) scan_token)
     else scan_token lx)"

subsection \<open>Progress of the readers\<close>

text \<open>\<open>reads lx lx'\<close>: the cursor has only advanced; everything else is as before.\<close>

definition reads :: "lexer \<Rightarrow> lexer \<Rightarrow> bool" where
  "reads lx lx' \<longleftrightarrow> (\<exists>n. lx' = (advance ^^ n) lx)"

lemma reads_refl [simp]: "reads lx lx"
  unfolding reads_def by (rule exI [of _ 0]) simp

lemma reads_trans: "reads lx lx' \<Longrightarrow> reads lx' lx'' \<Longrightarrow> reads lx lx''"
  unfolding reads_def by (metis comp_apply funpow_add)

lemma reads_advance [simp]: "reads lx (advance lx)"
  unfolding reads_def by (rule exI [of _ 1]) simp

lemma reads_advanceI: "reads (advance lx) lx' \<Longrightarrow> reads lx lx'"
  by (rule reads_trans [OF reads_advance])

lemma reads_advance3 [simp]: "reads lx (advance3 lx)"
  unfolding advance3_def by (rule reads_advanceI, rule reads_advanceI, rule reads_advance)

lemma reads_preserves:
  assumes "reads lx lx'" "Q lx" and step: "\<And>l. Q l \<Longrightarrow> Q (advance l)"
  shows "Q lx'"
proof -
  have "Q ((advance ^^ n) lx)" for n
  proof (induction n)
    case 0
    from assms(2) show ?case by simp
  next
    case (Suc n)
    from step [OF Suc] show ?case by simp
  qed
  with assms(1) show ?thesis by (auto simp: reads_def)
qed

lemma funpow_advance_frame:
  "lx_text ((advance ^^ n) lx) = lx_text lx \<and> lx_tokens ((advance ^^ n) lx) = lx_tokens lx \<and>
   indent_stack ((advance ^^ n) lx) = indent_stack lx \<and> lx_pos lx \<le> lx_pos ((advance ^^ n) lx)"
  by (induction n) (simp_all add: lx_pos_advance)

lemma reads_frame:
  assumes "reads lx lx'"
  shows "lx_text lx' = lx_text lx" "lx_tokens lx' = lx_tokens lx"
    "indent_stack lx' = indent_stack lx" "lx_pos lx \<le> lx_pos lx'"
  using assms funpow_advance_frame by (auto simp: reads_def)

declare advance_while.simps [simp del] read_string_loop.simps [simp del]
  read_triple_loop.simps [simp del] measure_indent_loop.simps [simp del]

lemma reads_advance_while: "reads lx (advance_while P lx)"
proof (induction P lx rule: advance_while.induct)
  case (1 P lx)
  then show ?case
    by (subst advance_while.simps)
      (auto split: option.splits intro: reads_advanceI)
qed

lemma advance_while_strict:
  assumes "current_char lx = Some c" "P c"
  shows "lx_pos lx < lx_pos (advance_while P lx)"
proof -
  have "lx_pos lx < lx_pos (advance lx)"
    using assms(1) by (simp add: lx_pos_advance current_char_Some)
  also have "\<dots> \<le> lx_pos (advance_while P (advance lx))"
    using reads_advance_while [of "advance lx" P] by (rule reads_frame)
  finally show ?thesis
    using assms by (subst advance_while.simps) simp
qed

lemma reads_read_string_loop: "read_string_loop q acc lx = (v, lx') \<Longrightarrow> reads lx lx'"
proof (induction q acc lx rule: read_string_loop.induct)
  case (1 q acc lx)
  show ?case
    using 1 by (subst (asm) (3) read_string_loop.simps)
      (auto split: option.splits if_splits intro: reads_advanceI)
qed

lemma reads_read_triple_loop: "read_triple_loop q s acc lx = Inr (v, lx') \<Longrightarrow> reads lx lx'"
proof (induction q s acc lx rule: read_triple_loop.induct)
  case (1 q s acc lx)
  show ?case
    using 1 by (subst (asm) (2) read_triple_loop.simps)
      (auto split: option.splits if_splits intro: reads_advanceI)
qed

lemma reads_measure_indent_loop: "measure_indent_loop n lx = Inr (m, lx') \<Longrightarrow> reads lx lx'"
proof (induction n lx rule: measure_indent_loop.induct)
  case (1 n lx)
  show ?case
    using 1 by (subst (asm) (2) measure_indent_loop.simps)
      (auto split: option.splits if_splits intro: reads_advanceI)
qed

lemma pos_advance_gt: "current_char lx = Some c \<Longrightarrow> lx_pos lx < lx_pos (advance lx)"
  by (simp add: lx_pos_advance current_char_Some)

lemma reads_gt_trans:
  "lx_pos lx < lx_pos lx' \<Longrightarrow> reads lx' lx'' \<Longrightarrow> lx_pos lx < lx_pos lx''"
  using reads_frame(4) by (meson less_le_trans)

lemma reads_skip_comment [simp]: "reads lx (skip_comment lx)"
  by (simp add: skip_comment_def reads_advance_while)

lemma reads_measure_indent: "measure_indent lx = Inr (n, lx') \<Longrightarrow> reads lx lx'"
  by (simp add: measure_indent_def reads_measure_indent_loop)

lemma skip_comment_strict:
  "current_char lx = Some c \<Longrightarrow> c \<noteq> newline \<Longrightarrow> lx_pos lx < lx_pos (skip_comment lx)"
  by (simp add: skip_comment_def advance_while_strict)

lemma read_identifier_reads:
  assumes "read_identifier lx = (w, lx')" "current_char lx = Some c" "ident_char c"
  shows "reads lx lx' \<and> lx_pos lx < lx_pos lx'"
  using assms reads_advance_while [of lx ident_char]
  by (auto simp: read_identifier_def Let_def intro: advance_while_strict)

lemma read_number_reads:
  assumes "read_number lx = ((v, f), lx')" "current_char lx = Some c" "py_isdigit c"
  shows "reads lx lx' \<and> lx_pos lx < lx_pos lx'"
proof -
  let ?l1 = "advance_while py_isdigit lx"
  have l1: "reads lx ?l1" "lx_pos lx < lx_pos ?l1"
    using assms(2,3) by (auto intro: reads_advance_while advance_while_strict)
  have "reads ?l1 (advance_while py_isdigit (advance ?l1))"
    by (rule reads_advanceI) (rule reads_advance_while)
  with l1 assms(1) show ?thesis
    by (auto simp: read_number_def Let_def intro: reads_trans reads_gt_trans split: if_splits)
qed

lemma read_string_reads:
  assumes "read_string lx = Inr ((v, d), lx')" "current_char lx = Some c"
  shows "reads lx lx' \<and> lx_pos lx < lx_pos lx'"
proof -
  have gt: "lx_pos lx < lx_pos (advance lx)" using assms(2) by (rule pos_advance_gt)
  have gt3: "lx_pos lx < lx_pos (advance3 lx)"
    unfolding advance3_def by (rule reads_gt_trans [OF gt]) (auto intro: reads_advanceI)
  show ?thesis
  proof (cases "peek_char 1 lx = Some c \<and> peek_char 2 lx = Some c")
    case True
    with assms have "reads (advance3 lx) lx'"
      by (auto simp: read_string_def read_triple_quoted_string_def intro: reads_read_triple_loop)
    with gt3 show ?thesis using reads_trans [OF reads_advance3] reads_gt_trans by blast
  next
    case False
    then obtain lx1 where "read_string_loop c [] (advance lx) = (v, lx1)" "lx' = advance lx1"
      using assms by (auto simp: read_string_def Let_def split: prod.splits if_splits)
    then have "reads (advance lx) lx'"
      by (auto intro: reads_trans reads_read_string_loop)
    with gt show ?thesis by (auto intro: reads_advanceI reads_gt_trans)
  qed
qed

lemma handle_indentation_pos:
  "handle_indentation n lx = Inr lx' \<Longrightarrow> lx_text lx' = lx_text lx \<and> lx_pos lx' = lx_pos lx"
  by (auto simp: handle_indentation_def Let_def split: list.splits if_splits prod.splits)

lemma scan_token_progress:
  assumes "scan_token lx = Inr (Continue lx')"
  shows "lx_text lx' = lx_text lx \<and> lx_pos lx < lx_pos lx'"
proof -
  obtain ch where ch: "current_char lx = Some ch"
    using assms by (auto simp: scan_token_def split: option.splits)
  have adv: "lx_pos lx < lx_pos (advance lx)" using ch by (rule pos_advance_gt)
  have adv_emit: "lx_pos lx < lx_pos (advance (emit t v l c lx))" for t v l c
    using ch by (simp add: lx_pos_advance current_char_Some)
  have adv2_emit: "lx_pos lx < lx_pos (advance (advance (emit t v l c lx)))" for t v l c
    by (rule reads_gt_trans [OF adv_emit]) (rule reads_advance)
  have skip: "ch = CHR ''#'' \<Longrightarrow> lx_pos lx < lx_pos (skip_comment lx) \<and>
      lx_text (skip_comment lx) = lx_text lx"
    using ch skip_comment_strict [OF ch] reads_frame(1) [OF reads_skip_comment [of lx]]
    by (auto simp: newline_def)
  have num: "lx_text l2 = lx_text lx \<and> lx_pos lx < lx_pos l2"
    if "read_number lx = ((v, f), l2)" "py_isdigit ch" for v f l2
    using read_number_reads [OF that(1) ch that(2)] by (auto dest: reads_frame)
  have ident: "lx_text l2 = lx_text lx \<and> lx_pos lx < lx_pos l2"
    if "read_identifier lx = (w, l2)" "py_isalpha ch \<or> ch = CHR ''_''" for w l2
    using read_identifier_reads [OF that(1) ch] that(2)
    by (auto simp: ident_char_def py_isalnum_def dest: reads_frame)
  have str: "lx_text l2 = lx_text lx \<and> lx_pos lx < lx_pos l2"
    if "read_string lx = Inr ((v, d), l2)" for v d l2
    using read_string_reads [OF that ch] by (auto dest: reads_frame)
  show ?thesis
    using assms ch adv adv_emit adv2_emit skip
    by (auto simp: scan_token_def Let_def split: if_splits prod.splits option.splits
        dest: num ident str)
qed

lemma tokenize_step_progress [progress]:
  assumes "tokenize_step lx = Inr (Continue lx')"
  shows "lx_text lx' = lx_text lx \<and> lx_pos lx < lx_pos lx'"
proof (cases "at_line_start lx")
  case False
  with assms show ?thesis by (simp add: tokenize_step_def scan_token_progress)
next
  case True
  then obtain n lx1 ch where m: "measure_indent (lx\<lparr>at_line_start := False\<rparr>) = Inr (n, lx1)"
    and ch: "current_char lx1 = Some ch"
    using assms by (auto simp: tokenize_step_def split: option.splits)
  have r: "lx_text lx1 = lx_text lx" "lx_pos lx \<le> lx_pos lx1"
    using reads_frame [OF reads_measure_indent [OF m]] by simp_all
  show ?thesis
  proof (cases "ch = newline \<or> ch = CHR ''#''")
    case True
    with assms m ch r \<open>at_line_start lx\<close> show ?thesis
      using pos_advance_gt [OF ch] skip_comment_strict [OF ch]
        reads_frame(1) [OF reads_skip_comment [of lx1]]
      by (auto simp: tokenize_step_def newline_def split: if_splits)
  next
    case False
    then obtain lx2 where "handle_indentation n lx1 = Inr lx2" "scan_token lx2 = Inr (Continue lx')"
      using assms m ch \<open>at_line_start lx\<close> by (auto simp: tokenize_step_def)
    with r show ?thesis
      using handle_indentation_pos [of n lx1 lx2] scan_token_progress [of lx2 lx'] by simp
  qed
qed

subsection \<open>The loop and the final tokens\<close>

function tokenize_loop :: "lexer \<Rightarrow> (lex_error, lexer) result" where
  "tokenize_loop lx =
    (if lx_pos lx < length (lx_text lx) then
       (case tokenize_step lx of
          Inl e \<Rightarrow> Inl e
        | Inr (Break lx') \<Rightarrow> Inr lx'
        | Inr (Continue lx') \<Rightarrow> tokenize_loop lx')
     else Inr lx)"
  by pat_completeness auto
termination
  by (relation "measure remaining") (auto simp: remaining_def dest: tokenize_step_progress)

declare tokenize_loop.simps [simp del]

definition finish :: "lexer \<Rightarrow> Token list" where
  "finish lx =
    (let lx1 = (if lx_tokens lx \<noteq> [] \<and> tk_type (last (lx_tokens lx)) \<noteq> NEWLINE
                then emit NEWLINE [newline] (lx_line lx) (lx_column lx) lx else lx);
         lx2 = emit_remaining_dedents lx1
     in lx_tokens (emit EOF [] (lx_line lx2) (lx_column lx2) lx2))"

definition tokenize :: "string \<Rightarrow> (lex_error, Token list) result" where
  "tokenize source = bind_r (tokenize_loop (new_lexer source)) (\<lambda>lx. Inr (finish lx))"
end
