(* ===== verification/Lexer_Correct.thy ===== *)
theory Lexer_Correct
  imports Lexer
begin

text \<open>
  Correctness of the tokenizer: the invariant of the main loop (indentation stack, layout
  brackets, source positions) and what it gives for the token stream.
\<close>

section \<open>Reference notions\<close>

text \<open>The block depth after a token list, \<^const>\<open>None\<close> if some DEDENT closes no INDENT.\<close>

fun layout_depth :: "nat \<Rightarrow> Token list \<Rightarrow> nat option" where
  "layout_depth d [] = Some d"
| "layout_depth d (t # ts) =
    (if tk_type t = INDENT then layout_depth (Suc d) ts
     else if tk_type t = DEDENT then (case d of 0 \<Rightarrow> None | Suc d' \<Rightarrow> layout_depth d' ts)
     else layout_depth d ts)"

definition well_bracketed :: "Token list \<Rightarrow> bool" where
  "well_bracketed toks \<longleftrightarrow> layout_depth 0 toks = Some 0"

text \<open>Line and column of an offset, computed from the text alone.\<close>

fun step_position :: "nat \<times> nat \<Rightarrow> char \<Rightarrow> nat \<times> nat" where
  "step_position (l, c) ch = (if ch = newline then (l + 1, 1) else (l, c + 1))"

definition position_of :: "string \<Rightarrow> nat \<Rightarrow> nat \<times> nat" where
  "position_of source k = foldl step_position (1, 1) (take k source)"

lemma layout_depth_append:
  "layout_depth d (xs @ ys) = Option.bind (layout_depth d xs) (\<lambda>d'. layout_depth d' ys)"
  by (induction d xs rule: layout_depth.induct) (auto split: nat.splits)

lemma position_of_Suc:
  "k < length s \<Longrightarrow> position_of s (Suc k) = step_position (position_of s k) (s ! k)"
  by (simp add: position_of_def take_Suc_conv_app_nth)

section \<open>Positions\<close>

definition pos_ok :: "lexer \<Rightarrow> bool" where
  "pos_ok lx \<longleftrightarrow>
    lx_pos lx \<le> length (lx_text lx) \<and> position_of (lx_text lx) (lx_pos lx) = (lx_line lx, lx_column lx)"

lemma pos_ok_advance: "pos_ok lx \<Longrightarrow> pos_ok (advance lx)"
  by (auto simp: pos_ok_def advance_def position_of_Suc)

lemma pos_ok_emit [simp]: "pos_ok (emit t v l c lx) = pos_ok lx"
  by (simp add: pos_ok_def)

lemma pos_ok_fields [simp]:
  "pos_ok (lx\<lparr>at_line_start := b\<rparr>) = pos_ok lx"
  "pos_ok (lx\<lparr>indent_stack := st\<rparr>) = pos_ok lx"
  "pos_ok (lx\<lparr>lx_tokens := toks\<rparr>) = pos_ok lx"
  by (simp_all add: pos_ok_def)

lemma pos_ok_reads: "reads lx lx' \<Longrightarrow> pos_ok lx \<Longrightarrow> pos_ok lx'"
  by (erule reads_preserves) (auto intro: pos_ok_advance)

text \<open>A source position of a token or an error: that of an offset, or the start of its line for
  the layout tokens and the indentation error.\<close>

definition at_source :: "string \<Rightarrow> nat \<Rightarrow> nat \<Rightarrow> bool" where
  "at_source s l c \<longleftrightarrow> (\<exists>k \<le> length s. position_of s k = (l, c))"

definition on_line :: "string \<Rightarrow> nat \<Rightarrow> bool" where
  "on_line s l \<longleftrightarrow> (\<exists>c. at_source s l c)"

definition token_located :: "string \<Rightarrow> Token \<Rightarrow> bool" where
  "token_located s t \<longleftrightarrow>
    at_source s (tk_line t) (tk_column t) \<or>
    (tk_type t \<in> {INDENT, DEDENT} \<and> tk_column t = 1 \<and> on_line s (tk_line t))"

lemma pos_ok_at_source: "pos_ok lx \<Longrightarrow> at_source (lx_text lx) (lx_line lx) (lx_column lx)"
  unfolding pos_ok_def at_source_def by metis

lemma pos_ok_on_line: "pos_ok lx \<Longrightarrow> on_line (lx_text lx) (lx_line lx)"
  unfolding on_line_def using pos_ok_at_source by blast

section \<open>The loop invariant\<close>

definition stack_ok :: "nat list \<Rightarrow> bool" where
  "stack_ok st \<longleftrightarrow> st \<noteq> [] \<and> last st = 0 \<and> sorted_wrt (>) st"

definition tokens_ok :: "string \<Rightarrow> nat list \<Rightarrow> Token list \<Rightarrow> bool" where
  "tokens_ok s st toks \<longleftrightarrow>
    layout_depth 0 toks = Some (length st - 1) \<and>
    (\<forall>t\<in>set toks. tk_type t \<noteq> EOF \<and> token_located s t)"

definition lex_inv :: "lexer \<Rightarrow> bool" where
  "lex_inv lx \<longleftrightarrow> pos_ok lx \<and> stack_ok (indent_stack lx) \<and>
    tokens_ok (lx_text lx) (indent_stack lx) (lx_tokens lx)"

lemma stack_ok_Cons: "stack_ok (s # s' # st) \<longleftrightarrow> s' < s \<and> stack_ok (s' # st)"
  by (auto simp: stack_ok_def)

lemma tokens_ok_append:
  assumes "tokens_ok s st toks" "tk_type t \<notin> {INDENT, DEDENT, EOF}" "token_located s t"
  shows "tokens_ok s st (toks @ [t])"
  using assms by (auto simp: tokens_ok_def layout_depth_append)

lemma tokens_ok_INDENT:
  assumes "tokens_ok s (x # st) toks" "on_line s l"
  shows "tokens_ok s (n # x # st) (toks @ [mk_token INDENT [] l (Suc 0)])"
  using assms by (auto simp: tokens_ok_def layout_depth_append token_located_def)

lemma tokens_ok_DEDENT:
  assumes "tokens_ok s (n # x # st) toks" "token_located s (mk_token DEDENT [] l c)"
  shows "tokens_ok s (x # st) (toks @ [mk_token DEDENT [] l c])"
  using assms by (auto simp: tokens_ok_def layout_depth_append)

lemma pop_indents_ok:
  assumes "pop_indents lvl ln st toks = (st', toks')" "stack_ok st" "tokens_ok s st toks"
    "on_line s ln"
  shows "stack_ok st' \<and> tokens_ok s st' toks' \<and> (\<forall>x\<in>set st'. x \<le> lvl)"
  using assms
proof (induction lvl ln st toks rule: pop_indents.induct)
  case (1 lvl ln toks)
  then show ?case by (simp add: stack_ok_def)
next
  case (2 lvl ln x st toks)
  show ?case
  proof (cases "lvl < x")
    case False
    with 2 show ?thesis by (force simp: stack_ok_def)
  next
    case True
    then obtain y st2 where st: "st = y # st2"
      using "2.prems"(2) by (cases st) (auto simp: stack_ok_def)
    have "token_located s (mk_token DEDENT [] ln 1)"
      using "2.prems"(4) by (simp add: token_located_def)
    then have "tokens_ok s st (toks @ [mk_token DEDENT [] ln 1])"
      using "2.prems"(3) st by (simp add: tokens_ok_DEDENT)
    moreover have "stack_ok st" using "2.prems"(2) st by (simp add: stack_ok_Cons)
    ultimately show ?thesis
      using 2 True by simp
  qed
qed

lemma handle_indentation_inv:
  assumes "lex_inv lx" "handle_indentation lvl lx = Inr lx'"
  shows "lex_inv lx'"
proof -
  obtain x st where st: "indent_stack lx = x # st"
    using assms(2) by (auto simp: handle_indentation_def split: list.splits)
  note inv = assms(1) [unfolded lex_inv_def st]
  have line: "on_line (lx_text lx) (lx_line lx)" using inv pos_ok_on_line by blast
  consider "x < lvl" | "lvl < x" | "x = lvl" by linarith
  then show ?thesis
  proof cases
    case 1
    with assms st inv line show ?thesis
      by (auto simp: handle_indentation_def lex_inv_def stack_ok_Cons tokens_ok_INDENT)
  next
    case 2
    then obtain st' toks' where p: "pop_indents lvl (lx_line lx) (x # st) (lx_tokens lx) = (st', toks')"
      and lx': "lx' = lx\<lparr>indent_stack := st', lx_tokens := toks'\<rparr>"
      using assms(2) st by (auto simp: handle_indentation_def Let_def split: prod.splits list.splits if_splits)
    show ?thesis
      using pop_indents_ok [OF p _ _ line] inv lx' by (auto simp: lex_inv_def)
  next
    case 3
    with assms st show ?thesis by (simp add: handle_indentation_def)
  qed
qed

lemma scan_token_effect:
  assumes "scan_token lx = Inr r" "lex_inv lx"
  shows "case r of Break lx' \<Rightarrow> lx' = lx | Continue lx' \<Rightarrow> lex_inv lx'"
proof (cases "current_char lx")
  case None
  with assms show ?thesis by (auto simp: scan_token_def)
next
  case (Some ch)
  note inv = assms(2) [unfolded lex_inv_def]
  let ?l = "lx_line lx" and ?c = "lx_column lx"
  have loc: "token_located (lx_text lx) (mk_token t v ?l ?c)" for t v
    using inv pos_ok_at_source by (simp add: token_located_def)
  have app: "tokens_ok (lx_text lx) (indent_stack lx) (lx_tokens lx @ [mk_token t v ?l ?c])"
    if "t \<notin> {INDENT, DEDENT, EOF}" for t v
    using inv that loc by (auto intro!: tokens_ok_append)
  have reader: "lex_inv l2 \<and> (t \<notin> {INDENT, DEDENT, EOF} \<longrightarrow> lex_inv (emit t v ?l ?c l2))"
    if "reads lx l2" for t v l2
    using that inv app [of t v] reads_frame [OF that] pos_ok_reads [OF that]
    by (auto simp: lex_inv_def)
  have emit_inv: "lex_inv (emit t v ?l ?c lx)" if "t \<notin> {INDENT, DEDENT, EOF}" for t v
    using reader [OF reads_refl] that by blast
  have adv_inv: "lex_inv l \<Longrightarrow> lex_inv (advance l)" for l
    by (auto simp: lex_inv_def pos_ok_advance)
  have start_inv: "lex_inv (l\<lparr>at_line_start := b\<rparr>) = lex_inv l" for l b
    by (simp add: lex_inv_def)
  have two: "t \<notin> {INDENT, DEDENT, EOF}" if "two_char_token ch x = Some (t, v)" for t v x
    using that by (auto simp: two_char_token_def split: if_splits)
  have one: "t \<notin> {INDENT, DEDENT, EOF}" if "map_of single_char_tokens ch = Some t" for t
    using that by (auto simp: single_char_tokens_def split: if_splits)
  have num: "reads lx l2" if "read_number lx = ((v, f), l2)" "py_isdigit ch" for v f l2
    using read_number_reads [OF that(1) Some that(2)] by simp
  have ident: "reads lx l2" if "read_identifier lx = (w, l2)" "py_isalpha ch \<or> ch = CHR ''_''" for w l2
    using read_identifier_reads [OF that(1) Some] that(2) by (auto simp: ident_char_def py_isalnum_def)
  have str: "reads lx l2" if "read_string lx = Inr ((v, d), l2)" for v d l2
    using read_string_reads [OF that Some] by simp
  show ?thesis
    using assms(1) Some
    by (auto simp: scan_token_def Let_def start_inv reader split: if_splits prod.splits option.splits
        intro!: adv_inv emit_inv dest: num ident str two one)
qed

lemma tokenize_step_inv:
  assumes "tokenize_step lx = Inr r" "lex_inv lx"
  shows "case r of Break lx' \<Rightarrow> lex_inv lx' | Continue lx' \<Rightarrow> lex_inv lx'"
proof (cases "at_line_start lx")
  case False
  with assms scan_token_effect [of lx r] show ?thesis
    by (simp add: tokenize_step_def split: loop_ctl.splits)
next
  case True
  let ?lx0 = "lx\<lparr>at_line_start := False\<rparr>"
  obtain n lx1 where m: "measure_indent ?lx0 = Inr (n, lx1)"
    using assms True by (auto simp: tokenize_step_def)
  have rd: "reads ?lx0 lx1" using m by (rule reads_measure_indent)
  have inv1: "lex_inv lx1"
    using assms(2) reads_frame [OF rd] pos_ok_reads [OF rd] by (simp add: lex_inv_def)
  have rdc: "reads lx1 (skip_comment lx1)" by simp
  have inv2: "lex_inv (skip_comment lx1)"
    using inv1 reads_frame [OF rdc] pos_ok_reads [OF rdc] by (simp add: lex_inv_def)
  have inv3: "lex_inv ((advance lx1)\<lparr>at_line_start := True\<rparr>)"
    using inv1 pos_ok_advance by (simp add: lex_inv_def)
  show ?thesis
    using assms(1) True m inv1 inv2 inv3 handle_indentation_inv [OF inv1, of n]
    by (auto simp: tokenize_step_def split: option.splits if_splits loop_ctl.splits
        dest: scan_token_effect)
qed

lemma scan_token_Break: "scan_token lx = Inr (Break lx') \<Longrightarrow> lx' = lx"
  by (auto simp: scan_token_def Let_def split: option.splits if_splits prod.splits)

lemma tokenize_step_Break_text:
  assumes "tokenize_step lx = Inr (Break lx')"
  shows "lx_text lx' = lx_text lx"
proof (cases "at_line_start lx")
  case False
  with assms show ?thesis by (auto simp: tokenize_step_def dest: scan_token_Break)
next
  case True
  then obtain n lx1 where m: "measure_indent (lx\<lparr>at_line_start := False\<rparr>) = Inr (n, lx1)"
    using assms by (auto simp: tokenize_step_def)
  have t: "lx_text lx1 = lx_text lx" using reads_frame(1) [OF reads_measure_indent [OF m]] by simp
  have "lx_text l2 = lx_text lx1" if "handle_indentation n lx1 = Inr l2" for l2
    using handle_indentation_pos [OF that] by simp
  with assms True m t show ?thesis
    by (auto simp: tokenize_step_def split: option.splits if_splits dest: scan_token_Break)
qed

lemma tokenize_loop_inv:
  "tokenize_loop lx = Inr lx' \<Longrightarrow> lex_inv lx \<Longrightarrow> lex_inv lx' \<and> lx_text lx' = lx_text lx"
proof (induction lx rule: tokenize_loop.induct)
  case (1 lx)
  show ?case
  proof (cases "lx_pos lx < length (lx_text lx)")
    case False
    with "1.prems" show ?thesis by (simp add: tokenize_loop.simps [of lx])
  next
    case True
    with "1.prems"(1) obtain r where r: "tokenize_step lx = Inr r"
      by (auto simp: tokenize_loop.simps [of lx] split: sum.splits)
    note inv = tokenize_step_inv [OF r "1.prems"(2)]
    show ?thesis
    proof (cases r)
      case (Break l)
      with "1.prems" r True inv tokenize_step_Break_text [of lx l] show ?thesis
        by (simp add: tokenize_loop.simps [of lx])
    next
      case (Continue l)
      then have "tokenize_loop l = Inr lx'"
        using "1.prems"(1) r True by (simp add: tokenize_loop.simps [of lx])
      with 1 True r Continue inv tokenize_step_progress [of lx l] show ?thesis by simp
    qed
  qed
qed

lemma new_lexer_inv: "lex_inv (new_lexer s)"
  by (simp add: lex_inv_def new_lexer_def pos_ok_def position_of_def stack_ok_def tokens_ok_def)

section \<open>The token stream\<close>

lemma drop_dedents_ok:
  assumes "drop_dedents l c st toks = (st', toks')" "tokens_ok s st toks" "at_source s l c" "st \<noteq> []"
  shows "tokens_ok s st' toks' \<and> length st' = 1"
  using assms
proof (induction l c st toks rule: drop_dedents.induct)
  case (1 ln col x y st toks)
  have "token_located s (mk_token DEDENT [] ln col)"
    using "1.prems"(3) by (simp add: token_located_def)
  then have "tokens_ok s (y # st) (toks @ [mk_token DEDENT [] ln col])"
    using "1.prems"(2) by (rule tokens_ok_DEDENT [rotated])
  with 1 show ?case by simp
qed auto

lemma finish_tokens:
  assumes "lex_inv lx"
  obtains body l c where "finish lx = body @ [mk_token EOF [] l c]"
    "tokens_ok (lx_text lx) [0] body" "at_source (lx_text lx) l c"
proof -
  let ?lx1 = "if lx_tokens lx \<noteq> [] \<and> tk_type (last (lx_tokens lx)) \<noteq> NEWLINE
              then emit NEWLINE [newline] (lx_line lx) (lx_column lx) lx else lx"
  note inv = assms [unfolded lex_inv_def]
  have src: "at_source (lx_text lx) (lx_line lx) (lx_column lx)"
    using inv pos_ok_at_source by blast
  have toks1: "tokens_ok (lx_text lx) (indent_stack lx) (lx_tokens ?lx1)"
    using inv src by (auto intro!: tokens_ok_append simp: token_located_def)
  obtain st' toks' where dd:
    "drop_dedents (lx_line ?lx1) (lx_column ?lx1) (indent_stack ?lx1) (lx_tokens ?lx1) = (st', toks')"
    by fastforce
  have ok: "tokens_ok (lx_text lx) st' toks' \<and> length st' = 1"
    by (rule drop_dedents_ok [OF dd]) (use toks1 src inv in \<open>auto simp: stack_ok_def\<close>)
  show thesis
  proof (rule that)
    show "finish lx = toks' @ [mk_token EOF [] (lx_line lx) (lx_column lx)]"
      using dd by (simp add: finish_def emit_remaining_dedents_def Let_def)
    show "tokens_ok (lx_text lx) [0] toks'" using ok by (simp add: tokens_ok_def)
  qed (rule src)
qed

lemma tokenize_finishes:
  assumes "tokenize s = Inr toks"
  obtains body l c where "toks = body @ [mk_token EOF [] l c]" "tokens_ok s [0] body" "at_source s l c"
proof -
  obtain lx where "tokenize_loop (new_lexer s) = Inr lx" and toks: "toks = finish lx"
    using assms by (auto simp: tokenize_def)
  then have "lex_inv lx" "lx_text lx = s"
    using tokenize_loop_inv [of "new_lexer s" lx] new_lexer_inv by (auto simp: new_lexer_def)
  then show thesis using finish_tokens [of lx] that toks by metis
qed

section \<open>Errors\<close>

definition error_located :: "string \<Rightarrow> lex_error \<Rightarrow> bool" where
  "error_located s e \<longleftrightarrow>
    (\<exists>m l c. e = LexError m l c \<and> (at_source s l c \<or> (c = 1 \<and> on_line s l)))"

lemma error_located_here: "pos_ok lx \<Longrightarrow> error_located (lx_text lx) (LexError m (lx_line lx) (lx_column lx))"
  using pos_ok_at_source by (auto simp: error_located_def)

lemma read_triple_loop_error:
  "read_triple_loop q sl acc lx = Inl e \<Longrightarrow> pos_ok lx \<Longrightarrow> error_located (lx_text lx) e"
proof (induction q sl acc lx rule: read_triple_loop.induct)
  case (1 q sl acc lx)
  show ?case
  proof (cases "current_char lx")
    case None
    with 1 show ?thesis by (auto simp: read_triple_loop.simps [of q sl acc lx] error_located_here)
  next
    case (Some ch)
    with 1 have "\<not> closes_triple q lx" "read_triple_loop q sl (acc @ [ch]) (advance lx) = Inl e"
      by (auto simp: read_triple_loop.simps [of q sl acc lx] split: if_splits)
    with 1 Some pos_ok_advance [of lx] show ?thesis by simp
  qed
qed

lemma measure_indent_loop_error:
  "measure_indent_loop n lx = Inl e \<Longrightarrow> pos_ok lx \<Longrightarrow> error_located (lx_text lx) e"
proof (induction n lx rule: measure_indent_loop.induct)
  case (1 n lx)
  show ?case
  proof (cases "current_char lx = Some (CHR '' '')")
    case True
    with 1 pos_ok_advance [of lx] show ?thesis by (simp add: measure_indent_loop.simps [of n lx])
  next
    case False
    with 1 show ?thesis
      by (auto simp: measure_indent_loop.simps [of n lx] error_located_here
          split: option.splits if_splits)
  qed
qed

lemma read_string_error:
  assumes "read_string lx = Inl e" "pos_ok lx"
  shows "error_located (lx_text lx) e"
proof (cases "current_char lx")
  case None
  with assms show ?thesis by (auto simp: read_string_def error_located_here)
next
  case (Some q)
  show ?thesis
  proof (cases "peek_char 1 lx = Some q \<and> peek_char 2 lx = Some q")
    case True
    then have "read_triple_loop q (lx_line (advance3 lx)) [] (advance3 lx) = Inl e"
      using assms Some by (auto simp: read_string_def read_triple_quoted_string_def bind_r_Inl_iff)
    then show ?thesis
      using read_triple_loop_error pos_ok_reads [OF reads_advance3 assms(2)]
        reads_frame(1) [OF reads_advance3] by metis
  next
    case False
    then obtain v lx1 where l1: "read_string_loop q [] (advance lx) = (v, lx1)"
      and e: "e = LexError UnterminatedString (lx_line lx1) (lx_column lx1)"
      using assms Some by (auto simp: read_string_def Let_def split: prod.splits if_splits)
    have "reads lx lx1" by (rule reads_advanceI) (rule reads_read_string_loop [OF l1])
    with e assms(2) error_located_here pos_ok_reads reads_frame(1) show ?thesis by metis
  qed
qed

lemma scan_token_error: "scan_token lx = Inl e \<Longrightarrow> pos_ok lx \<Longrightarrow> error_located (lx_text lx) e"
  by (auto simp: scan_token_def Let_def bind_r_Inl_iff error_located_here
      split: option.splits if_splits prod.splits dest: read_string_error)

lemma handle_indentation_error:
  assumes "handle_indentation n lx = Inl e" "lex_inv lx"
  shows "error_located (lx_text lx) e"
proof -
  obtain x st where st: "indent_stack lx = x # st"
    using assms(2) by (cases "indent_stack lx") (auto simp: lex_inv_def stack_ok_def)
  note inv = assms(2) [unfolded lex_inv_def st]
  have line: "on_line (lx_text lx) (lx_line lx)" using inv pos_ok_on_line by blast
  obtain st' toks' where p: "pop_indents n (lx_line lx) (x # st) (lx_tokens lx) = (st', toks')"
    by fastforce
  have "st' \<noteq> []" using pop_indents_ok [OF p _ _ line] inv by (simp add: stack_ok_def)
  with assms st p line show ?thesis
    by (auto simp: handle_indentation_def Let_def error_located_def split: list.splits if_splits)
qed

lemma tokenize_step_error:
  assumes "tokenize_step lx = Inl e" "lex_inv lx"
  shows "error_located (lx_text lx) e"
proof (cases "at_line_start lx")
  case False
  with assms show ?thesis by (simp add: tokenize_step_def scan_token_error lex_inv_def)
next
  case True
  let ?lx0 = "lx\<lparr>at_line_start := False\<rparr>"
  show ?thesis
  proof (cases "measure_indent ?lx0")
    case (Inl e')
    with assms True measure_indent_loop_error [of 0 ?lx0 e] show ?thesis
      by (simp add: tokenize_step_def measure_indent_def lex_inv_def)
  next
    case (Inr r)
    obtain n lx1 where m: "measure_indent ?lx0 = Inr (n, lx1)" using Inr by (cases r) simp
    have rd: "reads ?lx0 lx1" using m by (rule reads_measure_indent)
    have inv1: "lex_inv lx1" and t: "lx_text lx1 = lx_text lx"
      using assms(2) reads_frame [OF rd] pos_ok_reads [OF rd] by (simp_all add: lex_inv_def)
    have "handle_indentation n lx1 = Inl e \<or>
        (\<exists>lx2. handle_indentation n lx1 = Inr lx2 \<and> scan_token lx2 = Inl e)"
      using assms(1) True m by (auto simp: tokenize_step_def bind_r_Inl_iff split: option.splits if_splits)
    then show ?thesis
      using handle_indentation_error [OF _ inv1] handle_indentation_inv [OF inv1] t
        handle_indentation_pos scan_token_error
      unfolding lex_inv_def by metis
  qed
qed

lemma tokenize_loop_error: "tokenize_loop lx = Inl e \<Longrightarrow> lex_inv lx \<Longrightarrow> error_located (lx_text lx) e"
proof (induction lx rule: tokenize_loop.induct)
  case (1 lx)
  have pos: "lx_pos lx < length (lx_text lx)"
    using "1.prems"(1) by (simp add: tokenize_loop.simps [of lx] split: if_splits)
  consider "tokenize_step lx = Inl e"
    | l where "tokenize_step lx = Inr (Continue l)" "tokenize_loop l = Inl e"
    using "1.prems"(1) pos by (auto simp: tokenize_loop.simps [of lx] split: sum.splits loop_ctl.splits)
  then show ?case
  proof cases
    case 1
    then show ?thesis using "1.prems"(2) by (rule tokenize_step_error)
  next
    case 2
    then have "error_located (lx_text l) e"
      using "1.IH" [OF pos] tokenize_step_inv [OF 2(1) "1.prems"(2)] by simp
    then show ?thesis using tokenize_step_progress [OF 2(1)] by simp
  qed
qed

section \<open>Properties\<close>

text \<open>C25: When \<open>Lexer.tokenize\<close> returns, its last token is EOF and no other token is, and
  its INDENT and DEDENT tokens are well bracketed: no DEDENT closes a block that is not open, and
  every block is closed at the end.\<close>

theorem tokenize_layout:
  assumes "tokenize s = Inr toks"
  shows "\<exists>body eof. toks = body @ [eof] \<and> tk_type eof = EOF \<and>
    (\<forall>t\<in>set body. tk_type t \<noteq> EOF) \<and> well_bracketed toks"
proof -
  obtain body l c where "toks = body @ [mk_token EOF [] l c]" "tokens_ok s [0] body"
    using tokenize_finishes [OF assms] .
  then show ?thesis
    by (auto simp: tokens_ok_def well_bracketed_def layout_depth_append)
qed

definition layout_sample :: string where
  "layout_sample = ''a:'' @ [newline] @ ''  b'' @ [newline] @ ''c''"

theorem tokenize_layout_witness:
  "\<exists>toks. tokenize layout_sample = Inr toks \<and> well_bracketed toks \<and>
     map tk_type toks = [IDENT, COLON, NEWLINE, INDENT, IDENT, NEWLINE, DEDENT, IDENT, NEWLINE, EOF]"
proof -
  have "map_sum id (map tk_type) (tokenize layout_sample) =
      Inr [IDENT, COLON, NEWLINE, INDENT, IDENT, NEWLINE, DEDENT, IDENT, NEWLINE, EOF]"
    by code_simp
  then obtain toks where t: "tokenize layout_sample = Inr toks"
    "map tk_type toks = [IDENT, COLON, NEWLINE, INDENT, IDENT, NEWLINE, DEDENT, IDENT, NEWLINE, EOF]"
    by (cases "tokenize layout_sample") (simp_all only: map_sum.simps sum.inject sum.distinct id_apply)
  have "well_bracketed toks" using tokenize_layout [OF t(1)] by (elim exE conjE)
  with t show ?thesis by (intro exI [of _ toks] conjI)
qed

text \<open>Every token and every lexical error carries a real position of the source: the line and
  column that counting characters from the start of the text gives for some offset (layout
  tokens and the indentation error name the start of such a line); the only exception raised is
  \<open>LexError\<close>, never an index error on the indentation stack.\<close>

theorem tokenize_located:
  "case tokenize s of
     Inr toks \<Rightarrow> \<forall>t\<in>set toks. token_located s t
   | Inl e \<Rightarrow> error_located s e"
proof (cases "tokenize s")
  case (Inl e)
  then have "tokenize_loop (new_lexer s) = Inl e"
    by (auto simp: tokenize_def bind_r_Inl_iff)
  then have "error_located (lx_text (new_lexer s)) e"
    using new_lexer_inv by (rule tokenize_loop_error)
  with Inl show ?thesis by (simp add: new_lexer_def)
next
  case (Inr toks)
  obtain body l c where "toks = body @ [mk_token EOF [] l c]" "tokens_ok s [0] body" "at_source s l c"
    using tokenize_finishes [OF Inr] .
  with Inr show ?thesis by (auto simp: tokens_ok_def token_located_def)
qed

theorem tokenize_located_witness:
  "\<exists>toks. tokenize layout_sample = Inr toks \<and> length toks = 10 \<and> (\<forall>t\<in>set toks. token_located layout_sample t)"
proof -
  have "map_sum id length (tokenize layout_sample) = Inr 10" by code_simp
  then obtain toks where t: "tokenize layout_sample = Inr toks" "length toks = 10"
    by (cases "tokenize layout_sample") (simp_all only: map_sum.simps sum.inject sum.distinct id_apply)
  with tokenize_located [of layout_sample] show ?thesis by (intro exI [of _ toks]) simp
qed

end
