(* ===== verification/Py_Float.thy ===== *)
theory Py_Float
  imports Prelude Complex_Main
begin

text \<open>
  Python floats as the Charter DSL uses them. A finite IEEE double is a rational number, so a
  float is a rational, an infinity or not-a-number, and Python's exact comparison of ints with
  floats is comparison of rationals. \<open>float_literal\<close> is \<open>float(s)\<close> on the literals the lexer
  produces (digits, a point, digits): the decimal value rounded to the nearest double, ties to
  even.
\<close>

datatype py_float = Finite rat | PosInf | NegInf | NaN

fun bit_length :: "nat \<Rightarrow> nat" where
  "bit_length n = (if n = 0 then 0 else Suc (bit_length (n div 2)))"

declare bit_length.simps [simp del]

definition round_half_even :: "rat \<Rightarrow> int" where
  "round_half_even q =
    (let f = \<lfloor>q\<rfloor>; r = q - of_int f in
     if r < 1/2 then f else if 1/2 < r then f + 1 else if even f then f else f + 1)"

definition scale2 :: "int \<Rightarrow> rat \<Rightarrow> rat" where
  "scale2 e q = (if 0 \<le> e then q * 2 ^ nat e else q / 2 ^ nat (- e))"

text \<open>The exponent of the last place of the double nearest to a positive rational: 53 bits of
  precision, and never below the last place of the subnormals.\<close>

definition ulp_exponent :: "rat \<Rightarrow> int" where
  "ulp_exponent q =
    (let (n, d) = quotient_of q;
         e = int (bit_length (nat n)) - int (bit_length (nat d)) - 53
     in max (- 1074) (if 2 ^ 53 \<le> scale2 (- e) q then e + 1 else e))"

definition round_double :: "rat \<Rightarrow> py_float" where
  "round_double q =
    (let e = ulp_exponent q; v = scale2 e (of_int (round_half_even (scale2 (- e) q)))
     in if 2 ^ 1024 \<le> v then PosInf else Finite v)"

definition float_literal :: "string \<Rightarrow> py_float option" where
  "float_literal s =
    (let whole = takeWhile (\<lambda>c. c \<noteq> CHR ''.'') s; frac = drop (length whole + 1) s in
     if whole = [] \<or> frac = [] then None
     else (case digits_value 0 (whole @ frac) of
             None \<Rightarrow> None
           | Some n \<Rightarrow> Some (if n = 0 then Finite 0
                             else round_double (of_int n / 10 ^ length frac))))"

text \<open>The result of rounding to an integer is within one half, and integers round to themselves.\<close>

lemma round_half_even_error: "\<bar>of_int (round_half_even q) - q\<bar> \<le> 1/2"
proof -
  define f where "f = \<lfloor>q\<rfloor>"
  have "of_int f \<le> q" "q < of_int f + 1" unfolding f_def by linarith+
  then show ?thesis
    unfolding round_half_even_def Let_def f_def [symmetric] abs_le_iff by (simp add: field_simps)
qed

lemma round_half_even_of_int [simp]: "round_half_even (of_int n) = n"
  by (simp add: round_half_even_def)

end
