(* ===== verification/Ast.thy ===== *)
theory Ast
  imports Tokens Py_Float
begin

text \<open>
  The abstract syntax of charters (\<open>libs/canon/src/canon/dsl/ast.py\<close>): one record per frozen
  dataclass, in the order of the file, with the dataclass's fields in a prefix of its own; tuples
  are lists, optional fields are options. The union types of \<open>ArgNode.value\<close> and \<open>RequireNode.ref\<close>
  are datatypes. Fields with a default value are given by the parser at every construction.
\<close>

datatype literal = StrV string | IntV int | FloatV py_float | BoolV bool

record ArgNode =
  arg_name :: "string option"
  arg_value :: literal

record FeatureCallNode =
  call_name :: string
  call_args :: "ArgNode list"

text \<open>\<open>RequireNode.ref\<close>: a \<open>FeatureCallNode\<close>, a \<open>PhaseRefNode\<close> (phase, condition), a
  \<open>BuiltinRefNode\<close> or an \<open>AwaitRefNode\<close>.\<close>

datatype RequireNode =
    FeatureCall FeatureCallNode
  | PhaseRef string string
  | BuiltinRef string
  | AwaitRef string

record AwaitNode =
  aw_trigger :: string

record ActionNode =
  act_call :: FeatureCallNode

record OutputNode =
  out_type_name :: string

record CertifyNode =
  cert_qualifier :: string

record EvidenceNode =
  ev_type :: string

record GrantNode =
  gr_document_type :: string
  gr_ttl_minutes :: "int option"

record PredicateNode =
  pr_field :: string
  pr_operator :: string
  pr_value :: literal

record WhenBlockNode =
  wb_predicate :: PredicateNode
  wb_requires :: "RequireNode list"
  wb_actions :: "ActionNode list"
  wb_awaits :: "AwaitNode list"

record PhaseNode =
  ph_name :: string
  ph_requires :: "RequireNode list"
  ph_actions :: "ActionNode list"
  ph_outputs :: "OutputNode list"
  ph_grants :: "GrantNode list"
  ph_certify :: "CertifyNode option"
  ph_evidence :: "EvidenceNode option"
  ph_when_blocks :: "WhenBlockNode list"
  ph_awaits :: "AwaitNode list"

record WorkflowNode =
  wf_name :: string
  wf_phases :: "PhaseNode list"

record WaitingPeriodNode =
  wp_min_value :: int
  wp_max_value :: int
  wp_unit :: string

record SituationNode =
  si_predicate :: PredicateNode
  si_waiting_period :: "WaitingPeriodNode option"
  si_requires :: "RequireNode list"

record RoleNode =
  ro_name :: string
  ro_actions :: "string list"
  ro_break_glass :: bool
  ro_requires_mfa :: bool

record SchemaRefNode =
  sc_namespace :: string
  sc_version :: string

record PackageRefNode =
  pk_name :: string

record PolicyNode =
  po_policy_id :: string

record TriggerNode =
  tr_name :: string

record CharterNode =
  ch_name :: string
  ch_version :: string
  ch_schemas :: "SchemaRefNode list"
  ch_packages :: "PackageRefNode list"
  ch_policies :: "PolicyNode list"
  ch_triggers :: "TriggerNode list"
  ch_workflows :: "WorkflowNode list"
  ch_situations :: "SituationNode list"
  ch_roles :: "RoleNode list"

end
