(* ===== verification/Parser.thy ===== *)
theory Parser
  imports Ast
begin

text \<open>
  The recursive descent parser of the Charter DSL (\<open>libs/canon/src/canon/dsl/parser.py\<close>).

  The \<open>Parser\<close> object is the record \<open>parser\<close> (the token list and the position); a method is a function
  from the record to its result and the updated record, or to the exception it raises, and methods
  are sequenced with \<open>bind_p\<close>. A \<open>ParseError\<close> carries the fixed part of its message and the token it
  points at, from which the message takes type and value.

  The \<open>while\<close> loops of the methods are \<open>while_p\<close>, which has one unit of fuel per token of the stream
  and one more: every iteration consumes a token, so the fuel is enough whenever the stream ends
  in EOF, which is proved in \<open>Parser_Correct\<close>. On a stream whose last token is not EOF the Python
  loops may spin for ever on the last token, since \<open>advance\<close> never moves past it; there the model
  gives \<open>OutOfFuel\<close>.
\<close>

section \<open>State, errors, sequencing\<close>

record parser =
  ps_tokens :: "Token list"
  ps_pos :: nat

datatype parse_message =
    ExpectedToken TokenType
  | DuplicateSection string
  | ExpectedSection
  | ExpectedPackageName
  | EmptyWorkflow string
  | DuplicateCertify string
  | DuplicateEvidence string
  | ExpectedPhaseStatement
  | ExpectedIdentifierAfterRequire
  | ExpectedPhaseCondition string
  | ExpectedQualifier
  | ExpectedWhenStatement
  | ExpectedArgument
  | ExpectedValue
  | ExpectedSituationStatement
  | ExpectedComparator
  | ExpectedTimeUnit
  | ExpectedRoleProperty
  | ExpectedBool
  | ExpectedVersion

datatype parse_error =
    ParseError parse_message Token
  | ParseValueError \<comment> \<open>Python's ValueError: int() or float() of a numeral it rejects\<close>
  | ParseIndexError \<comment> \<open>Python's IndexError: the last token of an empty list\<close>
  | OutOfFuel \<comment> \<open>a loop that does not end\<close>

type_synonym 'a parsing = "parser \<Rightarrow> (parse_error, 'a \<times> parser) result"

definition return_p :: "'a \<Rightarrow> 'a parsing" where
  "return_p x ps = Inr (x, ps)"

definition bind_p :: "'a parsing \<Rightarrow> ('a \<Rightarrow> 'b parsing) \<Rightarrow> 'b parsing" where
  "bind_p m f ps = bind_r (m ps) (\<lambda>(x, ps'). f x ps')"

definition then_p :: "'a parsing \<Rightarrow> 'b parsing \<Rightarrow> 'b parsing" where
  "then_p m n = bind_p m (\<lambda>_. n)"

definition if_p :: "(parser \<Rightarrow> bool) \<Rightarrow> 'a parsing \<Rightarrow> 'a parsing \<Rightarrow> 'a parsing" where
  "if_p c m n ps = (if c ps then m ps else n ps)"

fun while_p :: "nat \<Rightarrow> (parser \<Rightarrow> bool) \<Rightarrow> ('a \<Rightarrow> 'a parsing) \<Rightarrow> 'a \<Rightarrow> 'a parsing" where
  "while_p 0 c body acc ps = Inl OutOfFuel"
| "while_p (Suc n) c body acc ps =
    (if c ps then bind_r (body acc ps) (\<lambda>(acc', ps'). while_p n c body acc' ps')
     else Inr (acc, ps))"

definition loop_p :: "(parser \<Rightarrow> bool) \<Rightarrow> ('a \<Rightarrow> 'a parsing) \<Rightarrow> 'a \<Rightarrow> 'a parsing" where
  "loop_p c body acc ps = while_p (Suc (length (ps_tokens ps))) c body acc ps"

section \<open>Navigation\<close>

definition new_parser :: "Token list \<Rightarrow> parser" where
  "new_parser toks = \<lparr>ps_tokens = toks, ps_pos = 0\<rparr>"

definition peek_token :: "nat \<Rightarrow> parser \<Rightarrow> Token" where
  "peek_token offset ps =
    (if ps_pos ps + offset \<ge> length (ps_tokens ps) then last (ps_tokens ps)
     else ps_tokens ps ! (ps_pos ps + offset))"

definition current_token :: "parser \<Rightarrow> Token" where
  "current_token ps =
    (if ps_pos ps \<ge> length (ps_tokens ps) then last (ps_tokens ps)
     else ps_tokens ps ! ps_pos ps)"

definition advance_p :: "Token parsing" where
  "advance_p ps =
    Inr (current_token ps,
         if ps_pos ps + 1 < length (ps_tokens ps) then ps\<lparr>ps_pos := ps_pos ps + 1\<rparr> else ps)"

definition error_p :: "parse_message \<Rightarrow> 'a parsing" where
  "error_p msg ps = Inl (ParseError msg (current_token ps))"

definition match :: "TokenType list \<Rightarrow> parser \<Rightarrow> bool" where
  "match types ps \<longleftrightarrow> tk_type (current_token ps) \<in> set types"

definition expect :: "TokenType \<Rightarrow> Token parsing" where
  "expect t = if_p (match [t]) advance_p (error_p (ExpectedToken t))"

text \<open>\<open>self.expect(t).value\<close> and \<open>self.advance().value\<close>.\<close>

definition expect_value :: "TokenType \<Rightarrow> string parsing" where
  "expect_value t = bind_p (expect t) (\<lambda>tok. return_p (tk_value tok))"

definition advance_value :: "string parsing" where
  "advance_value = bind_p advance_p (\<lambda>tok. return_p (tk_value tok))"

definition skip_newlines :: "unit parsing" where
  "skip_newlines = loop_p (match [NEWLINE]) (\<lambda>_. then_p advance_p (return_p ())) ()"

definition skip_docstrings :: "unit parsing" where
  "skip_docstrings = loop_p (match [DOCSTRING]) (\<lambda>_. then_p advance_p skip_newlines) ()"

definition int_p :: "string \<Rightarrow> int parsing" where
  "int_p s ps = (case py_int s of None \<Rightarrow> Inl ParseValueError | Some n \<Rightarrow> Inr (n, ps))"

definition float_p :: "string \<Rightarrow> py_float parsing" where
  "float_p s ps = (case float_literal s of None \<Rightarrow> Inl ParseValueError | Some f \<Rightarrow> Inr (f, ps))"

section \<open>Indented blocks\<close>

text \<open>The loop every block has:
  \<open>while not self.match(DEDENT, EOF): <skip>; if self.match(DEDENT, EOF): break; <statement>;
  self.skip_newlines()\<close>, then \<open>if self.match(DEDENT): self.advance()\<close>. The \<open>break\<close> leaves the state as it
  is, so it is the iteration that does nothing more before the loop's own test fails.\<close>

definition block_end :: "parser \<Rightarrow> bool" where
  "block_end = match [DEDENT, EOF]"

definition block_iteration ::
  "(parser \<Rightarrow> bool) \<Rightarrow> unit parsing \<Rightarrow> ('a \<Rightarrow> 'a parsing) \<Rightarrow> 'a \<Rightarrow> 'a parsing" where
  "block_iteration stop skip stmt acc =
    then_p skip
      (if_p stop (return_p acc)
        (bind_p (stmt acc) (\<lambda>acc'. then_p skip_newlines (return_p acc'))))"

definition close_block :: "unit parsing" where
  "close_block = if_p (match [DEDENT]) (then_p advance_p (return_p ())) (return_p ())"

definition block_p :: "unit parsing \<Rightarrow> ('a \<Rightarrow> 'a parsing) \<Rightarrow> 'a \<Rightarrow> 'a parsing" where
  "block_p skip stmt acc =
    bind_p (loop_p (\<lambda>ps. \<not> block_end ps) (block_iteration block_end skip stmt) acc)
      (\<lambda>acc'. then_p close_block (return_p acc'))"

text \<open>\<open>expect(COLON); skip_newlines(); expect(INDENT)\<close>: how a block opens.\<close>

definition open_block :: "unit parsing" where
  "open_block = then_p (expect COLON) (then_p skip_newlines (then_p (expect INDENT) (return_p ())))"

text \<open>A block statement that appends one item to the list.\<close>

definition item_stmt :: "'a parsing \<Rightarrow> 'a list \<Rightarrow> ('a list) parsing" where
  "item_stmt item acc = bind_p item (\<lambda>x. return_p (acc @ [x]))"

definition skip_layout :: "unit parsing" where
  "skip_layout = then_p skip_newlines skip_docstrings"

text \<open>\<open>if items: self.expect(COMMA)\<close> before the next item.\<close>

definition separated :: "'a list \<Rightarrow> 'b parsing \<Rightarrow> 'b parsing" where
  "separated items p =
    then_p (if items \<noteq> [] then then_p (expect COMMA) (return_p ()) else return_p ()) p"

section \<open>Helpers\<close>

definition parse_dotted_name :: "string parsing" where
  "parse_dotted_name =
    bind_p (expect_value IDENT) (\<lambda>first.
    bind_p (loop_p (match [DOT])
             (\<lambda>parts. then_p advance_p (bind_p (expect_value IDENT) (\<lambda>p. return_p (parts @ [p]))))
             [first]) (\<lambda>parts.
    return_p (py_join ''.'' parts)))"

definition parse_ident_list :: "(string list) parsing" where
  "parse_ident_list =
    then_p (expect LBRACKET)
      (bind_p (loop_p (\<lambda>ps. \<not> match [RBRACKET, EOF] ps)
         (\<lambda>items.
            separated items (bind_p (expect_value IDENT) (\<lambda>i. return_p (items @ [i])))) [])
         (\<lambda>items. then_p (expect RBRACKET) (return_p items)))"

definition parse_bool :: "bool parsing" where
  "parse_bool =
    if_p (match [TRUE]) (then_p advance_p (return_p True))
      (if_p (match [FALSE]) (then_p advance_p (return_p False)) (error_p ExpectedBool))"

definition read_version_string :: "string parsing" where
  "read_version_string =
    if_p (match [INT_T])
      (bind_p advance_value (\<lambda>major.
         if_p (match [DOT])
           (then_p advance_p (bind_p (expect_value INT_T) (\<lambda>minor. return_p (major @ ''.'' @ minor))))
           (return_p major)))
      (if_p (match [FLOAT]) advance_value
        (if_p (match [IDENT]) advance_value (error_p ExpectedVersion)))"

section \<open>Header and reference sections\<close>

definition parse_header :: "(string \<times> string) parsing" where
  "parse_header =
    then_p (expect CHARTER)
      (bind_p (expect_value STRING) (\<lambda>name.
       bind_p (expect_value IDENT) (\<lambda>version_start.
         if_p (match [DOT])
           (then_p advance_p
             (bind_p (expect_value INT_T) (\<lambda>minor. return_p (name, version_start @ ''.'' @ minor))))
           (return_p (name, version_start)))))"

definition parse_schema_ref :: "SchemaRefNode parsing" where
  "parse_schema_ref =
    bind_p parse_dotted_name (\<lambda>namespace.
    then_p (expect AT)
      (bind_p read_version_string (\<lambda>version.
       return_p \<lparr>sc_namespace = namespace, sc_version = version\<rparr>)))"

definition parse_schemas :: "(SchemaRefNode list) parsing" where
  "parse_schemas =
    then_p (expect SCHEMAS)
      (then_p (expect COLON)
        (if_p (match [NEWLINE])
          (then_p skip_newlines
            (then_p (expect INDENT)
              (block_p skip_newlines (item_stmt (then_p (expect DASH) parse_schema_ref)) [])))
          (bind_p parse_schema_ref (\<lambda>ref. then_p skip_newlines (return_p [ref])))))"

definition parse_package_name :: "string parsing" where
  "parse_package_name =
    if_p (\<lambda>ps. match [IDENT] ps \<or> tk_value (current_token ps) \<in> set (dict_keys KEYWORDS))
      advance_value (error_p ExpectedPackageName)"

definition parse_packages :: "(PackageRefNode list) parsing" where
  "parse_packages =
    then_p (expect PACKAGES)
      (then_p open_block
        (block_p skip_newlines
          (item_stmt (then_p (expect DASH)
            (bind_p parse_package_name (\<lambda>n. return_p \<lparr>pk_name = n\<rparr>)))) []))"

definition parse_policies :: "(PolicyNode list) parsing" where
  "parse_policies =
    then_p (expect POLICIES)
      (then_p open_block
        (block_p skip_newlines
          (item_stmt (then_p (expect DASH)
            (bind_p parse_dotted_name (\<lambda>n. return_p \<lparr>po_policy_id = n\<rparr>)))) []))"

definition parse_triggers :: "(TriggerNode list) parsing" where
  "parse_triggers =
    then_p (expect TRIGGERS)
      (then_p open_block
        (block_p skip_newlines
          (item_stmt (bind_p (expect_value IDENT) (\<lambda>n. return_p \<lparr>tr_name = n\<rparr>))) []))"

section \<open>Feature calls and arguments\<close>

definition parse_arg_value :: "literal parsing" where
  "parse_arg_value =
    if_p (match [STRING]) (bind_p advance_value (\<lambda>v. return_p (StrV v)))
    (if_p (match [INT_T]) (bind_p advance_value (\<lambda>v. bind_p (int_p v) (\<lambda>n. return_p (IntV n))))
    (if_p (match [FLOAT]) (bind_p advance_value (\<lambda>v. bind_p (float_p v) (\<lambda>f. return_p (FloatV f))))
    (if_p (match [TRUE]) (then_p advance_p (return_p (BoolV True)))
    (if_p (match [FALSE]) (then_p advance_p (return_p (BoolV False)))
    (if_p (match [IDENT]) (bind_p advance_value (\<lambda>v. return_p (StrV v)))
    (error_p ExpectedValue))))))"

definition positional :: "literal \<Rightarrow> ArgNode" where
  "positional v = \<lparr>arg_name = None, arg_value = v\<rparr>"

definition parse_arg :: "ArgNode parsing" where
  "parse_arg =
    if_p (match [IDENT])
      (bind_p advance_value (\<lambda>ident.
         if_p (match [EQ])
           (then_p advance_p
             (bind_p parse_arg_value (\<lambda>v. return_p \<lparr>arg_name = Some ident, arg_value = v\<rparr>)))
           (return_p (positional (StrV ident)))))
    (if_p (match [STRING]) (bind_p advance_value (\<lambda>v. return_p (positional (StrV v))))
    (if_p (match [INT_T])
      (bind_p advance_value (\<lambda>v. bind_p (int_p v) (\<lambda>n. return_p (positional (IntV n)))))
    (if_p (match [FLOAT])
      (bind_p advance_value (\<lambda>v. bind_p (float_p v) (\<lambda>f. return_p (positional (FloatV f)))))
    (if_p (match [TRUE]) (then_p advance_p (return_p (positional (BoolV True))))
    (if_p (match [FALSE]) (then_p advance_p (return_p (positional (BoolV False))))
    (error_p ExpectedArgument))))))"

definition parse_args :: "(ArgNode list) parsing" where
  "parse_args =
    then_p (expect LPAREN)
      (bind_p (loop_p (\<lambda>ps. \<not> match [RPAREN, EOF] ps)
         (\<lambda>args.
            separated args (bind_p parse_arg (\<lambda>a. return_p (args @ [a])))) [])
         (\<lambda>args. then_p (expect RPAREN) (return_p args)))"

definition parse_feature_call :: "FeatureCallNode parsing" where
  "parse_feature_call =
    bind_p (expect_value IDENT) (\<lambda>name.
    bind_p parse_args (\<lambda>args. return_p \<lparr>call_name = name, call_args = args\<rparr>))"

section \<open>Phase statements\<close>

text \<open>The test \<open>ident_token.type not in KEYWORDS\<close> compares a token type with the keyword strings and
  holds for every token, so what is not an IDENT is rejected.\<close>

definition parse_phase_condition :: "string \<Rightarrow> RequireNode parsing" where
  "parse_phase_condition ident =
    if_p (match [PASSED]) (then_p advance_p (return_p (PhaseRef ident ''passed'')))
    (if_p (match [COMPLETE]) (then_p advance_p (return_p (PhaseRef ident ''complete'')))
    (if_p (match [IDENT]) (bind_p advance_value (\<lambda>c. return_p (PhaseRef ident c)))
    (error_p (ExpectedPhaseCondition ident))))"

definition parse_require :: "RequireNode parsing" where
  "parse_require =
    then_p (expect REQUIRE)
      (if_p (match [AWAIT])
        (then_p advance_p (bind_p (expect_value IDENT) (\<lambda>t. return_p (AwaitRef t))))
      (if_p (\<lambda>ps. \<not> match [IDENT] ps) (error_p ExpectedIdentifierAfterRequire)
        (bind_p advance_value (\<lambda>ident.
           if_p (match [LPAREN])
             (bind_p parse_args (\<lambda>args.
                return_p (FeatureCall \<lparr>call_name = ident, call_args = args\<rparr>)))
           (if_p (match [DOT]) (then_p advance_p (parse_phase_condition ident))
             (return_p (BuiltinRef ident)))))))"

definition parse_action :: "ActionNode parsing" where
  "parse_action =
    then_p (expect ACTION) (bind_p parse_feature_call (\<lambda>c. return_p \<lparr>act_call = c\<rparr>))"

definition parse_output :: "OutputNode parsing" where
  "parse_output =
    then_p (expect OUTPUT) (bind_p (expect_value IDENT) (\<lambda>t. return_p \<lparr>out_type_name = t\<rparr>))"

definition parse_certify :: "CertifyNode parsing" where
  "parse_certify =
    then_p (expect CERTIFY)
      (if_p (match [IMMUTABLE, IDENT])
        (bind_p advance_value (\<lambda>q. return_p \<lparr>cert_qualifier = q\<rparr>))
        (error_p ExpectedQualifier))"

definition parse_evidence :: "EvidenceNode parsing" where
  "parse_evidence =
    then_p (expect EVIDENCE) (bind_p (expect_value IDENT) (\<lambda>t. return_p \<lparr>ev_type = t\<rparr>))"

definition parse_grant :: "GrantNode parsing" where
  "parse_grant =
    then_p (expect GRANTS)
      (bind_p (expect_value IDENT) (\<lambda>document_type.
         if_p (match [FOR])
           (then_p advance_p
             (bind_p (expect_value INT_T) (\<lambda>ttl.
              bind_p (int_p ttl) (\<lambda>n.
                then_p
                  (if_p (\<lambda>ps. match [IDENT] ps \<and> tk_value (current_token ps) = ''m'')
                    (then_p advance_p (return_p ())) (return_p ()))
                  (return_p \<lparr>gr_document_type = document_type, gr_ttl_minutes = Some n\<rparr>)))))
           (return_p \<lparr>gr_document_type = document_type, gr_ttl_minutes = None\<rparr>)))"

definition parse_await :: "AwaitNode parsing" where
  "parse_await =
    then_p (expect AWAIT) (bind_p (expect_value IDENT) (\<lambda>t. return_p \<lparr>aw_trigger = t\<rparr>))"

definition comparators :: "TokenType list" where
  "comparators = [EQ, NEQ, GT, GTE, LT, LTE]"

definition parse_predicate :: "PredicateNode parsing" where
  "parse_predicate =
    bind_p parse_dotted_name (\<lambda>field.
    if_p (\<lambda>ps. \<not> match comparators ps) (error_p ExpectedComparator)
      (bind_p advance_value (\<lambda>op.
       bind_p parse_arg_value (\<lambda>v.
       return_p \<lparr>pr_field = field, pr_operator = op, pr_value = v\<rparr>))))"

definition when_stmt :: "WhenBlockNode \<Rightarrow> WhenBlockNode parsing" where
  "when_stmt w =
    if_p (match [REQUIRE])
      (bind_p parse_require (\<lambda>r. return_p (w\<lparr>wb_requires := wb_requires w @ [r]\<rparr>)))
    (if_p (match [ACTION])
      (bind_p parse_action (\<lambda>a. return_p (w\<lparr>wb_actions := wb_actions w @ [a]\<rparr>)))
    (if_p (match [AWAIT])
      (bind_p parse_await (\<lambda>a. return_p (w\<lparr>wb_awaits := wb_awaits w @ [a]\<rparr>)))
    (error_p ExpectedWhenStatement)))"

definition parse_when_block :: "WhenBlockNode parsing" where
  "parse_when_block =
    then_p (expect WHEN)
      (bind_p parse_predicate (\<lambda>predicate.
       then_p open_block
         (block_p skip_newlines when_stmt
           \<lparr>wb_predicate = predicate, wb_requires = [], wb_actions = [], wb_awaits = []\<rparr>)))"

section \<open>Phases and workflows\<close>

text \<open>The statement loop of \<open>_parse_phase\<close> collects into the node under construction.\<close>

definition phase_stmt :: "PhaseNode \<Rightarrow> PhaseNode parsing" where
  "phase_stmt p =
    if_p (match [REQUIRE])
      (bind_p parse_require (\<lambda>x. return_p (p\<lparr>ph_requires := ph_requires p @ [x]\<rparr>)))
    (if_p (match [GRANTS])
      (bind_p parse_grant (\<lambda>x. return_p (p\<lparr>ph_grants := ph_grants p @ [x]\<rparr>)))
    (if_p (match [ACTION])
      (bind_p parse_action (\<lambda>x. return_p (p\<lparr>ph_actions := ph_actions p @ [x]\<rparr>)))
    (if_p (match [OUTPUT])
      (bind_p parse_output (\<lambda>x. return_p (p\<lparr>ph_outputs := ph_outputs p @ [x]\<rparr>)))
    (if_p (match [CERTIFY])
      (if ph_certify p \<noteq> None then error_p (DuplicateCertify (ph_name p))
       else bind_p parse_certify (\<lambda>x. return_p (p\<lparr>ph_certify := Some x\<rparr>)))
    (if_p (match [EVIDENCE])
      (if ph_evidence p \<noteq> None then error_p (DuplicateEvidence (ph_name p))
       else bind_p parse_evidence (\<lambda>x. return_p (p\<lparr>ph_evidence := Some x\<rparr>)))
    (if_p (match [WHEN])
      (bind_p parse_when_block (\<lambda>x. return_p (p\<lparr>ph_when_blocks := ph_when_blocks p @ [x]\<rparr>)))
    (if_p (match [AWAIT])
      (bind_p parse_await (\<lambda>x. return_p (p\<lparr>ph_awaits := ph_awaits p @ [x]\<rparr>)))
    (error_p ExpectedPhaseStatement))))))))"

definition new_phase :: "string \<Rightarrow> PhaseNode" where
  "new_phase name =
    \<lparr>ph_name = name, ph_requires = [], ph_actions = [], ph_outputs = [], ph_grants = [],
     ph_certify = None, ph_evidence = None, ph_when_blocks = [], ph_awaits = []\<rparr>"

definition parse_phase :: "PhaseNode parsing" where
  "parse_phase =
    then_p (expect PHASE)
      (bind_p (expect_value IDENT) (\<lambda>name.
       then_p open_block
         (then_p skip_layout (block_p skip_layout phase_stmt (new_phase name)))))"

definition parse_workflow :: "WorkflowNode parsing" where
  "parse_workflow =
    then_p (expect WORKFLOW)
      (bind_p (expect_value IDENT) (\<lambda>name.
       then_p open_block
         (then_p skip_layout
           (bind_p (block_p skip_layout (item_stmt parse_phase) []) (\<lambda>phases.
              if phases = [] then error_p (EmptyWorkflow name)
              else return_p \<lparr>wf_name = name, wf_phases = phases\<rparr>)))))"

section \<open>Situations\<close>

definition parse_waiting_period :: "WaitingPeriodNode parsing" where
  "parse_waiting_period =
    then_p (expect WAITING_PERIOD)
      (bind_p (expect_value INT_T) (\<lambda>lo.
       then_p (expect DOTDOT)
         (bind_p (expect_value INT_T) (\<lambda>hi.
           if_p (match [DAYS, HOURS, IDENT])
             (bind_p advance_value (\<lambda>unit.
              bind_p (int_p lo) (\<lambda>m.
              bind_p (int_p hi) (\<lambda>n.
              return_p \<lparr>wp_min_value = m, wp_max_value = n, wp_unit = unit\<rparr>))))
             (error_p ExpectedTimeUnit)))))"

definition situation_stmt :: "SituationNode \<Rightarrow> SituationNode parsing" where
  "situation_stmt s =
    if_p (match [WAITING_PERIOD])
      (bind_p parse_waiting_period (\<lambda>w. return_p (s\<lparr>si_waiting_period := Some w\<rparr>)))
    (if_p (match [REQUIRE])
      (bind_p parse_require (\<lambda>r. return_p (s\<lparr>si_requires := si_requires s @ [r]\<rparr>)))
    (error_p ExpectedSituationStatement))"

definition parse_situation :: "SituationNode parsing" where
  "parse_situation =
    then_p (expect WHEN)
      (bind_p parse_predicate (\<lambda>predicate.
       then_p open_block
         (block_p skip_newlines situation_stmt
           \<lparr>si_predicate = predicate, si_waiting_period = None, si_requires = []\<rparr>)))"

definition parse_situations :: "(SituationNode list) parsing" where
  "parse_situations =
    then_p (expect SITUATIONS)
      (then_p open_block (block_p skip_newlines (item_stmt parse_situation) []))"

section \<open>Roles\<close>

definition role_stmt :: "RoleNode \<Rightarrow> RoleNode parsing" where
  "role_stmt r =
    if_p (match [ACTIONS])
      (then_p advance_p (then_p (expect COLON)
        (bind_p parse_ident_list (\<lambda>xs. return_p (r\<lparr>ro_actions := xs\<rparr>)))))
    (if_p (match [BREAK_GLASS])
      (then_p advance_p (then_p (expect COLON)
        (bind_p parse_bool (\<lambda>b. return_p (r\<lparr>ro_break_glass := b\<rparr>)))))
    (if_p (match [REQUIRES_MFA])
      (then_p advance_p (then_p (expect COLON)
        (bind_p parse_bool (\<lambda>b. return_p (r\<lparr>ro_requires_mfa := b\<rparr>)))))
    (error_p ExpectedRoleProperty)))"

definition parse_role :: "RoleNode parsing" where
  "parse_role =
    bind_p (expect_value IDENT) (\<lambda>name.
    then_p open_block
      (block_p skip_newlines role_stmt
        \<lparr>ro_name = name, ro_actions = [], ro_break_glass = False, ro_requires_mfa = True\<rparr>))"

definition parse_roles :: "(RoleNode list) parsing" where
  "parse_roles =
    then_p (expect ROLES) (then_p open_block (block_p skip_newlines (item_stmt parse_role) []))"

section \<open>Top level\<close>

text \<open>The section loop of \<open>parse\<close> collects into the charter under construction and the set
  \<open>seen_sections\<close>. \<open>section_once\<close> is the branch of a section that may occur once.\<close>

type_synonym sections = "CharterNode \<times> string set"

definition section_once ::
  "string \<Rightarrow> 'a parsing \<Rightarrow> ('a \<Rightarrow> CharterNode \<Rightarrow> CharterNode) \<Rightarrow> sections \<Rightarrow> sections parsing" where
  "section_once name p upd acc =
    (if name \<in> snd acc then error_p (DuplicateSection name)
     else bind_p p (\<lambda>x. return_p (upd x (fst acc), insert name (snd acc))))"

definition parse_section :: "sections \<Rightarrow> sections parsing" where
  "parse_section acc =
    if_p (match [SCHEMAS])
      (section_once ''schemas'' parse_schemas (\<lambda>x c. c\<lparr>ch_schemas := x\<rparr>) acc)
    (if_p (match [PACKAGES])
      (section_once ''packages'' parse_packages (\<lambda>x c. c\<lparr>ch_packages := x\<rparr>) acc)
    (if_p (match [POLICIES])
      (section_once ''policies'' parse_policies (\<lambda>x c. c\<lparr>ch_policies := x\<rparr>) acc)
    (if_p (match [TRIGGERS])
      (section_once ''triggers'' parse_triggers (\<lambda>x c. c\<lparr>ch_triggers := x\<rparr>) acc)
    (if_p (match [WORKFLOW])
      (bind_p parse_workflow (\<lambda>w.
        return_p ((fst acc)\<lparr>ch_workflows := ch_workflows (fst acc) @ [w]\<rparr>, snd acc)))
    (if_p (match [SITUATIONS])
      (section_once ''situations'' parse_situations (\<lambda>x c. c\<lparr>ch_situations := x\<rparr>) acc)
    (if_p (match [ROLES])
      (section_once ''roles'' parse_roles (\<lambda>x c. c\<lparr>ch_roles := x\<rparr>) acc)
    (error_p ExpectedSection)))))))"

definition new_charter :: "string \<Rightarrow> string \<Rightarrow> CharterNode" where
  "new_charter name version =
    \<lparr>ch_name = name, ch_version = version, ch_schemas = [], ch_packages = [], ch_policies = [],
     ch_triggers = [], ch_workflows = [], ch_situations = [], ch_roles = []\<rparr>"

definition parse_document :: "CharterNode parsing" where
  "parse_document =
    then_p skip_newlines
      (bind_p parse_header (\<lambda>(name, version).
       then_p skip_newlines
         (bind_p (loop_p (\<lambda>ps. \<not> match [EOF] ps)
                   (block_iteration (match [EOF]) skip_newlines parse_section)
                   (new_charter name version, {}))
           (\<lambda>acc. return_p (fst acc)))))"

definition parse :: "Token list \<Rightarrow> (parse_error, CharterNode) result" where
  "parse toks =
    (if toks = [] then Inl ParseIndexError
     else bind_r (parse_document (new_parser toks)) (\<lambda>(c, _). Inr c))"

end
