(* ===== verification/Parser_Correct.thy ===== *)
theory Parser_Correct
  imports Parser
begin

text \<open>
  Correctness of the parser's control: on a token stream that ends in EOF every loop of the parser
  ends, no exception other than \<open>ParseError\<close> and \<open>ValueError\<close> is raised, a \<open>ParseError\<close> points at a
  token of the stream, and the charter it returns is well formed.

  Each method is described by what it does from a given state: \<open>eats P ps r\<close> says that the result
  \<open>r\<close> of running it from \<open>ps\<close> is an acceptable error, or a value satisfying \<open>P\<close> with the position
  strictly further on; \<open>moves\<close> is the same without the strictness. The locale \<open>statement_parser\<close> is
  the contract between the block loop and the statements inside it; \<open>item_parser\<close> the one for lists of items.
\<close>

section \<open>What a parsing step may do\<close>

definition wf_parser :: "parser \<Rightarrow> bool" where
  "wf_parser ps \<longleftrightarrow>
     ps_tokens ps \<noteq> [] \<and> tk_type (last (ps_tokens ps)) = EOF \<and> ps_pos ps < length (ps_tokens ps)"

fun error_ok :: "Token list \<Rightarrow> parse_error \<Rightarrow> bool" where
  "error_ok toks (ParseError m t) \<longleftrightarrow> t \<in> set toks"
| "error_ok toks ParseValueError \<longleftrightarrow> True"
| "error_ok toks ParseIndexError \<longleftrightarrow> False"
| "error_ok toks OutOfFuel \<longleftrightarrow> False"

definition ends_after ::
  "bool \<Rightarrow> ('a \<Rightarrow> bool) \<Rightarrow> parser \<Rightarrow> (parse_error, 'a \<times> parser) result \<Rightarrow> bool" where
  "ends_after strict P ps r \<longleftrightarrow>
    (case r of
       Inl e \<Rightarrow> error_ok (ps_tokens ps) e
     | Inr (x, ps') \<Rightarrow> P x \<and> ps_tokens ps' = ps_tokens ps \<and> wf_parser ps' \<and>
         ps_pos ps \<le> ps_pos ps' \<and> (strict \<longrightarrow> ps_pos ps < ps_pos ps'))"

abbreviation moves :: "('a \<Rightarrow> bool) \<Rightarrow> parser \<Rightarrow> (parse_error, 'a \<times> parser) result \<Rightarrow> bool" where
  "moves \<equiv> ends_after False"

abbreviation eats :: "('a \<Rightarrow> bool) \<Rightarrow> parser \<Rightarrow> (parse_error, 'a \<times> parser) result \<Rightarrow> bool" where
  "eats \<equiv> ends_after True"

abbreviation anything :: "'a \<Rightarrow> bool" where
  "anything \<equiv> \<lambda>_. True"

named_theorems parsing \<open>rules for the parsing steps\<close>

lemma ends_after_bind:
  assumes "ends_after i P ps (m ps)"
    and "\<And>x ps'. P x \<Longrightarrow> wf_parser ps' \<Longrightarrow> ends_after j Q ps' (f x ps')"
    and "k \<longrightarrow> i \<or> j"
  shows "ends_after k Q ps (bind_p m f ps)"
proof (cases "m ps")
  case (Inl e)
  with assms(1) show ?thesis by (simp add: bind_p_def ends_after_def)
next
  case (Inr r)
  obtain x ps' where r: "r = (x, ps')" by fastforce
  with Inr assms(1) have "P x" "wf_parser ps'" "ps_tokens ps' = ps_tokens ps"
    "ps_pos ps \<le> ps_pos ps'" "i \<longrightarrow> ps_pos ps < ps_pos ps'" by (auto simp: ends_after_def)
  with assms(2) [of x ps'] assms(3) Inr r show ?thesis
    by (fastforce simp: bind_p_def ends_after_def split: sum.splits)
qed

lemma eats_bind [parsing]:
  assumes "eats P ps (m ps)" "\<And>x ps'. P x \<Longrightarrow> wf_parser ps' \<Longrightarrow> moves Q ps' (f x ps')"
  shows "eats Q ps (bind_p m f ps)"
  using assms by (rule ends_after_bind) simp_all

lemma moves_bind [parsing]:
  assumes "moves P ps (m ps)" "\<And>x ps'. P x \<Longrightarrow> wf_parser ps' \<Longrightarrow> moves Q ps' (f x ps')"
  shows "moves Q ps (bind_p m f ps)"
  using assms by (rule ends_after_bind) simp_all

lemma eats_bind_late:
  assumes "moves P ps (m ps)" "\<And>x ps'. P x \<Longrightarrow> wf_parser ps' \<Longrightarrow> eats Q ps' (f x ps')"
  shows "eats Q ps (bind_p m f ps)"
  using assms by (rule ends_after_bind) simp_all

lemma ends_after_mono: "ends_after k P ps r \<Longrightarrow> (\<And>x. P x \<Longrightarrow> Q x) \<Longrightarrow> ends_after k Q ps r"
  by (auto simp: ends_after_def split: sum.splits)

lemma eats_then [parsing]:
  "eats anything ps (m ps) \<Longrightarrow> (\<And>ps'. wf_parser ps' \<Longrightarrow> moves Q ps' (n ps')) \<Longrightarrow>
   eats Q ps (then_p m n ps)"
  unfolding then_p_def by (rule eats_bind)

lemma moves_then [parsing]:
  "moves anything ps (m ps) \<Longrightarrow> (\<And>ps'. wf_parser ps' \<Longrightarrow> moves Q ps' (n ps')) \<Longrightarrow>
   moves Q ps (then_p m n ps)"
  unfolding then_p_def by (rule moves_bind)

lemma eats_then_late:
  "moves anything ps (m ps) \<Longrightarrow> (\<And>ps'. wf_parser ps' \<Longrightarrow> eats Q ps' (n ps')) \<Longrightarrow>
   eats Q ps (then_p m n ps)"
  unfolding then_p_def by (rule eats_bind_late)

lemma ends_after_if [parsing]:
  "(c ps \<Longrightarrow> ends_after k P ps (m ps)) \<Longrightarrow> (\<not> c ps \<Longrightarrow> ends_after k P ps (n ps)) \<Longrightarrow>
   ends_after k P ps (if_p c m n ps)"
  by (simp add: if_p_def)

lemma ends_after_cond [parsing]:
  "(c \<Longrightarrow> ends_after k P ps (m ps)) \<Longrightarrow> (\<not> c \<Longrightarrow> ends_after k P ps (n ps)) \<Longrightarrow>
   ends_after k P ps ((if c then m else n) ps)"
  by simp

lemma moves_return [parsing]: "wf_parser ps \<Longrightarrow> P x \<Longrightarrow> moves P ps (return_p x ps)"
  by (simp add: return_p_def ends_after_def)

lemma moves_eats: "eats P ps r \<Longrightarrow> moves P ps r"
  by (auto simp: ends_after_def split: sum.splits)

lemma current_token_in: "wf_parser ps \<Longrightarrow> current_token ps \<in> set (ps_tokens ps)"
  by (simp add: wf_parser_def current_token_def)

lemma ends_after_error [parsing]: "wf_parser ps \<Longrightarrow> ends_after k P ps (error_p msg ps)"
  by (simp add: error_p_def ends_after_def current_token_in)

lemma moves_advance [parsing]: "wf_parser ps \<Longrightarrow> moves anything ps (advance_p ps)"
  by (auto simp: advance_p_def ends_after_def wf_parser_def)

lemma eats_advance:
  assumes "wf_parser ps" "tk_type (current_token ps) \<noteq> EOF"
  shows "eats anything ps (advance_p ps)"
proof -
  have "ps_pos ps + 1 < length (ps_tokens ps)"
  proof (rule ccontr)
    assume "\<not> ps_pos ps + 1 < length (ps_tokens ps)"
    with assms(1) have "ps_pos ps = length (ps_tokens ps) - 1" by (auto simp: wf_parser_def)
    with assms show False by (auto simp: wf_parser_def current_token_def last_conv_nth)
  qed
  with assms(1) show ?thesis by (simp add: advance_p_def ends_after_def wf_parser_def)
qed

lemma eats_advance_match [parsing]:
  "wf_parser ps \<Longrightarrow> match ts ps \<Longrightarrow> EOF \<notin> set ts \<Longrightarrow> eats anything ps (advance_p ps)"
  by (rule eats_advance) (auto simp: match_def)

lemma eats_advance_value [parsing]:
  "wf_parser ps \<Longrightarrow> match ts ps \<Longrightarrow> EOF \<notin> set ts \<Longrightarrow> eats anything ps (advance_value ps)"
  unfolding advance_value_def by (rule eats_bind [OF eats_advance_match]) (auto intro: moves_return)

lemma eats_expect [parsing]: "wf_parser ps \<Longrightarrow> t \<noteq> EOF \<Longrightarrow> eats anything ps (expect t ps)"
  unfolding expect_def by (rule parsing | rule moves_eats | simp)+

lemma eats_expect_value [parsing]: "wf_parser ps \<Longrightarrow> t \<noteq> EOF \<Longrightarrow> eats anything ps (expect_value t ps)"
  unfolding expect_value_def by (rule parsing | rule moves_eats | simp)+

lemma moves_int [parsing]: "wf_parser ps \<Longrightarrow> moves (\<lambda>n. 0 \<le> n) ps (int_p s ps)"
  by (auto simp: int_p_def ends_after_def py_int_nonneg split: option.splits)

lemma moves_float [parsing]: "wf_parser ps \<Longrightarrow> moves anything ps (float_p s ps)"
  by (auto simp: float_p_def ends_after_def split: option.splits)

section \<open>Loops\<close>

lemma while_p_moves:
  assumes body: "\<And>acc ps. wf_parser ps \<Longrightarrow> P acc \<Longrightarrow> c ps \<Longrightarrow> eats P ps (body acc ps)"
  shows "wf_parser ps \<Longrightarrow> P acc \<Longrightarrow> length (ps_tokens ps) \<le> ps_pos ps + n \<Longrightarrow>
    moves P ps (while_p n c body acc ps)"
proof (induction n arbitrary: acc ps)
  case 0
  then show ?case by (simp add: wf_parser_def)
next
  case (Suc n)
  show ?case
  proof (cases "c ps")
    case False
    with Suc.prems show ?thesis by (simp add: ends_after_def)
  next
    case True
    note ate = body [OF Suc.prems(1,2) True]
    show ?thesis
    proof (cases "body acc ps")
      case (Inl e)
      with ate True show ?thesis by (simp add: ends_after_def)
    next
      case (Inr r)
      obtain acc' ps' where r: "r = (acc', ps')" by fastforce
      with Inr ate have s: "wf_parser ps'" "P acc'" "ps_tokens ps' = ps_tokens ps"
        "ps_pos ps < ps_pos ps'" by (auto simp: ends_after_def)
      then have "moves P ps' (while_p n c body acc' ps')"
        using Suc.prems(3) by (intro Suc.IH) simp_all
      with s True Inr r show ?thesis by (auto simp: ends_after_def split: sum.splits)
    qed
  qed
qed

lemma loop_p_moves:
  assumes "wf_parser ps" "P acc"
    and "\<And>acc ps. wf_parser ps \<Longrightarrow> P acc \<Longrightarrow> c ps \<Longrightarrow> eats P ps (body acc ps)"
  shows "moves P ps (loop_p c body acc ps)"
  unfolding loop_p_def by (rule while_p_moves [OF assms(3,1,2)]) simp_all

lemma loop_p_moves_any [parsing]:
  assumes "wf_parser ps" "\<And>acc ps. wf_parser ps \<Longrightarrow> c ps \<Longrightarrow> eats anything ps (body acc ps)"
  shows "moves anything ps (loop_p c body acc ps)"
  by (rule loop_p_moves) (use assms in auto)

lemma moves_skip_newlines [parsing]: "wf_parser ps \<Longrightarrow> moves anything ps (skip_newlines ps)"
  unfolding skip_newlines_def by (rule parsing | rule moves_eats | simp)+

lemma moves_skip_docstrings [parsing]: "wf_parser ps \<Longrightarrow> moves anything ps (skip_docstrings ps)"
  unfolding skip_docstrings_def by (rule parsing | rule moves_eats | simp)+

lemma moves_skip_layout [parsing]: "wf_parser ps \<Longrightarrow> moves anything ps (skip_layout ps)"
  unfolding skip_layout_def by (rule parsing | rule moves_eats | simp)+

lemma eats_open_block [parsing]: "wf_parser ps \<Longrightarrow> eats anything ps (open_block ps)"
  unfolding open_block_def by (rule parsing | rule moves_eats | simp)+

lemma moves_close_block [parsing]: "wf_parser ps \<Longrightarrow> moves anything ps (close_block ps)"
  unfolding close_block_def by (rule parsing | rule moves_eats | simp)+

section \<open>The contract between blocks and their statements\<close>

text \<open>A block relies on its statement to consume at least one token whenever it succeeds, and to
  keep the property \<open>good\<close> of what the block collects.\<close>

locale statement_parser =
  fixes stmt :: "'a \<Rightarrow> 'a parsing" and good :: "'a \<Rightarrow> bool"
  assumes stmt_eats: "wf_parser ps \<Longrightarrow> good acc \<Longrightarrow> eats good ps (stmt acc ps)"
begin

lemma iteration_eats:
  assumes "wf_parser ps" "good acc" "\<not> stop ps"
    and skip: "\<And>ps. wf_parser ps \<Longrightarrow> moves anything ps (skip ps)"
  shows "eats good ps (block_iteration stop skip stmt acc ps)"
proof (cases "skip ps")
  case (Inl e)
  with skip [OF assms(1)] show ?thesis
    by (simp add: block_iteration_def then_p_def bind_p_def ends_after_def)
next
  case (Inr r)
  obtain u ps1 where r: "r = (u, ps1)" by (cases r)
  let ?rest = "bind_p (stmt acc) (\<lambda>acc'. then_p skip_newlines (return_p acc'))"
  have s: "wf_parser ps1" "ps_tokens ps1 = ps_tokens ps" "ps_pos ps \<le> ps_pos ps1"
    using skip [OF assms(1)] Inr r by (auto simp: ends_after_def)
  have "eats good ps1 (?rest ps1)"
    by (rule parsing stmt_eats s assms(2) | assumption)+
  moreover have "ps_pos ps < ps_pos ps1" if "stop ps1"
  proof (rule ccontr)
    assume "\<not> ps_pos ps < ps_pos ps1"
    with s have "ps1 = ps" by (intro parser.equality) simp_all
    with that assms(3) show False by simp
  qed
  ultimately show ?thesis
    using s Inr r assms(2)
    by (auto simp: block_iteration_def then_p_def bind_p_def if_p_def return_p_def ends_after_def
        split: sum.splits)
qed

lemma block_moves:
  assumes "wf_parser ps" "good acc" "\<And>ps. wf_parser ps \<Longrightarrow> moves anything ps (skip ps)"
  shows "moves good ps (block_p skip stmt acc ps)"
  unfolding block_p_def
proof (rule moves_bind)
  show "moves good ps (loop_p (\<lambda>ps. \<not> block_end ps) (block_iteration block_end skip stmt) acc ps)"
    by (rule loop_p_moves) (use assms iteration_eats in auto)
next
  fix acc' ps'
  assume "good acc'" "wf_parser ps'"
  then show "moves good ps' (then_p close_block (return_p acc') ps')"
    by - (rule parsing | assumption)+
qed

lemma plain_block [parsing]:
  "wf_parser ps \<Longrightarrow> good acc \<Longrightarrow> moves good ps (block_p skip_newlines stmt acc ps)"
  using block_moves moves_skip_newlines by blast

lemma documented_block [parsing]:
  "wf_parser ps \<Longrightarrow> good acc \<Longrightarrow> moves good ps (block_p skip_layout stmt acc ps)"
  using block_moves moves_skip_layout by blast

end

locale item_parser =
  fixes item :: "'a parsing" and good_item :: "'a \<Rightarrow> bool"
  assumes item_eats: "wf_parser ps \<Longrightarrow> eats good_item ps (item ps)"
begin

lemma item_stmt_eats:
  "wf_parser ps \<Longrightarrow> list_all good_item acc \<Longrightarrow> eats (list_all good_item) ps (item_stmt item acc ps)"
  unfolding item_stmt_def by (rule parsing item_eats | simp)+

end

sublocale item_parser \<subseteq> items: statement_parser "item_stmt item" "list_all good_item"
  by unfold_locales (rule item_stmt_eats)

section \<open>The methods\<close>

lemma eats_separated [parsing]:
  assumes "wf_parser ps" "\<And>ps'. wf_parser ps' \<Longrightarrow> eats P ps' (p ps')"
  shows "eats P ps (separated items p ps)"
  unfolding separated_def
proof (rule eats_then_late)
  show "moves anything ps ((if items \<noteq> [] then then_p (expect COMMA) (return_p ()) else return_p ()) ps)"
    using assms(1) by - (rule parsing | rule moves_eats | simp)+
qed (rule assms)

lemma eats_dotted_name [parsing]: "wf_parser ps \<Longrightarrow> eats anything ps (parse_dotted_name ps)"
  unfolding parse_dotted_name_def by (rule parsing | rule moves_eats | simp)+

lemma eats_ident_list [parsing]: "wf_parser ps \<Longrightarrow> eats anything ps (parse_ident_list ps)"
  unfolding parse_ident_list_def by (rule parsing | rule moves_eats | simp)+

lemma eats_bool [parsing]: "wf_parser ps \<Longrightarrow> eats anything ps (parse_bool ps)"
  unfolding parse_bool_def by (rule parsing | rule moves_eats | simp)+

lemma eats_version [parsing]: "wf_parser ps \<Longrightarrow> eats anything ps (read_version_string ps)"
  unfolding read_version_string_def by (rule parsing | rule moves_eats | assumption | simp)+

lemma eats_header [parsing]: "wf_parser ps \<Longrightarrow> eats anything ps (parse_header ps)"
  unfolding parse_header_def by (rule parsing | rule moves_eats | simp)+

lemma eats_schema_ref [parsing]: "wf_parser ps \<Longrightarrow> eats anything ps (parse_schema_ref ps)"
  unfolding parse_schema_ref_def by (rule parsing | rule moves_eats | simp)+

lemma moves_package_name [parsing]: "wf_parser ps \<Longrightarrow> moves anything ps (parse_package_name ps)"
  unfolding parse_package_name_def advance_value_def by (rule parsing | simp)+

interpretation schema_items: item_parser "then_p (expect DASH) parse_schema_ref" anything
  by unfold_locales (rule parsing | rule moves_eats | simp)+

interpretation package_items: item_parser
  "then_p (expect DASH) (bind_p parse_package_name (\<lambda>n. return_p \<lparr>pk_name = n\<rparr>))" anything
  by unfold_locales (rule parsing | simp)+

interpretation policy_items: item_parser
  "then_p (expect DASH) (bind_p parse_dotted_name (\<lambda>n. return_p \<lparr>po_policy_id = n\<rparr>))" anything
  by unfold_locales (rule parsing | rule moves_eats | simp)+

interpretation trigger_items: item_parser
  "bind_p (expect_value IDENT) (\<lambda>n. return_p \<lparr>tr_name = n\<rparr>)" anything
  by unfold_locales (rule parsing | simp)+

lemmas reference_blocks [parsing] =
  schema_items.items.plain_block [THEN ends_after_mono, OF _ _ TrueI]
  package_items.items.plain_block [THEN ends_after_mono, OF _ _ TrueI]
  policy_items.items.plain_block [THEN ends_after_mono, OF _ _ TrueI]
  trigger_items.items.plain_block [THEN ends_after_mono, OF _ _ TrueI]

lemma eats_schemas [parsing]: "wf_parser ps \<Longrightarrow> eats anything ps (parse_schemas ps)"
  unfolding parse_schemas_def by (rule parsing | rule moves_eats | simp)+

lemma eats_packages [parsing]: "wf_parser ps \<Longrightarrow> eats anything ps (parse_packages ps)"
  unfolding parse_packages_def by (rule parsing | rule moves_eats | simp)+

lemma eats_policies [parsing]: "wf_parser ps \<Longrightarrow> eats anything ps (parse_policies ps)"
  unfolding parse_policies_def by (rule parsing | rule moves_eats | simp)+

lemma eats_triggers [parsing]: "wf_parser ps \<Longrightarrow> eats anything ps (parse_triggers ps)"
  unfolding parse_triggers_def by (rule parsing | rule moves_eats | simp)+

lemma eats_arg_value [parsing]: "wf_parser ps \<Longrightarrow> eats anything ps (parse_arg_value ps)"
  unfolding parse_arg_value_def by (rule parsing | assumption | simp)+

lemma eats_arg [parsing]: "wf_parser ps \<Longrightarrow> eats anything ps (parse_arg ps)"
  unfolding parse_arg_def by (rule parsing | rule moves_eats | assumption | simp)+

lemma eats_args [parsing]: "wf_parser ps \<Longrightarrow> eats anything ps (parse_args ps)"
  unfolding parse_args_def by (rule parsing | rule moves_eats | simp)+

lemma eats_feature_call [parsing]: "wf_parser ps \<Longrightarrow> eats anything ps (parse_feature_call ps)"
  unfolding parse_feature_call_def by (rule parsing | rule moves_eats | simp)+

lemma eats_phase_condition [parsing]: "wf_parser ps \<Longrightarrow> eats anything ps (parse_phase_condition i ps)"
  unfolding parse_phase_condition_def by (rule parsing | assumption | simp)+

lemma eats_require [parsing]: "wf_parser ps \<Longrightarrow> eats anything ps (parse_require ps)"
  unfolding parse_require_def by (rule parsing | rule moves_eats | assumption | simp)+

lemma eats_action [parsing]: "wf_parser ps \<Longrightarrow> eats anything ps (parse_action ps)"
  unfolding parse_action_def by (rule parsing | rule moves_eats | simp)+

lemma eats_output [parsing]: "wf_parser ps \<Longrightarrow> eats anything ps (parse_output ps)"
  unfolding parse_output_def by (rule parsing | rule moves_eats | simp)+

lemma eats_certify [parsing]: "wf_parser ps \<Longrightarrow> eats anything ps (parse_certify ps)"
  unfolding parse_certify_def by (rule parsing | rule moves_eats | assumption | simp)+

lemma eats_evidence [parsing]: "wf_parser ps \<Longrightarrow> eats anything ps (parse_evidence ps)"
  unfolding parse_evidence_def by (rule parsing | rule moves_eats | simp)+

lemma eats_await [parsing]: "wf_parser ps \<Longrightarrow> eats anything ps (parse_await ps)"
  unfolding parse_await_def by (rule parsing | rule moves_eats | simp)+

section \<open>Well-formed nodes\<close>

definition good_grant :: "GrantNode \<Rightarrow> bool" where
  "good_grant g \<longleftrightarrow> (\<forall>n. gr_ttl_minutes g = Some n \<longrightarrow> 0 \<le> n)"

definition good_phase :: "PhaseNode \<Rightarrow> bool" where
  "good_phase p \<longleftrightarrow> list_all good_grant (ph_grants p)"

definition good_workflow :: "WorkflowNode \<Rightarrow> bool" where
  "good_workflow w \<longleftrightarrow> wf_phases w \<noteq> [] \<and> list_all good_phase (wf_phases w)"

definition good_situation :: "SituationNode \<Rightarrow> bool" where
  "good_situation s \<longleftrightarrow>
    (\<forall>w. si_waiting_period s = Some w \<longrightarrow> 0 \<le> wp_min_value w \<and> 0 \<le> wp_max_value w)"

definition good_charter :: "CharterNode \<Rightarrow> bool" where
  "good_charter c \<longleftrightarrow>
    list_all good_workflow (ch_workflows c) \<and> list_all good_situation (ch_situations c)"

lemmas good_defs = good_grant_def good_phase_def good_workflow_def good_situation_def good_charter_def

lemma eats_grant [parsing]: "wf_parser ps \<Longrightarrow> eats good_grant ps (parse_grant ps)"
  unfolding parse_grant_def
  by (rule parsing | rule moves_eats | assumption | simp add: good_grant_def)+

lemma eats_predicate [parsing]: "wf_parser ps \<Longrightarrow> eats anything ps (parse_predicate ps)"
  unfolding parse_predicate_def
  by (rule parsing | rule moves_eats | assumption | simp add: comparators_def)+

interpretation when_statements: statement_parser when_stmt anything
  unfolding when_stmt_def by unfold_locales (rule parsing | assumption | simp)+

lemma eats_when_block [parsing]: "wf_parser ps \<Longrightarrow> eats anything ps (parse_when_block ps)"
  unfolding parse_when_block_def
  by (rule parsing when_statements.plain_block | rule moves_eats | simp)+

interpretation phase_statements: statement_parser phase_stmt good_phase
  unfolding phase_stmt_def
  by unfold_locales (rule parsing | assumption | simp add: good_phase_def)+

lemma eats_phase [parsing]: "wf_parser ps \<Longrightarrow> eats good_phase ps (parse_phase ps)"
  unfolding parse_phase_def
  by (rule parsing phase_statements.documented_block | rule moves_eats
      | simp add: new_phase_def good_phase_def)+

interpretation phase_items: item_parser parse_phase good_phase
  by unfold_locales (rule eats_phase)

lemma eats_workflow [parsing]: "wf_parser ps \<Longrightarrow> eats good_workflow ps (parse_workflow ps)"
  unfolding parse_workflow_def
  by (rule parsing phase_items.items.documented_block | rule moves_eats
      | simp add: good_workflow_def)+

lemma eats_waiting_period [parsing]:
  "wf_parser ps \<Longrightarrow>
   eats (\<lambda>w. 0 \<le> wp_min_value w \<and> 0 \<le> wp_max_value w) ps (parse_waiting_period ps)"
  unfolding parse_waiting_period_def by (rule parsing | rule moves_eats | assumption | simp)+

interpretation situation_statements: statement_parser situation_stmt good_situation
  unfolding situation_stmt_def
  by unfold_locales (rule parsing | assumption | simp add: good_situation_def)+

lemma eats_situation [parsing]: "wf_parser ps \<Longrightarrow> eats good_situation ps (parse_situation ps)"
  unfolding parse_situation_def
  by (rule parsing situation_statements.plain_block | rule moves_eats | simp add: good_situation_def)+

interpretation situation_items: item_parser parse_situation good_situation
  by unfold_locales (rule eats_situation)

lemma eats_situations [parsing]: "wf_parser ps \<Longrightarrow> eats (list_all good_situation) ps (parse_situations ps)"
  unfolding parse_situations_def
  by (rule parsing situation_items.items.plain_block | rule moves_eats | simp)+

interpretation role_statements: statement_parser role_stmt anything
  unfolding role_stmt_def by unfold_locales (rule parsing | rule moves_eats | assumption | simp)+

lemma eats_role [parsing]: "wf_parser ps \<Longrightarrow> eats anything ps (parse_role ps)"
  unfolding parse_role_def
  by (rule parsing role_statements.plain_block | rule moves_eats | simp)+

interpretation role_items: item_parser parse_role anything
  by unfold_locales (rule eats_role)

lemma eats_roles [parsing]: "wf_parser ps \<Longrightarrow> eats anything ps (parse_roles ps)"
  unfolding parse_roles_def
  by (rule parsing role_items.items.plain_block [THEN ends_after_mono, OF _ _ TrueI]
      | rule moves_eats | simp)+

section \<open>The document\<close>

lemma eats_section_once:
  assumes "wf_parser ps" "eats P ps (p ps)" "\<And>x. P x \<Longrightarrow> good_charter (upd x (fst acc))"
  shows "eats (\<lambda>acc. good_charter (fst acc)) ps (section_once n p upd acc ps)"
  unfolding section_once_def
  using assms by - (rule ends_after_cond eats_bind ends_after_error moves_return | assumption | simp)+

interpretation section_statements: statement_parser parse_section "\<lambda>acc. good_charter (fst acc)"
  unfolding parse_section_def
  by unfold_locales (rule eats_section_once parsing | assumption | simp add: good_charter_def)+

lemma ends_after_prod [parsing]:
  "(\<And>a b. ends_after k P ps (f a b ps)) \<Longrightarrow> ends_after k P ps ((case x of (a, b) \<Rightarrow> f a b) ps)"
  by (cases x) simp

lemma moves_sections:
  "wf_parser ps \<Longrightarrow> moves (\<lambda>acc. good_charter (fst acc)) ps
    (loop_p (\<lambda>ps. \<not> match [EOF] ps) (block_iteration (match [EOF]) skip_newlines parse_section)
      (new_charter name version, {}) ps)"
proof (rule loop_p_moves)
  show "good_charter (fst (new_charter name version, {}))"
    by (simp add: new_charter_def good_charter_def)
qed (simp_all add: section_statements.iteration_eats moves_skip_newlines)

lemma moves_document: "wf_parser ps \<Longrightarrow> moves good_charter ps (parse_document ps)"
  unfolding parse_document_def
  by (rule moves_sections parsing | rule moves_eats [OF eats_header] | simp)+

lemma parse_outcome:
  assumes "toks \<noteq> []" "tk_type (last toks) = EOF"
  shows "case parse toks of Inl e \<Rightarrow> error_ok toks e | Inr c \<Rightarrow> good_charter c"
proof -
  have "wf_parser (new_parser toks)" using assms by (simp add: wf_parser_def new_parser_def)
  from moves_document [OF this] assms(1) show ?thesis
    by (auto simp: parse_def ends_after_def new_parser_def split: sum.splits)
qed

section \<open>Properties\<close>

text \<open>C24: On a token stream that ends in EOF the parser always ends, and it raises nothing but a
  \<open>ParseError\<close> or a \<open>ValueError\<close>: its loops do not run for ever and no list index is out of range.\<close>

theorem parse_terminates:
  assumes "toks \<noteq> []" "tk_type (last toks) = EOF"
  shows "(\<exists>c. parse toks = Inr c) \<or> (\<exists>m t. parse toks = Inl (ParseError m t) \<and> t \<in> set toks) \<or>
    parse toks = Inl ParseValueError"
  using parse_outcome [OF assms]
  by (auto split: sum.splits elim!: error_ok.elims(2))

definition header_tokens :: "Token list" where
  "header_tokens =
    [mk_token CHARTER ''charter'' 1 1, mk_token STRING ''Hiring'' 1 9, mk_token IDENT ''v1'' 1 18]"

theorem parse_terminates_witness:
  "parse (header_tokens @ [mk_token EOF [] 1 20]) = Inr (new_charter ''Hiring'' ''v1'') \<and>
   parse (header_tokens @ [mk_token NEWLINE [CHR 0x0A] 1 20]) = Inl OutOfFuel"
proof -
  let ?toks = "header_tokens @ [mk_token EOF [] 1 20]"
  have "(\<exists>c. parse ?toks = Inr c) \<or> (\<exists>m t. parse ?toks = Inl (ParseError m t) \<and> t \<in> set ?toks) \<or>
      parse ?toks = Inl ParseValueError"
    by (rule parse_terminates) simp_all
  moreover have "parse ?toks = Inr (new_charter ''Hiring'' ''v1'')" by code_simp
  moreover have "parse (header_tokens @ [mk_token NEWLINE [CHR 0x0A] 1 20]) = Inl OutOfFuel" by code_simp
  ultimately show ?thesis by simp
qed

end
