(* ===== verification/Front_End.thy ===== *)
theory Front_End
  imports Lexer_Correct Parser_Correct
begin

text \<open>
  \<open>parse_charter\<close> of \<open>libs/canon/src/canon/dsl/parser.py\<close>: the lexer and the parser in sequence.
\<close>

datatype front_error = Lexical lex_error | Syntactic parse_error

definition parse_charter :: "string \<Rightarrow> (front_error, CharterNode) result" where
  "parse_charter source =
    (case tokenize source of
       Inl e \<Rightarrow> Inl (Lexical e)
     | Inr toks \<Rightarrow> (case parse toks of Inl e \<Rightarrow> Inl (Syntactic e) | Inr c \<Rightarrow> Inr c))"

fun front_error_located :: "string \<Rightarrow> front_error \<Rightarrow> bool" where
  "front_error_located s (Lexical e) \<longleftrightarrow> error_located s e"
| "front_error_located s (Syntactic (ParseError m t)) \<longleftrightarrow> token_located s t"
| "front_error_located s (Syntactic e) \<longleftrightarrow> e = ParseValueError"

lemma tokenize_stream:
  assumes "tokenize s = Inr toks"
  shows "toks \<noteq> []" "tk_type (last toks) = EOF" "\<And>t. t \<in> set toks \<Longrightarrow> token_located s t"
proof -
  obtain body l c where "toks = body @ [mk_token EOF [] l c]" "tokens_ok s [0] body" "at_source s l c"
    using tokenize_finishes [OF assms] .
  then show "toks \<noteq> []" "tk_type (last toks) = EOF" "\<And>t. t \<in> set toks \<Longrightarrow> token_located s t"
    by (auto simp: tokens_ok_def token_located_def)
qed

lemma tokenize_Inl_located: "tokenize s = Inl e \<Longrightarrow> error_located s e"
  using tokenize_loop_error [OF _ new_lexer_inv, of s e]
  by (auto simp: tokenize_def bind_r_Inl_iff new_lexer_def)

lemma parse_charter_good:
  "case parse_charter source of Inl e \<Rightarrow> front_error_located source e | Inr c \<Rightarrow> good_charter c"
proof (cases "tokenize source")
  case (Inl e)
  then show ?thesis by (simp add: parse_charter_def tokenize_Inl_located)
next
  case (Inr toks)
  note stream = tokenize_stream [OF Inr]
  show ?thesis
    using parse_outcome [OF stream(1,2)] Inr stream(3)
    by (auto simp: parse_charter_def split: sum.splits elim!: error_ok.elims(2))
qed

section \<open>Properties\<close>

text \<open>\<open>parse_charter\<close> ends on every source text. It returns a charter in which every workflow
  has a phase and every duration is non-negative, or it raises a \<open>LexError\<close> or a \<open>ParseError\<close>
  whose line and column are a position of the source, or \<open>int()\<close> or \<open>float()\<close> rejects a numeral;
  it raises nothing else.\<close>

theorem parse_charter_outcome:
  "(\<exists>c. parse_charter source = Inr c \<and> good_charter c) \<or>
   (\<exists>e. parse_charter source = Inl e \<and> front_error_located source e)"
  using parse_charter_good [of source] by (cases "parse_charter source") simp_all

end
