(* ===== verification/Catalog.thy ===== *)
theory Catalog
  imports Prelude
begin

text \<open>
  The versioned schema catalog (\<open>libs/canon/src/canon/dsl/catalog.py\<close>) and the contract of keyed
  stores. A registered Python type is an opaque value of type \<open>'ty\<close>.

  \<open>keyed_store\<close> is the interface every registry of the system offers to its clients: a lookup
  returns what was last stored under the key. It is interpreted on Python dictionaries here and on
  the catalog below.
\<close>

section \<open>Keyed stores\<close>

locale keyed_store =
  fixes put :: "'k \<Rightarrow> 'v \<Rightarrow> 's \<Rightarrow> 's" and get :: "'s \<Rightarrow> 'k \<Rightarrow> 'v option"
  assumes get_put: "get (put k v s) k' = (if k' = k then Some v else get s k')"
begin

definition put_all :: "('k \<times> 'v) list \<Rightarrow> 's \<Rightarrow> 's" where
  "put_all kvs s = foldl (\<lambda>s (k, v). put k v s) s kvs"

lemma get_put_all: "get (put_all kvs s) k = (case map_of (rev kvs) k of Some v \<Rightarrow> Some v | None \<Rightarrow> get s k)"
  unfolding put_all_def
  by (induction kvs rule: rev_induct) (auto simp: get_put split: option.splits)

lemma get_put_all_fresh: "k \<notin> fst ` set kvs \<Longrightarrow> get (put_all kvs s) k = get s k"
proof -
  assume "k \<notin> fst ` set kvs"
  then have "map_of (rev kvs) k = None" by (simp add: map_of_eq_None_iff)
  then show ?thesis by (simp add: get_put_all)
qed

end

interpretation dict_store: keyed_store dict_set map_of
  by unfold_locales simp

section \<open>The catalog\<close>

record 'ty CatalogEntry =
  ce_name :: string
  ce_schema_type :: 'ty
  ce_version :: string
  ce_namespace :: string

type_synonym schema_key = "string \<times> string \<times> string"

record 'ty SchemaCatalog =
  sc_entries :: "(schema_key, 'ty CatalogEntry) dict"
  sc_versions :: "(string \<times> string) set"

definition new_catalog :: "'ty SchemaCatalog" where
  "new_catalog = \<lparr>sc_entries = [], sc_versions = {}\<rparr>"

definition register_schema :: "string \<Rightarrow> string \<Rightarrow> string \<Rightarrow> 'ty \<Rightarrow> 'ty SchemaCatalog \<Rightarrow> 'ty SchemaCatalog" where
  "register_schema namespace version name ty c =
    c\<lparr>sc_entries := dict_set (namespace, version, name)
        \<lparr>ce_name = name, ce_schema_type = ty, ce_version = version, ce_namespace = namespace\<rparr>
        (sc_entries c),
      sc_versions := insert (namespace, version) (sc_versions c)\<rparr>"

definition get_entry :: "'ty SchemaCatalog \<Rightarrow> string \<Rightarrow> string \<Rightarrow> string \<Rightarrow> 'ty CatalogEntry option" where
  "get_entry c namespace version name = map_of (sc_entries c) (namespace, version, name)"

definition get_schema :: "'ty SchemaCatalog \<Rightarrow> string \<Rightarrow> string \<Rightarrow> string \<Rightarrow> 'ty option" where
  "get_schema c namespace version name =
    (case get_entry c namespace version name of None \<Rightarrow> None | Some e \<Rightarrow> Some (ce_schema_type e))"

definition has_version :: "'ty SchemaCatalog \<Rightarrow> string \<Rightarrow> string \<Rightarrow> bool" where
  "has_version c namespace version \<longleftrightarrow> (namespace, version) \<in> sc_versions c"

definition list_types :: "'ty SchemaCatalog \<Rightarrow> string \<Rightarrow> string \<Rightarrow> string list" where
  "list_types c namespace version =
    sort (map (\<lambda>(key, e). ce_name e)
      (filter (\<lambda>(key, e). fst key = namespace \<and> fst (snd key) = version) (sc_entries c)))"

definition list_versions :: "'ty SchemaCatalog \<Rightarrow> string \<Rightarrow> string list" where
  "list_versions c namespace =
    sorted_list_of_set (snd ` Set.filter (\<lambda>nv. fst nv = namespace) (sc_versions c))"

section \<open>Invariant\<close>

text \<open>The keys are distinct, an entry repeats the name of its key, and the versions known are those
  of the keys.\<close>

definition catalog_ok :: "'ty SchemaCatalog \<Rightarrow> bool" where
  "catalog_ok c \<longleftrightarrow>
     distinct (dict_keys (sc_entries c)) \<and>
     (\<forall>(k, e)\<in>set (sc_entries c). k = (ce_namespace e, ce_version e, ce_name e)) \<and>
     sc_versions c = (\<lambda>(n, v, t). (n, v)) ` set (dict_keys (sc_entries c))"

lemma catalog_ok_new: "catalog_ok new_catalog"
  by (simp add: catalog_ok_def new_catalog_def)

lemma set_dict_set: "set (dict_set k v d) \<subseteq> insert (k, v) (set d)"
  by (induction k v d rule: dict_set.induct) auto

lemma catalog_ok_register:
  assumes "catalog_ok c"
  shows "catalog_ok (register_schema n v t ty c)"
proof -
  have "\<forall>(k, e)\<in>set (sc_entries (register_schema n v t ty c)).
      k = (ce_namespace e, ce_version e, ce_name e)"
    using assms set_dict_set by (fastforce simp: catalog_ok_def register_schema_def)
  with assms show ?thesis by (simp add: catalog_ok_def register_schema_def distinct_dict_set)
qed

text \<open>The catalogs the code can build: registrations from the empty catalog.\<close>

inductive built_catalog :: "'ty SchemaCatalog \<Rightarrow> bool" where
  new: "built_catalog new_catalog"
| register: "built_catalog c \<Longrightarrow> built_catalog (register_schema n v t ty c)"

lemma built_catalog_ok: "built_catalog c \<Longrightarrow> catalog_ok c"
  by (induction rule: built_catalog.induct) (simp_all add: catalog_ok_new catalog_ok_register)

lemma get_schema_register:
  "get_schema (register_schema n v t ty c) n' v' t' =
   (if (n', v', t') = (n, v, t) then Some ty else get_schema c n' v' t')"
  by (simp add: register_schema_def get_schema_def get_entry_def)

interpretation catalog_store: keyed_store
  "\<lambda>(n, v, t) ty. register_schema n v t ty" "\<lambda>c (n, v, t). get_schema c n v t"
  by unfold_locales (simp add: get_schema_register split: prod.splits)

lemma get_schema_iff: "get_schema c n v t \<noteq> None \<longleftrightarrow> (n, v, t) \<in> fst ` set (sc_entries c)"
  using map_of_eq_None_iff [of "sc_entries c" "(n, v, t)"]
  by (cases "map_of (sc_entries c) (n, v, t)") (simp_all add: get_schema_def get_entry_def)

text \<open>An entry's name is the last part of its key.\<close>

lemma names_of_keys:
  "\<forall>(k, e)\<in>set d. k = (ce_namespace e, ce_version e, ce_name e) \<Longrightarrow>
   map (\<lambda>(key, e). ce_name e) (filter (\<lambda>(key, e). fst key = n \<and> fst (snd key) = v) d) =
   map (snd \<circ> snd) (filter (\<lambda>k. fst k = n \<and> fst (snd k) = v) (dict_keys d))"
  by (induction d) auto

lemma list_types_keys:
  assumes "catalog_ok c"
  shows "list_types c n v =
    sort (map (snd \<circ> snd) (filter (\<lambda>k. fst k = n \<and> fst (snd k) = v) (dict_keys (sc_entries c))))"
  using assms names_of_keys [of "sc_entries c" n v] by (simp add: list_types_def catalog_ok_def)

lemma set_list_types:
  "catalog_ok c \<Longrightarrow> set (list_types c n v) = {t. get_schema c n v t \<noteq> None}"
  unfolding list_types_keys get_schema_iff by force

lemma distinct_list_types:
  assumes "catalog_ok c"
  shows "distinct (list_types c n v)"
proof -
  have "inj_on (snd \<circ> snd) {k :: schema_key. fst k = n \<and> fst (snd k) = v}" by (auto simp: inj_on_def)
  then have "inj_on (snd \<circ> snd) (set (filter (\<lambda>k. fst k = n \<and> fst (snd k) = v) (dict_keys (sc_entries c))))"
    by (rule inj_on_subset) auto
  with assms show ?thesis by (simp add: list_types_keys distinct_map catalog_ok_def)
qed

lemma has_version_iff:
  assumes "catalog_ok c"
  shows "has_version c n v \<longleftrightarrow> (\<exists>t. get_schema c n v t \<noteq> None)"
proof -
  have "(n, v) \<in> (\<lambda>(n, v, t). (n, v)) ` K \<longleftrightarrow> (\<exists>t. (n, v, t) \<in> K)" for K :: "schema_key set" by force
  with assms show ?thesis unfolding get_schema_iff by (simp add: has_version_def catalog_ok_def)
qed

section \<open>Properties\<close>

text \<open>In every catalog built by registrations, a lookup returns the type last registered under its
  namespace, version and name; a version exists exactly when some type is registered under it;
  and \<open>list_types\<close> returns the names of a version sorted and without repetition, exactly those
  whose lookup succeeds.\<close>

theorem catalog_lookup:
  assumes "built_catalog c"
  shows "get_schema (register_schema n v t ty c) n' v' t' =
      (if (n', v', t') = (n, v, t) then Some ty else get_schema c n' v' t') \<and>
    (has_version c n v \<longleftrightarrow> (\<exists>t. get_schema c n v t \<noteq> None)) \<and>
    sorted (list_types c n v) \<and> distinct (list_types c n v) \<and>
    set (list_types c n v) = {t. get_schema c n v t \<noteq> None}"
proof (intro conjI)
  note ok = built_catalog_ok [OF assms]
  show "get_schema (register_schema n v t ty c) n' v' t' =
      (if (n', v', t') = (n, v, t) then Some ty else get_schema c n' v' t')"
    by (rule get_schema_register)
  show "has_version c n v \<longleftrightarrow> (\<exists>t. get_schema c n v t \<noteq> None)"
    by (rule has_version_iff [OF ok])
  show "sorted (list_types c n v)" by (simp add: list_types_def)
  show "distinct (list_types c n v)" "set (list_types c n v) = {t. get_schema c n v t \<noteq> None}"
    using distinct_list_types [OF ok] set_list_types [OF ok] by blast+
qed

theorem catalog_lookup_witness:
  "set (list_types (register_schema ''canon.hr'' ''2026.01'' ''Report'' True new_catalog) ''canon.hr'' ''2026.01'')
     = {t. get_schema (register_schema ''canon.hr'' ''2026.01'' ''Report'' True new_catalog)
             ''canon.hr'' ''2026.01'' t \<noteq> None}"
proof -
  have "built_catalog (register_schema ''canon.hr'' ''2026.01'' ''Report'' True new_catalog)"
    by (intro built_catalog.intros)
  from catalog_lookup [OF this] show ?thesis by blast
qed

end
