(* ===== verification/Kahn.thy ===== *)
theory Kahn
  imports Prelude
begin

text \<open>
  What the topological sorts of the program share: counters of open dependencies that are decremented while a queue of ready nodes is
  worked off, and the correctness of this loop on lists of edges in which an edge may be repeated.
\<close>

section \<open>Counters\<close>

type_synonym degrees = "(string, int) dict"

text \<open>One neighbour: \<open>in_degree[neighbor] -= 1\<close>, and into the queue at zero. Every neighbour has a
  counter.\<close>

definition relax :: "degrees \<times> string list \<Rightarrow> string \<Rightarrow> degrees \<times> string list" where
  "relax st n =
    (case map_of (fst st) n of
       None \<Rightarrow> st
     | Some d \<Rightarrow> (dict_set n (d - 1) (fst st), if d - 1 = 0 then snd st @ [n] else snd st))"

definition positives :: "degrees \<Rightarrow> nat" where
  "positives deg = length (filter (\<lambda>e. 0 < snd e) deg)"

lemma positives_dict_set:
  "map_of deg n = Some d \<Longrightarrow>
   positives (dict_set n d' deg) + (if 0 < d then 1 else 0) = positives deg + (if 0 < d' then 1 else 0)"
  by (induction n d' deg rule: dict_set.induct) (auto simp: positives_def split: if_splits)

lemma relax_measure:
  "positives (fst (relax st n)) + length (snd (relax st n)) = positives (fst st) + length (snd st)"
proof (cases "map_of (fst st) n")
  case (Some d)
  then show ?thesis
    using positives_dict_set [OF Some, of "d - 1"] by (cases "d = 1") (simp_all add: relax_def split: if_splits)
qed (simp add: relax_def)

lemma relax_all_measure:
  "positives (fst (foldl relax st ns)) + length (snd (foldl relax st ns)) =
   positives (fst st) + length (snd st)"
  by (induction ns arbitrary: st) (simp_all add: relax_measure)

text \<open>One dependency of a node: counted if it is a node, and the node is entered as its dependent.\<close>

definition add_prerequisite ::
  "string set \<Rightarrow> string \<Rightarrow> degrees \<times> (string, string list) dict \<Rightarrow> string \<Rightarrow> degrees \<times> (string, string list) dict" where
  "add_prerequisite ids pid st prereq =
    (if prereq \<in> ids
     then (dict_set pid (the (map_of (fst st) pid) + 1) (fst st),
           dict_set prereq (the (map_of (snd st) prereq) @ [pid]) (snd st))
     else st)"

text \<open>The queue is worked off; \<open>deps\<close> lists the dependents of each node.\<close>

function drain :: "(string, string list) dict \<Rightarrow> string list \<Rightarrow> degrees \<Rightarrow> string list \<Rightarrow> string list" where
  "drain deps [] deg order = order"
| "drain deps (pid # queue) deg order =
    (let st = foldl relax (deg, queue) (case map_of deps pid of None \<Rightarrow> [] | Some ds \<Rightarrow> ds)
     in drain deps (snd st) (fst st) (order @ [pid]))"
  by pat_completeness auto
termination
proof (relation "measure (\<lambda>(deps, queue, deg, order). positives deg + length queue)", goal_cases)
  case (2 deps pid queue deg order st)
  then show ?case
    using relax_all_measure [of "(deg, queue)" "case map_of deps pid of None \<Rightarrow> [] | Some ds \<Rightarrow> ds"] by simp
qed simp

section \<open>Orders\<close>

lemma dict_keys_set_existing: "map_of d k \<noteq> None \<Longrightarrow> dict_keys (dict_set k v d) = dict_keys d"
  by (induction k v d rule: dict_set.induct) (auto split: if_splits)

lemma relax_keys: "dict_keys (fst (foldl relax st ns)) = dict_keys (fst st)"
  by (induction ns arbitrary: st) (simp_all add: relax_def dict_keys_set_existing split: option.splits)

lemma precedes_extend:
  assumes "precedes order d n \<or> d \<in> set order \<and> n = x"
  shows "precedes (order @ [x]) d n"
  using assms precedes_appendI precedes_append [of d order n "[x]"] by auto

lemma precedes_acyclic:
  assumes "distinct xs" "\<And>a b. (a, b) \<in> R \<Longrightarrow> precedes xs a b"
  shows "acyclic R"
proof -
  define pos where "pos a = (THE i. i < length xs \<and> xs ! i = a)" for a
  have pos: "pos (xs ! i) = i" if "i < length xs" for i
    unfolding pos_def using that assms(1) by (auto simp: nth_eq_iff_index_eq)
  have "R \<subseteq> measure pos"
  proof clarify
    fix a b
    assume "(a, b) \<in> R"
    from assms(2) [OF this] obtain i j where "i < j" "j < length xs" "xs ! i = a" "xs ! j = b"
      by (auto simp: precedes_def)
    then show "(a, b) \<in> measure pos" using pos [of i] pos [of j] by auto
  qed
  then show ?thesis using wf_acyclic wf_subset wf_measure by blast
qed

section \<open>The loop on edges with repetitions\<close>

text \<open>The counter of a node is the number of its edges whose source is not yet in the order; the nodes in the order or the queue are those at zero.\<close>

definition open_edges :: "(string \<times> string) list \<Rightarrow> string list \<Rightarrow> string \<Rightarrow> nat" where
  "open_edges E order n = length (filter (\<lambda>(d, m). m = n \<and> d \<notin> set order) E)"

definition drain_inv :: "string set \<Rightarrow> (string \<times> string) list \<Rightarrow> string list \<Rightarrow> degrees \<Rightarrow> string list \<Rightarrow> bool" where
  "drain_inv N E queue deg order \<longleftrightarrow>
     distinct (order @ queue) \<and> (\<forall>n\<in>N. map_of deg n = Some (int (open_edges E order n))) \<and>
     set (order @ queue) = {n \<in> N. map_of deg n = Some 0} \<and>
     (\<forall>d n. (d, n) \<in> set E \<longrightarrow> n \<in> set order \<longrightarrow> precedes order d n)"

lemma relax_repeated:
  assumes "\<forall>m\<in>set ds. \<exists>x. map_of deg m = Some x \<and> int (count_list ds m) \<le> x"
  shows "map_of (fst (foldl relax (deg, q) ds)) = (\<lambda>m. map_option (\<lambda>x. x - int (count_list ds m)) (map_of deg m)) \<and>
    (\<exists>zs. snd (foldl relax (deg, q) ds) = q @ zs \<and> distinct zs \<and> set zs = {m \<in> set ds. map_of deg m = Some (int (count_list ds m))})"
  using assms
proof (induction ds arbitrary: deg q)
  case Nil
  then show ?case by (simp add: option.map_ident)
next
  case (Cons d ds)
  then obtain x where x: "map_of deg d = Some x" "int (count_list ds d) + 1 \<le> x" by fastforce
  let ?deg = "dict_set d (x - 1) deg" and ?q = "q @ (if x = 1 then [d] else [])"
  have st: "foldl relax (deg, q) (d # ds) = foldl relax (?deg, ?q) ds" using x(1) by (simp add: relax_def)
  have "\<forall>m\<in>set ds. \<exists>y. map_of ?deg m = Some y \<and> int (count_list ds m) \<le> y"
  proof
    fix m assume "m \<in> set ds"
    then show "\<exists>y. map_of ?deg m = Some y \<and> int (count_list ds m) \<le> y"
      using Cons.prems x by (cases "m = d") auto
  qed
  from Cons.IH [OF this, of ?q] obtain zs where IH:
    "map_of (fst (foldl relax (?deg, ?q) ds)) = (\<lambda>m. map_option (\<lambda>x. x - int (count_list ds m)) (map_of ?deg m))"
    "snd (foldl relax (?deg, ?q) ds) = ?q @ zs" "distinct zs" "set zs = {m \<in> set ds. map_of ?deg m = Some (int (count_list ds m))}" by blast
  have "map_of (fst (foldl relax (?deg, ?q) ds)) = (\<lambda>m. map_option (\<lambda>x. x - int (count_list (d # ds) m)) (map_of deg m))"
    unfolding IH(1) using x(1) by (auto simp: fun_eq_iff)
  moreover have "\<exists>ws. snd (foldl relax (?deg, ?q) ds) = q @ ws \<and> distinct ws \<and>
      set ws = {m \<in> set (d # ds). map_of deg m = Some (int (count_list (d # ds) m))}"
  proof (cases "x = 1")
    case True
    then have "d \<notin> set ds" using x(2) by (simp add: count_list_0_iff)
    then show ?thesis using IH(2-4) True x(1)
      by (intro exI [of _ "d # zs"]) (auto simp: count_list_0_iff)
  next
    case False
    have "set zs = {m \<in> set (d # ds). map_of deg m = Some (int (count_list (d # ds) m))}"
    proof (cases "d \<in> set ds")
      case True
      then show ?thesis unfolding IH(4) using x(1) by auto
    next
      case False
      then have "count_list ds d = 0" by (simp add: count_list_0_iff)
      then show ?thesis unfolding IH(4) using x(1) \<open>x \<noteq> 1\<close> False by auto
    qed
    then show ?thesis using IH(2,3) False by auto
  qed
  ultimately show ?case unfolding st by blast
qed

lemma open_edges_snoc:
  assumes "x \<notin> set order"
  shows "open_edges E order n = open_edges E (order @ [x]) n + count_list (map snd (filter (\<lambda>e. fst e = x) E)) n"
  using assms by (induction E) (auto simp: open_edges_def)

lemma open_edges_zero: "open_edges E order n = 0 \<longleftrightarrow> (\<forall>d. (d, n) \<in> set E \<longrightarrow> d \<in> set order)"
  by (auto simp: open_edges_def filter_empty_conv)

lemma drain_step:
  assumes inv: "drain_inv N E (node # queue) deg order" and EN: "set E \<subseteq> N \<times> N"
    and st: "st = foldl relax (deg, queue) (map snd (filter (\<lambda>e. fst e = node) E))"
  shows "drain_inv N E (snd st) (fst st) (order @ [node])"
proof -
  let ?ds = "map snd (filter (\<lambda>e. fst e = node) E)"
  have deg: "map_of deg n = Some (int (open_edges E order n))" if "n \<in> N" for n using inv that by (simp add: drain_inv_def)
  have seen: "insert node (set order \<union> set queue) = {n \<in> N. map_of deg n = Some 0}" and dist: "distinct (order @ node # queue)"
    and prec: "\<And>d n. (d, n) \<in> set E \<Longrightarrow> n \<in> set order \<Longrightarrow> precedes order d n" using inv by (auto simp: drain_inv_def)
  have node: "node \<in> N" "map_of deg node = Some 0" "node \<notin> set order" using seen dist by auto
  have split: "open_edges E order n = open_edges E (order @ [node]) n + count_list ?ds n" for n by (rule open_edges_snoc [OF node(3)])
  have dsN: "set ?ds \<subseteq> N" using EN by auto
  then have "\<forall>m\<in>set ?ds. \<exists>x. map_of deg m = Some x \<and> int (count_list ?ds m) \<le> x" using deg split by fastforce
  from relax_repeated [OF this, of queue] obtain zs where relaxed:
    "map_of (fst st) = (\<lambda>m. map_option (\<lambda>x. x - int (count_list ?ds m)) (map_of deg m))"
    "snd st = queue @ zs" "distinct zs" "set zs = {m \<in> set ?ds. map_of deg m = Some (int (count_list ?ds m))}" unfolding st by blast
  have D: "map_of (fst st) n = Some (int (open_edges E (order @ [node]) n))" if "n \<in> N" for n
    using deg [OF that] split [of n] by (simp add: relaxed(1))
  have pos: "count_list ?ds m \<noteq> 0" if "m \<in> set ?ds" for m using that by (simp only: count_list_0_iff) simp
  have zs: "set zs = {n \<in> N. map_of (fst st) n = Some 0 \<and> map_of deg n \<noteq> Some 0}"
  proof (intro set_eqI iffI)
    fix m assume m: "m \<in> set zs"
    then show "m \<in> {n \<in> N. map_of (fst st) n = Some 0 \<and> map_of deg n \<noteq> Some 0}"
      using pos [of m] dsN unfolding relaxed(4) by (auto simp: relaxed(1))
  next
    fix m assume "m \<in> {n \<in> N. map_of (fst st) n = Some 0 \<and> map_of deg n \<noteq> Some 0}"
    then have m: "m \<in> N" "open_edges E (order @ [node]) m = 0" "open_edges E order m \<noteq> 0" using D deg by auto
    then have "count_list ?ds m \<noteq> 0" "map_of deg m = Some (int (count_list ?ds m))" using split [of m] deg by auto
    then show "m \<in> set zs" unfolding relaxed(4) by (metis (mono_tags, lifting) count_notin mem_Collect_eq)
  qed
  have still: "map_of (fst st) n = Some 0" if "n \<in> N" "map_of deg n = Some 0" for n using D [OF that(1)] deg [OF that(1)] that(2) split [of n] by simp
  have "set ((order @ [node]) @ snd st) = {n \<in> N. map_of (fst st) n = Some 0}"
  proof -
    have "set ((order @ [node]) @ snd st) = {n \<in> N. map_of deg n = Some 0} \<union> set zs" unfolding relaxed(2) using seen by auto
    then show ?thesis unfolding zs using still by auto
  qed
  moreover have "distinct ((order @ [node]) @ snd st)"
  proof -
    have "set zs \<inter> insert node (set order \<union> set queue) = {}" unfolding seen zs by blast
    then show ?thesis using dist relaxed(2,3) by auto
  qed
  moreover have "precedes (order @ [node]) d n" if e: "(d, n) \<in> set E" "n \<in> set (order @ [node])" for d n
  proof (rule precedes_extend)
    have "d \<in> set order" if "n = node" using deg [OF node(1)] node(2) e(1) that by (simp add: open_edges_zero)
    then show "precedes order d n \<or> d \<in> set order \<and> n = node" using e prec by auto
  qed
  ultimately show ?thesis using D by (simp add: drain_inv_def)
qed

text \<open>When the queue is empty, all nodes are in the order if the edges have no cycle.\<close>

lemma drain_acyclic:
  assumes inv: "drain_inv N E [] deg order" and E: "acyclic (set E)" "set E \<subseteq> N \<times> N"
  shows "set order = N"
proof (rule ccontr)
  assume "set order \<noteq> N"
  have ordered: "set order = {n \<in> N. map_of deg n = Some 0}" using inv by (simp add: drain_inv_def)
  with \<open>set order \<noteq> N\<close> obtain n where n: "n \<in> N - set order" by blast
  have "wf (set E)" using E(1) by (simp add: finite_acyclic_wf)
  from wfE_min [OF this n] obtain z where z: "z \<in> N - set order" "\<And>y. (y, z) \<in> set E \<Longrightarrow> y \<notin> N - set order" by blast
  then have "open_edges E order z = 0" using E(2) unfolding open_edges_zero by blast
  then have "map_of deg z = Some 0" using inv z(1) by (simp add: drain_inv_def)
  then show False using z(1) ordered by blast
qed

section \<open>The graphs the sorts build\<close>

text \<open>Counters and dependents for a list of edges between the nodes.\<close>

definition graph_for :: "string set \<Rightarrow> (string \<times> string) list \<Rightarrow> degrees \<times> (string, string list) dict \<Rightarrow> bool" where
  "graph_for N E st \<longleftrightarrow>
     distinct (dict_keys (fst st)) \<and> set (dict_keys (fst st)) = N \<and>
     (\<forall>n\<in>N. map_of (fst st) n = Some (int (count_list (map snd E) n))) \<and>
     (\<forall>p\<in>N. map_of (snd st) p = Some (map snd (filter (\<lambda>e. fst e = p) E)))"

lemma graph_for_add:
  assumes "graph_for N E st" "pid \<in> N"
  shows "graph_for N (E @ (if p \<in> N then [(p, pid)] else [])) (add_prerequisite N pid st p)"
proof (cases "p \<in> N")
  case True
  have g: "distinct (dict_keys (fst st))" "set (dict_keys (fst st)) = N" "\<And>n. n \<in> N \<Longrightarrow> map_of (fst st) n = Some (int (count_list (map snd E) n))"
      "\<And>p. p \<in> N \<Longrightarrow> map_of (snd st) p = Some (map snd (filter (\<lambda>e. fst e = p) E))" using assms(1) unfolding graph_for_def by blast+
  have "distinct (dict_keys (dict_set pid x (fst st)))" "set (dict_keys (dict_set pid x (fst st))) = N" for x
    using g(1,2) assms(2) by (auto simp: distinct_dict_set)
  then show ?thesis
    using True g(3) [OF assms(2)] g(4) [OF True]
    unfolding graph_for_def add_prerequisite_def by (simp only: True if_True fst_conv snd_conv option.sel map_of_dict_set) (simp add: g(3,4) fun_upd_def)
qed (use assms in \<open>simp add: add_prerequisite_def\<close>)

lemma graph_for_prerequisites:
  assumes "graph_for N E st" "pid \<in> N"
  shows "graph_for N (E @ map (\<lambda>p. (p, pid)) (filter (\<lambda>p. p \<in> N) ps)) (foldl (add_prerequisite N pid) st ps)"
  using assms(1)
proof (induction ps arbitrary: E st)
  case (Cons p ps)
  show ?case using Cons.IH [OF graph_for_add [OF Cons.prems assms(2), of p]] by (cases "p \<in> N") simp_all
qed simp

lemma count_open_edges: "open_edges E [] n = count_list (map snd E) n"
  by (induction E) (auto simp: open_edges_def)

lemma drain_keeps:
  assumes "drain_inv N E queue deg order" "set E \<subseteq> N \<times> N" "\<forall>p\<in>N. map_of deps p = Some (map snd (filter (\<lambda>e. fst e = p) E))"
  shows "\<exists>deg'. drain_inv N E [] deg' (drain deps queue deg order)"
  using assms
proof (induction deps queue deg order rule: drain.induct)
  case (2 deps pid queue deg order)
  have "pid \<in> N" using "2.prems"(1) by (auto simp: drain_inv_def)
  then have deps: "map_of deps pid = Some (map snd (filter (\<lambda>e. fst e = pid) E))" using "2.prems"(3) by blast
  define st where "st = foldl relax (deg, queue) (map snd (filter (\<lambda>e. fst e = pid) E))"
  have "drain_inv N E (snd st) (fst st) (order @ [pid])" by (rule drain_step [OF "2.prems"(1,2) st_def])
  then show ?case using "2.IH" [of st] "2.prems"(2,3) deps by (simp add: st_def Let_def)
qed auto

lemma drain_inv_start:
  assumes "graph_for N E (deg, deps)"
  shows "drain_inv N E (map fst (filter (\<lambda>e. snd e = 0) deg)) deg []"
proof -
  have d: "distinct (dict_keys deg)" "fst ` set deg = N" "\<forall>n\<in>N. map_of deg n = Some (int (count_list (map snd E) n))"
    using assms by (auto simp: graph_for_def)
  have "map_of deg n \<noteq> None \<Longrightarrow> n \<in> N" for n using d(2) map_of_eq_None_iff [of deg n] by auto
  then show ?thesis
    using d keys_filter_values [OF d(1), of "\<lambda>x. x = 0"] by (auto simp: drain_inv_def count_open_edges distinct_map_filter)
qed

end
