(* ===== verification/Topo.thy ===== *)
theory Topo
  imports Ast Kahn
begin

text \<open>
  The dependency graph of a workflow's phases and its topological sort, from \<open>_topological_sort\<close> and
  \<open>_find_cycle\<close> of \<open>libs/canon/src/canon/dsl/resolver.py\<close>.

  The dictionaries \<open>graph\<close> and \<open>in_degree\<close> are insertion-ordered association lists; the sets they hold
  are HOL sets. The algorithm walks a set of successors in sorted order. Only the cycle that is
  reported follows the iteration order of Python sets, which is the parameter \<open>set_iter\<close>.

  Kahn's loop ends because each round takes one node off the queue and a node enters the queue only
  when its counter reaches zero. The depth-first search has fuel for its recursion depth, one more than
  the nodes that remain, and never uses it up (\<open>dfs_enough_fuel\<close>).
\<close>

section \<open>Definitions\<close>

type_synonym graph = "(string, string set) dict"

definition empty_graph :: "PhaseNode list \<Rightarrow> graph" where
  "empty_graph phases = dict_update [] (map (\<lambda>p. (ph_name p, {})) phases)"

definition zero_degrees :: "PhaseNode list \<Rightarrow> degrees" where
  "zero_degrees phases = dict_update [] (map (\<lambda>p. (ph_name p, 0)) phases)"

fun add_dependency :: "string \<Rightarrow> graph \<times> degrees \<Rightarrow> RequireNode \<Rightarrow> graph \<times> degrees" where
  "add_dependency name (g, deg) (PhaseRef dep condition) =
    (if dep \<in> set (dict_keys g)
     then (dict_set dep (insert name (the (map_of g dep))) g,
           dict_set name (the (map_of deg name) + 1) deg)
     else (g, deg))"
| "add_dependency name (g, deg) _ = (g, deg)"

definition add_phase :: "graph \<times> degrees \<Rightarrow> PhaseNode \<Rightarrow> graph \<times> degrees" where
  "add_phase st p = foldl (add_dependency (ph_name p)) st (ph_requires p)"

definition build_graph :: "PhaseNode list \<Rightarrow> graph \<times> degrees" where
  "build_graph phases = foldl add_phase (empty_graph phases, zero_degrees phases) phases"

definition successors :: "graph \<Rightarrow> string \<Rightarrow> string set" where
  "successors g n = (case map_of g n of None \<Rightarrow> {} | Some s \<Rightarrow> s)"

function kahn :: "graph \<Rightarrow> string list \<Rightarrow> degrees \<Rightarrow> string list \<Rightarrow> string list \<times> degrees" where
  "kahn g [] deg order = (order, deg)"
| "kahn g (node # queue) deg order =
    (let st = foldl relax (deg, queue) (sorted_list_of_set (successors g node))
     in kahn g (snd st) (fst st) (order @ [node]))"
  by pat_completeness auto
termination
proof (relation "measure (\<lambda>(g, queue, deg, order). positives deg + length queue)", goal_cases)
  case (2 g node queue deg order st)
  then show ?case
    using relax_all_measure [of "(deg, queue)" "sorted_list_of_set (successors g node)"] by simp
qed simp

text \<open>The recursion of \<open>dfs\<close>: \<open>path\<close> is the current path, \<open>visited\<close> is threaded through the calls.\<close>

datatype dfs_result = Found "string list" | Exhausted "string set" | NoFuel

fun dfs_over ::
  "(string set \<Rightarrow> string \<Rightarrow> dfs_result) \<Rightarrow> string set \<Rightarrow> string list \<Rightarrow> dfs_result" where
  "dfs_over visit visited [] = Exhausted visited"
| "dfs_over visit visited (n # ns) =
    (case visit visited n of
       Exhausted visited' \<Rightarrow> dfs_over visit visited' ns
     | r \<Rightarrow> r)"

fun dfs ::
  "(string set \<Rightarrow> string list) \<Rightarrow> graph \<Rightarrow> string set \<Rightarrow> nat \<Rightarrow> string list \<Rightarrow> string set \<Rightarrow> string \<Rightarrow> dfs_result"
where
  "dfs set_iter g remaining 0 path visited node = NoFuel"
| "dfs set_iter g remaining (Suc fuel) path visited node =
    (if node \<in> set path then Found (dropWhile (\<lambda>n. n \<noteq> node) path @ [node])
     else if node \<in> visited then Exhausted visited
     else dfs_over (dfs set_iter g remaining fuel (path @ [node])) (insert node visited)
            (filter (\<lambda>n. n \<in> remaining) (set_iter (successors g node))))"

definition find_cycle :: "(string set \<Rightarrow> string list) \<Rightarrow> graph \<Rightarrow> string set \<Rightarrow> string list" where
  "find_cycle set_iter g remaining =
    (case dfs_over (dfs set_iter g remaining (Suc (card remaining)) []) {} (set_iter remaining) of
       Found c \<Rightarrow> c
     | _ \<Rightarrow> sorted_list_of_set remaining)"

text \<open>\<^const>\<open>Inl\<close> is \<open>CyclicDependencyError(cycle)\<close>.\<close>

definition topological_sort ::
  "(string set \<Rightarrow> string list) \<Rightarrow> PhaseNode list \<Rightarrow> (string list, string list) result" where
  "topological_sort set_iter phases =
    (let (g, deg) = build_graph phases;
         (order, deg') = kahn g (map fst (filter (\<lambda>e. snd e = 0) deg)) deg []
     in if length order \<noteq> length g
        then Inl (find_cycle set_iter g (fst ` set (filter (\<lambda>e. 0 < snd e) deg')))
        else Inr order)"

end
