(* ===== verification/Resolver.thy ===== *)
theory Resolver
  imports Catalog Topo
begin

text \<open>
  The semantic validation of a parsed charter (\<open>libs/canon/src/canon/dsl/resolver.py\<close>).

  The three registries are protocols the caller implements (\<open>FeatureRegistry\<close>, \<open>PackageRegistry\<close>,
  \<open>PolicyRegistry\<close>); a registry is a record of the functions of its protocol, and an absent registry
  is \<^const>\<open>None\<close>. \<open>get_all_feature_names\<close> is the list of the names in the order Python iterates over
  the set, or \<^const>\<open>None\<close> where the registry does not implement it. The errors are the subclasses of
  \<open>ResolveError\<close> with their attributes; \<open>resolve\<close> collects them in order and raises them as one group.
\<close>

section \<open>Interfaces, errors, results\<close>

record feature_registry =
  fr_has_feature :: "string \<Rightarrow> bool" \<comment> \<open>get_feature(name) is not None\<close>
  fr_all_names :: "string list option"

record package_registry =
  kr_has_package :: "string \<Rightarrow> bool"
  kr_package_phrases :: "string \<Rightarrow> string set option"

record policy_registry =
  lr_has_policy :: "string \<Rightarrow> bool"

record 'ty resolver_config =
  rc_catalog :: "'ty SchemaCatalog option"
  rc_features :: "feature_registry option"
  rc_policies :: "policy_registry option"
  rc_packages :: "package_registry option"

datatype resolve_error =
    UnknownFeatureError string "string option"
  | UnknownSchemaError string string string
  | UnknownPackageError string
  | UnknownPhaseError string string
  | UnknownTriggerError string "string list option"
  | CyclicDependencyError "string list"
  | UnknownPolicyError string
  | InvalidRoleError string "string list"
  | DuplicateWorkflowError string
  | DuplicatePhaseError string string
  | InvalidWaitingPeriodError int int string
  | UndeclaredPhraseError string "string list option" "string option"
  | UnknownDocumentTypeError string "string list"
  | InvalidGrantTTLError int string

record 'ty ResolvedCharter =
  rv_ast :: CharterNode
  rv_feature_names :: "string set"
  rv_schema_types :: "(string, 'ty) dict"
  rv_phase_order :: "(string, string list) dict"
  rv_policy_ids :: "string set"
  rv_package_names :: "string set"

definition known_builtins :: "string set" where
  "known_builtins = {''all_phases_passed'', ''integrity_threshold_met''}"

definition known_document_types :: "string set" where
  "known_document_types =
    {''resume'', ''cover_letter'', ''background_report'', ''offer_letter'', ''employment_contract'',
     ''performance_review'', ''pip_document'', ''termination_letter'', ''reference_letter'',
     ''id_verification'', ''tax_form'', ''benefits_enrollment'', ''nda'', ''ip_agreement'',
     ''handbook_acknowledgment''}"

definition grant_ttl_min :: int where "grant_ttl_min = 1"

definition grant_ttl_max :: int where "grant_ttl_max = 1440"

section \<open>Suggestions\<close>

text \<open>\<open>min(xs, key=f)\<close>: the first element with the smallest key.\<close>

fun min_by :: "('a \<Rightarrow> int) \<Rightarrow> 'a \<Rightarrow> 'a list \<Rightarrow> 'a" where
  "min_by f best [] = best"
| "min_by f best (x # xs) = min_by f (if f x < f best then x else best) xs"

definition min_key :: "('a \<Rightarrow> int) \<Rightarrow> 'a list \<Rightarrow> 'a option" where
  "min_key f xs = (case xs of [] \<Rightarrow> None | x # xs' \<Rightarrow> Some (min_by f x xs'))"

definition find_similar_feature :: "'ty resolver_config \<Rightarrow> string \<Rightarrow> string option" where
  "find_similar_feature cfg name =
    (case rc_features cfg of
       None \<Rightarrow> None
     | Some reg \<Rightarrow>
         (case fr_all_names reg of
            None \<Rightarrow> None
          | Some all_names \<Rightarrow>
              if all_names = [] then None
              else
                (case min_key (\<lambda>f. int (length f)) (filter (prefix name) all_names) of
                   Some f \<Rightarrow> Some f
                 | None \<Rightarrow>
                     (case min_key (\<lambda>f. \<bar>int (length f) - int (length name)\<bar>)
                        (filter (prefix (takeWhile (\<lambda>c. c \<noteq> CHR ''_'') name @ ''_'')) all_names) of
                        Some f \<Rightarrow> Some f
                      | None \<Rightarrow>
                          find_first (\<lambda>f. sublist name f \<or> sublist f name) (sort all_names)))))"

definition common_packages :: "string list" where
  "common_packages =
    [''consent'', ''evidence'', ''certification'', ''compliance'', ''identity'', ''authorization'', ''audit'',
     ''policy'', ''data_protection'', ''incident'', ''deployment'', ''lifecycle'']"

definition find_package_for_phrase :: "'ty resolver_config \<Rightarrow> string \<Rightarrow> string option" where
  "find_package_for_phrase cfg phrase =
    (case rc_packages cfg of
       None \<Rightarrow> None
     | Some reg \<Rightarrow>
         find_first (\<lambda>pkg. kr_has_package reg pkg \<and>
           (case kr_package_phrases reg pkg of None \<Rightarrow> False | Some ps \<Rightarrow> ps \<noteq> {} \<and> phrase \<in> ps))
         common_packages)"

section \<open>References\<close>

definition optional_sorted :: "string set \<Rightarrow> string list option" where
  "optional_sorted S = (if S = {} then None else Some (sorted_list_of_set S))"

definition resolve_feature_call ::
  "'ty resolver_config \<Rightarrow> string set \<Rightarrow> string set \<Rightarrow> FeatureCallNode \<Rightarrow> resolve_error list \<times> string set" where
  "resolve_feature_call cfg allowed packages call =
    (if allowed \<noteq> {} \<and> rc_packages cfg \<noteq> None \<and> call_name call \<notin> allowed
     then ([UndeclaredPhraseError (call_name call) (optional_sorted packages)
              (find_package_for_phrase cfg (call_name call))], {call_name call})
     else
       (case rc_features cfg of
          None \<Rightarrow> ([], {call_name call})
        | Some reg \<Rightarrow>
            (if fr_has_feature reg (call_name call) then []
             else [UnknownFeatureError (call_name call) (find_similar_feature cfg (call_name call))],
             {call_name call})))"

definition resolve_builtin :: "'ty resolver_config \<Rightarrow> string \<Rightarrow> resolve_error list \<times> string set" where
  "resolve_builtin cfg name =
    (if name \<in> known_builtins then ([], {})
     else
       (case rc_features cfg of
          None \<Rightarrow> ([], {})
        | Some reg \<Rightarrow>
            if fr_has_feature reg name then ([], {name})
            else ([UnknownFeatureError name (find_similar_feature cfg name)], {})))"

definition check_trigger :: "string set \<Rightarrow> string \<Rightarrow> resolve_error list" where
  "check_trigger triggers t =
    (if t \<in> triggers then [] else [UnknownTriggerError t (optional_sorted triggers)])"

fun resolve_require ::
  "'ty resolver_config \<Rightarrow> string \<Rightarrow> string set \<Rightarrow> string set \<Rightarrow> string set \<Rightarrow> string set \<Rightarrow> RequireNode \<Rightarrow>
   resolve_error list \<times> string set" where
  "resolve_require cfg wname phases triggers allowed packages (FeatureCall call) =
     resolve_feature_call cfg allowed packages call"
| "resolve_require cfg wname phases triggers allowed packages (PhaseRef phase condition) =
     (if phase \<in> phases then [] else [UnknownPhaseError phase wname], {})"
| "resolve_require cfg wname phases triggers allowed packages (AwaitRef t) = (check_trigger triggers t, {})"
| "resolve_require cfg wname phases triggers allowed packages (BuiltinRef name) = resolve_builtin cfg name"

text \<open>Errors in order, names united: the loops \<open>for x in xs: e, f = ...; errors.extend(e);
  features.update(f)\<close>.\<close>

definition collect :: "('a \<Rightarrow> 'e list \<times> 'f set) \<Rightarrow> 'a list \<Rightarrow> 'e list \<times> 'f set" where
  "collect f xs = (concat (map (\<lambda>x. fst (f x)) xs), \<Union>(set (map (\<lambda>x. snd (f x)) xs)))"

definition join :: "'e list \<times> 'f set \<Rightarrow> 'e list \<times> 'f set \<Rightarrow> 'e list \<times> 'f set" where
  "join a b = (fst a @ fst b, snd a \<union> snd b)"

section \<open>Phases\<close>

definition resolve_when_block ::
  "'ty resolver_config \<Rightarrow> string \<Rightarrow> string set \<Rightarrow> string set \<Rightarrow> string set \<Rightarrow> string set \<Rightarrow> WhenBlockNode \<Rightarrow>
   resolve_error list \<times> string set" where
  "resolve_when_block cfg wname phases triggers allowed packages wb =
    join (concat (map (\<lambda>a. check_trigger triggers (aw_trigger a)) (wb_awaits wb)), {})
    (join (collect (resolve_require cfg wname phases triggers allowed packages) (wb_requires wb))
      (collect (\<lambda>a. resolve_feature_call cfg allowed packages (act_call a)) (wb_actions wb)))"

definition find_output_type :: "'ty SchemaCatalog \<Rightarrow> SchemaRefNode list \<Rightarrow> string \<Rightarrow> 'ty option" where
  "find_output_type catalog schemas name =
    (case find_first (\<lambda>ref. get_schema catalog (sc_namespace ref) (sc_version ref) name \<noteq> None) schemas of
       None \<Rightarrow> None
     | Some ref \<Rightarrow> get_schema catalog (sc_namespace ref) (sc_version ref) name)"

fun resolve_outputs ::
  "'ty SchemaCatalog \<Rightarrow> SchemaRefNode list \<Rightarrow> OutputNode list \<Rightarrow> resolve_error list \<times> (string, 'ty) dict \<Rightarrow>
   resolve_error list \<times> (string, 'ty) dict" where
  "resolve_outputs catalog schemas [] acc = acc"
| "resolve_outputs catalog schemas (out # outs) acc =
    resolve_outputs catalog schemas outs
      (case find_output_type catalog schemas (out_type_name out) of
         Some ty \<Rightarrow> (fst acc, dict_set (out_type_name out) ty (snd acc))
       | None \<Rightarrow>
           (fst acc @ [UnknownSchemaError (out_type_name out) (sc_namespace (hd schemas)) (sc_version (hd schemas))],
            snd acc))"

definition check_grant :: "GrantNode \<Rightarrow> resolve_error list" where
  "check_grant g =
    (if gr_document_type g \<in> known_document_types then []
     else [UnknownDocumentTypeError (gr_document_type g) (sorted_list_of_set known_document_types)]) @
    (case gr_ttl_minutes g of
       None \<Rightarrow> []
     | Some ttl \<Rightarrow>
         if ttl < grant_ttl_min then [InvalidGrantTTLError ttl ''must be at least 1 minute'']
         else if ttl > grant_ttl_max
         then [InvalidGrantTTLError ttl ''cannot exceed 1440 minutes (24 hours)'']
         else [])"

definition resolve_phase ::
  "'ty resolver_config \<Rightarrow> CharterNode \<Rightarrow> string \<Rightarrow> string set \<Rightarrow> string set \<Rightarrow> string set \<Rightarrow> PhaseNode \<Rightarrow>
   resolve_error list \<times> string set \<times> (string, 'ty) dict" where
  "resolve_phase cfg charter wname phases allowed packages p =
    (let triggers = tr_name ` set (ch_triggers charter);
         refs =
           join (concat (map (\<lambda>a. check_trigger triggers (aw_trigger a)) (ph_awaits p)), {})
          (join (collect (resolve_require cfg wname phases triggers allowed packages) (ph_requires p))
          (join (collect (\<lambda>a. resolve_feature_call cfg allowed packages (act_call a)) (ph_actions p))
            (collect (resolve_when_block cfg wname phases triggers allowed packages) (ph_when_blocks p))));
         outs =
           (case rc_catalog cfg of
              Some catalog \<Rightarrow>
                if ch_schemas charter \<noteq> [] then resolve_outputs catalog (ch_schemas charter) (ph_outputs p) ([], [])
                else ([], [])
            | None \<Rightarrow> ([], []))
     in (fst refs @ fst outs @ concat (map check_grant (ph_grants p)), snd refs, snd outs))"

section \<open>Workflows\<close>

text \<open>The names met twice, in order: \<open>if name in seen: errors.append(...); seen.add(name)\<close>.\<close>

fun duplicates :: "'a set \<Rightarrow> 'a list \<Rightarrow> 'a list" where
  "duplicates seen [] = []"
| "duplicates seen (x # xs) = (if x \<in> seen then [x] else []) @ duplicates (insert x seen) xs"

definition resolve_workflow ::
  "'ty resolver_config \<Rightarrow> (string set \<Rightarrow> string list) \<Rightarrow> CharterNode \<Rightarrow> string set \<Rightarrow> string set \<Rightarrow> WorkflowNode \<Rightarrow>
   resolve_error list \<times> string set \<times> (string, 'ty) dict \<times> string list" where
  "resolve_workflow cfg set_iter charter allowed packages w =
    (let phases = ph_name ` set (wf_phases w);
         dups = map (\<lambda>n. DuplicatePhaseError n (wf_name w)) (duplicates {} (map ph_name (wf_phases w)));
         rs = map (resolve_phase cfg charter (wf_name w) phases allowed packages) (wf_phases w);
         schemas = foldl (\<lambda>d r. dict_update d (snd (snd r))) [] rs;
         sorted_phases = topological_sort set_iter (wf_phases w)
     in (dups @ concat (map fst rs) @
           (case sorted_phases of Inl cycle \<Rightarrow> [CyclicDependencyError cycle] | Inr _ \<Rightarrow> []),
         \<Union>(set (map (\<lambda>r. fst (snd r)) rs)), schemas,
         (case sorted_phases of Inl _ \<Rightarrow> map ph_name (wf_phases w) | Inr order \<Rightarrow> order)))"

section \<open>The charter\<close>

definition resolve_packages :: "'ty resolver_config \<Rightarrow> PackageRefNode list \<Rightarrow> resolve_error list \<times> string set" where
  "resolve_packages cfg pkgs =
    (case rc_packages cfg of
       None \<Rightarrow> ([], {})
     | Some reg \<Rightarrow>
         collect (\<lambda>p. if kr_has_package reg (pk_name p)
                      then ([], case kr_package_phrases reg (pk_name p) of None \<Rightarrow> {} | Some ps \<Rightarrow> ps)
                      else ([UnknownPackageError (pk_name p)], {})) pkgs)"

definition resolve_policies :: "'ty resolver_config \<Rightarrow> PolicyNode list \<Rightarrow> resolve_error list" where
  "resolve_policies cfg ps =
    (case rc_policies cfg of
       None \<Rightarrow> []
     | Some reg \<Rightarrow>
         concat (map (\<lambda>p. if lr_has_policy reg (po_policy_id p) then []
                          else [UnknownPolicyError (po_policy_id p)]) ps))"

text \<open>The loop over the workflows, with its accumulators \<open>errors\<close>, \<open>feature_names\<close>, \<open>schema_types\<close>,
  \<open>phase_order\<close> and \<open>seen_workflow_names\<close>.\<close>

fun resolve_workflows ::
  "'ty resolver_config \<Rightarrow> (string set \<Rightarrow> string list) \<Rightarrow> CharterNode \<Rightarrow> string set \<Rightarrow> string set \<Rightarrow>
   string set \<Rightarrow> WorkflowNode list \<Rightarrow>
   resolve_error list \<times> string set \<times> (string, 'ty) dict \<times> (string, string list) dict \<Rightarrow>
   resolve_error list \<times> string set \<times> (string, 'ty) dict \<times> (string, string list) dict" where
  "resolve_workflows cfg it charter allowed packages seen [] acc = acc"
| "resolve_workflows cfg it charter allowed packages seen (w # ws) (errs, feats, schemas, orders) =
    (let (we, wfeats, wsch, word) = resolve_workflow cfg it charter allowed packages w
     in resolve_workflows cfg it charter allowed packages (insert (wf_name w) seen) ws
          (errs @ (if wf_name w \<in> seen then [DuplicateWorkflowError (wf_name w)] else []) @ we,
           feats \<union> wfeats, dict_update schemas wsch, dict_set (wf_name w) word orders))"

fun resolve_situation_require ::
  "'ty resolver_config \<Rightarrow> string set \<Rightarrow> string set \<Rightarrow> RequireNode \<Rightarrow> resolve_error list \<times> string set" where
  "resolve_situation_require cfg allowed packages (FeatureCall call) =
     resolve_feature_call cfg allowed packages call"
| "resolve_situation_require cfg allowed packages (BuiltinRef name) = resolve_builtin cfg name"
| "resolve_situation_require cfg allowed packages (PhaseRef phase condition) = ([], {})"
| "resolve_situation_require cfg allowed packages (AwaitRef t) = ([], {})"

definition check_waiting_period :: "WaitingPeriodNode option \<Rightarrow> resolve_error list" where
  "check_waiting_period wp =
    (case wp of
       None \<Rightarrow> []
     | Some w \<Rightarrow>
         if wp_min_value w < 0
         then [InvalidWaitingPeriodError (wp_min_value w) (wp_max_value w) ''min_value cannot be negative'']
         else if wp_max_value w < 0
         then [InvalidWaitingPeriodError (wp_min_value w) (wp_max_value w) ''max_value cannot be negative'']
         else if wp_min_value w > wp_max_value w
         then [InvalidWaitingPeriodError (wp_min_value w) (wp_max_value w) ''min_value cannot exceed max_value'']
         else [])"

definition resolve_situation ::
  "'ty resolver_config \<Rightarrow> string set \<Rightarrow> string set \<Rightarrow> SituationNode \<Rightarrow> resolve_error list \<times> string set" where
  "resolve_situation cfg allowed packages s =
    join (collect (resolve_situation_require cfg allowed packages) (si_requires s))
      (check_waiting_period (si_waiting_period s), {})"

definition collect_action_names :: "CharterNode \<Rightarrow> string set" where
  "collect_action_names charter =
    \<Union>(set (map (\<lambda>w. \<Union>(set (map (\<lambda>p.
       (\<lambda>a. call_name (act_call a)) ` set (ph_actions p) \<union>
       \<Union>(set (map (\<lambda>b. (\<lambda>a. call_name (act_call a)) ` set (wb_actions b)) (ph_when_blocks p))))
       (wf_phases w)))) (ch_workflows charter)))"

definition check_role :: "string set \<Rightarrow> RoleNode \<Rightarrow> resolve_error list" where
  "check_role actions r =
    (let invalid = filter (\<lambda>a. a \<notin> actions) (ro_actions r)
     in if invalid \<noteq> [] then [InvalidRoleError (ro_name r) invalid] else [])"

definition resolve ::
  "'ty resolver_config \<Rightarrow> (string set \<Rightarrow> string list) \<Rightarrow> CharterNode \<Rightarrow>
   (resolve_error list, 'ty ResolvedCharter) result" where
  "resolve cfg set_iter charter =
    (let packages = pk_name ` set (ch_packages charter);
         (pkg_errs, allowed) = resolve_packages cfg (ch_packages charter);
         pol_errs = resolve_policies cfg (ch_policies charter);
         (wf_errs, feats, schemas, orders) =
           resolve_workflows cfg set_iter charter allowed packages {} (ch_workflows charter) ([], {}, [], []);
         (sit_errs, sit_feats) = collect (resolve_situation cfg allowed packages) (ch_situations charter);
         role_errs = concat (map (check_role (collect_action_names charter)) (ch_roles charter));
         errors = pkg_errs @ pol_errs @ wf_errs @ sit_errs @ role_errs
     in if errors \<noteq> [] then Inl errors
        else Inr \<lparr>rv_ast = charter, rv_feature_names = feats \<union> sit_feats, rv_schema_types = schemas,
                  rv_phase_order = orders, rv_policy_ids = po_policy_id ` set (ch_policies charter),
                  rv_package_names = packages\<rparr>)"

end
