(* ===== verification/Topo_Correct.thy ===== *)
theory Topo_Correct
  imports Topo
begin

text \<open>
  Correctness of the topological sort. The dependency edges of a workflow, with multiplicity and in
  declaration order, are the specification (\<open>edges\<close>); \<open>build_graph\<close> is shown to compute the successor
  sets and the in-degrees of that list, Kahn's loop keeps \<open>kahn_inv\<close>, and the depth-first search
  reports a closed walk whenever one exists.
\<close>

declare map_of_eq_Some_iff [simp del]

section \<open>Dependencies\<close>

fun ref_phase :: "RequireNode \<Rightarrow> string list" where
  "ref_phase (PhaseRef d c) = [d]"
| "ref_phase _ = []"

definition dependencies :: "PhaseNode \<Rightarrow> string list" where
  "dependencies p = concat (map ref_phase (ph_requires p))"

abbreviation names :: "PhaseNode list \<Rightarrow> string set" where
  "names phases \<equiv> ph_name ` set phases"

definition edges_in :: "string set \<Rightarrow> PhaseNode list \<Rightarrow> (string \<times> string) list" where
  "edges_in N phases =
    concat (map (\<lambda>p. map (\<lambda>d. (d, ph_name p)) (filter (\<lambda>d. d \<in> N) (dependencies p))) phases)"

definition edges :: "PhaseNode list \<Rightarrow> (string \<times> string) list" where
  "edges phases = edges_in (names phases) phases"

section \<open>The graph\<close>

definition graph_of :: "string set \<Rightarrow> (string \<times> string) list \<Rightarrow> graph \<times> degrees \<Rightarrow> bool" where
  "graph_of N E st \<longleftrightarrow>
     distinct (dict_keys (fst st)) \<and> distinct (dict_keys (snd st)) \<and>
     set (dict_keys (fst st)) = N \<and> set (dict_keys (snd st)) = N \<and>
     (\<forall>n\<in>N. map_of (fst st) n = Some {m. (n, m) \<in> set E}) \<and>
     (\<forall>n\<in>N. map_of (snd st) n = Some (int (count_list (map snd E) n)))"

lemma graph_of_init: "graph_of (names phases) [] (empty_graph phases, zero_degrees phases)"
  unfolding graph_of_def empty_graph_def zero_degrees_def
  by (simp add: distinct_dict_update map_of_dict_update_const image_image)

lemma graph_of_add_dependency:
  assumes "graph_of N E st" "name \<in> N"
  shows "graph_of N (E @ map (\<lambda>d. (d, name)) (filter (\<lambda>d. d \<in> N) (ref_phase r)))
    (add_dependency name st r)"
proof (cases "\<exists>d c. r = PhaseRef d c \<and> d \<in> N")
  case True
  then obtain d c where r: "r = PhaseRef d c" "d \<in> N" by blast
  obtain g deg where st: "st = (g, deg)" by fastforce
  show ?thesis using assms r unfolding st
    by (auto simp: graph_of_def distinct_dict_set)
next
  case False
  obtain g deg where st: "st = (g, deg)" by fastforce
  show ?thesis using assms False unfolding st
    by (cases r) (auto simp: graph_of_def)
qed

lemma graph_of_add_phase:
  assumes "graph_of N E st" "ph_name p \<in> N"
  shows "graph_of N (E @ edges_in N [p]) (add_phase st p)"
proof -
  have "graph_of N (E @ map (\<lambda>d. (d, ph_name p)) (filter (\<lambda>d. d \<in> N) (concat (map ref_phase rs))))
      (foldl (add_dependency (ph_name p)) st rs)" for rs
  proof (induction rs rule: rev_induct)
    case Nil
    from assms(1) show ?case by simp
  next
    case (snoc r rs)
    from graph_of_add_dependency [OF snoc assms(2), of r] show ?case by simp
  qed
  then show ?thesis by (simp add: add_phase_def edges_in_def dependencies_def)
qed

lemma graph_of_build: "graph_of (names phases) (edges phases) (build_graph phases)"
proof -
  let ?N = "names phases" and ?st = "(empty_graph phases, zero_degrees phases)"
  have "set ps \<subseteq> set phases \<Longrightarrow> graph_of ?N (edges_in ?N ps) (foldl add_phase ?st ps)" for ps
  proof (induction ps rule: rev_induct)
    case Nil
    show ?case using graph_of_init by (simp add: edges_in_def)
  next
    case (snoc p ps)
    then show ?case
      using graph_of_add_phase [of ?N "edges_in ?N ps" "foldl add_phase ?st ps" p]
      by (auto simp: edges_in_def)
  qed
  then show ?thesis by (simp add: build_graph_def edges_def)
qed

lemma edges_names: "set (edges phases) \<subseteq> names phases \<times> names phases"
  by (auto simp: edges_def edges_in_def)

lemma set_dependencies: "set (dependencies p) = {d. \<exists>c. PhaseRef d c \<in> set (ph_requires p)}"
proof -
  have "d \<in> set (ref_phase r) \<longleftrightarrow> (\<exists>c. r = PhaseRef d c)" for d r by (cases r) auto
  then show ?thesis by (auto simp: dependencies_def)
qed

lemma edges_iff:
  "(d, n) \<in> set (edges phases) \<longleftrightarrow>
   d \<in> names phases \<and> (\<exists>p\<in>set phases. ph_name p = n \<and> (\<exists>c. PhaseRef d c \<in> set (ph_requires p)))"
  unfolding edges_def edges_in_def by (fastforce simp: set_dependencies)

section \<open>Kahn's loop\<close>

text \<open>The degree of a node is the number of its edges less the number of distinct dependencies already
  in the order; the nodes seen (ordered or queued) are those of degree zero; the order is
  topological so far.\<close>

definition kahn_inv ::
  "string set \<Rightarrow> (string \<times> string) list \<Rightarrow> string list \<Rightarrow> degrees \<Rightarrow> string list \<Rightarrow> bool" where
  "kahn_inv N E queue deg order \<longleftrightarrow>
     distinct (order @ queue) \<and> distinct (dict_keys deg) \<and> set (dict_keys deg) = N \<and>
     (\<forall>n\<in>N. map_of deg n =
        Some (int (count_list (map snd E) n) - int (card {d \<in> set order. (d, n) \<in> set E}))) \<and>
     set (order @ queue) = {n \<in> N. map_of deg n = Some 0} \<and>
     (\<forall>d n. (d, n) \<in> set E \<longrightarrow> n \<in> set order \<longrightarrow> precedes order d n)"

text \<open>A node's distinct dependencies are at most its edges, with equality only when no edge is
  repeated.\<close>

lemma finite_deps [simp]: "finite {d. (d, n) \<in> set E}"
  by (rule finite_subset [of _ "fst ` set E"]) force+

lemma deps_Cons:
  "{d. (d, n) \<in> set (e # E)} =
   (if snd e = n then insert (fst e) {d. (d, n) \<in> set E} else {d. (d, n) \<in> set E})"
  by (cases e) auto

lemma deps_le_count: "card {d. (d, n) \<in> set E} \<le> count_list (map snd E) n"
  by (induction E) (auto simp: deps_Cons card_insert_if simp del: set_simps(2))

lemma deps_eq_count_distinct:
  "distinct E \<Longrightarrow> count_list (map snd E) n = card {d. (d, n) \<in> set E}"
  by (induction E) (auto simp: deps_Cons card_insert_if simp del: set_simps(2))

lemma zero_degree_deps_done:
  assumes "int (count_list (map snd E) n) - int (card {d \<in> P. (d, n) \<in> set E}) = 0"
  shows "{d. (d, n) \<in> set E} \<subseteq> P"
proof -
  have "card {d. (d, n) \<in> set E} \<le> card {d \<in> P. (d, n) \<in> set E}"
    using assms deps_le_count [of n E] by linarith
  then have "{d \<in> P. (d, n) \<in> set E} = {d. (d, n) \<in> set E}"
    by (intro card_seteq) auto
  then show ?thesis by blast
qed

lemma degree_nonneg:
  "0 \<le> int (count_list (map snd E) n) - int (card {d \<in> P. (d, n) \<in> set E})"
proof -
  have "card {d \<in> P. (d, n) \<in> set E} \<le> card {d. (d, n) \<in> set E}" by (rule card_mono) auto
  then show ?thesis using deps_le_count [of n E] by linarith
qed

lemma ordered_deps_snoc:
  assumes "x \<notin> set order"
  shows "card {d \<in> set (order @ [x]). (d, n) \<in> set E} =
    card {d \<in> set order. (d, n) \<in> set E} + (if (x, n) \<in> set E then 1 else 0)"
proof -
  have "{d \<in> set (order @ [x]). (d, n) \<in> set E} =
      (if (x, n) \<in> set E then insert x {d \<in> set order. (d, n) \<in> set E}
       else {d \<in> set order. (d, n) \<in> set E})" by auto
  then show ?thesis using assms by simp
qed

lemma relax_fold:
  "distinct ns \<Longrightarrow>
   map_of (fst (foldl relax (deg, q) ns)) =
     (\<lambda>m. if m \<in> set ns then map_option (\<lambda>d. d - 1) (map_of deg m) else map_of deg m) \<and>
   snd (foldl relax (deg, q) ns) = q @ filter (\<lambda>m. map_of deg m = Some 1) ns"
proof (induction ns rule: rev_induct)
  case Nil
  show ?case by simp
next
  case (snoc n ns)
  then show ?case
    by (cases "map_of deg n") (auto simp: relax_def fun_eq_iff split: option.splits)
qed

lemma kahn_step:
  assumes inv: "kahn_inv N E (node # queue) deg order"
    and S: "successors g node = {m. (node, m) \<in> set E}" and EN: "set E \<subseteq> N \<times> N"
    and st: "st = foldl relax (deg, queue) (sorted_list_of_set (successors g node))"
  shows "kahn_inv N E (snd st) (fst st) (order @ [node])"
proof -
  let ?S = "{m. (node, m) \<in> set E}"
  have fin: "finite ?S" by (rule finite_subset [of _ "snd ` set E"]) force+
  have deg': "map_of (fst st) = (\<lambda>m. if m \<in> ?S then map_option (\<lambda>d. d - 1) (map_of deg m) else map_of deg m)"
    and q': "snd st = queue @ filter (\<lambda>m. map_of deg m = Some 1) (sorted_list_of_set ?S)"
    using relax_fold [of "sorted_list_of_set ?S" deg queue] fin S st by simp_all
  have deg: "map_of deg n =
      Some (int (count_list (map snd E) n) - int (card {d \<in> set order. (d, n) \<in> set E}))"
    if "n \<in> N" for n using inv that by (simp add: kahn_inv_def)
  have seen: "insert node (set order \<union> set queue) = {n \<in> N. map_of deg n = Some 0}"
    and dist: "distinct (order @ node # queue)"
    and prec: "\<And>d n. (d, n) \<in> set E \<Longrightarrow> n \<in> set order \<Longrightarrow> precedes order d n"
    using inv by (auto simp: kahn_inv_def)
  have node: "node \<in> N" "map_of deg node = Some 0" using seen by blast+
  with deg [of node] have ready: "{d. (d, node) \<in> set E} \<subseteq> set order"
    by (intro zero_degree_deps_done) simp
  have SN: "?S \<subseteq> N" using EN by blast
  have D: "map_of (fst st) n =
      Some (int (count_list (map snd E) n) - int (card {d \<in> set (order @ [node]). (d, n) \<in> set E}))"
    if "n \<in> N" for n
    using deg [OF that] dist by (simp add: deg' ordered_deps_snoc del: set_append)
  have zero': "map_of (fst st) n = Some 0 \<longleftrightarrow> map_of deg n = Some 0 \<or> n \<in> ?S \<and> map_of deg n = Some 1"
    if n: "n \<in> N" for n
  proof -
    have "\<exists>x. map_of deg n = Some x" using deg [OF n] by blast
    moreover have "\<exists>x. map_of (fst st) n = Some x \<and> 0 \<le> x"
      by (rule exI, rule conjI [OF D [OF n] degree_nonneg])
    ultimately show ?thesis by (auto simp: deg' split: if_splits)
  qed
  have "set ((order @ [node]) @ snd st) = {n \<in> N. map_of (fst st) n = Some 0}"
    using seen zero' SN fin by (auto simp: q')
  moreover have "distinct ((order @ [node]) @ snd st)"
    using dist seen node fin by (auto simp: q')
  moreover have "precedes (order @ [node]) d n" if "(d, n) \<in> set E" "n \<in> set (order @ [node])" for d n
    using that prec ready by (intro precedes_extend) auto
  moreover have "dict_keys (fst st) = dict_keys deg" unfolding st by (simp add: relax_keys)
  ultimately show ?thesis using D inv by (simp add: kahn_inv_def)
qed

lemma kahn_keeps_inv:
  "\<lbrakk>kahn_inv N E queue deg order; kahn g queue deg order = (order', deg');
    \<forall>n\<in>N. successors g n = {m. (n, m) \<in> set E}; set E \<subseteq> N \<times> N\<rbrakk> \<Longrightarrow> kahn_inv N E [] deg' order'"
proof (induction g queue deg order rule: kahn.induct)
  case (1 g deg order)
  then show ?case by simp
next
  case (2 g node queue deg order)
  have "node \<in> N" using "2.prems"(1) by (auto simp: kahn_inv_def)
  then show ?case
    using 2 kahn_step [OF "2.prems"(1) _ "2.prems"(4) refl, of g] by (simp add: Let_def)
qed

lemma kahn_inv_init:
  assumes "graph_of N E (g, deg)"
  shows "kahn_inv N E (map fst (filter (\<lambda>e. snd e = 0) deg)) deg []"
proof -
  have d: "distinct (dict_keys deg)" using assms by (simp add: graph_of_def)
  then have "distinct (map fst (filter (\<lambda>e. snd e = 0) deg))" by (simp add: distinct_map_filter)
  moreover have "map_of deg n \<noteq> None \<Longrightarrow> n \<in> N" for n
    using assms map_of_eq_None_iff [of deg n] by (auto simp: graph_of_def)
  ultimately show ?thesis
    using assms keys_filter_values [OF d, of "\<lambda>x. x = 0"] by (auto simp: kahn_inv_def graph_of_def)
qed

lemma kahn_inv_remaining:
  assumes "kahn_inv N E [] deg order"
  shows "fst ` set (filter (\<lambda>e. 0 < snd e) deg) = N - set order"
proof -
  have d: "distinct (dict_keys deg)" "fst ` set deg = N" using assms by (simp_all add: kahn_inv_def)
  have "map_of deg n = Some x \<Longrightarrow> 0 \<le> x" if "n \<in> N" for n x
    using assms that degree_nonneg [of E n "set order"] by (auto simp: kahn_inv_def)
  moreover have "map_of deg n \<noteq> None \<longleftrightarrow> n \<in> N" for n using d(2) map_of_eq_None_iff [of deg n] by auto
  moreover have "set order = {n \<in> N. map_of deg n = Some 0}" using assms by (simp add: kahn_inv_def)
  ultimately show ?thesis unfolding keys_filter_values [OF d(1)] by force
qed

text \<open>The run of the loop on the graph of a workflow: the nodes that remain are those not ordered.\<close>

lemma topological_sort_run:
  obtains g deg order where
    "graph_of (names phases) (edges phases) (g, snd (build_graph phases))"
    "kahn_inv (names phases) (edges phases) [] deg order"
    "topological_sort it phases =
      (if set order \<noteq> names phases then Inl (find_cycle it g (names phases - set order)) else Inr order)"
proof -
  let ?N = "names phases" and ?E = "edges phases"
  obtain g deg0 where b: "build_graph phases = (g, deg0)" by fastforce
  obtain order deg where k: "kahn g (map fst (filter (\<lambda>e. snd e = 0) deg0)) deg0 [] = (order, deg)"
    by fastforce
  have g: "graph_of ?N ?E (g, deg0)" using graph_of_build [of phases] b by simp
  have inv: "kahn_inv ?N ?E [] deg order"
    by (rule kahn_keeps_inv [OF kahn_inv_init [OF g] k _ edges_names])
      (use g in \<open>auto simp: graph_of_def successors_def\<close>)
  have "length g = card ?N"
    using g distinct_card [of "dict_keys g"] by (simp add: graph_of_def)
  moreover have "distinct order" "set order \<subseteq> ?N" using inv by (auto simp: kahn_inv_def)
  ultimately have len: "length order \<noteq> length g \<longleftrightarrow> set order \<noteq> ?N"
    using card_subset_eq [of ?N "set order"] distinct_card [of order] by auto
  have "fst ` set (filter (\<lambda>e. 0 < snd e) deg) = ?N - set order"
    using kahn_inv_remaining [OF inv] .
  with len show thesis
    using that [of g deg order] g inv b k by (simp add: topological_sort_def)
qed

section \<open>When the sort succeeds\<close>

lemma acyclic_all_ordered:
  assumes inv: "kahn_inv N E [] deg order" and E: "distinct E" "acyclic (set E)" "set E \<subseteq> N \<times> N"
  shows "set order = N"
proof (rule ccontr)
  assume "set order \<noteq> N"
  have done0: "set order = {n \<in> N. map_of deg n = Some 0}" using inv by (simp add: kahn_inv_def)
  with \<open>set order \<noteq> N\<close> obtain n where n: "n \<in> N - set order" by blast
  have "wf (set E)" using E(2) by (simp add: finite_acyclic_wf)
  from wfE_min [OF this n] obtain z
    where z: "z \<in> N - set order" "\<And>y. (y, z) \<in> set E \<Longrightarrow> y \<notin> N - set order" by blast
  then have "{d \<in> set order. (d, z) \<in> set E} = {d. (d, z) \<in> set E}" using E(3) by blast
  then have "map_of deg z = Some 0"
    using inv z(1) deps_eq_count_distinct [OF E(1)] by (simp add: kahn_inv_def)
  with z(1) done0 show False by blast
qed

lemma repeated_edge_excess:
  "\<not> distinct E \<Longrightarrow> \<exists>n\<in>snd ` set E. card {d. (d, n) \<in> set E} < count_list (map snd E) n"
proof (induction E)
  case Nil
  then show ?case by simp
next
  case (Cons e E)
  show ?case
  proof (cases "e \<in> set E")
    case True
    then have "insert (fst e) {d. (d, snd e) \<in> set E} = {d. (d, snd e) \<in> set E}" by auto
    then have "card {d. (d, snd e) \<in> set (e # E)} < count_list (map snd (e # E)) (snd e)"
      unfolding deps_Cons using deps_le_count [of "snd e" E] by simp
    then show ?thesis by auto
  next
    case False
    with Cons obtain n where n: "n \<in> snd ` set E" "card {d. (d, n) \<in> set E} < count_list (map snd E) n"
      by auto
    then have "card {d. (d, n) \<in> set (e # E)} < count_list (map snd (e # E)) n"
      unfolding deps_Cons by (simp add: card_insert_if)
    then show ?thesis by (rule bexI [of _ n]) (use n(1) in simp)
  qed
qed

lemma repeated_not_ordered:
  assumes inv: "kahn_inv N E [] deg order" and E: "\<not> distinct E" "set E \<subseteq> N \<times> N"
  shows "set order \<noteq> N"
proof -
  obtain n where n: "card {d. (d, n) \<in> set E} < count_list (map snd E) n" "n \<in> snd ` set E"
    using repeated_edge_excess [OF E(1)] by blast
  then have "n \<in> N" using E(2) by auto
  have "card {d \<in> set order. (d, n) \<in> set E} \<le> card {d. (d, n) \<in> set E}" by (rule card_mono) auto
  with n(1) have "map_of deg n \<noteq> Some 0" using inv \<open>n \<in> N\<close> by (simp add: kahn_inv_def)
  moreover have "set order = {n \<in> N. map_of deg n = Some 0}" using inv by (simp add: kahn_inv_def)
  ultimately show ?thesis using \<open>n \<in> N\<close> by blast
qed

lemma topological_sort_Inr:
  assumes "topological_sort it phases = Inr order"
  shows "distinct order" "set order = names phases"
    "(d, n) \<in> set (edges phases) \<Longrightarrow> precedes order d n"
proof -
  obtain g deg ord where inv: "kahn_inv (names phases) (edges phases) [] deg ord"
    and "topological_sort it phases =
      (if set ord \<noteq> names phases then Inl (find_cycle it g (names phases - set ord)) else Inr ord)"
    by (rule topological_sort_run)
  with assms have ord: "ord = order" "set order = names phases" by (auto split: if_splits)
  have "distinct (ord @ [])" using inv unfolding kahn_inv_def by blast
  with ord show "distinct order" "set order = names phases" by simp_all
  show "precedes order d n" if "(d, n) \<in> set (edges phases)"
  proof -
    have "n \<in> set order" using that ord(2) edges_names [of phases] by blast
    with that inv ord(1) show ?thesis unfolding kahn_inv_def by blast
  qed
qed

lemma topological_sort_succeeds_iff:
  "(\<exists>order. topological_sort it phases = Inr order) \<longleftrightarrow>
   acyclic (set (edges phases)) \<and> distinct (edges phases)"
proof
  assume "\<exists>order. topological_sort it phases = Inr order"
  then obtain order where o: "topological_sort it phases = Inr order" by blast
  have "acyclic (set (edges phases))"
    by (rule precedes_acyclic [OF topological_sort_Inr(1) [OF o] topological_sort_Inr(3) [OF o]])
  moreover have "distinct (edges phases)"
  proof (rule ccontr)
    assume "\<not> distinct (edges phases)"
    moreover obtain g deg ord where "kahn_inv (names phases) (edges phases) [] deg ord"
      and run: "topological_sort it phases =
        (if set ord \<noteq> names phases then Inl (find_cycle it g (names phases - set ord)) else Inr ord)"
      by (rule topological_sort_run)
    ultimately have "set ord \<noteq> names phases" using repeated_not_ordered edges_names by blast
    with o run show False by simp
  qed
  ultimately show "acyclic (set (edges phases)) \<and> distinct (edges phases)" ..
next
  assume "acyclic (set (edges phases)) \<and> distinct (edges phases)"
  moreover obtain g deg ord where "kahn_inv (names phases) (edges phases) [] deg ord"
    and "topological_sort it phases =
      (if set ord \<noteq> names phases then Inl (find_cycle it g (names phases - set ord)) else Inr ord)"
    by (rule topological_sort_run)
  ultimately show "\<exists>order. topological_sort it phases = Inr order"
    using acyclic_all_ordered edges_names by auto
qed

section \<open>The reported cycle\<close>

text \<open>A closed walk: at least one edge, back to its start.\<close>

fun walk :: "(string \<times> string) set \<Rightarrow> string list \<Rightarrow> bool" where
  "walk R (a # b # xs) \<longleftrightarrow> (a, b) \<in> R \<and> walk R (b # xs)"
| "walk R _ \<longleftrightarrow> True"

definition closed_walk :: "(string \<times> string) set \<Rightarrow> string list \<Rightarrow> bool" where
  "closed_walk R c \<longleftrightarrow> 2 \<le> length c \<and> hd c = last c \<and> walk R c"

lemma walk_append: "walk R (xs @ [a]) \<Longrightarrow> (a, b) \<in> R \<Longrightarrow> walk R (xs @ [a, b])"
  by (induction R xs rule: walk.induct) auto

lemma walk_snoc: "walk R path \<Longrightarrow> (path \<noteq> [] \<longrightarrow> (last path, b) \<in> R) \<Longrightarrow> walk R (path @ [b])"
  by (cases path rule: rev_cases) (simp_all add: walk_append)

lemma walk_mono: "walk R c \<Longrightarrow> R \<subseteq> R' \<Longrightarrow> walk R' c"
  by (induction R c rule: walk.induct) auto

lemma walk_suffix: "walk R (xs @ ys) \<Longrightarrow> walk R ys"
  by (induction xs) (auto elim: walk.elims(2))

text \<open>What the search keeps: the nodes visited and off the path are closed under the edges and no
  cycle runs through them.\<close>

definition explored :: "(string \<times> string) set \<Rightarrow> string list \<Rightarrow> string set \<Rightarrow> bool" where
  "explored R path visited \<longleftrightarrow>
     set path \<subseteq> visited \<and>
     (\<forall>u v. u \<in> visited - set path \<longrightarrow> (u, v) \<in> R \<longrightarrow> v \<in> visited - set path) \<and>
     acyclic {(u, v) \<in> R. u \<in> visited - set path}"

lemma acyclic_extend:
  assumes "acyclic {(u, v) \<in> R. u \<in> B}" and closed: "\<And>u v. u \<in> B \<Longrightarrow> (u, v) \<in> R \<Longrightarrow> v \<in> B"
    and "n \<notin> B" and next_in: "\<And>v. (n, v) \<in> R \<Longrightarrow> v \<in> B"
  shows "acyclic {(u, v) \<in> R. u \<in> insert n B}"
proof -
  let ?old = "{(u, v) \<in> R. u \<in> B}" and ?new = "{(u, v) \<in> R. u \<in> insert n B}"
  have stay: "(x, y) \<in> ?new\<^sup>+ \<Longrightarrow> x \<in> B \<Longrightarrow> (x, y) \<in> ?old\<^sup>+ \<and> y \<in> B" for x y
  proof (induction rule: trancl_induct)
    case (base y)
    with closed show ?case by blast
  next
    case (step y z)
    then have "(x, y) \<in> ?old\<^sup>+" "y \<in> B" by blast+
    moreover have "(y, z) \<in> ?old" using \<open>y \<in> B\<close> step.hyps(2) by blast
    ultimately show ?case using closed by (blast intro: trancl.trancl_into_trancl)
  qed
  have "(x, x) \<notin> ?new\<^sup>+" for x
  proof
    assume cyc: "(x, x) \<in> ?new\<^sup>+"
    then obtain y where y: "(x, y) \<in> ?new" "(y, x) \<in> ?new\<^sup>*" by (blast dest: tranclD)
    show False
    proof (cases "x \<in> B")
      case True
      with stay [OF cyc] assms(1) show False by (simp add: acyclic_def)
    next
      case False
      with y(1) have "x = n" "y \<in> B" using next_in by auto
      with y(2) stay [of y x] False assms(3) show False by (auto simp: rtrancl_eq_or_trancl)
    qed
  qed
  then show ?thesis by (simp add: acyclic_def)
qed

lemma explored_path: "explored R path V \<Longrightarrow> set path \<subseteq> V"
  unfolding explored_def by (elim conjE)

lemma explored_closed:
  "explored R path V \<Longrightarrow> u \<in> V - set path \<Longrightarrow> (u, v) \<in> R \<Longrightarrow> v \<in> V - set path"
  unfolding explored_def by (elim conjE) blast

lemma explored_pop:
  assumes ex: "explored R (path @ [n]) V" and "n \<notin> set path"
    and nbrs: "\<And>v. (n, v) \<in> R \<Longrightarrow> v \<in> V - set (path @ [n])"
  shows "explored R path V"
proof -
  let ?B = "V - set (path @ [n])"
  have n: "n \<in> V" "set path \<subseteq> V" using explored_path [OF ex] by auto
  then have B: "V - set path = insert n ?B" using assms(2) by auto
  have "acyclic {(u, v) \<in> R. u \<in> ?B}" using ex unfolding explored_def by (elim conjE)
  then have "acyclic {(u, v) \<in> R. u \<in> insert n ?B}"
  proof (rule acyclic_extend)
    show "v \<in> ?B" if "u \<in> ?B" "(u, v) \<in> R" for u v by (rule explored_closed [OF ex that])
    show "v \<in> ?B" if "(n, v) \<in> R" for v by (rule nbrs [OF that])
  qed simp
  moreover have "v \<in> insert n ?B" if "u \<in> insert n ?B" "(u, v) \<in> R" for u v
    using that nbrs [of v] explored_closed [OF ex, of u v] by blast
  ultimately show ?thesis using n(2) unfolding explored_def B by blast
qed

definition dfs_post ::
  "(string \<times> string) set \<Rightarrow> string set \<Rightarrow> string list \<Rightarrow> string set \<Rightarrow> string set \<Rightarrow> dfs_result \<Rightarrow> bool" where
  "dfs_post R rem path visited goals r \<longleftrightarrow>
    (case r of
       Found c \<Rightarrow> closed_walk R c
     | Exhausted V \<Rightarrow> visited \<subseteq> V \<and> V \<subseteq> rem \<and> explored R path V \<and> goals \<subseteq> V - set path
     | NoFuel \<Rightarrow> False)"

lemma dfs_over_post:
  assumes "\<And>V n. visited \<subseteq> V \<Longrightarrow> V \<subseteq> rem \<Longrightarrow> explored R path V \<Longrightarrow> n \<in> set ns \<Longrightarrow>
      dfs_post R rem path V {n} (visit V n)"
    and "visited \<subseteq> rem" "explored R path visited"
  shows "dfs_post R rem path visited (set ns) (dfs_over visit visited ns)"
  using assms
proof (induction ns arbitrary: visited)
  case Nil
  then show ?case by (simp add: dfs_post_def)
next
  case (Cons n ns)
  have n: "dfs_post R rem path visited {n} (visit visited n)" using Cons.prems by simp
  show ?case
  proof (cases "visit visited n")
    case (Exhausted V)
    with n have V: "visited \<subseteq> V" "V \<subseteq> rem" "explored R path V" "n \<in> V - set path"
      by (simp_all add: dfs_post_def)
    have "dfs_post R rem path V (set ns) (dfs_over visit V ns)"
      using V Cons.prems(1) by (intro Cons.IH) auto
    with V Exhausted show ?thesis by (auto simp: dfs_post_def split: dfs_result.splits)
  qed (use n in \<open>simp_all add: dfs_post_def\<close>)
qed

lemma closed_walk_found:
  assumes "walk R (path @ [n])" "n \<in> set path"
  shows "closed_walk R (dropWhile (\<lambda>m. m \<noteq> n) path @ [n])"
proof -
  obtain xs ys where p: "path = xs @ n # ys" "n \<notin> set xs" using split_list_first [OF assms(2)] by blast
  then have "dropWhile (\<lambda>m. m \<noteq> n) path = n # ys" by (auto simp: dropWhile_append)
  moreover have "walk R (n # ys @ [n])" using assms(1) p walk_suffix [of R xs] by simp
  ultimately show ?thesis by (simp add: closed_walk_def)
qed

lemma dfs_post_dfs:
  assumes nbrs: "\<And>u. u \<in> rem \<Longrightarrow> set (filter (\<lambda>n. n \<in> rem) (it (successors g u))) = {v. (u, v) \<in> R}"
    and R: "R \<subseteq> rem \<times> rem" and fin: "finite rem"
  shows "node \<in> rem \<Longrightarrow> walk R (path @ [node]) \<Longrightarrow> visited \<subseteq> rem \<Longrightarrow> explored R path visited \<Longrightarrow>
    card (rem - visited) < fuel \<Longrightarrow> dfs_post R rem path visited {node} (dfs it g rem fuel path visited node)"
proof (induction fuel arbitrary: node path visited)
  case 0
  then show ?case by simp
next
  case (Suc fuel)
  consider "node \<in> set path" | "node \<notin> set path" "node \<in> visited" | "node \<notin> set path" "node \<notin> visited"
    by blast
  then show ?case
  proof cases
    case 1
    with Suc.prems(2) show ?thesis by (simp add: dfs_post_def closed_walk_found)
  next
    case 2
    with Suc.prems show ?thesis by (simp add: dfs_post_def)
  next
    case 3
    let ?path = "path @ [node]" and ?V = "insert node visited"
      and ?ns = "filter (\<lambda>n. n \<in> rem) (it (successors g node))"
    have ns: "set ?ns = {v. (node, v) \<in> R}" by (rule nbrs [OF Suc.prems(1)])
    have same: "?V - set ?path = visited - set path" using 3 by auto
    have "0 < card (rem - visited)" using 3 Suc.prems(1) fin by (auto simp: card_gt_0_iff)
    then have "card (rem - ?V) < fuel"
      using 3 Suc.prems(1,5) fin card_Diff_insert [of node rem visited] by simp
    then have step: "card (rem - V) < fuel" if "?V \<subseteq> V" for V
      using that fin by (meson Diff_mono card_mono finite_Diff le_less_trans order_refl)
    have "dfs_post R rem ?path ?V (set ?ns) (dfs_over (dfs it g rem fuel ?path) ?V ?ns)"
    proof (rule dfs_over_post)
      fix V n
      assume V: "?V \<subseteq> V" "V \<subseteq> rem" "explored R ?path V" "n \<in> set ?ns"
      have "walk R (?path @ [n])" by (rule walk_snoc [OF Suc.prems(2)]) (use V(4) ns in auto)
      then show "dfs_post R rem ?path V {n} (dfs it g rem fuel ?path V n)"
        using step V by (intro Suc.IH) auto
    next
      show "?V \<subseteq> rem" using Suc.prems by simp
      have "set path \<subseteq> visited" using Suc.prems(4) unfolding explored_def by (elim conjE)
      then have "set ?path \<subseteq> ?V" by auto
      with Suc.prems(4) show "explored R ?path ?V"
        unfolding explored_def same by (elim conjE, intro conjI) assumption+
    qed
    moreover have "explored R path V \<and> node \<in> V - set path"
      if V: "explored R ?path V" "?V \<subseteq> V" "set ?ns \<subseteq> V - set ?path" for V
      using explored_pop [OF V(1) 3(1)] V(2,3) ns 3(1) by blast
    ultimately show ?thesis
      using 3 by (auto simp: dfs_post_def split: dfs_result.splits)
  qed
qed

lemma find_cycle_closed_walk:
  assumes it: "\<And>S. finite S \<Longrightarrow> set (it S) = S"
    and g: "\<And>u. u \<in> rem \<Longrightarrow> successors g u = {v. (u, v) \<in> E}" "finite E"
    and rem: "finite rem" "rem \<noteq> {}" "\<And>n. n \<in> rem \<Longrightarrow> \<exists>d\<in>rem. (d, n) \<in> E"
  shows "closed_walk E (find_cycle it g rem)"
proof -
  define R where "R = E \<inter> (rem \<times> rem)"
  have fin: "finite {v. (u, v) \<in> E}" for u by (rule finite_subset [of _ "snd ` E"]) (use g(2) in force)+
  have nbrs: "set (filter (\<lambda>n. n \<in> rem) (it (successors g u))) = {v. (u, v) \<in> R}" if "u \<in> rem" for u
    using that g(1) it [OF fin] by (auto simp: R_def)
  let ?r = "dfs_over (dfs it g rem (Suc (card rem)) []) {} (it rem)"
  have post: "dfs_post R rem [] {} (set (it rem)) ?r"
  proof (rule dfs_over_post)
    fix V n
    assume V: "V \<subseteq> rem" "explored R [] V" "n \<in> set (it rem)"
    show "dfs_post R rem [] V {n} (dfs it g rem (Suc (card rem)) [] V n)"
      by (rule dfs_post_dfs [OF nbrs])
        (use V it rem(1) in \<open>auto simp: R_def intro: le_imp_less_Suc card_mono\<close>)
  qed (simp_all add: explored_def acyclic_def)
  have "\<not> acyclic R"
  proof
    assume "acyclic R"
    moreover have "finite R" using g(2) by (simp add: R_def)
    ultimately have "wf R" by (simp add: finite_acyclic_wf)
    then obtain z where z: "z \<in> rem" "\<And>y. (y, z) \<in> R \<Longrightarrow> y \<notin> rem"
      using rem(2) by (rule wfE_min') blast
    obtain d where "d \<in> rem" "(d, z) \<in> E" using rem(3) [OF z(1)] by blast
    with z(1) z(2) [of d] show False unfolding R_def by blast
  qed
  moreover have "acyclic R" if "explored R [] V" "set (it rem) \<subseteq> V" "V \<subseteq> rem" for V
  proof -
    have "{(u, v) \<in> R. u \<in> V} = R" using that it [OF rem(1)] by (auto simp: R_def)
    with that(1) show ?thesis by (simp add: explored_def)
  qed
  moreover have "walk R c \<Longrightarrow> walk E c" for c using walk_mono [of R c E] by (simp add: R_def)
  ultimately show ?thesis
    using post by (auto simp: find_cycle_def dfs_post_def closed_walk_def split: dfs_result.splits)
qed

lemma unordered_has_unordered_dep:
  assumes inv: "kahn_inv N E [] deg order" and E: "distinct E" "set E \<subseteq> N \<times> N" and n: "n \<in> N - set order"
  shows "\<exists>d\<in>N - set order. (d, n) \<in> set E"
proof (rule ccontr)
  assume "\<not> ?thesis"
  then have "{d \<in> set order. (d, n) \<in> set E} = {d. (d, n) \<in> set E}" using E(2) by blast
  then have "map_of deg n = Some 0"
    using inv n deps_eq_count_distinct [OF E(1)] by (simp add: kahn_inv_def)
  moreover have "set order = {n \<in> N. map_of deg n = Some 0}" using inv by (simp add: kahn_inv_def)
  ultimately show False using n by blast
qed

lemma topological_sort_Inl:
  assumes it: "\<And>S. finite S \<Longrightarrow> set (it S) = S" and "distinct (edges phases)"
    and "topological_sort it phases = Inl c"
  shows "closed_walk (set (edges phases)) c"
proof -
  let ?N = "names phases" and ?E = "edges phases"
  obtain g deg ord where g: "graph_of ?N ?E (g, snd (build_graph phases))"
    and inv: "kahn_inv ?N ?E [] deg ord"
    and run: "topological_sort it phases =
      (if set ord \<noteq> ?N then Inl (find_cycle it g (?N - set ord)) else Inr ord)"
    by (rule topological_sort_run)
  have "set (ord @ []) \<subseteq> ?N" using inv unfolding kahn_inv_def by blast
  with run assms(3) have c: "c = find_cycle it g (?N - set ord)" "?N - set ord \<noteq> {}"
    by (auto split: if_splits)
  show ?thesis
    unfolding c(1)
  proof (rule find_cycle_closed_walk)
    show "\<exists>d\<in>?N - set ord. (d, n) \<in> set ?E" if "n \<in> ?N - set ord" for n
      by (rule unordered_has_unordered_dep [OF inv assms(2) edges_names that])
    show "successors g u = {v. (u, v) \<in> set ?E}" if "u \<in> ?N - set ord" for u
      using g that by (auto simp: graph_of_def successors_def)
  qed (use it c(2) in auto)
qed

section \<open>Properties\<close>

text \<open>C3: The order \<open>_topological_sort\<close> returns lists every phase name of the workflow exactly once,
  and puts every phase after each phase its \<open>require\<close> statements refer to.\<close>

theorem topological_sort_order:
  assumes "topological_sort it phases = Inr order"
  shows "distinct order \<and> set order = set (map ph_name phases) \<and>
    (\<forall>p\<in>set phases. \<forall>d c. PhaseRef d c \<in> set (ph_requires p) \<longrightarrow>
       d \<in> set (map ph_name phases) \<longrightarrow> precedes order d (ph_name p))"
proof (intro conjI ballI allI impI)
  show "distinct order" "set order = set (map ph_name phases)" using topological_sort_Inr [OF assms] by simp_all
  fix p d c
  assume "p \<in> set phases" "PhaseRef d c \<in> set (ph_requires p)" "d \<in> set (map ph_name phases)"
  then have "(d, ph_name p) \<in> set (edges phases)" unfolding edges_iff set_map by blast
  then show "precedes order d (ph_name p)" by (rule topological_sort_Inr(3) [OF assms])
qed

definition sample_phase :: "string \<Rightarrow> RequireNode list \<Rightarrow> PhaseNode" where
  "sample_phase name requires =
    \<lparr>ph_name = name, ph_requires = requires, ph_actions = [], ph_outputs = [], ph_grants = [],
     ph_certify = None, ph_evidence = None, ph_when_blocks = [], ph_awaits = []\<rparr>"

definition sample_phases :: "PhaseNode list" where
  "sample_phases =
    [sample_phase ''offer'' [PhaseRef ''screen'' ''passed'', PhaseRef ''consent'' ''complete''],
     sample_phase ''screen'' [PhaseRef ''consent'' ''passed''],
     sample_phase ''consent'' [FeatureCall \<lparr>call_name = ''verify'', call_args = []\<rparr>]]"

theorem topological_sort_order_witness:
  "topological_sort sorted_list_of_set sample_phases = Inr [''consent'', ''screen'', ''offer''] \<and>
   distinct [''consent'', ''screen'', ''offer''] \<and>
   set [''consent'', ''screen'', ''offer''] = set (map ph_name sample_phases)"
proof -
  have sorted: "topological_sort sorted_list_of_set sample_phases = Inr [''consent'', ''screen'', ''offer'']"
    by code_simp
  show ?thesis using sorted topological_sort_order [OF sorted] by blast
qed

text \<open>\<open>_topological_sort\<close> accepts exactly the workflows whose dependency relation has no cycle and in
  which no dependency is listed twice. The second condition is not meant: a phase that requires both
  \<open>a.passed\<close> and \<open>a.complete\<close> is rejected as cyclic, because its in-degree counts both requires while the
  successor set of \<open>a\<close> holds the phase once.\<close>

theorem topological_sort_accepts:
  "(\<exists>order. topological_sort it phases = Inr order) \<longleftrightarrow>
   acyclic {(d, n). d \<in> set (map ph_name phases) \<and>
     (\<exists>p\<in>set phases. ph_name p = n \<and> (\<exists>c. PhaseRef d c \<in> set (ph_requires p)))} \<and>
   distinct (edges phases)"
proof -
  have "{(d, n). d \<in> set (map ph_name phases) \<and>
      (\<exists>p\<in>set phases. ph_name p = n \<and> (\<exists>c. PhaseRef d c \<in> set (ph_requires p)))} = set (edges phases)"
    unfolding set_eq_iff by (simp add: edges_iff split: prod.split)
  then show ?thesis by (simp only: topological_sort_succeeds_iff)
qed

text \<open>When \<open>_topological_sort\<close> raises \<open>CyclicDependencyError\<close> on a workflow in which no dependency is
  listed twice, the names it carries are a cycle of the dependency graph: at least one step long,
  back to its first phase, every step from a phase to one that requires it.\<close>

theorem topological_sort_cycle:
  assumes "\<forall>S. finite S \<longrightarrow> set (it S) = S" "distinct (edges phases)"
    and "topological_sort it phases = Inl cycle"
  shows "2 \<le> length cycle \<and> hd cycle = last cycle \<and> walk (set (edges phases)) cycle"
  using topological_sort_Inl [of it phases cycle] assms by (simp add: closed_walk_def)

definition cyclic_phases :: "PhaseNode list" where
  "cyclic_phases =
    [sample_phase ''a'' [PhaseRef ''c'' ''passed''], sample_phase ''b'' [PhaseRef ''a'' ''passed''],
     sample_phase ''c'' [PhaseRef ''b'' ''passed''], sample_phase ''d'' [PhaseRef ''c'' ''passed'']]"

theorem topological_sort_cycle_witness:
  "topological_sort sorted_list_of_set cyclic_phases = Inl [''a'', ''b'', ''c'', ''a''] \<and>
   walk (set (edges cyclic_phases)) [''a'', ''b'', ''c'', ''a'']"
proof -
  have run: "topological_sort sorted_list_of_set cyclic_phases = Inl [''a'', ''b'', ''c'', ''a'']"
    by code_simp
  have "distinct (edges cyclic_phases)" by code_simp
  with run show ?thesis
    using topological_sort_cycle [of sorted_list_of_set cyclic_phases "[''a'', ''b'', ''c'', ''a'']"] by simp
qed

text \<open>The repeated dependency, on a workflow of two phases.\<close>

lemma repeated_require_rejected:
  "topological_sort sorted_list_of_set
     [sample_phase ''a'' [], sample_phase ''b'' [PhaseRef ''a'' ''passed'', PhaseRef ''a'' ''complete'']]
   = Inl [''b'']"
  by code_simp

end
