(* ===== verification/Resolver_Correct.thy ===== *)
theory Resolver_Correct
  imports Resolver Topo_Correct
begin

text \<open>
  The specification of the resolver: \<open>valid_charter\<close> states declaratively what a charter must satisfy
  with respect to the registries, and the resolver is shown to accept exactly the valid charters. The
  proofs follow the structure of the code: the error list of each function is empty exactly when its
  part of the specification holds.
\<close>

section \<open>Specification\<close>

definition valid_call :: "'ty resolver_config \<Rightarrow> string set \<Rightarrow> string \<Rightarrow> bool" where
  "valid_call cfg allowed name \<longleftrightarrow>
     (allowed \<noteq> {} \<and> rc_packages cfg \<noteq> None \<longrightarrow> name \<in> allowed) \<and>
     (\<forall>reg. rc_features cfg = Some reg \<longrightarrow> fr_has_feature reg name)"

definition valid_builtin :: "'ty resolver_config \<Rightarrow> string \<Rightarrow> bool" where
  "valid_builtin cfg name \<longleftrightarrow>
     name \<in> known_builtins \<or> (\<forall>reg. rc_features cfg = Some reg \<longrightarrow> fr_has_feature reg name)"

fun valid_require :: "'ty resolver_config \<Rightarrow> string set \<Rightarrow> string set \<Rightarrow> string set \<Rightarrow> RequireNode \<Rightarrow> bool" where
  "valid_require cfg phases triggers allowed (FeatureCall call) \<longleftrightarrow> valid_call cfg allowed (call_name call)"
| "valid_require cfg phases triggers allowed (PhaseRef phase c) \<longleftrightarrow> phase \<in> phases"
| "valid_require cfg phases triggers allowed (AwaitRef t) \<longleftrightarrow> t \<in> triggers"
| "valid_require cfg phases triggers allowed (BuiltinRef name) \<longleftrightarrow> valid_builtin cfg name"

definition valid_when_block ::
  "'ty resolver_config \<Rightarrow> string set \<Rightarrow> string set \<Rightarrow> string set \<Rightarrow> WhenBlockNode \<Rightarrow> bool" where
  "valid_when_block cfg phases triggers allowed b \<longleftrightarrow>
     (\<forall>a\<in>set (wb_awaits b). aw_trigger a \<in> triggers) \<and>
     (\<forall>r\<in>set (wb_requires b). valid_require cfg phases triggers allowed r) \<and>
     (\<forall>a\<in>set (wb_actions b). valid_call cfg allowed (call_name (act_call a)))"

definition valid_output :: "'ty resolver_config \<Rightarrow> SchemaRefNode list \<Rightarrow> OutputNode \<Rightarrow> bool" where
  "valid_output cfg schemas out \<longleftrightarrow>
     (\<forall>catalog. rc_catalog cfg = Some catalog \<longrightarrow> schemas \<noteq> [] \<longrightarrow>
        (\<exists>ref\<in>set schemas. get_schema catalog (sc_namespace ref) (sc_version ref) (out_type_name out) \<noteq> None))"

definition valid_grant :: "GrantNode \<Rightarrow> bool" where
  "valid_grant g \<longleftrightarrow>
     gr_document_type g \<in> known_document_types \<and>
     (\<forall>ttl. gr_ttl_minutes g = Some ttl \<longrightarrow> 1 \<le> ttl \<and> ttl \<le> 1440)"

definition valid_phase :: "'ty resolver_config \<Rightarrow> CharterNode \<Rightarrow> string set \<Rightarrow> string set \<Rightarrow> PhaseNode \<Rightarrow> bool" where
  "valid_phase cfg charter phases allowed p \<longleftrightarrow>
    (let triggers = tr_name ` set (ch_triggers charter) in
     (\<forall>a\<in>set (ph_awaits p). aw_trigger a \<in> triggers) \<and>
     (\<forall>r\<in>set (ph_requires p). valid_require cfg phases triggers allowed r) \<and>
     (\<forall>a\<in>set (ph_actions p). valid_call cfg allowed (call_name (act_call a))) \<and>
     (\<forall>b\<in>set (ph_when_blocks p). valid_when_block cfg phases triggers allowed b) \<and>
     (\<forall>out\<in>set (ph_outputs p). valid_output cfg (ch_schemas charter) out) \<and>
     (\<forall>g\<in>set (ph_grants p). valid_grant g))"

definition valid_workflow :: "'ty resolver_config \<Rightarrow> CharterNode \<Rightarrow> string set \<Rightarrow> WorkflowNode \<Rightarrow> bool" where
  "valid_workflow cfg charter allowed w \<longleftrightarrow>
     distinct (map ph_name (wf_phases w)) \<and>
     (\<forall>p\<in>set (wf_phases w). valid_phase cfg charter (names (wf_phases w)) allowed p) \<and>
     acyclic (set (edges (wf_phases w))) \<and> distinct (edges (wf_phases w))"

fun valid_situation_require :: "'ty resolver_config \<Rightarrow> string set \<Rightarrow> RequireNode \<Rightarrow> bool" where
  "valid_situation_require cfg allowed (FeatureCall call) \<longleftrightarrow> valid_call cfg allowed (call_name call)"
| "valid_situation_require cfg allowed (BuiltinRef name) \<longleftrightarrow> valid_builtin cfg name"
| "valid_situation_require cfg allowed _ \<longleftrightarrow> True"

definition valid_situation :: "'ty resolver_config \<Rightarrow> string set \<Rightarrow> SituationNode \<Rightarrow> bool" where
  "valid_situation cfg allowed s \<longleftrightarrow>
     (\<forall>r\<in>set (si_requires s). valid_situation_require cfg allowed r) \<and>
     (\<forall>w. si_waiting_period s = Some w \<longrightarrow> 0 \<le> wp_min_value w \<and> wp_min_value w \<le> wp_max_value w)"

definition allowed_phrases :: "'ty resolver_config \<Rightarrow> CharterNode \<Rightarrow> string set" where
  "allowed_phrases cfg charter =
    {ph. \<exists>reg p ps. rc_packages cfg = Some reg \<and> p \<in> set (ch_packages charter) \<and>
       kr_has_package reg (pk_name p) \<and> kr_package_phrases reg (pk_name p) = Some ps \<and> ph \<in> ps}"

definition action_names :: "CharterNode \<Rightarrow> string set" where
  "action_names charter =
    {call_name (act_call a) | a. \<exists>w\<in>set (ch_workflows charter). \<exists>p\<in>set (wf_phases w).
       a \<in> set (ph_actions p) \<or> (\<exists>b\<in>set (ph_when_blocks p). a \<in> set (wb_actions b))}"

definition valid_charter :: "'ty resolver_config \<Rightarrow> CharterNode \<Rightarrow> bool" where
  "valid_charter cfg charter \<longleftrightarrow>
     (\<forall>p\<in>set (ch_packages charter). \<forall>reg. rc_packages cfg = Some reg \<longrightarrow> kr_has_package reg (pk_name p)) \<and>
     (\<forall>p\<in>set (ch_policies charter). \<forall>reg. rc_policies cfg = Some reg \<longrightarrow> lr_has_policy reg (po_policy_id p)) \<and>
     distinct (map wf_name (ch_workflows charter)) \<and>
     (\<forall>w\<in>set (ch_workflows charter). valid_workflow cfg charter (allowed_phrases cfg charter) w) \<and>
     (\<forall>s\<in>set (ch_situations charter). valid_situation cfg (allowed_phrases cfg charter) s) \<and>
     (\<forall>r\<in>set (ch_roles charter). set (ro_actions r) \<subseteq> action_names charter)"

section \<open>Error lists\<close>

named_theorems no_errors \<open>when a check reports no error\<close>

lemma collect_errors [no_errors]: "fst (collect f xs) = [] \<longleftrightarrow> (\<forall>x\<in>set xs. fst (f x) = [])"
  by (simp add: collect_def)

lemma join_errors [no_errors]: "fst (join a b) = [] \<longleftrightarrow> fst a = [] \<and> fst b = []"
  by (simp add: join_def)

lemma feature_call_errors [no_errors]:
  "fst (resolve_feature_call cfg allowed packages call) = [] \<longleftrightarrow> valid_call cfg allowed (call_name call)"
  by (auto simp: resolve_feature_call_def valid_call_def split: option.splits)

lemma builtin_errors [no_errors]: "fst (resolve_builtin cfg name) = [] \<longleftrightarrow> valid_builtin cfg name"
  by (auto simp: resolve_builtin_def valid_builtin_def split: option.splits)

lemma check_trigger_errors [no_errors]: "check_trigger triggers t = [] \<longleftrightarrow> t \<in> triggers"
  by (simp add: check_trigger_def)

lemma require_errors [no_errors]:
  "fst (resolve_require cfg w phases triggers allowed packages r) = [] \<longleftrightarrow>
   valid_require cfg phases triggers allowed r"
  by (cases r) (simp_all add: no_errors)

lemma when_block_errors [no_errors]:
  "fst (resolve_when_block cfg w phases triggers allowed packages b) = [] \<longleftrightarrow>
   valid_when_block cfg phases triggers allowed b"
  by (simp add: resolve_when_block_def valid_when_block_def no_errors)

lemma find_output_type_None:
  "find_output_type catalog schemas name = None \<longleftrightarrow>
   (\<forall>ref\<in>set schemas. get_schema catalog (sc_namespace ref) (sc_version ref) name = None)"
proof -
  let ?P = "\<lambda>ref. get_schema catalog (sc_namespace ref) (sc_version ref) name \<noteq> None"
  show ?thesis
  proof (cases "find_first ?P schemas")
    case None
    then show ?thesis using find_first_None_iff [of ?P schemas] by (simp add: find_output_type_def)
  next
    case (Some ref)
    then show ?thesis using find_first_Some [OF Some] by (auto simp: find_output_type_def)
  qed
qed

lemma outputs_errors:
  "fst (resolve_outputs catalog schemas outs acc) = [] \<longleftrightarrow>
   fst acc = [] \<and> (\<forall>out\<in>set outs. find_output_type catalog schemas (out_type_name out) \<noteq> None)"
  by (induction catalog schemas outs acc rule: resolve_outputs.induct) (auto split: option.splits)

lemma grant_errors [no_errors]: "check_grant g = [] \<longleftrightarrow> valid_grant g"
  by (auto simp: check_grant_def valid_grant_def grant_ttl_min_def grant_ttl_max_def split: option.splits)

lemma phase_errors [no_errors]:
  "fst (resolve_phase cfg charter w phases allowed packages p) = [] \<longleftrightarrow>
   valid_phase cfg charter phases allowed p"
  by (auto simp: resolve_phase_def valid_phase_def Let_def no_errors outputs_errors
      find_output_type_None valid_output_def split: option.splits)

lemma duplicates_Nil: "duplicates seen xs = [] \<longleftrightarrow> distinct xs \<and> set xs \<inter> seen = {}"
  by (induction seen xs rule: duplicates.induct) auto

lemma topological_sort_errors:
  "(case topological_sort it phases of Inl cycle \<Rightarrow> [CyclicDependencyError cycle] | Inr _ \<Rightarrow> []) = [] \<longleftrightarrow>
   acyclic (set (edges phases)) \<and> distinct (edges phases)"
  unfolding topological_sort_succeeds_iff [of it phases, symmetric] by (simp split: sum.splits)

lemma workflow_errors [no_errors]:
  "fst (resolve_workflow cfg it charter allowed packages w) = [] \<longleftrightarrow> valid_workflow cfg charter allowed w"
  by (auto simp: resolve_workflow_def valid_workflow_def Let_def no_errors duplicates_Nil
      topological_sort_errors)

lemma workflows_errors:
  "fst (resolve_workflows cfg it charter allowed packages seen ws acc) = [] \<longleftrightarrow>
   fst acc = [] \<and> distinct (map wf_name ws) \<and> set (map wf_name ws) \<inter> seen = {} \<and>
   (\<forall>w\<in>set ws. valid_workflow cfg charter allowed w)"
proof (induction cfg it charter allowed packages seen ws acc rule: resolve_workflows.induct)
  case (1 cfg it charter allowed packages seen acc)
  show ?case by simp
next
  case (2 cfg it charter allowed packages seen w ws errs feats schemas orders)
  obtain we wfe wsch word where r: "resolve_workflow cfg it charter allowed packages w = (we, wfe, wsch, word)"
    by (cases "resolve_workflow cfg it charter allowed packages w") auto
  have "we = [] \<longleftrightarrow> valid_workflow cfg charter allowed w"
    using workflow_errors [of cfg it charter allowed packages w] r by simp
  then show ?case using "2.IH" [OF r [symmetric] refl refl refl] r by auto
qed

lemma waiting_period_errors [no_errors]:
  "check_waiting_period wp = [] \<longleftrightarrow>
   (\<forall>w. wp = Some w \<longrightarrow> 0 \<le> wp_min_value w \<and> wp_min_value w \<le> wp_max_value w)"
  by (auto simp: check_waiting_period_def split: option.splits)

lemma situation_require_errors [no_errors]:
  "fst (resolve_situation_require cfg allowed packages r) = [] \<longleftrightarrow> valid_situation_require cfg allowed r"
  by (cases r) (simp_all add: no_errors)

lemma situation_errors [no_errors]:
  "fst (resolve_situation cfg allowed packages s) = [] \<longleftrightarrow> valid_situation cfg allowed s"
  by (simp add: resolve_situation_def valid_situation_def no_errors)

lemma role_errors [no_errors]: "check_role actions r = [] \<longleftrightarrow> set (ro_actions r) \<subseteq> actions"
  by (auto simp: check_role_def Let_def filter_empty_conv)

lemma collect_action_names_eq: "collect_action_names charter = action_names charter"
  unfolding collect_action_names_def action_names_def set_map by blast

lemma packages_errors [no_errors]:
  "fst (resolve_packages cfg pkgs) = [] \<longleftrightarrow>
   (\<forall>p\<in>set pkgs. \<forall>reg. rc_packages cfg = Some reg \<longrightarrow> kr_has_package reg (pk_name p))"
  by (auto simp: resolve_packages_def no_errors split: option.splits)

lemma packages_allowed: "snd (resolve_packages cfg (ch_packages charter)) = allowed_phrases cfg charter"
  by (fastforce simp: resolve_packages_def allowed_phrases_def collect_def split: option.splits if_splits)

lemma policies_errors [no_errors]:
  "resolve_policies cfg ps = [] \<longleftrightarrow>
   (\<forall>p\<in>set ps. \<forall>reg. rc_policies cfg = Some reg \<longrightarrow> lr_has_policy reg (po_policy_id p))"
  by (auto simp: resolve_policies_def split: option.splits)


section \<open>The resolved charter\<close>

lemma resolve_accepts_iff: "(\<exists>r. resolve cfg it charter = Inr r) \<longleftrightarrow> valid_charter cfg charter"
proof -
  obtain pe al where p: "resolve_packages cfg (ch_packages charter) = (pe, al)" by fastforce
  obtain we wf wsch ord where w: "resolve_workflows cfg it charter al (pk_name ` set (ch_packages charter)) {}
      (ch_workflows charter) ([], {}, [], []) = (we, wf, wsch, ord)" by (metis prod_cases4)
  have al: "al = allowed_phrases cfg charter" using packages_allowed [of cfg charter] p by simp
  have "pe = [] \<longleftrightarrow> (\<forall>p\<in>set (ch_packages charter). \<forall>reg. rc_packages cfg = Some reg \<longrightarrow> kr_has_package reg (pk_name p))"
    using packages_errors [of cfg "ch_packages charter"] p by simp
  moreover have "we = [] \<longleftrightarrow> distinct (map wf_name (ch_workflows charter)) \<and>
      (\<forall>w\<in>set (ch_workflows charter). valid_workflow cfg charter al w)"
    using workflows_errors [of cfg it charter al _ "{}" "ch_workflows charter" "([], {}, [], [])"] w
    by (metis (no_types, lifting) fst_conv inf_bot_right)
  moreover have "(\<exists>r. resolve cfg it charter = Inr r) \<longleftrightarrow>
      pe = [] \<and> resolve_policies cfg (ch_policies charter) = [] \<and> we = [] \<and>
      fst (collect (resolve_situation cfg al (pk_name ` set (ch_packages charter))) (ch_situations charter)) = [] \<and>
      concat (map (check_role (collect_action_names charter)) (ch_roles charter)) = []"
    unfolding resolve_def Let_def p prod.case w by (simp split: prod.split)
  ultimately show ?thesis
    by (simp add: valid_charter_def al no_errors collect_action_names_eq)
qed

definition workflow_order :: "(string set \<Rightarrow> string list) \<Rightarrow> WorkflowNode \<Rightarrow> string list" where
  "workflow_order it w =
    (case topological_sort it (wf_phases w) of Inl _ \<Rightarrow> map ph_name (wf_phases w) | Inr order \<Rightarrow> order)"

lemma resolve_workflow_order:
  "snd (snd (snd (resolve_workflow cfg it charter allowed packages w))) = workflow_order it w"
  by (simp add: resolve_workflow_def workflow_order_def Let_def)

lemma resolve_workflows_order:
  "map_of (snd (snd (snd (resolve_workflows cfg it charter allowed packages seen ws acc)))) n =
   (case find_first (\<lambda>w. wf_name w = n) (rev ws) of
      Some w \<Rightarrow> Some (workflow_order it w)
    | None \<Rightarrow> map_of (snd (snd (snd acc))) n)"
proof (induction cfg it charter allowed packages seen ws acc rule: resolve_workflows.induct)
  case (1 cfg it charter allowed packages seen acc)
  show ?case by simp
next
  case (2 cfg it charter allowed packages seen w ws errs feats schemas orders)
  obtain we wfe wsch word where r: "resolve_workflow cfg it charter allowed packages w = (we, wfe, wsch, word)"
    by (cases "resolve_workflow cfg it charter allowed packages w") auto
  have "word = workflow_order it w" using resolve_workflow_order [of cfg it charter allowed packages w] r by simp
  then show ?case
    using "2.IH" [OF r [symmetric] refl refl refl] r by (simp add: find_first_append split: option.splits)
qed

lemma resolve_Inr:
  assumes "resolve cfg it charter = Inr r"
  shows "rv_ast r = charter"
    "\<exists>we wf. resolve_workflows cfg it charter (allowed_phrases cfg charter) (pk_name ` set (ch_packages charter)) {}
       (ch_workflows charter) ([], {}, [], []) = (we, wf, rv_schema_types r, rv_phase_order r)"
  using assms packages_allowed [of cfg charter]
  by (auto simp: resolve_def Let_def split: prod.splits if_splits)

lemma resolved_order:
  assumes r: "resolve cfg it charter = Inr r" and w: "w \<in> set (ch_workflows charter)"
  obtains order where "map_of (rv_phase_order r) (wf_name w) = Some order"
    "topological_sort it (wf_phases w) = Inr order"
proof -
  have valid: "valid_charter cfg charter" using resolve_accepts_iff r by blast
  then have "valid_workflow cfg charter (allowed_phrases cfg charter) w" using w by (simp add: valid_charter_def)
  then obtain order where o: "topological_sort it (wf_phases w) = Inr order"
    using topological_sort_succeeds_iff [of it "wf_phases w"] by (auto simp: valid_workflow_def)
  have "find_first (\<lambda>w'. wf_name w' = wf_name w) (rev (ch_workflows charter)) = Some w"
    using valid w by (intro find_first_unique) (auto simp: valid_charter_def distinct_map inj_on_def)
  moreover obtain we wfs where "resolve_workflows cfg it charter (allowed_phrases cfg charter)
      (pk_name ` set (ch_packages charter)) {} (ch_workflows charter) ([], {}, [], []) =
      (we, wfs, rv_schema_types r, rv_phase_order r)" using resolve_Inr(2) [OF r] by blast
  ultimately have "map_of (rv_phase_order r) (wf_name w) = Some order"
    using o resolve_workflows_order [of cfg it charter "allowed_phrases cfg charter"
        "pk_name ` set (ch_packages charter)" "{}" "ch_workflows charter" "([], {}, [], [])" "wf_name w"]
    by (simp add: workflow_order_def)
  then show thesis using o by (rule that)
qed

section \<open>Output types\<close>

definition known_outputs :: "'ty SchemaCatalog \<Rightarrow> SchemaRefNode list \<Rightarrow> OutputNode list \<Rightarrow> string set" where
  "known_outputs c ss outs = {n \<in> out_type_name ` set outs. find_output_type c ss n \<noteq> None}"

text \<open>A dictionary of output types that agrees with the catalog.\<close>

definition types_agree :: "'ty SchemaCatalog \<Rightarrow> SchemaRefNode list \<Rightarrow> (string, 'ty) dict \<Rightarrow> bool" where
  "types_agree catalog schemas d \<longleftrightarrow>
     (\<forall>(n, ty)\<in>set d. find_output_type catalog schemas n = Some ty)"

lemma types_agree_set:
  "types_agree c ss d \<Longrightarrow> find_output_type c ss n = Some ty \<Longrightarrow> types_agree c ss (dict_set n ty d)"
  using set_dict_set [of n ty d] by (auto simp: types_agree_def)

lemma types_agree_Nil: "types_agree c ss []"
  by (simp add: types_agree_def)

lemma types_agree_Cons:
  "types_agree c ss ((n, ty) # d) \<longleftrightarrow> find_output_type c ss n = Some ty \<and> types_agree c ss d"
  by (simp add: types_agree_def)

lemma types_agree_update: "types_agree c ss d \<Longrightarrow> types_agree c ss e \<Longrightarrow> types_agree c ss (dict_update d e)"
  by (induction d e rule: dict_update.induct) (simp_all add: types_agree_Cons types_agree_set)

lemma resolve_outputs_types:
  "types_agree c ss (snd acc) \<Longrightarrow>
   types_agree c ss (snd (resolve_outputs c ss outs acc)) \<and>
   fst ` set (snd (resolve_outputs c ss outs acc)) =
     fst ` set (snd acc) \<union> known_outputs c ss outs"
proof (induction c ss outs acc rule: resolve_outputs.induct)
  case (1 c ss acc)
  then show ?case by (simp add: known_outputs_def)
next
  case (2 c ss out outs acc)
  then show ?case
    by (cases "find_output_type c ss (out_type_name out)") (auto simp: types_agree_set known_outputs_def)
qed

text \<open>What the phases of a list contribute.\<close>

lemma phases_types:
  assumes cfg: "rc_catalog cfg = Some c" "ch_schemas charter = ss" "ss \<noteq> []"
  shows "types_agree c ss d \<Longrightarrow>
    (let d' = foldl (\<lambda>d r. dict_update d (snd (snd r))) d
                (map (resolve_phase cfg charter wname phases allowed packages) ps) in
     types_agree c ss d' \<and>
     fst ` set d' = fst ` set d \<union> (\<Union>p\<in>set ps. known_outputs c ss (ph_outputs p)))"
proof (induction ps arbitrary: d)
  case Nil
  then show ?case by simp
next
  case (Cons p ps)
  let ?o = "snd (snd (resolve_phase cfg charter wname phases allowed packages p))"
  have o: "?o = snd (resolve_outputs c ss (ph_outputs p) ([], []))"
    using cfg by (simp add: resolve_phase_def Let_def)
  have ty: "types_agree c ss ?o" "fst ` set ?o = known_outputs c ss (ph_outputs p)"
    unfolding o using resolve_outputs_types [of c ss "([], [])" "ph_outputs p"]
    by (simp_all add: types_agree_Nil)
  from Cons.IH [OF types_agree_update [OF Cons.prems ty(1)]] ty(2)
  show ?case by (simp add: Let_def Un_assoc)
qed

lemma workflows_types:
  assumes cfg: "rc_catalog cfg = Some c" "ch_schemas charter = ss" "ss \<noteq> []"
  shows "types_agree c ss (fst (snd (snd acc))) \<Longrightarrow>
    (let d' = fst (snd (snd (resolve_workflows cfg it charter allowed packages seen ws acc))) in
     types_agree c ss d' \<and>
     fst ` set d' = fst ` set (fst (snd (snd acc))) \<union>
       (\<Union>w\<in>set ws. \<Union>p\<in>set (wf_phases w). known_outputs c ss (ph_outputs p)))"
proof (induction ws arbitrary: seen acc)
  case Nil
  then show ?case by simp
next
  case (Cons w ws)
  obtain errs feats schemas orders where acc: "acc = (errs, feats, schemas, orders)" by (metis prod_cases4)
  obtain we wfe wsch word where r: "resolve_workflow cfg it charter allowed packages w = (we, wfe, wsch, word)"
    by (metis prod_cases4)
  from phases_types [OF cfg types_agree_Nil, of "wf_name w" "names (wf_phases w)" allowed packages "wf_phases w"]
  have ty: "types_agree c ss wsch"
    "fst ` set wsch = (\<Union>p\<in>set (wf_phases w). known_outputs c ss (ph_outputs p))"
    using r by (simp_all add: resolve_workflow_def Let_def)
  have "types_agree c ss (dict_update schemas wsch)"
    using Cons.prems ty(1) by (simp add: acc types_agree_update)
  from Cons.IH [of "(_, _, dict_update schemas wsch, _)", simplified, OF this] ty(2) r
  show ?case unfolding acc by (simp add: Let_def Un_assoc)
qed

section \<open>Properties\<close>

text \<open>C4: The resolver accepts a charter exactly when it is valid: every package, policy, feature, trigger,
  phase, output type and document type it names is known, names are unique, grant times lie between 1 and
  1440 minutes, waiting periods are ordered, roles permit only actions of the charter, and the phases of
  each workflow can be ordered.\<close>

theorem resolve_accepts: "(\<exists>r. resolve cfg it charter = Inr r) \<longleftrightarrow> valid_charter cfg charter"
  by (rule resolve_accepts_iff)

text \<open>A resolved charter maps each workflow name to an order of exactly its phases in which every
  phase comes after all the phases its \<open>require\<close> statements refer to.\<close>

theorem resolve_phase_order:
  assumes "resolve cfg it charter = Inr r"
  shows "rv_ast r = charter \<and>
    (\<forall>w\<in>set (ch_workflows charter). \<exists>order. map_of (rv_phase_order r) (wf_name w) = Some order \<and>
       distinct order \<and> set order = set (map ph_name (wf_phases w)) \<and>
       (\<forall>p\<in>set (wf_phases w). \<forall>d c. PhaseRef d c \<in> set (ph_requires p) \<longrightarrow> precedes order d (ph_name p)))"
proof (intro conjI ballI)
  show "rv_ast r = charter" using resolve_Inr(1) [OF assms] .
  fix w
  assume w: "w \<in> set (ch_workflows charter)"
  obtain order where o: "map_of (rv_phase_order r) (wf_name w) = Some order"
    "topological_sort it (wf_phases w) = Inr order" by (rule resolved_order [OF assms w])
  have "valid_charter cfg charter" using resolve_accepts_iff assms by blast
  with w have "PhaseRef d c \<in> set (ph_requires p) \<Longrightarrow> p \<in> set (wf_phases w) \<Longrightarrow> d \<in> names (wf_phases w)" for p d c
    by (fastforce simp: valid_charter_def valid_workflow_def valid_phase_def Let_def)
  then have "PhaseRef d c \<in> set (ph_requires p) \<Longrightarrow> p \<in> set (wf_phases w) \<Longrightarrow> precedes order d (ph_name p)" for p d c
    using topological_sort_Inr(3) [OF o(2)] edges_iff by blast
  with o topological_sort_Inr(1,2) [OF o(2)]
  show "\<exists>order. map_of (rv_phase_order r) (wf_name w) = Some order \<and> distinct order \<and>
      set order = set (map ph_name (wf_phases w)) \<and>
      (\<forall>p\<in>set (wf_phases w). \<forall>d c. PhaseRef d c \<in> set (ph_requires p) \<longrightarrow> precedes order d (ph_name p))"
    by auto
qed

definition sample_catalog :: "nat SchemaCatalog" where
  "sample_catalog = register_schema ''canon.hr'' ''2026.01'' ''Report'' 7 new_catalog"

definition sample_config :: "nat resolver_config" where
  "sample_config =
    \<lparr>rc_catalog = Some sample_catalog,
     rc_features = Some \<lparr>fr_has_feature = (\<lambda>n. n = ''verify''), fr_all_names = Some [''verify'']\<rparr>,
     rc_policies = None, rc_packages = None\<rparr>"

definition sample_charter :: CharterNode where
  "sample_charter =
    \<lparr>ch_name = ''Hiring'', ch_version = ''v1.0'',
     ch_schemas = [\<lparr>sc_namespace = ''canon.hr'', sc_version = ''2026.01''\<rparr>],
     ch_packages = [], ch_policies = [], ch_triggers = [],
     ch_workflows =
       [\<lparr>wf_name = ''main'',
         wf_phases = (sample_phase ''report'' [PhaseRef ''offer'' ''complete''])
                       \<lparr>ph_outputs := [\<lparr>out_type_name = ''Report''\<rparr>]\<rparr> # sample_phases\<rparr>],
     ch_situations = [],
     ch_roles = []\<rparr>"

theorem resolve_phase_order_witness:
  "\<exists>r. resolve sample_config sorted_list_of_set sample_charter = Inr r \<and> rv_ast r = sample_charter \<and>
     map_of (rv_phase_order r) ''main'' = Some [''consent'', ''screen'', ''offer'', ''report'']"
proof -
  have "map_sum id (\<lambda>r. map_of (rv_phase_order r) ''main'') (resolve sample_config sorted_list_of_set sample_charter)
      = Inr (Some [''consent'', ''screen'', ''offer'', ''report''])" by code_simp
  then obtain r where r: "resolve sample_config sorted_list_of_set sample_charter = Inr r"
    "map_of (rv_phase_order r) ''main'' = Some [''consent'', ''screen'', ''offer'', ''report'']"
    by (cases "resolve sample_config sorted_list_of_set sample_charter")
      (simp_all only: map_sum.simps sum.inject sum.distinct)
  with resolve_phase_order [OF r(1)] show ?thesis by blast
qed

text \<open>With a catalog and a schema section, a resolved charter gives every \<open>output\<close> of every phase the type
  the catalog holds for its name under the first declared schema that has it.\<close>

theorem resolve_output_types:
  assumes "resolve cfg it charter = Inr r" "rc_catalog cfg = Some catalog" "ch_schemas charter \<noteq> []"
    and "w \<in> set (ch_workflows charter)" "p \<in> set (wf_phases w)" "out \<in> set (ph_outputs p)"
  shows "\<exists>ty. map_of (rv_schema_types r) (out_type_name out) = Some ty \<and>
    find_output_type catalog (ch_schemas charter) (out_type_name out) = Some ty"
proof -
  let ?n = "out_type_name out" and ?ss = "ch_schemas charter"
  have "valid_charter cfg charter" using resolve_accepts_iff assms(1) by blast
  with assms(4-) have "valid_output cfg ?ss out"
    by (auto simp: valid_charter_def valid_workflow_def valid_phase_def Let_def)
  with assms(2,3) have "find_output_type catalog ?ss ?n \<noteq> None"
    by (auto simp: find_output_type_None valid_output_def)
  with assms(6) have known: "?n \<in> known_outputs catalog ?ss (ph_outputs p)" by (auto simp: known_outputs_def)
  obtain we wfs where run: "resolve_workflows cfg it charter (allowed_phrases cfg charter)
      (pk_name ` set (ch_packages charter)) {} (ch_workflows charter) ([], {}, [], []) =
      (we, wfs, rv_schema_types r, rv_phase_order r)" using resolve_Inr(2) [OF assms(1)] by blast
  have "types_agree catalog ?ss (rv_schema_types r)" "?n \<in> fst ` set (rv_schema_types r)"
    using workflows_types [OF assms(2) refl assms(3), of "([], {}, [], [])" it "allowed_phrases cfg charter"
        "pk_name ` set (ch_packages charter)" "{}" "ch_workflows charter"] known assms(4,5)
    by (auto simp: run Let_def types_agree_Nil)
  moreover from this(2) obtain ty where "map_of (rv_schema_types r) ?n = Some ty"
    using map_of_eq_None_iff [of "rv_schema_types r" ?n] by (cases "map_of (rv_schema_types r) ?n") auto
  ultimately show ?thesis by (auto simp: types_agree_def dest: map_of_Some_in)
qed

theorem resolve_output_types_witness:
  "\<exists>r. resolve sample_config sorted_list_of_set sample_charter = Inr r \<and>
     map_of (rv_schema_types r) ''Report'' = Some 7"
proof -
  have "map_sum id (\<lambda>r. True) (resolve sample_config sorted_list_of_set sample_charter) = Inr True"
    by code_simp
  then obtain r where r: "resolve sample_config sorted_list_of_set sample_charter = Inr r"
    by (cases "resolve sample_config sorted_list_of_set sample_charter")
      (simp_all only: map_sum.simps sum.inject sum.distinct)
  let ?w = "hd (ch_workflows sample_charter)"
  let ?p = "hd (wf_phases ?w)"
  have "\<exists>ty. map_of (rv_schema_types r) (out_type_name (hd (ph_outputs ?p))) = Some ty \<and>
      find_output_type sample_catalog (ch_schemas sample_charter) (out_type_name (hd (ph_outputs ?p))) = Some ty"
    by (rule resolve_output_types [OF r, where w = ?w and p = ?p])
      (simp_all add: sample_config_def sample_charter_def sample_phase_def)
  moreover have "find_output_type sample_catalog (ch_schemas sample_charter) (out_type_name (hd (ph_outputs ?p)))
      = Some 7" "out_type_name (hd (ph_outputs ?p)) = ''Report''" by code_simp+
  ultimately show ?thesis using r by simp
qed

end
