(* ===== verification/Compiler.thy ===== *)
theory Compiler
  imports Front_End Resolver_Correct
begin

text \<open>
  The compilation pipeline (\<open>libs/canon/src/canon/dsl/compiler.py\<close>): lexer, parser, resolver, and the
  \<open>CompiledCharter\<close> they produce.
\<close>

record 'ty CompiledCharter =
  cc_name :: string
  cc_version :: string
  cc_ast :: CharterNode
  cc_feature_names :: "string set"
  cc_schema_types :: "(string, 'ty) dict"
  cc_phase_order :: "(string, string list) dict"
  cc_policy_ids :: "string set"
  cc_package_names :: "string set"
  cc_situations :: "SituationNode list"
  cc_roles :: "RoleNode list"

datatype compile_error = SourceError front_error | ResolutionErrors "resolve_error list"

definition workflow_names :: "'ty CompiledCharter \<Rightarrow> string list" where
  "workflow_names c = map wf_name (ch_workflows (cc_ast c))"

definition compile_charter ::
  "'ty resolver_config \<Rightarrow> (string set \<Rightarrow> string list) \<Rightarrow> string \<Rightarrow> (compile_error, 'ty CompiledCharter) result" where
  "compile_charter cfg set_iter source =
    (case parse_charter source of
       Inl e \<Rightarrow> Inl (SourceError e)
     | Inr ast \<Rightarrow>
         (case resolve cfg set_iter ast of
            Inl errs \<Rightarrow> Inl (ResolutionErrors errs)
          | Inr r \<Rightarrow>
              Inr \<lparr>cc_name = ch_name (rv_ast r), cc_version = ch_version (rv_ast r), cc_ast = rv_ast r,
                   cc_feature_names = rv_feature_names r, cc_schema_types = rv_schema_types r,
                   cc_phase_order = rv_phase_order r, cc_policy_ids = rv_policy_ids r,
                   cc_package_names = rv_package_names r, cc_situations = ch_situations (rv_ast r),
                   cc_roles = ch_roles (rv_ast r)\<rparr>))"

section \<open>Properties\<close>

lemma compile_Inr:
  assumes "compile_charter cfg it source = Inr c"
  obtains r where "parse_charter source = Inr (cc_ast c)" "resolve cfg it (cc_ast c) = Inr r"
    "cc_phase_order c = rv_phase_order r"
proof -
  obtain ast where p: "parse_charter source = Inr ast"
    using assms by (auto simp: compile_charter_def split: sum.splits)
  moreover obtain r where "resolve cfg it ast = Inr r"
    using assms p by (auto simp: compile_charter_def split: sum.splits)
  ultimately show thesis
    using that assms resolve_Inr(1) by (fastforce simp: compile_charter_def)
qed

text \<open>C6: What \<open>compile_charter\<close> returns is a valid charter in which every workflow has a phase and
  every workflow name has a phase order: all its phases, each once, each after the phases it requires.\<close>

theorem compile_charter_sound:
  assumes "compile_charter cfg it source = Inr c"
  shows "valid_charter cfg (cc_ast c) \<and>
    (\<forall>w\<in>set (ch_workflows (cc_ast c)). wf_phases w \<noteq> [] \<and>
       (\<exists>order. map_of (cc_phase_order c) (wf_name w) = Some order \<and> distinct order \<and>
          set order = set (map ph_name (wf_phases w)) \<and>
          (\<forall>p\<in>set (wf_phases w). \<forall>d cond. PhaseRef d cond \<in> set (ph_requires p) \<longrightarrow>
             d \<in> names (wf_phases w) \<longrightarrow> precedes order d (ph_name p))))"
proof -
  obtain r where p: "parse_charter source = Inr (cc_ast c)" and r: "resolve cfg it (cc_ast c) = Inr r"
    and o: "cc_phase_order c = rv_phase_order r" by (rule compile_Inr [OF assms])
  have "good_charter (cc_ast c)" using parse_charter_good [of source] p by simp
  then have "\<forall>w\<in>set (ch_workflows (cc_ast c)). wf_phases w \<noteq> []"
    by (auto simp: good_charter_def good_workflow_def list_all_iff)
  moreover have "\<exists>order. map_of (cc_phase_order c) (wf_name w) = Some order \<and> distinct order \<and>
      set order = set (map ph_name (wf_phases w)) \<and>
      (\<forall>p\<in>set (wf_phases w). \<forall>d cond. PhaseRef d cond \<in> set (ph_requires p) \<longrightarrow>
         d \<in> names (wf_phases w) \<longrightarrow> precedes order d (ph_name p))"
    if w: "w \<in> set (ch_workflows (cc_ast c))" for w
  proof -
    obtain order where "map_of (rv_phase_order r) (wf_name w) = Some order"
      "topological_sort it (wf_phases w) = Inr order" by (rule resolved_order [OF r w])
    then show ?thesis
      using o topological_sort_Inr [of it "wf_phases w" order] edges_iff [of _ _ "wf_phases w"] by (auto; blast)
  qed
  ultimately show ?thesis using resolve_accepts_iff r by blast
qed

definition sample_source :: string where
  "sample_source =
    ''charter '' @ [double_quote] @ ''Hiring'' @ [double_quote] @ '' v1.0'' @ [newline] @
    ''workflow main:'' @ [newline] @
    ''  phase offer:'' @ [newline] @
    ''    require screen.passed'' @ [newline] @
    ''  phase screen:'' @ [newline] @
    ''    action verify(level==2)'' @ [newline]"

theorem compile_charter_sound_witness:
  "\<exists>c. compile_charter sample_config sorted_list_of_set sample_source = Inr c \<and>
     valid_charter sample_config (cc_ast c) \<and>
     map_of (cc_phase_order c) ''main'' = Some [''screen'', ''offer'']"
proof -
  have "map_sum id (\<lambda>c. map_of (cc_phase_order c) ''main'')
      (compile_charter sample_config sorted_list_of_set sample_source) = Inr (Some [''screen'', ''offer''])"
    by code_simp
  then obtain c where c: "compile_charter sample_config sorted_list_of_set sample_source = Inr c"
    "map_of (cc_phase_order c) ''main'' = Some [''screen'', ''offer'']"
    by (cases "compile_charter sample_config sorted_list_of_set sample_source")
      (simp_all only: map_sum.simps sum.inject sum.distinct)
  have "valid_charter sample_config (cc_ast c)" using compile_charter_sound [OF c(1)] by (elim conjE)
  with c show ?thesis by (intro exI [of _ c] conjI)
qed

end
