(* ===== verification/Phase_State.thy ===== *)
theory Phase_State
  imports Prelude
begin

text \<open>
  The phase lifecycle (\<open>libs/canon/src/canon/runtime/phase_state.py\<close>): the states with their stored
  values, the transition table and the exception of an invalid transition.
\<close>

datatype PhaseState =
    PENDING | WAITING_GATE | WAITING_USER | WAITING_TRIGGER | IN_PROGRESS | COMPLETED | SKIPPED | FAILED

definition phase_states :: "PhaseState list" where
  "phase_states =
    [PENDING, WAITING_GATE, WAITING_USER, WAITING_TRIGGER, IN_PROGRESS, COMPLETED, SKIPPED, FAILED]"

fun state_value :: "PhaseState \<Rightarrow> string" where
  "state_value PENDING = ''pending''"
| "state_value WAITING_GATE = ''waiting_gate''"
| "state_value WAITING_USER = ''waiting_user''"
| "state_value WAITING_TRIGGER = ''waiting_trigger''"
| "state_value IN_PROGRESS = ''in_progress''"
| "state_value COMPLETED = ''completed''"
| "state_value SKIPPED = ''skipped''"
| "state_value FAILED = ''failed''"

text \<open>\<open>PhaseState(value)\<close>; \<^const>\<open>None\<close> is the \<open>ValueError\<close> of a string that is no state.\<close>

definition phase_state_of :: "string \<Rightarrow> PhaseState option" where
  "phase_state_of v = find_first (\<lambda>s. state_value s = v) phase_states"

definition PHASE_TRANSITIONS :: "(PhaseState, PhaseState set) dict" where
  "PHASE_TRANSITIONS =
    [(PENDING, {WAITING_GATE, WAITING_USER, WAITING_TRIGGER, SKIPPED}),
     (WAITING_GATE, {WAITING_USER, FAILED, SKIPPED}),
     (WAITING_USER, {IN_PROGRESS, WAITING_TRIGGER, SKIPPED}),
     (WAITING_TRIGGER, {IN_PROGRESS, FAILED}),
     (IN_PROGRESS, {COMPLETED, FAILED}),
     (COMPLETED, {}),
     (SKIPPED, {}),
     (FAILED, {})]"

definition is_valid_transition :: "PhaseState \<Rightarrow> PhaseState \<Rightarrow> bool" where
  "is_valid_transition from_state to_state \<longleftrightarrow>
     to_state \<in> (case map_of PHASE_TRANSITIONS from_state of None \<Rightarrow> {} | Some ts \<Rightarrow> ts)"

definition get_terminal_states :: "PhaseState set" where
  "get_terminal_states = fst ` set (filter (\<lambda>e. snd e = {}) PHASE_TRANSITIONS)"

record InvalidPhaseTransition =
  ipt_from_state :: string
  ipt_to_state :: string
  ipt_phase_name :: "string option"
  ipt_run_id :: "string option"

section \<open>Lemmas\<close>

lemma state_value_inj: "state_value s = state_value t \<longleftrightarrow> s = t"
  by (cases s; cases t) simp_all

lemma phase_state_of_value [simp]: "phase_state_of (state_value s) = Some s"
  by (cases s) (simp_all add: phase_state_of_def phase_states_def)

lemma phase_state_of_Some: "phase_state_of v = Some s \<longleftrightarrow> v = state_value s"
  using find_first_Some [of "\<lambda>s. state_value s = v" phase_states s]
  by (auto simp: phase_state_of_def simp flip: phase_state_of_def)

lemmas transition_simps = is_valid_transition_def PHASE_TRANSITIONS_def

lemma valid_to_COMPLETED: "is_valid_transition s COMPLETED \<longleftrightarrow> s = IN_PROGRESS"
  by (cases s) (simp_all add: transition_simps)

lemma valid_to_FAILED: "is_valid_transition s FAILED \<longleftrightarrow> s \<in> {WAITING_GATE, WAITING_TRIGGER, IN_PROGRESS}"
  by (cases s) (simp_all add: transition_simps)

lemma terminal_states: "get_terminal_states = {COMPLETED, SKIPPED, FAILED}"
  by (simp add: get_terminal_states_def PHASE_TRANSITIONS_def)

text \<open>How many transitions a phase can still make.\<close>

fun fuel_of :: "PhaseState \<Rightarrow> nat" where
  "fuel_of PENDING = 5"
| "fuel_of WAITING_GATE = 4"
| "fuel_of WAITING_USER = 3"
| "fuel_of WAITING_TRIGGER = 2"
| "fuel_of IN_PROGRESS = 1"
| "fuel_of _ = 0"

lemma transition_decreases: "is_valid_transition s t \<Longrightarrow> fuel_of t < fuel_of s"
  by (cases s; cases t) (simp_all add: transition_simps)

section \<open>Properties\<close>

text \<open>The lifecycle is finite and ends: every sequence of valid transitions has at most five steps, the
  states with no transition out are exactly COMPLETED, SKIPPED and FAILED, the only way to COMPLETED
  is from IN_PROGRESS, and the stored value of a state determines it.\<close>

theorem lifecycle_ends:
  "(\<forall>path. (\<forall>i. i + 1 < length path \<longrightarrow> is_valid_transition (path ! i) (path ! (i + 1))) \<longrightarrow> length path \<le> 6) \<and>
   {s. \<forall>t. \<not> is_valid_transition s t} = get_terminal_states \<and>
   get_terminal_states = {COMPLETED, SKIPPED, FAILED} \<and>
   (\<forall>s. is_valid_transition s COMPLETED \<longleftrightarrow> s = IN_PROGRESS) \<and>
   (\<forall>s. phase_state_of (state_value s) = Some s)"
proof (intro conjI allI impI)
  fix path
  assume step: "\<forall>i. i + 1 < length path \<longrightarrow> is_valid_transition (path ! i) (path ! (i + 1))"
  have "i < length path \<Longrightarrow> fuel_of (path ! i) + i \<le> 5" for i
  proof (induction i)
    case 0
    show ?case by (cases "path ! 0") simp_all
  next
    case (Suc i)
    then show ?case using step transition_decreases [of "path ! i" "path ! (i + 1)"] by fastforce
  qed
  from this [of "length path - 1"] show "length path \<le> 6" by (cases "length path") simp_all
next
  have "(\<forall>t. \<not> is_valid_transition s t) \<longleftrightarrow> s \<in> {COMPLETED, SKIPPED, FAILED}" for s
    by (cases s) (auto simp: transition_simps)
  then show "{s. \<forall>t. \<not> is_valid_transition s t} = get_terminal_states" by (auto simp: terminal_states)
qed (simp_all add: terminal_states valid_to_COMPLETED)

theorem lifecycle_ends_witness:
  "length [PENDING, WAITING_USER, IN_PROGRESS, COMPLETED] \<le> 6 \<and> is_valid_transition IN_PROGRESS COMPLETED"
proof -
  have "i + 1 < length [PENDING, WAITING_USER, IN_PROGRESS, COMPLETED] \<Longrightarrow>
      is_valid_transition ([PENDING, WAITING_USER, IN_PROGRESS, COMPLETED] ! i)
        ([PENDING, WAITING_USER, IN_PROGRESS, COMPLETED] ! (i + 1))" for i
    by (auto simp: less_Suc_eq transition_simps)
  with lifecycle_ends show ?thesis by blast
qed

end
