(* ===== verification/Runtime_Db.thy ===== *)
theory Runtime_Db
  imports Compiler Phase_State
begin

text \<open>
  The state of the charter runtime: the database tables it reads and writes (\<open>charters\<close>,
  \<open>charter_runs\<close>, \<open>phase_executions\<close>, \<open>evidences\<close>, \<open>document_access_tokens\<close>, \<open>sessions\<close>, \<open>users\<close>, \<open>persons\<close>), with the
  columns the runtime touches, and the query shapes of \<open>libs/canon/src/canon/db/crud.py\<close>.

  A table is the list of the rows the connection sees (row-level security hides other tenants' rows
  from a connection with a tenant context). \<open>UPDATE ... WHERE\<close> changes every matching row;
  \<open>select_one\<close> returns the first row of \<open>SELECT ... LIMIT 1\<close>, here in table order, which the
  invariants of the runtime make the only one. A UUID is its canonical string, so \<open>str(uuid)\<close> is the
  identity; the values \<open>uuid4()\<close> returns are arguments of the operations, as is the clock reading
  \<open>now\<close>, in microseconds, which is taken not to advance within one operation. Each operation runs to
  its end without another interleaved, as inside one transaction.
\<close>

type_synonym timestamp = int

text \<open>JSON column values. A timestamp stored as text by \<open>isoformat()\<close> is kept as the instant.\<close>

datatype json =
    JNull | JBool bool | JInt int | JFloat py_float | JStr string | JTime timestamp
  | JList "json list" | JObj "(string \<times> json) list"

section \<open>Rows\<close>

record charter_row =
  chr_id :: uuid
  chr_name :: string
  chr_source :: string
  chr_content_hash :: "string option"

record run_row =
  cr_id :: uuid
  cr_tenant_id :: uuid
  cr_charter_id :: uuid
  cr_subject_id :: uuid
  cr_related_entity_type :: string
  cr_related_entity_id :: uuid
  cr_current_workflow :: string
  cr_current_phase :: "string option"
  cr_status :: string
  cr_initiated_by_id :: uuid
  cr_initiated_at :: timestamp
  cr_started_at :: timestamp
  cr_completed_at :: "timestamp option"
  cr_final_outcome :: "string option"
  cr_failure_reason :: "string option"
  cr_run_context :: "(string, json) dict"
  cr_created_at :: timestamp
  cr_updated_at :: timestamp

record phase_row =
  pe_id :: uuid
  pe_tenant_id :: uuid
  pe_run_id :: uuid
  pe_workflow_name :: string
  pe_phase_name :: string
  pe_sequence :: nat
  pe_requires_phases :: "string list"
  pe_assignee_role :: "string option"
  pe_assignee_id :: "uuid option"
  pe_status :: string
  pe_activated_at :: "timestamp option"
  pe_action_taken :: "string option"
  pe_action_at :: "timestamp option"
  pe_action_by_id :: "uuid option"
  pe_action_notes :: "string option"
  pe_failure_reason :: "string option"
  pe_failed_gate :: "string option"
  pe_trigger_names :: "string list option"
  pe_created_at :: timestamp
  pe_updated_at :: timestamp

record evidence_row =
  evd_id :: uuid
  evd_created_at :: timestamp
  evd_tenant_id :: uuid
  evd_subject_id :: "uuid option"
  evd_evidence_type :: string
  evd_title :: string
  evd_data :: "(string, json) dict"
  evd_source :: string
  evd_source_id :: string
  evd_collected_at :: timestamp
  evd_collected_by_id :: uuid
  evd_is_deleted :: bool

record token_row =
  dt_id :: uuid
  dt_tenant_id :: uuid
  dt_subject_id :: uuid
  dt_grantee_id :: uuid
  dt_workflow_instance_id :: "uuid option"
  dt_workflow_step_id :: "uuid option"
  dt_document_type :: string
  dt_purpose :: string
  dt_status :: string
  dt_issued_at :: timestamp
  dt_expires_at :: timestamp
  dt_access_count :: nat
  dt_first_accessed_at :: "timestamp option"
  dt_last_accessed_at :: "timestamp option"
  dt_revoked_at :: "timestamp option"
  dt_revoked_by_id :: "uuid option"
  dt_revocation_reason :: "string option"
  dt_updated_at :: timestamp

record session_row =
  se_user_id :: uuid
  se_mfa_verified :: bool
  se_auth_method :: string
  se_is_revoked :: bool
  se_is_deleted :: bool

record user_row =
  us_id :: uuid
  us_role :: "string option"

record person_row =
  pn_id :: uuid
  pn_first_name :: "string option"
  pn_last_name :: "string option"

record db =
  charters :: "charter_row list"
  charter_runs :: "run_row list"
  phase_executions :: "phase_row list"
  evidences :: "evidence_row list"
  document_access_tokens :: "token_row list"
  sessions :: "session_row list"
  users :: "user_row list"
  persons :: "person_row list"

section \<open>Queries\<close>

definition update_rows :: "('r \<Rightarrow> bool) \<Rightarrow> ('r \<Rightarrow> 'r) \<Rightarrow> 'r list \<Rightarrow> 'r list" where
  "update_rows where chg rows = map (\<lambda>r. if where r then chg r else r) rows"

definition select :: "('r \<Rightarrow> bool) \<Rightarrow> 'r list \<Rightarrow> 'r list" where
  "select where rows = filter where rows"

definition select_one :: "('r \<Rightarrow> bool) \<Rightarrow> 'r list \<Rightarrow> 'r option" where
  "select_one where rows = (case select where rows of [] \<Rightarrow> None | r # _ \<Rightarrow> Some r)"

definition count_rows :: "('r \<Rightarrow> bool) \<Rightarrow> 'r list \<Rightarrow> nat" where
  "count_rows where rows = length (select where rows)"

definition update_phases :: "(phase_row \<Rightarrow> bool) \<Rightarrow> (phase_row \<Rightarrow> phase_row) \<Rightarrow> db \<Rightarrow> db" where
  "update_phases where chg d = d\<lparr>phase_executions := update_rows where chg (phase_executions d)\<rparr>"

definition update_runs :: "(run_row \<Rightarrow> bool) \<Rightarrow> (run_row \<Rightarrow> run_row) \<Rightarrow> db \<Rightarrow> db" where
  "update_runs where chg d = d\<lparr>charter_runs := update_rows where chg (charter_runs d)\<rparr>"

text \<open>The \<open>where\<close> of a phase execution: run, workflow and phase.\<close>

definition is_phase :: "uuid \<Rightarrow> string \<Rightarrow> string \<Rightarrow> phase_row \<Rightarrow> bool" where
  "is_phase run wname phase r \<longleftrightarrow> pe_run_id r = run \<and> pe_workflow_name r = wname \<and> pe_phase_name r = phase"

section \<open>Lemmas\<close>

lemma select_one_find: "select_one P rows = find_first P rows"
  by (induction rows) (auto simp: select_one_def select_def)

lemma select_one_Some: "select_one P rows = Some r \<Longrightarrow> r \<in> set rows \<and> P r"
  unfolding select_one_find by (rule find_first_Some)

lemma select_one_None: "select_one P rows = None \<longleftrightarrow> (\<forall>r\<in>set rows. \<not> P r)"
  unfolding select_one_find by (rule find_first_None_iff)

lemma length_update_rows [simp]: "length (update_rows P f rows) = length rows"
  by (simp add: update_rows_def)

lemma nth_update_rows: "i < length rows \<Longrightarrow> update_rows P f rows ! i = (if P (rows ! i) then f (rows ! i) else rows ! i)"
  by (simp add: update_rows_def)

lemma update_rows_mem: "r \<in> set rows \<Longrightarrow> P r \<Longrightarrow> f r \<in> set (update_rows P f rows)"
  by (force simp: update_rows_def)

lemma update_rows_source:
  assumes "x \<in> set (update_rows P f rows)"
  obtains r where "r \<in> set rows" "x = (if P r then f r else r)"
  using assms unfolding update_rows_def set_map by blast

lemma update_rows_none: "(\<And>r. r \<in> set rows \<Longrightarrow> \<not> P r) \<Longrightarrow> update_rows P f rows = rows"
  by (simp add: update_rows_def map_idI)

lemma count_rows_zero: "count_rows P rows = 0 \<longleftrightarrow> (\<forall>r\<in>set rows. \<not> P r)"
  by (simp add: count_rows_def select_def filter_empty_conv)

lemma update_phases_frame [simp]:
  "charters (update_phases P f d) = charters d" "charter_runs (update_phases P f d) = charter_runs d"
  "evidences (update_phases P f d) = evidences d"
  "document_access_tokens (update_phases P f d) = document_access_tokens d"
  "phase_executions (update_phases P f d) = update_rows P f (phase_executions d)"
  by (simp_all add: update_phases_def)

lemma update_runs_frame [simp]:
  "charters (update_runs P f d) = charters d" "phase_executions (update_runs P f d) = phase_executions d"
  "evidences (update_runs P f d) = evidences d"
  "document_access_tokens (update_runs P f d) = document_access_tokens d"
  "charter_runs (update_runs P f d) = update_rows P f (charter_runs d)"
  by (simp_all add: update_runs_def)

section \<open>Lookups in the compiled charter\<close>

text \<open>\<open>_get_phase_node\<close>, the same function in \<open>cascade.py\<close>, \<open>require_eval.py\<close> and \<open>roles.py\<close>: the first phase
  of the name in any workflow of the name.\<close>

definition get_phase_node :: "CharterNode \<Rightarrow> string \<Rightarrow> string \<Rightarrow> PhaseNode option" where
  "get_phase_node ast wname phase =
    find_first (\<lambda>p. ph_name p = phase) (concat (map wf_phases (filter (\<lambda>w. wf_name w = wname) (ch_workflows ast))))"

definition get_workflow :: "CharterNode \<Rightarrow> string \<Rightarrow> WorkflowNode option" where
  "get_workflow ast wname = find_first (\<lambda>w. wf_name w = wname) (ch_workflows ast)"

end
