(* ===== verification/Registry.thy ===== *)
theory Registry
  imports Runtime_Db
begin

text \<open>
  The registry of compiled charters (\<open>libs/canon/src/canon/runtime/registry.py\<close>): a cache from charter ids to
  compiled charters with the content hash they were compiled from. \<open>get\<close> checks the hash against the
  database, and compiles the stored source when the entry is missing or stale. Charters are compiled with
  no registries, so no output types are resolved. The lock makes each access to the cache atomic.
\<close>

type_synonym compiled = "unit CompiledCharter"

record cache_entry =
  ca_compiled :: compiled
  ca_content_hash :: "string option"
  ca_cached_at :: timestamp

type_synonym registry = "(uuid, cache_entry) dict"

datatype registry_error = CharterNotFoundError uuid | CompilationFailed compile_error

definition no_registries :: "unit resolver_config" where
  "no_registries = \<lparr>rc_catalog = None, rc_features = None, rc_policies = None, rc_packages = None\<rparr>"

definition register_charter :: "timestamp \<Rightarrow> uuid \<Rightarrow> compiled \<Rightarrow> string option \<Rightarrow> registry \<Rightarrow> registry" where
  "register_charter now charter_id compiled content_hash reg =
    dict_set charter_id \<lparr>ca_compiled = compiled, ca_content_hash = content_hash, ca_cached_at = now\<rparr> reg"

definition invalidate_charter :: "uuid \<Rightarrow> registry \<Rightarrow> bool \<times> registry" where
  "invalidate_charter charter_id reg =
    (if charter_id \<in> set (dict_keys reg) then (True, filter (\<lambda>e. fst e \<noteq> charter_id) reg) else (False, reg))"

definition clear_registry :: "registry \<Rightarrow> registry" where
  "clear_registry reg = []"

definition get_cached :: "registry \<Rightarrow> uuid \<Rightarrow> compiled option" where
  "get_cached reg charter_id = (case map_of reg charter_id of None \<Rightarrow> None | Some e \<Rightarrow> Some (ca_compiled e))"

definition registry_size :: "registry \<Rightarrow> nat" where
  "registry_size reg = length reg"

definition charter_row_of :: "uuid \<Rightarrow> db \<Rightarrow> charter_row option" where
  "charter_row_of charter_id d = select_one (\<lambda>r. chr_id r = charter_id) (charters d)"

definition registry_get ::
  "(string set \<Rightarrow> string list) \<Rightarrow> timestamp \<Rightarrow> uuid \<Rightarrow> db \<Rightarrow> registry \<Rightarrow> (registry_error, compiled \<times> registry) result" where
  "registry_get set_iter now charter_id d reg =
    (let row = charter_row_of charter_id d;
         load =
           (case row of
              None \<Rightarrow> Inl (CharterNotFoundError charter_id)
            | Some r \<Rightarrow>
                (case compile_charter no_registries set_iter (chr_source r) of
                   Inl e \<Rightarrow> Inl (CompilationFailed e)
                 | Inr compiled \<Rightarrow>
                     Inr (compiled, register_charter now charter_id compiled (chr_content_hash r) reg)))
     in case map_of reg charter_id of
          None \<Rightarrow> load
        | Some e \<Rightarrow>
            (case row of
               Some r \<Rightarrow> if chr_content_hash r = ca_content_hash e then Inr (ca_compiled e, reg) else load
             | None \<Rightarrow> load))"

interpretation charter_store: keyed_store
  "\<lambda>id (compiled, hash). register_charter 0 id compiled hash"
  "\<lambda>reg id. map_option (\<lambda>e. (ca_compiled e, ca_content_hash e)) (map_of reg id)"
  by unfold_locales (auto simp: register_charter_def)

section \<open>Coherence\<close>

text \<open>\<open>source_of\<close> gives the source a content hash was computed from. A coherent cache holds under each hash
  the compilation of that source, and a coherent database stores under each hash that source.\<close>

definition cache_coherent :: "(string set \<Rightarrow> string list) \<Rightarrow> (string option \<Rightarrow> string) \<Rightarrow> registry \<Rightarrow> bool" where
  "cache_coherent it source_of reg \<longleftrightarrow>
     (\<forall>(id, e)\<in>set reg. compile_charter no_registries it (source_of (ca_content_hash e)) = Inr (ca_compiled e))"

definition hashes_ok :: "(string option \<Rightarrow> string) \<Rightarrow> db \<Rightarrow> bool" where
  "hashes_ok source_of d \<longleftrightarrow> (\<forall>r\<in>set (charters d). source_of (chr_content_hash r) = chr_source r)"

lemma cache_coherent_Nil: "cache_coherent it source_of []"
  by (simp add: cache_coherent_def)

lemma cache_coherent_lookup:
  "cache_coherent it source_of reg \<Longrightarrow> map_of reg cid = Some e \<Longrightarrow>
   compile_charter no_registries it (source_of (ca_content_hash e)) = Inr (ca_compiled e)"
  by (auto simp: cache_coherent_def dest: map_of_Some_in)

lemma cache_coherent_register:
  assumes "cache_coherent it source_of reg" "compile_charter no_registries it (source_of h) = Inr c"
  shows "cache_coherent it source_of (register_charter now cid c h reg)"
  using assms set_dict_set [of cid "\<lparr>ca_compiled = c, ca_content_hash = h, ca_cached_at = now\<rparr>" reg]
  by (auto simp: cache_coherent_def register_charter_def)

section \<open>Properties\<close>

text \<open>The lookup without a cache.\<close>

definition fresh_compile ::
  "(string set \<Rightarrow> string list) \<Rightarrow> uuid \<Rightarrow> db \<Rightarrow> (registry_error, compiled) result" where
  "fresh_compile set_iter charter_id d =
    (case charter_row_of charter_id d of
       None \<Rightarrow> Inl (CharterNotFoundError charter_id)
     | Some r \<Rightarrow>
         (case compile_charter no_registries set_iter (chr_source r) of
            Inl e \<Rightarrow> Inl (CompilationFailed e)
          | Inr compiled \<Rightarrow> Inr compiled))"

lemma charter_row_of_Some: "charter_row_of cid d = Some r \<Longrightarrow> r \<in> set (charters d) \<and> chr_id r = cid"
  unfolding charter_row_of_def by (rule select_one_Some)

lemma registry_get_hit:
  "charter_row_of cid d = Some r \<Longrightarrow> map_of reg cid = Some e \<Longrightarrow> chr_content_hash r = ca_content_hash e \<Longrightarrow>
   registry_get it now cid d reg = Inr (ca_compiled e, reg)"
  by (simp add: registry_get_def)

lemma registry_get_load:
  assumes "\<And>r e. charter_row_of cid d = Some r \<Longrightarrow> map_of reg cid = Some e \<Longrightarrow> chr_content_hash r \<noteq> ca_content_hash e"
  shows "registry_get it now cid d reg =
    map_sum id (\<lambda>c. (c, register_charter now cid c (chr_content_hash (the (charter_row_of cid d))) reg))
      (fresh_compile it cid d)"
  using assms by (auto simp: registry_get_def fresh_compile_def Let_def split: option.splits sum.splits)

lemma fresh_compile_Inr:
  assumes "fresh_compile it cid d = Inr c" "hashes_ok source_of d"
  obtains r where "charter_row_of cid d = Some r" "compile_charter no_registries it (chr_source r) = Inr c"
    "source_of (chr_content_hash r) = chr_source r"
  using assms charter_row_of_Some [of cid d]
  by (auto simp: fresh_compile_def hashes_ok_def split: option.splits sum.splits)

lemma registry_get_refines:
  assumes coherent: "cache_coherent it source_of reg" and hashes: "hashes_ok source_of d"
  shows "map_sum id fst (registry_get it now cid d reg) = fresh_compile it cid d \<and>
    (\<forall>c reg'. registry_get it now cid d reg = Inr (c, reg') \<longrightarrow> cache_coherent it source_of reg')"
proof (cases "\<exists>r e. charter_row_of cid d = Some r \<and> map_of reg cid = Some e \<and> chr_content_hash r = ca_content_hash e")
  case True
  then obtain r e where hit: "charter_row_of cid d = Some r" "map_of reg cid = Some e"
    "chr_content_hash r = ca_content_hash e" by blast
  have "source_of (chr_content_hash r) = chr_source r"
    using charter_row_of_Some [OF hit(1)] hashes by (simp add: hashes_ok_def)
  then have "fresh_compile it cid d = Inr (ca_compiled e)"
    using cache_coherent_lookup [OF coherent hit(2)] hit by (simp add: fresh_compile_def)
  with registry_get_hit [OF hit] coherent show ?thesis by simp
next
  case False
  then have load: "registry_get it now cid d reg =
      map_sum id (\<lambda>c. (c, register_charter now cid c (chr_content_hash (the (charter_row_of cid d))) reg))
        (fresh_compile it cid d)" by (intro registry_get_load) blast
  have "cache_coherent it source_of (register_charter now cid c (chr_content_hash (the (charter_row_of cid d))) reg)"
    if c: "fresh_compile it cid d = Inr c" for c
    using fresh_compile_Inr [OF c hashes] cache_coherent_register [OF coherent] by (metis option.sel)
  with load show ?thesis by (cases "fresh_compile it cid d") auto
qed


definition sample_db :: db where
  "sample_db =
    \<lparr>charters = [\<lparr>chr_id = ''c1'', chr_name = ''Hiring'', chr_source = sample_source, chr_content_hash = Some ''h1''\<rparr>],
     charter_runs = [], phase_executions = [], evidences = [], document_access_tokens = [], sessions = [],
     users = [], persons = []\<rparr>"


end
