(* ===== verification/Evidence.thy ===== *)
theory Evidence
  imports Runtime_Db
begin

text \<open>
  Evidence recording (\<open>libs/canon/src/canon/runtime/evidence.py\<close>): the event types, the titles and the three
  recorders, each of which appends one row to \<open>evidences\<close>. The new id and the clock reading are
  arguments. The dictionary merge of the recorders overwrites a base key when the caller's data has it.
  The \<open>document_type\<close> of grant evidence is a string, as every caller gives it.
\<close>

datatype EvidenceEventType =
    PHASE_ACTIVATED | PHASE_CLAIMED | PHASE_COMPLETED | PHASE_FAILED | PHASE_SKIPPED | PHASE_DELEGATED
  | GRANT_ISSUED | GRANT_ACCESSED | GRANT_REVOKED | GRANT_EXPIRED | GRANT_TRANSFERRED
  | WORKFLOW_STARTED | WORKFLOW_COMPLETED | WORKFLOW_FAILED | WORKFLOW_CANCELLED
  | TRIGGER_FIRED

fun event_value :: "EvidenceEventType \<Rightarrow> string" where
  "event_value PHASE_ACTIVATED = ''phase.activated''"
| "event_value PHASE_CLAIMED = ''phase.claimed''"
| "event_value PHASE_COMPLETED = ''phase.completed''"
| "event_value PHASE_FAILED = ''phase.failed''"
| "event_value PHASE_SKIPPED = ''phase.skipped''"
| "event_value PHASE_DELEGATED = ''phase.delegated''"
| "event_value GRANT_ISSUED = ''grant.issued''"
| "event_value GRANT_ACCESSED = ''grant.accessed''"
| "event_value GRANT_REVOKED = ''grant.revoked''"
| "event_value GRANT_EXPIRED = ''grant.expired''"
| "event_value GRANT_TRANSFERRED = ''grant.transferred''"
| "event_value WORKFLOW_STARTED = ''workflow.started''"
| "event_value WORKFLOW_COMPLETED = ''workflow.completed''"
| "event_value WORKFLOW_FAILED = ''workflow.failed''"
| "event_value WORKFLOW_CANCELLED = ''workflow.cancelled''"
| "event_value TRIGGER_FIRED = ''trigger.fired''"

record EvidenceResult =
  er_evidence_id :: uuid
  er_evidence_type :: string
  er_created_at :: timestamp

definition quoted :: "string \<Rightarrow> string" where
  "quoted s = [CHR 0x27] @ s @ [CHR 0x27]"

definition format_evidence_title :: "EvidenceEventType \<Rightarrow> string \<Rightarrow> string" where
  "format_evidence_title event_type phase_name =
    ''Phase '' @ quoted phase_name @
    (case event_type of
       PHASE_ACTIVATED \<Rightarrow> '' activated''
     | PHASE_CLAIMED \<Rightarrow> '' claimed''
     | PHASE_COMPLETED \<Rightarrow> '' completed''
     | PHASE_FAILED \<Rightarrow> '' failed''
     | PHASE_SKIPPED \<Rightarrow> '' skipped''
     | PHASE_DELEGATED \<Rightarrow> '' delegated''
     | _ \<Rightarrow> '' event: '' @ event_value event_type)"

definition format_grant_evidence_title :: "EvidenceEventType \<Rightarrow> string \<Rightarrow> string" where
  "format_grant_evidence_title event_type document_type =
    (case event_type of
       GRANT_ISSUED \<Rightarrow> ''Access granted to '' @ quoted document_type
     | GRANT_ACCESSED \<Rightarrow> ''Document '' @ quoted document_type @ '' accessed''
     | GRANT_REVOKED \<Rightarrow> ''Access to '' @ quoted document_type @ '' revoked''
     | GRANT_EXPIRED \<Rightarrow> ''Access to '' @ quoted document_type @ '' expired''
     | GRANT_TRANSFERRED \<Rightarrow> ''Access to '' @ quoted document_type @ '' transferred''
     | _ \<Rightarrow> ''Document access event: '' @ event_value event_type)"

definition format_workflow_evidence_title :: "EvidenceEventType \<Rightarrow> string \<Rightarrow> string" where
  "format_workflow_evidence_title event_type workflow_name =
    (case event_type of
       WORKFLOW_STARTED \<Rightarrow> ''Workflow '' @ quoted workflow_name @ '' started''
     | WORKFLOW_COMPLETED \<Rightarrow> ''Workflow '' @ quoted workflow_name @ '' completed''
     | WORKFLOW_FAILED \<Rightarrow> ''Workflow '' @ quoted workflow_name @ '' failed''
     | WORKFLOW_CANCELLED \<Rightarrow> ''Workflow '' @ quoted workflow_name @ '' cancelled''
     | _ \<Rightarrow> ''Workflow event: '' @ event_value event_type)"

definition evidence_type_of :: "EvidenceEventType \<Rightarrow> string" where
  "evidence_type_of event_type = ''runtime.'' @ event_value event_type"

definition insert_evidence :: "evidence_row \<Rightarrow> db \<Rightarrow> EvidenceResult \<times> db" where
  "insert_evidence row d =
    (\<lparr>er_evidence_id = evd_id row, er_evidence_type = evd_evidence_type row, er_created_at = evd_created_at row\<rparr>,
     d\<lparr>evidences := evidences d @ [row]\<rparr>)"

definition record_phase_evidence ::
  "uuid \<Rightarrow> timestamp \<Rightarrow> uuid \<Rightarrow> string \<Rightarrow> EvidenceEventType \<Rightarrow> uuid \<Rightarrow> uuid \<Rightarrow> uuid option \<Rightarrow> (string, json) dict \<Rightarrow>
   db \<Rightarrow> EvidenceResult \<times> db" where
  "record_phase_evidence evidence_id now run_id phase_name event_type actor_id tenant_id subject_id data =
    insert_evidence
      \<lparr>evd_id = evidence_id, evd_created_at = now, evd_tenant_id = tenant_id, evd_subject_id = subject_id,
       evd_evidence_type = evidence_type_of event_type, evd_title = format_evidence_title event_type phase_name,
       evd_data =
         dict_update
           [(''run_id'', JStr run_id), (''phase_name'', JStr phase_name), (''event_type'', JStr (event_value event_type)),
            (''actor_id'', JStr actor_id), (''timestamp'', JTime now)] data,
       evd_source = ''canon.runtime'', evd_source_id = run_id, evd_collected_at = now,
       evd_collected_by_id = actor_id, evd_is_deleted = False\<rparr>"

definition record_grant_evidence ::
  "uuid \<Rightarrow> timestamp \<Rightarrow> uuid \<Rightarrow> EvidenceEventType \<Rightarrow> uuid \<Rightarrow> uuid \<Rightarrow> uuid \<Rightarrow> uuid option \<Rightarrow> string option \<Rightarrow>
   (string, json) dict \<Rightarrow> db \<Rightarrow> EvidenceResult \<times> db" where
  "record_grant_evidence evidence_id now token_id event_type actor_id tenant_id subject_id run_id phase_name data =
    (let base =
           [(''token_id'', JStr token_id), (''event_type'', JStr (event_value event_type)),
            (''actor_id'', JStr actor_id), (''subject_id'', JStr subject_id), (''timestamp'', JTime now)];
         with_run = (case run_id of None \<Rightarrow> base | Some r \<Rightarrow> dict_set ''run_id'' (JStr r) base);
         with_phase =
           (case phase_name of
              None \<Rightarrow> with_run
            | Some p \<Rightarrow> if p = [] then with_run else dict_set ''phase_name'' (JStr p) with_run);
         document_type = (case map_of data ''document_type'' of Some (JStr t) \<Rightarrow> t | _ \<Rightarrow> ''document'')
     in insert_evidence
          \<lparr>evd_id = evidence_id, evd_created_at = now, evd_tenant_id = tenant_id, evd_subject_id = Some subject_id,
           evd_evidence_type = evidence_type_of event_type,
           evd_title = format_grant_evidence_title event_type document_type,
           evd_data = dict_update with_phase data, evd_source = ''canon.runtime.grants'',
           evd_source_id = token_id, evd_collected_at = now, evd_collected_by_id = actor_id,
           evd_is_deleted = False\<rparr>)"

definition record_workflow_evidence ::
  "uuid \<Rightarrow> timestamp \<Rightarrow> uuid \<Rightarrow> string \<Rightarrow> EvidenceEventType \<Rightarrow> uuid \<Rightarrow> uuid \<Rightarrow> uuid \<Rightarrow> (string, json) dict \<Rightarrow>
   db \<Rightarrow> EvidenceResult \<times> db" where
  "record_workflow_evidence evidence_id now run_id workflow_name event_type actor_id tenant_id subject_id data =
    insert_evidence
      \<lparr>evd_id = evidence_id, evd_created_at = now, evd_tenant_id = tenant_id, evd_subject_id = Some subject_id,
       evd_evidence_type = evidence_type_of event_type,
       evd_title = format_workflow_evidence_title event_type workflow_name,
       evd_data =
         dict_update
           [(''run_id'', JStr run_id), (''workflow_name'', JStr workflow_name),
            (''event_type'', JStr (event_value event_type)), (''actor_id'', JStr actor_id),
            (''subject_id'', JStr subject_id), (''timestamp'', JTime now)] data,
       evd_source = ''canon.runtime.workflow'', evd_source_id = run_id, evd_collected_at = now,
       evd_collected_by_id = actor_id, evd_is_deleted = False\<rparr>"

section \<open>Properties\<close>

lemma event_value_inj: "event_value s = event_value t \<longleftrightarrow> s = t"
  by (cases s; cases t) simp_all

lemma evidence_type_of_inj: "evidence_type_of s = evidence_type_of t \<longleftrightarrow> s = t"
  by (simp add: evidence_type_of_def event_value_inj)

lemma insert_evidence_appends [simp]:
  "evidences (snd (insert_evidence row d)) = evidences d @ [row]"
  "phase_executions (snd (insert_evidence row d)) = phase_executions d"
  "charter_runs (snd (insert_evidence row d)) = charter_runs d"
  "document_access_tokens (snd (insert_evidence row d)) = document_access_tokens d"
  by (simp_all add: insert_evidence_def)

lemma record_phase_evidence_frame [simp]:
  "phase_executions (snd (record_phase_evidence i now run ph ev act ten sub data d)) = phase_executions d"
  "charter_runs (snd (record_phase_evidence i now run ph ev act ten sub data d)) = charter_runs d"
  by (simp_all add: record_phase_evidence_def)

text \<open>Recording phase evidence only appends: the earlier rows stay as they are, and the new row names
  the event, the run as its source, the actor and the time. Its data keeps the five base fields unless
  the caller's data has the same keys, in which case the caller's values replace them.\<close>

theorem record_phase_evidence_appends:
  "\<exists>row. evidences (snd (record_phase_evidence i now run phase event actor tenant subject data d)) =
      evidences d @ [row] \<and>
    evd_id row = i \<and> evd_evidence_type row = ''runtime.'' @ event_value event \<and> evd_source_id row = run \<and>
    evd_collected_by_id row = actor \<and> evd_collected_at row = now \<and> \<not> evd_is_deleted row \<and>
    map_of (evd_data row) ''event_type'' =
      (case map_of (rev data) ''event_type'' of Some v \<Rightarrow> Some v | None \<Rightarrow> Some (JStr (event_value event))) \<and>
    map_of (evd_data row) ''actor_id'' =
      (case map_of (rev data) ''actor_id'' of Some v \<Rightarrow> Some v | None \<Rightarrow> Some (JStr actor)) \<and>
    map_of (evd_data row) ''run_id'' =
      (case map_of (rev data) ''run_id'' of Some v \<Rightarrow> Some v | None \<Rightarrow> Some (JStr run))"
  by (simp add: record_phase_evidence_def evidence_type_of_def map_of_dict_update split: option.split)

end
