(* ===== verification/Trigger.thy ===== *)
theory Trigger
  imports Evidence
begin

text \<open>
  Triggers (\<open>libs/canon/src/canon/runtime/trigger.py\<close>): firing an external event moves the phases that
  wait for it from WAITING_TRIGGER to IN_PROGRESS and records evidence; \<open>has_trigger_fired\<close> reads that
  evidence back. The new evidence row of the \<open>i\<close>-th phase of the loop has the id \<open>ids i\<close>.
\<close>

datatype trigger_error =
    TriggerNotFoundError uuid string
  | TriggerInvalidTransition InvalidPhaseTransition

record TriggerResult =
  trr_trigger_name :: string
  trr_phases_unblocked :: "string list"
  trr_evidence_ids :: "uuid list"

text \<open>The data of the evidence: the trigger, the workflow, and the payload when it is non-empty.\<close>

definition trigger_data :: "string \<Rightarrow> string \<Rightarrow> (string, json) dict \<Rightarrow> (string, json) dict" where
  "trigger_data trigger_name workflow_name data =
    [(''trigger_name'', JStr trigger_name), (''workflow_name'', JStr workflow_name)] @
    (if data = [] then [] else [(''trigger_data'', JObj data)])"

text \<open>One phase of the loop: the guarded update, and evidence when a row was changed.\<close>

definition unblock_phase ::
  "uuid \<Rightarrow> timestamp \<Rightarrow> uuid \<Rightarrow> string \<Rightarrow> uuid \<Rightarrow> uuid \<Rightarrow> (string, json) dict \<Rightarrow> phase_row \<Rightarrow> db \<Rightarrow>
   uuid option \<times> db" where
  "unblock_phase new_id now run_id trigger_name actor_id tenant_id data row d =
    (let waiting = (\<lambda>r. is_phase run_id (pe_workflow_name row) (pe_phase_name row) r \<and>
                        pe_status r = state_value WAITING_TRIGGER);
         d' = update_phases waiting (\<lambda>r. r\<lparr>pe_status := state_value IN_PROGRESS\<rparr>) d
     in if count_rows waiting (phase_executions d) = 0 then (None, d')
        else
          (let (res, d'') =
             record_phase_evidence new_id now run_id (pe_phase_name row) TRIGGER_FIRED actor_id tenant_id None
               (trigger_data trigger_name (pe_workflow_name row) data) d'
           in (Some (er_evidence_id res), d'')))"

fun unblock_phases ::
  "(nat \<Rightarrow> uuid) \<Rightarrow> timestamp \<Rightarrow> uuid \<Rightarrow> string \<Rightarrow> uuid \<Rightarrow> uuid \<Rightarrow> (string, json) dict \<Rightarrow> phase_row list \<Rightarrow>
   string list \<times> uuid list \<Rightarrow> db \<Rightarrow> (trigger_error, (string list \<times> uuid list) \<times> db) result" where
  "unblock_phases ids now run_id trigger_name actor_id tenant_id data [] acc d = Inr (acc, d)"
| "unblock_phases ids now run_id trigger_name actor_id tenant_id data (row # rows) (unblocked, evs) d =
    (if \<not> is_valid_transition WAITING_TRIGGER IN_PROGRESS
     then Inl (TriggerInvalidTransition
            \<lparr>ipt_from_state = state_value WAITING_TRIGGER, ipt_to_state = state_value IN_PROGRESS,
             ipt_phase_name = Some (pe_phase_name row), ipt_run_id = Some run_id\<rparr>)
     else
       (case unblock_phase (ids 0) now run_id trigger_name actor_id tenant_id data row d of
          (None, d') \<Rightarrow>
            unblock_phases (\<lambda>i. ids (Suc i)) now run_id trigger_name actor_id tenant_id data rows (unblocked, evs) d'
        | (Some ev, d') \<Rightarrow>
            unblock_phases (\<lambda>i. ids (Suc i)) now run_id trigger_name actor_id tenant_id data rows
              (unblocked @ [pe_phase_name row], evs @ [ev]) d'))"

definition matching_phases :: "uuid \<Rightarrow> string \<Rightarrow> db \<Rightarrow> phase_row list" where
  "matching_phases run_id trigger_name d =
    filter (\<lambda>r. trigger_name \<in> set (case pe_trigger_names r of None \<Rightarrow> [] | Some ts \<Rightarrow> ts))
      (select (\<lambda>r. pe_run_id r = run_id \<and> pe_status r = state_value WAITING_TRIGGER) (phase_executions d))"

text \<open>Both ways of finding nothing, no waiting phase at all and none for this trigger, raise the same
  exception.\<close>

definition fire_trigger ::
  "(nat \<Rightarrow> uuid) \<Rightarrow> timestamp \<Rightarrow> uuid \<Rightarrow> string \<Rightarrow> uuid \<Rightarrow> uuid \<Rightarrow> (string, json) dict \<Rightarrow> db \<Rightarrow>
   (trigger_error, TriggerResult \<times> db) result" where
  "fire_trigger ids now run_id trigger_name actor_id tenant_id data d =
    (if matching_phases run_id trigger_name d = [] then Inl (TriggerNotFoundError run_id trigger_name)
     else
       bind_r (unblock_phases ids now run_id trigger_name actor_id tenant_id data
                 (matching_phases run_id trigger_name d) ([], []) d)
         (\<lambda>((unblocked, evs), d').
            Inr (\<lparr>trr_trigger_name = trigger_name, trr_phases_unblocked = unblocked, trr_evidence_ids = evs\<rparr>, d')))"

definition has_trigger_fired :: "uuid \<Rightarrow> string \<Rightarrow> db \<Rightarrow> bool" where
  "has_trigger_fired run_id trigger_name d \<longleftrightarrow>
    select_one (\<lambda>e. evd_source_id e = run_id \<and> evd_evidence_type e = evidence_type_of TRIGGER_FIRED \<and>
      map_of (evd_data e) ''trigger_name'' = Some (JStr trigger_name) \<and> \<not> evd_is_deleted e) (evidences d) \<noteq> None"

end
