(* ===== verification/Require_Eval.thy ===== *)
theory Require_Eval
  imports Trigger
begin

text \<open>
  Evaluation of \<open>require\<close> expressions (\<open>libs/canon/src/canon/runtime/require_eval.py\<close>). The dictionary of
  details is keyed by the text of the expression; the text determines the node, so the model keys it by
  the node itself. Feature gates and builtin predicates always evaluate to unsatisfied, as in the code.
\<close>

datatype require_reason =
    UnknownPhaseCondition string
  | ExecutionNotFound string
  | PhaseStatusIs string string \<comment> \<open>actual and required status\<close>
  | FeatureGateNotImplemented
  | BuiltinNotImplemented string
  | UnknownBuiltin string
  | TriggerNotFired string

record single_result =
  sr_expr :: RequireNode
  sr_satisfied :: bool
  sr_reason :: "require_reason option"

record RequireResult =
  rr_satisfied :: bool
  rr_unsatisfied :: "RequireNode list"
  rr_details :: "(RequireNode, single_result) dict"

definition evaluate_phase_ref :: "uuid \<Rightarrow> string \<Rightarrow> string \<Rightarrow> string \<Rightarrow> db \<Rightarrow> single_result" where
  "evaluate_phase_ref run_id workflow_name phase condition d =
    (let expr = PhaseRef phase condition in
     if condition \<notin> {''passed'', ''complete''}
     then \<lparr>sr_expr = expr, sr_satisfied = False, sr_reason = Some (UnknownPhaseCondition condition)\<rparr>
     else
       (case select_one (is_phase run_id workflow_name phase) (phase_executions d) of
          None \<Rightarrow> \<lparr>sr_expr = expr, sr_satisfied = False, sr_reason = Some (ExecutionNotFound phase)\<rparr>
        | Some row \<Rightarrow>
            (let satisfied = (pe_status row = ''completed'')
             in \<lparr>sr_expr = expr, sr_satisfied = satisfied,
                 sr_reason = (if satisfied then None else Some (PhaseStatusIs (pe_status row) ''completed''))\<rparr>)))"

definition evaluate_feature_call :: "FeatureCallNode \<Rightarrow> single_result" where
  "evaluate_feature_call call =
    \<lparr>sr_expr = FeatureCall call, sr_satisfied = False, sr_reason = Some FeatureGateNotImplemented\<rparr>"

definition evaluate_builtin_ref :: "string \<Rightarrow> single_result" where
  "evaluate_builtin_ref name =
    \<lparr>sr_expr = BuiltinRef name, sr_satisfied = False,
     sr_reason =
       Some (if name \<in> {''all_phases_passed'', ''any_phase_failed''} then BuiltinNotImplemented name
             else UnknownBuiltin name)\<rparr>"

definition evaluate_await_ref :: "uuid \<Rightarrow> string \<Rightarrow> db \<Rightarrow> single_result" where
  "evaluate_await_ref run_id trigger d =
    (let fired = has_trigger_fired run_id trigger d
     in \<lparr>sr_expr = AwaitRef trigger, sr_satisfied = fired,
         sr_reason = (if fired then None else Some (TriggerNotFired trigger))\<rparr>)"

fun evaluate_single_require :: "uuid \<Rightarrow> string \<Rightarrow> db \<Rightarrow> RequireNode \<Rightarrow> single_result" where
  "evaluate_single_require run_id wname d (PhaseRef phase condition) = evaluate_phase_ref run_id wname phase condition d"
| "evaluate_single_require run_id wname d (FeatureCall call) = evaluate_feature_call call"
| "evaluate_single_require run_id wname d (BuiltinRef name) = evaluate_builtin_ref name"
| "evaluate_single_require run_id wname d (AwaitRef trigger) = evaluate_await_ref run_id trigger d"

text \<open>The loop over the requires, with its accumulators.\<close>

fun evaluate_loop ::
  "uuid \<Rightarrow> string \<Rightarrow> db \<Rightarrow> RequireNode list \<Rightarrow> RequireNode list \<times> (RequireNode, single_result) dict \<Rightarrow>
   RequireNode list \<times> (RequireNode, single_result) dict" where
  "evaluate_loop run_id wname d [] acc = acc"
| "evaluate_loop run_id wname d (r # rs) (unsatisfied, details) =
    (let result = evaluate_single_require run_id wname d r
     in evaluate_loop run_id wname d rs
          (if sr_satisfied result then unsatisfied else unsatisfied @ [sr_expr result],
           dict_set (sr_expr result) result details))"

text \<open>\<^const>\<open>None\<close> is the \<open>ValueError\<close> of a phase the charter does not have.\<close>

definition evaluate_requires :: "uuid \<Rightarrow> string \<Rightarrow> string \<Rightarrow> CharterNode \<Rightarrow> db \<Rightarrow> RequireResult option" where
  "evaluate_requires run_id wname phase ast d =
    (case get_phase_node ast wname phase of
       None \<Rightarrow> None
     | Some node \<Rightarrow>
         (let (unsatisfied, details) = evaluate_loop run_id wname d (ph_requires node) ([], [])
          in Some \<lparr>rr_satisfied = (length unsatisfied = 0), rr_unsatisfied = unsatisfied, rr_details = details\<rparr>))"

section \<open>When a require holds\<close>

definition phase_completed :: "uuid \<Rightarrow> string \<Rightarrow> string \<Rightarrow> db \<Rightarrow> bool" where
  "phase_completed run wname phase d \<longleftrightarrow>
     (\<exists>row. select_one (is_phase run wname phase) (phase_executions d) = Some row \<and> pe_status row = ''completed'')"

fun require_holds :: "uuid \<Rightarrow> string \<Rightarrow> db \<Rightarrow> RequireNode \<Rightarrow> bool" where
  "require_holds run wname d (PhaseRef phase c) \<longleftrightarrow>
     c \<in> {''passed'', ''complete''} \<and> phase_completed run wname phase d"
| "require_holds run wname d (AwaitRef t) \<longleftrightarrow> has_trigger_fired run t d"
| "require_holds run wname d (FeatureCall call) \<longleftrightarrow> False"
| "require_holds run wname d (BuiltinRef name) \<longleftrightarrow> False"

lemma sr_expr_single: "sr_expr (evaluate_single_require run wname d r) = r"
  by (cases r) (auto simp: evaluate_phase_ref_def evaluate_feature_call_def evaluate_builtin_ref_def
      evaluate_await_ref_def Let_def split: option.splits)

lemma sr_satisfied_single: "sr_satisfied (evaluate_single_require run wname d r) \<longleftrightarrow> require_holds run wname d r"
  by (cases r) (auto simp: evaluate_phase_ref_def evaluate_feature_call_def evaluate_builtin_ref_def
      evaluate_await_ref_def phase_completed_def Let_def split: option.splits)

lemma evaluate_loop_unsatisfied:
  "fst (evaluate_loop run wname d rs acc) = fst acc @ filter (\<lambda>r. \<not> require_holds run wname d r) rs"
  by (induction run wname d rs acc rule: evaluate_loop.induct)
    (simp_all add: Let_def sr_expr_single sr_satisfied_single)

lemma evaluate_requires_eq:
  "evaluate_requires run wname phase ast d =
   map_option (\<lambda>node. \<lparr>rr_satisfied = (\<forall>r\<in>set (ph_requires node). require_holds run wname d r),
       rr_unsatisfied = filter (\<lambda>r. \<not> require_holds run wname d r) (ph_requires node),
       rr_details = snd (evaluate_loop run wname d (ph_requires node) ([], []))\<rparr>) (get_phase_node ast wname phase)"
  by (simp add: evaluate_requires_def case_prod_beta evaluate_loop_unsatisfied filter_empty_conv
      split: option.split)

section \<open>Properties\<close>

text \<open>\<open>evaluate_requires\<close> is satisfied exactly when every require of the phase holds: a phase reference
  \<open>p.passed\<close> or \<open>p.complete\<close> when phase \<open>p\<close> of the same run and workflow is completed, an awaited trigger when
  evidence of it exists for the run; a feature gate, a builtin predicate or any other condition never holds.
  The unsatisfied list has exactly the requires that do not hold, in order (all of them are evaluated).\<close>

theorem evaluate_requires_spec:
  assumes "get_phase_node ast wname phase = Some node"
  shows "\<exists>res. evaluate_requires run wname phase ast d = Some res \<and>
    rr_unsatisfied res = filter (\<lambda>r. \<not> require_holds run wname d r) (ph_requires node) \<and>
    (rr_satisfied res \<longleftrightarrow> (\<forall>r\<in>set (ph_requires node). require_holds run wname d r))"
  using assms by (simp add: evaluate_requires_eq)

theorem evaluate_requires_spec_witness:
  "\<exists>res. evaluate_requires ''r1'' ''main'' ''screen'' sample_charter
      \<lparr>charters = [], charter_runs = [], phase_executions = [], evidences = [], document_access_tokens = [],
       sessions = [], users = [], persons = []\<rparr> = Some res \<and>
    rr_unsatisfied res = [PhaseRef ''consent'' ''passed'']"
proof -
  let ?d = "\<lparr>charters = [], charter_runs = [], phase_executions = [], evidences = [], document_access_tokens = [],
      sessions = [], users = [], persons = []\<rparr>"
  have node: "get_phase_node sample_charter ''main'' ''screen'' =
      Some (sample_phase ''screen'' [PhaseRef ''consent'' ''passed''])" by code_simp
  have "\<not> phase_completed ''r1'' ''main'' ''consent'' ?d"
    by (simp add: phase_completed_def select_one_def select_def)
  with evaluate_requires_spec [OF node, of "''r1''" ?d] show ?thesis by (auto simp: sample_phase_def)
qed

end
