(* ===== verification/Cascade.thy ===== *)
theory Cascade
  imports Require_Eval
begin

text \<open>
  The cascade engine (\<open>libs/canon/src/canon/runtime/cascade.py\<close>): completing or failing a phase, finding and
  activating the phases downstream, and completing the run when every phase is terminal.
\<close>

datatype runtime_error =
    InvalidTransition InvalidPhaseTransition
  | RuntimeValueError string

text \<open>The messages of \<open>CascadeResult.errors\<close>.\<close>

datatype cascade_message =
    PhaseNotFound string
  | UnknownPhaseStatus string
  | FailedToActivate string runtime_error

record CascadeResult =
  cas_activated_phases :: "string list"
  cas_workflow_complete :: bool
  cas_errors :: "cascade_message list"

definition empty_result :: CascadeResult where
  "empty_result = \<lparr>cas_activated_phases = [], cas_workflow_complete = False, cas_errors = []\<rparr>"

definition invalid_transition :: "PhaseState \<Rightarrow> PhaseState \<Rightarrow> string \<Rightarrow> uuid \<Rightarrow> runtime_error" where
  "invalid_transition from_state to_state phase run =
    InvalidTransition
      \<lparr>ipt_from_state = state_value from_state, ipt_to_state = state_value to_state,
       ipt_phase_name = Some phase, ipt_run_id = Some run\<rparr>"

definition activate_phase ::
  "timestamp \<Rightarrow> uuid \<Rightarrow> string \<Rightarrow> string \<Rightarrow> CharterNode \<Rightarrow> db \<Rightarrow> (runtime_error, bool \<times> db) result" where
  "activate_phase now run_id wname phase ast d =
    (case select_one (is_phase run_id wname phase) (phase_executions d) of
       None \<Rightarrow> Inl (RuntimeValueError phase)
     | Some row \<Rightarrow>
         (case phase_state_of (pe_status row) of
            None \<Rightarrow> Inl (RuntimeValueError (pe_status row))
          | Some current \<Rightarrow>
              if current \<in> {WAITING_USER, WAITING_TRIGGER, IN_PROGRESS, COMPLETED, SKIPPED, FAILED}
              then Inr (False, d)
              else
                (let awaits = (case get_phase_node ast wname phase of None \<Rightarrow> [] | Some node \<Rightarrow> ph_awaits node);
                     target = (if awaits \<noteq> [] then WAITING_TRIGGER else WAITING_USER)
                 in if \<not> is_valid_transition current target then Inl (invalid_transition current target phase run_id)
                    else
                      Inr (True,
                        update_phases (is_phase run_id wname phase)
                          (\<lambda>r. (if awaits \<noteq> [] then r\<lparr>pe_trigger_names := Some (map aw_trigger awaits)\<rparr> else r)
                                 \<lparr>pe_status := state_value target, pe_activated_at := Some now\<rparr>) d))))"

definition find_downstream_phases :: "CharterNode \<Rightarrow> string \<Rightarrow> string \<Rightarrow> string list" where
  "find_downstream_phases ast wname completed_phase =
    (case get_workflow ast wname of
       None \<Rightarrow> []
     | Some w \<Rightarrow>
         map ph_name (filter (\<lambda>p. list_ex (\<lambda>r. case r of PhaseRef ph c \<Rightarrow> ph = completed_phase | _ \<Rightarrow> False)
                        (ph_requires p)) (wf_phases w)))"

definition terminal_statuses :: "string set" where
  "terminal_statuses = {state_value COMPLETED, state_value SKIPPED, state_value FAILED}"

definition is_workflow_complete :: "uuid \<Rightarrow> string \<Rightarrow> db \<Rightarrow> bool" where
  "is_workflow_complete run_id wname d =
    (let rows = select (\<lambda>r. pe_run_id r = run_id \<and> pe_workflow_name r = wname) (phase_executions d)
     in rows \<noteq> [] \<and> list_all (\<lambda>r. pe_status r \<in> terminal_statuses) rows)"

text \<open>\<open>_try_activate_phase\<close>.\<close>

definition try_activate_phase ::
  "timestamp \<Rightarrow> uuid \<Rightarrow> string \<Rightarrow> string \<Rightarrow> CharterNode \<Rightarrow> db \<Rightarrow> (runtime_error, bool \<times> db) result" where
  "try_activate_phase now run_id wname phase ast d =
    (case evaluate_requires run_id wname phase ast d of
       None \<Rightarrow> Inl (RuntimeValueError phase)
     | Some res \<Rightarrow> if rr_satisfied res then activate_phase now run_id wname phase ast d else Inr (False, d))"

text \<open>\<open>_complete_charter_run\<close>.\<close>

definition finish_charter_run :: "timestamp \<Rightarrow> uuid \<Rightarrow> db \<Rightarrow> db" where
  "finish_charter_run now run_id d =
    update_runs (\<lambda>r. cr_id r = run_id)
      (\<lambda>r. r\<lparr>cr_status := ''completed'', cr_completed_at := Some now, cr_final_outcome := Some ''approved''\<rparr>) d"

text \<open>The loop over the downstream phases: an exception is recorded and the loop goes on.\<close>

fun activate_downstream ::
  "timestamp \<Rightarrow> uuid \<Rightarrow> string \<Rightarrow> CharterNode \<Rightarrow> string list \<Rightarrow> CascadeResult \<Rightarrow> db \<Rightarrow> CascadeResult \<times> db" where
  "activate_downstream now run_id wname ast [] res d = (res, d)"
| "activate_downstream now run_id wname ast (p # ps) res d =
    (case try_activate_phase now run_id wname p ast d of
       Inl e \<Rightarrow>
         activate_downstream now run_id wname ast ps (res\<lparr>cas_errors := cas_errors res @ [FailedToActivate p e]\<rparr>) d
     | Inr (activated, d') \<Rightarrow>
         activate_downstream now run_id wname ast ps
           (if activated then res\<lparr>cas_activated_phases := cas_activated_phases res @ [p]\<rparr> else res) d')"

text \<open>Looking up the phase of an action and checking its transition, common to completion and failure:
  a missing row or an unknown status is an error of the result, an invalid transition is raised.\<close>

definition check_phase_action ::
  "PhaseState \<Rightarrow> uuid \<Rightarrow> string \<Rightarrow> string \<Rightarrow> db \<Rightarrow> (runtime_error, cascade_message option) result" where
  "check_phase_action target run_id wname phase d =
    (case select_one (is_phase run_id wname phase) (phase_executions d) of
       None \<Rightarrow> Inr (Some (PhaseNotFound phase))
     | Some row \<Rightarrow>
         (case phase_state_of (pe_status row) of
            None \<Rightarrow> Inr (Some (UnknownPhaseStatus (pe_status row)))
          | Some current \<Rightarrow>
              if is_valid_transition current target then Inr None
              else Inl (invalid_transition current target phase run_id)))"

definition mark_completed ::
  "timestamp \<Rightarrow> uuid \<Rightarrow> string \<Rightarrow> string \<Rightarrow> uuid \<Rightarrow> string option \<Rightarrow> string \<Rightarrow> db \<Rightarrow> db" where
  "mark_completed now run_id wname phase action_by notes action_taken d =
    update_runs (\<lambda>r. cr_id r = run_id) (\<lambda>r. r\<lparr>cr_current_phase := Some phase\<rparr>)
      (update_phases (is_phase run_id wname phase)
         (\<lambda>r. r\<lparr>pe_status := state_value COMPLETED, pe_action_at := Some now, pe_action_by_id := Some action_by,
               pe_action_notes := notes, pe_action_taken := Some action_taken\<rparr>) d)"

definition on_phase_completed ::
  "timestamp \<Rightarrow> uuid \<Rightarrow> string \<Rightarrow> string \<Rightarrow> uuid \<Rightarrow> CharterNode \<Rightarrow> string option \<Rightarrow> string \<Rightarrow> db \<Rightarrow>
   (runtime_error, CascadeResult \<times> db) result" where
  "on_phase_completed now run_id wname phase action_by ast notes action_taken d =
    bind_r (check_phase_action COMPLETED run_id wname phase d) (\<lambda>failure.
      case failure of
        Some msg \<Rightarrow> Inr (empty_result\<lparr>cas_errors := [msg]\<rparr>, d)
      | None \<Rightarrow>
          (let (res, d') =
                 activate_downstream now run_id wname ast (find_downstream_phases ast wname phase) empty_result
                   (mark_completed now run_id wname phase action_by notes action_taken d);
               complete = is_workflow_complete run_id wname d'
           in Inr (res\<lparr>cas_workflow_complete := complete\<rparr>,
                   if complete then finish_charter_run now run_id d' else d')))"

definition on_phase_failed ::
  "timestamp \<Rightarrow> uuid \<Rightarrow> string \<Rightarrow> string \<Rightarrow> uuid \<Rightarrow> string option \<Rightarrow> string option \<Rightarrow> db \<Rightarrow>
   (runtime_error, CascadeResult \<times> db) result" where
  "on_phase_failed now run_id wname phase action_by failure_reason failed_gate d =
    bind_r (check_phase_action FAILED run_id wname phase d) (\<lambda>failure.
      case failure of
        Some msg \<Rightarrow> Inr (empty_result\<lparr>cas_errors := [msg]\<rparr>, d)
      | None \<Rightarrow>
          Inr (empty_result,
            update_runs (\<lambda>r. cr_id r = run_id)
              (\<lambda>r. r\<lparr>cr_status := ''failed'', cr_current_phase := Some phase, cr_failure_reason := failure_reason,
                    cr_completed_at := Some now, cr_final_outcome := Some ''failed''\<rparr>)
              (update_phases (is_phase run_id wname phase)
                 (\<lambda>r. r\<lparr>pe_status := state_value FAILED, pe_action_at := Some now, pe_action_by_id := Some action_by,
                       pe_action_taken := Some ''reject'', pe_failure_reason := failure_reason,
                       pe_failed_gate := failed_gate\<rparr>) d)))"

end
