(* ===== verification/Workflow.thy ===== *)
theory Workflow
  imports Registry Cascade
begin

text \<open>
  The lifecycle of a run (\<open>libs/canon/src/canon/runtime/workflow.py\<close>): starting a workflow creates the run and a
  PENDING execution of every phase and activates the entry phases; a run is completed or cancelled; its
  status is summarised. The ids \<open>uuid4()\<close> draws are \<open>ids 0\<close> for the run and \<open>ids 1\<close>, \<open>ids 2\<close>, ... for the phase
  executions in the order of creation.
\<close>

datatype workflow_error =
    WorkflowNotFoundError string string
  | RegistryError registry_error

section \<open>Helpers over the compiled charter\<close>

fun get_requires_phases :: "RequireNode list \<Rightarrow> string list" where
  "get_requires_phases [] = []"
| "get_requires_phases (PhaseRef ph c # rs) = ph # get_requires_phases rs"
| "get_requires_phases (_ # rs) = get_requires_phases rs"

definition get_entry_phases :: "compiled \<Rightarrow> string \<Rightarrow> string list" where
  "get_entry_phases compiled wname =
    (case get_workflow (cc_ast compiled) wname of
       None \<Rightarrow> []
     | Some w \<Rightarrow> map ph_name (filter (\<lambda>p. get_requires_phases (ph_requires p) = []) (wf_phases w)))"

text \<open>\<open>_get_phase_role\<close>: the first role that may do one of the actions of the phase.\<close>

definition workflow_phase_actions :: "compiled \<Rightarrow> string \<Rightarrow> string \<Rightarrow> string set" where
  "workflow_phase_actions compiled wname phase =
    (case get_workflow (cc_ast compiled) wname of
       None \<Rightarrow> {}
     | Some w \<Rightarrow>
         (case find_first (\<lambda>p. ph_name p = phase) (wf_phases w) of
            None \<Rightarrow> {}
          | Some p \<Rightarrow> set (map (\<lambda>a. call_name (act_call a)) (ph_actions p))))"

definition get_phase_role :: "compiled \<Rightarrow> string \<Rightarrow> string \<Rightarrow> string option" where
  "get_phase_role compiled wname phase =
    map_option ro_name
      (find_first (\<lambda>r. workflow_phase_actions compiled wname phase \<inter> set (ro_actions r) \<noteq> {}) (cc_roles compiled))"

section \<open>Starting a workflow\<close>

text \<open>The dictionary \<open>phase_map\<close>: for each name of the order, with its position, the first phase of that name.\<close>

fun build_phase_map ::
  "nat \<Rightarrow> string list \<Rightarrow> PhaseNode list \<Rightarrow> (string, PhaseNode \<times> nat) dict \<Rightarrow> (string, PhaseNode \<times> nat) dict" where
  "build_phase_map n [] phases m = m"
| "build_phase_map n (name # order) phases m =
    build_phase_map (Suc n) order phases
      (case find_first (\<lambda>p. ph_name p = name) phases of None \<Rightarrow> m | Some p \<Rightarrow> dict_set name (p, n) m)"

definition new_run ::
  "uuid \<Rightarrow> timestamp \<Rightarrow> uuid \<Rightarrow> uuid \<Rightarrow> string \<Rightarrow> uuid \<Rightarrow> string \<Rightarrow> uuid \<Rightarrow> uuid \<Rightarrow> (string, json) dict \<Rightarrow> run_row" where
  "new_run run_id now charter_id subject_id related_type related_id wname initiated_by tenant_id context =
    \<lparr>cr_id = run_id, cr_tenant_id = tenant_id, cr_charter_id = charter_id, cr_subject_id = subject_id,
     cr_related_entity_type = related_type, cr_related_entity_id = related_id, cr_current_workflow = wname,
     cr_current_phase = None, cr_status = ''active'', cr_initiated_by_id = initiated_by, cr_initiated_at = now,
     cr_started_at = now, cr_completed_at = None, cr_final_outcome = None, cr_failure_reason = None,
     cr_run_context = context, cr_created_at = now, cr_updated_at = now\<rparr>"

definition new_phase_row ::
  "uuid \<Rightarrow> timestamp \<Rightarrow> uuid \<Rightarrow> uuid \<Rightarrow> compiled \<Rightarrow> string \<Rightarrow> string \<Rightarrow> PhaseNode \<Rightarrow> nat \<Rightarrow> phase_row" where
  "new_phase_row new_id now tenant_id run_id compiled wname name node seq =
    \<lparr>pe_id = new_id, pe_tenant_id = tenant_id, pe_run_id = run_id, pe_workflow_name = wname,
     pe_phase_name = name, pe_sequence = seq, pe_requires_phases = get_requires_phases (ph_requires node),
     pe_assignee_role = get_phase_role compiled wname name, pe_assignee_id = None,
     pe_status = state_value PENDING, pe_activated_at = None, pe_action_taken = None, pe_action_at = None,
     pe_action_by_id = None, pe_action_notes = None, pe_failure_reason = None, pe_failed_gate = None,
     pe_trigger_names = None, pe_created_at = now, pe_updated_at = now\<rparr>"

text \<open>\<open>_activate_phase\<close> of this module: unconditional, for any workflow of the run.\<close>

definition activate_entry_phase :: "timestamp \<Rightarrow> uuid \<Rightarrow> string \<Rightarrow> db \<Rightarrow> db" where
  "activate_entry_phase now run_id phase d =
    update_phases (\<lambda>r. pe_run_id r = run_id \<and> pe_phase_name r = phase)
      (\<lambda>r. r\<lparr>pe_status := state_value WAITING_USER, pe_activated_at := Some now, pe_updated_at := now\<rparr>) d"

definition create_run ::
  "(nat \<Rightarrow> uuid) \<Rightarrow> timestamp \<Rightarrow> compiled \<Rightarrow> string list \<Rightarrow> WorkflowNode \<Rightarrow> uuid \<Rightarrow> uuid \<Rightarrow> string \<Rightarrow> uuid \<Rightarrow> string \<Rightarrow>
   uuid \<Rightarrow> uuid \<Rightarrow> (string, json) dict \<Rightarrow> db \<Rightarrow> db" where
  "create_run ids now compiled order w charter_id subject_id related_type related_id wname initiated_by tenant_id
     context d =
    (let run_id = ids 0;
         d1 = d\<lparr>charter_runs := charter_runs d @
                [new_run run_id now charter_id subject_id related_type related_id wname initiated_by tenant_id context]\<rparr>;
         phase_map = build_phase_map 0 order (wf_phases w) [];
         d2 = d1\<lparr>phase_executions := phase_executions d1 @
                map (\<lambda>(i, name, node, seq). new_phase_row (ids (Suc i)) now tenant_id run_id compiled wname name node seq)
                  (enumerate 0 phase_map)\<rparr>
     in foldl (\<lambda>d phase. activate_entry_phase now run_id phase d) d2 (get_entry_phases compiled wname))"

text \<open>The registry keeps what the lookup cached even when the workflow is not found.\<close>

definition start_workflow ::
  "(string set \<Rightarrow> string list) \<Rightarrow> (nat \<Rightarrow> uuid) \<Rightarrow> timestamp \<Rightarrow> uuid \<Rightarrow> uuid \<Rightarrow> string \<Rightarrow> uuid \<Rightarrow> string \<Rightarrow> uuid \<Rightarrow>
   uuid \<Rightarrow> (string, json) dict \<Rightarrow> registry \<Rightarrow> db \<Rightarrow> (workflow_error, uuid \<times> db) result \<times> registry" where
  "start_workflow set_iter ids now charter_id subject_id related_type related_id wname initiated_by tenant_id context
     reg d =
    (case registry_get set_iter now charter_id d reg of
       Inl e \<Rightarrow> (Inl (RegistryError e), reg)
     | Inr (compiled, reg') \<Rightarrow>
         (case (map_of (cc_phase_order compiled) wname, get_workflow (cc_ast compiled) wname) of
            (Some order, Some w) \<Rightarrow>
              (Inr (ids 0, create_run ids now compiled order w charter_id subject_id related_type related_id wname
                             initiated_by tenant_id context d), reg')
          | _ \<Rightarrow> (Inl (WorkflowNotFoundError wname (cc_name compiled)), reg')))"

section \<open>Ending a run\<close>

definition outcome_status :: "string \<Rightarrow> string" where
  "outcome_status outcome =
    (case map_of
       [(''completed'', ''completed''), (''cancelled'', ''cancelled''), (''failed'', ''failed''),
        (''approved'', ''completed''), (''rejected'', ''completed'')] outcome of
       None \<Rightarrow> ''completed'' | Some s \<Rightarrow> s)"

definition complete_charter_run :: "timestamp \<Rightarrow> uuid \<Rightarrow> string \<Rightarrow> string option \<Rightarrow> db \<Rightarrow> db" where
  "complete_charter_run now run_id outcome failure_reason d =
    update_runs (\<lambda>r. cr_id r = run_id)
      (\<lambda>r. r\<lparr>cr_status := outcome_status outcome, cr_completed_at := Some now, cr_final_outcome := Some outcome,
            cr_failure_reason := failure_reason, cr_updated_at := now\<rparr>) d"

definition cancel_charter_run :: "timestamp \<Rightarrow> uuid \<Rightarrow> uuid \<Rightarrow> string option \<Rightarrow> db \<Rightarrow> db" where
  "cancel_charter_run now run_id cancelled_by reason d =
    complete_charter_run now run_id ''cancelled'' reason
      (update_phases (\<lambda>r. pe_run_id r = run_id \<and> pe_status r \<notin> terminal_statuses)
         (\<lambda>r. r\<lparr>pe_status := state_value SKIPPED, pe_action_taken := Some ''cancelled'',
               pe_action_by_id := Some cancelled_by, pe_action_at := Some now, pe_updated_at := now\<rparr>) d)"

section \<open>Queries\<close>

record waiting_phase =
  wt_phase_name :: string
  wt_assignee_role :: "string option"
  wt_waiting_since :: "timestamp option"

record run_status =
  rs_run_id :: uuid
  rs_status :: string
  rs_current_workflow :: string
  rs_current_phase :: "string option"
  rs_initiated_at :: timestamp
  rs_started_at :: timestamp
  rs_completed_at :: "timestamp option"
  rs_final_outcome :: "string option"
  rs_phase_counts :: "(string, nat) dict"
  rs_waiting_phases :: "waiting_phase list"

text \<open>\<^const>\<open>None\<close> is the dictionary with the error message.\<close>

definition get_run_status :: "uuid \<Rightarrow> db \<Rightarrow> run_status option" where
  "get_run_status run_id d =
    (case select_one (\<lambda>r. cr_id r = run_id) (charter_runs d) of
       None \<Rightarrow> None
     | Some run \<Rightarrow>
         (let rows = select (\<lambda>r. pe_run_id r = run_id) (phase_executions d);
              waiting = sort_key pe_sequence (select (\<lambda>r. pe_status r = state_value WAITING_USER) rows)
          in Some
            \<lparr>rs_run_id = cr_id run, rs_status = cr_status run, rs_current_workflow = cr_current_workflow run,
             rs_current_phase = cr_current_phase run, rs_initiated_at = cr_initiated_at run,
             rs_started_at = cr_started_at run, rs_completed_at = cr_completed_at run,
             rs_final_outcome = cr_final_outcome run,
             rs_phase_counts =
               map (\<lambda>s. (s, count_rows (\<lambda>r. pe_status r = s) rows)) (remdups (map pe_status rows)),
             rs_waiting_phases =
               map (\<lambda>r. \<lparr>wt_phase_name = pe_phase_name r, wt_assignee_role = pe_assignee_role r,
                         wt_waiting_since = pe_activated_at r\<rparr>) waiting\<rparr>))"

text \<open>\<open>is_workflow_complete\<close> of this module, over the whole run.\<close>

definition is_run_complete :: "uuid \<Rightarrow> db \<Rightarrow> bool" where
  "is_run_complete run_id d =
    (case select_one (\<lambda>r. cr_id r = run_id) (charter_runs d) of
       None \<Rightarrow> False
     | Some run \<Rightarrow>
         cr_current_workflow run \<noteq> [] \<and>
         count_rows (\<lambda>r. pe_run_id r = run_id \<and> pe_status r \<notin> terminal_statuses) (phase_executions d) = 0)"

end
