(* ===== verification/Cascade_Correct.thy ===== *)
theory Cascade_Correct
  imports Workflow
begin

text \<open>
  How the operations of the runtime change the phase executions: every operation on existing rows moves
  some of them from one status to another and keeps the rest (\<open>moved\<close>). For the cascade this includes what
  it activates and that it forgets nothing.
\<close>

section \<open>Rows that move\<close>

text \<open>The part of a row that no operation changes.\<close>

definition row_ident :: "phase_row \<Rightarrow> uuid \<times> string \<times> string \<times> string list" where
  "row_ident r = (pe_run_id r, pe_workflow_name r, pe_phase_name r, pe_requires_phases r)"

definition moves_to :: "(phase_row \<Rightarrow> string \<Rightarrow> bool) \<Rightarrow> phase_row \<Rightarrow> phase_row \<Rightarrow> bool" where
  "moves_to T r r' \<longleftrightarrow> row_ident r' = row_ident r \<and> (pe_status r' = pe_status r \<or> T r (pe_status r'))"

abbreviation moved :: "(phase_row \<Rightarrow> string \<Rightarrow> bool) \<Rightarrow> phase_row list \<Rightarrow> phase_row list \<Rightarrow> bool" where
  "moved T \<equiv> list_all2 (moves_to T)"

lemma moves_to_refl: "moves_to T r r"
  by (simp add: moves_to_def)

lemma moved_refl: "moved T rows rows"
  by (simp add: list_all2_refl moves_to_refl)

lemma moved_mono: "moved T rows rows' \<Longrightarrow> (\<And>r s. r \<in> set rows \<Longrightarrow> T r s \<Longrightarrow> S r s) \<Longrightarrow> moved S rows rows'"
  by (induction rule: list_all2_induct) (auto simp: moves_to_def)

lemma moved_update_rows:
  assumes "\<And>r. r \<in> set rows \<Longrightarrow> P r \<Longrightarrow> row_ident (f r) = row_ident r \<and> (pe_status (f r) = pe_status r \<or> T r (pe_status (f r)))"
  shows "moved T rows (update_rows P f rows)"
  using assms by (simp add: update_rows_def list_all2_map2 list_all2_same moves_to_def)

lemma moved_idents: "moved T rows rows' \<Longrightarrow> map row_ident rows' = map row_ident rows"
  by (induction rule: list_all2_induct) (auto simp: moves_to_def)

lemma is_phase_ident: "row_ident r' = row_ident r \<Longrightarrow> is_phase run w p r' = is_phase run w p r"
  by (simp add: row_ident_def is_phase_def)

text \<open>Each new row comes from an old one of the same identity, and each old one goes to a new one.\<close>

lemma moved_source:
  assumes "moved T rows rows'" "r' \<in> set rows'"
  obtains r where "r \<in> set rows" "moves_to T r r'"
  using assms by (metis in_set_conv_nth list_all2_conv_all_nth)

lemma moved_target:
  assumes "moved T rows rows'" "r \<in> set rows"
  obtains r' where "r' \<in> set rows'" "moves_to T r r'"
  using assms by (metis in_set_conv_nth list_all2_conv_all_nth)

lemma find_first_moved:
  "moved T rows rows' \<Longrightarrow> (\<And>r r'. moves_to T r r' \<Longrightarrow> P r' = P r) \<Longrightarrow>
   rel_option (moves_to T) (find_first P rows) (find_first P rows')"
  by (induction rule: list_all2_induct) auto

section \<open>Unique rows\<close>

definition row_key :: "phase_row \<Rightarrow> uuid \<times> string \<times> string" where
  "row_key r = (pe_run_id r, pe_workflow_name r, pe_phase_name r)"

definition unique_rows :: "phase_row list \<Rightarrow> bool" where
  "unique_rows rows \<longleftrightarrow> distinct (map row_key rows)"

lemma is_phase_key: "is_phase run w p r \<longleftrightarrow> row_key r = (run, w, p)"
  by (simp add: is_phase_def row_key_def)

lemma unique_rowsD: "unique_rows rows \<Longrightarrow> r \<in> set rows \<Longrightarrow> r' \<in> set rows \<Longrightarrow> row_key r = row_key r' \<Longrightarrow> r = r'"
  by (auto simp: unique_rows_def distinct_map dest: inj_onD)

lemma moved_keys: "moved T rows rows' \<Longrightarrow> map row_key rows' = map row_key rows"
  by (induction rule: list_all2_induct) (simp_all add: moves_to_def row_ident_def row_key_def)

lemma moved_unique: "moved T rows rows' \<Longrightarrow> unique_rows rows' = unique_rows rows"
  by (simp add: unique_rows_def moved_keys)

lemma select_one_unique:
  assumes "unique_rows rows" "r \<in> set rows" "is_phase run w p r"
  shows "select_one (is_phase run w p) rows = Some r"
proof (cases "select_one (is_phase run w p) rows")
  case None
  with assms show ?thesis by (simp add: select_one_None)
next
  case (Some r')
  with select_one_Some [OF Some] assms unique_rowsD [of rows r r'] show ?thesis by (simp add: is_phase_key)
qed

section \<open>Completed phases\<close>

definition completed_in :: "phase_row list \<Rightarrow> uuid \<Rightarrow> string \<Rightarrow> string \<Rightarrow> bool" where
  "completed_in rows run w p \<longleftrightarrow> (\<exists>r\<in>set rows. is_phase run w p r \<and> pe_status r = state_value COMPLETED)"

lemma phase_completed_iff:
  assumes "unique_rows (phase_executions d)"
  shows "phase_completed run w p d \<longleftrightarrow> completed_in (phase_executions d) run w p"
proof
  assume "phase_completed run w p d"
  then obtain row where "select_one (is_phase run w p) (phase_executions d) = Some row" "pe_status row = ''completed''"
    by (auto simp: phase_completed_def)
  with select_one_Some [OF this(1)] show "completed_in (phase_executions d) run w p"
    by (auto simp: completed_in_def)
next
  assume "completed_in (phase_executions d) run w p"
  then obtain row where "row \<in> set (phase_executions d)" "is_phase run w p row" "pe_status row = ''completed''"
    by (auto simp: completed_in_def)
  with select_one_unique [OF assms this(1,2)] show "phase_completed run w p d"
    by (simp add: phase_completed_def)
qed

lemma completed_in_mono:
  assumes "moved T rows rows'" "\<And>r s. r \<in> set rows \<Longrightarrow> T r s \<Longrightarrow> pe_status r \<noteq> state_value COMPLETED"
    and "completed_in rows run w p"
  shows "completed_in rows' run w p"
proof -
  obtain r where r: "r \<in> set rows" "is_phase run w p r" "pe_status r = state_value COMPLETED"
    using assms(3) unfolding completed_in_def by blast
  obtain r' where r': "r' \<in> set rows'" "moves_to T r r'" using moved_target [OF assms(1) r(1)] by blast
  then have "is_phase run w p r'" "pe_status r' = state_value COMPLETED"
    using r assms(2) [OF r(1)] is_phase_ident [of r' r run w p] unfolding moves_to_def by metis+
  with r'(1) show ?thesis unfolding completed_in_def by blast
qed

lemma completed_in_back:
  assumes "moved T rows rows'" "\<And>r s. r \<in> set rows \<Longrightarrow> T r s \<Longrightarrow> s \<noteq> state_value COMPLETED"
    and "completed_in rows' run w p"
  shows "completed_in rows run w p"
proof -
  obtain r' where r': "r' \<in> set rows'" "is_phase run w p r'" "pe_status r' = state_value COMPLETED"
    using assms(3) unfolding completed_in_def by blast
  obtain r where r: "r \<in> set rows" "moves_to T r r'" using moved_source [OF assms(1) r'(1)] by blast
  then have "is_phase run w p r" "pe_status r = state_value COMPLETED"
    using r' assms(2) [OF r(1)] is_phase_ident [of r' r run w p] unfolding moves_to_def by metis+
  with r(1) show ?thesis unfolding completed_in_def by blast
qed

section \<open>Activation\<close>

definition activation :: "uuid \<Rightarrow> string \<Rightarrow> CharterNode \<Rightarrow> db \<Rightarrow> phase_row \<Rightarrow> string \<Rightarrow> bool" where
  "activation run w ast d r s \<longleftrightarrow>
     pe_run_id r = run \<and> pe_workflow_name r = w \<and>
     (\<exists>c t. c \<in> {PENDING, WAITING_GATE} \<and> t \<in> {WAITING_USER, WAITING_TRIGGER} \<and> is_valid_transition c t \<and>
        pe_status r = state_value c \<and> s = state_value t) \<and>
     (\<exists>node. get_phase_node ast w (pe_phase_name r) = Some node \<and>
        (\<forall>q\<in>set (ph_requires node). require_holds run w d q))"

definition activated :: "uuid \<Rightarrow> string \<Rightarrow> CharterNode \<Rightarrow> db \<Rightarrow> db \<Rightarrow> bool" where
  "activated run w ast d d' \<longleftrightarrow>
     charters d' = charters d \<and> charter_runs d' = charter_runs d \<and> evidences d' = evidences d \<and>
     moved (activation run w ast d) (phase_executions d) (phase_executions d')"

lemma activation_statuses:
  "activation run w ast d r s \<Longrightarrow>
   pe_status r \<noteq> state_value COMPLETED \<and> s \<noteq> state_value COMPLETED \<and> s \<noteq> state_value PENDING \<and>
   s \<noteq> state_value WAITING_GATE"
  unfolding activation_def by (auto simp del: state_value.simps simp: state_value_inj)

lemma activated_refl: "activated run w ast d d"
  by (simp add: activated_def moved_refl)

lemma require_holds_activated:
  assumes "activated run w ast d d'" "unique_rows (phase_executions d)"
  shows "require_holds run' w' d' q = require_holds run' w' d q"
proof -
  have m: "moved (activation run w ast d) (phase_executions d) (phase_executions d')"
    and e: "evidences d' = evidences d" using assms(1) by (simp_all add: activated_def)
  have u: "unique_rows (phase_executions d')" using moved_unique [OF m] assms(2) by simp
  have "phase_completed run' w' p d' = phase_completed run' w' p d" for p
    unfolding phase_completed_iff [OF u] phase_completed_iff [OF assms(2)]
    using completed_in_mono [OF m] completed_in_back [OF m] activation_statuses by metis
  then show ?thesis using e by (cases q) (simp_all add: has_trigger_fired_def)
qed

lemma moves_to_activation_trans:
  assumes "moves_to (activation run w ast d) r r'" "moves_to (activation run w ast d) r' r''"
  shows "moves_to (activation run w ast d) r r''"
proof (cases "pe_status r' = pe_status r")
  case True
  then have "activation run w ast d r' s = activation run w ast d r s" for s
    using assms(1) by (simp add: moves_to_def activation_def row_ident_def)
  with True assms show ?thesis by (auto simp: moves_to_def)
next
  case False
  then have "pe_status r' \<noteq> state_value PENDING" "pe_status r' \<noteq> state_value WAITING_GATE"
    using assms(1) activation_statuses [of run w ast d r "pe_status r'"] by (simp_all add: moves_to_def)
  then have "pe_status r'' = pe_status r'"
    using assms(2) unfolding moves_to_def activation_def by auto
  with assms show ?thesis by (simp add: moves_to_def)
qed

lemma activated_trans:
  assumes "activated run w ast d d'" "activated run w ast d' d''" "unique_rows (phase_executions d)"
  shows "activated run w ast d d''"
proof -
  have "activation run w ast d' = activation run w ast d"
    by (rule ext, rule ext) (simp add: activation_def require_holds_activated [OF assms(1,3)])
  then have "moved (activation run w ast d) (phase_executions d') (phase_executions d'')"
    using assms(2) by (simp add: activated_def)
  moreover have "moved (activation run w ast d) (phase_executions d) (phase_executions d')"
    using assms(1) by (simp add: activated_def)
  ultimately have "moved (activation run w ast d) (phase_executions d) (phase_executions d'')"
    using list_all2_trans [of "moves_to (activation run w ast d)" "moves_to (activation run w ast d)"
        "moves_to (activation run w ast d)"] moves_to_activation_trans by blast
  then show ?thesis using assms(1,2) by (simp add: activated_def)
qed

text \<open>What \<open>activate_phase\<close> does to the row it finds.\<close>

definition phase_awaits :: "CharterNode \<Rightarrow> string \<Rightarrow> string \<Rightarrow> AwaitNode list" where
  "phase_awaits ast w p = (case get_phase_node ast w p of None \<Rightarrow> [] | Some node \<Rightarrow> ph_awaits node)"

definition activation_target :: "CharterNode \<Rightarrow> string \<Rightarrow> string \<Rightarrow> PhaseState" where
  "activation_target ast w p = (if phase_awaits ast w p = [] then WAITING_USER else WAITING_TRIGGER)"

definition activate_row :: "timestamp \<Rightarrow> CharterNode \<Rightarrow> string \<Rightarrow> string \<Rightarrow> phase_row \<Rightarrow> phase_row" where
  "activate_row now ast w p r =
    (if phase_awaits ast w p \<noteq> [] then r\<lparr>pe_trigger_names := Some (map aw_trigger (phase_awaits ast w p))\<rparr> else r)
      \<lparr>pe_status := state_value (activation_target ast w p), pe_activated_at := Some now\<rparr>"

lemma activate_row_simps [simp]:
  "row_ident (activate_row now ast w p r) = row_ident r"
  "pe_status (activate_row now ast w p r) = state_value (activation_target ast w p)"
  by (simp_all add: activate_row_def row_ident_def)

lemma activation_target_waits: "activation_target ast w p \<in> {WAITING_USER, WAITING_TRIGGER}"
  by (simp add: activation_target_def)

lemma activate_phase_row:
  assumes "select_one (is_phase run w p) (phase_executions d) = Some row" "phase_state_of (pe_status row) = Some c"
  shows "activate_phase now run w p ast d =
    (if c \<notin> {PENDING, WAITING_GATE} then Inr (False, d)
     else if \<not> is_valid_transition c (activation_target ast w p)
       then Inl (invalid_transition c (activation_target ast w p) p run)
     else Inr (True, update_phases (is_phase run w p) (activate_row now ast w p) d))"
  using assms
  by (cases c) (simp_all add: activate_phase_def activation_target_def activate_row_def [abs_def] phase_awaits_def Let_def)

lemma activate_phase_Inr:
  assumes "activate_phase now run w p ast d = Inr (b, d')"
  shows "d' = d \<or>
    (\<exists>row c. select_one (is_phase run w p) (phase_executions d) = Some row \<and> pe_status row = state_value c \<and>
       c \<in> {PENDING, WAITING_GATE} \<and> is_valid_transition c (activation_target ast w p) \<and>
       d' = update_phases (is_phase run w p) (activate_row now ast w p) d)"
proof -
  obtain row c where row: "select_one (is_phase run w p) (phase_executions d) = Some row"
    and c: "phase_state_of (pe_status row) = Some c"
    using assms by (auto simp: activate_phase_def split: option.splits)
  with assms activate_phase_row [OF row c, of now ast] show ?thesis
    by (auto simp: phase_state_of_Some split: if_splits)
qed

lemma try_activate_phase_activated:
  assumes unique: "unique_rows (phase_executions d)" and attempt: "try_activate_phase now run w p ast d = Inr (b, d')"
  shows "activated run w ast d d'"
proof (cases "d' = d")
  case True
  then show ?thesis by (simp add: activated_refl)
next
  case False
  then obtain res where res: "evaluate_requires run w p ast d = Some res" "rr_satisfied res"
    and act: "activate_phase now run w p ast d = Inr (b, d')"
    using attempt by (auto simp: try_activate_phase_def split: option.splits if_splits)
  then obtain node where node: "get_phase_node ast w p = Some node"
    "\<forall>q\<in>set (ph_requires node). require_holds run w d q" by (auto simp: evaluate_requires_eq)
  obtain row c where row: "select_one (is_phase run w p) (phase_executions d) = Some row" "pe_status row = state_value c"
    "c \<in> {PENDING, WAITING_GATE}" "is_valid_transition c (activation_target ast w p)"
    and d': "d' = update_phases (is_phase run w p) (activate_row now ast w p) d"
    using activate_phase_Inr [OF act] False by blast
  have "activation run w ast d r (state_value (activation_target ast w p))"
    if "r \<in> set (phase_executions d)" "is_phase run w p r" for r
  proof -
    have "r = row" using select_one_unique [OF unique that] row(1) by simp
    with row node that activation_target_waits [of ast w p] show ?thesis
      unfolding activation_def is_phase_def by blast
  qed
  then show ?thesis unfolding d' activated_def by (simp add: moved_update_rows)
qed

lemma activate_downstream_activated:
  assumes "unique_rows (phase_executions d)"
  shows "activated run w ast d (snd (activate_downstream now run w ast ps res d))"
  using assms
proof (induction ps arbitrary: res d)
  case Nil
  then show ?case by (simp add: activated_refl)
next
  case (Cons p ps)
  show ?case
  proof (cases "try_activate_phase now run w p ast d")
    case (Inl e)
    with Cons show ?thesis by simp
  next
    case (Inr bd)
    obtain b d' where bd: "bd = (b, d')" by fastforce
    have act: "activated run w ast d d'" using try_activate_phase_activated [OF Cons.prems] Inr bd by blast
    then have "unique_rows (phase_executions d')" using Cons.prems moved_unique by (auto simp: activated_def)
    with Cons.IH activated_trans [OF act _ Cons.prems] Inr bd show ?thesis by simp
  qed
qed

text \<open>A downstream phase that is pending when all its requires hold is activated.\<close>

definition pending_in :: "phase_row list \<Rightarrow> uuid \<Rightarrow> string \<Rightarrow> string \<Rightarrow> bool" where
  "pending_in rows run w p \<longleftrightarrow> (\<exists>r\<in>set rows. is_phase run w p r \<and> pe_status r = state_value PENDING)"

lemma pending_in_back:
  assumes "moved T rows rows'" "\<And>r s. r \<in> set rows \<Longrightarrow> T r s \<Longrightarrow> s \<noteq> state_value PENDING"
    and "pending_in rows' run w p"
  shows "pending_in rows run w p"
proof -
  obtain r' where r': "r' \<in> set rows'" "is_phase run w p r'" "pe_status r' = state_value PENDING"
    using assms(3) unfolding pending_in_def by blast
  obtain r where r: "r \<in> set rows" "moves_to T r r'" using moved_source [OF assms(1) r'(1)] by blast
  then have "is_phase run w p r" "pe_status r = state_value PENDING"
    using r' assms(2) [OF r(1)] is_phase_ident [of r' r run w p] unfolding moves_to_def by metis+
  with r(1) show ?thesis unfolding pending_in_def by blast
qed

lemma pending_in_activated: "activated run w ast d d' \<Longrightarrow> pending_in (phase_executions d') run' w' p \<Longrightarrow>
   pending_in (phase_executions d) run' w' p"
  using pending_in_back [of "activation run w ast d" "phase_executions d" "phase_executions d'"] activation_statuses
  unfolding activated_def by metis

lemma try_activate_phase_ready:
  assumes unique: "unique_rows (phase_executions d)" and pend: "pending_in (phase_executions d) run w p"
    and node: "get_phase_node ast w p = Some node" "\<forall>q\<in>set (ph_requires node). require_holds run w d q"
  shows "\<exists>d'. try_activate_phase now run w p ast d = Inr (True, d') \<and> \<not> pending_in (phase_executions d') run w p"
proof -
  obtain row where row: "row \<in> set (phase_executions d)" "is_phase run w p row" "pe_status row = state_value PENDING"
    using pend by (auto simp: pending_in_def)
  have sel: "select_one (is_phase run w p) (phase_executions d) = Some row"
    using select_one_unique [OF unique row(1,2)] .
  have "is_valid_transition PENDING (activation_target ast w p)"
    by (simp add: activation_target_def transition_simps)
  then have "try_activate_phase now run w p ast d =
      Inr (True, update_phases (is_phase run w p) (activate_row now ast w p) d)"
    using node activate_phase_row [OF sel, of PENDING now ast] row(3)
    by (simp add: try_activate_phase_def evaluate_requires_eq del: state_value.simps)
  moreover have "\<not> pending_in (update_rows (is_phase run w p) (activate_row now ast w p) (phase_executions d)) run w p"
    using activation_target_waits [of ast w p]
    by (auto simp del: state_value.simps simp: pending_in_def update_rows_def state_value_inj)
  ultimately show ?thesis by simp
qed

lemma activate_downstream_ready:
  assumes "unique_rows (phase_executions d)" "p \<in> set ps" "get_phase_node ast w p = Some node"
    "\<forall>q\<in>set (ph_requires node). require_holds run w d q"
  shows "\<not> pending_in (phase_executions (snd (activate_downstream now run w ast ps res d))) run w p"
  using assms
proof (induction ps arbitrary: res d)
  case Nil
  then show ?case by simp
next
  case (Cons q ps)
  show ?case
  proof (cases "try_activate_phase now run w q ast d")
    case (Inl e)
    then have "\<not> pending_in (phase_executions d) run w p" if "q = p"
      using try_activate_phase_ready [OF Cons.prems(1) _ Cons.prems(3,4), of now] that by auto
    with Inl Cons pending_in_activated [OF activate_downstream_activated [OF Cons.prems(1)]] show ?thesis
      by (cases "q = p") auto
  next
    case (Inr bd)
    obtain b d' where bd: "bd = (b, d')" by fastforce
    have act: "activated run w ast d d'" using try_activate_phase_activated [OF Cons.prems(1)] Inr bd by blast
    then have u: "unique_rows (phase_executions d')" using Cons.prems moved_unique by (auto simp: activated_def)
    have "\<not> pending_in (phase_executions d') run w p" if "q = p"
      using try_activate_phase_ready [OF Cons.prems(1) _ Cons.prems(3,4), of now] pending_in_activated [OF act, of run w p]
        Inr bd that by auto
    moreover have "\<forall>q\<in>set (ph_requires node). require_holds run w d' q"
      using Cons.prems(4) require_holds_activated [OF act Cons.prems(1)] by simp
    ultimately show ?thesis
      using Cons.IH [OF u _ Cons.prems(3)] Cons.prems(2) Inr bd pending_in_activated [OF activate_downstream_activated [OF u]]
      by (cases "q = p") auto
  qed
qed

end
