(* ===== verification/Runtime_Invariants.thy ===== *)
theory Runtime_Invariants
  imports Cascade_Correct
begin

text \<open>
  The invariants of the phase executions and the operations on existing rows: each operation of the runtime
  moves rows between statuses and leaves the identity of rows and runs alone, and the moves of a kind (a locale)
  keep the invariants. \<open>deps_ok\<close>: a phase that has left PENDING other than by being skipped has its required
  phases completed. \<open>none_forgotten\<close>: a phase that requires only phases does not stay PENDING when they are all
  completed.
\<close>

section \<open>Invariants of the phase executions\<close>

definition deps_ok :: "phase_row list \<Rightarrow> bool" where
  "deps_ok rows \<longleftrightarrow>
     (\<forall>r\<in>set rows. pe_status r \<notin> {state_value PENDING, state_value SKIPPED} \<longrightarrow>
        (\<forall>p\<in>set (pe_requires_phases r). completed_in rows (pe_run_id r) (pe_workflow_name r) p))"

definition known_statuses :: "phase_row list \<Rightarrow> bool" where
  "known_statuses rows \<longleftrightarrow>
     (\<forall>r\<in>set rows. \<exists>t. t \<noteq> WAITING_GATE \<and> pe_status r = state_value t)"

text \<open>The requires of the phase are all \<open>p.passed\<close> or \<open>p.complete\<close>.\<close>

definition plain_requires :: "PhaseNode \<Rightarrow> bool" where
  "plain_requires node \<longleftrightarrow>
     list_all (\<lambda>q. case q of PhaseRef p c \<Rightarrow> c \<in> {''passed'', ''complete''} | _ \<Rightarrow> False) (ph_requires node)"

text \<open>The run of a row, by its id, and the node of its phase in the charter of the run.\<close>

definition run_of :: "db \<Rightarrow> uuid \<Rightarrow> run_row option" where
  "run_of d run = select_one (\<lambda>x. cr_id x = run) (charter_runs d)"

definition row_node :: "(string set \<Rightarrow> string list) \<Rightarrow> db \<Rightarrow> phase_row \<Rightarrow> PhaseNode option" where
  "row_node it d r =
    (case run_of d (pe_run_id r) of
       None \<Rightarrow> None
     | Some x \<Rightarrow>
         (case fresh_compile it (cr_charter_id x) d of
            Inl _ \<Rightarrow> None
          | Inr c \<Rightarrow> get_phase_node (cc_ast c) (pe_workflow_name r) (pe_phase_name r)))"

definition rows_linked :: "(string set \<Rightarrow> string list) \<Rightarrow> db \<Rightarrow> bool" where
  "rows_linked it d \<longleftrightarrow>
     (\<forall>r\<in>set (phase_executions d). \<exists>node. row_node it d r = Some node \<and>
        pe_requires_phases r = get_requires_phases (ph_requires node))"

definition none_forgotten :: "(string set \<Rightarrow> string list) \<Rightarrow> db \<Rightarrow> bool" where
  "none_forgotten it d \<longleftrightarrow>
     (\<forall>r\<in>set (phase_executions d). \<forall>node. pe_status r = state_value PENDING \<longrightarrow> row_node it d r = Some node \<longrightarrow>
        plain_requires node \<longrightarrow>
        (\<exists>p\<in>set (pe_requires_phases r).
           \<not> completed_in (phase_executions d) (pe_run_id r) (pe_workflow_name r) p))"

text \<open>Every run has a row for each phase of its workflow and no others.\<close>

definition runs_full :: "(string set \<Rightarrow> string list) \<Rightarrow> db \<Rightarrow> bool" where
  "runs_full it d \<longleftrightarrow>
     (\<forall>x\<in>set (charter_runs d). \<exists>c w. fresh_compile it (cr_charter_id x) d = Inr c \<and>
        get_workflow (cc_ast c) (cr_current_workflow x) = Some w \<and>
        {(pe_workflow_name r, pe_phase_name r) | r. r \<in> set (phase_executions d) \<and> pe_run_id r = cr_id x} =
          {cr_current_workflow x} \<times> names (wf_phases w))"

section \<open>Operations on existing rows\<close>

definition run_ident :: "run_row \<Rightarrow> uuid \<times> uuid \<times> string" where
  "run_ident x = (cr_id x, cr_charter_id x, cr_current_workflow x)"

definition framed :: "db \<Rightarrow> db \<Rightarrow> bool" where
  "framed d d' \<longleftrightarrow> charters d' = charters d \<and> map run_ident (charter_runs d') = map run_ident (charter_runs d)"

lemma framed_refl: "framed d d"
  by (simp add: framed_def)

lemma framed_trans: "framed d d' \<Longrightarrow> framed d' d'' \<Longrightarrow> framed d d''"
  by (simp add: framed_def)

lemma framed_update_runs: "(\<And>x. run_ident (f x) = run_ident x) \<Longrightarrow> framed d (update_runs P f d)"
  by (auto simp: framed_def update_rows_def)

lemma framed_update_phases: "framed d (update_phases P f d)"
  by (simp add: framed_def)

lemma framed_activated: "activated run w ast d d' \<Longrightarrow> framed d d'"
  by (simp add: activated_def framed_def)

lemma find_first_map:
  "map g xs = map g ys \<Longrightarrow> (\<And>x y. g x = g y \<Longrightarrow> P x = P y) \<Longrightarrow>
   rel_option (\<lambda>x y. g x = g y) (find_first P xs) (find_first P ys)"
proof (induction xs arbitrary: ys)
  case (Cons x xs)
  obtain y ys' where ys: "ys = y # ys'" "g x = g y" "map g xs = map g ys'" using Cons.prems(1) by (cases ys) auto
  have "rel_option (\<lambda>x y. g x = g y) (find_first P xs) (find_first P ys')"
    by (rule Cons.IH [OF ys(3) Cons.prems(2)])
  moreover have "P x = P y" by (rule Cons.prems(2) [OF ys(2)])
  ultimately show ?case using ys by simp
qed simp

lemma run_of_framed:
  "framed d d' \<Longrightarrow> rel_option (\<lambda>x y. run_ident x = run_ident y) (run_of d' run) (run_of d run)"
  unfolding run_of_def select_one_find framed_def
  by (rule find_first_map, elim conjE, assumption) (simp add: run_ident_def)

lemma fresh_compile_framed: "framed d d' \<Longrightarrow> fresh_compile it cid d' = fresh_compile it cid d"
  by (simp add: fresh_compile_def charter_row_of_def framed_def)

lemma row_node_framed:
  assumes "framed d d'" "row_ident r' = row_ident r"
  shows "row_node it d' r' = row_node it d r"
  using run_of_framed [OF assms(1), of "pe_run_id r"] assms(2)
  by (cases "run_of d (pe_run_id r)"; cases "run_of d' (pe_run_id r)")
    (auto simp: row_node_def row_ident_def run_ident_def fresh_compile_framed [OF assms(1)] split: sum.split)

lemma rows_linked_moved:
  assumes "framed d d'" "moved T (phase_executions d) (phase_executions d')" "rows_linked it d"
  shows "rows_linked it d'"
  unfolding rows_linked_def
proof
  fix r' assume "r' \<in> set (phase_executions d')"
  then obtain r where r: "r \<in> set (phase_executions d)" "row_ident r' = row_ident r"
    using moved_source [OF assms(2)] by (metis moves_to_def)
  then have "pe_requires_phases r' = pe_requires_phases r" by (simp add: row_ident_def)
  with r assms(3) row_node_framed [OF assms(1) r(2)]
  show "\<exists>node. row_node it d' r' = Some node \<and> pe_requires_phases r' = get_requires_phases (ph_requires node)"
    by (simp add: rows_linked_def)
qed

lemma runs_full_moved:
  assumes "framed d d'" "moved T (phase_executions d) (phase_executions d')" "runs_full it d"
  shows "runs_full it d'"
  unfolding runs_full_def
proof
  fix x' assume "x' \<in> set (charter_runs d')"
  then have "run_ident x' \<in> set (map run_ident (charter_runs d))" using assms(1)
    by (metis framed_def image_eqI list.set_map)
  then obtain x where x: "x \<in> set (charter_runs d)" "run_ident x' = run_ident x" by auto
  let ?keys = "\<lambda>rows. {(pe_workflow_name r, pe_phase_name r) | r. r \<in> set rows \<and> pe_run_id r = cr_id x}"
  have "?keys rows = {(w, p). (cr_id x, w, p) \<in> set (map row_key rows)}" for rows
    by (auto simp: row_key_def image_iff) metis
  then have "?keys (phase_executions d') = ?keys (phase_executions d)"
    using moved_keys [OF assms(2)] by (simp only:)
  with assms(3) x show "\<exists>c w. fresh_compile it (cr_charter_id x') d' = Inr c \<and>
      get_workflow (cc_ast c) (cr_current_workflow x') = Some w \<and>
      {(pe_workflow_name r, pe_phase_name r) | r. r \<in> set (phase_executions d') \<and> pe_run_id r = cr_id x'} =
        {cr_current_workflow x'} \<times> names (wf_phases w)"
    by (simp add: runs_full_def run_ident_def fresh_compile_framed [OF assms(1)])
qed

lemma deps_ok_moved:
  assumes m: "moved T rows rows'" and ok: "deps_ok rows"
    and T: "\<And>r s. r \<in> set rows \<Longrightarrow> T r s \<Longrightarrow> pe_status r \<noteq> state_value COMPLETED \<and>
      (s = state_value SKIPPED \<or> (\<forall>p\<in>set (pe_requires_phases r). completed_in rows (pe_run_id r) (pe_workflow_name r) p))"
  shows "deps_ok rows'"
  unfolding deps_ok_def
proof (intro ballI impI)
  fix r' p
  assume r': "r' \<in> set rows'" "pe_status r' \<notin> {state_value PENDING, state_value SKIPPED}" "p \<in> set (pe_requires_phases r')"
  obtain r where r: "r \<in> set rows" "moves_to T r r'" using moved_source [OF m r'(1)] by blast
  then have id: "pe_requires_phases r' = pe_requires_phases r" "pe_run_id r' = pe_run_id r"
    "pe_workflow_name r' = pe_workflow_name r" by (simp_all add: moves_to_def row_ident_def)
  have "completed_in rows (pe_run_id r) (pe_workflow_name r) p"
  proof (cases "pe_status r' = pe_status r")
    case True
    with ok r(1) r'(2,3) id(1) show ?thesis unfolding deps_ok_def by metis
  next
    case False
    then have "T r (pe_status r')" using r(2) by (simp add: moves_to_def)
    from T [OF r(1) this] r'(2,3) id(1) show ?thesis by simp
  qed
  with completed_in_mono [OF m] T id show "completed_in rows' (pe_run_id r') (pe_workflow_name r') p" by metis
qed

lemma known_statuses_moved:
  assumes m: "moved T rows rows'" and ok: "known_statuses rows"
    and T: "\<And>r s. r \<in> set rows \<Longrightarrow> T r s \<Longrightarrow> \<exists>t. t \<noteq> WAITING_GATE \<and> s = state_value t"
  shows "known_statuses rows'"
  unfolding known_statuses_def
proof
  fix r' assume "r' \<in> set rows'"
  then obtain r where "r \<in> set rows" "moves_to T r r'" using moved_source [OF m] by blast
  with ok T show "\<exists>t. t \<noteq> WAITING_GATE \<and> pe_status r' = state_value t"
    unfolding known_statuses_def moves_to_def by metis
qed

lemma none_forgotten_moved:
  assumes f: "framed d d'" and m: "moved T (phase_executions d) (phase_executions d')" and ok: "none_forgotten it d"
    and T: "\<And>r s. r \<in> set (phase_executions d) \<Longrightarrow> T r s \<Longrightarrow> s \<noteq> state_value PENDING \<and> s \<noteq> state_value COMPLETED"
  shows "none_forgotten it d'"
  unfolding none_forgotten_def
proof (intro ballI allI impI)
  fix r' node
  assume r': "r' \<in> set (phase_executions d')" "pe_status r' = state_value PENDING" "row_node it d' r' = Some node"
    "plain_requires node"
  obtain r where r: "r \<in> set (phase_executions d)" "moves_to T r r'" using moved_source [OF m r'(1)] by blast
  then have id: "pe_requires_phases r' = pe_requires_phases r" "pe_run_id r' = pe_run_id r"
    "pe_workflow_name r' = pe_workflow_name r" and i: "row_ident r' = row_ident r"
    by (simp_all add: moves_to_def row_ident_def)
  have "pe_status r = state_value PENDING" using r r'(2) T [OF r(1)] by (auto simp: moves_to_def)
  moreover have "row_node it d r = Some node" using row_node_framed [OF f i] r'(3) by simp
  ultimately obtain p where "p \<in> set (pe_requires_phases r)"
    "\<not> completed_in (phase_executions d) (pe_run_id r) (pe_workflow_name r) p"
    using ok r(1) r'(4) unfolding none_forgotten_def by blast
  with completed_in_back [OF m] T id
  show "\<exists>p\<in>set (pe_requires_phases r'). \<not> completed_in (phase_executions d') (pe_run_id r') (pe_workflow_name r') p"
    by metis
qed

text \<open>The invariant of the phase executions, and the moves that keep it.\<close>

definition rows_inv :: "(string set \<Rightarrow> string list) \<Rightarrow> db \<Rightarrow> bool" where
  "rows_inv it d \<longleftrightarrow>
     distinct (map cr_id (charter_runs d)) \<and> unique_rows (phase_executions d) \<and> rows_linked it d \<and> runs_full it d \<and>
     known_statuses (phase_executions d) \<and> deps_ok (phase_executions d)"

lemma framed_run_ids: "framed d d' \<Longrightarrow> map cr_id (charter_runs d') = map cr_id (charter_runs d)"
proof -
  assume "framed d d'"
  then have "map fst (map run_ident (charter_runs d')) = map fst (map run_ident (charter_runs d))"
    by (simp only: framed_def)
  then show ?thesis by (simp add: run_ident_def comp_def)
qed

locale phase_move =
  fixes T :: "phase_row \<Rightarrow> string \<Rightarrow> bool"
  assumes open_before: "T r s \<Longrightarrow> pe_status r \<noteq> state_value COMPLETED"
    and reached: "T r s \<Longrightarrow> \<exists>t. t \<noteq> WAITING_GATE \<and> t \<noteq> PENDING \<and> s = state_value t"
    and from_active: "T r s \<Longrightarrow> s \<noteq> state_value SKIPPED \<Longrightarrow> pe_status r \<notin> {state_value PENDING, state_value SKIPPED}"
begin

lemma keeps_rows_inv:
  assumes f: "framed d d'" and m: "moved T (phase_executions d) (phase_executions d')" and inv: "rows_inv it d"
  shows "rows_inv it d'"
proof -
  have "deps_ok (phase_executions d')"
  proof (rule deps_ok_moved [OF m])
    show "deps_ok (phase_executions d)" using inv by (simp add: rows_inv_def)
    then show "pe_status r \<noteq> state_value COMPLETED \<and> (s = state_value SKIPPED \<or>
        (\<forall>p\<in>set (pe_requires_phases r). completed_in (phase_executions d) (pe_run_id r) (pe_workflow_name r) p))"
      if "r \<in> set (phase_executions d)" "T r s" for r s
      using that open_before from_active unfolding deps_ok_def by blast
  qed
  moreover have "known_statuses (phase_executions d')"
    using known_statuses_moved [OF m] inv reached unfolding rows_inv_def by blast
  ultimately show ?thesis
    using inv rows_linked_moved [OF f m] runs_full_moved [OF f m] moved_unique [OF m] framed_run_ids [OF f]
    unfolding rows_inv_def by simp
qed

end

locale quiet_move = phase_move +
  assumes not_completing: "T r s \<Longrightarrow> s \<noteq> state_value COMPLETED"
begin

lemma keeps_none_forgotten:
  "framed d d' \<Longrightarrow> moved T (phase_executions d) (phase_executions d') \<Longrightarrow> none_forgotten it d \<Longrightarrow> none_forgotten it d'"
  using none_forgotten_moved reached not_completing state_value_inj by metis

end

definition moves_between :: "PhaseState set \<Rightarrow> PhaseState \<Rightarrow> phase_row \<Rightarrow> string \<Rightarrow> bool" where
  "moves_between from_states to_state r s \<longleftrightarrow> (\<exists>c\<in>from_states. pe_status r = state_value c \<and> s = state_value to_state)"

lemma phase_move_between:
  assumes "COMPLETED \<notin> from_states" "to_state \<noteq> WAITING_GATE" "to_state \<noteq> PENDING"
    "to_state = SKIPPED \<or> PENDING \<notin> from_states \<and> SKIPPED \<notin> from_states"
  shows "phase_move (moves_between from_states to_state)"
  using assms by unfold_locales (auto simp del: state_value.simps simp: moves_between_def state_value_inj)

interpretation completion: phase_move "moves_between {IN_PROGRESS} COMPLETED"
  by (rule phase_move_between) simp_all

interpretation claim: quiet_move "moves_between {WAITING_USER} IN_PROGRESS"
  by (intro quiet_move.intro phase_move_between quiet_move_axioms.intro) (auto simp: moves_between_def)

interpretation trigger_fire: quiet_move "moves_between {WAITING_TRIGGER} IN_PROGRESS"
  by (intro quiet_move.intro phase_move_between quiet_move_axioms.intro) (auto simp: moves_between_def)

interpretation failure: quiet_move "moves_between {WAITING_GATE, WAITING_TRIGGER, IN_PROGRESS} FAILED"
  by (intro quiet_move.intro phase_move_between quiet_move_axioms.intro) (auto simp: moves_between_def)

interpretation cancellation:
  quiet_move "moves_between {PENDING, WAITING_GATE, WAITING_USER, WAITING_TRIGGER, IN_PROGRESS} SKIPPED"
  by (intro quiet_move.intro phase_move_between quiet_move_axioms.intro) (auto simp: moves_between_def)

section \<open>The operations\<close>

lemma framed_evidence: "framed d (snd (insert_evidence row d))"
  by (simp add: framed_def insert_evidence_def)

text \<open>The guard of completion and failure: the row found is in a state with the transition.\<close>

lemma check_phase_action_None:
  assumes "unique_rows (phase_executions d)" "check_phase_action target run w p d = Inr None"
    "r \<in> set (phase_executions d)" "is_phase run w p r"
  shows "\<exists>c. pe_status r = state_value c \<and> is_valid_transition c target"
  using assms(2) select_one_unique [OF assms(1,3,4)]
  by (auto simp: check_phase_action_def phase_state_of_Some split: option.splits if_splits)

lemma on_phase_failed_moves:
  assumes unique: "unique_rows (phase_executions d)" and fail: "on_phase_failed now run w p by_id reason gate d = Inr (res, d')"
  shows "framed d d' \<and>
    moved (moves_between {WAITING_GATE, WAITING_TRIGGER, IN_PROGRESS} FAILED) (phase_executions d) (phase_executions d')"
proof -
  obtain m where m: "check_phase_action FAILED run w p d = Inr m"
    using fail by (cases "check_phase_action FAILED run w p d") (auto simp: on_phase_failed_def)
  show ?thesis
  proof (cases m)
    case (Some msg)
    with m fail have "d' = d" by (simp add: on_phase_failed_def)
    then show ?thesis by (simp add: framed_refl moved_refl)
  next
    case None
    then have guard: "\<exists>c\<in>{WAITING_GATE, WAITING_TRIGGER, IN_PROGRESS}. pe_status r = state_value c"
      if "r \<in> set (phase_executions d)" "is_phase run w p r" for r
      using check_phase_action_None [OF unique _ that, of FAILED] m unfolding valid_to_FAILED by blast
    from None m fail have d': "charters d' = charters d"
      "\<exists>f. charter_runs d' = update_rows (\<lambda>r. cr_id r = run) f (charter_runs d) \<and> (\<forall>x. run_ident (f x) = run_ident x)"
      "\<exists>f. phase_executions d' = update_rows (is_phase run w p) f (phase_executions d) \<and>
         (\<forall>r. row_ident (f r) = row_ident r \<and> pe_status (f r) = state_value FAILED)"
      by (auto simp: on_phase_failed_def run_ident_def row_ident_def)
    then have "framed d d'" by (auto simp: framed_def update_rows_def)
    moreover obtain f where "phase_executions d' = update_rows (is_phase run w p) f (phase_executions d)"
      "\<forall>r. row_ident (f r) = row_ident r \<and> pe_status (f r) = state_value FAILED" using d'(3) by blast
    ultimately show ?thesis
      using guard moved_update_rows [of "phase_executions d" "is_phase run w p" f] unfolding moves_between_def by auto
  qed
qed

lemma unblock_phase_moves:
  assumes "unblock_phase i now run t act ten data row d = (res, d')"
  shows "framed d d' \<and> moved (moves_between {WAITING_TRIGGER} IN_PROGRESS) (phase_executions d) (phase_executions d')"
proof -
  let ?P = "\<lambda>r. is_phase run (pe_workflow_name row) (pe_phase_name row) r \<and> pe_status r = state_value WAITING_TRIGGER"
  let ?u = "update_phases ?P (\<lambda>r. r\<lparr>pe_status := state_value IN_PROGRESS\<rparr>) d"
  have "d' = ?u \<or> (\<exists>e. d' = snd (insert_evidence e ?u))"
    using assms unfolding unblock_phase_def Let_def record_phase_evidence_def case_prod_beta
    by (auto split: if_splits)
  then have "charters d' = charters d \<and> charter_runs d' = charter_runs d \<and> phase_executions d' = phase_executions ?u"
    by (auto simp: insert_evidence_def)
  moreover have "moved (moves_between {WAITING_TRIGGER} IN_PROGRESS) (phase_executions d) (phase_executions ?u)"
    unfolding update_phases_frame by (rule moved_update_rows) (simp add: row_ident_def moves_between_def)
  ultimately show ?thesis by (simp add: framed_def)
qed

lemma moves_to_trigger_trans:
  "moves_to (moves_between {WAITING_TRIGGER} IN_PROGRESS) r r' \<Longrightarrow> moves_to (moves_between {WAITING_TRIGGER} IN_PROGRESS) r' r'' \<Longrightarrow>
   moves_to (moves_between {WAITING_TRIGGER} IN_PROGRESS) r r''"
  by (auto simp: moves_to_def moves_between_def)

lemma moved_trigger_trans:
  "moved (moves_between {WAITING_TRIGGER} IN_PROGRESS) rows rows' \<Longrightarrow>
   moved (moves_between {WAITING_TRIGGER} IN_PROGRESS) rows' rows'' \<Longrightarrow>
   moved (moves_between {WAITING_TRIGGER} IN_PROGRESS) rows rows''"
  by (rule list_all2_trans [rotated], assumption, assumption) (rule moves_to_trigger_trans)

lemma unblock_phases_moves:
  "unblock_phases ids now run t act ten data rows acc d = Inr (acc', d') \<Longrightarrow>
   framed d d' \<and> moved (moves_between {WAITING_TRIGGER} IN_PROGRESS) (phase_executions d) (phase_executions d')"
proof (induction ids now run t act ten data rows acc d rule: unblock_phases.induct)
  case (1 ids now run t act ten data acc d)
  then show ?case by (simp add: framed_refl moved_refl)
next
  case (2 ids now run t act ten data row rows unblocked evs d)
  obtain res d1 where u: "unblock_phase (ids 0) now run t act ten data row d = (res, d1)" by fastforce
  have valid: "is_valid_transition WAITING_TRIGGER IN_PROGRESS" by (simp add: transition_simps)
  have step: "framed d d1 \<and> moved (moves_between {WAITING_TRIGGER} IN_PROGRESS) (phase_executions d) (phase_executions d1)"
    by (rule unblock_phase_moves [OF u])
  have "framed d1 d' \<and> moved (moves_between {WAITING_TRIGGER} IN_PROGRESS) (phase_executions d1) (phase_executions d')"
    using "2.IH" "2.prems" u valid by (cases res) auto
  with step show ?case
    using framed_trans moved_trigger_trans by blast
qed

lemma fire_trigger_moves:
  "fire_trigger ids now run t act ten data d = Inr (res, d') \<Longrightarrow>
   framed d d' \<and> moved (moves_between {WAITING_TRIGGER} IN_PROGRESS) (phase_executions d) (phase_executions d')"
  using unblock_phases_moves [of ids now run t act ten data "matching_phases run t d" "([], [])" d]
  by (fastforce simp: fire_trigger_def split: if_splits)

lemma complete_charter_run_frame: "framed d (complete_charter_run now run outcome reason d)"
  unfolding complete_charter_run_def by (rule framed_update_runs) (simp add: run_ident_def)

lemma cancel_charter_run_moves:
  assumes "known_statuses (phase_executions d)"
  shows "framed d (cancel_charter_run now run by_id reason d) \<and>
    moved (moves_between {PENDING, WAITING_GATE, WAITING_USER, WAITING_TRIGGER, IN_PROGRESS} SKIPPED)
      (phase_executions d) (phase_executions (cancel_charter_run now run by_id reason d))"
proof -
  have "\<exists>c\<in>{PENDING, WAITING_GATE, WAITING_USER, WAITING_TRIGGER, IN_PROGRESS}. pe_status r = state_value c"
    if r: "r \<in> set (phase_executions d)" "pe_status r \<notin> terminal_statuses" for r
  proof -
    obtain c where "pe_status r = state_value c" using assms r(1) unfolding known_statuses_def by blast
    with r(2) show ?thesis by (cases c) (simp_all add: terminal_statuses_def)
  qed
  then have "moved (moves_between {PENDING, WAITING_GATE, WAITING_USER, WAITING_TRIGGER, IN_PROGRESS} SKIPPED)
      (phase_executions d) (phase_executions (cancel_charter_run now run by_id reason d))"
    unfolding cancel_charter_run_def complete_charter_run_def update_phases_frame update_runs_frame
    by (intro moved_update_rows) (simp add: row_ident_def moves_between_def)
  then show ?thesis
    unfolding cancel_charter_run_def
    using framed_trans [OF framed_update_phases complete_charter_run_frame] by blast
qed

section \<open>Completion\<close>

text \<open>The charter of the run.\<close>

definition run_charter :: "(string set \<Rightarrow> string list) \<Rightarrow> db \<Rightarrow> uuid \<Rightarrow> CharterNode \<Rightarrow> bool" where
  "run_charter it d run ast \<longleftrightarrow>
     (\<exists>x c. run_of d run = Some x \<and> fresh_compile it (cr_charter_id x) d = Inr c \<and> cc_ast c = ast)"

lemma run_charter_framed: "framed d d' \<Longrightarrow> run_charter it d run ast \<Longrightarrow> run_charter it d' run ast"
  using run_of_framed [of d d' run] fresh_compile_framed [of d d' it]
  by (cases "run_of d' run") (auto simp: run_charter_def run_ident_def)

lemma row_node_run_charter:
  "run_charter it d run ast \<Longrightarrow> pe_run_id r = run \<Longrightarrow>
   row_node it d r = get_phase_node ast (pe_workflow_name r) (pe_phase_name r)"
  by (auto simp: run_charter_def row_node_def)

lemma get_requires_phases_iff: "p \<in> set (get_requires_phases rs) \<longleftrightarrow> (\<exists>c. PhaseRef p c \<in> set rs)"
  by (induction rs rule: get_requires_phases.induct) auto

lemma rows_inv_activated:
  assumes inv: "rows_inv it d" and act: "activated run w ast d d'" and ch: "run_charter it d run ast"
  shows "rows_inv it d'"
proof -
  have f: "framed d d'" by (rule framed_activated [OF act])
  have m: "moved (activation run w ast d) (phase_executions d) (phase_executions d')"
    using act by (simp add: activated_def)
  have u: "unique_rows (phase_executions d)" and l: "rows_linked it d" using inv by (simp_all add: rows_inv_def)
  have deps: "completed_in (phase_executions d) (pe_run_id r) (pe_workflow_name r) p"
    if r: "r \<in> set (phase_executions d)" "activation run w ast d r s" "p \<in> set (pe_requires_phases r)" for r s p
  proof -
    obtain node where node: "get_phase_node ast w (pe_phase_name r) = Some node"
      "\<forall>q\<in>set (ph_requires node). require_holds run w d q" and key: "pe_run_id r = run" "pe_workflow_name r = w"
      using r(2) by (auto simp: activation_def)
    then have "row_node it d r = Some node" using row_node_run_charter [OF ch key(1)] by simp
    then have "p \<in> set (get_requires_phases (ph_requires node))" using l r(1,3) by (auto simp: rows_linked_def)
    then obtain c where "PhaseRef p c \<in> set (ph_requires node)" by (auto simp: get_requires_phases_iff)
    with node(2) key phase_completed_iff [OF u] show ?thesis by fastforce
  qed
  have "deps_ok (phase_executions d')"
    using deps_ok_moved [OF m] inv activation_statuses deps unfolding rows_inv_def by metis
  moreover have "known_statuses (phase_executions d')"
    by (rule known_statuses_moved [OF m]) (use inv in \<open>auto simp: rows_inv_def activation_def\<close>)
  ultimately show ?thesis
    using inv rows_linked_moved [OF f m] runs_full_moved [OF f m] moved_unique [OF m] framed_run_ids [OF f]
    unfolding rows_inv_def by simp
qed

lemma mark_completed_moves:
  assumes "unique_rows (phase_executions d)" "check_phase_action COMPLETED run w p d = Inr None"
    and d1_def: "d1 = mark_completed now run w p by_id notes act d"
  shows "framed d d1" "moved (moves_between {IN_PROGRESS} COMPLETED) (phase_executions d) (phase_executions d1)"
    "completed_in (phase_executions d1) run' w' p' \<Longrightarrow>
     completed_in (phase_executions d) run' w' p' \<or> run' = run \<and> w' = w \<and> p' = p"
proof -
  have "pe_status r = state_value IN_PROGRESS" if "r \<in> set (phase_executions d)" "is_phase run w p r" for r
    using check_phase_action_None [OF assms(1,2) that] by (auto simp: valid_to_COMPLETED)
  then show "moved (moves_between {IN_PROGRESS} COMPLETED) (phase_executions d) (phase_executions d1)"
    unfolding d1_def mark_completed_def update_phases_frame update_runs_frame
    by (intro moved_update_rows) (simp add: row_ident_def moves_between_def)
  show "framed d d1"
    unfolding d1_def mark_completed_def
    by (rule framed_trans [OF framed_update_phases framed_update_runs]) (simp add: run_ident_def)
  show "completed_in (phase_executions d1) run' w' p' \<Longrightarrow>
     completed_in (phase_executions d) run' w' p' \<or> run' = run \<and> w' = w \<and> p' = p"
    by (auto simp: completed_in_def d1_def mark_completed_def update_rows_def is_phase_def split: if_splits)
qed

lemma on_phase_completed_stages:
  assumes "on_phase_completed now run w p by_id ast notes act d = Inr (res, d')"
  shows "d' = d \<or> check_phase_action COMPLETED run w p d = Inr None \<and>
    (let d2 = snd (activate_downstream now run w ast (find_downstream_phases ast w p) empty_result
                (mark_completed now run w p by_id notes act d))
     in phase_executions d' = phase_executions d2 \<and> framed d2 d' \<and>
        (cas_workflow_complete res \<longleftrightarrow> is_workflow_complete run w d') \<and>
        (charter_runs d' = (if cas_workflow_complete res then charter_runs (finish_charter_run now run d2) else charter_runs d2)))"
proof -
  obtain m where m: "check_phase_action COMPLETED run w p d = Inr m"
    using assms by (cases "check_phase_action COMPLETED run w p d") (auto simp: on_phase_completed_def)
  have finish: "framed d (finish_charter_run now run d)" for d
    unfolding finish_charter_run_def by (rule framed_update_runs) (simp add: run_ident_def)
  have phases: "phase_executions (finish_charter_run now run d) = phase_executions d" for d
    by (simp add: finish_charter_run_def)
  then have complete: "is_workflow_complete run w (finish_charter_run now run d) = is_workflow_complete run w d" for d
    by (simp add: is_workflow_complete_def)
  show ?thesis
    using assms m finish
    by (cases m) (auto simp: on_phase_completed_def Let_def phases complete framed_refl split: prod.splits if_splits)
qed

text \<open>A compiled charter has one workflow of each name, so the two ways of looking up a phase agree.\<close>

lemma fresh_compile_valid:
  assumes "fresh_compile it cid d = Inr c"
  obtains r where "valid_charter no_registries (cc_ast c)" "resolve no_registries it (cc_ast c) = Inr r"
    "cc_phase_order c = rv_phase_order r"
proof -
  obtain src where "compile_charter no_registries it src = Inr c"
    using assms by (auto simp: fresh_compile_def split: option.splits sum.splits)
  then obtain r where "resolve no_registries it (cc_ast c) = Inr r" "cc_phase_order c = rv_phase_order r"
    by (rule compile_Inr)
  with that resolve_accepts_iff show thesis by blast
qed

lemma filter_single: "distinct (map f xs) \<Longrightarrow> filter (\<lambda>x. f x = k) xs = (case find_first (\<lambda>x. f x = k) xs of None \<Rightarrow> [] | Some x \<Rightarrow> [x])"
proof (induction xs)
  case (Cons x xs)
  have "filter (\<lambda>y. f y = k) xs = []" if "f x = k"
    using that Cons.prems by (auto simp: filter_empty_conv image_iff)
  with Cons show ?case by auto
qed simp

lemma get_phase_node_workflow:
  assumes "distinct (map wf_name (ch_workflows ast))"
  shows "get_phase_node ast w p =
    (case get_workflow ast w of None \<Rightarrow> None | Some wfl \<Rightarrow> find_first (\<lambda>q. ph_name q = p) (wf_phases wfl))"
  by (simp add: get_phase_node_def get_workflow_def filter_single [OF assms] split: option.split)

lemma downstream_of_require:
  assumes "distinct (map wf_name (ch_workflows ast))" "get_phase_node ast w n = Some node" "PhaseRef p c \<in> set (ph_requires node)"
  shows "n \<in> set (find_downstream_phases ast w p)"
proof -
  obtain wfl where wfl: "get_workflow ast w = Some wfl" "find_first (\<lambda>q. ph_name q = n) (wf_phases wfl) = Some node"
    using assms(2) by (auto simp: get_phase_node_workflow [OF assms(1)] split: option.splits)
  then have "node \<in> set (wf_phases wfl)" "ph_name node = n" using find_first_Some [OF wfl(2)] by simp_all
  with wfl(1) assms(3) show ?thesis
    by (force simp: find_downstream_phases_def list_ex_iff intro: bexI [of _ "PhaseRef p c"])
qed

lemma plain_requires_hold:
  assumes "plain_requires node" "\<forall>p\<in>set (get_requires_phases (ph_requires node)). phase_completed run w p d"
  shows "\<forall>q\<in>set (ph_requires node). require_holds run w d q"
proof
  fix q assume q: "q \<in> set (ph_requires node)"
  with assms(1) have "case q of PhaseRef p c \<Rightarrow> c \<in> {''passed'', ''complete''} | _ \<Rightarrow> False"
    by (simp add: plain_requires_def list_all_iff)
  then obtain p c where "q = PhaseRef p c" "c \<in> {''passed'', ''complete''}" by (cases q) auto
  with q assms(2) show "require_holds run w d q" by (auto simp: get_requires_phases_iff)
qed

lemma none_forgotten_completed:
  assumes inv: "rows_inv it d" and forgot: "none_forgotten it d" and ch: "run_charter it d run ast"
    and check: "check_phase_action COMPLETED run w p d = Inr None"
    and d1: "d1 = mark_completed now run w p by_id notes act d"
    and d2: "d2 = snd (activate_downstream now run w ast (find_downstream_phases ast w p) res d1)"
  shows "none_forgotten it d2"
  unfolding none_forgotten_def
proof (intro ballI allI impI)
  fix r2 node
  assume r2: "r2 \<in> set (phase_executions d2)" "pe_status r2 = state_value PENDING" "row_node it d2 r2 = Some node"
    "plain_requires node"
  let ?T = "moves_between {IN_PROGRESS} COMPLETED"
  have u: "unique_rows (phase_executions d)" using inv by (simp add: rows_inv_def)
  note mark = mark_completed_moves [OF u check d1]
  have u1: "unique_rows (phase_executions d1)" using moved_unique [OF mark(2)] u by simp
  have act: "activated run w ast d1 d2" unfolding d2 by (rule activate_downstream_activated [OF u1])
  then have m2: "moved (activation run w ast d1) (phase_executions d1) (phase_executions d2)" by (simp add: activated_def)
  have f: "framed d d2" using framed_trans [OF mark(1) framed_activated [OF act]] .
  obtain r1 where r1: "r1 \<in> set (phase_executions d1)" "moves_to (activation run w ast d1) r1 r2"
    using moved_source [OF m2 r2(1)] by blast
  obtain r where r: "r \<in> set (phase_executions d)" "moves_to ?T r r1" using moved_source [OF mark(2) r1(1)] by blast
  have st1: "pe_status r1 = state_value PENDING"
    using r1(2) r2(2) activation_statuses [of run w ast d1 r1 "pe_status r2"] unfolding moves_to_def by metis
  have st: "pe_status r = state_value PENDING" using r(2) st1 by (auto simp: moves_to_def moves_between_def)
  have i: "row_ident r1 = row_ident r2" "row_ident r = row_ident r2" using r(2) r1(2) by (simp_all add: moves_to_def)
  then have id: "pe_run_id r = pe_run_id r2" "pe_workflow_name r = pe_workflow_name r2"
    "pe_phase_name r = pe_phase_name r2" "pe_requires_phases r = pe_requires_phases r2"
    by (simp_all add: row_ident_def)
  have node: "row_node it d r = Some node" using row_node_framed [OF f i(2) [symmetric]] r2(3) by simp
  then have reqs: "pe_requires_phases r2 = get_requires_phases (ph_requires node)"
    using inv r(1) id by (auto simp: rows_inv_def rows_linked_def)
  obtain q where q: "q \<in> set (pe_requires_phases r2)"
    "\<not> completed_in (phase_executions d) (pe_run_id r2) (pe_workflow_name r2) q"
    using forgot r(1) st node r2(4) id unfolding none_forgotten_def by metis
  show "\<exists>q\<in>set (pe_requires_phases r2). \<not> completed_in (phase_executions d2) (pe_run_id r2) (pe_workflow_name r2) q"
  proof (rule ccontr)
    assume "\<not> ?thesis"
    then have all2: "\<forall>q\<in>set (pe_requires_phases r2). completed_in (phase_executions d1) (pe_run_id r2) (pe_workflow_name r2) q"
      using completed_in_back [OF m2] activation_statuses by metis
    with q mark(3) [of "pe_run_id r2" "pe_workflow_name r2" q] have key: "pe_run_id r2 = run" "pe_workflow_name r2 = w" "q = p"
      by blast+
    have get: "get_phase_node ast w (pe_phase_name r2) = Some node"
      using row_node_run_charter [OF ch, of r] id key node by simp
    have "distinct (map wf_name (ch_workflows ast))"
      using ch fresh_compile_valid unfolding run_charter_def valid_charter_def by metis
    then have down: "pe_phase_name r2 \<in> set (find_downstream_phases ast w p)"
      using downstream_of_require [OF _ get] q(1) key(3) reqs by (auto simp: get_requires_phases_iff)
    have "\<forall>q\<in>set (ph_requires node). require_holds run w d1 q"
      using plain_requires_hold [OF r2(4)] all2 key reqs phase_completed_iff [OF u1] by auto
    from activate_downstream_ready [OF u1 down get this, of now res]
    have "\<not> pending_in (phase_executions d2) run w (pe_phase_name r2)" unfolding d2 .
    with r2(1,2) key show False by (auto simp: pending_in_def is_phase_def)
  qed
qed

end
