(* ===== verification/Run_Start.thy ===== *)
theory Run_Start
  imports Runtime_Invariants
begin

text \<open>
  What \<open>start_workflow\<close> leaves in the database: one row per phase of the workflow in the order of the compiled
  charter, the entry phases WAITING\_USER and the others PENDING, and the rows of other runs untouched; and that
  the invariants of the phase executions hold after it.
\<close>

section \<open>Starting a run\<close>

lemma foldl_activate_entry:
  "phase_executions (foldl (\<lambda>d p. activate_entry_phase now run p d) d ps) =
     update_rows (\<lambda>r. pe_run_id r = run \<and> pe_phase_name r \<in> set ps)
       (\<lambda>r. r\<lparr>pe_status := state_value WAITING_USER, pe_activated_at := Some now, pe_updated_at := now\<rparr>)
       (phase_executions d) \<and>
   charters (foldl (\<lambda>d p. activate_entry_phase now run p d) d ps) = charters d \<and>
   charter_runs (foldl (\<lambda>d p. activate_entry_phase now run p d) d ps) = charter_runs d"
  by (induction ps arbitrary: d) (auto simp: activate_entry_phase_def update_rows_def)

lemma update_rows_append: "update_rows P f (xs @ ys) = update_rows P f xs @ update_rows P f ys"
  by (simp add: update_rows_def)

lemma dict_set_new: "k \<notin> fst ` set m \<Longrightarrow> dict_set k v m = m @ [(k, v)]"
  by (induction k v m rule: dict_set.induct) auto

lemma enumerate_map: "enumerate n (map f xs) = map (\<lambda>(i, x). (i, f x)) (enumerate n xs)"
  by (induction xs arbitrary: n) auto

lemma enumerate_enumerate: "enumerate n (enumerate n xs) = map (\<lambda>(i, x). (i, i, x)) (enumerate n xs)"
  by (induction xs arbitrary: n) auto

lemma build_phase_map_append:
  assumes "distinct order" "set order \<subseteq> names phases" "set order \<inter> fst ` set m = {}"
  shows "build_phase_map n order phases m =
    m @ map (\<lambda>(i, name). (name, the (find_first (\<lambda>p. ph_name p = name) phases), i)) (enumerate n order)"
  using assms
proof (induction order arbitrary: n m)
  case (Cons name order)
  have "find_first (\<lambda>p. ph_name p = name) phases \<noteq> None"
    using Cons.prems(2) by (auto simp: find_first_None_iff)
  then obtain p where p: "find_first (\<lambda>p. ph_name p = name) phases = Some p" by blast
  have "dict_set name (p, n) m = m @ [(name, p, n)]" using Cons.prems(3) by (simp add: dict_set_new)
  then show ?case using Cons p by simp
qed simp

text \<open>The rows a start creates: PENDING, or WAITING\_USER for an entry phase.\<close>

definition started_phase ::
  "(nat \<Rightarrow> uuid) \<Rightarrow> timestamp \<Rightarrow> uuid \<Rightarrow> compiled \<Rightarrow> string \<Rightarrow> WorkflowNode \<Rightarrow> nat \<Rightarrow> string \<Rightarrow> phase_row" where
  "started_phase ids now tenant_id c w wfl i name =
    (let node = the (find_first (\<lambda>p. ph_name p = name) (wf_phases wfl));
         r = new_phase_row (ids (Suc i)) now tenant_id (ids 0) c w name node i
     in if get_requires_phases (ph_requires node) = []
        then r\<lparr>pe_status := state_value WAITING_USER, pe_activated_at := Some now, pe_updated_at := now\<rparr> else r)"

lemma started_phase_simps [simp]:
  "pe_run_id (started_phase ids now ten c w wfl i name) = ids 0"
  "pe_workflow_name (started_phase ids now ten c w wfl i name) = w"
  "pe_phase_name (started_phase ids now ten c w wfl i name) = name"
  "pe_requires_phases (started_phase ids now ten c w wfl i name) =
     get_requires_phases (ph_requires (the (find_first (\<lambda>p. ph_name p = name) (wf_phases wfl))))"
  "pe_status (started_phase ids now ten c w wfl i name) =
     (if get_requires_phases (ph_requires (the (find_first (\<lambda>p. ph_name p = name) (wf_phases wfl)))) = []
      then state_value WAITING_USER else state_value PENDING)"
  by (simp_all add: started_phase_def new_phase_row_def Let_def)

lemma find_phase:
  assumes "distinct (map ph_name phases)" "p \<in> set phases"
  shows "find_first (\<lambda>q. ph_name q = ph_name p) phases = Some p"
  using assms by (intro find_first_unique) (auto simp: distinct_map inj_on_def)

lemma compiled_workflow:
  assumes c: "fresh_compile it cid d = Inr c" and wfl: "get_workflow (cc_ast c) w = Some wfl"
  shows "distinct (map wf_name (ch_workflows (cc_ast c)))" "distinct (map ph_name (wf_phases wfl))"
    "\<exists>order. map_of (cc_phase_order c) w = Some order \<and> distinct order \<and> set order = names (wf_phases wfl) \<and>
       (\<forall>p\<in>set (wf_phases wfl). \<forall>q\<in>set (get_requires_phases (ph_requires p)). precedes order q (ph_name p))"
proof -
  obtain r where valid: "valid_charter no_registries (cc_ast c)" and r: "resolve no_registries it (cc_ast c) = Inr r"
    and o: "cc_phase_order c = rv_phase_order r" by (rule fresh_compile_valid [OF c])
  have w: "wfl \<in> set (ch_workflows (cc_ast c))" "wf_name wfl = w"
    using find_first_Some [of "\<lambda>x. wf_name x = w" "ch_workflows (cc_ast c)" wfl] wfl by (simp_all add: get_workflow_def)
  show "distinct (map wf_name (ch_workflows (cc_ast c)))" using valid by (simp add: valid_charter_def)
  have vw: "valid_workflow no_registries (cc_ast c) (allowed_phrases no_registries (cc_ast c)) wfl"
    using valid w(1) by (simp add: valid_charter_def)
  then show "distinct (map ph_name (wf_phases wfl))" by (simp add: valid_workflow_def)
  obtain order where order: "map_of (rv_phase_order r) (wf_name wfl) = Some order"
    "topological_sort it (wf_phases wfl) = Inr order" by (rule resolved_order [OF r w(1)])
  have "precedes order q (ph_name p)"
    if p: "p \<in> set (wf_phases wfl)" "q \<in> set (get_requires_phases (ph_requires p))" for p q
  proof -
    obtain cond where req: "PhaseRef q cond \<in> set (ph_requires p)" using p(2) by (auto simp: get_requires_phases_iff)
    then have "valid_require no_registries (names (wf_phases wfl)) (tr_name ` set (ch_triggers (cc_ast c)))
        (allowed_phrases no_registries (cc_ast c)) (PhaseRef q cond)"
      using vw p(1) unfolding valid_workflow_def valid_phase_def Let_def by blast
    then have "(q, ph_name p) \<in> set (edges (wf_phases wfl))" using p(1) req by (auto simp: edges_iff)
    then show ?thesis by (rule topological_sort_Inr(3) [OF order(2)])
  qed
  with order topological_sort_Inr(1,2) [OF order(2)] o w(2)
  show "\<exists>order. map_of (cc_phase_order c) w = Some order \<and> distinct order \<and> set order = names (wf_phases wfl) \<and>
       (\<forall>p\<in>set (wf_phases wfl). \<forall>q\<in>set (get_requires_phases (ph_requires p)). precedes order q (ph_name p))"
    by (intro exI [of _ order]) simp
qed

lemma entry_phase_iff:
  assumes "get_workflow (cc_ast c) w = Some wfl" "distinct (map ph_name (wf_phases wfl))" "name \<in> names (wf_phases wfl)"
  shows "name \<in> set (get_entry_phases c w) \<longleftrightarrow>
    get_requires_phases (ph_requires (the (find_first (\<lambda>p. ph_name p = name) (wf_phases wfl)))) = []"
proof -
  obtain p where p: "p \<in> set (wf_phases wfl)" "ph_name p = name" using assms(3) by auto
  have "name \<in> set (get_entry_phases c w) \<longleftrightarrow> get_requires_phases (ph_requires p) = []"
    using p assms(1,2) by (auto simp: get_entry_phases_def distinct_map inj_on_def image_iff)
  with find_phase [OF assms(2) p(1)] p(2) show ?thesis by simp
qed

lemma create_run_effect:
  assumes wfl: "get_workflow (cc_ast c) w = Some wfl" "distinct (map ph_name (wf_phases wfl))"
    and order: "distinct order" "set order = names (wf_phases wfl)"
    and fresh: "\<And>r. r \<in> set (phase_executions d) \<Longrightarrow> pe_run_id r \<noteq> ids 0"
    and d': "d' = create_run ids now c order wfl cid subj rt rid w by_id ten ctx d"
  shows "charters d' = charters d"
    "charter_runs d' = charter_runs d @ [new_run (ids 0) now cid subj rt rid w by_id ten ctx]"
    "phase_executions d' = phase_executions d @
       map (\<lambda>(i, name). started_phase ids now ten c w wfl i name) (enumerate 0 order)"
proof -
  let ?f = "\<lambda>r. r\<lparr>pe_status := state_value WAITING_USER, pe_activated_at := Some now, pe_updated_at := now\<rparr>"
  let ?P = "\<lambda>r. pe_run_id r = ids 0 \<and> pe_phase_name r \<in> set (get_entry_phases c w)"
  show "charters d' = charters d" "charter_runs d' = charter_runs d @ [new_run (ids 0) now cid subj rt rid w by_id ten ctx]"
    by (simp_all add: d' create_run_def Let_def foldl_activate_entry)
  have old: "update_rows ?P ?f (phase_executions d) = phase_executions d"
    by (rule update_rows_none) (simp add: fresh)
  have new: "update_rows ?P ?f
      (map (\<lambda>(i, name). new_phase_row (ids (Suc i)) now ten (ids 0) c w name
         (the (find_first (\<lambda>p. ph_name p = name) (wf_phases wfl))) i) (enumerate 0 order)) =
    map (\<lambda>(i, name). started_phase ids now ten c w wfl i name) (enumerate 0 order)"
    unfolding update_rows_def list.map_comp
  proof (rule map_cong [OF refl])
    fix x assume "x \<in> set (enumerate 0 order)"
    then have "snd x \<in> set order" by (metis enumerate_eq_zip in_set_zipE prod.collapse)
    then have "snd x \<in> names (wf_phases wfl)" using order(2) by (simp only:)
    from entry_phase_iff [OF wfl this]
    show "((\<lambda>r. if ?P r then ?f r else r) \<circ> (\<lambda>(i, name). new_phase_row (ids (Suc i)) now ten (ids 0) c w name
         (the (find_first (\<lambda>p. ph_name p = name) (wf_phases wfl))) i)) x =
      (case x of (i, name) \<Rightarrow> started_phase ids now ten c w wfl i name)"
      by (auto simp: started_phase_def new_phase_row_def Let_def split: prod.split)
  qed
  have pm: "build_phase_map 0 order (wf_phases wfl) [] =
      map (\<lambda>(i, name). (name, the (find_first (\<lambda>p. ph_name p = name) (wf_phases wfl)), i)) (enumerate 0 order)"
    using build_phase_map_append [of order "wf_phases wfl" "[]" 0] order by simp
  show "phase_executions d' = phase_executions d @
       map (\<lambda>(i, name). started_phase ids now ten c w wfl i name) (enumerate 0 order)"
    unfolding d' create_run_def Let_def pm
    using old new by (simp add: foldl_activate_entry enumerate_map enumerate_enumerate update_rows_append comp_def case_prod_unfold)
qed

text \<open>The state after a start: the old rows as they were, and the rows of the new run.\<close>

definition run_started ::
  "(string set \<Rightarrow> string list) \<Rightarrow> (nat \<Rightarrow> uuid) \<Rightarrow> timestamp \<Rightarrow> uuid \<Rightarrow> string \<Rightarrow> uuid \<Rightarrow> compiled \<Rightarrow> WorkflowNode \<Rightarrow>
   string list \<Rightarrow> db \<Rightarrow> db \<Rightarrow> bool" where
  "run_started it ids now cid w ten c wfl order d d' \<longleftrightarrow>
     fresh_compile it cid d = Inr c \<and> get_workflow (cc_ast c) w = Some wfl \<and> distinct order \<and>
     set order = names (wf_phases wfl) \<and> ids 0 \<notin> cr_id ` set (charter_runs d) \<and> charters d' = charters d \<and>
     (\<exists>x. charter_runs d' = charter_runs d @ [x] \<and> run_ident x = (ids 0, cid, w)) \<and>
     phase_executions d' = phase_executions d @
       map (\<lambda>(i, name). started_phase ids now ten c w wfl i name) (enumerate 0 order)"

lemma rows_have_runs:
  assumes "rows_linked it d" "r \<in> set (phase_executions d)"
  shows "pe_run_id r \<in> cr_id ` set (charter_runs d)"
proof -
  obtain x where "run_of d (pe_run_id r) = Some x"
    using assms by (fastforce simp: rows_linked_def row_node_def split: option.splits)
  then have "x \<in> set (charter_runs d)" "cr_id x = pe_run_id r"
    using select_one_Some [of "\<lambda>x. cr_id x = pe_run_id r" "charter_runs d" x] by (simp_all add: run_of_def)
  then show ?thesis by (metis image_eqI)
qed

lemma start_workflow_run_started:
  assumes inv: "rows_inv it d" and cache: "cache_coherent it source_of reg" "hashes_ok source_of d"
    and start: "start_workflow it ids now cid subj rt rid w by_id ten ctx reg d = (Inr (run, d'), reg')"
    and fresh: "ids 0 \<notin> cr_id ` set (charter_runs d)"
  shows "run = ids 0 \<and> cache_coherent it source_of reg' \<and>
    (\<exists>c wfl order. map_of (cc_phase_order c) w = Some order \<and> run_started it ids now cid w ten c wfl order d d')"
proof -
  obtain c where get: "registry_get it now cid d reg = Inr (c, reg')"
    using start by (auto simp: start_workflow_def split: sum.splits option.splits)
  then have c: "fresh_compile it cid d = Inr c" and reg': "cache_coherent it source_of reg'"
    using registry_get_refines [OF cache, of now cid] by auto
  obtain order wfl where o: "map_of (cc_phase_order c) w = Some order" and wfl: "get_workflow (cc_ast c) w = Some wfl"
    and d': "d' = create_run ids now c order wfl cid subj rt rid w by_id ten ctx d" and run: "run = ids 0"
    using start get by (auto simp: start_workflow_def split: option.splits)
  note cw = compiled_workflow [OF c wfl]
  have "distinct order" "set order = names (wf_phases wfl)" using cw(3) o by auto
  moreover have "pe_run_id r \<noteq> ids 0" if "r \<in> set (phase_executions d)" for r
    using rows_have_runs [OF _ that] inv fresh unfolding rows_inv_def by metis
  ultimately have "run_started it ids now cid w ten c wfl order d d'"
    using create_run_effect [OF wfl cw(2) _ _ _ d'] c wfl fresh
    unfolding run_started_def by (simp add: new_run_def run_ident_def)
  with o run reg' show ?thesis by blast
qed

lemma started_rows:
  assumes "run_started it ids now cid w ten c wfl order d d'" "r \<in> set (phase_executions d')"
    "r \<notin> set (phase_executions d)"
  obtains i node where "r = started_phase ids now ten c w wfl i (ph_name node)" "node \<in> set (wf_phases wfl)"
    "find_first (\<lambda>p. ph_name p = ph_name node) (wf_phases wfl) = Some node"
proof -
  obtain i name where r: "r = started_phase ids now ten c w wfl i name" "(i, name) \<in> set (enumerate 0 order)"
    using assms by (auto simp: run_started_def)
  then have "name \<in> set order" by (metis enumerate_eq_zip in_set_zipE)
  then obtain node where node: "node \<in> set (wf_phases wfl)" "ph_name node = name"
    using assms(1) by (auto simp: run_started_def)
  have "distinct (map ph_name (wf_phases wfl))"
    using compiled_workflow(2) assms(1) unfolding run_started_def by blast
  with that r(1) node find_phase show thesis by blast
qed

lemma row_node_started_old:
  assumes "run_started it ids now cid w ten c wfl order d d'" "rows_linked it d" "r \<in> set (phase_executions d)"
  shows "row_node it d' r = row_node it d r"
proof -
  obtain x where x: "run_of d (pe_run_id r) = Some x"
    using assms(2,3) by (fastforce simp: rows_linked_def row_node_def split: option.splits)
  then have "run_of d' (pe_run_id r) = Some x"
    using assms(1) by (auto simp: run_of_def select_one_find run_started_def find_first_append)
  with x show ?thesis using assms(1) by (simp add: row_node_def run_started_def fresh_compile_def charter_row_of_def)
qed

lemma row_node_started_new:
  assumes st: "run_started it ids now cid w ten c wfl order d d'"
    and node: "find_first (\<lambda>p. ph_name p = ph_name node) (wf_phases wfl) = Some node"
  shows "row_node it d' (started_phase ids now ten c w wfl i (ph_name node)) = Some node"
proof -
  obtain x where x: "charter_runs d' = charter_runs d @ [x]" "run_ident x = (ids 0, cid, w)"
    using st by (auto simp: run_started_def)
  have "find_first (\<lambda>x. cr_id x = ids 0) (charter_runs d) = None"
    using st unfolding run_started_def find_first_None_iff by (metis image_eqI)
  then have "run_of d' (ids 0) = Some x"
    using x by (simp add: run_of_def select_one_find find_first_append run_ident_def)
  moreover have c: "fresh_compile it cid d' = Inr c"
    using st by (simp add: run_started_def fresh_compile_def charter_row_of_def)
  moreover have "get_phase_node (cc_ast c) w (ph_name node) = Some node"
    using st node get_phase_node_workflow [OF compiled_workflow(1)] unfolding run_started_def by fastforce
  ultimately show ?thesis using x(2) by (simp add: row_node_def run_ident_def)
qed

lemma completed_in_started:
  assumes "run_started it ids now cid w ten c wfl order d d'"
  shows "completed_in (phase_executions d') run w' p \<longleftrightarrow> completed_in (phase_executions d) run w' p"
proof -
  have "pe_status r \<noteq> state_value COMPLETED" if "r \<in> set (phase_executions d')" "r \<notin> set (phase_executions d)" for r
    by (rule started_rows [OF assms that]) auto
  moreover have "set (phase_executions d) \<subseteq> set (phase_executions d')" using assms by (simp add: run_started_def)
  ultimately show ?thesis unfolding completed_in_def by blast
qed

lemma started_old_runs:
  assumes "run_started it ids now cid w ten c wfl order d d'" "rows_linked it d" "r \<in> set (phase_executions d)"
  shows "pe_run_id r \<noteq> ids 0"
  using rows_have_runs [OF assms(2,3)] assms(1) unfolding run_started_def by metis

lemma started_keys:
  "map row_key (map (\<lambda>(i, name). started_phase ids now ten c w wfl i name) (enumerate 0 order)) =
   map (\<lambda>name. (ids 0, w, name)) order"
  by (intro nth_equalityI) (simp_all add: row_key_def nth_enumerate_eq)

lemma started_unique:
  assumes st: "run_started it ids now cid w ten c wfl order d d'" and linked: "rows_linked it d"
    and u: "unique_rows (phase_executions d)"
  shows "unique_rows (phase_executions d')"
proof -
  let ?new = "map (\<lambda>(i, name). started_phase ids now ten c w wfl i name) (enumerate 0 order)"
  have "distinct (map row_key ?new)"
    using st unfolding started_keys by (simp add: run_started_def distinct_map inj_on_def)
  moreover have "set (map row_key (phase_executions d)) \<inter> set (map row_key ?new) = {}"
    using started_old_runs [OF st linked] unfolding started_keys by (auto simp: row_key_def)
  moreover have "phase_executions d' = phase_executions d @ ?new" using st by (simp add: run_started_def)
  ultimately show ?thesis using u unfolding unique_rows_def by (simp only: map_append distinct_append simp_thms)
qed

text \<open>A property of all rows after a start: it holds of the old rows and of the new ones.\<close>

lemma started_cases:
  assumes st: "run_started it ids now cid w ten c wfl order d d'"
    and old: "\<And>r. r \<in> set (phase_executions d) \<Longrightarrow> P r"
    and new: "\<And>i node. node \<in> set (wf_phases wfl) \<Longrightarrow> find_first (\<lambda>p. ph_name p = ph_name node) (wf_phases wfl) = Some node \<Longrightarrow>
      P (started_phase ids now ten c w wfl i (ph_name node))"
  shows "\<forall>r\<in>set (phase_executions d'). P r"
proof
  fix r assume r: "r \<in> set (phase_executions d')"
  show "P r"
  proof (cases "r \<in> set (phase_executions d)")
    case True
    then show ?thesis by (rule old)
  next
    case False
    show ?thesis by (rule started_rows [OF st r False]) (simp add: new)
  qed
qed

lemma started_linked:
  assumes st: "run_started it ids now cid w ten c wfl order d d'" and linked: "rows_linked it d"
  shows "rows_linked it d'"
  unfolding rows_linked_def
  by (rule started_cases [OF st])
    (use linked row_node_started_old [OF st linked] in \<open>simp_all add: rows_linked_def row_node_started_new [OF st]\<close>)

lemma started_known:
  assumes st: "run_started it ids now cid w ten c wfl order d d'" and known: "known_statuses (phase_executions d)"
  shows "known_statuses (phase_executions d')"
  unfolding known_statuses_def
proof (rule started_cases [OF st])
  show "\<exists>t. t \<noteq> WAITING_GATE \<and> pe_status r = state_value t" if "r \<in> set (phase_executions d)" for r
    using known that by (simp add: known_statuses_def)
  show "\<exists>t. t \<noteq> WAITING_GATE \<and> pe_status (started_phase ids now ten c w wfl i (ph_name node)) = state_value t" for i node
    unfolding started_phase_simps by (metis PhaseState.distinct(1) PhaseState.distinct(15))
qed

lemma started_deps:
  assumes st: "run_started it ids now cid w ten c wfl order d d'" and deps: "deps_ok (phase_executions d)"
  shows "deps_ok (phase_executions d')"
  unfolding deps_ok_def completed_in_started [OF st]
  by (rule started_cases [OF st]) (use deps in \<open>auto simp: deps_ok_def\<close>)

lemma started_full:
  assumes st: "run_started it ids now cid w ten c wfl order d d'" and linked: "rows_linked it d" and full: "runs_full it d"
  shows "runs_full it d'"
  unfolding runs_full_def
proof
  fix y assume y: "y \<in> set (charter_runs d')"
  let ?keys = "\<lambda>rows. {(pe_workflow_name r, pe_phase_name r) | r. r \<in> set rows \<and> pe_run_id r = cr_id y}"
  let ?new = "map (\<lambda>(i, name). started_phase ids now ten c w wfl i name) (enumerate 0 order)"
  have rows: "phase_executions d' = phase_executions d @ ?new" using st by (simp add: run_started_def)
  have fc: "fresh_compile it (cr_charter_id y) d' = fresh_compile it (cr_charter_id y) d"
    using st by (simp add: run_started_def fresh_compile_def charter_row_of_def)
  show "\<exists>c w. fresh_compile it (cr_charter_id y) d' = Inr c \<and>
      get_workflow (cc_ast c) (cr_current_workflow y) = Some w \<and>
      ?keys (phase_executions d') = {cr_current_workflow y} \<times> names (wf_phases w)"
  proof (cases "y \<in> set (charter_runs d)")
    case True
    then have "cr_id y \<noteq> ids 0" using st unfolding run_started_def by (metis image_eqI)
    then have "?keys (phase_executions d') = ?keys (phase_executions d)" unfolding rows by auto
    with full True fc show ?thesis by (simp add: runs_full_def)
  next
    case False
    then have "run_ident y = (ids 0, cid, w)" using y st by (auto simp: run_started_def)
    then have id: "cr_id y = ids 0" "cr_charter_id y = cid" "cr_current_workflow y = w"
      by (simp_all add: run_ident_def)
    have "?keys (phase_executions d') = (\<lambda>(a, b, c). (b, c)) ` set (map row_key ?new)"
      using started_old_runs [OF st linked] id(1) unfolding rows by (force simp: row_key_def)
    also have "\<dots> = {w} \<times> set order" unfolding started_keys by force
    finally show ?thesis using st fc id by (simp add: run_started_def)
  qed
qed

lemma started_keeps_rows_inv:
  assumes st: "run_started it ids now cid w ten c wfl order d d'" and inv: "rows_inv it d"
  shows "rows_inv it d'"
proof -
  have "distinct (map cr_id (charter_runs d'))"
    using inv st by (auto simp: rows_inv_def run_started_def run_ident_def)
  with inv show ?thesis
    unfolding rows_inv_def
    using started_unique [OF st] started_linked [OF st] started_known [OF st] started_deps [OF st] started_full [OF st]
    by blast
qed

lemma started_keeps_none_forgotten:
  assumes st: "run_started it ids now cid w ten c wfl order d d'" and inv: "rows_inv it d" and ok: "none_forgotten it d"
  shows "none_forgotten it d'"
  unfolding none_forgotten_def completed_in_started [OF st]
proof (intro ballI allI impI)
  fix r node
  assume r: "r \<in> set (phase_executions d')" "pe_status r = state_value PENDING" "row_node it d' r = Some node" "plain_requires node"
  have linked: "rows_linked it d" using inv by (simp add: rows_inv_def)
  show "\<exists>p\<in>set (pe_requires_phases r). \<not> completed_in (phase_executions d) (pe_run_id r) (pe_workflow_name r) p"
  proof (cases "r \<in> set (phase_executions d)")
    case True
    then show ?thesis using ok r row_node_started_old [OF st linked True] unfolding none_forgotten_def by auto
  next
    case False
    have run: "pe_run_id r = ids 0" and ne: "pe_requires_phases r \<noteq> []"
      by (rule started_rows [OF st r(1) False], use r(2) in \<open>auto split: if_splits\<close>)+
    have "\<not> completed_in (phase_executions d) (ids 0) w' p" for w' p
      using rows_have_runs [OF linked] st unfolding run_started_def completed_in_def is_phase_def by metis
    with run ne show ?thesis by (cases "pe_requires_phases r") auto
  qed
qed

end
