(* ===== verification/Runtime_Steps.thy ===== *)
theory Runtime_Steps
  imports Run_Start
begin

text \<open>
  The runtime as a state machine: the operations of \<open>libs/canon/src/canon/runtime/\<close> as steps on the registry and
  the database, the states they reach from a runtime with no runs, and the properties of those states.

  A step that needs the compiled charter of a run looks it up in the registry by the charter id of the run. The
  claim of a phase by a user (WAITING\_USER to IN\_PROGRESS), which \<open>phase_state.py\<close> documents and the runtime
  leaves to the application, is a step too. \<open>uuid4()\<close> draws a run id no run has. The rows of \<open>charters\<close> do not change.
\<close>

section \<open>Steps\<close>

definition claim_by_user :: "uuid \<Rightarrow> string \<Rightarrow> string \<Rightarrow> db \<Rightarrow> db" where
  "claim_by_user run w p d =
    update_phases (\<lambda>r. is_phase run w p r \<and> pe_status r = state_value WAITING_USER)
      (\<lambda>r. r\<lparr>pe_status := state_value IN_PROGRESS\<rparr>) d"

inductive runtime_step :: "(string set \<Rightarrow> string list) \<Rightarrow> registry \<times> db \<Rightarrow> registry \<times> db \<Rightarrow> bool" for it where
  start: "start_workflow it ids now cid subj rt rid w by_id ten ctx reg d = (Inr (run, d'), reg') \<Longrightarrow>
    ids 0 \<notin> cr_id ` set (charter_runs d) \<Longrightarrow> runtime_step it (reg, d) (reg', d')"
| complete: "run_of d run = Some x \<Longrightarrow> registry_get it now (cr_charter_id x) d reg = Inr (c, reg') \<Longrightarrow>
    on_phase_completed now run w p by_id (cc_ast c) notes act d = Inr (res, d') \<Longrightarrow> runtime_step it (reg, d) (reg', d')"
| failed: "on_phase_failed now run w p by_id reason gate d = Inr (res, d') \<Longrightarrow> runtime_step it (reg, d) (reg, d')"
| trigger: "fire_trigger ids now run t act ten data d = Inr (tres, d') \<Longrightarrow> runtime_step it (reg, d) (reg, d')"
| cancel: "runtime_step it (reg, d) (reg, cancel_charter_run now run by_id reason d)"
| finish: "runtime_step it (reg, d) (reg, complete_charter_run now run outcome reason d)"
| claim: "runtime_step it (reg, d) (reg, claim_by_user run w p d)"
| invalidate: "runtime_step it (reg, d) (snd (invalidate_charter cid reg), d)"

inductive_cases runtime_stepE: "runtime_step it (reg, d) (reg', d')"

lemmas runtime_step_cases =
  runtime_stepE [consumes 1, case_names start complete failed trigger cancel finish claim invalidate]

inductive reachable :: "(string set \<Rightarrow> string list) \<Rightarrow> db \<Rightarrow> registry \<times> db \<Rightarrow> bool" for it d0 where
  initial: "charter_runs d0 = [] \<Longrightarrow> phase_executions d0 = [] \<Longrightarrow> reachable it d0 ([], d0)"
| later: "reachable it d0 s \<Longrightarrow> runtime_step it s s' \<Longrightarrow> reachable it d0 s'"

section \<open>The invariant\<close>

definition runtime_inv :: "(string set \<Rightarrow> string list) \<Rightarrow> (string option \<Rightarrow> string) \<Rightarrow> registry \<Rightarrow> db \<Rightarrow> bool" where
  "runtime_inv it source_of reg d \<longleftrightarrow>
     cache_coherent it source_of reg \<and> hashes_ok source_of d \<and> rows_inv it d \<and> none_forgotten it d"

lemma claim_moves:
  "framed d (claim_by_user run w p d) \<and>
   moved (moves_between {WAITING_USER} IN_PROGRESS) (phase_executions d) (phase_executions (claim_by_user run w p d))"
  unfolding claim_by_user_def update_phases_frame
  by (intro conjI framed_update_phases moved_update_rows) (simp_all add: row_ident_def moves_between_def)

text \<open>The four kinds of move that are not completions.\<close>

definition quiet :: "phase_row \<Rightarrow> string \<Rightarrow> bool" where
  "quiet r s \<longleftrightarrow>
     moves_between {WAITING_USER} IN_PROGRESS r s \<or> moves_between {WAITING_TRIGGER} IN_PROGRESS r s \<or>
     moves_between {WAITING_GATE, WAITING_TRIGGER, IN_PROGRESS} FAILED r s \<or>
     moves_between {PENDING, WAITING_GATE, WAITING_USER, WAITING_TRIGGER, IN_PROGRESS} SKIPPED r s"

interpretation quiet: quiet_move quiet
  by unfold_locales (auto simp del: state_value.simps simp: quiet_def moves_between_def state_value_inj)

lemma on_phase_completed_effect:
  assumes u: "unique_rows (phase_executions d)" and doneq: "on_phase_completed now run w p by_id ast notes act d = Inr (res, d')"
    and changed: "d' \<noteq> d"
  obtains d1 d2 where "check_phase_action COMPLETED run w p d = Inr None" "d1 = mark_completed now run w p by_id notes act d"
    "d2 = snd (activate_downstream now run w ast (find_downstream_phases ast w p) empty_result d1)"
    "framed d d1" "moved (moves_between {IN_PROGRESS} COMPLETED) (phase_executions d) (phase_executions d1)"
    "activated run w ast d1 d2" "framed d2 d'" "phase_executions d' = phase_executions d2"
proof -
  let ?d1 = "mark_completed now run w p by_id notes act d"
  let ?d2 = "snd (activate_downstream now run w ast (find_downstream_phases ast w p) empty_result ?d1)"
  have check: "check_phase_action COMPLETED run w p d = Inr None" and d': "framed ?d2 d'" "phase_executions d' = phase_executions ?d2"
    using on_phase_completed_stages [OF doneq] changed by (auto simp: Let_def)
  note mark = mark_completed_moves [OF u check refl, of now by_id "notes" act]
  have "activated run w ast ?d1 ?d2"
    using activate_downstream_activated moved_unique [OF mark(2)] u by blast
  with that check mark d' show thesis by blast
qed

lemma cache_coherent_invalidate: "cache_coherent it source_of reg \<Longrightarrow> cache_coherent it source_of (snd (invalidate_charter cid reg))"
  by (auto simp: cache_coherent_def invalidate_charter_def)

lemma framed_charters: "framed d d' \<Longrightarrow> charters d' = charters d"
  by (simp add: framed_def)

text \<open>A step is a start, a completion, or a quiet move.\<close>

lemma runtime_step_kinds:
  assumes step: "runtime_step it (reg, d) (reg', d')" and inv: "runtime_inv it source_of reg d"
  shows "cache_coherent it source_of reg' \<and> charters d' = charters d \<and>
    ((\<exists>ids now cid w ten c wfl order. run_started it ids now cid w ten c wfl order d d') \<or>
     (\<exists>now run w p by_id ast notes act res. run_charter it d run ast \<and>
        on_phase_completed now run w p by_id ast notes act d = Inr (res, d')) \<or>
     (framed d d' \<and> moved quiet (phase_executions d) (phase_executions d')))"
proof -
  have cache: "cache_coherent it source_of reg" "hashes_ok source_of d" and rows: "rows_inv it d"
    using inv by (simp_all add: runtime_inv_def)
  have u: "unique_rows (phase_executions d)" and k: "known_statuses (phase_executions d)"
    using rows by (simp_all add: rows_inv_def)
  have quiet: ?thesis
    if "framed d d' \<and> moved T (phase_executions d) (phase_executions d')" "\<And>r s. T r s \<Longrightarrow> quiet r s"
      "cache_coherent it source_of reg'" for T
    using that moved_mono [of T "phase_executions d" "phase_executions d'" quiet] framed_charters by blast
  from step show ?thesis
  proof (cases rule: runtime_step_cases)
    case (start ids now cid subj rt rid w by_id ten ctx run)
    then obtain c wfl order where st: "run_started it ids now cid w ten c wfl order d d'"
      and reg': "cache_coherent it source_of reg'" using start_workflow_run_started [OF rows cache start] by blast
    then have "charters d' = charters d" by (simp add: run_started_def)
    with reg' st show ?thesis by blast
  next
    case (complete run x now c w p by_id "notes" act res)
    then have "fresh_compile it (cr_charter_id x) d = Inr c" and "cache_coherent it source_of reg'"
      using registry_get_refines [OF cache, of now "cr_charter_id x"] by auto
    then have "run_charter it d run (cc_ast c)" "cache_coherent it source_of reg'"
      using complete(1) by (auto simp: run_charter_def)
    moreover have "charters d' = charters d"
    proof (cases "d' = d")
      case False
      show ?thesis
        by (rule on_phase_completed_effect [OF u complete(3) False]) (simp add: framed_def activated_def)
    qed simp
    ultimately show ?thesis using complete(3) by blast
  next
    case (failed now run w p by_id reason gate res)
    then show ?thesis using quiet [OF on_phase_failed_moves [OF u failed(2)]] cache(1) by (simp add: quiet_def)
  next
    case (trigger ids now run t act ten data tres)
    then show ?thesis using quiet [OF fire_trigger_moves [OF trigger(2)]] cache(1) by (simp add: quiet_def)
  next
    case (cancel now run by_id reason)
    show ?thesis
      by (rule quiet [OF cancel_charter_run_moves [OF k, of now run by_id reason, folded cancel(2)]])
        (use cancel(1) cache(1) in \<open>simp_all add: quiet_def\<close>)
  next
    case (finish now run outcome reason)
    have "framed d d' \<and> moved quiet (phase_executions d) (phase_executions d')"
      unfolding finish(2) using complete_charter_run_frame moved_refl by (simp add: complete_charter_run_def)
    then show ?thesis by (rule quiet) (use finish(1) cache(1) in simp_all)
  next
    case (claim run w p)
    show ?thesis
      by (rule quiet [OF claim_moves [of d run w p, folded claim(2)]]) (use claim(1) cache(1) in \<open>simp_all add: quiet_def\<close>)
  next
    case (invalidate cid)
    have "framed d d' \<and> moved quiet (phase_executions d) (phase_executions d')"
      unfolding invalidate(2) using framed_refl moved_refl by blast
    then show ?thesis by (rule quiet) (use invalidate(1) cache_coherent_invalidate [OF cache(1)] in simp_all)
  qed
qed

lemma completed_keeps_inv:
  assumes ch: "run_charter it d run ast" and doneq: "on_phase_completed now run w p by_id ast notes act d = Inr (res, d')"
    and rows: "rows_inv it d" and forgot: "none_forgotten it d"
  shows "rows_inv it d' \<and> none_forgotten it d'"
proof (cases "d' = d")
  case True
  with rows forgot show ?thesis by simp
next
  case False
  have u: "unique_rows (phase_executions d)" using rows by (simp add: rows_inv_def)
  show ?thesis
  proof (rule on_phase_completed_effect [OF u doneq False])
    fix d1 d2
    assume d1: "check_phase_action COMPLETED run w p d = Inr None" "d1 = mark_completed now run w p by_id notes act d"
      and d2: "d2 = snd (activate_downstream now run w ast (find_downstream_phases ast w p) empty_result d1)"
      and m1: "framed d d1" "moved (moves_between {IN_PROGRESS} COMPLETED) (phase_executions d) (phase_executions d1)"
      and act: "activated run w ast d1 d2" and d': "framed d2 d'" "phase_executions d' = phase_executions d2"
    have "rows_inv it d1" by (rule completion.keeps_rows_inv [OF m1 rows])
    then have inv2: "rows_inv it d2" using rows_inv_activated act run_charter_framed [OF m1(1) ch] by blast
    have forgot2: "none_forgotten it d2" by (rule none_forgotten_completed [OF rows forgot ch d1 d2])
    have same: "moved quiet (phase_executions d2) (phase_executions d')" by (simp add: d'(2) moved_refl)
    show ?thesis
      using quiet.keeps_rows_inv [OF d'(1) same inv2] quiet.keeps_none_forgotten [OF d'(1) same forgot2] by blast
  qed
qed

lemma runtime_step_inv:
  assumes step: "runtime_step it (reg, d) (reg', d')" and inv: "runtime_inv it source_of reg d"
  shows "runtime_inv it source_of reg' d'"
proof -
  have rows: "rows_inv it d" and forgot: "none_forgotten it d" and h: "hashes_ok source_of d"
    using inv by (simp_all add: runtime_inv_def)
  note kinds = runtime_step_kinds [OF step inv]
  have h': "hashes_ok source_of d'" using h unfolding hashes_ok_def kinds [THEN conjunct2, THEN conjunct1] .
  from kinds consider
      (start) ids now cid w ten c wfl order where "run_started it ids now cid w ten c wfl order d d'"
    | (complete) now run w p by_id ast "notes" act res where "run_charter it d run ast"
        "on_phase_completed now run w p by_id ast notes act d = Inr (res, d')"
    | (quiet) "framed d d'" "moved quiet (phase_executions d) (phase_executions d')" by (elim conjE disjE exE)
  then have "rows_inv it d' \<and> none_forgotten it d'"
  proof cases
    case start
    then show ?thesis using started_keeps_rows_inv [OF start rows] started_keeps_none_forgotten [OF start rows forgot] by blast
  next
    case complete
    then show ?thesis using completed_keeps_inv [OF complete rows forgot] by blast
  next
    case quiet
    then show ?thesis using quiet.keeps_rows_inv [OF quiet rows] quiet.keeps_none_forgotten [OF quiet forgot] by blast
  qed
  with kinds [THEN conjunct1] h' show ?thesis by (simp add: runtime_inv_def)
qed

lemma reachable_inv:
  assumes "reachable it d0 (reg, d)" "hashes_ok source_of d0"
  shows "runtime_inv it source_of reg d"
  using assms
proof (induction "(reg, d)" arbitrary: reg d rule: reachable.induct)
  case initial
  then show ?case
    by (simp add: runtime_inv_def cache_coherent_def rows_inv_def none_forgotten_def unique_rows_def rows_linked_def
        runs_full_def known_statuses_def deps_ok_def)
next
  case (later s)
  obtain reg1 d1 where "s = (reg1, d1)" by fastforce
  with later runtime_step_inv show ?case by blast
qed

end
