(* ===== verification/Runtime_Demo.thy ===== *)
theory Runtime_Demo
  imports Runtime_Steps
begin

text \<open>
  Executable scripts of runtime operations and the states they reach: a cascade from one phase to the next, and
  a run in which one of two entry phases fails and the other is completed afterwards.
\<close>

section \<open>Sequences of operations\<close>

text \<open>An executable script of operations; the actor of every operation is \<open>u1\<close> and the clock stands at 0.\<close>

datatype command =
    Start uuid string "nat \<Rightarrow> uuid"
  | Claim uuid string string
  | Complete uuid string string
  | Fail uuid string string

fun exec_command :: "(string set \<Rightarrow> string list) \<Rightarrow> command \<Rightarrow> registry \<times> db \<Rightarrow> (registry \<times> db) option" where
  "exec_command it (Start cid w ids) (reg, d) =
    (if ids 0 \<in> set (map cr_id (charter_runs d)) then None
     else case start_workflow it ids 0 cid ''s1'' ''offer'' ''o1'' w ''u1'' ''t1'' [] reg d of
            (Inl _, _) \<Rightarrow> None
          | (Inr (_, d'), reg') \<Rightarrow> Some (reg', d'))"
| "exec_command it (Claim run w p) (reg, d) = Some (reg, claim_by_user run w p d)"
| "exec_command it (Complete run w p) (reg, d) =
    (case run_of d run of
       None \<Rightarrow> None
     | Some x \<Rightarrow>
         (case registry_get it 0 (cr_charter_id x) d reg of
            Inl _ \<Rightarrow> None
          | Inr (c, reg') \<Rightarrow>
              (case on_phase_completed 0 run w p ''u1'' (cc_ast c) None ''approve'' d of
                 Inl _ \<Rightarrow> None
               | Inr (_, d') \<Rightarrow> Some (reg', d'))))"
| "exec_command it (Fail run w p) (reg, d) =
    (case on_phase_failed 0 run w p ''u1'' (Some ''rejected'') None d of
       Inl _ \<Rightarrow> None
     | Inr (_, d') \<Rightarrow> Some (reg, d'))"

fun exec_all :: "(string set \<Rightarrow> string list) \<Rightarrow> command list \<Rightarrow> registry \<times> db \<Rightarrow> (registry \<times> db) option" where
  "exec_all it [] s = Some s"
| "exec_all it (c # cs) s = (case exec_command it c s of None \<Rightarrow> None | Some s' \<Rightarrow> exec_all it cs s')"

lemma exec_command_step: "exec_command it c s = Some s' \<Longrightarrow> runtime_step it s s'"
  by (cases "(it, c, s)" rule: exec_command.cases)
    (auto split: if_splits prod.splits sum.splits option.splits intro: runtime_step.intros)

lemma exec_all_reachable: "reachable it d0 s \<Longrightarrow> exec_all it cs s = Some s' \<Longrightarrow> reachable it d0 s'"
  by (induction it cs s rule: exec_all.induct)
    (auto split: option.splits dest!: exec_command_step intro: reachable.later)

text \<open>Two entry phases, and a database with both sample charters.\<close>

definition two_entries :: string where
  "two_entries =
    ''charter '' @ [double_quote] @ ''Two'' @ [double_quote] @ '' v1.0'' @ [newline] @
    ''workflow main:'' @ [newline] @
    ''  phase a:'' @ [newline] @
    ''    action check()'' @ [newline] @
    ''  phase b:'' @ [newline] @
    ''    action check()'' @ [newline]"

definition demo_db :: db where
  "demo_db =
    \<lparr>charters =
       [\<lparr>chr_id = ''c1'', chr_name = ''Hiring'', chr_source = sample_source, chr_content_hash = Some ''h1''\<rparr>,
        \<lparr>chr_id = ''c2'', chr_name = ''Two'', chr_source = two_entries, chr_content_hash = Some ''h2''\<rparr>],
     charter_runs = [], phase_executions = [], evidences = [], document_access_tokens = [], sessions = [], users = [], persons = []\<rparr>"

definition demo_source_of :: "string option \<Rightarrow> string" where
  "demo_source_of h = (if h = Some ''h1'' then sample_source else two_entries)"

definition demo_ids :: "nat \<Rightarrow> uuid" where
  "demo_ids i = (if i = 0 then ''r0'' else ''p'' @ replicate i CHR ''i'')"

lemma demo_hashes: "hashes_ok demo_source_of demo_db"
  by (simp add: hashes_ok_def demo_db_def demo_source_of_def)

lemma demo_initial: "reachable it demo_db ([], demo_db)"
  by (rule reachable.initial) (simp_all add: demo_db_def)

definition cascade_script :: "command list" where
  "cascade_script =
    [Start ''c1'' ''main'' demo_ids, Claim ''r0'' ''main'' ''screen'', Complete ''r0'' ''main'' ''screen'']"

lemma exec_demo:
  assumes "map_option f (exec_all it cs ([], demo_db)) = Some v"
  shows "\<exists>reg d. reachable it demo_db (reg, d) \<and> f (reg, d) = v"
proof -
  obtain s where s: "exec_all it cs ([], demo_db) = Some s" "f s = v" using assms by (auto simp: map_option_eq_Some)
  obtain reg d where "s = (reg, d)" by fastforce
  with s exec_all_reachable [OF demo_initial s(1)] show ?thesis by blast
qed

text \<open>After the first phase of the sample charter is completed, the second is in the inbox.\<close>

definition phase_view ::
  "registry \<times> db \<Rightarrow> (uuid \<times> string \<times> string \<times> string) list \<times> uuid list \<times> RequireNode list option list option" where
  "phase_view s =
    (let d = snd s; rows = phase_executions d
     in (map (\<lambda>r. (pe_run_id r, pe_workflow_name r, pe_phase_name r, pe_status r)) rows,
         map cr_id (charter_runs d),
         case run_of d ''r0'' of
           None \<Rightarrow> None
         | Some x \<Rightarrow>
             (case fresh_compile sorted_list_of_set (cr_charter_id x) d of
                Inl _ \<Rightarrow> None
              | Inr c \<Rightarrow>
                  Some (map (\<lambda>r. map_option ph_requires
                    (get_phase_node (cc_ast c) (pe_workflow_name r) (pe_phase_name r))) rows))))"

lemma cascade_run:
  "\<exists>reg d. reachable sorted_list_of_set demo_db (reg, d) \<and>
     phase_view (reg, d) =
       ([(''r0'', ''main'', ''screen'', ''completed''), (''r0'', ''main'', ''offer'', ''waiting_user'')], [''r0''],
        Some [Some [], Some [PhaseRef ''screen'' ''passed'']])"
  by (rule exec_demo [of _ _ cascade_script]) code_simp

lemma cascade_demo:
  obtains reg d screen offer node0 node x where "reachable sorted_list_of_set demo_db (reg, d)"
    "charter_runs d = [x]" "cr_id x = ''r0''" "phase_executions d = [screen, offer]"
    "pe_status screen = ''completed''" "is_phase ''r0'' ''main'' ''screen'' screen"
    "row_node sorted_list_of_set d screen = Some node0" "ph_requires node0 = []"
    "pe_status offer = ''waiting_user''" "is_phase ''r0'' ''main'' ''offer'' offer"
    "row_node sorted_list_of_set d offer = Some node" "ph_requires node = [PhaseRef ''screen'' ''passed'']"
proof -
  obtain reg d where s: "reachable sorted_list_of_set demo_db (reg, d)" "phase_view (reg, d) =
       ([(''r0'', ''main'', ''screen'', ''completed''), (''r0'', ''main'', ''offer'', ''waiting_user'')], [''r0''],
        Some [Some [], Some [PhaseRef ''screen'' ''passed'']])"
    using cascade_run by blast
  obtain screen offer where rows: "phase_executions d = [screen, offer]"
    using s(2) by (auto simp: phase_view_def Let_def)
  obtain x where x: "charter_runs d = [x]" "cr_id x = ''r0''" using s(2) by (auto simp: phase_view_def Let_def)
  then have run: "run_of d ''r0'' = Some x" by (simp add: run_of_def select_one_def select_def)
  obtain c where c: "fresh_compile sorted_list_of_set (cr_charter_id x) d = Inr c"
    using s(2) run by (auto simp: phase_view_def Let_def split: sum.splits)
  show thesis
    using s(2) run c x rows
    by (auto simp: phase_view_def Let_def is_phase_def row_node_def intro: that [OF s(1) x rows])
qed

definition failure_script :: "command list" where
  "failure_script =
    [Start ''c2'' ''main'' demo_ids, Claim ''r0'' ''main'' ''a'', Claim ''r0'' ''main'' ''b'',
     Fail ''r0'' ''main'' ''a'', Complete ''r0'' ''main'' ''b'']"

lemma failure_run:
  "\<exists>reg d. reachable sorted_list_of_set demo_db (reg, d) \<and>
     (case (reg, d) of (reg, d) \<Rightarrow>
       (map (\<lambda>r. (pe_phase_name r, pe_status r)) (phase_executions d),
        map (\<lambda>x. (cr_id x, cr_status x, cr_final_outcome x)) (charter_runs d))) =
       ([(''a'', ''failed''), (''b'', ''completed'')], [(''r0'', ''completed'', Some ''approved'')])"
  by (rule exec_demo [of _ _ failure_script]) code_simp

end
