(* ===== verification/Runtime_Correct.thy ===== *)
theory Runtime_Correct
  imports Runtime_Demo
begin

text \<open>
  The properties of the runtime: the order of phases, that ready phases are activated and a run does not get stuck, the
  lifecycle of statuses, what starting a workflow and completing a phase do.
\<close>

section \<open>Properties\<close>

lemma moved_nth: "moved T rows (take (length rows) rows') \<Longrightarrow> i < length rows \<Longrightarrow> i < length rows' \<and> moves_to T (rows ! i) (rows' ! i)"
  by (auto simp: list_all2_conv_all_nth)

definition lifecycle_move :: "phase_row \<Rightarrow> string \<Rightarrow> bool" where
  "lifecycle_move r s \<longleftrightarrow>
     (\<exists>c t. pe_status r = state_value c \<and> s = state_value t \<and>
        (is_valid_transition c t \<or> t = SKIPPED \<and> c \<notin> get_terminal_states))"

lemma lifecycle_between:
  "moves_between from_states t r s \<Longrightarrow>
   (\<And>c. c \<in> from_states \<Longrightarrow> is_valid_transition c t \<or> t = SKIPPED \<and> c \<notin> get_terminal_states) \<Longrightarrow> lifecycle_move r s"
  unfolding moves_between_def lifecycle_move_def by blast

lemma quiet_lifecycle: "quiet r s \<Longrightarrow> lifecycle_move r s"
  unfolding quiet_def by (elim disjE; erule lifecycle_between) (auto simp: transition_simps terminal_states)

lemma completed_moves_lifecycle:
  assumes m1: "moved (moves_between {IN_PROGRESS} COMPLETED) rows rows1" and m2: "moved (activation run w ast d1) rows1 rows2"
  shows "moved lifecycle_move rows rows2"
proof (rule list_all2_trans [OF _ m1 m2])
  fix r r1 r2
  assume r1: "moves_to (moves_between {IN_PROGRESS} COMPLETED) r r1" and r2: "moves_to (activation run w ast d1) r1 r2"
  have id: "row_ident r2 = row_ident r" using r1 r2 by (simp add: moves_to_def)
  show "moves_to lifecycle_move r r2"
  proof (cases "pe_status r1 = pe_status r")
    case True
    with r2 id show ?thesis unfolding moves_to_def activation_def lifecycle_move_def by metis
  next
    case False
    then have "moves_between {IN_PROGRESS} COMPLETED r (pe_status r1)" using r1 by (simp add: moves_to_def)
    moreover from this have "pe_status r2 = pe_status r1"
      using r2 activation_statuses [of run w ast d1 r1 "pe_status r2"] by (auto simp: moves_to_def moves_between_def)
    ultimately show ?thesis
      using id lifecycle_between [of "{IN_PROGRESS}" COMPLETED r "pe_status r1"]
      by (simp add: moves_to_def valid_to_COMPLETED)
  qed
qed

lemma runtime_step_moves:
  assumes step: "runtime_step it (reg, d) (reg', d')" and inv: "runtime_inv it source_of reg d"
  shows "moved lifecycle_move (phase_executions d) (take (length (phase_executions d)) (phase_executions d'))"
proof -
  have u: "unique_rows (phase_executions d)" using inv by (simp add: runtime_inv_def rows_inv_def)
  from runtime_step_kinds [OF step inv] consider
      (start) ids now cid w ten c wfl order where "run_started it ids now cid w ten c wfl order d d'"
    | (complete) now run w p by_id ast memo act res where
        "on_phase_completed now run w p by_id ast memo act d = Inr (res, d')"
    | (quiet) "moved quiet (phase_executions d) (phase_executions d')" by (elim conjE disjE exE)
  then show ?thesis
  proof cases
    case start
    then show ?thesis by (simp add: run_started_def moved_refl)
  next
    case complete
    have "moved lifecycle_move (phase_executions d) (phase_executions d')"
    proof (cases "d' = d")
      case True
      then show ?thesis by (simp add: moved_refl)
    next
      case False
      obtain d1 d2 where "moved (moves_between {IN_PROGRESS} COMPLETED) (phase_executions d) (phase_executions d1)"
        "activated run w ast d1 d2" "phase_executions d' = phase_executions d2"
        by (rule on_phase_completed_effect [OF u complete False])
      then show ?thesis using completed_moves_lifecycle unfolding activated_def by metis
    qed
    then show ?thesis by (simp add: list_all2_lengthD)
  next
    case quiet
    have "moved lifecycle_move (phase_executions d) (phase_executions d')"
      by (rule moved_mono [OF quiet]) (rule quiet_lifecycle)
    then show ?thesis by (simp add: list_all2_lengthD)
  qed
qed



text \<open>In every reachable state, a phase whose requires are all of the form \<open>p.passed\<close> or \<open>p.complete\<close>, with every such
  phase completed, is no longer pending: the cascade that followed the last of the completions has activated it, and a
  phase with no requires was activated by the start of the run.\<close>

theorem ready_phase_is_activated:
  assumes "reachable it d0 (reg, d)" "hashes_ok source_of d0" "r \<in> set (phase_executions d)"
    "row_node it d r = Some node" "plain_requires node"
    "\<And>p cond. PhaseRef p cond \<in> set (ph_requires node) \<Longrightarrow> phase_completed (pe_run_id r) (pe_workflow_name r) p d"
  shows "pe_status r \<noteq> state_value PENDING"
proof
  assume pending: "pe_status r = state_value PENDING"
  have rows: "rows_inv it d" and forgot: "none_forgotten it d"
    using reachable_inv [OF assms(1,2)] by (simp_all add: runtime_inv_def)
  then have reqs: "pe_requires_phases r = get_requires_phases (ph_requires node)"
    using assms(3,4) by (auto simp: rows_inv_def rows_linked_def)
  obtain p where "p \<in> set (pe_requires_phases r)" "\<not> completed_in (phase_executions d) (pe_run_id r) (pe_workflow_name r) p"
    using forgot pending assms(3,4,5) unfolding none_forgotten_def by blast
  with assms(6) reqs rows phase_completed_iff [of d] show False
    by (auto simp: rows_inv_def get_requires_phases_iff)
qed

theorem ready_phase_is_activated_witness:
  "\<exists>reg d r node. reachable sorted_list_of_set demo_db (reg, d) \<and> r \<in> set (phase_executions d) \<and>
     row_node sorted_list_of_set d r = Some node \<and> ph_requires node = [PhaseRef ''screen'' ''passed''] \<and>
     phase_completed ''r0'' ''main'' ''screen'' d \<and> pe_status r \<noteq> state_value PENDING"
proof (rule cascade_demo)
  fix reg d screen offer node0 node x
  assume s: "reachable sorted_list_of_set demo_db (reg, d)" "phase_executions d = [screen, offer]"
    "pe_status screen = ''completed''" "is_phase ''r0'' ''main'' ''screen'' screen"
    "is_phase ''r0'' ''main'' ''offer'' offer"
    "row_node sorted_list_of_set d offer = Some node" "ph_requires node = [PhaseRef ''screen'' ''passed'']"
  have "phase_completed ''r0'' ''main'' ''screen'' d"
    using s by (simp add: phase_completed_def select_one_def select_def)
  moreover from this have "pe_status offer \<noteq> state_value PENDING"
    using s by (intro ready_phase_is_activated [OF s(1) demo_hashes _ s(6)]) (auto simp: plain_requires_def is_phase_def)
  ultimately show ?thesis using s by (metis list.set_intros)
qed

lemma precedes_first:
  assumes "distinct xs" "\<exists>x\<in>set xs. P x"
  obtains x where "x \<in> set xs" "P x" "\<And>y. precedes xs y x \<Longrightarrow> \<not> P y"
proof -
  define i where "i = (LEAST i. i < length xs \<and> P (xs ! i))"
  have "\<exists>i. i < length xs \<and> P (xs ! i)" using assms(2) by (metis in_set_conv_nth)
  then have i: "i < length xs" "P (xs ! i)" unfolding i_def by (rule LeastI2_ex, blast)+
  have "\<not> P y" if before: "precedes xs y (xs ! i)" for y
  proof -
    obtain k j where kj: "k < j" "j < length xs" "xs ! k = y" "xs ! j = xs ! i" using before by (auto simp: precedes_def)
    then have "j = i" using assms(1) i(1) by (simp add: nth_eq_iff_index_eq)
    with kj have "k < i" "k < length xs" by simp_all
    then show ?thesis using not_less_Least [of k "\<lambda>i. i < length xs \<and> P (xs ! i)"] kj(3) unfolding i_def by blast
  qed
  with that i show thesis by (metis nth_mem)
qed

lemma run_of_unique: "distinct (map cr_id (charter_runs d)) \<Longrightarrow> x \<in> set (charter_runs d) \<Longrightarrow> run_of d (cr_id x) = Some x"
  unfolding run_of_def select_one_find by (rule find_first_unique) (auto simp: distinct_map inj_on_def)

lemma precedes_mem: "precedes xs a b \<Longrightarrow> a \<in> set xs"
  by (auto simp: precedes_def)

text \<open>A run in which some phase is pending and none is open has a pending phase whose required phases are completed.\<close>

lemma first_pending:
  assumes rows: "rows_inv it d" and x: "x \<in> set (charter_runs d)"
    and closed: "\<And>r. r \<in> set (phase_executions d) \<Longrightarrow> pe_run_id r = cr_id x \<Longrightarrow>
      pe_status r \<in> {state_value PENDING, state_value COMPLETED}"
    and r0: "r0 \<in> set (phase_executions d)" "pe_run_id r0 = cr_id x" "pe_status r0 \<noteq> state_value COMPLETED"
  obtains r where "r \<in> set (phase_executions d)" "pe_run_id r = cr_id x" "pe_status r = state_value PENDING"
    "\<And>p. p \<in> set (pe_requires_phases r) \<Longrightarrow> completed_in (phase_executions d) (pe_run_id r) (pe_workflow_name r) p"
proof -
  let ?w = "cr_current_workflow x"
  let ?R = "\<lambda>r n. r \<in> set (phase_executions d) \<and> pe_run_id r = cr_id x \<and> pe_phase_name r = n"
  obtain c wfl where c: "fresh_compile it (cr_charter_id x) d = Inr c" and wfl: "get_workflow (cc_ast c) ?w = Some wfl"
    and full: "{(pe_workflow_name r, pe_phase_name r) | r. r \<in> set (phase_executions d) \<and> pe_run_id r = cr_id x} =
      {?w} \<times> names (wf_phases wfl)"
    using rows x unfolding rows_inv_def runs_full_def by blast
  obtain order where order: "distinct order" "set order = names (wf_phases wfl)"
    "\<forall>p\<in>set (wf_phases wfl). \<forall>q\<in>set (get_requires_phases (ph_requires p)). precedes order q (ph_name p)"
    using compiled_workflow(3) [OF c wfl] by (elim exE conjE)
  have "(pe_workflow_name r0, pe_phase_name r0) \<in> {?w} \<times> names (wf_phases wfl)" unfolding full [symmetric] using r0(1,2) by blast
  then have "pe_phase_name r0 \<in> set order" unfolding order(2) by (rule mem_Sigma_iff [THEN iffD1, THEN conjunct2])
  then have "\<exists>n\<in>set order. \<exists>r. ?R r n \<and> pe_status r = state_value PENDING" using r0 closed by blast
  then obtain n where n: "n \<in> set order" "\<exists>r. ?R r n \<and> pe_status r = state_value PENDING"
    "\<And>p. precedes order p n \<Longrightarrow> \<not> (\<exists>r. ?R r p \<and> pe_status r = state_value PENDING)"
    by (rule precedes_first [OF order(1), where P = "\<lambda>n. \<exists>r. ?R r n \<and> pe_status r = state_value PENDING"]) blast
  then obtain r where r: "?R r n" "pe_status r = state_value PENDING" by blast
  have "(pe_workflow_name r, pe_phase_name r) \<in> {?w} \<times> names (wf_phases wfl)" unfolding full [symmetric] using r(1) by blast
  then have w: "pe_workflow_name r = ?w" by simp
  have "run_charter it d (cr_id x) (cc_ast c)"
    using run_of_unique x rows c unfolding run_charter_def rows_inv_def by blast
  then have "row_node it d r = get_phase_node (cc_ast c) ?w n" using row_node_run_charter r w by metis
  then obtain node where node: "find_first (\<lambda>q. ph_name q = n) (wf_phases wfl) = Some node"
    "pe_requires_phases r = get_requires_phases (ph_requires node)"
    using rows r get_phase_node_workflow [OF compiled_workflow(1) [OF c wfl]] wfl unfolding rows_inv_def rows_linked_def by force
  have "completed_in (phase_executions d) (pe_run_id r) (pe_workflow_name r) p" if p: "p \<in> set (pe_requires_phases r)" for p
  proof -
    have before: "precedes order p n" using order(3) [THEN bspec, of node] find_first_Some [OF node(1)] node(2) p by auto
    then have "p \<in> names (wf_phases wfl)" using precedes_mem order(2) by metis
    then have "(?w, p) \<in> {?w} \<times> names (wf_phases wfl)" by simp
    then obtain r' where r': "?R r' p" "pe_workflow_name r' = ?w" unfolding full [symmetric] by auto
    then have "pe_status r' = state_value COMPLETED" using closed n(3) [OF before] by blast
    with r' r w show ?thesis unfolding completed_in_def is_phase_def by metis
  qed
  with that r show thesis by blast
qed

text \<open>C2: A run never gets stuck by itself: in every reachable state, if every phase of a run has only requires of the form
  \<open>p.passed\<close> or \<open>p.complete\<close>, then either all its phases are completed, or one is waiting for a user or a trigger or is in
  progress, or one has failed or was skipped.\<close>

theorem run_never_stuck:
  assumes reach: "reachable it d0 (reg, d)" and h: "hashes_ok source_of d0" and x: "x \<in> set (charter_runs d)"
    and plain: "\<And>r node. r \<in> set (phase_executions d) \<Longrightarrow> pe_run_id r = cr_id x \<Longrightarrow> row_node it d r = Some node \<Longrightarrow>
      plain_requires node"
  shows "(\<forall>r\<in>set (phase_executions d). pe_run_id r = cr_id x \<longrightarrow> pe_status r = state_value COMPLETED) \<or>
    (\<exists>r\<in>set (phase_executions d). pe_run_id r = cr_id x \<and>
       pe_status r \<in> state_value ` {WAITING_USER, WAITING_TRIGGER, IN_PROGRESS, FAILED, SKIPPED})"
proof (rule ccontr)
  assume stuck: "\<not> ?thesis"
  have rows: "rows_inv it d" and forgot: "none_forgotten it d"
    using reachable_inv [OF reach h] by (simp_all add: runtime_inv_def)
  have closed: "pe_status r \<in> {state_value PENDING, state_value COMPLETED}"
    if r: "r \<in> set (phase_executions d)" "pe_run_id r = cr_id x" for r
  proof -
    obtain t where "t \<noteq> WAITING_GATE" "pe_status r = state_value t"
      using rows r(1) unfolding rows_inv_def known_statuses_def by blast
    with stuck r show ?thesis by (cases t) blast+
  qed
  obtain r0 where "r0 \<in> set (phase_executions d)" "pe_run_id r0 = cr_id x" "pe_status r0 \<noteq> state_value COMPLETED"
    using stuck by blast
  from first_pending [OF rows x closed this] obtain r where r: "r \<in> set (phase_executions d)" "pe_run_id r = cr_id x"
    "pe_status r = state_value PENDING"
    "\<And>p. p \<in> set (pe_requires_phases r) \<Longrightarrow> completed_in (phase_executions d) (pe_run_id r) (pe_workflow_name r) p" by blast
  obtain node where "row_node it d r = Some node" using rows r(1) unfolding rows_inv_def rows_linked_def by blast
  with forgot r plain show False unfolding none_forgotten_def by blast
qed

theorem run_never_stuck_witness:
  "\<exists>reg d. reachable sorted_list_of_set demo_db (reg, d) \<and> map cr_id (charter_runs d) = [''r0''] \<and>
     \<not> (\<forall>r\<in>set (phase_executions d). pe_run_id r = ''r0'' \<longrightarrow> pe_status r = state_value COMPLETED) \<and>
     (\<exists>r\<in>set (phase_executions d). pe_run_id r = ''r0'' \<and>
       pe_status r \<in> state_value ` {WAITING_USER, WAITING_TRIGGER, IN_PROGRESS, FAILED, SKIPPED})"
proof (rule cascade_demo)
  fix reg d screen offer node0 node x
  assume s: "reachable sorted_list_of_set demo_db (reg, d)" "charter_runs d = [x]" "cr_id x = ''r0''"
    "phase_executions d = [screen, offer]"
    and nodes: "row_node sorted_list_of_set d screen = Some node0" "ph_requires node0 = []"
      "row_node sorted_list_of_set d offer = Some node" "ph_requires node = [PhaseRef ''screen'' ''passed'']"
    and offer: "pe_status offer = ''waiting_user''" "is_phase ''r0'' ''main'' ''offer'' offer"
  have "plain_requires node'" if "r \<in> set (phase_executions d)" "row_node sorted_list_of_set d r = Some node'" for r node'
    using that s(4) nodes by (auto simp: plain_requires_def)
  then have "(\<forall>r\<in>set (phase_executions d). pe_run_id r = cr_id x \<longrightarrow> pe_status r = state_value COMPLETED) \<or>
    (\<exists>r\<in>set (phase_executions d). pe_run_id r = cr_id x \<and>
       pe_status r \<in> state_value ` {WAITING_USER, WAITING_TRIGGER, IN_PROGRESS, FAILED, SKIPPED})"
    using s(2) by (intro run_never_stuck [OF s(1) demo_hashes]) auto
  moreover have "offer \<in> set (phase_executions d)" "pe_run_id offer = ''r0''" "pe_status offer \<noteq> state_value COMPLETED"
    using s(4) offer by (simp_all add: is_phase_def)
  moreover have "map cr_id (charter_runs d) = [''r0'']" using s(2,3) by simp
  ultimately show ?thesis using s(1,3) by metis
qed

text \<open>C5: What one step may do to the phase executions that exist: each keeps its place, run, workflow, name and requires, and its
  status stays or moves by one valid transition of the lifecycle; a cancellation may also move any non-terminal status
  to SKIPPED. A completed, failed or skipped phase never changes its status again.\<close>

theorem status_lifecycle:
  assumes "reachable it d0 (reg, d)" "hashes_ok source_of d0" "runtime_step it (reg, d) (reg', d')"
    "i < length (phase_executions d)"
  shows "i < length (phase_executions d') \<and> row_ident (phase_executions d' ! i) = row_ident (phase_executions d ! i) \<and>
    (pe_status (phase_executions d' ! i) = pe_status (phase_executions d ! i) \<or>
     (\<exists>c t. pe_status (phase_executions d ! i) = state_value c \<and> pe_status (phase_executions d' ! i) = state_value t \<and>
        (is_valid_transition c t \<or> t = SKIPPED \<and> c \<notin> get_terminal_states)))"
  using moved_nth [OF runtime_step_moves [OF assms(3) reachable_inv [OF assms(1,2)]] assms(4)]
  by (auto simp: moves_to_def lifecycle_move_def)

theorem status_lifecycle_witness:
  "\<exists>reg d d'. reachable sorted_list_of_set demo_db (reg, d) \<and> runtime_step sorted_list_of_set (reg, d) (reg, d') \<and>
     1 < length (phase_executions d) \<and> row_ident (phase_executions d' ! 1) = row_ident (phase_executions d ! 1) \<and>
     pe_status (phase_executions d ! 1) = ''waiting_user'' \<and> pe_status (phase_executions d' ! 1) = ''in_progress''"
proof (rule cascade_demo)
  fix reg d screen offer node0 node x
  assume s: "reachable sorted_list_of_set demo_db (reg, d)" "phase_executions d = [screen, offer]"
    "pe_status offer = ''waiting_user''" "is_phase ''r0'' ''main'' ''offer'' offer"
  let ?d' = "claim_by_user ''r0'' ''main'' ''offer'' d"
  have step: "runtime_step sorted_list_of_set (reg, d) (reg, ?d')" by (rule runtime_step.claim)
  have len: "1 < length (phase_executions d)" using s by simp
  have "pe_status (phase_executions ?d' ! 1) = ''in_progress''" using s by (simp add: claim_by_user_def update_rows_def)
  with status_lifecycle [OF s(1) demo_hashes step len] s(1-3) step len show ?thesis by force
qed

text \<open>C30: What \<open>start_workflow\<close> creates: a run with the drawn id and, in the order of the compiled charter, one phase
  execution per phase of the workflow, numbered from 0. A phase that requires no phase is WAITING\_USER, every
  other is PENDING, and the executions of other runs are unchanged.\<close>

theorem start_workflow_creates:
  assumes "reachable it d0 (reg, d)" "hashes_ok source_of d0" "ids 0 \<notin> cr_id ` set (charter_runs d)"
    "start_workflow it ids now cid subj rt rid w by_id ten ctx reg d = (Inr (run, d'), reg')"
  shows "run = ids 0 \<and>
    (\<exists>c wfl order new. fresh_compile it cid d = Inr c \<and> get_workflow (cc_ast c) w = Some wfl \<and>
       map_of (cc_phase_order c) w = Some order \<and> phase_executions d' = phase_executions d @ new \<and>
       map pe_phase_name new = order \<and> distinct order \<and> set order = names (wf_phases wfl) \<and>
       map pe_sequence new = [0..<length order] \<and>
       (\<forall>r\<in>set new. pe_run_id r = run \<and> pe_workflow_name r = w \<and>
          pe_status r = (if pe_requires_phases r = [] then ''waiting_user'' else ''pending'')))"
proof -
  have inv: "rows_inv it d" "cache_coherent it source_of reg" "hashes_ok source_of d"
    using reachable_inv [OF assms(1,2)] by (simp_all add: runtime_inv_def)
  obtain c wfl order where st: "run = ids 0" "map_of (cc_phase_order c) w = Some order"
    "run_started it ids now cid w ten c wfl order d d'"
    using start_workflow_run_started [OF inv assms(4,3)] by blast
  let ?new = "map (\<lambda>(i, name). started_phase ids now ten c w wfl i name) (enumerate 0 order)"
  have "map pe_phase_name ?new = order" "map pe_sequence ?new = [0..<length order]"
    by (intro nth_equalityI; simp add: nth_enumerate_eq started_phase_def new_phase_row_def Let_def)+
  moreover have "\<forall>r\<in>set ?new. pe_run_id r = run \<and> pe_workflow_name r = w \<and>
      pe_status r = (if pe_requires_phases r = [] then ''waiting_user'' else ''pending'')"
    using st(1) by auto
  ultimately show ?thesis using st unfolding run_started_def by blast
qed

theorem start_workflow_creates_witness:
  "\<exists>d' reg'. start_workflow sorted_list_of_set demo_ids 0 ''c1'' ''s1'' ''offer'' ''o1'' ''main'' ''u1'' ''t1'' [] [] demo_db =
      (Inr (''r0'', d'), reg') \<and>
    (\<forall>r\<in>set (phase_executions d'). pe_run_id r = ''r0'' \<and>
       pe_status r = (if pe_requires_phases r = [] then ''waiting_user'' else ''pending''))"
proof -
  let ?s = "start_workflow sorted_list_of_set demo_ids 0 ''c1'' ''s1'' ''offer'' ''o1'' ''main'' ''u1'' ''t1'' [] [] demo_db"
  have "map_sum id fst (fst ?s) = Inr ''r0''" by code_simp
  then obtain d' reg' where s: "?s = (Inr (''r0'', d'), reg')"
    by (cases ?s; cases "fst ?s") (auto simp only: map_sum.simps sum.inject sum.distinct fst_conv)
  have "demo_ids 0 \<notin> cr_id ` set (charter_runs demo_db)" by (simp add: demo_db_def)
  from start_workflow_creates [OF demo_initial demo_hashes this s] s show ?thesis by (auto simp: demo_db_def)
qed

lemma on_phase_completed_done:
  assumes "check_phase_action COMPLETED run w p d = Inr None"
  shows "\<exists>res d' d2. on_phase_completed now run w p by_id ast memo act d = Inr (res, d') \<and>
    d2 = snd (activate_downstream now run w ast (find_downstream_phases ast w p) empty_result
           (mark_completed now run w p by_id memo act d)) \<and>
    phase_executions d' = phase_executions d2 \<and> (cas_workflow_complete res \<longleftrightarrow> is_workflow_complete run w d2) \<and>
    (cas_workflow_complete res \<longrightarrow> d' = finish_charter_run now run d2)"
proof -
  obtain res d2 where "activate_downstream now run w ast (find_downstream_phases ast w p) empty_result
      (mark_completed now run w p by_id memo act d) = (res, d2)" by fastforce
  note e = this
  let ?complete = "is_workflow_complete run w d2"
  let ?res = "res\<lparr>cas_workflow_complete := ?complete\<rparr>" and ?d' = "if ?complete then finish_charter_run now run d2 else d2"
  have "on_phase_completed now run w p by_id ast memo act d = Inr (?res, ?d')"
    by (simp add: on_phase_completed_def assms e)
  moreover have "phase_executions ?d' = phase_executions d2" by (simp add: finish_charter_run_def)
  ultimately show ?thesis using e by (intro exI [of _ ?res] exI [of _ ?d'] exI [of _ d2] conjI) simp_all
qed

lemma finish_charter_run_approves:
  "x \<in> set (charter_runs (finish_charter_run now run d)) \<Longrightarrow> cr_id x = run \<Longrightarrow>
   cr_status x = ''completed'' \<and> cr_final_outcome x = Some ''approved''"
  unfolding finish_charter_run_def update_runs_frame
  by (erule update_rows_source) (simp split: if_splits)

lemma is_workflow_complete_iff:
  "completed_in (phase_executions d) run w p \<Longrightarrow> is_workflow_complete run w d \<longleftrightarrow>
   (\<forall>r\<in>set (phase_executions d). pe_run_id r = run \<and> pe_workflow_name r = w \<longrightarrow> pe_status r \<in> {''completed'', ''skipped'', ''failed''})"
  by (auto simp: is_workflow_complete_def select_def list_all_iff terminal_statuses_def completed_in_def is_phase_def
      filter_empty_conv)



text \<open>A run can end approved although one of its phases failed: when a phase of the run fails, the run is marked failed,
  but completing another phase that was in progress makes all phases terminal, and the run is then marked completed
  with outcome \<open>approved\<close>.\<close>

theorem failed_run_ends_approved:
  "\<exists>reg d x r. reachable sorted_list_of_set demo_db (reg, d) \<and> x \<in> set (charter_runs d) \<and>
     cr_status x = ''completed'' \<and> cr_final_outcome x = Some ''approved'' \<and>
     r \<in> set (phase_executions d) \<and> pe_status r = ''failed''"
proof -
  obtain reg d where s: "reachable sorted_list_of_set demo_db (reg, d)"
    "map (\<lambda>r. (pe_phase_name r, pe_status r)) (phase_executions d) = [(''a'', ''failed''), (''b'', ''completed'')]"
    "map (\<lambda>x. (cr_id x, cr_status x, cr_final_outcome x)) (charter_runs d) = [(''r0'', ''completed'', Some ''approved'')]"
    using failure_run by auto
  from s(2) obtain r where "r \<in> set (phase_executions d)" "pe_status r = ''failed''" by (cases "phase_executions d") auto
  moreover from s(3) obtain x where "x \<in> set (charter_runs d)" "cr_status x = ''completed''" "cr_final_outcome x = Some ''approved''"
    by (cases "charter_runs d") auto
  ultimately show ?thesis using s(1) by blast
qed

end
