(* ===== verification/Roles.thy ===== *)
theory Roles
  imports Run_Start
begin

text \<open>
  Role enforcement (\<open>libs/canon/src/canon/runtime/roles.py\<close>): the role that governs a phase, the check of the MFA and
  break-glass requirements of that role against the sessions of the user, and the exceptions.
\<close>

record RoleCheckResult =
  rk_allowed :: bool
  rk_role_name :: string
  rk_requires_mfa :: bool
  rk_requires_break_glass :: bool
  rk_mfa_verified :: bool
  rk_break_glass_active :: bool
  rk_reason :: "string option"

datatype role_error =
    MFARequiredError string string \<comment> \<open>role and phase\<close>
  | BreakGlassRequiredError string string

definition find_role_for_phase :: "string \<Rightarrow> string \<Rightarrow> compiled \<Rightarrow> RoleNode option" where
  "find_role_for_phase phase wname compiled =
    (case get_phase_node (cc_ast compiled) wname phase of
       None \<Rightarrow> None
     | Some node \<Rightarrow>
         (let phase_actions = set (map (\<lambda>a. call_name (act_call a)) (ph_actions node))
          in if phase_actions = {} then None
             else find_first (\<lambda>r. phase_actions \<inter> set (ro_actions r) \<noteq> {}) (cc_roles compiled)))"

definition check_mfa_verified :: "uuid \<Rightarrow> db \<Rightarrow> bool" where
  "check_mfa_verified user_id d \<longleftrightarrow>
    select_one (\<lambda>s. se_user_id s = user_id \<and> se_mfa_verified s \<and> \<not> se_is_revoked s \<and> \<not> se_is_deleted s) (sessions d) \<noteq> None"

definition check_break_glass_active :: "uuid \<Rightarrow> db \<Rightarrow> bool" where
  "check_break_glass_active user_id d \<longleftrightarrow>
    select_one (\<lambda>s. se_user_id s = user_id \<and> se_auth_method s = ''break_glass'' \<and> \<not> se_is_revoked s \<and> \<not> se_is_deleted s)
      (sessions d) \<noteq> None"

definition verify_role_requirements :: "uuid \<Rightarrow> RoleNode \<Rightarrow> db \<Rightarrow> RoleCheckResult" where
  "verify_role_requirements user_id role d =
    (let mfa_verified = (ro_requires_mfa role \<and> check_mfa_verified user_id d);
         break_glass_active = (ro_break_glass role \<and> check_break_glass_active user_id d);
         mfa_ok = (if ro_requires_mfa role then mfa_verified else True);
         bg_ok = (if ro_break_glass role then break_glass_active else True);
         allowed = (mfa_ok \<and> bg_ok);
         reasons =
           (if \<not> mfa_ok then [''MFA verification required but not verified''] else []) @
           (if \<not> bg_ok then [''Break-glass elevated access required but not active''] else [])
     in \<lparr>rk_allowed = allowed, rk_role_name = ro_name role, rk_requires_mfa = ro_requires_mfa role,
         rk_requires_break_glass = ro_break_glass role, rk_mfa_verified = mfa_verified,
         rk_break_glass_active = break_glass_active,
         rk_reason = (if allowed then None else Some (py_join ''; '' reasons))\<rparr>)"

definition unconstrained :: RoleCheckResult where
  "unconstrained =
    \<lparr>rk_allowed = True, rk_role_name = ''(none)'', rk_requires_mfa = False, rk_requires_break_glass = False,
     rk_mfa_verified = False, rk_break_glass_active = False, rk_reason = None\<rparr>"

definition enforce_role_requirements ::
  "uuid \<Rightarrow> string \<Rightarrow> string \<Rightarrow> compiled \<Rightarrow> db \<Rightarrow> (role_error, RoleCheckResult) result" where
  "enforce_role_requirements user_id phase wname compiled d =
    (case find_role_for_phase phase wname compiled of
       None \<Rightarrow> Inr unconstrained
     | Some role \<Rightarrow>
         (let res = verify_role_requirements user_id role d
          in if \<not> rk_allowed res \<and> rk_requires_mfa res \<and> \<not> rk_mfa_verified res
             then Inl (MFARequiredError (ro_name role) phase)
             else if \<not> rk_allowed res \<and> rk_requires_break_glass res \<and> \<not> rk_break_glass_active res
             then Inl (BreakGlassRequiredError (ro_name role) phase)
             else Inr res))"

section \<open>Lemmas\<close>

text \<open>A session of the user that is neither revoked nor deleted and satisfies a condition.\<close>

definition has_session :: "uuid \<Rightarrow> (session_row \<Rightarrow> bool) \<Rightarrow> db \<Rightarrow> bool" where
  "has_session user P d \<longleftrightarrow> (\<exists>s\<in>set (sessions d). se_user_id s = user \<and> P s \<and> \<not> se_is_revoked s \<and> \<not> se_is_deleted s)"

lemma check_mfa_iff: "check_mfa_verified user d \<longleftrightarrow> has_session user se_mfa_verified d"
  by (auto simp: check_mfa_verified_def has_session_def select_one_None)

lemma check_break_glass_iff: "check_break_glass_active user d \<longleftrightarrow> has_session user (\<lambda>s. se_auth_method s = ''break_glass'') d"
  by (auto simp: check_break_glass_active_def has_session_def select_one_None)

lemma verify_allowed:
  "rk_allowed (verify_role_requirements user role d) \<longleftrightarrow>
   (ro_requires_mfa role \<longrightarrow> has_session user se_mfa_verified d) \<and>
   (ro_break_glass role \<longrightarrow> has_session user (\<lambda>s. se_auth_method s = ''break_glass'') d)"
  by (simp add: verify_role_requirements_def Let_def check_mfa_iff check_break_glass_iff)

text \<open>Without roles that match no phase constrains; the role a phase is assigned when its run starts is found
  by a second function of \<open>workflow.py\<close>.\<close>

lemma find_role_agrees:
  assumes "distinct (map wf_name (ch_workflows (cc_ast c)))"
  shows "map_option ro_name (find_role_for_phase phase w c) = get_phase_role c w phase"
proof (cases "get_phase_node (cc_ast c) w phase")
  case None
  then have "workflow_phase_actions c w phase = {}"
    using get_phase_node_workflow [OF assms, of w phase] by (auto simp: workflow_phase_actions_def split: option.splits)
  moreover have "find_first (\<lambda>r. {} \<inter> set (ro_actions r) \<noteq> {}) (cc_roles c) = None" by (simp add: find_first_None_iff)
  ultimately show ?thesis using None by (simp add: find_role_for_phase_def get_phase_role_def)
next
  case (Some node)
  then have acts: "workflow_phase_actions c w phase = set (map (\<lambda>a. call_name (act_call a)) (ph_actions node))"
    using get_phase_node_workflow [OF assms, of w phase] by (auto simp: workflow_phase_actions_def split: option.splits)
  show ?thesis
  proof (cases "ph_actions node = []")
    case True
    have "find_first (\<lambda>r. {} \<inter> set (ro_actions r) \<noteq> {}) (cc_roles c) = None" by (simp add: find_first_None_iff)
    with True Some acts show ?thesis by (simp add: find_role_for_phase_def get_phase_role_def)
  next
    case False
    with Some acts show ?thesis by (simp add: find_role_for_phase_def get_phase_role_def Let_def)
  qed
qed

section \<open>Properties\<close>


definition demo_role :: RoleNode where
  "demo_role = \<lparr>ro_name = ''hr'', ro_actions = [''verify''], ro_break_glass = False, ro_requires_mfa = True\<rparr>"

definition demo_compiled :: compiled where
  "demo_compiled =
    \<lparr>cc_name = ''Hiring'', cc_version = ''v1'', cc_ast = (new_charter ''Hiring'' ''v1'')\<lparr>ch_workflows :=
       [\<lparr>wf_name = ''main'', wf_phases = [(sample_phase ''screen'' [])\<lparr>ph_actions :=
          [\<lparr>act_call = \<lparr>call_name = ''verify'', call_args = []\<rparr>\<rparr>]\<rparr>]\<rparr>]\<rparr>, cc_feature_names = {''verify''}, cc_schema_types = [],
     cc_phase_order = [(''main'', [''screen''])], cc_policy_ids = {}, cc_package_names = {}, cc_situations = [],
     cc_roles = [demo_role]\<rparr>"


text \<open>In a compiled charter the role that enforcement applies to a phase is the role the phase execution was
  assigned when the workflow started: the two lookups, written separately, agree on every phase.\<close>

theorem role_lookups_agree:
  assumes "compile_charter cfg it source = Inr c"
  shows "map_option ro_name (find_role_for_phase phase w c) = get_phase_role c w phase"
proof -
  obtain r where "resolve cfg it (cc_ast c) = Inr r" by (rule compile_Inr [OF assms])
  then have "valid_charter cfg (cc_ast c)" using resolve_accepts_iff by blast
  then show ?thesis by (intro find_role_agrees) (simp add: valid_charter_def)
qed

definition role_source :: string where
  "role_source =
    ''charter '' @ [double_quote] @ ''R'' @ [double_quote] @ '' v1'' @ [newline] @
    ''workflow m:'' @ [newline] @ ''  phase s:'' @ [newline] @ ''    action v()'' @ [newline] @
    ''roles:'' @ [newline] @ ''  hr:'' @ [newline] @ ''    actions: [v]'' @ [newline]"

theorem role_lookups_agree_witness:
  "\<exists>c. compile_charter no_registries sorted_list_of_set role_source = Inr c \<and>
     map_option ro_name (find_role_for_phase ''s'' ''m'' c) = Some ''hr'' \<and> get_phase_role c ''m'' ''s'' = Some ''hr''"
proof -
  have "map_sum id (\<lambda>c. get_phase_role c ''m'' ''s'') (compile_charter no_registries sorted_list_of_set role_source) =
      Inr (Some ''hr'')" by code_simp
  then obtain c where c: "compile_charter no_registries sorted_list_of_set role_source = Inr c"
    "get_phase_role c ''m'' ''s'' = Some ''hr''"
    by (cases "compile_charter no_registries sorted_list_of_set role_source")
      (simp_all only: map_sum.simps sum.distinct sum.inject)
  with role_lookups_agree [OF c(1)] show ?thesis by metis
qed

end
