(* ===== verification/Grants.thy ===== *)
theory Grants
  imports Runtime_Db
begin

text \<open>
  Just-in-time document grants (\<open>libs/canon/src/canon/runtime/grants.py\<close>) and the token entity
  (\<open>libs/canon/src/canon/entities/workflows/document_access.py\<close>). A timestamp counts microseconds from 1970-01-01 UTC;
  adding a time span raises \<open>OverflowError\<close> outside the years 1 to 9999. Where \<open>ORDER BY issued_at DESC\<close> leaves ties
  open the model keeps table order.
\<close>

datatype grant_error = OverflowError

definition PHASE_GRANT_SAFETY_HOURS :: int where
  "PHASE_GRANT_SAFETY_HOURS = 48"

definition minutes :: "int \<Rightarrow> timestamp" where
  "minutes m = m * 60000000"

definition hours :: "int \<Rightarrow> timestamp" where
  "hours h = h * 3600000000"

definition min_timestamp :: timestamp where
  "min_timestamp = - 62135596800000000"

definition max_timestamp :: timestamp where
  "max_timestamp = 253402300799999999"

definition add_time :: "timestamp \<Rightarrow> timestamp \<Rightarrow> (grant_error, timestamp) result" where
  "add_time now delta =
    (if min_timestamp \<le> now + delta \<and> now + delta \<le> max_timestamp then Inr (now + delta) else Inl OverflowError)"

record GrantResult =
  gt_token_id :: uuid
  gt_document_type :: string
  gt_grantee_id :: uuid
  gt_subject_id :: uuid
  gt_expires_at :: "timestamp option"
  gt_is_phase_scoped :: bool

record AccessCheckResult =
  ac_allowed :: bool
  ac_token_id :: "uuid option"
  ac_reason :: string
  ac_document_type :: "string option"
  ac_subject_id :: "uuid option"

section \<open>Operations\<close>

definition usable :: "timestamp \<Rightarrow> token_row \<Rightarrow> bool" where
  "usable now t \<longleftrightarrow> dt_status t \<in> {''active'', ''used''} \<and> now < dt_expires_at t"

text \<open>\<open>ORDER BY issued_at DESC\<close>.\<close>

definition newest_first :: "token_row list \<Rightarrow> token_row list" where
  "newest_first ts = sort_key (\<lambda>t. - dt_issued_at t) ts"

definition check_document_access :: "timestamp \<Rightarrow> uuid \<Rightarrow> uuid \<Rightarrow> string \<Rightarrow> db \<Rightarrow> AccessCheckResult" where
  "check_document_access now user_id subject_id document_type d =
    (case newest_first (select (\<lambda>t. dt_grantee_id t = user_id \<and> dt_subject_id t = subject_id \<and>
             dt_document_type t = document_type \<and> usable now t) (document_access_tokens d)) of
       [] \<Rightarrow>
         \<lparr>ac_allowed = False, ac_token_id = None,
          ac_reason = ''No valid grant for document type '' @ [CHR 0x27] @ document_type @ [CHR 0x27],
          ac_document_type = Some document_type, ac_subject_id = Some subject_id\<rparr>
     | t # _ \<Rightarrow>
         \<lparr>ac_allowed = True, ac_token_id = Some (dt_id t), ac_reason = ''Valid document access grant'',
          ac_document_type = Some document_type, ac_subject_id = Some subject_id\<rparr>)"

definition update_tokens :: "(token_row \<Rightarrow> bool) \<Rightarrow> (token_row \<Rightarrow> token_row) \<Rightarrow> db \<Rightarrow> db" where
  "update_tokens where chg d = d\<lparr>document_access_tokens := update_rows where chg (document_access_tokens d)\<rparr>"

definition record_document_access :: "timestamp \<Rightarrow> uuid \<Rightarrow> db \<Rightarrow> db" where
  "record_document_access now token_id d =
    update_tokens (\<lambda>t. dt_id t = token_id)
      (\<lambda>t. t\<lparr>dt_status := ''used'', dt_access_count := dt_access_count t + 1, dt_last_accessed_at := Some now,
            dt_first_accessed_at := (case dt_first_accessed_at t of None \<Rightarrow> Some now | Some f \<Rightarrow> Some f),
            dt_updated_at := now\<rparr>) d"

definition document_type_to_purpose :: "string \<Rightarrow> string" where
  "document_type_to_purpose document_type =
    (case map_of
       [(''resume'', ''resume_review''), (''background_report'', ''background_check''), (''offer_letter'', ''offer_review''),
        (''offer_letter_draft'', ''offer_review''), (''pip_plan'', ''pip_review''), (''performance_report'', ''pip_review''),
        (''termination_certificate'', ''termination_review''), (''decision_certificate'', ''termination_review''),
        (''separation_agreement'', ''termination_review'')] document_type of
       None \<Rightarrow> ''resume_review'' | Some p \<Rightarrow> p)"

definition new_token ::
  "uuid \<Rightarrow> timestamp \<Rightarrow> timestamp \<Rightarrow> uuid \<Rightarrow> string \<Rightarrow> uuid \<Rightarrow> uuid \<Rightarrow> uuid \<Rightarrow> uuid option \<Rightarrow> token_row" where
  "new_token token_id now expires run_id document_type grantee_id subject_id tenant_id step_id =
    \<lparr>dt_id = token_id, dt_tenant_id = tenant_id, dt_subject_id = subject_id, dt_grantee_id = grantee_id,
     dt_workflow_instance_id = Some run_id, dt_workflow_step_id = step_id, dt_document_type = document_type,
     dt_purpose = document_type_to_purpose document_type, dt_status = ''active'', dt_issued_at = now,
     dt_expires_at = expires, dt_access_count = 0, dt_first_accessed_at = None, dt_last_accessed_at = None,
     dt_revoked_at = None, dt_revoked_by_id = None, dt_revocation_reason = None, dt_updated_at = now\<rparr>"

definition create_phase_grant ::
  "uuid \<Rightarrow> timestamp \<Rightarrow> uuid \<Rightarrow> GrantNode \<Rightarrow> uuid \<Rightarrow> uuid \<Rightarrow> uuid \<Rightarrow> uuid option \<Rightarrow> db \<Rightarrow>
   (grant_error, GrantResult \<times> db) result" where
  "create_phase_grant token_id now run_id grant grantee_id subject_id tenant_id step_id d =
    bind_r (add_time now (case gr_ttl_minutes grant of Some ttl \<Rightarrow> minutes ttl | None \<Rightarrow> hours PHASE_GRANT_SAFETY_HOURS))
      (\<lambda>expires. Inr
        (\<lparr>gt_token_id = token_id, gt_document_type = gr_document_type grant, gt_grantee_id = grantee_id,
          gt_subject_id = subject_id, gt_expires_at = Some expires, gt_is_phase_scoped = (gr_ttl_minutes grant = None)\<rparr>,
         d\<lparr>document_access_tokens := document_access_tokens d @
             [new_token token_id now expires run_id (gr_document_type grant) grantee_id subject_id tenant_id step_id]\<rparr>))"

definition revoke_token :: "timestamp \<Rightarrow> uuid \<Rightarrow> string \<Rightarrow> token_row \<Rightarrow> token_row" where
  "revoke_token now user_id reason t =
    t\<lparr>dt_status := ''revoked'', dt_revoked_at := Some now, dt_revoked_by_id := Some user_id,
      dt_revocation_reason := Some reason, dt_updated_at := now\<rparr>"

definition revoke_phase_grants :: "timestamp \<Rightarrow> uuid \<Rightarrow> string \<Rightarrow> uuid \<Rightarrow> string \<Rightarrow> db \<Rightarrow> nat \<times> db" where
  "revoke_phase_grants now run_id phase user_id reason d =
    (let revocable = (\<lambda>t. dt_workflow_instance_id t = Some run_id \<and> dt_status t \<in> {''active'', ''used''})
     in (count_rows revocable (document_access_tokens d),
         update_tokens revocable
           (revoke_token now user_id (''Phase '' @ [CHR 0x27] @ phase @ [CHR 0x27] @ '' completed: '' @ reason)) d))"

text \<open>The loop that creates the new grants; the \<open>i\<close>-th new token has the id \<open>ids i\<close>.\<close>

fun create_grants ::
  "(nat \<Rightarrow> uuid) \<Rightarrow> timestamp \<Rightarrow> uuid \<Rightarrow> GrantNode list \<Rightarrow> uuid \<Rightarrow> uuid \<Rightarrow> uuid \<Rightarrow> uuid option \<Rightarrow> db \<Rightarrow>
   (grant_error, GrantResult list \<times> db) result" where
  "create_grants ids now run_id [] grantee_id subject_id tenant_id step_id d = Inr ([], d)"
| "create_grants ids now run_id (g # gs) grantee_id subject_id tenant_id step_id d =
    bind_r (create_phase_grant (ids 0) now run_id g grantee_id subject_id tenant_id step_id d) (\<lambda>(res, d').
      bind_r (create_grants (\<lambda>i. ids (Suc i)) now run_id gs grantee_id subject_id tenant_id step_id d') (\<lambda>(rest, d'').
        Inr (res # rest, d'')))"

definition transfer_phase_grants ::
  "(nat \<Rightarrow> uuid) \<Rightarrow> timestamp \<Rightarrow> uuid \<Rightarrow> string \<Rightarrow> GrantNode list \<Rightarrow> uuid \<Rightarrow> uuid \<Rightarrow> uuid \<Rightarrow> uuid \<Rightarrow> uuid option \<Rightarrow> db \<Rightarrow>
   (grant_error, GrantResult list \<times> db) result" where
  "transfer_phase_grants ids now run_id phase grants from_user to_user subject_id tenant_id step_id d =
    bind_r (create_grants ids now run_id grants to_user subject_id tenant_id step_id d) (\<lambda>(new_grants, d').
      Inr (new_grants,
        update_tokens
          (\<lambda>t. dt_workflow_instance_id t = Some run_id \<and> dt_grantee_id t = from_user \<and> dt_status t \<in> {''active'', ''used''})
          (revoke_token now from_user
             (''Phase '' @ [CHR 0x27] @ phase @ [CHR 0x27] @ '' delegated to user '' @ to_user)) d'))"

text \<open>An absent filter does not restrict; a UUID is never false in Python.\<close>

definition get_active_grants :: "timestamp \<Rightarrow> uuid \<Rightarrow> uuid option \<Rightarrow> uuid option \<Rightarrow> db \<Rightarrow> token_row list" where
  "get_active_grants now run_id step_id grantee_id d =
    newest_first (select (\<lambda>t. dt_workflow_instance_id t = Some run_id \<and> usable now t \<and>
      (case step_id of None \<Rightarrow> True | Some s \<Rightarrow> dt_workflow_step_id t = Some s) \<and>
      (case grantee_id of None \<Rightarrow> True | Some g \<Rightarrow> dt_grantee_id t = g)) (document_access_tokens d))"

end
