(* ===== verification/Grants_Correct.thy ===== *)
theory Grants_Correct
  imports Grants
begin

text \<open>
  Properties of the document grants: when access is allowed, how long a grant lives, what a revocation and a
  delegation do, and the state machine of the grant operations with its invariant.
\<close>

section \<open>Access\<close>

text \<open>A token gives access while it is active or used and has not expired.\<close>

definition live :: "timestamp \<Rightarrow> token_row \<Rightarrow> bool" where
  "live now t \<longleftrightarrow> (dt_status t = ''active'' \<or> dt_status t = ''used'') \<and> now < dt_expires_at t"

lemma usable_live: "usable = live"
  by (auto simp: fun_eq_iff usable_def live_def)

definition grants_access :: "uuid \<Rightarrow> uuid \<Rightarrow> string \<Rightarrow> timestamp \<Rightarrow> token_row \<Rightarrow> bool" where
  "grants_access user subject document now t \<longleftrightarrow>
     dt_grantee_id t = user \<and> dt_subject_id t = subject \<and> dt_document_type t = document \<and> live now t"

lemma set_newest_first [simp]: "set (newest_first ts) = set ts"
  by (simp add: newest_first_def)

lemma newest_first_head:
  assumes "newest_first ts = t # rest" "t' \<in> set ts"
  shows "dt_issued_at t' \<le> dt_issued_at t"
proof -
  have "sorted (map (\<lambda>t. - dt_issued_at t) (t # rest))"
    using sorted_sort_key [of "\<lambda>t. - dt_issued_at t" ts] unfolding assms(1) [unfolded newest_first_def] .
  moreover have "t' \<in> set (t # rest)" using assms set_newest_first [of ts] by simp
  ultimately show ?thesis by auto
qed

lemma check_document_access_cases:
  "check_document_access now user subject document d =
   (case newest_first (filter (grants_access user subject document now) (document_access_tokens d)) of
      [] \<Rightarrow> \<lparr>ac_allowed = False, ac_token_id = None,
          ac_reason = ''No valid grant for document type '' @ [CHR 0x27] @ document @ [CHR 0x27],
          ac_document_type = Some document, ac_subject_id = Some subject\<rparr>
    | t # _ \<Rightarrow> \<lparr>ac_allowed = True, ac_token_id = Some (dt_id t), ac_reason = ''Valid document access grant'',
          ac_document_type = Some document, ac_subject_id = Some subject\<rparr>)"
  by (simp add: check_document_access_def select_def grants_access_def [abs_def] usable_live)

lemma access_allowed_iff:
  "ac_allowed (check_document_access now user subject document d) \<longleftrightarrow>
   (\<exists>t\<in>set (document_access_tokens d). grants_access user subject document now t)"
proof -
  let ?ts = "newest_first (filter (grants_access user subject document now) (document_access_tokens d))"
  have "?ts \<noteq> [] \<longleftrightarrow> (\<exists>t\<in>set (document_access_tokens d). grants_access user subject document now t)"
    using set_newest_first [of "filter (grants_access user subject document now) (document_access_tokens d)"]
    by (metis filter_empty_conv set_empty)
  then show ?thesis by (cases ?ts) (simp_all add: check_document_access_cases)
qed

section \<open>Operations on tokens\<close>

lemma tokens_update [simp]:
  "document_access_tokens (update_tokens P f d) = update_rows P f (document_access_tokens d)"
  by (simp add: update_tokens_def)

lemma create_phase_grant_Inr:
  assumes "create_phase_grant i now run g grantee subject ten step d = Inr (res, d')"
  obtains e where "add_time now (case gr_ttl_minutes g of Some ttl \<Rightarrow> minutes ttl | None \<Rightarrow> hours PHASE_GRANT_SAFETY_HOURS) = Inr e"
    "gt_expires_at res = Some e" "gt_document_type res = gr_document_type g"
    "document_access_tokens d' = document_access_tokens d @
       [new_token i now e run (gr_document_type g) grantee subject ten step]"
  using assms by (auto simp: create_phase_grant_def)

lemma valid_grant_lifetime:
  assumes "valid_grant g"
    "add_time now (case gr_ttl_minutes g of Some ttl \<Rightarrow> minutes ttl | None \<Rightarrow> hours PHASE_GRANT_SAFETY_HOURS) = Inr e"
  shows "now + minutes 1 \<le> e" "e \<le> now + hours 48"
  using assms by (auto simp: valid_grant_def add_time_def minutes_def hours_def PHASE_GRANT_SAFETY_HOURS_def
      split: option.splits if_splits)

lemma new_token_grants:
  "now' < e \<Longrightarrow> grants_access grantee subject document now' (new_token i now e run document grantee subject ten step)"
  by (simp add: grants_access_def new_token_def live_def)

text \<open>What no operation changes in a token.\<close>

definition token_terms :: "token_row \<Rightarrow> uuid \<times> uuid \<times> uuid \<times> string \<times> uuid option \<times> timestamp \<times> timestamp" where
  "token_terms t = (dt_id t, dt_grantee_id t, dt_subject_id t, dt_document_type t, dt_workflow_instance_id t,
     dt_issued_at t, dt_expires_at t)"

lemma update_rows_map: "(\<And>r. g (f r) = g r) \<Longrightarrow> map g (update_rows P f rows) = map g rows"
  by (simp add: update_rows_def)

lemma revoke_token_simps [simp]:
  "token_terms (revoke_token now u reason t) = token_terms t" "dt_status (revoke_token now u reason t) = ''revoked''"
  by (simp_all add: revoke_token_def token_terms_def)

lemma revoked_not_live [simp]: "\<not> live now' (revoke_token now u reason t)"
  by (simp add: live_def)

lemma live_after_revoke:
  assumes "t \<in> set (update_rows P (revoke_token now u reason) ts)" "live now' t"
  shows "t \<in> set ts \<and> \<not> P t"
  using assms by (auto simp: update_rows_def split: if_splits)

lemma list_all2_partner:
  assumes "list_all2 P xs ys" "x \<in> set xs"
  obtains y where "y \<in> set ys" "P x y"
proof -
  obtain i where i: "i < length xs" "xs ! i = x" using assms(2) by (auto simp: in_set_conv_nth)
  with assms(1) have "ys ! i \<in> set ys" "P x (ys ! i)" by (auto simp: list_all2_conv_all_nth)
  then show thesis by (rule that)
qed

lemma create_grants_Inr:
  "create_grants ids now run gs grantee subject ten step d = Inr (results, d') \<Longrightarrow>
   \<exists>new. document_access_tokens d' = document_access_tokens d @ new \<and> map gt_document_type results = map gr_document_type gs \<and>
     list_all2 (\<lambda>res t. gt_expires_at res = Some (dt_expires_at t) \<and> gt_document_type res = dt_document_type t) results new \<and>
     (\<forall>t\<in>set new. dt_grantee_id t = grantee \<and> dt_subject_id t = subject \<and> dt_workflow_instance_id t = Some run \<and>
        dt_status t = ''active'' \<and> dt_issued_at t = now) \<and>
     ((\<forall>g\<in>set gs. valid_grant g) \<longrightarrow> (\<forall>t\<in>set new. dt_expires_at t \<le> dt_issued_at t + hours 48))"
proof (induction gs arbitrary: ids d results)
  case Nil
  then show ?case by simp
next
  case (Cons g gs)
  obtain res d1 rest where res: "create_phase_grant (ids 0) now run g grantee subject ten step d = Inr (res, d1)"
    and rest: "create_grants (\<lambda>i. ids (Suc i)) now run gs grantee subject ten step d1 = Inr (rest, d')"
    and results: "results = res # rest" using Cons.prems by auto
  obtain e where e: "add_time now (case gr_ttl_minutes g of Some ttl \<Rightarrow> minutes ttl | None \<Rightarrow> hours PHASE_GRANT_SAFETY_HOURS) = Inr e"
    "gt_expires_at res = Some e" "gt_document_type res = gr_document_type g"
    "document_access_tokens d1 = document_access_tokens d @
       [new_token (ids 0) now e run (gr_document_type g) grantee subject ten step]"
    by (rule create_phase_grant_Inr [OF res])
  from Cons.IH [OF rest] obtain new where new: "document_access_tokens d' = document_access_tokens d1 @ new"
    "map gt_document_type rest = map gr_document_type gs"
    "list_all2 (\<lambda>res t. gt_expires_at res = Some (dt_expires_at t) \<and> gt_document_type res = dt_document_type t) rest new"
    "\<forall>t\<in>set new. dt_grantee_id t = grantee \<and> dt_subject_id t = subject \<and> dt_workflow_instance_id t = Some run \<and>
        dt_status t = ''active'' \<and> dt_issued_at t = now"
    "(\<forall>g\<in>set gs. valid_grant g) \<longrightarrow> (\<forall>t\<in>set new. dt_expires_at t \<le> dt_issued_at t + hours 48)" by blast
  show ?case
    using new e results valid_grant_lifetime(2) [OF _ e(1)]
    by (intro exI [of _ "new_token (ids 0) now e run (gr_document_type g) grantee subject ten step # new"])
      (simp add: new_token_def)
qed

section \<open>The state machine of grants\<close>

text \<open>The operations on tokens with grants the resolver accepts, at any times and in any order.\<close>

inductive grant_step :: "db \<Rightarrow> db \<Rightarrow> bool" where
  create: "create_phase_grant i now run g grantee subject ten step d = Inr (res, d') \<Longrightarrow> valid_grant g \<Longrightarrow> grant_step d d'"
| access: "grant_step d (record_document_access now i d)"
| revoke: "grant_step d (snd (revoke_phase_grants now run phase user reason d))"
| transfer: "transfer_phase_grants ids now run phase gs from_user to_user subject ten step d = Inr (results, d') \<Longrightarrow>
    \<forall>g\<in>set gs. valid_grant g \<Longrightarrow> grant_step d d'"

inductive_cases grant_stepE: "grant_step d d'"

definition short_lived :: "token_row list \<Rightarrow> bool" where
  "short_lived ts \<longleftrightarrow> (\<forall>t\<in>set ts. dt_expires_at t \<le> dt_issued_at t + hours 48)"

lemma short_lived_terms: "short_lived ts \<longleftrightarrow> (\<forall>(i, g, s, doc, w, iss, ex)\<in>set (map token_terms ts). ex \<le> iss + hours 48)"
  by (simp add: short_lived_def token_terms_def)

lemma transfer_Inr:
  assumes "transfer_phase_grants ids now run phase gs from_user to_user subject ten step d = Inr (results, d')"
  obtains d1 where "create_grants ids now run gs to_user subject ten step d = Inr (results, d1)"
    "document_access_tokens d' = update_rows
       (\<lambda>t. dt_workflow_instance_id t = Some run \<and> dt_grantee_id t = from_user \<and> dt_status t \<in> {''active'', ''used''})
       (revoke_token now from_user (''Phase '' @ [CHR 0x27] @ phase @ [CHR 0x27] @ '' delegated to user '' @ to_user))
       (document_access_tokens d1)"
  using assms by (auto simp: transfer_phase_grants_def)

text \<open>A step keeps the terms of the tokens there are and appends short-lived ones.\<close>

lemma grant_step_terms:
  assumes "grant_step d d'"
  shows "\<exists>new. map token_terms (document_access_tokens d') = map token_terms (document_access_tokens d) @ map token_terms new \<and>
    short_lived new"
  using assms
proof cases
  case (create i now run g grantee subject ten step res)
  obtain e where e: "add_time now (case gr_ttl_minutes g of Some ttl \<Rightarrow> minutes ttl | None \<Rightarrow> hours PHASE_GRANT_SAFETY_HOURS) = Inr e"
    "document_access_tokens d' = document_access_tokens d @
       [new_token i now e run (gr_document_type g) grantee subject ten step]"
    by (rule create_phase_grant_Inr [OF create(1)])
  then show ?thesis
    using valid_grant_lifetime(2) [OF create(2) e(1)]
    by (intro exI [of _ "[new_token i now e run (gr_document_type g) grantee subject ten step]"])
      (simp add: short_lived_def new_token_def)
next
  case (access now i)
  then show ?thesis
    by (intro exI [of _ "[]"]) (simp add: record_document_access_def update_rows_map token_terms_def short_lived_def)
next
  case (revoke now run phase user reason)
  then show ?thesis
    by (intro exI [of _ "[]"]) (simp add: revoke_phase_grants_def Let_def update_rows_map short_lived_def)
next
  case (transfer ids now run phase gs from_user to_user subject ten step results)
  obtain d1 where d1: "create_grants ids now run gs to_user subject ten step d = Inr (results, d1)"
    "map token_terms (document_access_tokens d') = map token_terms (document_access_tokens d1)"
    by (rule transfer_Inr [OF transfer(1)]) (simp add: update_rows_map)
  with create_grants_Inr [OF d1(1)] transfer(2) show ?thesis by (auto simp: short_lived_def)
qed

lemma grant_steps_short_lived:
  assumes "grant_step\<^sup>*\<^sup>* d0 d" "short_lived (document_access_tokens d0)"
  shows "short_lived (document_access_tokens d)"
  using assms
proof (induction rule: rtranclp_induct)
  case (step d1 d2)
  then obtain new where "map token_terms (document_access_tokens d2) = map token_terms (document_access_tokens d1) @ map token_terms new"
    "short_lived new" using grant_step_terms by blast
  with step show ?case by (auto simp: short_lived_terms)
qed

section \<open>A sample\<close>

definition demo_token :: token_row where
  "demo_token = new_token ''t1'' 0 (minutes 30) ''r0'' ''resume'' ''u1'' ''s1'' ''tenant'' None"

definition grant_db :: "token_row list \<Rightarrow> db" where
  "grant_db ts =
    \<lparr>charters = [], charter_runs = [], phase_executions = [], evidences = [], document_access_tokens = ts, sessions = [],
     users = [], persons = []\<rparr>"

definition demo_grant :: GrantNode where
  "demo_grant = \<lparr>gr_document_type = ''resume'', gr_ttl_minutes = Some 30\<rparr>"

lemma demo_create:
  "create_phase_grant ''t1'' 0 ''r0'' demo_grant ''u1'' ''s1'' ''tenant'' None (grant_db []) =
   Inr (\<lparr>gt_token_id = ''t1'', gt_document_type = ''resume'', gt_grantee_id = ''u1'', gt_subject_id = ''s1'',
         gt_expires_at = Some (minutes 30), gt_is_phase_scoped = False\<rparr>, grant_db [demo_token])"
  by (simp add: create_phase_grant_def demo_grant_def grant_db_def demo_token_def add_time_def minutes_def
      min_timestamp_def max_timestamp_def)

lemma demo_valid: "valid_grant demo_grant"
  by (simp add: valid_grant_def demo_grant_def known_document_types_def)

lemma demo_reached: "grant_step\<^sup>*\<^sup>* (grant_db []) (grant_db [demo_token])"
  using grant_step.create [OF demo_create demo_valid] by blast

lemma demo_access: "0 \<le> now \<Longrightarrow> now < minutes 30 \<Longrightarrow> grants_access ''u1'' ''s1'' ''resume'' now demo_token"
  by (simp add: demo_token_def new_token_grants)

section \<open>Properties\<close>

text \<open>\<open>check_document_access\<close> allows access exactly when the user holds a token for the subject and document type that is
  active or used and not expired; the token it names is such a token, and the most recently issued of them.\<close>

theorem access_check_spec:
  "(ac_allowed (check_document_access now user subject document d) \<longleftrightarrow>
     (\<exists>t\<in>set (document_access_tokens d). grants_access user subject document now t)) \<and>
   (ac_allowed (check_document_access now user subject document d) \<longrightarrow>
     (\<exists>t\<in>set (document_access_tokens d). ac_token_id (check_document_access now user subject document d) = Some (dt_id t) \<and>
        grants_access user subject document now t \<and>
        (\<forall>t'\<in>set (document_access_tokens d). grants_access user subject document now t' \<longrightarrow> dt_issued_at t' \<le> dt_issued_at t)))"
proof (intro conjI access_allowed_iff impI)
  let ?ok = "filter (grants_access user subject document now) (document_access_tokens d)"
  assume "ac_allowed (check_document_access now user subject document d)"
  then obtain t rest where t: "newest_first ?ok = t # rest"
    by (cases "newest_first ?ok") (simp_all add: check_document_access_cases)
  have "t \<in> set ?ok" using set_newest_first [of ?ok] unfolding t by auto
  then have "t \<in> set (document_access_tokens d)" "grants_access user subject document now t" by simp_all
  moreover have "dt_issued_at t' \<le> dt_issued_at t" if "t' \<in> set ?ok" for t' by (rule newest_first_head [OF t that])
  ultimately show "\<exists>t\<in>set (document_access_tokens d). ac_token_id (check_document_access now user subject document d) = Some (dt_id t) \<and>
      grants_access user subject document now t \<and>
      (\<forall>t'\<in>set (document_access_tokens d). grants_access user subject document now t' \<longrightarrow> dt_issued_at t' \<le> dt_issued_at t)"
    using t by (intro bexI [of _ t]) (simp_all add: check_document_access_cases)
qed

theorem access_check_spec_witness:
  "ac_allowed (check_document_access 5 ''u1'' ''s1'' ''resume'' (grant_db [demo_token])) \<and>
   ac_token_id (check_document_access 5 ''u1'' ''s1'' ''resume'' (grant_db [demo_token])) = Some ''t1''"
proof -
  have "grants_access ''u1'' ''s1'' ''resume'' 5 demo_token" by (rule demo_access) (simp_all add: minutes_def)
  with access_check_spec [of 5 "''u1''" "''s1''" "''resume''" "grant_db [demo_token]"] show ?thesis
    by (simp add: grant_db_def demo_token_def new_token_def)
qed

text \<open>C32: Access is short-lived: whatever grant operations run, in any order and at any times, with grants the resolver
  accepts, every token expires within 48 hours of its issue and its terms never change, so an access allowed at a
  time rests on a token issued less than 48 hours before.\<close>

theorem access_is_short_lived:
  assumes "grant_step\<^sup>*\<^sup>* d0 d" "document_access_tokens d0 = []"
    "ac_allowed (check_document_access now user subject document d)"
  shows "\<exists>t\<in>set (document_access_tokens d). dt_grantee_id t = user \<and> dt_subject_id t = subject \<and>
    dt_document_type t = document \<and> now < dt_expires_at t \<and> now < dt_issued_at t + hours 48"
proof -
  have "short_lived (document_access_tokens d)"
    using grant_steps_short_lived [OF assms(1)] assms(2) by (simp add: short_lived_def)
  moreover obtain t where "t \<in> set (document_access_tokens d)" "grants_access user subject document now t"
    using assms(3) access_allowed_iff by blast
  ultimately show ?thesis by (intro bexI [of _ t]) (auto simp: short_lived_def grants_access_def live_def)
qed

theorem access_is_short_lived_witness:
  "grant_step\<^sup>*\<^sup>* (grant_db []) (grant_db [demo_token]) \<and>
   (\<exists>t\<in>set (document_access_tokens (grant_db [demo_token])). dt_grantee_id t = ''u1'' \<and> dt_subject_id t = ''s1'' \<and>
      dt_document_type t = ''resume'' \<and> 5 < dt_expires_at t \<and> 5 < dt_issued_at t + hours 48)"
proof -
  have "grants_access ''u1'' ''s1'' ''resume'' 5 demo_token" by (rule demo_access) (simp_all add: minutes_def)
  then have "ac_allowed (check_document_access 5 ''u1'' ''s1'' ''resume'' (grant_db [demo_token]))"
    by (simp add: access_allowed_iff grant_db_def)
  with access_is_short_lived [OF demo_reached _ this] demo_reached show ?thesis by (simp add: grant_db_def)
qed

text \<open>A grant the resolver accepts opens access at once and for a bounded time: the token that \<open>create_phase_grant\<close> issues
  expires between one minute and 48 hours after its issue, and until then the grantee may access the document.\<close>

theorem grant_opens_access:
  assumes "valid_grant g" "create_phase_grant i now run g grantee subject ten step d = Inr (res, d')"
  shows "\<exists>e. gt_expires_at res = Some e \<and> now + minutes 1 \<le> e \<and> e \<le> now + hours 48 \<and>
    (\<forall>t. now \<le> t \<and> t < e \<longrightarrow> ac_allowed (check_document_access t grantee subject (gr_document_type g) d'))"
proof (rule create_phase_grant_Inr [OF assms(2)])
  fix e
  assume e: "add_time now (case gr_ttl_minutes g of Some ttl \<Rightarrow> minutes ttl | None \<Rightarrow> hours PHASE_GRANT_SAFETY_HOURS) = Inr e"
    "gt_expires_at res = Some e" "document_access_tokens d' = document_access_tokens d @
       [new_token i now e run (gr_document_type g) grantee subject ten step]"
  then show ?thesis
    using valid_grant_lifetime [OF assms(1) e(1)] new_token_grants by (auto simp: access_allowed_iff)
qed

theorem grant_opens_access_witness:
  "valid_grant demo_grant \<and> ac_allowed (check_document_access (minutes 29) ''u1'' ''s1'' ''resume'' (grant_db [demo_token]))"
  using grant_opens_access [OF demo_valid demo_create] demo_valid by (auto simp: demo_grant_def minutes_def)

text \<open>Revoking the grants of a phase ends, for the whole run, all access under its tokens: afterwards no token of the run is
  live at any time, whichever phase issued it, the other tokens are as they were, and the number
  returned is that of the tokens revoked.\<close>

theorem revoke_ends_access:
  "(\<forall>t\<in>set (document_access_tokens (snd (revoke_phase_grants now run phase user reason d))).
      dt_workflow_instance_id t = Some run \<longrightarrow> \<not> live now' t) \<and>
   filter (\<lambda>t. dt_workflow_instance_id t \<noteq> Some run) (document_access_tokens (snd (revoke_phase_grants now run phase user reason d))) =
     filter (\<lambda>t. dt_workflow_instance_id t \<noteq> Some run) (document_access_tokens d) \<and>
   fst (revoke_phase_grants now run phase user reason d) =
     length (filter (\<lambda>t. dt_workflow_instance_id t = Some run \<and> dt_status t \<in> {''active'', ''used''}) (document_access_tokens d))"
proof (intro conjI ballI impI notI)
  let ?d' = "snd (revoke_phase_grants now run phase user reason d)"
  fix t assume t: "t \<in> set (document_access_tokens ?d')" "dt_workflow_instance_id t = Some run" "live now' t"
  have "dt_status t \<notin> {''active'', ''used''}"
    using live_after_revoke [OF _ t(3)] t(1,2) by (fastforce simp: revoke_phase_grants_def Let_def)
  with t(3) show False by (simp add: live_def)
next
  have "filter (\<lambda>t. dt_workflow_instance_id t \<noteq> Some run) (update_rows (\<lambda>t. dt_workflow_instance_id t = Some run \<and> dt_status t \<in> {''active'', ''used''})
      (revoke_token now user r) ts) = filter (\<lambda>t. dt_workflow_instance_id t \<noteq> Some run) ts" for r ts
    by (induction ts) (auto simp: update_rows_def revoke_token_def)
  then show "filter (\<lambda>t. dt_workflow_instance_id t \<noteq> Some run) (document_access_tokens (snd (revoke_phase_grants now run phase user reason d))) =
     filter (\<lambda>t. dt_workflow_instance_id t \<noteq> Some run) (document_access_tokens d)"
    by (simp add: revoke_phase_grants_def Let_def)
qed (simp add: revoke_phase_grants_def Let_def count_rows_def select_def)

theorem revoke_ends_access_witness:
  "\<not> live 6 (hd (document_access_tokens (snd (revoke_phase_grants 5 ''r0'' ''screen'' ''u1'' ''approved'' (grant_db [demo_token]))))) \<and>
   fst (revoke_phase_grants 5 ''r0'' ''screen'' ''u1'' ''approved'' (grant_db [demo_token])) = 1"
  using revoke_ends_access [of 5 "''r0''" "''screen''" "''u1''" "''approved''" "grant_db [demo_token]" 6]
  by (auto simp: revoke_phase_grants_def Let_def grant_db_def demo_token_def new_token_def update_rows_def count_rows_def select_def)

text \<open>Delegation moves access: after \<open>transfer_phase_grants\<close> to another user, the delegate may access every document type
  of the grants until the new token expires, and the former holder has no live token of the run left.\<close>

theorem transfer_moves_access:
  assumes "transfer_phase_grants ids now run phase gs from_user to_user subject ten step d = Inr (results, d')"
    "from_user \<noteq> to_user"
  shows "map gt_document_type results = map gr_document_type gs \<and>
    (\<forall>res\<in>set results. \<exists>e. gt_expires_at res = Some e \<and>
       (\<forall>t < e. ac_allowed (check_document_access t to_user subject (gt_document_type res) d'))) \<and>
    (\<forall>t\<in>set (document_access_tokens d'). dt_workflow_instance_id t = Some run \<and> dt_grantee_id t = from_user \<longrightarrow> \<not> live now' t)"
proof (rule transfer_Inr [OF assms(1)])
  let ?P = "\<lambda>t. dt_workflow_instance_id t = Some run \<and> dt_grantee_id t = from_user \<and> dt_status t \<in> {''active'', ''used''}"
  let ?f = "revoke_token now from_user (''Phase '' @ [CHR 0x27] @ phase @ [CHR 0x27] @ '' delegated to user '' @ to_user)"
  fix d1
  assume d1: "create_grants ids now run gs to_user subject ten step d = Inr (results, d1)"
    and d': "document_access_tokens d' = update_rows ?P ?f (document_access_tokens d1)"
  obtain new where new: "document_access_tokens d1 = document_access_tokens d @ new"
    "map gt_document_type results = map gr_document_type gs"
    "list_all2 (\<lambda>res t. gt_expires_at res = Some (dt_expires_at t) \<and> gt_document_type res = dt_document_type t) results new"
    "\<forall>t\<in>set new. dt_grantee_id t = to_user \<and> dt_subject_id t = subject \<and> dt_workflow_instance_id t = Some run \<and>
        dt_status t = ''active'' \<and> dt_issued_at t = now" using create_grants_Inr [OF d1] by blast
  have kept: "t \<in> set (document_access_tokens d')" if "t \<in> set new" for t
  proof -
    have "\<not> ?P t" using new(4) that assms(2) by auto
    then show ?thesis using that new(1) unfolding d' update_rows_def by force
  qed
  have "\<exists>e. gt_expires_at res = Some e \<and> (\<forall>t < e. ac_allowed (check_document_access t to_user subject (gt_document_type res) d'))"
    if res: "res \<in> set results" for res
  proof -
    obtain t where "t \<in> set new" "gt_expires_at res = Some (dt_expires_at t)" "gt_document_type res = dt_document_type t"
      by (rule list_all2_partner [OF new(3)]) (use res in blast)+
    with kept new(4) show ?thesis by (auto simp: access_allowed_iff grants_access_def live_def)
  qed
  moreover have "\<not> live now' t" if "t \<in> set (document_access_tokens d')" "dt_workflow_instance_id t = Some run" "dt_grantee_id t = from_user" for t
    using live_after_revoke [of t ?P] that d' by (auto simp: live_def)
  ultimately show ?thesis using new(2) by blast
qed

theorem transfer_moves_access_witness:
  "\<exists>results d'. transfer_phase_grants (\<lambda>i. ''t2'') 5 ''r0'' ''screen'' [demo_grant] ''u1'' ''u2'' ''s1'' ''tenant'' None
      (grant_db [demo_token]) = Inr (results, d') \<and> map gt_document_type results = [''resume''] \<and>
    \<not> live 6 (hd (document_access_tokens d'))"
proof -
  obtain results d' where r: "transfer_phase_grants (\<lambda>i. ''t2'') 5 ''r0'' ''screen'' [demo_grant] ''u1'' ''u2'' ''s1'' ''tenant'' None
      (grant_db [demo_token]) = Inr (results, d')"
    by (simp add: transfer_phase_grants_def create_phase_grant_def demo_grant_def add_time_def minutes_def
        min_timestamp_def max_timestamp_def)
  then obtain x where x: "hd (document_access_tokens d') = revoke_token 5 ''u1'' x demo_token" "document_access_tokens d' \<noteq> []"
    by (auto simp: transfer_phase_grants_def create_phase_grant_def grant_db_def update_rows_def demo_token_def new_token_def)
  have "hd (document_access_tokens d') \<in> set (document_access_tokens d')" by (rule hd_in_set [OF x(2)])
  moreover have "dt_workflow_instance_id (hd (document_access_tokens d')) = Some ''r0''" "dt_grantee_id (hd (document_access_tokens d')) = ''u1''"
    unfolding x(1) by (simp_all add: revoke_token_def demo_token_def new_token_def)
  ultimately show ?thesis using transfer_moves_access [OF r, of 6] r by (auto simp: demo_grant_def)
qed

text \<open>Recording an access has no guard on the status: applied to a token that was revoked and has not expired, it makes the
  token live again, and the access check allows its grantee.\<close>

theorem revoked_token_reopens:
  assumes "t \<in> set (document_access_tokens d)" "dt_status t = ''revoked''" "now < dt_expires_at t"
  shows "\<not> live now t \<and>
    ac_allowed (check_document_access now (dt_grantee_id t) (dt_subject_id t) (dt_document_type t) (record_document_access now (dt_id t) d))"
proof -
  let ?f = "\<lambda>t. t\<lparr>dt_status := ''used'', dt_access_count := dt_access_count t + 1, dt_last_accessed_at := Some now,
            dt_first_accessed_at := (case dt_first_accessed_at t of None \<Rightarrow> Some now | Some f \<Rightarrow> Some f), dt_updated_at := now\<rparr>"
  have "?f t \<in> set (document_access_tokens (record_document_access now (dt_id t) d))"
    unfolding record_document_access_def tokens_update by (rule update_rows_mem [OF assms(1), of "\<lambda>t'. dt_id t' = dt_id t" ?f, OF refl])
  moreover have "grants_access (dt_grantee_id t) (dt_subject_id t) (dt_document_type t) now (?f t)"
    using assms(3) by (simp add: grants_access_def live_def)
  ultimately show ?thesis using assms(2) by (auto simp: access_allowed_iff live_def)
qed

theorem revoked_token_reopens_witness:
  "ac_allowed (check_document_access 5 ''u1'' ''s1'' ''resume''
     (record_document_access 5 ''t1'' (grant_db [revoke_token 4 ''u0'' ''done'' demo_token])))"
  using revoked_token_reopens [of "revoke_token 4 ''u0'' ''done'' demo_token" "grant_db [revoke_token 4 ''u0'' ''done'' demo_token]" 5]
  by (simp add: grant_db_def demo_token_def new_token_def revoke_token_def minutes_def)

end
