(* ===== verification/Inbox.thy ===== *)
theory Inbox
  imports Grants
begin

text \<open>
  The inbox queries (\<open>libs/canon/src/canon/runtime/inbox.py\<close>). A query is the filter of the joined rows, as SQL
  evaluates it: a comparison with NULL is not true, a left join keeps the run without a person, \<open>||\<close> with NULL is
  NULL, and \<open>ORDER BY ... ASC\<close> puts NULL last. Rows that tie on \<open>activated_at\<close> come in table order here.
\<close>

section \<open>Joined rows\<close>

record joined_row =
  jn_phase :: phase_row
  jn_run :: run_row
  jn_charter :: charter_row
  jn_person :: "person_row option"

definition left_join :: "('r \<Rightarrow> bool) \<Rightarrow> 'r list \<Rightarrow> 'r option list" where
  "left_join on rows = (case filter on rows of [] \<Rightarrow> [None] | rs \<Rightarrow> map Some rs)"

definition join_context :: "db \<Rightarrow> joined_row list" where
  "join_context d =
    [\<lparr>jn_phase = pe, jn_run = cr, jn_charter = c, jn_person = p\<rparr>.
       pe \<leftarrow> phase_executions d,
       cr \<leftarrow> filter (\<lambda>cr. cr_id cr = pe_run_id pe) (charter_runs d),
       c \<leftarrow> filter (\<lambda>c. chr_id c = cr_charter_id cr) (charters d),
       p \<leftarrow> left_join (\<lambda>p. pn_id p = cr_subject_id cr) (persons d)]"

definition sql_eq :: "'a option \<Rightarrow> 'a option \<Rightarrow> bool" where
  "sql_eq x y = (case (x, y) of (Some a, Some b) \<Rightarrow> a = b | _ \<Rightarrow> False)"

definition subject_name :: "person_row option \<Rightarrow> string" where
  "subject_name p =
    (case p of
       None \<Rightarrow> ''Unknown''
     | Some r \<Rightarrow>
         (case (pn_first_name r, pn_last_name r) of
            (Some f, Some l) \<Rightarrow> f @ '' '' @ l
          | _ \<Rightarrow> ''Unknown''))"

definition order_by_activated :: "('r \<Rightarrow> timestamp option) \<Rightarrow> 'r list \<Rightarrow> 'r list" where
  "order_by_activated key rows =
    sort_key (\<lambda>r. the (key r)) (filter (\<lambda>r. key r \<noteq> None) rows) @ filter (\<lambda>r. key r = None) rows"

datatype inbox_error =
    InvalidRowCountInLimitClause \<comment> \<open>PostgreSQL's error for a negative \<open>LIMIT\<close>\<close>
  | DateOverflowError

definition limit_rows :: "int option \<Rightarrow> 'r list \<Rightarrow> (inbox_error, 'r list) result" where
  "limit_rows limit rows =
    (case limit of
       None \<Rightarrow> Inr rows
     | Some n \<Rightarrow> if n = 0 then Inr rows else if n < 0 then Inl InvalidRowCountInLimitClause else Inr (take (nat n) rows))"

section \<open>Items\<close>

record InboxItem =
  ii_run_id :: uuid
  ii_phase_execution_id :: uuid
  ii_workflow_name :: string
  ii_phase_name :: string
  ii_assignee_role :: "string option"
  ii_assignee_id :: "uuid option"
  ii_charter_id :: uuid
  ii_charter_name :: string
  ii_subject_id :: uuid
  ii_subject_name :: string
  ii_related_entity_type :: string
  ii_related_entity_id :: uuid
  ii_waiting_since :: timestamp
  ii_waiting_days :: int
  ii_is_overdue :: bool
  ii_is_priority :: bool
  ii_grant_document_types :: "string list"

definition OVERDUE_DAYS :: int where
  "OVERDUE_DAYS = 5"

definition PRIORITY_DAYS :: int where
  "PRIORITY_DAYS = 3"

definition days :: "int \<Rightarrow> timestamp" where
  "days n = n * 86400000000"

text \<open>\<open>row["waiting_since"] or now\<close>, and \<open>max(0, (now - waiting_since).days)\<close>: the days of a timedelta are rounded down.\<close>

definition waiting_since :: "timestamp \<Rightarrow> phase_row \<Rightarrow> timestamp" where
  "waiting_since now pe = (case pe_activated_at pe of Some t \<Rightarrow> t | None \<Rightarrow> now)"

definition waiting_days :: "timestamp \<Rightarrow> phase_row \<Rightarrow> int" where
  "waiting_days now pe = max 0 ((now - waiting_since now pe) div days 1)"

definition inbox_item :: "timestamp \<Rightarrow> joined_row \<Rightarrow> InboxItem" where
  "inbox_item now j =
    (let pe = jn_phase j; cr = jn_run j
     in \<lparr>ii_run_id = pe_run_id pe, ii_phase_execution_id = pe_id pe, ii_workflow_name = pe_workflow_name pe,
         ii_phase_name = pe_phase_name pe, ii_assignee_role = pe_assignee_role pe, ii_assignee_id = pe_assignee_id pe,
         ii_charter_id = cr_charter_id cr, ii_charter_name = chr_name (jn_charter j),
         ii_subject_id = cr_subject_id cr, ii_subject_name = subject_name (jn_person j),
         ii_related_entity_type = cr_related_entity_type cr, ii_related_entity_id = cr_related_entity_id cr,
         ii_waiting_since = waiting_since now pe, ii_waiting_days = waiting_days now pe,
         ii_is_overdue = (waiting_days now pe \<ge> OVERDUE_DAYS), ii_is_priority = (waiting_days now pe \<ge> PRIORITY_DAYS),
         ii_grant_document_types = []\<rparr>)"

section \<open>Queries\<close>

text \<open>The \<open>WHERE\<close> of the user's inbox, for one row \<open>u\<close> of \<open>SELECT role FROM users WHERE id = $1\<close>.\<close>

definition waits_for ::
  "uuid \<Rightarrow> uuid \<Rightarrow> bool \<Rightarrow> string option \<Rightarrow> phase_row \<Rightarrow> run_row \<Rightarrow> bool" where
  "waits_for user_id tenant_id include_claimed_by_others role pe cr \<longleftrightarrow>
     pe_tenant_id pe = tenant_id \<and> pe_status pe = state_value WAITING_USER \<and> cr_status cr = ''active'' \<and>
     (sql_eq (pe_assignee_id pe) (Some user_id) \<or> sql_eq (pe_assignee_role pe) role) \<and>
     (include_claimed_by_others \<or> pe_assignee_id pe = None \<or> sql_eq (pe_assignee_id pe) (Some user_id))"

definition user_roles :: "uuid \<Rightarrow> db \<Rightarrow> string option list" where
  "user_roles user_id d = map us_role (filter (\<lambda>u. us_id u = user_id) (users d))"

definition get_user_inbox ::
  "timestamp \<Rightarrow> uuid \<Rightarrow> uuid \<Rightarrow> bool \<Rightarrow> int option \<Rightarrow> db \<Rightarrow> (inbox_error, InboxItem list) result" where
  "get_user_inbox now user_id tenant_id include_claimed_by_others limit d =
    map_sum id (map (inbox_item now))
      (limit_rows limit (order_by_activated (\<lambda>j. pe_activated_at (jn_phase j))
        [j. j \<leftarrow> join_context d, role \<leftarrow> user_roles user_id d,
            waits_for user_id tenant_id include_claimed_by_others role (jn_phase j) (jn_run j)]))"

definition get_inbox_count :: "uuid \<Rightarrow> uuid \<Rightarrow> db \<Rightarrow> nat" where
  "get_inbox_count user_id tenant_id d =
    length [(pe, cr, role).
       pe \<leftarrow> phase_executions d,
       cr \<leftarrow> filter (\<lambda>cr. cr_id cr = pe_run_id pe) (charter_runs d),
       role \<leftarrow> user_roles user_id d,
       waits_for user_id tenant_id False role pe cr]"

definition get_inbox_by_role ::
  "timestamp \<Rightarrow> string \<Rightarrow> uuid \<Rightarrow> int option \<Rightarrow> db \<Rightarrow> (inbox_error, InboxItem list) result" where
  "get_inbox_by_role now role tenant_id limit d =
    map_sum id (map (inbox_item now))
      (limit_rows limit (order_by_activated (\<lambda>j. pe_activated_at (jn_phase j))
        (filter (\<lambda>j. pe_tenant_id (jn_phase j) = tenant_id \<and> pe_status (jn_phase j) = state_value WAITING_USER \<and>
                      sql_eq (pe_assignee_role (jn_phase j)) (Some role) \<and> cr_status (jn_run j) = ''active'')
          (join_context d))))"

text \<open>\<open>timedelta(days=...)\<close> raises beyond 999999999 days, and so does the subtraction outside the years 1 to 9999.\<close>

definition overdue_threshold :: "timestamp \<Rightarrow> int \<Rightarrow> (inbox_error, timestamp) result" where
  "overdue_threshold now threshold_days =
    (if \<bar>threshold_days\<bar> > 999999999 then Inl DateOverflowError
     else map_sum (\<lambda>_. DateOverflowError) id (add_time now (- days threshold_days)))"

definition get_overdue_phases :: "timestamp \<Rightarrow> uuid \<Rightarrow> int \<Rightarrow> db \<Rightarrow> (inbox_error, InboxItem list) result" where
  "get_overdue_phases now tenant_id threshold_days d =
    bind_r (overdue_threshold now threshold_days) (\<lambda>threshold.
      Inr (map (\<lambda>j. (inbox_item now j)\<lparr>ii_is_overdue := True, ii_is_priority := True\<rparr>)
        (order_by_activated (\<lambda>j. pe_activated_at (jn_phase j))
          (filter (\<lambda>j. pe_tenant_id (jn_phase j) = tenant_id \<and> pe_status (jn_phase j) = state_value WAITING_USER \<and>
                        (case pe_activated_at (jn_phase j) of Some t \<Rightarrow> t < threshold | None \<Rightarrow> False) \<and>
                        cr_status (jn_run j) = ''active'')
            (join_context d)))))"

end
