(* ===== verification/Inbox_Correct.thy ===== *)
theory Inbox_Correct
  imports Inbox
begin

text \<open>
  Properties of the inbox: which phases it shows and in which order, the badge count, and when a phase is overdue.
\<close>

section \<open>Joins over keys\<close>

text \<open>What the schema enforces: the primary keys are unique, a phase execution refers to a run and a run to a charter.\<close>

definition schema_keys :: "db \<Rightarrow> bool" where
  "schema_keys d \<longleftrightarrow>
     distinct (map cr_id (charter_runs d)) \<and> distinct (map chr_id (charters d)) \<and> distinct (map pn_id (persons d)) \<and>
     distinct (map us_id (users d)) \<and>
     (\<forall>pe\<in>set (phase_executions d). pe_run_id pe \<in> cr_id ` set (charter_runs d)) \<and>
     (\<forall>cr\<in>set (charter_runs d). cr_charter_id cr \<in> chr_id ` set (charters d))"

lemma filter_key:
  assumes "distinct (map key rows)"
  shows "filter (\<lambda>r. key r = k) rows = (case find_first (\<lambda>r. key r = k) rows of None \<Rightarrow> [] | Some r \<Rightarrow> [r])"
  using assms
proof (induction rows)
  case (Cons r rows)
  show ?case
  proof (cases "key r = k")
    case True
    then have "\<forall>x\<in>set rows. key x \<noteq> k" using Cons.prems by (auto simp: image_iff)
    then have "filter (\<lambda>r. key r = k) rows = []" by (simp add: filter_empty_conv)
    with True show ?thesis by simp
  qed (use Cons in simp)
qed simp

lemma filter_key_present:
  assumes "distinct (map key rows)" "k \<in> key ` set rows"
  obtains r where "r \<in> set rows" "key r = k" "filter (\<lambda>r. key r = k) rows = [r]"
proof -
  obtain r where r: "find_first (\<lambda>r. key r = k) rows = Some r"
    using assms(2) find_first_None_iff [of "\<lambda>r. key r = k" rows] by (cases "find_first (\<lambda>r. key r = k) rows") auto
  with find_first_Some [OF r] show thesis by (intro that [of r]) (simp_all add: filter_key [OF assms(1)])
qed

text \<open>The run a phase execution belongs to.\<close>

definition run_for :: "db \<Rightarrow> phase_row \<Rightarrow> run_row" where
  "run_for d pe = hd (filter (\<lambda>cr. cr_id cr = pe_run_id pe) (charter_runs d))"

definition context_for :: "db \<Rightarrow> phase_row \<Rightarrow> joined_row" where
  "context_for d pe =
    \<lparr>jn_phase = pe, jn_run = run_for d pe,
     jn_charter = hd (filter (\<lambda>c. chr_id c = cr_charter_id (run_for d pe)) (charters d)),
     jn_person = hd (left_join (\<lambda>p. pn_id p = cr_subject_id (run_for d pe)) (persons d))\<rparr>"

lemma run_for:
  assumes "schema_keys d" "pe \<in> set (phase_executions d)"
  shows "filter (\<lambda>cr. cr_id cr = pe_run_id pe) (charter_runs d) = [run_for d pe]" "run_for d pe \<in> set (charter_runs d)"
    "cr_id (run_for d pe) = pe_run_id pe"
proof -
  obtain r where "r \<in> set (charter_runs d)" "cr_id r = pe_run_id pe"
    "filter (\<lambda>cr. cr_id cr = pe_run_id pe) (charter_runs d) = [r]"
    by (rule filter_key_present [of cr_id "charter_runs d" "pe_run_id pe"]) (use assms in \<open>auto simp: schema_keys_def\<close>)
  then show "filter (\<lambda>cr. cr_id cr = pe_run_id pe) (charter_runs d) = [run_for d pe]" "run_for d pe \<in> set (charter_runs d)"
    "cr_id (run_for d pe) = pe_run_id pe" by (simp_all add: run_for_def)
qed

lemma left_join_key:
  assumes "distinct (map key rows)"
  shows "left_join (\<lambda>r. key r = k) rows = [find_first (\<lambda>r. key r = k) rows]"
  by (simp add: left_join_def filter_key [OF assms] split: option.splits)

lemma join_context_keys:
  assumes "schema_keys d"
  shows "join_context d = map (context_for d) (phase_executions d)"
proof -
  have "concat (map (\<lambda>cr. concat (map (\<lambda>c. map (\<lambda>p. \<lparr>jn_phase = pe, jn_run = cr, jn_charter = c, jn_person = p\<rparr>)
            (left_join (\<lambda>p. pn_id p = cr_subject_id cr) (persons d)))
          (filter (\<lambda>c. chr_id c = cr_charter_id cr) (charters d)))) (filter (\<lambda>cr. cr_id cr = pe_run_id pe) (charter_runs d)))
      = [context_for d pe]" if pe: "pe \<in> set (phase_executions d)" for pe
  proof -
    note run = run_for [OF assms pe]
    obtain c where "filter (\<lambda>c. chr_id c = cr_charter_id (run_for d pe)) (charters d) = [c]"
      by (rule filter_key_present [of chr_id "charters d" "cr_charter_id (run_for d pe)"])
        (use assms run(2) in \<open>auto simp: schema_keys_def\<close>)
    then show ?thesis using assms by (simp add: run(1) context_for_def left_join_key schema_keys_def)
  qed
  then have "concat (map (\<lambda>pe. concat (map (\<lambda>cr. concat (map (\<lambda>c. map (\<lambda>p. \<lparr>jn_phase = pe, jn_run = cr, jn_charter = c, jn_person = p\<rparr>)
            (left_join (\<lambda>p. pn_id p = cr_subject_id cr) (persons d)))
          (filter (\<lambda>c. chr_id c = cr_charter_id cr) (charters d)))) (filter (\<lambda>cr. cr_id cr = pe_run_id pe) (charter_runs d))))
       (phase_executions d)) = concat (map (\<lambda>pe. [context_for d pe]) (phase_executions d))"
    by (intro arg_cong [of _ _ concat] map_cong refl)
  then show ?thesis by (simp add: join_context_def)
qed

section \<open>Order and limit\<close>

lemma sort_key_map: "sort_key k (map f xs) = map f (sort_key (\<lambda>x. k (f x)) xs)"
proof -
  have "insort_key k (f x) (map f ys) = map f (insort_key (\<lambda>x. k (f x)) x ys)" for x ys by (induction ys) auto
  then show ?thesis by (induction xs) auto
qed

lemma order_by_map: "order_by_activated key (map f rows) = map f (order_by_activated (\<lambda>r. key (f r)) rows)"
  by (simp add: order_by_activated_def filter_map sort_key_map comp_def)

lemma set_order_by [simp]: "set (order_by_activated key rows) = set rows"
  by (auto simp: order_by_activated_def)

lemma length_order_by [simp]: "length (order_by_activated key rows) = length rows"
  using sum_length_filter_compl [of "\<lambda>r. key r \<noteq> None" rows] by (simp add: order_by_activated_def)

text \<open>Oldest first, those without an activation time last.\<close>

lemma order_by_sorted:
  "sorted_wrt (\<lambda>r s. case key s of None \<Rightarrow> True | Some t \<Rightarrow> (\<exists>t'. key r = Some t' \<and> t' \<le> t)) (order_by_activated key rows)"
proof -
  have "sorted_wrt (\<lambda>r s. the (key r) \<le> the (key s)) (sort_key (\<lambda>r. the (key r)) (filter (\<lambda>r. key r \<noteq> None) rows))"
    using sorted_sort_key [of "\<lambda>r. the (key r)" "filter (\<lambda>r. key r \<noteq> None) rows"] by (simp add: sorted_map)
  then have "sorted_wrt (\<lambda>r s. case key s of None \<Rightarrow> True | Some t \<Rightarrow> (\<exists>t'. key r = Some t' \<and> t' \<le> t))
      (sort_key (\<lambda>r. the (key r)) (filter (\<lambda>r. key r \<noteq> None) rows))"
    by (rule sorted_wrt_mono_rel [rotated]) auto
  moreover have "sorted_wrt (\<lambda>r s. case key s of None \<Rightarrow> True | Some t \<Rightarrow> (\<exists>t'. key r = Some t' \<and> t' \<le> t))
      (filter (\<lambda>r. key r = None) rows)"
    by (induction rows) auto
  ultimately show ?thesis by (auto simp: order_by_activated_def sorted_wrt_append)
qed

section \<open>Days\<close>

lemma waiting_days_ge: "0 < n \<Longrightarrow> n \<le> waiting_days now pe \<longleftrightarrow> days n \<le> now - waiting_since now pe"
  by (auto simp: waiting_days_def days_def)


section \<open>The queries over keys\<close>

lemma user_roles_key:
  assumes "schema_keys d" "u \<in> set (users d)"
  shows "user_roles (us_id u) d = [us_role u]"
proof -
  obtain u' where u': "u' \<in> set (users d)" "us_id u' = us_id u" "filter (\<lambda>x. us_id x = us_id u) (users d) = [u']"
    by (rule filter_key_present [of us_id "users d" "us_id u"]) (use assms in \<open>auto simp: schema_keys_def\<close>)
  then have "u' = u" using assms by (auto simp: schema_keys_def distinct_map inj_on_def)
  with u' show ?thesis by (simp add: user_roles_def)
qed

text \<open>A phase waits for a user: it is waiting, in an active run, and assigned to the user or, unclaimed, to the user's
  role.\<close>

definition in_inbox :: "user_row \<Rightarrow> uuid \<Rightarrow> db \<Rightarrow> phase_row \<Rightarrow> bool" where
  "in_inbox u tenant d pe \<longleftrightarrow>
     pe_tenant_id pe = tenant \<and> pe_status pe = ''waiting_user'' \<and> cr_status (run_for d pe) = ''active'' \<and>
     (pe_assignee_id pe = Some (us_id u) \<or>
      pe_assignee_id pe = None \<and> pe_assignee_role pe \<noteq> None \<and> pe_assignee_role pe = us_role u)"

lemma waits_for_in_inbox:
  "waits_for (us_id u) tenant False (us_role u) pe (run_for d pe) \<longleftrightarrow> in_inbox u tenant d pe"
  by (auto simp: waits_for_def in_inbox_def sql_eq_def split: option.splits)

lemma context_for_simps [simp]: "jn_phase (context_for d pe) = pe" "jn_run (context_for d pe) = run_for d pe"
  by (simp_all add: context_for_def)

lemma inbox_item_id [simp]: "ii_phase_execution_id (inbox_item now j) = pe_id (jn_phase j)"
  by (simp add: inbox_item_def Let_def)

lemma inbox_rows:
  assumes "schema_keys d" "u \<in> set (users d)"
  shows "[j. j \<leftarrow> join_context d, role \<leftarrow> user_roles (us_id u) d,
            waits_for (us_id u) tenant False role (jn_phase j) (jn_run j)] =
         map (context_for d) (filter (in_inbox u tenant d) (phase_executions d))"
proof -
  have "concat (map (\<lambda>pe. if in_inbox u tenant d pe then [context_for d pe] else []) pes) =
      map (context_for d) (filter (in_inbox u tenant d) pes)" for pes by (induction pes) auto
  then show ?thesis
    by (simp add: join_context_keys [OF assms(1)] user_roles_key [OF assms] waits_for_in_inbox comp_def)
qed

lemma inbox_count_rows:
  assumes "schema_keys d" "u \<in> set (users d)"
  shows "get_inbox_count (us_id u) tenant d = length (filter (in_inbox u tenant d) (phase_executions d))"
proof -
  have "concat (map (\<lambda>cr. if waits_for (us_id u) tenant False (us_role u) pe cr then [(pe, cr, us_role u)] else [])
      (filter (\<lambda>cr. cr_id cr = pe_run_id pe) (charter_runs d))) =
      (if in_inbox u tenant d pe then [(pe, run_for d pe, us_role u)] else [])"
    if "pe \<in> set (phase_executions d)" for pe
    using run_for(1) [OF assms(1) that] waits_for_in_inbox [of u tenant pe d] by simp
  then have "length (concat (map (\<lambda>pe. concat (map (\<lambda>cr. if waits_for (us_id u) tenant False (us_role u) pe cr then [(pe, cr, us_role u)] else [])
      (filter (\<lambda>cr. cr_id cr = pe_run_id pe) (charter_runs d)))) pes)) = length (filter (in_inbox u tenant d) pes)"
    if "set pes \<subseteq> set (phase_executions d)" for pes
    using that by (induction pes) auto
  then show ?thesis by (simp add: get_inbox_count_def user_roles_key [OF assms])
qed

section \<open>A sample\<close>

definition phase_waiting_since :: "uuid \<Rightarrow> timestamp \<Rightarrow> string option \<Rightarrow> uuid option \<Rightarrow> phase_row" where
  "phase_waiting_since i since role assignee =
    \<lparr>pe_id = i, pe_tenant_id = ''ten'', pe_run_id = ''r1'', pe_workflow_name = ''main'', pe_phase_name = i, pe_sequence = 0,
     pe_requires_phases = [], pe_assignee_role = role, pe_assignee_id = assignee, pe_status = ''waiting_user'',
     pe_activated_at = Some since, pe_action_taken = None, pe_action_at = None, pe_action_by_id = None,
     pe_action_notes = None, pe_failure_reason = None, pe_failed_gate = None, pe_trigger_names = None,
     pe_created_at = 0, pe_updated_at = 0\<rparr>"

definition inbox_run :: run_row where
  "inbox_run =
    \<lparr>cr_id = ''r1'', cr_tenant_id = ''ten'', cr_charter_id = ''c1'', cr_subject_id = ''s1'', cr_related_entity_type = ''offer'',
     cr_related_entity_id = ''o1'', cr_current_workflow = ''main'', cr_current_phase = None, cr_status = ''active'',
     cr_initiated_by_id = ''u1'', cr_initiated_at = 0, cr_started_at = 0, cr_completed_at = None, cr_final_outcome = None,
     cr_failure_reason = None, cr_run_context = [], cr_created_at = 0, cr_updated_at = 0\<rparr>"

definition hr_user :: user_row where
  "hr_user = \<lparr>us_id = ''u1'', us_role = Some ''hr''\<rparr>"

definition inbox_db :: db where
  "inbox_db =
    \<lparr>charters = [\<lparr>chr_id = ''c1'', chr_name = ''Hiring'', chr_source = [], chr_content_hash = None\<rparr>],
     charter_runs = [inbox_run],
     phase_executions = [phase_waiting_since ''p1'' 20 (Some ''hr'') None, phase_waiting_since ''p2'' 10 None (Some ''u1''),
       phase_waiting_since ''p3'' 5 (Some ''hr'') (Some ''u2''), phase_waiting_since ''p4'' 0 (Some ''svp'') None],
     evidences = [], document_access_tokens = [], sessions = [], users = [hr_user], persons = []\<rparr>"

lemma inbox_db_keys: "schema_keys inbox_db"
  by (simp add: schema_keys_def inbox_db_def inbox_run_def phase_waiting_since_def hr_user_def)

lemma inbox_db_user: "hr_user \<in> set (users inbox_db)"
  by (simp add: inbox_db_def)

section \<open>Properties\<close>

text \<open>C34: A user's inbox is exactly the phases waiting for the user, each once, oldest first: those in \<open>waiting_user\<close> of an active
  run of the tenant that are assigned to the user or, unclaimed, to the user's role; a positive limit keeps the oldest ones.
  A user with no row has an empty inbox.\<close>

theorem inbox_shows_waiting:
  assumes "schema_keys d"
  shows "(u \<in> set (users d) \<longrightarrow>
      map_sum id (map ii_phase_execution_id) (get_user_inbox now (us_id u) tenant False limit d) =
      limit_rows limit (map pe_id (order_by_activated pe_activated_at (filter (in_inbox u tenant d) (phase_executions d))))) \<and>
    sorted_wrt (\<lambda>r s. case pe_activated_at s of None \<Rightarrow> True | Some t \<Rightarrow> (\<exists>t'. pe_activated_at r = Some t' \<and> t' \<le> t))
      (order_by_activated pe_activated_at (filter (in_inbox u tenant d) (phase_executions d))) \<and>
    (user \<notin> us_id ` set (users d) \<longrightarrow> get_user_inbox now user tenant claimed None d = Inr [])"
proof (intro conjI impI order_by_sorted)
  assume "u \<in> set (users d)"
  then show "map_sum id (map ii_phase_execution_id) (get_user_inbox now (us_id u) tenant False limit d) =
      limit_rows limit (map pe_id (order_by_activated pe_activated_at (filter (in_inbox u tenant d) (phase_executions d))))"
    by (simp add: get_user_inbox_def inbox_rows [OF assms] order_by_map limit_rows_def take_map comp_def split: option.split)
next
  assume "user \<notin> us_id ` set (users d)"
  then have none: "user_roles user d = []" by (auto simp: user_roles_def filter_empty_conv)
  have empty: "[j. j \<leftarrow> join_context d, role \<leftarrow> user_roles user d, waits_for user tenant claimed role (jn_phase j) (jn_run j)] = []"
    by (simp add: none)
  show "get_user_inbox now user tenant claimed None d = Inr []"
    unfolding get_user_inbox_def empty by (simp add: limit_rows_def order_by_activated_def)
qed

theorem inbox_shows_waiting_witness:
  "map_sum id (map ii_phase_execution_id) (get_user_inbox 99 ''u1'' ''ten'' False None inbox_db) = Inr [''p2'', ''p1'']"
proof -
  have "filter (in_inbox hr_user ''ten'' inbox_db) (phase_executions inbox_db) =
      [phase_waiting_since ''p1'' 20 (Some ''hr'') None, phase_waiting_since ''p2'' 10 None (Some ''u1'')]"
    by (simp add: in_inbox_def inbox_db_def run_for_def inbox_run_def phase_waiting_since_def hr_user_def)
  then have "map pe_id (order_by_activated pe_activated_at (filter (in_inbox hr_user ''ten'' inbox_db) (phase_executions inbox_db))) =
      [''p2'', ''p1'']" by (simp only:) (simp add: order_by_activated_def phase_waiting_since_def)
  with inbox_shows_waiting [OF inbox_db_keys, where u = hr_user and now = 99 and tenant = "''ten''" and limit = None] inbox_db_user
  show ?thesis by (simp add: hr_user_def limit_rows_def)
qed

text \<open>The badge agrees with the inbox: the count query, which joins fewer tables, returns the length of the inbox.\<close>

theorem inbox_count_agrees:
  assumes "schema_keys d" "u \<in> set (users d)"
  shows "map_sum id length (get_user_inbox now (us_id u) tenant False None d) = Inr (get_inbox_count (us_id u) tenant d)"
  by (simp add: get_user_inbox_def inbox_rows [OF assms] inbox_count_rows [OF assms] limit_rows_def)

theorem inbox_count_agrees_witness:
  "map_sum id length (get_user_inbox 99 (us_id hr_user) ''ten'' False None inbox_db) = Inr 2"
proof -
  have "get_inbox_count (us_id hr_user) ''ten'' inbox_db = 2" by code_simp
  with inbox_count_agrees [OF inbox_db_keys inbox_db_user, of 99 "''ten''"] show ?thesis by simp
qed

text \<open>The two notions of overdue differ on the boundary: an inbox item is flagged once the phase has waited five days or more,
  the overdue list holds exactly the waiting phases that have waited strictly longer, oldest first.\<close>

theorem overdue_boundary:
  assumes "schema_keys d" "min_timestamp \<le> now - days OVERDUE_DAYS" "now \<le> max_timestamp"
  shows "(\<forall>pe. ii_is_overdue (inbox_item now (context_for d pe)) \<longleftrightarrow> days 5 \<le> now - waiting_since now pe) \<and>
    map_sum id (map ii_phase_execution_id) (get_overdue_phases now tenant OVERDUE_DAYS d) =
      Inr (map pe_id (order_by_activated pe_activated_at
        (filter (\<lambda>pe. pe_tenant_id pe = tenant \<and> pe_status pe = ''waiting_user'' \<and> cr_status (run_for d pe) = ''active'' \<and>
                      days 5 < now - waiting_since now pe) (phase_executions d))))"
proof (intro conjI allI)
  show "ii_is_overdue (inbox_item now (context_for d pe)) \<longleftrightarrow> days 5 \<le> now - waiting_since now pe" for pe
    by (simp add: inbox_item_def Let_def OVERDUE_DAYS_def waiting_days_ge)
  have "(case pe_activated_at pe of Some t \<Rightarrow> t < now - days 5 | None \<Rightarrow> False) \<longleftrightarrow> days 5 < now - waiting_since now pe" for pe
    by (auto simp: waiting_since_def days_def split: option.splits)
  then have "filter (\<lambda>pe. pe_tenant_id pe = tenant \<and> pe_status pe = ''waiting_user'' \<and>
        (case pe_activated_at pe of Some t \<Rightarrow> t < now - days 5 | None \<Rightarrow> False) \<and> cr_status (run_for d pe) = ''active'') (phase_executions d) =
      filter (\<lambda>pe. pe_tenant_id pe = tenant \<and> pe_status pe = ''waiting_user'' \<and> cr_status (run_for d pe) = ''active'' \<and>
        days 5 < now - waiting_since now pe) (phase_executions d)" by (intro filter_cong refl) auto
  moreover have "overdue_threshold now OVERDUE_DAYS = Inr (now - days 5)"
    using assms(2,3) by (simp add: overdue_threshold_def OVERDUE_DAYS_def add_time_def days_def)
  ultimately show "map_sum id (map ii_phase_execution_id) (get_overdue_phases now tenant OVERDUE_DAYS d) =
      Inr (map pe_id (order_by_activated pe_activated_at
        (filter (\<lambda>pe. pe_tenant_id pe = tenant \<and> pe_status pe = ''waiting_user'' \<and> cr_status (run_for d pe) = ''active'' \<and>
                      days 5 < now - waiting_since now pe) (phase_executions d))))"
    by (simp add: get_overdue_phases_def join_context_keys [OF assms(1)] filter_map order_by_map comp_def)
qed

theorem overdue_boundary_witness:
  "map_sum id (map ii_phase_execution_id) (get_overdue_phases (days 5 + 10) ''ten'' OVERDUE_DAYS inbox_db) = Inr [''p4'', ''p3''] \<and>
   ii_is_overdue (inbox_item (days 5 + 10) (context_for inbox_db (phase_waiting_since ''p2'' 10 None (Some ''u1''))))"
proof -
  have "filter (\<lambda>pe. pe_tenant_id pe = ''ten'' \<and> pe_status pe = ''waiting_user'' \<and> cr_status (run_for inbox_db pe) = ''active'' \<and>
        days 5 < days 5 + 10 - waiting_since (days 5 + 10) pe) (phase_executions inbox_db) =
      [phase_waiting_since ''p3'' 5 (Some ''hr'') (Some ''u2''), phase_waiting_since ''p4'' 0 (Some ''svp'') None]"
    by (simp add: inbox_db_def run_for_def inbox_run_def phase_waiting_since_def waiting_since_def)
  then have ids: "map pe_id (order_by_activated pe_activated_at (filter (\<lambda>pe. pe_tenant_id pe = ''ten'' \<and>
        pe_status pe = ''waiting_user'' \<and> cr_status (run_for inbox_db pe) = ''active'' \<and>
        days 5 < days 5 + 10 - waiting_since (days 5 + 10) pe) (phase_executions inbox_db))) = [''p4'', ''p3'']"
    by (simp only:) (simp add: order_by_activated_def phase_waiting_since_def)
  have now: "min_timestamp \<le> days 5 + 10 - days OVERDUE_DAYS" "days 5 + 10 \<le> max_timestamp"
    by (simp_all add: min_timestamp_def max_timestamp_def OVERDUE_DAYS_def days_def)
  note spec = overdue_boundary [OF inbox_db_keys now, where tenant = "''ten''", unfolded ids]
  show ?thesis using spec by (auto simp: phase_waiting_since_def waiting_since_def)
qed

end
