(* ===== verification/Py_Text.thy ===== *)
theory Py_Text
  imports Prelude
begin

text \<open>
  Python's conversions between texts and integers and the string methods the program uses, on the 256 characters of the model.
\<close>

section \<open>Definitions\<close>

text \<open>\<open>str(n)\<close> and \<open>int(s)\<close>: the numeral may have a sign, blanks around it and single underscores between digits.\<close>

definition digit_char :: "nat \<Rightarrow> char" where
  "digit_char d = char_of (48 + d)"

fun nat_str :: "nat \<Rightarrow> string" where
  "nat_str n = (if n < 10 then [digit_char n] else nat_str (n div 10) @ [digit_char (n mod 10)])"

declare nat_str.simps [simp del]

definition int_str :: "int \<Rightarrow> string" where
  "int_str n = (if n < 0 then CHR ''-'' # nat_str (nat (- n)) else nat_str (nat n))"

text \<open>The interpreter converts integers of at most 4300 digits to text and back.\<close>

definition printable_int :: "int \<Rightarrow> bool" where
  "printable_int n \<longleftrightarrow> length (nat_str (nat \<bar>n\<bar>)) \<le> 4300"

definition py_isspace :: "char \<Rightarrow> bool" where
  "py_isspace c \<longleftrightarrow> code c \<in> {9, 10, 11, 12, 13, 28, 29, 30, 31, 32, 133, 160}"

definition py_strip :: "string \<Rightarrow> string" where
  "py_strip s = rev (dropWhile py_isspace (rev (dropWhile py_isspace s)))"

fun single_underscores :: "string \<Rightarrow> bool" where
  "single_underscores (c # d # cs) = (\<not> (c = CHR ''_'' \<and> d = CHR ''_'') \<and> single_underscores (d # cs))"
| "single_underscores [c] = (c \<noteq> CHR ''_'')"
| "single_underscores [] = True"

definition numeral_value :: "string \<Rightarrow> int option" where
  "numeral_value s =
    (if s \<noteq> [] \<and> hd s \<noteq> CHR ''_'' \<and> single_underscores s then py_int (filter (\<lambda>c. c \<noteq> CHR ''_'') s) else None)"

definition int_of_str :: "string \<Rightarrow> int option" where
  "int_of_str s =
    (case py_strip s of
       [] \<Rightarrow> None
     | c # cs \<Rightarrow>
         if c = CHR ''-'' then map_option uminus (numeral_value cs)
         else if c = CHR ''+'' then numeral_value cs
         else numeral_value (c # cs))"

definition py_lower :: "string \<Rightarrow> string" where
  "py_lower = map (\<lambda>c. if 65 \<le> code c \<and> code c \<le> 90 \<or> 192 \<le> code c \<and> code c \<le> 222 \<and> code c \<noteq> 215 then char_of (code c + 32) else c)"

text \<open>The capitals of the Latin-1 letters; those of the micro sign and of y with diaeresis are not among the 256 characters and stay as they are.\<close>

definition upper_char :: "char \<Rightarrow> string" where
  "upper_char c =
    (let n = code c
     in if 97 \<le> n \<and> n \<le> 122 \<or> 224 \<le> n \<and> n \<le> 254 \<and> n \<noteq> 247 then [char_of (n - 32)]
        else if n = 223 then ''SS''
        else [c])"

definition py_upper :: "string \<Rightarrow> string" where
  "py_upper s = concat (map upper_char s)"

text \<open>\<open>s.split(sep)\<close> for one character, \<open>s.split()\<close>, \<open>s.rstrip(c)\<close> and \<open>s.startswith(p)\<close>.\<close>

fun py_split :: "char \<Rightarrow> string \<Rightarrow> string list" where
  "py_split sep [] = [[]]"
| "py_split sep (c # cs) =
    (if c = sep then [] # py_split sep cs
     else (case py_split sep cs of [] \<Rightarrow> [[c]] | p # ps \<Rightarrow> (c # p) # ps))"

function py_words :: "string \<Rightarrow> string list" where
  "py_words [] = []"
| "py_words (c # cs) =
    (if py_isspace c then py_words cs
     else (c # takeWhile (\<lambda>x. \<not> py_isspace x) cs) # py_words (dropWhile (\<lambda>x. \<not> py_isspace x) cs))"
  by pat_completeness auto
termination
  by (relation "measure length") (auto simp: less_Suc_eq_le length_dropWhile_le)

definition py_rstrip :: "char \<Rightarrow> string \<Rightarrow> string" where
  "py_rstrip c s = rev (dropWhile (\<lambda>x. x = c) (rev s))"

definition py_startswith :: "string \<Rightarrow> string \<Rightarrow> bool" where
  "py_startswith p s \<longleftrightarrow> take (length p) s = p"

text \<open>\<open>p in s\<close>.\<close>

fun py_contains :: "string \<Rightarrow> string \<Rightarrow> bool" where
  "py_contains p [] = (p = [])"
| "py_contains p (c # s) = (py_startswith p (c # s) \<or> py_contains p s)"

lemma py_contains_append: "py_contains p (a @ p @ b)"
proof (induction a)
  case Nil
  then show ?case by (cases p; cases b) (auto simp: py_startswith_def)
qed simp

section \<open>Numerals\<close>

lemma digit_char:
  assumes "d < 10"
  shows "code (digit_char d) = 48 + d" "digit_value (digit_char d) = Some (int d)" "\<not> py_isspace (digit_char d)"
    "digit_char d \<noteq> CHR ''_''" "digit_char d \<noteq> CHR ''-''" "digit_char d \<noteq> CHR ''+''"
proof -
  show c: "code (digit_char d) = 48 + d" using assms by (simp add: code_def digit_char_def)
  then show "digit_value (digit_char d) = Some (int d)" "\<not> py_isspace (digit_char d)" "digit_char d \<noteq> CHR ''_''"
    "digit_char d \<noteq> CHR ''-''" "digit_char d \<noteq> CHR ''+''"
    using assms by (auto simp: digit_value_def py_isdecimal_def py_isspace_def code_def)
qed

lemma digits_value_append:
  "digits_value acc (s @ t) = Option.bind (digits_value acc s) (\<lambda>a. digits_value a t)"
  by (induction acc s rule: digits_value.induct) (auto split: option.splits)

lemma digits_value_nat_str: "digits_value 0 (nat_str n) = Some (int n)"
proof (induction n rule: nat_str.induct)
  case (1 n)
  show ?case
  proof (cases "n < 10")
    case True
    then show ?thesis by (subst nat_str.simps) (simp add: digit_char)
  next
    case False
    then have "digits_value 0 (nat_str n) = Some (10 * int (n div 10) + int (n mod 10))"
      using 1 by (subst nat_str.simps) (simp add: digits_value_append digit_char)
    also have "10 * int (n div 10) + int (n mod 10) = int n" by (simp add: zdiv_int zmod_int)
    finally show ?thesis .
  qed
qed

definition digit_chars :: "char set" where
  "digit_chars = digit_char ` {..<10}"

lemma nat_str_chars: "nat_str n \<noteq> []" "set (nat_str n) \<subseteq> digit_chars"
proof (induction n rule: nat_str.induct)
  case (1 n)
  have "digit_char (n mod 10) \<in> digit_chars" "n < 10 \<Longrightarrow> digit_char n \<in> digit_chars" by (simp_all add: digit_chars_def)
  with 1 have "nat_str n \<noteq> [] \<and> set (nat_str n) \<subseteq> digit_chars"
    by (subst (1 2) nat_str.simps) auto
  then show "nat_str n \<noteq> []" "set (nat_str n) \<subseteq> digit_chars" by simp_all
qed

lemma digit_chars_plain:
  "c \<in> digit_chars \<Longrightarrow> \<not> py_isspace c \<and> c \<noteq> CHR ''_'' \<and> c \<noteq> CHR ''-'' \<and> c \<noteq> CHR ''+''"
  by (auto simp: digit_chars_def digit_char)

lemma single_underscores_plain: "CHR ''_'' \<notin> set s \<Longrightarrow> single_underscores s"
  by (induction s rule: single_underscores.induct) auto

lemma strip_plain: "\<forall>c\<in>set s. \<not> py_isspace c \<Longrightarrow> py_strip s = s"
proof -
  assume s: "\<forall>c\<in>set s. \<not> py_isspace c"
  have "dropWhile py_isspace t = t" if "set t \<subseteq> set s" for t using that s by (cases t) auto
  then show ?thesis by (simp add: py_strip_def)
qed

lemma numeral_value_nat_str:
  assumes "length (nat_str n) \<le> 4300"
  shows "numeral_value (nat_str n) = Some (int n)"
proof -
  have plain: "\<forall>c\<in>set (nat_str n). c \<noteq> CHR ''_''" using nat_str_chars(2) [of n] digit_chars_plain by blast
  then have "filter (\<lambda>c. c \<noteq> CHR ''_'') (nat_str n) = nat_str n" by (simp add: filter_id_conv)
  moreover have "hd (nat_str n) \<noteq> CHR ''_''" "single_underscores (nat_str n)"
    using plain nat_str_chars(1) [of n] by (auto intro: single_underscores_plain)
  ultimately show ?thesis using assms nat_str_chars(1) [of n] by (simp add: numeral_value_def py_int_def digits_value_nat_str)
qed

lemma int_of_str_int_str:
  assumes "printable_int n"
  shows "int_of_str (int_str n) = Some n"
proof -
  have bound: "length (nat_str (nat \<bar>n\<bar>)) \<le> 4300" using assms by (simp add: printable_int_def)
  obtain c cs where c: "nat_str (nat \<bar>n\<bar>) = c # cs" using nat_str_chars(1) by (cases "nat_str (nat \<bar>n\<bar>)") auto
  have plain: "\<forall>c\<in>set (nat_str (nat \<bar>n\<bar>)). \<not> py_isspace c \<and> c \<noteq> CHR ''-'' \<and> c \<noteq> CHR ''+''"
    using nat_str_chars(2) digit_chars_plain by blast
  have "\<not> py_isspace (CHR ''-'')" by (simp add: py_isspace_def code_def)
  with plain have "py_strip (int_str n) = int_str n" by (intro strip_plain) (auto simp: int_str_def)
  then show ?thesis
    using numeral_value_nat_str [OF bound] plain c by (cases "n < 0") (auto simp: int_of_str_def int_str_def)
qed

end
