(* ===== verification/Conditions.thy ===== *)
theory Conditions
  imports Runtime_Db Py_Text
begin

text \<open>
  Predicates, when blocks and situations (\<open>libs/canon/src/canon/runtime/conditions.py\<close>). A context value is a JSON value;
  the text that \<open>str()\<close> gives for a float, a list, a dict or a stored time and the value that \<open>float()\<close> reads from a
  text are the argument \<open>tx\<close>. The message of a result is kept as the values it is formatted from.
\<close>

section \<open>Python's conversions\<close>

record py_text =
  tx_str :: "json \<Rightarrow> string"
  tx_float :: "string \<Rightarrow> py_float option"

text \<open>Conversions that raise: \<open>ValueError\<close> and \<open>TypeError\<close> are caught by the code, \<open>OverflowError\<close> is not.\<close>

datatype conv_error = ConvValueError | ConvTypeError | ConvOverflowError

definition py_bool :: "py_text \<Rightarrow> json \<Rightarrow> bool" where
  "py_bool tx v =
    (case v of
       JNull \<Rightarrow> False | JBool b \<Rightarrow> b | JInt n \<Rightarrow> n \<noteq> 0 | JFloat x \<Rightarrow> x \<noteq> Finite 0 | JStr s \<Rightarrow> s \<noteq> []
     | JTime t \<Rightarrow> tx_str tx (JTime t) \<noteq> [] | JList xs \<Rightarrow> xs \<noteq> [] | JObj kvs \<Rightarrow> kvs \<noteq> [])"

definition truncate :: "rat \<Rightarrow> int" where
  "truncate q = (if 0 \<le> q then \<lfloor>q\<rfloor> else \<lceil>q\<rceil>)"

definition text_int :: "string \<Rightarrow> (conv_error, int) result" where
  "text_int s = (case int_of_str s of None \<Rightarrow> Inl ConvValueError | Some n \<Rightarrow> Inr n)"

definition to_int :: "py_text \<Rightarrow> json \<Rightarrow> (conv_error, int) result" where
  "to_int tx v =
    (case v of
       JBool b \<Rightarrow> Inr (if b then 1 else 0)
     | JInt n \<Rightarrow> Inr n
     | JFloat (Finite q) \<Rightarrow> Inr (truncate q)
     | JFloat NaN \<Rightarrow> Inl ConvValueError
     | JFloat _ \<Rightarrow> Inl ConvOverflowError
     | JStr s \<Rightarrow> text_int s
     | JTime t \<Rightarrow> text_int (tx_str tx (JTime t))
     | _ \<Rightarrow> Inl ConvTypeError)"

definition int_to_float :: "int \<Rightarrow> (conv_error, py_float) result" where
  "int_to_float n =
    (if n = 0 then Inr (Finite 0)
     else (case round_double (of_int \<bar>n\<bar>) of
             Finite q \<Rightarrow> Inr (Finite (if n < 0 then - q else q))
           | _ \<Rightarrow> Inl ConvOverflowError))"

definition text_float :: "py_text \<Rightarrow> string \<Rightarrow> (conv_error, py_float) result" where
  "text_float tx s = (case tx_float tx s of None \<Rightarrow> Inl ConvValueError | Some x \<Rightarrow> Inr x)"

definition to_float :: "py_text \<Rightarrow> json \<Rightarrow> (conv_error, py_float) result" where
  "to_float tx v =
    (case v of
       JBool b \<Rightarrow> Inr (Finite (if b then 1 else 0))
     | JInt n \<Rightarrow> int_to_float n
     | JFloat x \<Rightarrow> Inr x
     | JStr s \<Rightarrow> text_float tx s
     | JTime t \<Rightarrow> text_float tx (tx_str tx (JTime t))
     | _ \<Rightarrow> Inl ConvTypeError)"

definition to_str :: "py_text \<Rightarrow> json \<Rightarrow> (conv_error, string) result" where
  "to_str tx v =
    (case v of
       JNull \<Rightarrow> Inr ''None''
     | JBool b \<Rightarrow> Inr (if b then ''True'' else ''False'')
     | JInt n \<Rightarrow> if printable_int n then Inr (int_str n) else Inl ConvValueError
     | JStr s \<Rightarrow> Inr s
     | _ \<Rightarrow> Inr (tx_str tx v))"

section \<open>Comparison\<close>

fun literal_json :: "literal \<Rightarrow> json" where
  "literal_json (StrV s) = JStr s"
| "literal_json (IntV n) = JInt n"
| "literal_json (FloatV x) = JFloat x"
| "literal_json (BoolV b) = JBool b"

text \<open>\<open>type(actual) is type(expected)\<close>; a stored time is a text.\<close>

definition same_type :: "json \<Rightarrow> literal \<Rightarrow> bool" where
  "same_type v l =
    (case (v, l) of
       (JStr _, StrV _) \<Rightarrow> True | (JTime _, StrV _) \<Rightarrow> True | (JInt _, IntV _) \<Rightarrow> True
     | (JFloat _, FloatV _) \<Rightarrow> True | (JBool _, BoolV _) \<Rightarrow> True | _ \<Rightarrow> False)"

definition coerce_for_comparison :: "py_text \<Rightarrow> json \<Rightarrow> literal \<Rightarrow> (conv_error, json) result" where
  "coerce_for_comparison tx actual expected =
    (if actual = JNull \<or> same_type actual expected then Inr actual
     else
       (let coerced =
          (case expected of
             BoolV _ \<Rightarrow>
               Inr (JBool (case actual of
                             JStr s \<Rightarrow> py_lower s \<in> {''true'', ''1'', ''yes''}
                           | JTime t \<Rightarrow> py_lower (tx_str tx (JTime t)) \<in> {''true'', ''1'', ''yes''}
                           | _ \<Rightarrow> py_bool tx actual))
           | IntV _ \<Rightarrow> map_sum id JInt (to_int tx actual)
           | FloatV _ \<Rightarrow> map_sum id JFloat (to_float tx actual)
           | StrV _ \<Rightarrow> map_sum id JStr (to_str tx actual))
        in case coerced of
             Inl ConvOverflowError \<Rightarrow> Inl ConvOverflowError
           | Inl _ \<Rightarrow> Inr actual
           | Inr v \<Rightarrow> Inr v))"

text \<open>Numbers compare by value, across bool, int and float; texts compare by code points.\<close>

definition number :: "json \<Rightarrow> py_float option" where
  "number v =
    (case v of
       JBool b \<Rightarrow> Some (Finite (if b then 1 else 0)) | JInt n \<Rightarrow> Some (Finite (of_int n)) | JFloat x \<Rightarrow> Some x | _ \<Rightarrow> None)"

definition text_value :: "py_text \<Rightarrow> json \<Rightarrow> string option" where
  "text_value tx v = (case v of JStr s \<Rightarrow> Some s | JTime t \<Rightarrow> Some (tx_str tx v) | _ \<Rightarrow> None)"

fun float_eq :: "py_float \<Rightarrow> py_float \<Rightarrow> bool" where
  "float_eq NaN y = False"
| "float_eq x y = (x = y)"

fun float_less :: "py_float \<Rightarrow> py_float \<Rightarrow> bool" where
  "float_less (Finite a) (Finite b) = (a < b)"
| "float_less (Finite a) PosInf = True"
| "float_less NegInf (Finite b) = True"
| "float_less NegInf PosInf = True"
| "float_less x y = False"

fun str_less :: "string \<Rightarrow> string \<Rightarrow> bool" where
  "str_less s [] = False"
| "str_less [] (c # cs) = True"
| "str_less (a # as) (c # cs) = (code a < code c \<or> a = c \<and> str_less as cs)"

definition value_eq :: "py_text \<Rightarrow> json \<Rightarrow> json \<Rightarrow> bool" where
  "value_eq tx a b =
    (case (number a, number b) of
       (Some x, Some y) \<Rightarrow> float_eq x y
     | _ \<Rightarrow> (case (text_value tx a, text_value tx b) of (Some s, Some t) \<Rightarrow> s = t | _ \<Rightarrow> False))"

text \<open>\<open>None\<close> is the \<open>TypeError\<close> of an order comparison between incompatible types.\<close>

definition value_less :: "py_text \<Rightarrow> json \<Rightarrow> json \<Rightarrow> bool option" where
  "value_less tx a b =
    (case (number a, number b) of
       (Some x, Some y) \<Rightarrow> Some (float_less x y)
     | _ \<Rightarrow> (case (text_value tx a, text_value tx b) of (Some s, Some t) \<Rightarrow> Some (str_less s t) | _ \<Rightarrow> None))"

definition OPERATORS :: "py_text \<Rightarrow> (string \<times> (json \<Rightarrow> json \<Rightarrow> bool option)) list" where
  "OPERATORS tx =
    [(''=='', \<lambda>a b. Some (value_eq tx a b)),
     (''!='', \<lambda>a b. Some (\<not> value_eq tx a b)),
     (''>'', \<lambda>a b. value_less tx b a),
     (''<'', \<lambda>a b. value_less tx a b),
     (''>='', \<lambda>a b. map_option (\<lambda>l. l \<or> value_eq tx a b) (value_less tx b a)),
     (''<='', \<lambda>a b. map_option (\<lambda>l. l \<or> value_eq tx a b) (value_less tx a b))]"

section \<open>Evaluation\<close>

datatype condition_reason =
    UnknownOperator string
  | FieldNotFound string
  | TypeMismatch json literal
  | NotSatisfied string string literal json

record ConditionResult =
  cn_matched :: bool
  cn_predicate_field :: string
  cn_predicate_operator :: string
  cn_predicate_value :: literal
  cn_actual_value :: "json option"
  cn_reason :: "condition_reason option"

record WhenBlockResult =
  wr_condition :: ConditionResult
  wr_matched :: bool
  wr_block :: WhenBlockNode

record SituationOverrides =
  so_matched_situations :: "SituationNode list"
  so_additional_requires :: "RequireNode list"
  so_waiting_period_override :: "WaitingPeriodNode option"
  so_condition_results :: "ConditionResult list"

definition condition_result :: "PredicateNode \<Rightarrow> bool \<Rightarrow> json option \<Rightarrow> condition_reason option \<Rightarrow> ConditionResult" where
  "condition_result p matched actual reason =
    \<lparr>cn_matched = matched, cn_predicate_field = pr_field p, cn_predicate_operator = pr_operator p,
     cn_predicate_value = pr_value p, cn_actual_value = actual, cn_reason = reason\<rparr>"

definition evaluate_predicate ::
  "py_text \<Rightarrow> PredicateNode \<Rightarrow> (string, json) dict \<Rightarrow> (conv_error, ConditionResult) result" where
  "evaluate_predicate tx p context =
    (case map_of (OPERATORS tx) (pr_operator p) of
       None \<Rightarrow> Inr (condition_result p False None (Some (UnknownOperator (pr_operator p))))
     | Some op_fn \<Rightarrow>
         (case map_of context (pr_field p) of
            None \<Rightarrow> Inr (condition_result p False None (Some (FieldNotFound (pr_field p))))
          | Some actual \<Rightarrow>
              bind_r (coerce_for_comparison tx actual (pr_value p)) (\<lambda>coerced.
                (case op_fn coerced (literal_json (pr_value p)) of
                   None \<Rightarrow> Inr (condition_result p False (Some actual) (Some (TypeMismatch actual (pr_value p))))
                 | Some matched \<Rightarrow>
                     Inr (condition_result p matched (Some actual)
                       (if matched then None
                        else Some (NotSatisfied (pr_field p) (pr_operator p) (pr_value p) actual)))))))"

definition evaluate_when_block ::
  "py_text \<Rightarrow> WhenBlockNode \<Rightarrow> (string, json) dict \<Rightarrow> (conv_error, WhenBlockResult) result" where
  "evaluate_when_block tx block context =
    bind_r (evaluate_predicate tx (wb_predicate block) context) (\<lambda>condition.
      Inr \<lparr>wr_condition = condition, wr_matched = cn_matched condition, wr_block = block\<rparr>)"

fun evaluate_when_blocks ::
  "py_text \<Rightarrow> WhenBlockNode list \<Rightarrow> (string, json) dict \<Rightarrow> (conv_error, WhenBlockResult list) result" where
  "evaluate_when_blocks tx [] context = Inr []"
| "evaluate_when_blocks tx (b # bs) context =
    bind_r (evaluate_when_block tx b context) (\<lambda>r. bind_r (evaluate_when_blocks tx bs context) (\<lambda>rs. Inr (r # rs)))"

text \<open>The loop of \<open>evaluate_situations\<close> over its accumulators.\<close>

definition more_restrictive :: "WaitingPeriodNode option \<Rightarrow> WaitingPeriodNode option \<Rightarrow> WaitingPeriodNode option" where
  "more_restrictive best wp =
    (case wp of
       None \<Rightarrow> best
     | Some w \<Rightarrow> (case best of None \<Rightarrow> Some w | Some b \<Rightarrow> if wp_min_value w > wp_min_value b then Some w else Some b))"

fun situations_loop ::
  "py_text \<Rightarrow> (string, json) dict \<Rightarrow> SituationNode list \<Rightarrow> SituationOverrides \<Rightarrow> (conv_error, SituationOverrides) result" where
  "situations_loop tx context [] acc = Inr acc"
| "situations_loop tx context (s # ss) acc =
    bind_r (evaluate_predicate tx (si_predicate s) context) (\<lambda>r.
      let acc1 = acc\<lparr>so_condition_results := so_condition_results acc @ [r]\<rparr>
      in situations_loop tx context ss
           (if cn_matched r
            then acc1\<lparr>so_matched_situations := so_matched_situations acc @ [s],
                      so_additional_requires := so_additional_requires acc @ si_requires s,
                      so_waiting_period_override :=
                        more_restrictive (so_waiting_period_override acc) (si_waiting_period s)\<rparr>
            else acc1))"

definition evaluate_situations ::
  "py_text \<Rightarrow> SituationNode list \<Rightarrow> (string, json) dict \<Rightarrow> (conv_error, SituationOverrides) result" where
  "evaluate_situations tx situations context =
    situations_loop tx context situations
      \<lparr>so_matched_situations = [], so_additional_requires = [], so_waiting_period_override = None,
       so_condition_results = []\<rparr>"

end
