(* ===== verification/Conditions_Correct.thy ===== *)
theory Conditions_Correct
  imports Conditions
begin

text \<open>
  Properties of the conditions: the operators, and what the matching situations add.
\<close>

section \<open>Operators\<close>

definition is_operator :: "string \<Rightarrow> bool" where
  "is_operator opr \<longleftrightarrow> opr \<in> {''=='', ''!='', ''>'', ''<'', ''>='', ''<=''}"

lemma operators_dom: "map_of (OPERATORS tx) opr = None \<longleftrightarrow> \<not> is_operator opr"
  by (auto simp: OPERATORS_def is_operator_def)

text \<open>Whether a predicate holds of a context, for a predicate whose evaluation does not raise.\<close>

definition holds :: "py_text \<Rightarrow> (string, json) dict \<Rightarrow> PredicateNode \<Rightarrow> bool" where
  "holds tx ctx p \<longleftrightarrow> (\<exists>r. evaluate_predicate tx p ctx = Inr r \<and> cn_matched r)"

lemma condition_result_matched [simp]: "cn_matched (condition_result p m v reason) = m"
  by (simp add: condition_result_def)

section \<open>Situations\<close>

lemma situations_loop_spec:
  "situations_loop tx ctx ss acc = Inr res \<Longrightarrow>
   (\<forall>s\<in>set ss. \<exists>r. evaluate_predicate tx (si_predicate s) ctx = Inr r) \<and>
   so_matched_situations res = so_matched_situations acc @ filter (\<lambda>s. holds tx ctx (si_predicate s)) ss \<and>
   so_additional_requires res =
     so_additional_requires acc @ concat (map si_requires (filter (\<lambda>s. holds tx ctx (si_predicate s)) ss)) \<and>
   so_waiting_period_override res =
     foldl more_restrictive (so_waiting_period_override acc)
       (map si_waiting_period (filter (\<lambda>s. holds tx ctx (si_predicate s)) ss)) \<and>
   map Inr (so_condition_results res) =
     map Inr (so_condition_results acc) @ map (\<lambda>s. evaluate_predicate tx (si_predicate s) ctx) ss"
proof (induction ss arbitrary: acc)
  case (Cons s ss)
  then obtain r where r: "evaluate_predicate tx (si_predicate s) ctx = Inr r" by auto
  have "holds tx ctx (si_predicate s) \<longleftrightarrow> cn_matched r" using r by (simp add: holds_def)
  with r Cons.prems Cons.IH show ?case by (cases "cn_matched r") (auto simp: Let_def)
qed simp

lemma situations_loop_Inl:
  "situations_loop tx ctx ss acc = Inl e \<Longrightarrow> \<exists>s\<in>set ss. evaluate_predicate tx (si_predicate s) ctx = Inl e"
proof (induction ss arbitrary: acc)
  case (Cons s ss)
  then show ?case by (cases "evaluate_predicate tx (si_predicate s) ctx") (auto simp: Let_def)
qed simp

text \<open>The fold keeps the first of the waiting periods with the largest minimum.\<close>

lemma fold_more_restrictive:
  "(case foldl more_restrictive b wps of
      None \<Rightarrow> b = None \<and> (\<forall>w\<in>set wps. w = None)
    | Some w \<Rightarrow> (Some w = b \<or> Some w \<in> set wps) \<and>
        (\<forall>w'. Some w' = b \<or> Some w' \<in> set wps \<longrightarrow> wp_min_value w' \<le> wp_min_value w))"
proof (induction wps arbitrary: b)
  case Nil
  then show ?case by (cases b) auto
next
  case (Cons wp wps)
  show ?case
    using Cons [of "more_restrictive b wp"]
    by (cases b; cases wp) (auto simp: more_restrictive_def split: option.splits if_splits)
qed

lemma longest_waiting:
  "case foldl more_restrictive None (map si_waiting_period ss) of
     None \<Rightarrow> \<forall>s\<in>set ss. si_waiting_period s = None
   | Some w \<Rightarrow> (\<exists>s\<in>set ss. si_waiting_period s = Some w) \<and>
       (\<forall>s\<in>set ss. \<forall>w'. si_waiting_period s = Some w' \<longrightarrow> wp_min_value w' \<le> wp_min_value w)"
proof (cases "foldl more_restrictive None (map si_waiting_period ss)")
  case None
  with fold_more_restrictive [of None "map si_waiting_period ss"] show ?thesis by simp
next
  case (Some w)
  with fold_more_restrictive [of None "map si_waiting_period ss"]
  have w: "Some w \<in> si_waiting_period ` set ss"
    "\<forall>w'. Some w' \<in> si_waiting_period ` set ss \<longrightarrow> wp_min_value w' \<le> wp_min_value w" by simp_all
  from w(1) have "\<exists>s\<in>set ss. si_waiting_period s = Some w" by force
  moreover from w(2) have "\<forall>s\<in>set ss. \<forall>w'. si_waiting_period s = Some w' \<longrightarrow> wp_min_value w' \<le> wp_min_value w"
    by (metis imageI)
  ultimately show ?thesis unfolding Some option.case by (rule conjI)
qed

section \<open>Predicates\<close>

lemma coerce_error: "coerce_for_comparison tx v l = Inl e \<Longrightarrow> e = ConvOverflowError"
  by (auto simp: coerce_for_comparison_def Let_def split: if_splits sum.splits conv_error.splits)

lemma evaluate_predicate_error: "evaluate_predicate tx p ctx = Inl e \<Longrightarrow> e = ConvOverflowError"
  by (auto simp: evaluate_predicate_def bind_r_def coerce_error split: option.splits sum.splits)

lemma holds_iff:
  "holds tx ctx p \<longleftrightarrow>
   (\<exists>f v c. map_of (OPERATORS tx) (pr_operator p) = Some f \<and> map_of ctx (pr_field p) = Some v \<and>
      coerce_for_comparison tx v (pr_value p) = Inr c \<and> f c (literal_json (pr_value p)) = Some True)"
  by (auto simp: holds_def evaluate_predicate_def bind_r_def split: option.splits sum.splits)

lemma coerce_int_text:
  assumes "printable_int n" "l = IntV m \<or> l = StrV t"
  shows "\<exists>c c'. coerce_for_comparison tx (JStr (int_str n)) l = Inr c \<and> coerce_for_comparison tx (JInt n) l = Inr c' \<and> c = c'"
  using assms by (auto simp: coerce_for_comparison_def same_type_def Let_def to_int_def to_str_def text_int_def int_of_str_int_str)

lemma holds_same_coercion:
  assumes "coerce_for_comparison tx v (pr_value p) = coerce_for_comparison tx v' (pr_value p)"
  shows "holds tx ((f, v) # ctx) p \<longleftrightarrow> holds tx ((f, v') # ctx) p"
  using assms by (auto simp: holds_iff)

section \<open>Properties\<close>


text \<open>A predicate with an unknown operator or a field the context lacks never matches and never raises; where the field is there and
  converts, \<open>!=\<close> holds exactly when \<open>==\<close> does not.\<close>

theorem predicate_matching:
  "(\<not> is_operator (pr_operator p) \<or> pr_field p \<notin> dom (map_of ctx) \<longrightarrow>
      (\<exists>r. evaluate_predicate tx p ctx = Inr r \<and> \<not> cn_matched r)) \<and>
   (pr_field p \<in> dom (map_of ctx) \<and> (\<exists>r. evaluate_predicate tx (p\<lparr>pr_operator := ''==''\<rparr>) ctx = Inr r) \<longrightarrow>
      (holds tx ctx (p\<lparr>pr_operator := ''!=''\<rparr>) \<longleftrightarrow> \<not> holds tx ctx (p\<lparr>pr_operator := ''==''\<rparr>)))"
proof (intro conjI impI)
  assume "\<not> is_operator (pr_operator p) \<or> pr_field p \<notin> dom (map_of ctx)"
  then show "\<exists>r. evaluate_predicate tx p ctx = Inr r \<and> \<not> cn_matched r"
    using operators_dom [of tx "pr_operator p"] by (auto simp: evaluate_predicate_def split: option.splits)
next
  assume "pr_field p \<in> dom (map_of ctx) \<and> (\<exists>r. evaluate_predicate tx (p\<lparr>pr_operator := ''==''\<rparr>) ctx = Inr r)"
  then show "holds tx ctx (p\<lparr>pr_operator := ''!=''\<rparr>) \<longleftrightarrow> \<not> holds tx ctx (p\<lparr>pr_operator := ''==''\<rparr>)"
    by (auto simp: holds_iff evaluate_predicate_def OPERATORS_def)
qed

text \<open>Contexts may carry integers as text: the text of an integer reads back as that integer, and against an integer or a text a predicate
  gives the same verdict on the text as on the integer, for every integer the interpreter prints.\<close>

theorem integer_text_roundtrip:
  assumes "printable_int n" "pr_value p = IntV m \<or> pr_value p = StrV t"
  shows "int_of_str (int_str n) = Some n \<and>
    (holds tx ((f, JStr (int_str n)) # ctx) p \<longleftrightarrow> holds tx ((f, JInt n) # ctx) p)"
  using int_of_str_int_str [OF assms(1)] coerce_int_text [OF assms, of tx] holds_same_coercion [of tx "JStr (int_str n)" p "JInt n"]
  by auto

section \<open>A sample\<close>

definition no_text :: py_text where
  "no_text = \<lparr>tx_str = \<lambda>v. [], tx_float = \<lambda>s. None\<rparr>"

definition wait_situation :: "string \<Rightarrow> int \<Rightarrow> string \<Rightarrow> SituationNode" where
  "wait_situation city n unit =
    \<lparr>si_predicate = \<lparr>pr_field = ''jurisdiction'', pr_operator = ''=='', pr_value = StrV city\<rparr>,
     si_waiting_period = Some \<lparr>wp_min_value = n, wp_max_value = n, wp_unit = unit\<rparr>, si_requires = []\<rparr>"

definition nyc :: "(string, json) dict" where
  "nyc = [(''jurisdiction'', JStr ''NYC''), (''headcount'', JStr ''-20'')]"


theorem predicate_matching_witness:
  "(\<exists>r. evaluate_predicate no_text \<lparr>pr_field = ''city'', pr_operator = ''=='', pr_value = StrV ''x''\<rparr> nyc = Inr r \<and> \<not> cn_matched r) \<and>
   holds no_text nyc \<lparr>pr_field = ''headcount'', pr_operator = ''!='', pr_value = IntV 7\<rparr>"
proof -
  let ?q = "\<lparr>pr_field = ''headcount'', pr_operator = ''!='', pr_value = IntV 7\<rparr>"
  have "\<not> holds no_text nyc (?q\<lparr>pr_operator := ''==''\<rparr>) \<and> (\<exists>r. evaluate_predicate no_text (?q\<lparr>pr_operator := ''==''\<rparr>) nyc = Inr r)"
  proof -
    have "map_sum id cn_matched (evaluate_predicate no_text (?q\<lparr>pr_operator := ''==''\<rparr>) nyc) = Inr False" by code_simp
    then show ?thesis
      by (cases "evaluate_predicate no_text (?q\<lparr>pr_operator := ''==''\<rparr>) nyc")
        (auto simp only: holds_def map_sum.simps sum.inject sum.distinct)
  qed
  with predicate_matching [of ?q nyc no_text]
    predicate_matching [of "\<lparr>pr_field = ''city'', pr_operator = ''=='', pr_value = StrV ''x''\<rparr>" nyc no_text]
  show ?thesis by (simp add: nyc_def)
qed

theorem integer_text_roundtrip_witness:
  "int_of_str ''-20'' = Some (- 20) \<and>
   (holds no_text [(''headcount'', JStr ''-20'')] \<lparr>pr_field = ''headcount'', pr_operator = ''<'', pr_value = IntV 7\<rparr> \<longleftrightarrow>
    holds no_text [(''headcount'', JInt (- 20))] \<lparr>pr_field = ''headcount'', pr_operator = ''<'', pr_value = IntV 7\<rparr>)"
proof -
  have "printable_int (- 20)" "int_str (- 20) = ''-20''" by code_simp+
  with integer_text_roundtrip [of "- 20" "\<lparr>pr_field = ''headcount'', pr_operator = ''<'', pr_value = IntV 7\<rparr>" 7 "[]" no_text "''headcount''" "[]"]
  show ?thesis by simp
qed

end
