(* ===== verification/Merkle.thy ===== *)
theory Merkle
  imports Prelude "HOL-Library.Word"
begin

text \<open>
  Merkle trees and batch timestamps (\<open>libs/canon/src/canon/utils/tsa/merkle.py\<close>, \<open>batch.py\<close>, and \<open>compute_hash\<close> on
  bytes of \<open>libs/kron/src/kron/utils/_hash.py\<close>). The digest functions of \<open>hashlib\<close> are the argument \<open>H\<close>: the hexadecimal
  digest for an algorithm and a byte string. \<^const>\<open>None\<close> is the \<open>ValueError\<close> of text that is not hexadecimal, of a payload
  that is too large, of an empty batch or of a hash that is not a leaf.
\<close>

section \<open>Bytes and hashes\<close>

type_synonym bytes = "8 word list"

datatype HashAlgorithm = SHA256 | SHA384 | SHA512

fun digest_size :: "HashAlgorithm \<Rightarrow> nat" where
  "digest_size SHA256 = 32"
| "digest_size SHA384 = 48"
| "digest_size SHA512 = 64"

type_synonym hasher = "HashAlgorithm \<Rightarrow> bytes \<Rightarrow> string"

definition hex_value :: "char \<Rightarrow> nat option" where
  "hex_value c =
    (let n = code c in
     if 48 \<le> n \<and> n \<le> 57 then Some (n - 48)
     else if 97 \<le> n \<and> n \<le> 102 then Some (n - 87)
     else if 65 \<le> n \<and> n \<le> 70 then Some (n - 55)
     else None)"

text \<open>\<open>bytes.fromhex\<close>: pairs of digits, ASCII blanks are skipped between them.\<close>

fun fromhex :: "string \<Rightarrow> bytes option" where
  "fromhex [] = Some []"
| "fromhex (c # cs) =
    (if code c \<in> {9, 10, 11, 12, 13, 32} then fromhex cs
     else
       (case cs of
          [] \<Rightarrow> None
        | d # ds \<Rightarrow>
            (case (hex_value c, hex_value d) of
               (Some h, Some l) \<Rightarrow> map_option ((#) (of_nat (16 * h + l))) (fromhex ds)
             | _ \<Rightarrow> None)))"

definition MAX_HASH_INPUT_BYTES :: int where
  "MAX_HASH_INPUT_BYTES = 10 * 1024 * 1024"

definition compute_hash :: "hasher \<Rightarrow> bytes \<Rightarrow> HashAlgorithm \<Rightarrow> string option" where
  "compute_hash H payload algorithm =
    (if int (length payload) > MAX_HASH_INPUT_BYTES then None else Some (H algorithm payload))"

section \<open>The tree\<close>

definition hash_pair :: "hasher \<Rightarrow> HashAlgorithm \<Rightarrow> string \<Rightarrow> string \<Rightarrow> string option" where
  "hash_pair H algorithm left right =
    Option.bind (fromhex left) (\<lambda>l. Option.bind (fromhex right) (\<lambda>r. compute_hash H (l @ r) algorithm))"

fun next_level :: "hasher \<Rightarrow> HashAlgorithm \<Rightarrow> string list \<Rightarrow> string list option" where
  "next_level H alg [] = Some []"
| "next_level H alg [x] = map_option (\<lambda>p. [p]) (hash_pair H alg x x)"
| "next_level H alg (x # y # zs) =
    Option.bind (hash_pair H alg x y) (\<lambda>p. map_option ((#) p) (next_level H alg zs))"

lemma length_next_level: "next_level H alg xs = Some ys \<Longrightarrow> length ys = (length xs + 1) div 2"
  by (induction H alg xs arbitrary: ys rule: next_level.induct) (auto split: bind_splits)

text \<open>The \<open>while\<close> loop of \<open>_build_tree\<close>: levels are inserted at the front, the root level comes first.\<close>

function build_levels :: "hasher \<Rightarrow> HashAlgorithm \<Rightarrow> string list \<Rightarrow> string list list \<Rightarrow> string list list option" where
  "build_levels H alg current levels =
    (if length current > 1
     then (case next_level H alg current of
             None \<Rightarrow> None
           | Some nl \<Rightarrow> build_levels H alg nl (nl # levels))
     else Some levels)"
  by pat_completeness auto
termination
  by (relation "measure (\<lambda>(H, alg, current, levels). length current)") (auto dest: length_next_level)

declare build_levels.simps [simp del]

record MerkleTree =
  mt_algorithm :: HashAlgorithm
  mt_leaves :: "string list"
  mt_leaf_indices :: "(string, nat) dict"
  mt_tree :: "string list list"

definition leaf_indices :: "string list \<Rightarrow> (string, nat) dict" where
  "leaf_indices hs = foldl (\<lambda>d (i, h). dict_set h i d) [] (enumerate 0 hs)"

definition build_tree :: "hasher \<Rightarrow> HashAlgorithm \<Rightarrow> string list \<Rightarrow> string list list option" where
  "build_tree H alg leaves = build_levels H alg leaves [leaves]"

definition new_tree :: "hasher \<Rightarrow> string list \<Rightarrow> HashAlgorithm \<Rightarrow> MerkleTree option" where
  "new_tree H hash_values algorithm =
    (if hash_values = [] then None
     else map_option (\<lambda>t. \<lparr>mt_algorithm = algorithm, mt_leaves = hash_values, mt_leaf_indices = leaf_indices hash_values,
                            mt_tree = t\<rparr>) (build_tree H algorithm hash_values))"

definition tree_root :: "MerkleTree \<Rightarrow> string" where
  "tree_root t = mt_tree t ! 0 ! 0"

definition tree_depth :: "MerkleTree \<Rightarrow> nat" where
  "tree_depth t = length (mt_tree t)"

definition tree_contains :: "string \<Rightarrow> MerkleTree \<Rightarrow> bool" where
  "tree_contains h t \<longleftrightarrow> map_of (mt_leaf_indices t) h \<noteq> None"

section \<open>Proofs of inclusion\<close>

datatype side = LeftSide | RightSide

record MerkleProof =
  mp_leaf_hash :: string
  mp_proof_path :: "(string \<times> side) list"
  mp_root_hash :: string
  mp_leaf_index :: nat
  mp_algorithm :: HashAlgorithm

text \<open>The loop of \<open>get_proof\<close> over the levels from the leaves to the children of the root.\<close>

fun proof_path :: "string list list \<Rightarrow> nat \<Rightarrow> (string \<times> side) list" where
  "proof_path [] index = []"
| "proof_path (layer # layers) index =
    (if index mod 2 = 1 then (layer ! (index - 1), LeftSide) else (layer ! min (index + 1) (length layer - 1), RightSide))
    # proof_path layers (index div 2)"

definition get_proof :: "string \<Rightarrow> MerkleTree \<Rightarrow> MerkleProof option" where
  "get_proof hash_value t =
    (case map_of (mt_leaf_indices t) hash_value of
       None \<Rightarrow> None
     | Some index \<Rightarrow>
         Some \<lparr>mp_leaf_hash = hash_value, mp_proof_path = proof_path (rev (tl (mt_tree t))) index,
               mp_root_hash = tree_root t, mp_leaf_index = index, mp_algorithm = mt_algorithm t\<rparr>)"

fun get_proofs :: "string list \<Rightarrow> MerkleTree \<Rightarrow> (string, MerkleProof) dict \<Rightarrow> (string, MerkleProof) dict option" where
  "get_proofs [] t acc = Some acc"
| "get_proofs (h # hs) t acc = Option.bind (get_proof h t) (\<lambda>p. get_proofs hs t (dict_set h p acc))"

definition get_all_proofs :: "MerkleTree \<Rightarrow> (string, MerkleProof) dict option" where
  "get_all_proofs t = get_proofs (mt_leaves t) t []"

definition verify_step :: "hasher \<Rightarrow> HashAlgorithm \<Rightarrow> string \<Rightarrow> string \<times> side \<Rightarrow> string option" where
  "verify_step H alg current step =
    (case step of (sibling, LeftSide) \<Rightarrow> hash_pair H alg sibling current | (sibling, RightSide) \<Rightarrow> hash_pair H alg current sibling)"

fun verify_path :: "hasher \<Rightarrow> HashAlgorithm \<Rightarrow> string \<Rightarrow> (string \<times> side) list \<Rightarrow> string option" where
  "verify_path H alg current [] = Some current"
| "verify_path H alg current (s # path) = Option.bind (verify_step H alg current s) (\<lambda>c. verify_path H alg c path)"

definition verify_proof :: "hasher \<Rightarrow> MerkleProof \<Rightarrow> bool option" where
  "verify_proof H p =
    map_option (\<lambda>current. current = mp_root_hash p) (verify_path H (mp_algorithm p) (mp_leaf_hash p) (mp_proof_path p))"

section \<open>Batches\<close>

record BatchTimestampRequest =
  br_request_id :: string
  br_hash_values :: "string list"
  br_hash_algorithm :: HashAlgorithm
  br_batch_type :: string

record 'ts BatchTimestampResult =
  bt_request_id :: string
  bt_merkle_root :: string
  bt_merkle_root_token :: string
  bt_merkle_root_timestamp :: 'ts
  bt_individual_proofs :: "(string, MerkleProof) dict"
  bt_created_at :: 'ts

text \<open>The timestamp service is the argument \<open>stamp_hash\<close>: \<^const>\<open>None\<close> when the request fails. The tree is built with the
  default algorithm, whatever algorithm the request names.\<close>

definition timestamp_batch ::
  "hasher \<Rightarrow> 'ts \<Rightarrow> (string \<Rightarrow> HashAlgorithm \<Rightarrow> (string \<times> 'ts) option) \<Rightarrow> BatchTimestampRequest \<Rightarrow> 'ts BatchTimestampResult option" where
  "timestamp_batch H now stamp_hash request =
    (if br_hash_values request = [] then None
     else
       Option.bind (new_tree H (br_hash_values request) SHA256) (\<lambda>tree.
       Option.bind (stamp_hash (tree_root tree) (br_hash_algorithm request)) (\<lambda>(token, ts).
       Option.bind (get_proofs (br_hash_values request) tree []) (\<lambda>proofs.
         Some \<lparr>bt_request_id = br_request_id request, bt_merkle_root = tree_root tree, bt_merkle_root_token = token,
               bt_merkle_root_timestamp = ts, bt_individual_proofs = proofs, bt_created_at = now\<rparr>))))"

definition verify_inclusion :: "hasher \<Rightarrow> string \<Rightarrow> MerkleProof \<Rightarrow> string \<Rightarrow> bool option" where
  "verify_inclusion H leaf_hash p expected_root =
    (if mp_leaf_hash p = leaf_hash \<and> mp_root_hash p = expected_root then verify_proof H p else Some False)"

end
