(* ===== verification/Merkle_Correct.thy ===== *)
theory Merkle_Correct
  imports Merkle
begin

text \<open>
  Correctness of the Merkle trees: every leaf has a proof that verifies, of logarithmic length, and a proof of the length of the tree
  that verifies against its root proves a leaf, unless two of the byte strings hashed collide.
\<close>

section \<open>Levels\<close>

text \<open>The levels from the leaves up: each is computed from the one below, until one hash is left.\<close>

fun chain :: "hasher \<Rightarrow> HashAlgorithm \<Rightarrow> string list list \<Rightarrow> bool" where
  "chain H alg [] \<longleftrightarrow> False"
| "chain H alg [l] \<longleftrightarrow> length l = 1"
| "chain H alg (l # m # ms) \<longleftrightarrow> 1 < length l \<and> next_level H alg l = Some m \<and> chain H alg (m # ms)"

lemma build_levels_chain:
  "build_levels H alg cur (cur # lv) = Some t \<Longrightarrow> cur \<noteq> [] \<Longrightarrow> \<exists>up. t = rev up @ lv \<and> hd up = cur \<and> chain H alg up"
proof (induction "length cur" arbitrary: cur lv rule: less_induct)
  case less
  show ?case
  proof (cases "length cur > 1")
    case True
    then obtain nl where nl: "next_level H alg cur = Some nl" "build_levels H alg nl (nl # cur # lv) = Some t"
      using less.prems(1) by (subst (asm) build_levels.simps) (auto split: option.splits)
    have "length nl < length cur" "nl \<noteq> []" using length_next_level [OF nl(1)] True by auto
    from less.hyps [OF this(1) nl(2) this(2)] obtain up where up: "t = rev up @ cur # lv" "hd up = nl" "chain H alg up" by blast
    then have "t = rev (cur # up) @ lv" "chain H alg (cur # up)" using nl(1) True by (cases up; auto)+
    then show ?thesis by (metis list.sel(1))
  next
    case False
    with less.prems(1) have "t = cur # lv" by (simp add: build_levels.simps)
    moreover have "length cur = 1" using False less.prems(2) by (cases cur) auto
    ultimately show ?thesis by (intro exI [of _ "[cur]"]) simp
  qed
qed

lemma new_tree_chain:
  assumes "new_tree H hs alg = Some t"
  obtains up where "mt_tree t = rev up" "hd up = hs" "chain H alg up" "mt_leaf_indices t = leaf_indices hs"
    "mt_algorithm t = alg" "mt_leaves t = hs" "tree_root t = last up ! 0" "rev (tl (mt_tree t)) = butlast up" "up \<noteq> []"
proof -
  have t: "hs \<noteq> []" "build_levels H alg hs [hs] = Some (mt_tree t)" "mt_leaf_indices t = leaf_indices hs"
    "mt_algorithm t = alg" "mt_leaves t = hs" using assms by (auto simp: new_tree_def build_tree_def split: if_splits)
  obtain up where up: "mt_tree t = rev up" "hd up = hs" "chain H alg up" using build_levels_chain [OF t(2,1)] by auto
  then have "up \<noteq> []" by auto
  then have "tree_root t = last up ! 0" "rev (tl (mt_tree t)) = butlast up"
    using up(1) by (simp_all add: tree_root_def hd_rev flip: hd_conv_nth) (metis butlast_rev rev_rev_ident)
  with up t \<open>up \<noteq> []\<close> show thesis by (intro that)
qed

lemma nth_next_level:
  "next_level H alg xs = Some ys \<Longrightarrow> j < length ys \<Longrightarrow>
   hash_pair H alg (xs ! (2 * j)) (xs ! min (2 * j + 1) (length xs - 1)) = Some (ys ! j)"
proof (induction H alg xs arbitrary: ys j rule: next_level.induct)
  case (3 H alg x y zs)
  then obtain p ps where p: "hash_pair H alg x y = Some p" "next_level H alg zs = Some ps" "ys = p # ps"
    by (auto split: bind_splits)
  show ?case
  proof (cases j)
    case 0
    with p show ?thesis by simp
  next
    case (Suc k)
    with p 3(3) have k: "k < length ps" by simp
    then have "zs \<noteq> []" using length_next_level [OF p(2)] by (cases zs) auto
    then have "(x # y # zs) ! min (2 * j + 1) (length (x # y # zs) - 1) = zs ! min (2 * k + 1) (length zs - 1)"
      using Suc by (cases "2 * k + 1 \<le> length zs - 1") (auto simp: min_def nth_Cons' Suc_diff_Suc)
    with 3(1) [OF p(1,2) k] Suc p(3) show ?thesis by simp
  qed
qed auto

section \<open>Completeness\<close>

lemma proof_step:
  assumes "next_level H alg l = Some m" "i < length l"
  shows "verify_step H alg (l ! i)
      (if i mod 2 = 1 then (l ! (i - 1), LeftSide) else (l ! min (i + 1) (length l - 1), RightSide)) = Some (m ! (i div 2))"
proof -
  have j: "i div 2 < length m" using assms(2) length_next_level [OF assms(1)] by simp
  note h = nth_next_level [OF assms(1) j]
  show ?thesis
  proof (cases "i mod 2 = 1")
    case True
    then have "2 * (i div 2) = i - 1" "min (2 * (i div 2) + 1) (length l - 1) = i" using assms(2) by presburger+
    with h True show ?thesis by (simp add: verify_step_def)
  next
    case False
    then have "2 * (i div 2) = i" by presburger
    with h False show ?thesis by (simp add: verify_step_def)
  qed
qed

lemma proof_path_verifies:
  "chain H alg up \<Longrightarrow> i < length (hd up) \<Longrightarrow>
   verify_path H alg (hd up ! i) (proof_path (butlast up) i) = Some (last up ! 0)"
proof (induction H alg up arbitrary: i rule: chain.induct)
  case (3 H alg l m ms)
  then have "i div 2 < length m" using length_next_level [of H alg l m] by simp
  with 3 proof_step [of H alg l m i] show ?case by simp
qed simp_all

lemma leaf_indices_snoc: "leaf_indices (hs @ [h]) = dict_set h (length hs) (leaf_indices hs)"
  by (simp add: leaf_indices_def enumerate_append_eq)

lemma leaf_indices_Some: "map_of (leaf_indices hs) h = Some i \<Longrightarrow> i < length hs \<and> hs ! i = h"
proof (induction hs rule: rev_induct)
  case Nil
  then show ?case by (simp add: leaf_indices_def)
next
  case (snoc x xs)
  then show ?case by (auto simp: leaf_indices_snoc nth_append split: if_splits)
qed

lemma leaf_indices_dom: "h \<in> set hs \<longleftrightarrow> map_of (leaf_indices hs) h \<noteq> None"
proof (induction hs rule: rev_induct)
  case Nil
  then show ?case by (simp add: leaf_indices_def)
next
  case (snoc x xs)
  then show ?case by (auto simp: leaf_indices_snoc)
qed

lemma length_proof_path [simp]: "length (proof_path ls i) = length ls"
  by (induction ls i rule: proof_path.induct) simp_all

lemma chain_depth: "chain H alg up \<Longrightarrow> length (hd up) \<le> 2 ^ (length up - 1) \<and> (1 < length up \<longrightarrow> 2 ^ (length up - 2) < length (hd up))"
proof (induction H alg up rule: chain.induct)
  case (3 H alg l m ms)
  then have m: "length m = (length l + 1) div 2" using length_next_level [of H alg l m] by simp
  show ?case
  proof (cases ms)
    case Nil
    with 3 m show ?thesis by auto
  next
    case (Cons n ns)
    with 3 m show ?thesis by auto
  qed
qed auto


section \<open>Soundness\<close>

text \<open>The byte strings hashed while a level is built and while a path is checked.\<close>

definition pair_bytes :: "string \<Rightarrow> string \<Rightarrow> bytes" where
  "pair_bytes l r = the (fromhex l) @ the (fromhex r)"

fun level_inputs :: "string list \<Rightarrow> bytes list" where
  "level_inputs [] = []"
| "level_inputs [x] = [pair_bytes x x]"
| "level_inputs (x # y # zs) = pair_bytes x y # level_inputs zs"

fun step_bytes :: "string \<Rightarrow> string \<times> side \<Rightarrow> bytes" where
  "step_bytes cur (s, LeftSide) = pair_bytes s cur"
| "step_bytes cur (s, RightSide) = pair_bytes cur s"

fun path_inputs :: "hasher \<Rightarrow> HashAlgorithm \<Rightarrow> string \<Rightarrow> (string \<times> side) list \<Rightarrow> bytes list" where
  "path_inputs H alg cur [] = []"
| "path_inputs H alg cur (s # path) = step_bytes cur s # path_inputs H alg (H alg (step_bytes cur s)) path"

definition tree_inputs :: "MerkleTree \<Rightarrow> bytes list" where
  "tree_inputs t = concat (map level_inputs (tl (mt_tree t)))"

lemma hash_pair_Some:
  "hash_pair H alg l r = Some h \<Longrightarrow> h = H alg (pair_bytes l r) \<and> fromhex l \<noteq> None \<and> fromhex r \<noteq> None"
  by (auto simp: hash_pair_def pair_bytes_def compute_hash_def split: bind_splits if_splits)

lemma next_level_inputs: "next_level H alg l = Some m \<Longrightarrow> m = map (H alg) (level_inputs l)"
  by (induction H alg l arbitrary: m rule: next_level.induct) (auto dest: hash_pair_Some split: bind_splits)

lemma level_inputs_pair:
  "b \<in> set (level_inputs l) \<Longrightarrow> \<exists>x\<in>set l. \<exists>y\<in>set l. b = pair_bytes x y"
  by (induction l rule: level_inputs.induct) auto

lemma verify_step_Some:
  "verify_step H alg cur s = Some c \<Longrightarrow> c = H alg (step_bytes cur s)"
  by (cases "(cur, s)" rule: step_bytes.cases) (simp_all add: verify_step_def hash_pair_Some)

definition digests :: "nat \<Rightarrow> string \<Rightarrow> bool" where
  "digests n h \<longleftrightarrow> (\<exists>b. fromhex h = Some b \<and> length b = n)"

lemma digests_length: "digests n h \<Longrightarrow> length (the (fromhex h)) = n"
  by (auto simp: digests_def)

lemma digests_eq: "digests n g \<Longrightarrow> digests n h \<Longrightarrow> the (fromhex g) = the (fromhex h) \<Longrightarrow> fromhex g = fromhex h"
  unfolding digests_def by (elim exE conjE) simp

lemma pair_bytes_split:
  assumes eq: "pair_bytes x y = step_bytes cur s" and x: "digests n x" and y: "digests n y" and cur: "digests n cur"
  shows "fromhex cur = fromhex x \<or> fromhex cur = fromhex y"
proof (cases "(cur, s)" rule: step_bytes.cases)
  case (1 c t)
  then have "the (fromhex x) @ the (fromhex y) = the (fromhex t) @ the (fromhex cur)" using eq by (simp add: pair_bytes_def)
  then have "the (fromhex cur) = the (fromhex y)" using digests_length [OF y] digests_length [OF cur] by simp
  then show ?thesis using digests_eq [OF cur y] by simp
next
  case (2 c t)
  then have "the (fromhex x) @ the (fromhex y) = the (fromhex cur) @ the (fromhex t)" using eq by (simp add: pair_bytes_def)
  then have "the (fromhex cur) = the (fromhex x)" using digests_length [OF x] digests_length [OF cur] by simp
  then show ?thesis using digests_eq [OF cur x] by simp
qed

lemma verified_path_sound:
  "chain H alg up \<Longrightarrow> verify_path H alg cur path = Some (last up ! 0) \<Longrightarrow> length path = length up - 1 \<Longrightarrow>
   \<forall>b. digests n (H alg b) \<Longrightarrow> \<forall>x\<in>set (hd up). digests n x \<Longrightarrow> digests n cur \<Longrightarrow>
   inj_on (\<lambda>b. fromhex (H alg b)) (set (concat (map level_inputs (butlast up))) \<union> set (path_inputs H alg cur path)) \<Longrightarrow>
   \<exists>x\<in>set (hd up). fromhex x = fromhex cur"
proof (induction H alg up arbitrary: cur path rule: chain.induct)
  case (2 H alg l)
  then show ?case by (cases l) auto
next
  case (3 H alg l m ms)
  then obtain s path' where path: "path = s # path'" by (cases path) auto
  then obtain c where c: "verify_step H alg cur s = Some c" "verify_path H alg c path' = Some (last (m # ms) ! 0)"
    using 3(3) by (auto split: bind_splits)
  note hc = verify_step_Some [OF c(1)] and m = next_level_inputs [of H alg l m]
  have m': "m = map (H alg) (level_inputs l)" using 3(2) m by simp
  let ?S = "set (concat (map level_inputs (butlast (l # m # ms)))) \<union> set (path_inputs H alg cur path)"
  have sub: "set (concat (map level_inputs (butlast (m # ms)))) \<union> set (path_inputs H alg c path') \<subseteq> ?S"
    using path hc by auto
  have "\<exists>y\<in>set (hd (m # ms)). fromhex y = fromhex c"
  proof (rule 3(1) [OF _ c(2)])
    show "inj_on (\<lambda>b. fromhex (H alg b)) (set (concat (map level_inputs (butlast (m # ms)))) \<union> set (path_inputs H alg c path'))"
      by (rule inj_on_subset [OF 3(8) sub])
  qed (use 3 path m' hc in auto)
  then obtain b where b: "b \<in> set (level_inputs l)" "fromhex (H alg b) = fromhex (H alg (step_bytes cur s))"
    using m' hc by auto
  have "b \<in> ?S" "step_bytes cur s \<in> ?S" using b(1) path by auto
  then have "b = step_bytes cur s" using inj_onD [OF 3(8) b(2)] by blast
  with level_inputs_pair [OF b(1)] obtain x y where "x \<in> set l" "y \<in> set l" "pair_bytes x y = step_bytes cur s" by auto
  with pair_bytes_split [of x y cur s n] 3(6,7) show ?case by fastforce
qed simp

section \<open>Weaknesses\<close>

text \<open>The proof check does not bound the path: the hash of an inner node and the rest of a path verify as well.\<close>

lemma inner_node_verifies:
  assumes "verify_proof H p = Some True" "mp_proof_path p = s # path"
  shows "verify_proof H (p\<lparr>mp_leaf_hash := H (mp_algorithm p) (step_bytes (mp_leaf_hash p) s), mp_proof_path := path\<rparr>) = Some True"
  using assms by (auto simp: verify_proof_def dest!: verify_step_Some split: bind_splits)

text \<open>A level of odd length is completed by its last hash, so a batch and the batch with its last hash repeated have one root.\<close>

lemma next_level_duplicate: "odd (length hs) \<Longrightarrow> next_level H alg (hs @ [last hs]) = next_level H alg hs"
  by (induction H alg hs rule: next_level.induct) (auto split: bind_splits)

lemma duplicate_same_root:
  assumes "odd (length hs)" "1 < length hs"
  shows "map_option tree_root (new_tree H (hs @ [last hs]) alg) = map_option tree_root (new_tree H hs alg)"
proof -
  have shift: "build_levels H alg cur (lv @ a) = map_option (\<lambda>t. t @ a) (build_levels H alg cur lv)" for cur lv a
  proof (induction "length cur" arbitrary: cur lv rule: less_induct)
    case less
    show ?case
    proof (cases "next_level H alg cur")
      case None
      then show ?thesis by (simp add: build_levels.simps)
    next
      case (Some nl)
      with less [of nl "nl # lv"] length_next_level [OF Some] show ?thesis
        by (subst (1 2) build_levels.simps) auto
    qed
  qed
  have top: "map_option (\<lambda>t. t ! 0 ! 0) (build_levels H alg nl (nl # a)) = map_option (\<lambda>t. t ! 0 ! 0) (build_levels H alg nl [nl])"
    for nl a
  proof (cases "build_levels H alg nl [nl]")
    case (Some t)
    then have "t \<noteq> []"
      using build_levels_chain [of H alg nl "[]" t] by (cases "nl = []") (auto simp: build_levels.simps)
    with Some shift [of nl "[nl]" a] show ?thesis by (simp add: nth_append)
  qed (use shift [of nl "[nl]" a] in simp)
  have ne: "hs \<noteq> []" using assms(2) by auto
  have "map_option tree_root (new_tree H hs' alg) =
      Option.bind (next_level H alg hs') (\<lambda>nl. map_option (\<lambda>t. t ! 0 ! 0) (build_levels H alg nl [nl]))"
    if "1 < length hs'" for hs'
    using that top by (subst new_tree_def, subst build_tree_def, subst build_levels.simps)
      (auto simp: option.map_comp comp_def tree_root_def split: option.splits)
  from this [of hs] this [of "hs @ [last hs]"] assms ne show ?thesis by (simp add: next_level_duplicate)
qed

section \<open>Trees and batches\<close>

lemma tree_proof:
  assumes "new_tree H hs alg = Some t" "h \<in> set hs"
  obtains p where "get_proof h t = Some p" "verify_inclusion H h p (tree_root t) = Some True"
    "length (mp_proof_path p) = tree_depth t - 1"
proof -
  obtain up where up: "mt_tree t = rev up" "hd up = hs" "chain H alg up" "mt_leaf_indices t = leaf_indices hs"
    "mt_algorithm t = alg" "tree_root t = last up ! 0" "rev (tl (mt_tree t)) = butlast up"
    by (rule new_tree_chain [OF assms(1)])
  obtain i where i: "map_of (leaf_indices hs) h = Some i" using assms(2) leaf_indices_dom [of h hs] by auto
  then have "i < length (hd up)" "hd up ! i = h" using leaf_indices_Some [OF i] up(2) by simp_all
  then have v: "verify_path H alg h (proof_path (butlast up) i) = Some (tree_root t)"
    using proof_path_verifies [OF up(3), of i] up(6) by simp
  show thesis
  proof (rule that)
    show "get_proof h t = Some \<lparr>mp_leaf_hash = h, mp_proof_path = proof_path (butlast up) i, mp_root_hash = tree_root t,
        mp_leaf_index = i, mp_algorithm = alg\<rparr>" using i up by (simp add: get_proof_def)
  qed (use v up(1) in \<open>simp_all add: verify_inclusion_def verify_proof_def tree_depth_def\<close>)
qed

lemma tree_size:
  assumes "new_tree H hs alg = Some t"
  shows "length hs \<le> 2 ^ (tree_depth t - 1)" "1 < length hs \<Longrightarrow> 2 ^ (tree_depth t - 2) < length hs"
proof -
  obtain up where up: "mt_tree t = rev up" "hd up = hs" "chain H alg up" "up \<noteq> []" by (rule new_tree_chain [OF assms])
  have "1 < length hs \<Longrightarrow> 1 < length up" using up by (cases up; cases "tl up") auto
  with chain_depth [OF up(3)] up show "length hs \<le> 2 ^ (tree_depth t - 1)" "1 < length hs \<Longrightarrow> 2 ^ (tree_depth t - 2) < length hs"
    by (auto simp: tree_depth_def)
qed

lemma get_proofs_all:
  "get_proofs hs t acc = Some ps \<Longrightarrow> map_of ps h = (if h \<in> set hs then get_proof h t else map_of acc h)"
  by (induction hs arbitrary: acc) (auto split: bind_splits if_splits)

section \<open>Properties\<close>

text \<open>C37: Every hash of a timestamped batch, and nothing else, gets a proof, and the proof verifies against the stamped root; its length is
  the depth of the tree less one, which is the binary logarithm of the number of hashes rounded up.\<close>

theorem batch_proofs_verify:
  assumes "timestamp_batch H now stamp_hash request = Some res"
  shows "\<exists>tree. new_tree H (br_hash_values request) SHA256 = Some tree \<and> bt_merkle_root res = tree_root tree \<and>
    dom (map_of (bt_individual_proofs res)) = set (br_hash_values request) \<and>
    (\<forall>h\<in>set (br_hash_values request). \<exists>p. map_of (bt_individual_proofs res) h = Some p \<and>
       verify_inclusion H h p (bt_merkle_root res) = Some True \<and> length (mp_proof_path p) = tree_depth tree - 1) \<and>
    length (br_hash_values request) \<le> 2 ^ (tree_depth tree - 1) \<and>
    (1 < length (br_hash_values request) \<longrightarrow> 2 ^ (tree_depth tree - 2) < length (br_hash_values request))"
proof -
  let ?hs = "br_hash_values request"
  obtain tree where tree: "new_tree H ?hs SHA256 = Some tree" "bt_merkle_root res = tree_root tree"
    and ps: "get_proofs ?hs tree [] = Some (bt_individual_proofs res)"
    using assms by (auto simp: timestamp_batch_def split: if_splits bind_splits)
  have all: "\<exists>p. map_of (bt_individual_proofs res) h = Some p \<and> verify_inclusion H h p (bt_merkle_root res) = Some True \<and>
      length (mp_proof_path p) = tree_depth tree - 1" if h: "h \<in> set ?hs" for h
    using tree_proof [OF tree(1) h] get_proofs_all [OF ps, of h] h tree(2) by metis
  then have "dom (map_of (bt_individual_proofs res)) = set ?hs"
    using get_proofs_all [OF ps] by (fastforce simp: dom_def split: if_splits)
  with all tree tree_size [OF tree(1)] show ?thesis by blast
qed

text \<open>C36: An inclusion proof cannot be forged: if a proof as long as the tree is deep verifies against the root for a digest, the digest is one of
  the leaves, as long as no two of the byte strings hashed for the tree and for the proof have the same digest.\<close>

theorem merkle_proof_sound:
  assumes "new_tree H hs alg = Some tree" "\<forall>b. digests (digest_size alg) (H alg b)"
    "\<forall>h\<in>set hs. digests (digest_size alg) h" "digests (digest_size alg) leaf"
    "verify_inclusion H leaf p (tree_root tree) = Some True" "mp_algorithm p = alg"
    "length (mp_proof_path p) = tree_depth tree - 1"
    "inj_on (\<lambda>b. fromhex (H alg b)) (set (tree_inputs tree) \<union> set (path_inputs H alg leaf (mp_proof_path p)))"
  shows "\<exists>h\<in>set hs. fromhex h = fromhex leaf"
proof -
  obtain up where up: "mt_tree tree = rev up" "hd up = hs" "chain H alg up" "tree_root tree = last up ! 0"
    "rev (tl (mt_tree tree)) = butlast up" by (rule new_tree_chain [OF assms(1)])
  have p: "mp_leaf_hash p = leaf" "verify_path H alg leaf (mp_proof_path p) = Some (last up ! 0)"
    using assms(5,6) up(4) by (auto simp: verify_inclusion_def verify_proof_def split: if_splits)
  have "set (concat (map level_inputs (butlast up))) = set (tree_inputs tree)"
    unfolding up(5) [symmetric] by (simp add: tree_inputs_def)
  with verified_path_sound [OF up(3) p(2) _ assms(2) _ assms(4)] assms(3,7,8) up(1,2) show ?thesis
    by (simp add: tree_depth_def)
qed

section \<open>A sample\<close>

text \<open>A digest that reads one bit of its input, and two leaves.\<close>

definition toy_hash :: hasher where
  "toy_hash alg b = replicate (2 * digest_size alg - 1) (CHR ''0'') @ [if b \<noteq> [] \<and> hd b = 0 then CHR ''1'' else CHR ''2'']"

definition toy_leaf :: "char \<Rightarrow> string" where
  "toy_leaf c = replicate 63 (CHR ''0'') @ [c]"

definition toy_request :: BatchTimestampRequest where
  "toy_request = \<lparr>br_request_id = ''q'', br_hash_values = [toy_leaf (CHR ''a''), toy_leaf (CHR ''b'')],
     br_hash_algorithm = SHA256, br_batch_type = ''audit''\<rparr>"

definition toy_stamp :: "string \<Rightarrow> HashAlgorithm \<Rightarrow> (string \<times> int) option" where
  "toy_stamp h alg = Some (h, 0)"

theorem batch_proofs_verify_witness:
  "\<exists>res p. timestamp_batch toy_hash 0 toy_stamp toy_request = Some res \<and>
     map_of (bt_individual_proofs res) (toy_leaf (CHR ''b'')) = Some p \<and>
     verify_inclusion toy_hash (toy_leaf (CHR ''b'')) p (bt_merkle_root res) = Some True"
proof -
  have "map_option bt_merkle_root_timestamp (timestamp_batch toy_hash 0 toy_stamp toy_request) = Some 0" by code_simp
  then obtain res where res: "timestamp_batch toy_hash 0 toy_stamp toy_request = Some res" by (auto simp only: map_option_eq_Some)
  moreover have "toy_leaf (CHR ''b'') \<in> set (br_hash_values toy_request)" by (simp add: toy_request_def)
  ultimately show ?thesis using batch_proofs_verify [OF res] by blast
qed

lemma digests_code: "digests n h \<longleftrightarrow> (case fromhex h of None \<Rightarrow> False | Some b \<Rightarrow> length b = n)"
  by (auto simp: digests_def split: option.splits)

lemma toy_digests: "digests (digest_size SHA256) (toy_hash SHA256 b)"
proof -
  have "digests 32 (replicate 63 (CHR ''0'') @ [c])" if "c \<in> {CHR ''1'', CHR ''2''}" for c
    using that unfolding digests_code by (elim insertE emptyE; hypsubst; code_simp)
  then show ?thesis by (simp add: toy_hash_def)
qed

theorem merkle_proof_sound_witness:
  "\<exists>tree p. new_tree toy_hash [toy_leaf (CHR ''a''), toy_leaf (CHR ''b'')] SHA256 = Some tree \<and>
     get_proof (toy_leaf (CHR ''b'')) tree = Some p \<and>
     (\<exists>h\<in>set [toy_leaf (CHR ''a''), toy_leaf (CHR ''b'')]. fromhex h = fromhex (toy_leaf (CHR ''b'')))"
proof -
  let ?hs = "[toy_leaf (CHR ''a''), toy_leaf (CHR ''b'')]"
  have leaves: "\<forall>h\<in>set ?hs. digests (digest_size SHA256) h" unfolding digests_code by code_simp
  have facts: "map_option (\<lambda>t. (tree_depth t, map_option mp_algorithm (get_proof (toy_leaf (CHR ''b'')) t), tree_inputs t =
      the (map_option (\<lambda>p. path_inputs toy_hash SHA256 (toy_leaf (CHR ''b'')) (mp_proof_path p)) (get_proof (toy_leaf (CHR ''b'')) t)),
      length (tree_inputs t))) (new_tree toy_hash ?hs SHA256) = Some (2, Some SHA256, True, 1)" by code_simp
  then obtain t where t: "new_tree toy_hash ?hs SHA256 = Some t" by (auto simp only: map_option_eq_Some)
  have b: "toy_leaf (CHR ''b'') \<in> set ?hs" by simp
  obtain p where p: "get_proof (toy_leaf (CHR ''b'')) t = Some p"
    "verify_inclusion toy_hash (toy_leaf (CHR ''b'')) p (tree_root t) = Some True" "length (mp_proof_path p) = tree_depth t - 1"
    by (rule tree_proof [OF t b])
  have f: "mp_algorithm p = SHA256" "tree_inputs t = path_inputs toy_hash SHA256 (toy_leaf (CHR ''b'')) (mp_proof_path p)"
    "length (tree_inputs t) = 1"
    using facts unfolding t p(1) option.map option.sel option.inject prod.inject by blast+
  from f(3) have "inj_on (\<lambda>b. fromhex (toy_hash SHA256 b)) (set (tree_inputs t) \<union> set (path_inputs toy_hash SHA256 (toy_leaf (CHR ''b'')) (mp_proof_path p)))"
    unfolding f(2) [symmetric] by (auto simp: length_Suc_conv)
  from merkle_proof_sound [OF t _ leaves _ p(2) f(1) p(3) this] toy_digests leaves b t p(1) show ?thesis by blast
qed

end
