(* ===== verification/Resilience.thy ===== *)
theory Resilience
  imports Py_Float
begin

text \<open>
  The circuit breaker of the services (\<open>libs/kron/src/kron/services/utilities/resilience.py\<close>). Clock readings and times are finite
  floats, so rationals, and their difference is rounded as the interpreter rounds it. Each block under the lock is one
  operation; calls of \<open>execute\<close> interleave between its two blocks, so the system is a breaker and the number of calls under way.
\<close>

definition float_sub :: "rat \<Rightarrow> rat \<Rightarrow> rat" where
  "float_sub a b =
    (if a = b then 0
     else (case round_double \<bar>a - b\<bar> of Finite q \<Rightarrow> (if a < b then - q else q) | _ \<Rightarrow> a - b))"

datatype CircuitState = CLOSED | OPEN | HALF_OPEN

record state_change =
  sc_time :: rat
  sc_from :: CircuitState
  sc_to :: CircuitState

record CircuitBreaker =
  cb_failure_threshold :: int
  cb_recovery_time :: rat
  cb_half_open_max_calls :: int
  cb_failure_count :: int
  cb_state :: CircuitState
  cb_last_failure_time :: rat
  cb_half_open_calls :: int
  cb_success_metric :: int
  cb_failure_metric :: int
  cb_rejected_metric :: int
  cb_state_changes :: "state_change list"

datatype breaker_error = BreakerValueError string

definition new_breaker :: "int \<Rightarrow> rat \<Rightarrow> int \<Rightarrow> (breaker_error, CircuitBreaker) result" where
  "new_breaker failure_threshold recovery_time half_open_max_calls =
    (if failure_threshold \<le> 0 then Inl (BreakerValueError ''failure_threshold must be > 0'')
     else if recovery_time \<le> 0 then Inl (BreakerValueError ''recovery_time must be > 0'')
     else if half_open_max_calls \<le> 0 then Inl (BreakerValueError ''half_open_max_calls must be > 0'')
     else
       Inr \<lparr>cb_failure_threshold = failure_threshold, cb_recovery_time = recovery_time,
            cb_half_open_max_calls = half_open_max_calls, cb_failure_count = 0, cb_state = CLOSED,
            cb_last_failure_time = 0, cb_half_open_calls = 0, cb_success_metric = 0, cb_failure_metric = 0,
            cb_rejected_metric = 0, cb_state_changes = []\<rparr>)"

definition change_state :: "rat \<Rightarrow> CircuitState \<Rightarrow> CircuitBreaker \<Rightarrow> CircuitBreaker" where
  "change_state now new_state b =
    (if new_state \<noteq> cb_state b
     then
       (let b1 = b\<lparr>cb_state := new_state,
                   cb_state_changes := cb_state_changes b @ [\<lparr>sc_time = now, sc_from = cb_state b, sc_to = new_state\<rparr>]\<rparr>
        in if new_state = HALF_OPEN then b1\<lparr>cb_half_open_calls := 0\<rparr>
           else if new_state = CLOSED then b1\<lparr>cb_failure_count := 0\<rparr>
           else b1)
     else b)"

definition reject :: "rat \<Rightarrow> CircuitBreaker \<Rightarrow> (bool \<times> rat) \<times> CircuitBreaker" where
  "reject retry_after b = ((False, retry_after), b\<lparr>cb_rejected_metric := cb_rejected_metric b + 1\<rparr>)"

definition check_half_open :: "CircuitBreaker \<Rightarrow> (bool \<times> rat) \<times> CircuitBreaker" where
  "check_half_open b =
    (if cb_state b = HALF_OPEN
     then if cb_half_open_calls b \<ge> cb_half_open_max_calls b then reject (cb_recovery_time b) b
          else ((True, 0), b\<lparr>cb_half_open_calls := cb_half_open_calls b + 1\<rparr>)
     else ((True, 0), b))"

definition check_state :: "rat \<Rightarrow> CircuitBreaker \<Rightarrow> (bool \<times> rat) \<times> CircuitBreaker" where
  "check_state now b =
    (if cb_state b = OPEN
     then
       (let elapsed = float_sub now (cb_last_failure_time b)
        in if elapsed \<ge> cb_recovery_time b then check_half_open (change_state now HALF_OPEN b)
           else reject (float_sub (cb_recovery_time b) elapsed) b)
     else check_half_open b)"

text \<open>The two blocks after the call: it returned, or it raised an exception that counts.\<close>

definition record_success :: "rat \<Rightarrow> CircuitBreaker \<Rightarrow> CircuitBreaker" where
  "record_success now b =
    (let b1 = b\<lparr>cb_success_metric := cb_success_metric b + 1\<rparr>
     in if cb_state b1 = HALF_OPEN then change_state now CLOSED b1 else b1)"

definition record_failure :: "rat \<Rightarrow> CircuitBreaker \<Rightarrow> CircuitBreaker" where
  "record_failure now b =
    (let b1 = b\<lparr>cb_failure_count := cb_failure_count b + 1, cb_last_failure_time := now,
               cb_failure_metric := cb_failure_metric b + 1\<rparr>
     in if cb_state b1 = CLOSED \<and> cb_failure_count b1 \<ge> cb_failure_threshold b1 \<or> cb_state b1 = HALF_OPEN
        then change_state now OPEN b1 else b1)"

text \<open>One call of \<open>execute\<close> with no other in between. The flag of a raised exception says whether it is excluded.\<close>

datatype ('v, 'e) outcome = Returned 'v | Raised bool 'e

datatype ('v, 'e) call_result = CallValue 'v | CallRaised 'e | CircuitBreakerOpenError rat

definition execute :: "rat \<Rightarrow> rat \<Rightarrow> ('v, 'e) outcome \<Rightarrow> CircuitBreaker \<Rightarrow> ('v, 'e) call_result \<times> CircuitBreaker" where
  "execute now later call b =
    (let ((can_proceed, retry_after), b1) = check_state now b
     in if \<not> can_proceed then (CircuitBreakerOpenError retry_after, b1)
        else
          (case call of
             Returned v \<Rightarrow> (CallValue v, record_success later b1)
           | Raised excluded e \<Rightarrow> (CallRaised e, if excluded then b1 else record_failure later b1)))"

section \<open>Interleaved calls\<close>

inductive breaker_step :: "CircuitBreaker \<times> nat \<Rightarrow> CircuitBreaker \<times> nat \<Rightarrow> bool" where
  admit: "check_state now b = ((True, r), b') \<Longrightarrow> breaker_step (b, n) (b', Suc n)"
| turn_away: "check_state now b = ((False, r), b') \<Longrightarrow> breaker_step (b, n) (b', n)"
| success: "breaker_step (b, Suc n) (record_success now b, n)"
| failure: "breaker_step (b, Suc n) (record_failure now b, n)"
| excluded: "breaker_step (b, Suc n) (b, n)"

inductive_cases breaker_stepE: "breaker_step (b, n) (b', n')"

lemmas breaker_step_cases = breaker_stepE [consumes 1, case_names admit turn_away success failure excluded]

text \<open>The edges of the state machine.\<close>

fun circuit_edge :: "CircuitState \<Rightarrow> CircuitState \<Rightarrow> bool" where
  "circuit_edge CLOSED OPEN = True"
| "circuit_edge OPEN HALF_OPEN = True"
| "circuit_edge HALF_OPEN CLOSED = True"
| "circuit_edge HALF_OPEN OPEN = True"
| "circuit_edge _ _ = False"

text \<open>The recorded changes are a walk along the edges from \<^const>\<open>CLOSED\<close> to the present state.\<close>

fun circuit_walk :: "CircuitState \<Rightarrow> state_change list \<Rightarrow> CircuitState \<Rightarrow> bool" where
  "circuit_walk s [] s' \<longleftrightarrow> s = s'"
| "circuit_walk s (c # cs) s' \<longleftrightarrow> sc_from c = s \<and> circuit_edge s (sc_to c) \<and> circuit_walk (sc_to c) cs s'"

definition breaker_inv :: "CircuitBreaker \<Rightarrow> bool" where
  "breaker_inv b \<longleftrightarrow>
     0 < cb_failure_threshold b \<and> 0 < cb_half_open_max_calls b \<and> 0 \<le> cb_failure_count b \<and>
     0 \<le> cb_half_open_calls b \<and> cb_half_open_calls b \<le> cb_half_open_max_calls b \<and>
     (cb_state b = CLOSED \<longrightarrow> cb_failure_count b < cb_failure_threshold b) \<and>
     circuit_walk CLOSED (cb_state_changes b) (cb_state b)"

lemma circuit_walk_snoc: "circuit_walk s (cs @ [c]) s' \<longleftrightarrow> (\<exists>m. circuit_walk s cs m \<and> sc_from c = m \<and> circuit_edge m (sc_to c) \<and> sc_to c = s')"
  by (induction s cs s' rule: circuit_walk.induct) auto

lemma inv_check_half_open: "breaker_inv b \<Longrightarrow> breaker_inv (snd (check_half_open b))"
  by (auto simp: breaker_inv_def check_half_open_def reject_def)

lemma inv_to_half_open: "breaker_inv b \<Longrightarrow> cb_state b = OPEN \<Longrightarrow> breaker_inv (change_state now HALF_OPEN b)"
  by (auto simp: breaker_inv_def change_state_def circuit_walk_snoc)

lemma inv_check_state: "breaker_inv b \<Longrightarrow> breaker_inv (snd (check_state now b))"
  using inv_check_half_open [of b] inv_check_half_open [OF inv_to_half_open]
  by (auto simp: check_state_def Let_def reject_def breaker_inv_def)

lemma inv_record_success: "breaker_inv b \<Longrightarrow> breaker_inv (record_success now b)"
  by (auto simp: breaker_inv_def record_success_def change_state_def Let_def circuit_walk_snoc)

lemma inv_record_failure: "breaker_inv b \<Longrightarrow> breaker_inv (record_failure now b)"
  by (cases "cb_state b") (auto simp: breaker_inv_def record_failure_def change_state_def Let_def circuit_walk_snoc)

lemma inv_step: "breaker_step (b, n) (b', n') \<Longrightarrow> breaker_inv b \<Longrightarrow> breaker_inv b'"
proof (induction rule: breaker_step_cases)
  case (admit now r)
  then show ?case using inv_check_state [of b now] by simp
next
  case (turn_away now r)
  then show ?case using inv_check_state [of b now] by simp
qed (simp_all add: inv_record_success inv_record_failure)

lemma inv_new: "new_breaker f r h = Inr b \<Longrightarrow> breaker_inv b"
  by (auto simp: new_breaker_def breaker_inv_def split: if_splits)

lemma inv_steps:
  assumes "breaker_step\<^sup>*\<^sup>* s s'" "breaker_inv (fst s)"
  shows "breaker_inv (fst s')"
  using assms by (induction rule: rtranclp_induct) (auto intro: inv_step)

section \<open>A breaker that sticks\<close>

text \<open>Half open, with all its test calls handed out and none under way.\<close>

definition stuck :: "CircuitBreaker \<Rightarrow> bool" where
  "stuck b \<longleftrightarrow> cb_state b = HALF_OPEN \<and> cb_half_open_max_calls b \<le> cb_half_open_calls b"

lemma stuck_rejects: "stuck b \<Longrightarrow> check_state now b = reject (cb_recovery_time b) b"
  by (simp add: stuck_def check_state_def check_half_open_def)

lemma stuck_step: "breaker_step (b, n) (b', n') \<Longrightarrow> n = 0 \<Longrightarrow> stuck b \<Longrightarrow> n' = 0 \<and> stuck b'"
proof (induction rule: breaker_step_cases)
  case (admit now r)
  then show ?case by (simp add: stuck_rejects reject_def)
next
  case (turn_away now r)
  then have "b' = b\<lparr>cb_rejected_metric := cb_rejected_metric b + 1\<rparr>" by (simp add: stuck_rejects reject_def)
  with turn_away show ?case by (simp add: stuck_def)
qed simp_all

lemma stuck_steps:
  assumes "breaker_step\<^sup>*\<^sup>* s s'" "snd s = 0" "stuck (fst s)"
  shows "snd s' = 0 \<and> stuck (fst s')"
  using assms(1)
proof (induction rule: rtranclp_induct)
  case base
  then show ?case using assms by simp
next
  case (step y z)
  obtain b n b' n' where yz: "y = (b, n)" "z = (b', n')" by (cases y; cases z)
  with step stuck_step [of b n b' n'] show ?case by simp
qed

section \<open>Properties\<close>


text \<open>A half-open breaker whose test calls all ended in excluded exceptions never recovers: whatever calls come, at whatever time,
  every one is rejected.\<close>

theorem half_open_sticks:
  assumes "cb_state b = HALF_OPEN" "cb_half_open_max_calls b \<le> cb_half_open_calls b" "breaker_step\<^sup>*\<^sup>* (b, 0) (b', n)"
  shows "n = 0 \<and> cb_state b' = HALF_OPEN \<and> check_state now b' = reject (cb_recovery_time b') b'"
proof -
  have "n = 0 \<and> stuck b'" using stuck_steps [OF assms(3)] assms(1,2) by (simp add: stuck_def)
  then show ?thesis using stuck_rejects by (simp add: stuck_def)
qed

section \<open>A sample\<close>

definition fresh_breaker :: CircuitBreaker where
  "fresh_breaker = the (case new_breaker 1 30 1 of Inr b \<Rightarrow> Some b | Inl _ \<Rightarrow> None)"

definition tripped_breaker :: CircuitBreaker where
  "tripped_breaker = record_failure 1 (snd (check_state 0 fresh_breaker))"

definition testing_breaker :: CircuitBreaker where
  "testing_breaker = snd (check_state 40 tripped_breaker)"

lemma fresh_new: "new_breaker 1 30 1 = Inr fresh_breaker"
  by (simp add: new_breaker_def fresh_breaker_def)

lemma bit_length_samples: "bit_length 19 = 5" "bit_length 30 = 5" "bit_length 39 = 6" "bit_length (Suc 0) = 1"
  by (simp_all add: bit_length.simps)

lemma float_sub_samples: "float_sub 20 1 = 19" "float_sub 31 1 = 30" "float_sub 40 1 = 39"
  by (simp_all add: float_sub_def round_double_def ulp_exponent_def bit_length_samples scale2_def round_half_even_def)

lemma tripped_state:
  "check_state 0 fresh_breaker = ((True, 0), fresh_breaker)" "cb_state tripped_breaker = OPEN" "cb_recovery_time tripped_breaker = 30"
  "cb_last_failure_time tripped_breaker = 1" "cb_half_open_max_calls tripped_breaker = 1"
  by (simp_all add: tripped_breaker_def fresh_breaker_def new_breaker_def check_state_def check_half_open_def record_failure_def
      change_state_def)

lemma testing_state:
  "fst (check_state 40 tripped_breaker) = (True, 0)" "cb_state testing_breaker = HALF_OPEN" "cb_half_open_calls testing_breaker = 1"
  "cb_half_open_max_calls testing_breaker = 1"
  by (simp_all add: testing_breaker_def check_state_def tripped_state float_sub_samples check_half_open_def change_state_def)

lemma tripped_reachable: "breaker_step\<^sup>*\<^sup>* (fresh_breaker, 0) (tripped_breaker, 0)"
proof -
  have "breaker_step (fresh_breaker, 0) (fresh_breaker, Suc 0)" by (rule breaker_step.admit [OF tripped_state(1)])
  moreover have "breaker_step (fresh_breaker, Suc 0) (tripped_breaker, 0)"
    using breaker_step.failure [of fresh_breaker 0 1] by (simp add: tripped_breaker_def tripped_state(1))
  ultimately show ?thesis by (meson rtranclp.rtrancl_into_rtrancl rtranclp.rtrancl_refl)
qed

lemma testing_admitted: "breaker_step (tripped_breaker, 0) (testing_breaker, Suc 0)"
  using breaker_step.admit [of 40 tripped_breaker 0 testing_breaker 0] testing_state(1) unfolding testing_breaker_def
  by (metis prod.collapse)


theorem half_open_sticks_witness:
  "breaker_step\<^sup>*\<^sup>* (fresh_breaker, 0) (testing_breaker, 0) \<and>
   check_state 1000000 testing_breaker = reject (cb_recovery_time testing_breaker) testing_breaker"
proof
  have "breaker_step (testing_breaker, Suc 0) (testing_breaker, 0)" by (rule breaker_step.excluded)
  with tripped_reachable testing_admitted show "breaker_step\<^sup>*\<^sup>* (fresh_breaker, 0) (testing_breaker, 0)"
    by (meson rtranclp.rtrancl_into_rtrancl)
  show "check_state 1000000 testing_breaker = reject (cb_recovery_time testing_breaker) testing_breaker"
    using half_open_sticks [of testing_breaker testing_breaker 0 1000000] testing_state by simp
qed

end
