(* ===== verification/Progression.thy ===== *)
theory Progression
  imports Prelude "HOL-Library.Multiset"
begin

text \<open>
  Ordered sequences of ids (\<open>libs/kron/src/kron/core/progression.py\<close>): a list of ids, duplicates allowed, and the set of its members for
  fast membership tests. An item is its id here: the coercion of an element or a text to a UUID is done by the caller.
  Python's list operations are spelled out with negative and out-of-range indices. Slices have no step.
\<close>

section \<open>Python lists\<close>

text \<open>The position an index denotes; \<^const>\<open>None\<close> is the \<open>IndexError\<close>.\<close>

definition position :: "int \<Rightarrow> nat \<Rightarrow> nat option" where
  "position i n =
    (if 0 \<le> i \<and> i < int n then Some (nat i)
     else if i < 0 \<and> - int n \<le> i then Some (nat (int n + i))
     else None)"

definition list_insert :: "int \<Rightarrow> 'a \<Rightarrow> 'a list \<Rightarrow> 'a list" where
  "list_insert i x xs =
    (let n = int (length xs);
         k = nat (if i < 0 then max 0 (n + i) else min i n)
     in take k xs @ x # drop k xs)"

definition list_pop :: "int \<Rightarrow> 'a list \<Rightarrow> ('a \<times> 'a list) option" where
  "list_pop i xs = map_option (\<lambda>k. (xs ! k, take k xs @ drop (Suc k) xs)) (position i (length xs))"

text \<open>The bounds of a slice are clamped to the list.\<close>

definition slice_bound :: "int option \<Rightarrow> int \<Rightarrow> nat \<Rightarrow> nat" where
  "slice_bound b fallback n =
    (let i = (case b of None \<Rightarrow> fallback | Some i \<Rightarrow> if i < 0 then i + int n else i)
     in nat (max 0 (min i (int n))))"

definition get_slice :: "int option \<Rightarrow> int option \<Rightarrow> 'a list \<Rightarrow> 'a list" where
  "get_slice start stop xs =
    (let n = length xs; a = slice_bound start 0 n; b = slice_bound stop (int n) n in take (b - a) (drop a xs))"

definition set_slice :: "int option \<Rightarrow> int option \<Rightarrow> 'a list \<Rightarrow> 'a list \<Rightarrow> 'a list" where
  "set_slice start stop ys xs =
    (let n = length xs; a = slice_bound start 0 n; b = max a (slice_bound stop (int n) n) in take a xs @ ys @ drop b xs)"

section \<open>The progression\<close>

record progression =
  pg_name :: "string option"
  pg_order :: "uuid list"
  pg_members :: "uuid set"

datatype seq_error = NotFoundError | SeqValueError | SeqIndexError

definition new_progression :: "string option \<Rightarrow> uuid list \<Rightarrow> progression" where
  "new_progression name order = \<lparr>pg_name = name, pg_order = order, pg_members = set order\<rparr>"

definition rebuild_members :: "progression \<Rightarrow> progression" where
  "rebuild_members p = p\<lparr>pg_members := set (pg_order p)\<rparr>"

definition prog_append :: "uuid \<Rightarrow> progression \<Rightarrow> progression" where
  "prog_append uid p = p\<lparr>pg_order := pg_order p @ [uid], pg_members := insert uid (pg_members p)\<rparr>"

definition prog_insert :: "int \<Rightarrow> uuid \<Rightarrow> progression \<Rightarrow> progression" where
  "prog_insert i uid p = p\<lparr>pg_order := list_insert i uid (pg_order p), pg_members := insert uid (pg_members p)\<rparr>"

text \<open>\<open>if uid not in self.order: self._members.discard(uid)\<close>.\<close>

definition forget :: "uuid \<Rightarrow> progression \<Rightarrow> progression" where
  "forget uid p = (if uid \<notin> set (pg_order p) then p\<lparr>pg_members := pg_members p - {uid}\<rparr> else p)"

definition prog_remove :: "uuid \<Rightarrow> progression \<Rightarrow> (seq_error, progression) result" where
  "prog_remove uid p =
    (if uid \<in> set (pg_order p) then Inr (forget uid (p\<lparr>pg_order := remove1 uid (pg_order p)\<rparr>)) else Inl SeqValueError)"

text \<open>With a default, an index that is out of range returns it; \<^const>\<open>None\<close> stands for no default.\<close>

definition prog_pop :: "int \<Rightarrow> uuid option \<Rightarrow> progression \<Rightarrow> (seq_error, uuid \<times> progression) result" where
  "prog_pop i fallback p =
    (case list_pop i (pg_order p) of
       Some (uid, rest) \<Rightarrow> Inr (uid, forget uid (p\<lparr>pg_order := rest\<rparr>))
     | None \<Rightarrow> (case fallback of None \<Rightarrow> Inl NotFoundError | Some d \<Rightarrow> Inr (d, p)))"

definition prog_popleft :: "progression \<Rightarrow> (seq_error, uuid \<times> progression) result" where
  "prog_popleft p =
    (case pg_order p of [] \<Rightarrow> Inl NotFoundError | uid # rest \<Rightarrow> Inr (uid, forget uid (p\<lparr>pg_order := rest\<rparr>)))"

definition prog_clear :: "progression \<Rightarrow> progression" where
  "prog_clear p = p\<lparr>pg_order := [], pg_members := {}\<rparr>"

definition prog_extend :: "uuid list \<Rightarrow> progression \<Rightarrow> progression" where
  "prog_extend uids p = p\<lparr>pg_order := pg_order p @ uids, pg_members := pg_members p \<union> set uids\<rparr>"

definition prog_contains :: "uuid \<Rightarrow> progression \<Rightarrow> bool" where
  "prog_contains uid p \<longleftrightarrow> uid \<in> pg_members p"

definition prog_get :: "int \<Rightarrow> progression \<Rightarrow> (seq_error, uuid) result" where
  "prog_get i p = (case position i (length (pg_order p)) of None \<Rightarrow> Inl SeqIndexError | Some k \<Rightarrow> Inr (pg_order p ! k))"

definition prog_set :: "int \<Rightarrow> uuid \<Rightarrow> progression \<Rightarrow> (seq_error, progression) result" where
  "prog_set i uid p =
    (case position i (length (pg_order p)) of
       None \<Rightarrow> Inl SeqIndexError
     | Some k \<Rightarrow>
         (let p1 = forget (pg_order p ! k) (p\<lparr>pg_order := (pg_order p)[k := uid]\<rparr>)
          in Inr (p1\<lparr>pg_members := insert uid (pg_members p1)\<rparr>)))"

definition prog_set_slice :: "int option \<Rightarrow> int option \<Rightarrow> uuid list \<Rightarrow> progression \<Rightarrow> progression" where
  "prog_set_slice start stop uids p = rebuild_members (p\<lparr>pg_order := set_slice start stop uids (pg_order p)\<rparr>)"

fun first_index :: "'a \<Rightarrow> 'a list \<Rightarrow> nat option" where
  "first_index x [] = None"
| "first_index x (y # ys) = (if x = y then Some 0 else map_option Suc (first_index x ys))"

definition prog_index :: "uuid \<Rightarrow> progression \<Rightarrow> (seq_error, nat) result" where
  "prog_index uid p = (case first_index uid (pg_order p) of None \<Rightarrow> Inl SeqValueError | Some k \<Rightarrow> Inr k)"

definition validate_index :: "int \<Rightarrow> bool \<Rightarrow> progression \<Rightarrow> (seq_error, int) result" where
  "validate_index i allow_end p =
    (let n = int (length (pg_order p))
     in if n = 0 \<and> \<not> allow_end then Inl NotFoundError
        else
          (let j = (if i < 0 then n + i else i);
               max_index = (if allow_end then n else n - 1)
           in if j < 0 \<or> j > max_index then Inl NotFoundError else Inr j))"

definition prog_move :: "int \<Rightarrow> int \<Rightarrow> progression \<Rightarrow> (seq_error, progression) result" where
  "prog_move from_index to_index p =
    bind_r (validate_index from_index False p) (\<lambda>f.
    bind_r (validate_index to_index True p) (\<lambda>t.
      case list_pop f (pg_order p) of
        None \<Rightarrow> Inl SeqIndexError
      | Some (item, rest) \<Rightarrow> Inr (p\<lparr>pg_order := list_insert (if f < t then t - 1 else t) item rest\<rparr>)))"

definition prog_swap :: "int \<Rightarrow> int \<Rightarrow> progression \<Rightarrow> (seq_error, progression) result" where
  "prog_swap index1 index2 p =
    bind_r (validate_index index1 False p) (\<lambda>i.
    bind_r (validate_index index2 False p) (\<lambda>j.
      let xs = pg_order p; a = xs ! nat j; b = xs ! nat i
      in Inr (p\<lparr>pg_order := xs[nat i := a, nat j := b]\<rparr>)))"

definition prog_reverse :: "progression \<Rightarrow> progression" where
  "prog_reverse p = p\<lparr>pg_order := rev (pg_order p)\<rparr>"

definition prog_include :: "uuid \<Rightarrow> progression \<Rightarrow> bool \<times> progression" where
  "prog_include uid p = (if uid \<notin> pg_members p then (True, prog_append uid p) else (False, p))"

text \<open>\<open>order.remove\<close> raises when the members and the order disagree.\<close>

definition prog_exclude :: "uuid \<Rightarrow> progression \<Rightarrow> (seq_error, bool \<times> progression) result" where
  "prog_exclude uid p =
    (if uid \<in> pg_members p then bind_r (prog_remove uid p) (\<lambda>p'. Inr (True, p')) else Inr (False, p))"

section \<open>The invariant\<close>

definition prog_ok :: "progression \<Rightarrow> bool" where
  "prog_ok p \<longleftrightarrow> pg_members p = set (pg_order p)"

lemma new_progression_ok: "prog_ok (new_progression name order)"
  by (simp add: prog_ok_def new_progression_def)

lemma list_insert_split: "\<exists>k. list_insert i x xs = take k xs @ x # drop k xs"
  by (auto simp: list_insert_def Let_def)

lemma mset_list_insert: "mset (list_insert i x xs) = add_mset x (mset xs)"
proof -
  obtain k where "list_insert i x xs = take k xs @ x # drop k xs" using list_insert_split [of i x xs] by blast
  moreover have "mset (take k xs) + mset (drop k xs) = mset xs" by (metis append_take_drop_id mset_append)
  ultimately show ?thesis by simp
qed

lemma set_list_insert [simp]: "set (list_insert i x xs) = insert x (set xs)"
  using arg_cong [OF mset_list_insert, of set_mset] by simp

lemma position_less: "position i n = Some k \<Longrightarrow> k < n"
  by (auto simp: position_def split: if_splits)

lemma list_pop_Some:
  assumes "list_pop i xs = Some (x, rest)"
  shows "mset xs = add_mset x (mset rest)" "set xs = insert x (set rest)"
proof -
  obtain k where k: "position i (length xs) = Some k" "x = xs ! k" "rest = take k xs @ drop (Suc k) xs"
    using assms by (auto simp: list_pop_def)
  have "xs = take k xs @ x # drop (Suc k) xs" unfolding k(2) by (rule id_take_nth_drop [OF position_less [OF k(1)]])
  then have "mset xs = mset (take k xs @ x # drop (Suc k) xs)" by (rule arg_cong)
  then show m: "mset xs = add_mset x (mset rest)" using k(3) by simp
  show "set xs = insert x (set rest)" using arg_cong [OF m, of set_mset] by simp
qed

lemma set_remove1_insert: "x \<in> set xs \<Longrightarrow> insert x (set (remove1 x xs)) = set xs"
  by (induction xs) auto

lemma forget_ok:
  assumes "pg_members p = insert uid (set (pg_order p))"
  shows "prog_ok (forget uid p)"
  using assms by (auto simp: prog_ok_def forget_def)

lemma forget_order [simp]: "pg_order (forget uid p) = pg_order p"
  by (simp add: forget_def)

lemma prog_remove_Inr:
  assumes "prog_remove uid p = Inr p'"
  shows "uid \<in> set (pg_order p)" "pg_order p' = remove1 uid (pg_order p)" "prog_ok p \<Longrightarrow> prog_ok p'"
proof -
  have u: "uid \<in> set (pg_order p)" "p' = forget uid (p\<lparr>pg_order := remove1 uid (pg_order p)\<rparr>)"
    using assms by (auto simp: prog_remove_def split: if_splits)
  then show "uid \<in> set (pg_order p)" "pg_order p' = remove1 uid (pg_order p)" by simp_all
  assume "prog_ok p"
  then show "prog_ok p'" unfolding u(2) by (intro forget_ok) (simp add: prog_ok_def set_remove1_insert [OF u(1)])
qed

lemma prog_remove_iff: "(\<exists>p'. prog_remove uid p = Inr p') \<longleftrightarrow> uid \<in> set (pg_order p)"
  by (simp add: prog_remove_def)

lemma prog_pop_ok: "prog_ok p \<Longrightarrow> prog_pop i d p = Inr (u, p') \<Longrightarrow> prog_ok p'"
  by (auto simp: prog_pop_def prog_ok_def dest: list_pop_Some(2) intro!: forget_ok [unfolded prog_ok_def] split: option.splits)

lemma prog_popleft_ok: "prog_ok p \<Longrightarrow> prog_popleft p = Inr (u, p') \<Longrightarrow> prog_ok p'"
  by (auto simp: prog_popleft_def prog_ok_def intro!: forget_ok [unfolded prog_ok_def] split: list.splits)

lemma prog_set_ok: "prog_ok p \<Longrightarrow> prog_set i uid p = Inr p' \<Longrightarrow> prog_ok p'"
proof -
  assume p: "prog_ok p" "prog_set i uid p = Inr p'"
  then obtain k where k: "k < length (pg_order p)"
    "p' = (forget (pg_order p ! k) (p\<lparr>pg_order := (pg_order p)[k := uid]\<rparr>))
       \<lparr>pg_members := insert uid (pg_members (forget (pg_order p ! k) (p\<lparr>pg_order := (pg_order p)[k := uid]\<rparr>)))\<rparr>"
    by (auto simp: prog_set_def Let_def dest: position_less split: option.splits)
  have "insert (pg_order p ! k) (set ((pg_order p)[k := uid])) = insert uid (set (pg_order p))"
  proof -
    have "add_mset (pg_order p ! k) (mset ((pg_order p)[k := uid])) = add_mset uid (mset (pg_order p))"
      using k(1) by (simp add: mset_update add_mset_commute)
    then have "set_mset (add_mset (pg_order p ! k) (mset ((pg_order p)[k := uid]))) = set_mset (add_mset uid (mset (pg_order p)))"
      by (rule arg_cong)
    then show ?thesis by simp
  qed
  moreover have "uid \<in> set ((pg_order p)[k := uid])" using k(1) by (rule set_update_memI)
  ultimately show ?thesis using p(1) unfolding k(2) by (auto simp: prog_ok_def forget_def)
qed

text \<open>Moves and swaps permute the order.\<close>

lemma prog_move_mset:
  assumes "prog_move f t p = Inr p'"
  shows "mset (pg_order p') = mset (pg_order p)" "pg_members p' = pg_members p"
proof -
  obtain a b item rest where "list_pop a (pg_order p) = Some (item, rest)" "p' = p\<lparr>pg_order := list_insert b item rest\<rparr>"
    using assms by (auto simp: prog_move_def bind_r_Inr_iff split: option.splits)
  then show "mset (pg_order p') = mset (pg_order p)" "pg_members p' = pg_members p"
    using list_pop_Some(1) [of a "pg_order p"] by (simp_all add: mset_list_insert)
qed

lemma validate_index_Inr:
  "validate_index i False p = Inr j \<Longrightarrow> 0 \<le> j \<and> nat j < length (pg_order p)"
  by (auto simp: validate_index_def Let_def split: if_splits)

lemma prog_swap_mset:
  assumes "prog_swap i j p = Inr p'"
  shows "mset (pg_order p') = mset (pg_order p)" "pg_members p' = pg_members p"
proof -
  obtain a b where ab: "validate_index i False p = Inr a" "validate_index j False p = Inr b"
    "p' = p\<lparr>pg_order := (pg_order p)[nat a := pg_order p ! nat b, nat b := pg_order p ! nat a]\<rparr>"
    using assms by (auto simp: prog_swap_def bind_r_Inr_iff Let_def)
  then have "nat a < length (pg_order p)" "nat b < length (pg_order p)" using validate_index_Inr by blast+
  then show "mset (pg_order p') = mset (pg_order p)" unfolding ab(3) by (simp add: mset_swap)
  show "pg_members p' = pg_members p" unfolding ab(3) by simp
qed

lemma prog_ok_mset: "prog_ok p \<Longrightarrow> mset (pg_order p') = mset (pg_order p) \<Longrightarrow> pg_members p' = pg_members p \<Longrightarrow> prog_ok p'"
  unfolding prog_ok_def by (metis set_mset_mset)

section \<open>Sequences of operations\<close>

text \<open>The operations that change a progression; one that raises leaves it as it was.\<close>

datatype prog_op =
    Append uuid | Insert int uuid | Remove uuid | Pop int "uuid option" | Popleft | Clear | Extend "uuid list"
  | SetItem int uuid | SetSlice "int option" "int option" "uuid list" | Move int int | Swap int int | Reverse
  | Include uuid | Exclude uuid

fun apply_op :: "prog_op \<Rightarrow> progression \<Rightarrow> progression" where
  "apply_op (Append u) p = prog_append u p"
| "apply_op (Insert i u) p = prog_insert i u p"
| "apply_op (Remove u) p = (case prog_remove u p of Inr p' \<Rightarrow> p' | Inl _ \<Rightarrow> p)"
| "apply_op (Pop i d) p = (case prog_pop i d p of Inr (_, p') \<Rightarrow> p' | Inl _ \<Rightarrow> p)"
| "apply_op Popleft p = (case prog_popleft p of Inr (_, p') \<Rightarrow> p' | Inl _ \<Rightarrow> p)"
| "apply_op Clear p = prog_clear p"
| "apply_op (Extend us) p = prog_extend us p"
| "apply_op (SetItem i u) p = (case prog_set i u p of Inr p' \<Rightarrow> p' | Inl _ \<Rightarrow> p)"
| "apply_op (SetSlice a b us) p = prog_set_slice a b us p"
| "apply_op (Move i j) p = (case prog_move i j p of Inr p' \<Rightarrow> p' | Inl _ \<Rightarrow> p)"
| "apply_op (Swap i j) p = (case prog_swap i j p of Inr p' \<Rightarrow> p' | Inl _ \<Rightarrow> p)"
| "apply_op Reverse p = prog_reverse p"
| "apply_op (Include u) p = snd (prog_include u p)"
| "apply_op (Exclude u) p = (case prog_exclude u p of Inr (_, p') \<Rightarrow> p' | Inl _ \<Rightarrow> p)"

lemma prog_append_ok: "prog_ok p \<Longrightarrow> prog_ok (prog_append u p)"
  by (simp add: prog_ok_def prog_append_def)

lemma prog_exclude_Inr: "prog_exclude u p = Inr (b, p') \<Longrightarrow> prog_ok p \<Longrightarrow> prog_ok p'"
  using prog_remove_Inr(3) [of u p p'] by (auto simp: prog_exclude_def bind_r_Inr_iff split: if_splits)

lemma apply_op_ok: "prog_ok p \<Longrightarrow> prog_ok (apply_op c p)"
proof (cases c)
  case (Remove u)
  then show "prog_ok p \<Longrightarrow> ?thesis" using prog_remove_Inr(3) [of u p] by (auto split: sum.split)
next
  case (Pop i d)
  then show "prog_ok p \<Longrightarrow> ?thesis" using prog_pop_ok [of p i d] by (auto split: sum.split)
next
  case Popleft
  then show "prog_ok p \<Longrightarrow> ?thesis" using prog_popleft_ok [of p] by (auto split: sum.split)
next
  case (SetItem i u)
  then show "prog_ok p \<Longrightarrow> ?thesis" using prog_set_ok [of p i u] by (auto split: sum.split)
next
  case (Move i j)
  then show "prog_ok p \<Longrightarrow> ?thesis" using prog_move_mset [of i j p] prog_ok_mset [of p] by (auto split: sum.split)
next
  case (Swap i j)
  then show "prog_ok p \<Longrightarrow> ?thesis" using prog_swap_mset [of i j p] prog_ok_mset [of p] by (auto split: sum.split)
next
  case (Exclude u)
  then show "prog_ok p \<Longrightarrow> ?thesis" using prog_exclude_Inr [of u p] by (auto split: sum.split)
qed (simp_all add: prog_ok_def prog_append_def prog_insert_def prog_clear_def prog_extend_def prog_set_slice_def
      rebuild_members_def prog_reverse_def prog_include_def insert_absorb)

lemma fold_apply_op_ok: "prog_ok p \<Longrightarrow> prog_ok (fold apply_op cs p)"
  by (induction cs arbitrary: p) (simp_all add: apply_op_ok)

section \<open>Properties\<close>

lemma prog_exclude_effect:
  assumes "prog_ok p"
  shows "\<exists>p'. prog_exclude u p = Inr (u \<in> set (pg_order p), p') \<and> pg_order p' = remove1 u (pg_order p)"
  using assms by (auto simp: prog_exclude_def prog_ok_def prog_remove_def remove1_idem)

lemma validate_index_Inl: "validate_index i b p = Inl e \<Longrightarrow> e = NotFoundError"
  by (auto simp: validate_index_def Let_def split: if_splits)

lemma prog_move_outcome: "case prog_move i j p of Inr p' \<Rightarrow> mset (pg_order p') = mset (pg_order p) | Inl e \<Rightarrow> e = NotFoundError"
proof (cases "prog_move i j p")
  case (Inr p')
  then show ?thesis using prog_move_mset(1) by simp
next
  case (Inl e)
  have "list_pop f (pg_order p) \<noteq> None" if "validate_index i False p = Inr f" for f
    using validate_index_Inr [OF that] by (auto simp: list_pop_def position_def)
  then show ?thesis using Inl validate_index_Inl by (fastforce simp: prog_move_def bind_r_Inl_iff split: option.splits)
qed

text \<open>Whatever operations a program runs on a progression, failing ones included, the set kept for fast membership tests is the set of
  the ids in the order. So \<open>in\<close> agrees with the order, \<open>include\<close> appends exactly the absent ids, \<open>exclude\<close> never raises and takes
  out the first occurrence of a present id, and \<open>move\<close> permutes the order or reports \<open>NotFoundError\<close>.\<close>

theorem progression_consistent:
  "let p = fold apply_op ops (new_progression name order)
   in (prog_contains u p \<longleftrightarrow> u \<in> set (pg_order p)) \<and>
      pg_order (snd (prog_include u p)) = (if u \<in> set (pg_order p) then pg_order p else pg_order p @ [u]) \<and>
      (\<exists>p'. prog_exclude u p = Inr (u \<in> set (pg_order p), p') \<and> pg_order p' = remove1 u (pg_order p)) \<and>
      (case prog_move i j p of Inr p' \<Rightarrow> mset (pg_order p') = mset (pg_order p) | Inl e \<Rightarrow> e = NotFoundError)"
proof -
  have ok: "prog_ok (fold apply_op ops (new_progression name order))" by (rule fold_apply_op_ok [OF new_progression_ok])
  then show ?thesis
    using prog_exclude_effect [OF ok] prog_move_outcome by (simp add: Let_def prog_contains_def prog_ok_def prog_include_def prog_append_def)
qed

end
