(* ===== verification/Pile.thy ===== *)
theory Pile
  imports Progression
begin

text \<open>
  Typed ordered collections (\<open>libs/kron/src/kron/core/pile.py\<close>): a dictionary of elements by id and a progression of the ids. An element is a
  record with its id and the name of its class; \<open>sub\<close> is \<open>issubclass\<close> on class names. An operation returns its result or the
  exception it raises together with the pile it leaves behind, which a raised exception may have changed.
\<close>

section \<open>Elements and piles\<close>

record element =
  el_id :: uuid
  el_type :: string

record 'x pile =
  pl_items :: "(uuid, 'x) dict"
  pl_progression :: progression
  pl_item_type :: "string set option"
  pl_strict_type :: bool

datatype pile_error = PileTypeError | ExistsError | ItemNotFound | PileValueError | PileIndexError | PileKeyError

definition type_ok :: "(string \<Rightarrow> string \<Rightarrow> bool) \<Rightarrow> 'x element_scheme \<Rightarrow> 'y pile \<Rightarrow> bool" where
  "type_ok sub item p \<longleftrightarrow>
     (case pl_item_type p of
        None \<Rightarrow> True
      | Some ts \<Rightarrow> if pl_strict_type p then el_type item \<in> ts else (\<exists>t\<in>ts. sub (el_type item) t))"

definition store :: "'x element_scheme \<Rightarrow> 'x element_scheme pile \<Rightarrow> 'x element_scheme pile" where
  "store item p =
    p\<lparr>pl_items := dict_set (el_id item) item (pl_items p), pl_progression := prog_append (el_id item) (pl_progression p)\<rparr>"

definition pile_add ::
  "(string \<Rightarrow> string \<Rightarrow> bool) \<Rightarrow> 'x element_scheme \<Rightarrow> 'x element_scheme pile \<Rightarrow> (pile_error, unit) result \<times> 'x element_scheme pile" where
  "pile_add sub item p =
    (if \<not> type_ok sub item p then (Inl PileTypeError, p)
     else if map_of (pl_items p) (el_id item) \<noteq> None then (Inl ExistsError, p)
     else (Inr (), store item p))"

text \<open>The item leaves the dictionary before the progression is asked to remove its id, which may raise.\<close>

definition take_out :: "uuid \<Rightarrow> 'x \<Rightarrow> 'x pile \<Rightarrow> (pile_error, 'x) result \<times> 'x pile" where
  "take_out uid item p =
    (let p1 = p\<lparr>pl_items := dict_pop uid (pl_items p)\<rparr>
     in case prog_remove uid (pl_progression p) of
          Inl _ \<Rightarrow> (Inl PileValueError, p1)
        | Inr g \<Rightarrow> (Inr item, p1\<lparr>pl_progression := g\<rparr>))"

definition pile_remove :: "uuid \<Rightarrow> 'x pile \<Rightarrow> (pile_error, 'x) result \<times> 'x pile" where
  "pile_remove uid p =
    (case map_of (pl_items p) uid of None \<Rightarrow> (Inl ItemNotFound, p) | Some item \<Rightarrow> take_out uid item p)"

definition pile_pop :: "uuid \<Rightarrow> 'x option \<Rightarrow> 'x pile \<Rightarrow> (pile_error, 'x) result \<times> 'x pile" where
  "pile_pop uid fallback p =
    (case map_of (pl_items p) uid of
       None \<Rightarrow> (case fallback of None \<Rightarrow> Inl ItemNotFound | Some d \<Rightarrow> Inr d, p)
     | Some item \<Rightarrow> take_out uid item p)"

definition pile_get :: "uuid \<Rightarrow> 'x option \<Rightarrow> 'x pile \<Rightarrow> (pile_error, 'x) result" where
  "pile_get uid fallback p =
    (case map_of (pl_items p) uid of
       Some item \<Rightarrow> Inr item
     | None \<Rightarrow> (case fallback of None \<Rightarrow> Inl ItemNotFound | Some d \<Rightarrow> Inr d))"

definition pile_update ::
  "(string \<Rightarrow> string \<Rightarrow> bool) \<Rightarrow> 'x element_scheme \<Rightarrow> 'x element_scheme pile \<Rightarrow> (pile_error, unit) result \<times> 'x element_scheme pile" where
  "pile_update sub item p =
    (if \<not> type_ok sub item p then (Inl PileTypeError, p)
     else if map_of (pl_items p) (el_id item) = None then (Inl ItemNotFound, p)
     else (Inr (), p\<lparr>pl_items := dict_set (el_id item) item (pl_items p)\<rparr>))"

definition pile_clear :: "'x pile \<Rightarrow> 'x pile" where
  "pile_clear p = p\<lparr>pl_items := [], pl_progression := prog_clear (pl_progression p)\<rparr>"

definition pile_include ::
  "(string \<Rightarrow> string \<Rightarrow> bool) \<Rightarrow> 'x element_scheme \<Rightarrow> 'x element_scheme pile \<Rightarrow> bool \<times> 'x element_scheme pile" where
  "pile_include sub item p =
    (if map_of (pl_items p) (el_id item) \<noteq> None then (True, p)
     else if type_ok sub item p then (True, store item p)
     else (False, p))"

definition pile_exclude :: "uuid \<Rightarrow> 'x pile \<Rightarrow> bool \<times> 'x pile" where
  "pile_exclude uid p =
    (case map_of (pl_items p) uid of None \<Rightarrow> (True, p) | Some item \<Rightarrow> (True, snd (take_out uid item p)))"

section \<open>Queries\<close>

fun lookup_all :: "uuid list \<Rightarrow> 'x pile \<Rightarrow> (pile_error, 'x list) result" where
  "lookup_all [] p = Inr []"
| "lookup_all (u # us) p =
    (case map_of (pl_items p) u of None \<Rightarrow> Inl PileKeyError | Some x \<Rightarrow> bind_r (lookup_all us p) (\<lambda>xs. Inr (x # xs)))"

definition pile_list :: "'x pile \<Rightarrow> (pile_error, 'x list) result" where
  "pile_list p = lookup_all (pg_order (pl_progression p)) p"

definition pile_keys :: "'x pile \<Rightarrow> uuid list" where
  "pile_keys p = pg_order (pl_progression p)"

definition pile_contains :: "uuid \<Rightarrow> 'x pile \<Rightarrow> bool" where
  "pile_contains uid p \<longleftrightarrow> map_of (pl_items p) uid \<noteq> None"

definition pile_len :: "'x pile \<Rightarrow> nat" where
  "pile_len p = length (pl_items p)"

definition pile_is_empty :: "'x pile \<Rightarrow> bool" where
  "pile_is_empty p \<longleftrightarrow> length (pl_items p) = 0"

definition get_by_index :: "int \<Rightarrow> 'x pile \<Rightarrow> (pile_error, 'x) result" where
  "get_by_index i p =
    (case prog_get i (pl_progression p) of
       Inl _ \<Rightarrow> Inl PileIndexError
     | Inr uid \<Rightarrow> (case map_of (pl_items p) uid of None \<Rightarrow> Inl PileKeyError | Some x \<Rightarrow> Inr x))"

definition empty_pile :: "string set option \<Rightarrow> bool \<Rightarrow> 'x pile" where
  "empty_pile item_type strict =
    \<lparr>pl_items = [], pl_progression = new_progression None [], pl_item_type = item_type, pl_strict_type = strict\<rparr>"

fun add_all ::
  "(string \<Rightarrow> string \<Rightarrow> bool) \<Rightarrow> 'x element_scheme list \<Rightarrow> 'x element_scheme pile \<Rightarrow> (pile_error, 'x element_scheme pile) result" where
  "add_all sub [] p = Inr p"
| "add_all sub (x # xs) p = (case pile_add sub x p of (Inl e, _) \<Rightarrow> Inl e | (Inr _, p') \<Rightarrow> add_all sub xs p')"

text \<open>The constructor: an order that is given and not empty must name items of the pile, and replaces the order of insertion.\<close>

definition new_pile ::
  "(string \<Rightarrow> string \<Rightarrow> bool) \<Rightarrow> 'x element_scheme list \<Rightarrow> string set option \<Rightarrow> uuid list \<Rightarrow> bool \<Rightarrow>
   (pile_error, 'x element_scheme pile) result" where
  "new_pile sub items item_type order strict =
    bind_r (add_all sub items (empty_pile item_type strict)) (\<lambda>p.
      if order = [] then Inr p
      else if \<exists>uid\<in>set order. map_of (pl_items p) uid = None then Inl ItemNotFound
      else Inr (p\<lparr>pl_progression := new_progression None order\<rparr>))"

definition sub_pile ::
  "(string \<Rightarrow> string \<Rightarrow> bool) \<Rightarrow> 'x element_scheme list \<Rightarrow> 'x element_scheme pile \<Rightarrow> (pile_error, 'x element_scheme pile) result" where
  "sub_pile sub items p = new_pile sub items (pl_item_type p) [] (pl_strict_type p)"

definition filter_by_progression ::
  "(string \<Rightarrow> string \<Rightarrow> bool) \<Rightarrow> progression \<Rightarrow> 'x element_scheme pile \<Rightarrow> (pile_error, 'x element_scheme pile) result" where
  "filter_by_progression sub g p =
    (if \<exists>uid\<in>set (pg_order g). map_of (pl_items p) uid = None then Inl ItemNotFound
     else bind_r (lookup_all (pg_order g) p) (\<lambda>xs. sub_pile sub xs p))"

definition get_by_slice ::
  "(string \<Rightarrow> string \<Rightarrow> bool) \<Rightarrow> int option \<Rightarrow> int option \<Rightarrow> 'x element_scheme pile \<Rightarrow> (pile_error, 'x element_scheme pile) result" where
  "get_by_slice sub start stop p =
    bind_r (lookup_all (get_slice start stop (pg_order (pl_progression p))) p) (\<lambda>xs. sub_pile sub xs p)"

definition filter_by_function ::
  "(string \<Rightarrow> string \<Rightarrow> bool) \<Rightarrow> ('x element_scheme \<Rightarrow> bool) \<Rightarrow> 'x element_scheme pile \<Rightarrow> (pile_error, 'x element_scheme pile) result" where
  "filter_by_function sub f p = bind_r (pile_list p) (\<lambda>xs. sub_pile sub (filter f xs) p)"

datatype list_key = IntKey int | IdKey uuid

fun is_int_key :: "list_key \<Rightarrow> bool" where
  "is_int_key (IntKey _) = True"
| "is_int_key (IdKey _) = False"

definition get_by_list ::
  "(string \<Rightarrow> string \<Rightarrow> bool) \<Rightarrow> list_key list \<Rightarrow> 'x element_scheme pile \<Rightarrow> (pile_error, 'x element_scheme pile) result" where
  "get_by_list sub keys p =
    (case keys of
       [] \<Rightarrow> Inl PileValueError
     | IntKey _ # _ \<Rightarrow>
         if \<not> list_all is_int_key keys then Inl PileTypeError
         else bind_r (map_r (\<lambda>k. case k of IntKey i \<Rightarrow> get_by_index i p | IdKey _ \<Rightarrow> Inl PileTypeError) keys) (\<lambda>xs. sub_pile sub xs p)
     | IdKey _ # _ \<Rightarrow>
         if list_ex is_int_key keys then Inl PileTypeError
         else bind_r (map_r (\<lambda>k. case k of IdKey u \<Rightarrow> pile_get u None p | IntKey _ \<Rightarrow> Inl PileTypeError) keys) (\<lambda>xs. sub_pile sub xs p))"

definition filter_by_type ::
  "(string \<Rightarrow> string \<Rightarrow> bool) \<Rightarrow> string set \<Rightarrow> 'x element_scheme pile \<Rightarrow> (pile_error, 'x element_scheme pile) result" where
  "filter_by_type sub types p =
    (if (case pl_item_type p of
           None \<Rightarrow> False
         | Some ts \<Rightarrow> if pl_strict_type p then \<not> types \<subseteq> ts else (\<exists>t\<in>types. \<not> (\<exists>a\<in>ts. sub t a \<or> sub a t)))
     then Inl PileTypeError
     else
       bind_r (pile_list p) (\<lambda>xs.
         let matching = filter (\<lambda>x. \<exists>t\<in>types. sub (el_type x) t) xs
         in if matching = [] then Inl ItemNotFound else sub_pile sub matching p))"

text \<open>The dispatch of \<open>pile[key]\<close> on the type of the key.\<close>

datatype 'x pile_key =
    ById uuid | ByIndex int | ByProgression progression | BySlice "int option" "int option" | ByList "list_key list"
  | ByFunction "'x \<Rightarrow> bool"

fun pile_getitem ::
  "(string \<Rightarrow> string \<Rightarrow> bool) \<Rightarrow> 'x element_scheme pile_key \<Rightarrow> 'x element_scheme pile \<Rightarrow>
   (pile_error, 'x element_scheme + 'x element_scheme pile) result" where
  "pile_getitem sub (ById u) p = map_sum id Inl (pile_get u None p)"
| "pile_getitem sub (ByIndex i) p = map_sum id Inl (get_by_index i p)"
| "pile_getitem sub (ByProgression g) p = map_sum id Inr (filter_by_progression sub g p)"
| "pile_getitem sub (BySlice a b) p = map_sum id Inr (get_by_slice sub a b p)"
| "pile_getitem sub (ByList ks) p = map_sum id Inr (get_by_list sub ks p)"
| "pile_getitem sub (ByFunction f) p = map_sum id Inr (filter_by_function sub f p)"

end
