(* ===== verification/Graph.thy ===== *)
theory Graph
  imports Pile
begin

text \<open>
  Directed graphs (\<open>libs/kron/src/kron/core/graph.py\<close>): a pile of nodes, a pile of edges, and for each node the sets of the ids of its
  outgoing and incoming edges. The order in which Python iterates a set is the argument \<open>it\<close>. An operation returns its result or the
  exception it raises together with the graph it leaves behind. Edge conditions are user code: \<open>passes\<close> tells which edges may be traversed.
  The recursion of the depth-first search carries fuel; the interpreter's recursion limit is not modelled.
\<close>

record edge = element +
  ed_head :: uuid
  ed_tail :: uuid
  ed_label :: "string list"

type_synonym adjacency = "(uuid, uuid set) dict"

record 'n digraph =
  gh_nodes :: "'n element_scheme pile"
  gh_edges :: "edge pile"
  gh_out :: adjacency
  gh_in :: adjacency

datatype graph_error = FromPile pile_error | NodeNotFound uuid | EdgeNotFound uuid | GraphKeyError uuid | InvalidDirection string
  | StartOrEndNotFound | CyclicGraph | OutOfFuel

type_synonym ('n, 'r) graph_op = "'n digraph \<Rightarrow> (graph_error, 'r) result \<times> 'n digraph"

definition bind_g :: "('n, 'a) graph_op \<Rightarrow> ('a \<Rightarrow> ('n, 'b) graph_op) \<Rightarrow> ('n, 'b) graph_op" where
  "bind_g m f g = (case m g of (Inl e, g') \<Rightarrow> (Inl e, g') | (Inr x, g') \<Rightarrow> f x g')"

section \<open>Lookup\<close>

definition edge_of :: "'n digraph \<Rightarrow> uuid \<Rightarrow> edge option" where
  "edge_of g eid = map_of (pl_items (gh_edges g)) eid"

definition node_of :: "'n digraph \<Rightarrow> uuid \<Rightarrow> 'n element_scheme option" where
  "node_of g nid = map_of (pl_items (gh_nodes g)) nid"

fun lookup_edges :: "'n digraph \<Rightarrow> uuid list \<Rightarrow> (graph_error, edge list) result" where
  "lookup_edges g [] = Inr []"
| "lookup_edges g (e # es) =
    (case edge_of g e of None \<Rightarrow> Inl (EdgeNotFound e) | Some ed \<Rightarrow> bind_r (lookup_edges g es) (\<lambda>eds. Inr (ed # eds)))"

section \<open>Adjacency\<close>

text \<open>\<open>d[k].add(x)\<close> and \<open>d[k].discard(x)\<close>; \<^const>\<open>None\<close> is the \<open>KeyError\<close>.\<close>

definition adj_add :: "uuid \<Rightarrow> uuid \<Rightarrow> adjacency \<Rightarrow> adjacency option" where
  "adj_add k x d = map_option (\<lambda>s. dict_set k (insert x s) d) (map_of d k)"

definition adj_discard :: "uuid \<Rightarrow> uuid \<Rightarrow> adjacency \<Rightarrow> adjacency option" where
  "adj_discard k x d = map_option (\<lambda>s. dict_set k (s - {x}) d) (map_of d k)"

definition add_if_present :: "uuid \<Rightarrow> uuid \<Rightarrow> adjacency \<Rightarrow> adjacency" where
  "add_if_present k x d = (case adj_add k x d of None \<Rightarrow> d | Some d' \<Rightarrow> d')"

definition rebuild_adjacency :: "'n digraph \<Rightarrow> (graph_error, 'n digraph) result" where
  "rebuild_adjacency g =
    bind_r (lookup_edges g (pile_keys (gh_edges g))) (\<lambda>eds.
      let blank = foldl (\<lambda>d n. dict_set n {} d) [] (pile_keys (gh_nodes g));
          es = zip (pile_keys (gh_edges g)) eds
      in Inr (g\<lparr>gh_out := foldl (\<lambda>d (eid, e). add_if_present (ed_head e) eid d) blank es,
                gh_in := foldl (\<lambda>d (eid, e). add_if_present (ed_tail e) eid d) blank es\<rparr>))"

definition new_graph :: "'n element_scheme pile \<Rightarrow> edge pile \<Rightarrow> (graph_error, 'n digraph) result" where
  "new_graph nodes edges = rebuild_adjacency \<lparr>gh_nodes = nodes, gh_edges = edges, gh_out = [], gh_in = []\<rparr>"

section \<open>Operations\<close>

definition add_node :: "(string \<Rightarrow> string \<Rightarrow> bool) \<Rightarrow> 'n element_scheme \<Rightarrow> ('n, unit) graph_op" where
  "add_node sub node g =
    (case pile_add sub node (gh_nodes g) of
       (Inl e, ns) \<Rightarrow> (Inl (FromPile e), g\<lparr>gh_nodes := ns\<rparr>)
     | (Inr _, ns) \<Rightarrow>
         (Inr (), g\<lparr>gh_nodes := ns, gh_out := dict_set (el_id node) {} (gh_out g), gh_in := dict_set (el_id node) {} (gh_in g)\<rparr>))"

definition add_edge :: "(string \<Rightarrow> string \<Rightarrow> bool) \<Rightarrow> edge \<Rightarrow> ('n, unit) graph_op" where
  "add_edge sub edge g =
    (if \<not> pile_contains (ed_head edge) (gh_nodes g) then (Inl (NodeNotFound (ed_head edge)), g)
     else if \<not> pile_contains (ed_tail edge) (gh_nodes g) then (Inl (NodeNotFound (ed_tail edge)), g)
     else
       (case pile_add sub edge (gh_edges g) of
          (Inl e, es) \<Rightarrow> (Inl (FromPile e), g\<lparr>gh_edges := es\<rparr>)
        | (Inr _, es) \<Rightarrow>
            (let g1 = g\<lparr>gh_edges := es\<rparr>
             in case adj_add (ed_head edge) (el_id edge) (gh_out g) of
                  None \<Rightarrow> (Inl (GraphKeyError (ed_head edge)), g1)
                | Some out \<Rightarrow>
                    (case adj_add (ed_tail edge) (el_id edge) (gh_in g) of
                       None \<Rightarrow> (Inl (GraphKeyError (ed_tail edge)), g1\<lparr>gh_out := out\<rparr>)
                     | Some inc \<Rightarrow> (Inr (), g1\<lparr>gh_out := out, gh_in := inc\<rparr>)))))"

definition remove_edge :: "uuid \<Rightarrow> ('n, edge) graph_op" where
  "remove_edge eid g =
    (case map_of (pl_items (gh_edges g)) eid of
       None \<Rightarrow> (Inl (EdgeNotFound eid), g)
     | Some edge \<Rightarrow>
         (case adj_discard (ed_head edge) eid (gh_out g) of
            None \<Rightarrow> (Inl (GraphKeyError (ed_head edge)), g)
          | Some out \<Rightarrow>
              (let g1 = g\<lparr>gh_out := out\<rparr>
               in case adj_discard (ed_tail edge) eid (gh_in g) of
                    None \<Rightarrow> (Inl (GraphKeyError (ed_tail edge)), g1)
                  | Some inc \<Rightarrow>
                      (case pile_remove eid (gh_edges g) of
                         (Inl e, es) \<Rightarrow> (Inl (FromPile e), g1\<lparr>gh_in := inc, gh_edges := es\<rparr>)
                       | (Inr x, es) \<Rightarrow> (Inr x, g1\<lparr>gh_in := inc, gh_edges := es\<rparr>)))))"

fun remove_edges :: "uuid list \<Rightarrow> ('n, unit) graph_op" where
  "remove_edges [] g = (Inr (), g)"
| "remove_edges (e # es) g = bind_g (remove_edge e) (\<lambda>_. remove_edges es) g"

definition remove_adjacent :: "('n digraph \<Rightarrow> adjacency) \<Rightarrow> (uuid set \<Rightarrow> uuid list) \<Rightarrow> uuid \<Rightarrow> ('n, unit) graph_op" where
  "remove_adjacent adj it nid g =
    (case map_of (adj g) nid of None \<Rightarrow> (Inl (GraphKeyError nid), g) | Some es \<Rightarrow> remove_edges (it es) g)"

definition drop_node :: "uuid \<Rightarrow> ('n, 'n element_scheme) graph_op" where
  "drop_node nid g =
    (let g1 = g\<lparr>gh_in := dict_pop nid (gh_in g), gh_out := dict_pop nid (gh_out g)\<rparr>
     in case pile_remove nid (gh_nodes g1) of
          (Inl e, ns) \<Rightarrow> (Inl (FromPile e), g1\<lparr>gh_nodes := ns\<rparr>)
        | (Inr x, ns) \<Rightarrow> (Inr x, g1\<lparr>gh_nodes := ns\<rparr>))"

definition remove_node :: "(uuid set \<Rightarrow> uuid list) \<Rightarrow> uuid \<Rightarrow> ('n, 'n element_scheme) graph_op" where
  "remove_node it nid g =
    (if map_of (pl_items (gh_nodes g)) nid = None then (Inl (NodeNotFound nid), g)
     else
       bind_g (remove_adjacent gh_in it nid) (\<lambda>_.
       bind_g (remove_adjacent gh_out it nid) (\<lambda>_. drop_node nid)) g)"

section \<open>Queries\<close>

fun through_edges :: "'n digraph \<Rightarrow> (edge \<Rightarrow> uuid) \<Rightarrow> uuid list \<Rightarrow> (graph_error, 'n element_scheme list) result" where
  "through_edges g fend [] = Inr []"
| "through_edges g fend (e # es) =
    (case edge_of g e of
       None \<Rightarrow> Inl (EdgeNotFound e)
     | Some ed \<Rightarrow>
         (case node_of g (fend ed) of
            None \<Rightarrow> Inl (NodeNotFound (fend ed))
          | Some n \<Rightarrow> bind_r (through_edges g fend es) (\<lambda>ns. Inr (n # ns))))"

definition adjacent :: "adjacency \<Rightarrow> uuid \<Rightarrow> uuid set" where
  "adjacent adj nid = (case map_of adj nid of None \<Rightarrow> {} | Some s \<Rightarrow> s)"

definition get_predecessors :: "(uuid set \<Rightarrow> uuid list) \<Rightarrow> uuid \<Rightarrow> 'n digraph \<Rightarrow> (graph_error, 'n element_scheme list) result" where
  "get_predecessors it nid g = through_edges g ed_head (it (adjacent (gh_in g) nid))"

definition get_successors :: "(uuid set \<Rightarrow> uuid list) \<Rightarrow> uuid \<Rightarrow> 'n digraph \<Rightarrow> (graph_error, 'n element_scheme list) result" where
  "get_successors it nid g = through_edges g ed_tail (it (adjacent (gh_out g) nid))"

definition get_node_edges :: "(uuid set \<Rightarrow> uuid list) \<Rightarrow> uuid \<Rightarrow> string \<Rightarrow> 'n digraph \<Rightarrow> (graph_error, edge list) result" where
  "get_node_edges it nid direction g =
    (if direction \<notin> {''in'', ''out'', ''both''} then Inl (InvalidDirection direction)
     else
       lookup_edges g
         ((if direction \<in> {''in'', ''both''} then it (adjacent (gh_in g) nid) else []) @
          (if direction \<in> {''out'', ''both''} then it (adjacent (gh_out g) nid) else [])))"

fun lookup_nodes :: "'n digraph \<Rightarrow> uuid list \<Rightarrow> (graph_error, 'n element_scheme list) result" where
  "lookup_nodes g [] = Inr []"
| "lookup_nodes g (n # ns) =
    (case node_of g n of None \<Rightarrow> Inl (NodeNotFound n) | Some x \<Rightarrow> bind_r (lookup_nodes g ns) (\<lambda>xs. Inr (x # xs)))"

definition get_heads :: "'n digraph \<Rightarrow> (graph_error, 'n element_scheme list) result" where
  "get_heads g = lookup_nodes g (map fst (filter (\<lambda>e. snd e = {}) (gh_in g)))"

definition get_tails :: "'n digraph \<Rightarrow> (graph_error, 'n element_scheme list) result" where
  "get_tails g = lookup_nodes g (map fst (filter (\<lambda>e. snd e = {}) (gh_out g)))"

text \<open>Membership of an id, and the number of nodes.\<close>

definition graph_contains :: "uuid \<Rightarrow> 'n digraph \<Rightarrow> bool" where
  "graph_contains uid g \<longleftrightarrow> pile_contains uid (gh_nodes g) \<or> pile_contains uid (gh_edges g)"

definition graph_len :: "'n digraph \<Rightarrow> nat" where
  "graph_len g = pile_len (gh_nodes g)"

section \<open>Depth-first search\<close>

datatype color = WHITE | GRAY | BLACK

type_synonym coloring = "uuid \<rightharpoonup> color"

fun dfs_node :: "nat \<Rightarrow> (uuid set \<Rightarrow> uuid list) \<Rightarrow> 'n digraph \<Rightarrow> uuid \<Rightarrow> coloring \<Rightarrow> (graph_error, bool \<times> coloring) result"
  and dfs_edges :: "nat \<Rightarrow> (uuid set \<Rightarrow> uuid list) \<Rightarrow> 'n digraph \<Rightarrow> uuid list \<Rightarrow> coloring \<Rightarrow> (graph_error, bool \<times> coloring) result"
where
  "dfs_node 0 it g n colors = Inl OutOfFuel"
| "dfs_node (Suc fuel) it g n colors =
    (case map_of (gh_out g) n of
       None \<Rightarrow> Inl (GraphKeyError n)
     | Some es \<Rightarrow>
         bind_r (dfs_edges fuel it g (it es) (colors(n \<mapsto> GRAY))) (\<lambda>(ok, c).
           Inr (if ok then (True, c(n \<mapsto> BLACK)) else (False, c))))"
| "dfs_edges fuel it g [] colors = Inr (True, colors)"
| "dfs_edges fuel it g (e # es) colors =
    (case edge_of g e of
       None \<Rightarrow> Inl (EdgeNotFound e)
     | Some ed \<Rightarrow>
         (case colors (ed_tail ed) of
            None \<Rightarrow> Inl (GraphKeyError (ed_tail ed))
          | Some GRAY \<Rightarrow> Inr (False, colors)
          | Some WHITE \<Rightarrow>
              bind_r (dfs_node fuel it g (ed_tail ed) colors) (\<lambda>(ok, c).
                if ok then dfs_edges fuel it g es c else Inr (False, c))
          | Some BLACK \<Rightarrow> dfs_edges fuel it g es colors))"

fun dfs_all :: "nat \<Rightarrow> (uuid set \<Rightarrow> uuid list) \<Rightarrow> 'n digraph \<Rightarrow> uuid list \<Rightarrow> coloring \<Rightarrow> (graph_error, bool) result" where
  "dfs_all fuel it g [] colors = Inr True"
| "dfs_all fuel it g (n # ns) colors =
    (if colors n = Some WHITE
     then bind_r (dfs_node fuel it g n colors) (\<lambda>(ok, c). if ok then dfs_all fuel it g ns c else Inr False)
     else dfs_all fuel it g ns colors)"

text \<open>The fuel is the number of nodes: each nested call colours a white node.\<close>

definition is_acyclic :: "(uuid set \<Rightarrow> uuid list) \<Rightarrow> 'n digraph \<Rightarrow> (graph_error, bool) result" where
  "is_acyclic it g =
    (let ns = pile_keys (gh_nodes g)
     in dfs_all (length ns) it g ns (\<lambda>n. if n \<in> set ns then Some WHITE else None))"

section \<open>Topological order\<close>

type_synonym in_degrees = "uuid \<rightharpoonup> int"

fun release :: "'n digraph \<Rightarrow> uuid list \<Rightarrow> in_degrees \<times> uuid list \<Rightarrow> (graph_error, in_degrees \<times> uuid list) result" where
  "release g [] st = Inr st"
| "release g (e # es) (deg, queue) =
    (case edge_of g e of
       None \<Rightarrow> Inl (EdgeNotFound e)
     | Some ed \<Rightarrow>
         (case deg (ed_tail ed) of
            None \<Rightarrow> Inl (GraphKeyError (ed_tail ed))
          | Some d \<Rightarrow> release g es (deg(ed_tail ed \<mapsto> d - 1), if d - 1 = 0 then queue @ [ed_tail ed] else queue)))"

fun sort_loop ::
  "nat \<Rightarrow> (uuid set \<Rightarrow> uuid list) \<Rightarrow> 'n digraph \<Rightarrow> uuid list \<Rightarrow> in_degrees \<Rightarrow> 'n element_scheme list \<Rightarrow>
   (graph_error, 'n element_scheme list) result" where
  "sort_loop fuel it g [] deg acc = Inr acc"
| "sort_loop 0 it g (n # queue) deg acc = Inl OutOfFuel"
| "sort_loop (Suc fuel) it g (n # queue) deg acc =
    (case node_of g n of
       None \<Rightarrow> Inl (NodeNotFound n)
     | Some x \<Rightarrow>
         (case map_of (gh_out g) n of
            None \<Rightarrow> Inl (GraphKeyError n)
          | Some es \<Rightarrow> bind_r (release g (it es) (deg, queue)) (\<lambda>(deg', queue'). sort_loop fuel it g queue' deg' (acc @ [x]))))"

text \<open>The queue holds each node at most once, so the fuel is the number of nodes.\<close>

definition graph_topological_sort :: "(uuid set \<Rightarrow> uuid list) \<Rightarrow> 'n digraph \<Rightarrow> (graph_error, 'n element_scheme list) result" where
  "graph_topological_sort it g =
    bind_r (is_acyclic it g) (\<lambda>acyclic.
      if \<not> acyclic then Inl CyclicGraph
      else
        sort_loop (length (pile_keys (gh_nodes g))) it g
          (map fst (filter (\<lambda>e. card (snd e) = 0) (gh_in g)))
          (map_of (map (\<lambda>e. (fst e, int (card (snd e)))) (gh_in g))) [])"

section \<open>Paths\<close>

type_synonym parents = "uuid \<rightharpoonup> uuid \<times> uuid"

fun visit ::
  "(edge \<Rightarrow> bool) \<Rightarrow> 'n digraph \<Rightarrow> uuid \<Rightarrow> uuid list \<Rightarrow> uuid list \<times> parents \<times> uuid set \<Rightarrow>
   (graph_error, uuid list \<times> parents \<times> uuid set) result" where
  "visit passes g current [] st = Inr st"
| "visit passes g current (e # es) (queue, parent, visited) =
    (case edge_of g e of
       None \<Rightarrow> Inl (EdgeNotFound e)
     | Some ed \<Rightarrow>
         (let n = ed_tail ed
          in if n \<notin> visited \<and> passes ed
             then visit passes g current es (queue @ [n], parent(n \<mapsto> (current, e)), insert n visited)
             else visit passes g current es (queue, parent, visited)))"

text \<open>The chain of parents from the end, read backwards.\<close>

fun backtrack :: "nat \<Rightarrow> 'n digraph \<Rightarrow> parents \<Rightarrow> uuid \<Rightarrow> edge list \<Rightarrow> (graph_error, edge list) result" where
  "backtrack 0 g parent n path = (if parent n = None then Inr path else Inl OutOfFuel)"
| "backtrack (Suc fuel) g parent n path =
    (case parent n of
       None \<Rightarrow> Inr path
     | Some (p, e) \<Rightarrow>
         (case edge_of g e of None \<Rightarrow> Inl (EdgeNotFound e) | Some ed \<Rightarrow> backtrack fuel g parent p (ed # path)))"

fun search ::
  "nat \<Rightarrow> (uuid set \<Rightarrow> uuid list) \<Rightarrow> (edge \<Rightarrow> bool) \<Rightarrow> 'n digraph \<Rightarrow> uuid \<Rightarrow> uuid list \<times> parents \<times> uuid set \<Rightarrow>
   (graph_error, edge list option) result" where
  "search fuel it passes g target ([], parent, visited) = Inr None"
| "search 0 it passes g target (n # queue, parent, visited) = Inl OutOfFuel"
| "search (Suc fuel) it passes g target (n # queue, parent, visited) =
    (if n = target
     then bind_r (backtrack (length (pile_keys (gh_nodes g))) g parent target []) (\<lambda>path. Inr (Some path))
     else
       (case map_of (gh_out g) n of
          None \<Rightarrow> Inl (GraphKeyError n)
        | Some es \<Rightarrow> bind_r (visit passes g n (it es) (queue, parent, visited)) (search fuel it passes g target)))"

definition find_path ::
  "(uuid set \<Rightarrow> uuid list) \<Rightarrow> (edge \<Rightarrow> bool) \<Rightarrow> uuid \<Rightarrow> uuid \<Rightarrow> bool \<Rightarrow> 'n digraph \<Rightarrow> (graph_error, edge list option) result" where
  "find_path it condition start target check_conditions g =
    (if \<not> pile_contains start (gh_nodes g) \<or> \<not> pile_contains target (gh_nodes g) then Inl StartOrEndNotFound
     else search (Suc (length (pile_keys (gh_nodes g)))) it (\<lambda>ed. check_conditions \<longrightarrow> condition ed) g target
            ([start], Map.empty, {start}))"

end
