(* ===== verification/Pile_Correct.thy ===== *)
theory Pile_Correct
  imports Pile
begin

text \<open>
  A pile is a sequence of elements with distinct ids. The locale states what a client may rely on, the interpretation shows that
  piles provide it, and the theorems state it operation by operation.
\<close>

section \<open>Sequences with keys\<close>

lemma find_first_key: "distinct (map f xs) \<Longrightarrow> x \<in> set xs \<Longrightarrow> find_first (\<lambda>y. f y = f x) xs = Some x"
  by (induction xs) (auto simp: rev_image_eqI)

locale keyed_sequence =
  fixes invar :: "'s \<Rightarrow> bool"
    and elems :: "'s \<Rightarrow> 'x list"
    and key :: "'x \<Rightarrow> 'k"
    and get :: "'k \<Rightarrow> 's \<Rightarrow> 'x option"
    and put :: "'x \<Rightarrow> 's \<Rightarrow> 's"
    and drop_key :: "'k \<Rightarrow> 's \<Rightarrow> 's"
  assumes distinct_keys: "invar s \<Longrightarrow> distinct (map key (elems s))"
    and get_elems: "invar s \<Longrightarrow> get k s = find_first (\<lambda>x. key x = k) (elems s)"
    and elems_put: "invar s \<Longrightarrow> get (key x) s = None \<Longrightarrow> elems (put x s) = elems s @ [x]"
    and invar_put: "invar s \<Longrightarrow> get (key x) s = None \<Longrightarrow> invar (put x s)"
    and elems_drop: "invar s \<Longrightarrow> elems (drop_key k s) = filter (\<lambda>x. key x \<noteq> k) (elems s)"
    and invar_drop: "invar s \<Longrightarrow> invar (drop_key k s)"
begin

lemma get_None: "invar s \<Longrightarrow> get k s = None \<longleftrightarrow> k \<notin> key ` set (elems s)"
  by (auto simp: get_elems find_first_None_iff)

lemma get_Some: "invar s \<Longrightarrow> get k s = Some x \<longleftrightarrow> x \<in> set (elems s) \<and> key x = k"
proof
  assume s: "invar s" and "x \<in> set (elems s) \<and> key x = k"
  then show "get k s = Some x" using find_first_key [OF distinct_keys [OF s]] by (auto simp: get_elems [OF s])
qed (use find_first_Some in \<open>force simp: get_elems\<close>)

lemma get_put:
  assumes "invar s" "get (key x) s = None"
  shows "get k (put x s) = (if k = key x then Some x else get k s)"
proof -
  have "get k (put x s) = find_first (\<lambda>y. key y = k) (elems s @ [x])"
    by (simp add: get_elems [OF invar_put [OF assms]] elems_put [OF assms])
  also have "\<dots> = (if k = key x then Some x else get k s)"
    using assms(2) unfolding get_elems [OF assms(1)] find_first_append by (auto split: option.splits)
  finally show ?thesis .
qed

lemma get_drop:
  assumes "invar s"
  shows "get k (drop_key k' s) = (if k = k' then None else get k s)"
proof -
  have "find_first (\<lambda>x. key x = k) (filter (\<lambda>x. key x \<noteq> k') xs) = (if k = k' then None else find_first (\<lambda>x. key x = k) xs)" for xs
    by (induction xs) auto
  then show ?thesis by (simp add: get_elems assms invar_drop elems_drop)
qed

lemma keys_put: "invar s \<Longrightarrow> get (key x) s = None \<Longrightarrow> key ` set (elems (put x s)) = insert (key x) (key ` set (elems s))"
  by (auto simp: elems_put)

lemma keys_drop: "invar s \<Longrightarrow> key ` set (elems (drop_key k s)) = key ` set (elems s) - {k}"
  by (auto simp: elems_drop)

end

section \<open>Piles\<close>

definition pile_ok :: "'x element_scheme pile \<Rightarrow> bool" where
  "pile_ok p \<longleftrightarrow>
     prog_ok (pl_progression p) \<and> distinct (pg_order (pl_progression p)) \<and>
     set (pg_order (pl_progression p)) = dom (map_of (pl_items p)) \<and> distinct (dict_keys (pl_items p)) \<and>
     (\<forall>k x. map_of (pl_items p) k = Some x \<longrightarrow> el_id x = k)"

definition pile_elems :: "'x element_scheme pile \<Rightarrow> 'x element_scheme list" where
  "pile_elems p = map (\<lambda>u. the (map_of (pl_items p) u)) (pg_order (pl_progression p))"

definition pile_drop :: "uuid \<Rightarrow> 'x element_scheme pile \<Rightarrow> 'x element_scheme pile" where
  "pile_drop uid p = snd (pile_remove uid p)"

lemma keys_of_elems:
  assumes "pile_ok p"
  shows "map el_id (pile_elems p) = pg_order (pl_progression p)"
proof -
  have "el_id (the (map_of (pl_items p) u)) = u" if "u \<in> set (pg_order (pl_progression p))" for u
    using assms that unfolding pile_ok_def by force
  then show ?thesis by (simp add: pile_elems_def map_idI)
qed

lemma pile_get_elems:
  assumes "pile_ok p"
  shows "map_of (pl_items p) k = find_first (\<lambda>x. el_id x = k) (pile_elems p)"
proof (cases "map_of (pl_items p) k")
  case None
  then have "k \<notin> set (map el_id (pile_elems p))" using assms by (auto simp: keys_of_elems pile_ok_def)
  then show ?thesis using None find_first_None_iff [of "\<lambda>x. el_id x = k" "pile_elems p"] by auto
next
  case (Some x)
  then have k: "k \<in> set (pg_order (pl_progression p))" "el_id x = k" using assms by (auto simp: pile_ok_def)
  have x: "x \<in> set (pile_elems p)"
    unfolding pile_elems_def set_map by (rule image_eqI [of _ _ k]) (simp_all add: Some k)
  have d: "distinct (map el_id (pile_elems p))" using assms by (simp add: keys_of_elems pile_ok_def)
  show ?thesis using find_first_key [OF d x] Some k(2) by simp
qed

lemma store_props:
  assumes "pile_ok p" "map_of (pl_items p) (el_id x) = None"
  shows "pile_elems (store x p) = pile_elems p @ [x]" "pile_ok (store x p)"
proof -
  have new: "el_id x \<notin> set (pg_order (pl_progression p))" using assms by (auto simp: pile_ok_def)
  then show "pile_elems (store x p) = pile_elems p @ [x]"
    by (auto simp: pile_elems_def store_def prog_append_def intro!: map_cong)
  show "pile_ok (store x p)"
    using assms new by (auto simp: pile_ok_def store_def prog_append_def prog_ok_def distinct_dict_set split: if_splits)
qed

lemma pile_remove_ok:
  assumes "pile_ok p"
  shows "pile_remove k p =
    (case map_of (pl_items p) k of None \<Rightarrow> (Inl ItemNotFound, p) | Some x \<Rightarrow> (Inr x, pile_drop k p))"
proof (cases "map_of (pl_items p) k")
  case (Some x)
  then have "k \<in> set (pg_order (pl_progression p))" using assms by (auto simp: pile_ok_def)
  then obtain g where "prog_remove k (pl_progression p) = Inr g" using prog_remove_iff by blast
  with Some show ?thesis by (simp add: pile_drop_def pile_remove_def take_out_def Let_def)
qed (simp add: pile_remove_def)

lemma pile_drop_props:
  assumes "pile_ok p"
  shows "pile_elems (pile_drop k p) = filter (\<lambda>x. el_id x \<noteq> k) (pile_elems p)" "pile_ok (pile_drop k p)"
proof -
  let ?o = "pg_order (pl_progression p)"
  have "pile_elems (pile_drop k p) = filter (\<lambda>x. el_id x \<noteq> k) (pile_elems p) \<and> pile_ok (pile_drop k p)"
  proof (cases "map_of (pl_items p) k")
    case None
    then have "k \<notin> set ?o" using assms by (auto simp: pile_ok_def)
    then have "k \<notin> el_id ` set (pile_elems p)" using keys_of_elems [OF assms] by (metis list.set_map)
    then have "filter (\<lambda>x. el_id x \<noteq> k) (pile_elems p) = pile_elems p" by (auto simp: filter_id_conv)
    then show ?thesis using None assms by (simp add: pile_drop_def pile_remove_def)
  next
    case (Some x)
    then have k: "k \<in> set ?o" using assms by (auto simp: pile_ok_def)
    then obtain g where g: "prog_remove k (pl_progression p) = Inr g" using prog_remove_iff by blast
    have g': "pg_order g = remove1 k ?o" "prog_ok g" using prog_remove_Inr [OF g] assms by (auto simp: pile_ok_def)
    have d: "distinct ?o" using assms by (simp add: pile_ok_def)
    have p': "pile_drop k p = p\<lparr>pl_items := dict_pop k (pl_items p), pl_progression := g\<rparr>"
      using Some g by (simp add: pile_drop_def pile_remove_def take_out_def Let_def)
    have ids: "el_id (the (map_of (pl_items p) u)) = u" if "u \<in> set ?o" for u using assms that unfolding pile_ok_def by force
    have "pile_elems (pile_drop k p) = map (\<lambda>u. the (map_of (pl_items p) u)) (filter (\<lambda>u. u \<noteq> k) ?o)"
      unfolding p' using g' d by (auto simp: pile_elems_def map_of_dict_pop distinct_remove1_removeAll removeAll_filter_not_eq eq_commute intro!: map_cong)
    also have "\<dots> = filter (\<lambda>x. el_id x \<noteq> k) (pile_elems p)"
      unfolding pile_elems_def filter_map comp_def by (intro arg_cong [of _ _ "map _"] filter_cong refl) (simp add: ids)
    finally have "pile_elems (pile_drop k p) = filter (\<lambda>x. el_id x \<noteq> k) (pile_elems p)" .
    moreover have "distinct (dict_keys (dict_pop k (pl_items p)))"
      using assms by (auto simp: pile_ok_def dict_pop_def distinct_map_filter)
    then have "pile_ok (pile_drop k p)"
      using assms g' d unfolding p' pile_ok_def by (auto simp: map_of_dict_pop split: if_splits)
    ultimately show ?thesis ..
  qed
  then show "pile_elems (pile_drop k p) = filter (\<lambda>x. el_id x \<noteq> k) (pile_elems p)" "pile_ok (pile_drop k p)" by auto
qed

interpretation pile_seq: keyed_sequence pile_ok pile_elems el_id "\<lambda>k p. map_of (pl_items p) k" store pile_drop
proof
  fix p :: "'a element_scheme pile"
  assume p: "pile_ok p"
  show "distinct (map el_id (pile_elems p))" using p by (simp add: keys_of_elems pile_ok_def)
qed (simp_all add: pile_get_elems [symmetric] store_props pile_drop_props)

section \<open>Reading\<close>

lemma lookup_all_ok: "set us \<subseteq> dom (map_of (pl_items p)) \<Longrightarrow> lookup_all us p = Inr (map (\<lambda>u. the (map_of (pl_items p) u)) us)"
  by (induction us) (auto simp: bind_r_def)

lemma pile_list_ok: "pile_ok p \<Longrightarrow> pile_list p = Inr (pile_elems p)"
  by (simp add: pile_list_def lookup_all_ok pile_elems_def pile_ok_def)

lemma pile_len_ok:
  assumes "pile_ok p"
  shows "pile_len p = length (pile_elems p)"
proof -
  have d: "distinct (dict_keys (pl_items p))" "distinct (pg_order (pl_progression p))"
    "set (pg_order (pl_progression p)) = set (dict_keys (pl_items p))" using assms by (auto simp: pile_ok_def dom_map_of_conv_image_fst)
  have "length (dict_keys (pl_items p)) = length (pg_order (pl_progression p))"
    using distinct_card [OF d(1)] distinct_card [OF d(2)] d(3) by simp
  then show ?thesis by (simp add: pile_len_def pile_elems_def)
qed

text \<open>Replacing an element keeps its place.\<close>

lemma update_elems:
  assumes "pile_ok p" "map_of (pl_items p) (el_id x) \<noteq> None"
  shows "pile_elems (p\<lparr>pl_items := dict_set (el_id x) x (pl_items p)\<rparr>) = map (\<lambda>y. if el_id y = el_id x then x else y) (pile_elems p)"
    "pile_ok (p\<lparr>pl_items := dict_set (el_id x) x (pl_items p)\<rparr>)"
proof -
  have "el_id (the (map_of (pl_items p) u)) = u" if "u \<in> set (pg_order (pl_progression p))" for u
    using assms(1) that unfolding pile_ok_def by force
  then show "pile_elems (p\<lparr>pl_items := dict_set (el_id x) x (pl_items p)\<rparr>) = map (\<lambda>y. if el_id y = el_id x then x else y) (pile_elems p)"
    by (auto simp: pile_elems_def)
  show "pile_ok (p\<lparr>pl_items := dict_set (el_id x) x (pl_items p)\<rparr>)"
    using assms by (auto simp: pile_ok_def distinct_dict_set split: if_splits)
qed

lemma add_all_ok:
  assumes "add_all sub xs p = Inr p'" "pile_ok p"
  shows "pile_ok p' \<and> pile_elems p' = pile_elems p @ xs"
  using assms
proof (induction xs arbitrary: p)
  case (Cons x xs)
  then have x: "map_of (pl_items p) (el_id x) = None" "add_all sub xs (store x p) = Inr p'"
    by (auto simp: pile_add_def split: if_splits)
  from Cons.IH [OF x(2) store_props(2) [OF Cons.prems(2) x(1)]] store_props(1) [OF Cons.prems(2) x(1)] show ?case by simp
qed simp

lemma empty_pile_ok: "pile_ok (empty_pile ts strict)" "pile_elems (empty_pile ts strict) = []"
  by (simp_all add: pile_ok_def pile_elems_def empty_pile_def new_progression_def prog_ok_def)

lemma new_pile_ok: "new_pile sub xs ts [] strict = Inr p \<Longrightarrow> pile_ok p \<and> pile_elems p = xs"
  using add_all_ok [of sub xs "empty_pile ts strict" p] empty_pile_ok by (auto simp: new_pile_def bind_r_Inr_iff)

section \<open>Properties\<close>


section \<open>A sample\<close>

definition two_items :: "element pile" where
  "two_items = store \<lparr>el_id = ''b'', el_type = ''Node''\<rparr> (store \<lparr>el_id = ''a'', el_type = ''Node''\<rparr> (empty_pile None False))"

lemma two_items_ok: "pile_ok two_items"
  unfolding two_items_def by (intro store_props(2) empty_pile_ok) (simp_all add: store_def empty_pile_def)


text \<open>The constructor accepts an order that repeats an id; after its removal the pile cannot be iterated any more.\<close>

lemma repeated_order_breaks:
  assumes "new_pile (\<lambda>_ _. True) [\<lparr>el_id = ''a'', el_type = ''Node''\<rparr>] None [''a'', ''a''] False = Inr p"
  shows "pile_list (snd (pile_remove ''a'' p)) = Inl PileKeyError"
  using assms by (auto simp: new_pile_def pile_add_def type_ok_def empty_pile_def store_def pile_remove_def take_out_def Let_def
      prog_remove_def forget_def new_progression_def dict_pop_def pile_list_def split: if_splits)

end
