(* ===== verification/Graph_Invariant.thy ===== *)
theory Graph_Invariant
  imports Graph Pile_Correct
begin

text \<open>
  Graphs keep their adjacency: every operation leaves a graph whose sets of outgoing and incoming edges are those of its edges, and whose edges
  join nodes of the graph.
\<close>

section \<open>Well-formed graphs\<close>

definition node_ids :: "'n digraph \<Rightarrow> uuid set" where
  "node_ids g = dom (node_of g)"

text \<open>The edges whose end, selected by \<open>f\<close>, is a node.\<close>

definition edges_at :: "(edge \<Rightarrow> uuid) \<Rightarrow> 'n digraph \<Rightarrow> uuid \<Rightarrow> uuid set" where
  "edges_at f g n = {eid. \<exists>e. edge_of g eid = Some e \<and> f e = n}"

definition adj_ok :: "(edge \<Rightarrow> uuid) \<Rightarrow> 'n digraph \<Rightarrow> adjacency \<Rightarrow> bool" where
  "adj_ok f g adj \<longleftrightarrow>
     distinct (dict_keys adj) \<and> (\<forall>n. map_of adj n = (if n \<in> node_ids g then Some (edges_at f g n) else None))"

definition graph_ok :: "'n digraph \<Rightarrow> bool" where
  "graph_ok g \<longleftrightarrow>
     pile_ok (gh_nodes g) \<and> pile_ok (gh_edges g) \<and> adj_ok ed_head g (gh_out g) \<and> adj_ok ed_tail g (gh_in g) \<and>
     (\<forall>eid e. edge_of g eid = Some e \<longrightarrow> el_id e = eid \<and> ed_head e \<in> node_ids g \<and> ed_tail e \<in> node_ids g)"

lemma finite_edges_at [simp]: "finite (edges_at f g n)"
proof (rule finite_subset)
  show "edges_at f g n \<subseteq> dom (edge_of g)" by (auto simp: edges_at_def)
  show "finite (dom (edge_of g))" by (simp add: edge_of_def [abs_def] finite_dom_map_of)
qed

lemma edges_at_frame: "edge_of g' = edge_of g \<Longrightarrow> edges_at f g' = edges_at f g"
  by (simp add: edges_at_def [abs_def])

lemma edges_at_upd:
  "edge_of g' = (edge_of g)(eid \<mapsto> e) \<Longrightarrow> edge_of g eid = None \<Longrightarrow>
   edges_at f g' n = (if n = f e then insert eid (edges_at f g n) else edges_at f g n)"
  by (auto simp: edges_at_def)

lemma edges_at_del:
  "edge_of g' = (edge_of g)(eid := None) \<Longrightarrow> edge_of g eid = Some e \<Longrightarrow>
   edges_at f g' n = (if n = f e then edges_at f g n - {eid} else edges_at f g n)"
  by (auto simp: edges_at_def)

lemma node_ids_conv: "n \<in> node_ids g \<longleftrightarrow> pile_contains n (gh_nodes g)"
  by (auto simp: node_ids_def node_of_def pile_contains_def)

lemma edge_of_frame: "gh_edges g' = gh_edges g \<Longrightarrow> edge_of g' = edge_of g" "gh_nodes g' = gh_nodes g \<Longrightarrow> node_of g' = node_of g"
  by (auto simp: edge_of_def [abs_def] node_of_def [abs_def])

section \<open>Nodes and edges\<close>

lemma add_node_new:
  assumes "graph_ok g" "type_ok sub n (gh_nodes g)" "node_of g (el_id n) = None"
  obtains g' where "add_node sub n g = (Inr (), g')" "graph_ok g'" "node_of g' = (node_of g)(el_id n \<mapsto> n)" "edge_of g' = edge_of g"
proof -
  let ?ns = "store n (gh_nodes g)"
  let ?g = "g\<lparr>gh_nodes := ?ns, gh_out := dict_set (el_id n) {} (gh_out g), gh_in := dict_set (el_id n) {} (gh_in g)\<rparr>"
  have ok: "pile_ok (gh_nodes g)" using assms(1) by (simp add: graph_ok_def)
  have fresh: "map_of (pl_items (gh_nodes g)) (el_id n) = None" using assms(3) by (simp add: node_of_def)
  have add: "add_node sub n g = (Inr (), ?g)" using assms(2) fresh by (simp add: add_node_def pile_add_def)
  have nodes: "node_of ?g = (node_of g)(el_id n \<mapsto> n)"
    by (auto simp: node_of_def fun_eq_iff store_def)
  have edges: "edge_of ?g = edge_of g" by (simp add: edge_of_def [abs_def])
  have ids: "node_ids ?g = insert (el_id n) (node_ids g)" by (simp add: node_ids_def nodes)
  have none: "edges_at f g (el_id n) = {}" if "f = ed_head \<or> f = ed_tail" for f
    using assms(1,3) that unfolding graph_ok_def edges_at_def node_ids_def by (force simp: domIff)
  have at: "edges_at f ?g = edges_at f g" for f by (rule edges_at_frame [OF edges])
  have "adj_ok f ?g (dict_set (el_id n) {} adj)" if "adj_ok f g adj" "f = ed_head \<or> f = ed_tail" for f adj
    using that(1) none [OF that(2)] by (auto simp: adj_ok_def distinct_dict_set ids at)
  then have "graph_ok ?g"
    using assms(1) store_props(2) [OF ok fresh] by (auto simp: graph_ok_def edges ids)
  with add nodes edges show thesis by (intro that)
qed

lemma adj_ok_set:
  assumes "adj_ok f g adj" "k \<in> node_ids g" "node_ids g' = node_ids g"
    "\<And>n. edges_at f g' n = (if n = k then s else edges_at f g n)"
  shows "adj_ok f g' (dict_set k s adj)"
  using assms by (auto simp: adj_ok_def distinct_dict_set)

lemma adj_lookup: "adj_ok f g adj \<Longrightarrow> k \<in> node_ids g \<Longrightarrow> map_of adj k = Some (edges_at f g k)"
  by (simp add: adj_ok_def)

lemma add_edge_new:
  assumes "graph_ok g" "type_ok sub e (gh_edges g)" "edge_of g (el_id e) = None" "ed_head e \<in> node_ids g" "ed_tail e \<in> node_ids g"
  obtains g' where "add_edge sub e g = (Inr (), g')" "graph_ok g'" "node_of g' = node_of g" "edge_of g' = (edge_of g)(el_id e \<mapsto> e)"
proof -
  have ok: "pile_ok (gh_edges g)" and adj: "adj_ok ed_head g (gh_out g)" "adj_ok ed_tail g (gh_in g)"
    using assms(1) by (simp_all add: graph_ok_def)
  have fresh: "map_of (pl_items (gh_edges g)) (el_id e) = None" using assms(3) by (simp add: edge_of_def)
  let ?out = "dict_set (ed_head e) (insert (el_id e) (edges_at ed_head g (ed_head e))) (gh_out g)"
  let ?in = "dict_set (ed_tail e) (insert (el_id e) (edges_at ed_tail g (ed_tail e))) (gh_in g)"
  let ?g = "g\<lparr>gh_edges := store e (gh_edges g), gh_out := ?out, gh_in := ?in\<rparr>"
  have add: "add_edge sub e g = (Inr (), ?g)"
    using assms(2,4,5) fresh adj_lookup [OF adj(1) assms(4)] adj_lookup [OF adj(2) assms(5)]
    by (simp add: add_edge_def pile_add_def node_ids_conv adj_add_def Let_def)
  have edges: "edge_of ?g = (edge_of g)(el_id e \<mapsto> e)" by (auto simp: edge_of_def fun_eq_iff store_def)
  have nodes: "node_of ?g = node_of g" by (simp add: node_of_def [abs_def])
  have at: "edges_at f ?g n = (if n = f e then insert (el_id e) (edges_at f g (f e)) else edges_at f g n)" for f n
    using edges_at_upd [OF edges assms(3)] by simp
  have "adj_ok ed_head ?g ?out" "adj_ok ed_tail ?g ?in"
    by (rule adj_ok_set [OF adj(1) assms(4)] adj_ok_set [OF adj(2) assms(5)]; simp add: node_ids_def nodes at)+
  then have "graph_ok ?g"
    using assms store_props(2) [OF ok fresh] by (auto simp: graph_ok_def edges nodes node_ids_def)
  with add nodes edges show thesis by (intro that)
qed

lemma remove_edge_present:
  assumes "graph_ok g" "edge_of g eid = Some e"
  obtains g' where "remove_edge eid g = (Inr e, g')" "graph_ok g'" "node_of g' = node_of g" "edge_of g' = (edge_of g)(eid := None)"
proof -
  have ok: "pile_ok (gh_edges g)" and adj: "adj_ok ed_head g (gh_out g)" "adj_ok ed_tail g (gh_in g)"
    and ends: "ed_head e \<in> node_ids g" "ed_tail e \<in> node_ids g"
    using assms by (simp_all add: graph_ok_def)
  have item: "map_of (pl_items (gh_edges g)) eid = Some e" using assms(2) by (simp add: edge_of_def)
  let ?out = "dict_set (ed_head e) (edges_at ed_head g (ed_head e) - {eid}) (gh_out g)"
  let ?in = "dict_set (ed_tail e) (edges_at ed_tail g (ed_tail e) - {eid}) (gh_in g)"
  let ?g = "g\<lparr>gh_out := ?out, gh_in := ?in, gh_edges := pile_drop eid (gh_edges g)\<rparr>"
  have rem: "remove_edge eid g = (Inr e, ?g)"
    using adj_lookup [OF adj(1) ends(1)] adj_lookup [OF adj(2) ends(2)]
    by (simp add: remove_edge_def item adj_discard_def Let_def pile_remove_ok [OF ok])
  have edges: "edge_of ?g = (edge_of g)(eid := None)" by (auto simp: edge_of_def fun_eq_iff pile_seq.get_drop [OF ok])
  have nodes: "node_of ?g = node_of g" by (simp add: node_of_def [abs_def])
  have at: "edges_at f ?g n = (if n = f e then edges_at f g (f e) - {eid} else edges_at f g n)" for f n
    using edges_at_del [OF edges assms(2)] by simp
  have "adj_ok ed_head ?g ?out" "adj_ok ed_tail ?g ?in"
    by (rule adj_ok_set [OF adj(1) ends(1)] adj_ok_set [OF adj(2) ends(2)]; simp add: node_ids_def nodes at)+
  then have "graph_ok ?g"
    using assms pile_drop_props(2) [OF ok] by (auto simp: graph_ok_def edges nodes node_ids_def)
  with rem nodes edges show thesis by (intro that)
qed

lemma remove_edges_present:
  assumes "graph_ok g" "distinct es" "set es \<subseteq> dom (edge_of g)"
  shows "\<exists>g'. remove_edges es g = (Inr (), g') \<and> graph_ok g' \<and> node_of g' = node_of g \<and>
    edge_of g' = (\<lambda>e. if e \<in> set es then None else edge_of g e)"
  using assms
proof (induction es arbitrary: g)
  case (Cons e es)
  then obtain ed where ed: "edge_of g e = Some ed" by auto
  obtain g1 where g1: "remove_edge e g = (Inr ed, g1)" "graph_ok g1" "node_of g1 = node_of g" "edge_of g1 = (edge_of g)(e := None)"
    by (rule remove_edge_present [OF Cons.prems(1) ed])
  have "distinct es" "set es \<subseteq> dom (edge_of g1)" using Cons.prems g1(4) by auto
  from Cons.IH [OF g1(2) this] obtain g' where "remove_edges es g1 = (Inr (), g')" "graph_ok g'" "node_of g' = node_of g1"
    "edge_of g' = (\<lambda>e. if e \<in> set es then None else edge_of g1 e)" by blast
  then show ?case using g1 by (auto simp: bind_g_def fun_eq_iff)
qed auto

lemma remove_adjacent_present:
  assumes "graph_ok g" "lists_sets it" "n \<in> node_ids g" "f = ed_head \<and> adj = gh_out \<or> f = ed_tail \<and> adj = gh_in"
  shows "\<exists>g'. remove_adjacent adj it n g = (Inr (), g') \<and> graph_ok g' \<and> node_of g' = node_of g \<and>
    edge_of g' = (\<lambda>e. if e \<in> edges_at f g n then None else edge_of g e)"
proof -
  have "adj_ok f g (adj g)" using assms(1,4) by (auto simp: graph_ok_def)
  then have "map_of (adj g) n = Some (edges_at f g n)" using assms(3) by (rule adj_lookup)
  moreover have it: "set (it (edges_at f g n)) = edges_at f g n" "distinct (it (edges_at f g n))"
    using assms(2) by (simp_all add: lists_sets_def)
  then have "set (it (edges_at f g n)) \<subseteq> dom (edge_of g)" by (auto simp: edges_at_def)
  ultimately show ?thesis
    using remove_edges_present [OF assms(1) it(2)] it(1) by (simp add: remove_adjacent_def)
qed

lemma drop_node_isolated:
  assumes "graph_ok g" "node_of g nid = Some n" "\<forall>e ed. edge_of g e = Some ed \<longrightarrow> ed_head ed \<noteq> nid \<and> ed_tail ed \<noteq> nid"
  obtains g' where "drop_node nid g = (Inr n, g')" "graph_ok g'" "node_of g' = (node_of g)(nid := None)" "edge_of g' = edge_of g"
proof -
  have ok: "pile_ok (gh_nodes g)" using assms(1) by (simp add: graph_ok_def)
  have item: "map_of (pl_items (gh_nodes g)) nid = Some n" using assms(2) by (simp add: node_of_def)
  let ?g = "g\<lparr>gh_in := dict_pop nid (gh_in g), gh_out := dict_pop nid (gh_out g), gh_nodes := pile_drop nid (gh_nodes g)\<rparr>"
  have drop: "drop_node nid g = (Inr n, ?g)" by (simp add: drop_node_def Let_def pile_remove_ok [OF ok] item)
  have nodes: "node_of ?g = (node_of g)(nid := None)" by (auto simp: node_of_def fun_eq_iff pile_seq.get_drop [OF ok])
  have edges: "edge_of ?g = edge_of g" by (simp add: edge_of_def [abs_def])
  have ids: "node_ids ?g = node_ids g - {nid}" by (auto simp: node_ids_def nodes)
  have at: "edges_at f ?g = edges_at f g" for f by (rule edges_at_frame [OF edges])
  have "adj_ok f ?g (dict_pop nid adj)" if "adj_ok f g adj" for f adj
    using that by (auto simp: adj_ok_def dict_pop_distinct map_of_dict_pop ids at)
  then have "graph_ok ?g"
    using assms pile_drop_props(2) [OF ok] by (auto simp: graph_ok_def edges ids)
  with drop nodes edges show thesis by (intro that)
qed

lemma remove_node_present:
  assumes "graph_ok g" "lists_sets it" "node_of g nid = Some n"
  obtains g' where "remove_node it nid g = (Inr n, g')" "graph_ok g'" "node_of g' = (node_of g)(nid := None)"
    "edge_of g' = (\<lambda>e. if e \<in> edges_at ed_head g nid \<union> edges_at ed_tail g nid then None else edge_of g e)"
proof -
  have nid: "nid \<in> node_ids g" using assms(3) by (auto simp: node_ids_def)
  obtain g1 where g1: "remove_adjacent gh_in it nid g = (Inr (), g1)" "graph_ok g1" "node_of g1 = node_of g"
    "edge_of g1 = (\<lambda>e. if e \<in> edges_at ed_tail g nid then None else edge_of g e)"
    using remove_adjacent_present [OF assms(1,2) nid, of ed_tail gh_in] by blast
  have nid1: "nid \<in> node_ids g1" using nid by (simp add: node_ids_def g1(3))
  obtain g2 where g2: "remove_adjacent gh_out it nid g1 = (Inr (), g2)" "graph_ok g2" "node_of g2 = node_of g1"
    "edge_of g2 = (\<lambda>e. if e \<in> edges_at ed_head g1 nid then None else edge_of g1 e)"
    using remove_adjacent_present [OF g1(2) assms(2) nid1, of ed_head gh_out] by blast
  have at1: "edges_at ed_head g1 nid = edges_at ed_head g nid - edges_at ed_tail g nid" by (auto simp: edges_at_def g1(4))
  have edges: "edge_of g2 = (\<lambda>e. if e \<in> edges_at ed_head g nid \<union> edges_at ed_tail g nid then None else edge_of g e)"
    by (auto simp: g2(4) g1(4) at1 fun_eq_iff)
  have "\<forall>e ed. edge_of g2 e = Some ed \<longrightarrow> ed_head ed \<noteq> nid \<and> ed_tail ed \<noteq> nid"
    by (auto simp: edges edges_at_def split: if_splits)
  moreover have "node_of g2 nid = Some n" using assms(3) by (simp add: g2(3) g1(3))
  ultimately obtain g' where g': "drop_node nid g2 = (Inr n, g')" "graph_ok g'" "node_of g' = (node_of g2)(nid := None)" "edge_of g' = edge_of g2"
    using drop_node_isolated [OF g2(2)] by metis
  have "remove_node it nid g = (Inr n, g')"
    using assms(3) g1(1) g2(1) g'(1) by (simp add: remove_node_def bind_g_def node_of_def)
  with g' g2(3) g1(3) edges show thesis by (intro that) simp_all
qed

section \<open>The constructor\<close>

lemma lookup_edges_ok: "set es \<subseteq> dom (edge_of g) \<Longrightarrow> lookup_edges g es = Inr (map (\<lambda>e. the (edge_of g e)) es)"
  by (induction es) (auto simp: bind_r_def)

lemma blank_lookup:
  "map_of (foldl (\<lambda>d n. dict_set n {} d) d ns) n = (if n \<in> set ns then Some {} else map_of d n)"
  "distinct (dict_keys d) \<Longrightarrow> distinct (dict_keys (foldl (\<lambda>d n. dict_set n {} d) d ns))"
  by (induction ns arbitrary: d) (auto simp: distinct_dict_set)

lemma add_if_present_lookup:
  "map_of (add_if_present k x d) n = (if n = k then map_option (insert x) (map_of d n) else map_of d n)"
  "distinct (dict_keys d) \<Longrightarrow> distinct (dict_keys (add_if_present k x d))"
  by (auto simp: add_if_present_def adj_add_def distinct_dict_set split: option.split)

lemma fill_lookup:
  "map_of (foldl (\<lambda>d (eid, e). add_if_present (f e) eid d) d es) n =
     (case map_of d n of None \<Rightarrow> None | Some s \<Rightarrow> Some (s \<union> {eid. \<exists>e. (eid, e) \<in> set es \<and> f e = n}))"
proof (induction es arbitrary: d)
  case (Cons x es)
  show ?case by (cases x; cases "map_of d n") (auto simp: Cons add_if_present_lookup(1))
qed (simp split: option.split)

lemma fill_distinct:
  "distinct (dict_keys d) \<Longrightarrow> distinct (dict_keys (foldl (\<lambda>d (eid, e). add_if_present (f e) eid d) d es))"
  by (induction es arbitrary: d) (auto simp: add_if_present_lookup(2))

lemma set_zip_map: "(a, b) \<in> set (zip xs (map f xs)) \<longleftrightarrow> a \<in> set xs \<and> b = f a"
  by (induction xs) auto

lemma new_graph_ok:
  assumes "pile_ok ns" "pile_ok es"
    "\<forall>eid e. map_of (pl_items es) eid = Some e \<longrightarrow> pile_contains (ed_head e) ns \<and> pile_contains (ed_tail e) ns"
  obtains g where "new_graph ns es = Inr g" "graph_ok g" "gh_nodes g = ns" "gh_edges g = es"
proof -
  define g where "g = \<lparr>gh_nodes = ns, gh_edges = es, gh_out = [], gh_in = []\<rparr>"
  define zs where "zs = zip (pile_keys es) (map (\<lambda>e. the (edge_of g e)) (pile_keys es))"
  define fill where "fill f = foldl (\<lambda>d (eid, e). add_if_present (f e) eid d) (foldl (\<lambda>d n. dict_set n {} d) [] (pile_keys ns)) zs" for f
  define h where "h = g\<lparr>gh_out := fill ed_head, gh_in := fill ed_tail\<rparr>"
  have g: "gh_nodes g = ns" "gh_edges g = es" and h: "gh_nodes h = ns" "gh_edges h = es" "gh_out h = fill ed_head" "gh_in h = fill ed_tail"
    by (simp_all add: g_def h_def)
  have keys: "set (pile_keys es) = dom (edge_of g)" "set (pile_keys ns) = node_ids g"
    using assms(1,2) by (auto simp: pile_keys_def pile_ok_def edge_of_def node_ids_def node_of_def g)
  have new: "new_graph ns es = Inr h"
    using keys(1) lookup_edges_ok [of "pile_keys es" g]
    by (simp add: new_graph_def rebuild_adjacency_def g_def [symmetric] g bind_r_def Let_def h_def fill_def zs_def)
  have zs: "(eid, e) \<in> set zs \<longleftrightarrow> edge_of g eid = Some e" for eid e
    unfolding zs_def set_zip_map keys(1) by (metis domI domIff option.collapse option.sel)
  have same: "edge_of h = edge_of g" "node_of h = node_of g" by (rule edge_of_frame, simp add: g h)+
  have ids: "node_ids h = node_ids g" "edges_at f h = edges_at f g" for f
    by (simp only: node_ids_def same) (rule edges_at_frame [OF same(1)])
  have "adj_ok f h (fill f)" for f
    unfolding adj_ok_def ids fill_def fill_lookup blank_lookup keys(2) zs edges_at_def by (simp add: fill_distinct blank_lookup(2))
  moreover have "\<forall>eid e. edge_of g eid = Some e \<longrightarrow> el_id e = eid \<and> ed_head e \<in> node_ids g \<and> ed_tail e \<in> node_ids g"
    using assms(2,3) by (auto simp: node_ids_conv edge_of_def pile_ok_def g)
  ultimately have "graph_ok h" using assms(1,2) by (simp add: graph_ok_def ids(1) same(1) h)
  with new h show thesis by (intro that)
qed

section \<open>The operations\<close>

lemma add_node_ok:
  assumes "graph_ok g"
  shows "case add_node sub n g of
       (Inr _, g') \<Rightarrow> graph_ok g' \<and> node_of g' = (node_of g)(el_id n \<mapsto> n) \<and> edge_of g' = edge_of g
     | (Inl e, g') \<Rightarrow> g' = g \<and> (e = FromPile PileTypeError \<or> e = FromPile ExistsError \<and> node_of g (el_id n) \<noteq> None)"
proof -
  consider "\<not> type_ok sub n (gh_nodes g)" | "type_ok sub n (gh_nodes g)" "node_of g (el_id n) \<noteq> None"
    | "type_ok sub n (gh_nodes g)" "node_of g (el_id n) = None" by blast
  then show ?thesis
  proof cases
    case 3
    then obtain g' where "add_node sub n g = (Inr (), g')" "graph_ok g'" "node_of g' = (node_of g)(el_id n \<mapsto> n)" "edge_of g' = edge_of g"
      by (rule add_node_new [OF assms])
    then show ?thesis by simp
  qed (auto simp: add_node_def pile_add_def node_of_def)
qed

lemma add_edge_ok:
  assumes "graph_ok g"
  shows "case add_edge sub ed g of
       (Inr _, g') \<Rightarrow> graph_ok g' \<and> edge_of g' = (edge_of g)(el_id ed \<mapsto> ed) \<and> node_of g' = node_of g
     | (Inl e, g') \<Rightarrow> g' = g \<and>
         (e = FromPile PileTypeError \<or> e = FromPile ExistsError \<and> edge_of g (el_id ed) \<noteq> None \<or>
          (\<exists>m\<in>{ed_head ed, ed_tail ed}. e = NodeNotFound m \<and> node_of g m = None))"
proof -
  consider "ed_head ed \<notin> node_ids g \<or> ed_tail ed \<notin> node_ids g"
    | "ed_head ed \<in> node_ids g" "ed_tail ed \<in> node_ids g" "\<not> type_ok sub ed (gh_edges g) \<or> edge_of g (el_id ed) \<noteq> None"
    | "type_ok sub ed (gh_edges g)" "edge_of g (el_id ed) = None" "ed_head ed \<in> node_ids g" "ed_tail ed \<in> node_ids g" by blast
  then show ?thesis
  proof cases
    case 1
    then show ?thesis by (auto simp: add_edge_def node_ids_conv pile_contains_def node_of_def)
  next
    case 2
    then show ?thesis by (auto simp: add_edge_def node_ids_conv pile_add_def edge_of_def)
  next
    case 3
    then obtain g' where "add_edge sub ed g = (Inr (), g')" "graph_ok g'" "node_of g' = node_of g" "edge_of g' = (edge_of g)(el_id ed \<mapsto> ed)"
      by (rule add_edge_new [OF assms])
    then show ?thesis by simp
  qed
qed

lemma remove_edge_ok:
  assumes "graph_ok g"
  shows "case remove_edge eid g of
       (Inr x, g') \<Rightarrow> graph_ok g' \<and> edge_of g eid = Some x \<and> edge_of g' = (edge_of g)(eid := None) \<and> node_of g' = node_of g
     | (Inl e, g') \<Rightarrow> g' = g \<and> e = EdgeNotFound eid \<and> edge_of g eid = None"
proof (cases "edge_of g eid")
  case (Some x)
  then obtain g' where "remove_edge eid g = (Inr x, g')" "graph_ok g'" "node_of g' = node_of g" "edge_of g' = (edge_of g)(eid := None)"
    by (rule remove_edge_present [OF assms])
  then show ?thesis using Some by simp
qed (simp add: remove_edge_def edge_of_def)

lemma remove_node_ok:
  assumes "graph_ok g" "lists_sets it"
  shows "case remove_node it nid g of
       (Inr x, g') \<Rightarrow> graph_ok g' \<and> node_of g nid = Some x \<and> node_of g' = (node_of g)(nid := None) \<and>
         edge_of g' = (\<lambda>e. if e \<in> edges_at ed_head g nid \<union> edges_at ed_tail g nid then None else edge_of g e)
     | (Inl e, g') \<Rightarrow> g' = g \<and> e = NodeNotFound nid \<and> node_of g nid = None"
proof (cases "node_of g nid")
  case (Some x)
  then obtain g' where "remove_node it nid g = (Inr x, g')" "graph_ok g'" "node_of g' = (node_of g)(nid := None)"
    "edge_of g' = (\<lambda>e. if e \<in> edges_at ed_head g nid \<union> edges_at ed_tail g nid then None else edge_of g e)"
    by (rule remove_node_present [OF assms])
  then show ?thesis using Some by simp
qed (simp add: remove_node_def node_of_def)

section \<open>Reachable graphs\<close>

text \<open>
  The graphs a program can build: from well-formed piles whose edges join nodes, by any sequence of the mutations, failing calls included,
  each with its own iteration order of the sets.
\<close>

inductive reachable_graph :: "'n digraph \<Rightarrow> bool" where
  start: "pile_ok ns \<Longrightarrow> pile_ok es \<Longrightarrow>
    (\<And>eid e. map_of (pl_items es) eid = Some e \<Longrightarrow> pile_contains (ed_head e) ns \<and> pile_contains (ed_tail e) ns) \<Longrightarrow>
    new_graph ns es = Inr g \<Longrightarrow> reachable_graph g"
| add_node: "reachable_graph g \<Longrightarrow> reachable_graph (snd (add_node sub n g))"
| add_edge: "reachable_graph g \<Longrightarrow> reachable_graph (snd (add_edge sub e g))"
| remove_edge: "reachable_graph g \<Longrightarrow> reachable_graph (snd (remove_edge eid g))"
| remove_node: "reachable_graph g \<Longrightarrow> lists_sets it \<Longrightarrow> reachable_graph (snd (remove_node it nid g))"

lemma snd_cases: "(case r of (Inr x, g') \<Rightarrow> P g' \<and> A x g' | (Inl e, g') \<Rightarrow> g' = g \<and> B e) \<Longrightarrow> P g \<Longrightarrow> P (snd r)"
  by (auto split: prod.splits sum.splits)

lemma reachable_graph_ok: "reachable_graph g \<Longrightarrow> graph_ok g"
proof (induction rule: reachable_graph.induct)
  case (start ns es g)
  then show ?case using new_graph_ok [of ns es] by (metis sum.inject(2))
next
  case (add_node g sub n)
  from snd_cases [OF add_node_ok [OF add_node.IH] add_node.IH] show ?case .
next
  case (add_edge g sub e)
  from snd_cases [OF add_edge_ok [OF add_edge.IH] add_edge.IH] show ?case .
next
  case (remove_edge g eid)
  from snd_cases [OF remove_edge_ok [OF remove_edge.IH] remove_edge.IH] show ?case .
next
  case (remove_node g it nid)
  from snd_cases [OF remove_node_ok [OF remove_node.IH remove_node.hyps(2)] remove_node.IH] show ?case .
qed

end
