(* ===== verification/Graph_Acyclic.thy ===== *)
theory Graph_Acyclic
  imports Graph_Invariant
begin

text \<open>
  The three-colour depth-first search of \<open>Graph.is_acyclic\<close> decides acyclicity, on every well-formed graph and for every iteration order
  of the sets of edges, within the fuel it is given.
\<close>

definition arcs :: "'n digraph \<Rightarrow> (uuid \<times> uuid) set" where
  "arcs g = {(ed_head e, ed_tail e) |e. \<exists>eid. edge_of g eid = Some e}"

text \<open>Black nodes are finished: their successors are black too, and they are on no cycle.\<close>

definition dfs_ok :: "'n digraph \<Rightarrow> coloring \<Rightarrow> bool" where
  "dfs_ok g c \<longleftrightarrow>
     dom c = node_ids g \<and>
     (\<forall>b. c b = Some BLACK \<longrightarrow> (b, b) \<notin> (arcs g)\<^sup>+ \<and> (\<forall>x. (b, x) \<in> arcs g \<longrightarrow> c x = Some BLACK))"

definition dfs_after :: "coloring \<Rightarrow> coloring \<Rightarrow> bool" where
  "dfs_after c c' \<longleftrightarrow>
     (\<forall>m. c m = Some BLACK \<longrightarrow> c' m = Some BLACK) \<and> (\<forall>m. c' m = Some GRAY \<longleftrightarrow> c m = Some GRAY)"

definition white :: "coloring \<Rightarrow> uuid set" where
  "white c = {n. c n = Some WHITE}"

text \<open>What a search from a node promises, and one through a list of edges that leave a gray node.\<close>

definition search_result :: "'n digraph \<Rightarrow> coloring \<Rightarrow> uuid set \<Rightarrow> (graph_error, bool \<times> coloring) result \<Rightarrow> bool" where
  "search_result g c targets r \<longleftrightarrow>
     (case r of
        Inl _ \<Rightarrow> False
      | Inr (False, _) \<Rightarrow> \<not> acyclic (arcs g)
      | Inr (True, c') \<Rightarrow> dfs_ok g c' \<and> dfs_after c c' \<and> (\<forall>t\<in>targets. c' t = Some BLACK))"

lemma finite_node_ids [simp]: "finite (node_ids g)"
  by (simp add: node_ids_def node_of_def [abs_def] finite_dom_map_of)

lemma arcs_nodes: "graph_ok g \<Longrightarrow> (u, v) \<in> arcs g \<Longrightarrow> u \<in> node_ids g \<and> v \<in> node_ids g"
  by (auto simp: arcs_def graph_ok_def)

lemma trancl_closed: "(x, y) \<in> r\<^sup>* \<Longrightarrow> x \<in> B \<Longrightarrow> (\<And>b z. b \<in> B \<Longrightarrow> (b, z) \<in> r \<Longrightarrow> z \<in> B) \<Longrightarrow> y \<in> B"
  by (induction rule: rtrancl_induct) auto

lemma not_black_cycle:
  assumes "dfs_ok g c" "\<And>x. (n, x) \<in> arcs g \<Longrightarrow> c x = Some BLACK" "c n \<noteq> Some BLACK"
  shows "(n, n) \<notin> (arcs g)\<^sup>+"
proof
  assume "(n, n) \<in> (arcs g)\<^sup>+"
  then obtain s where s: "(n, s) \<in> arcs g" "(s, n) \<in> (arcs g)\<^sup>*" by (meson tranclD)
  have "n \<in> {b. c b = Some BLACK}"
    by (rule trancl_closed [OF s(2)]) (use assms(1,2) s(1) in \<open>auto simp: dfs_ok_def\<close>)
  then show False using assms(3) by simp
qed

lemma blacken:
  assumes "dfs_ok g c" "\<And>x. (n, x) \<in> arcs g \<Longrightarrow> c x = Some BLACK" "c n = Some GRAY"
  shows "dfs_ok g (c(n \<mapsto> BLACK))"
  using assms not_black_cycle [OF assms(1,2)] by (fastforce simp: dfs_ok_def)

lemma grayen: "dfs_ok g c \<Longrightarrow> c n = Some WHITE \<Longrightarrow> dfs_ok g (c(n \<mapsto> GRAY))"
  by (fastforce simp: dfs_ok_def)

lemma dfs_after_trans: "dfs_after c c1 \<Longrightarrow> dfs_after c1 c2 \<Longrightarrow> dfs_after c c2"
  by (simp add: dfs_after_def)

lemma white_after:
  assumes "dfs_ok g c" "dfs_ok g c'" "dfs_after c c'"
  shows "white c' \<subseteq> white c"
proof
  fix n assume n: "n \<in> white c'"
  then have "n \<in> dom c" using assms(1,2) by (auto simp: dfs_ok_def white_def)
  then obtain k where "c n = Some k" by auto
  moreover have "c' n = Some GRAY \<longleftrightarrow> c n = Some GRAY" "c n = Some BLACK \<longrightarrow> c' n = Some BLACK"
    using assms(3) by (simp_all add: dfs_after_def)
  ultimately show "n \<in> white c" using n by (cases k) (auto simp: white_def)
qed

lemma finite_white: "dfs_ok g c \<Longrightarrow> finite (white c)"
  by (rule finite_subset [of _ "node_ids g"]) (auto simp: dfs_ok_def white_def)

lemma white_grayen: "dfs_ok g c \<Longrightarrow> c n = Some WHITE \<Longrightarrow> Suc (card (white (c(n \<mapsto> GRAY)))) = card (white c)"
proof -
  assume a: "dfs_ok g c" "c n = Some WHITE"
  have "white (c(n \<mapsto> GRAY)) = white c - {n}" "n \<in> white c" using a(2) by (auto simp: white_def)
  then show ?thesis using card_Suc_Diff1 [OF finite_white [OF a(1)]] by simp
qed

lemma search_result_step:
  assumes "search_result g c {t} (Inr (True, c1))" "search_result g c1 ts r"
  shows "search_result g c (insert t ts) r"
  using assms by (auto simp: search_result_def dfs_after_def split: sum.splits prod.splits bool.splits)

lemma dfs_node_result:
  assumes "graph_ok g" "lists_sets it" "dfs_ok g c" "c n = Some WHITE"
    "search_result g (c(n \<mapsto> GRAY)) {ed_tail x |x. \<exists>eid\<in>edges_at ed_head g n. edge_of g eid = Some x}
       (dfs_edges fuel it g (it (edges_at ed_head g n)) (c(n \<mapsto> GRAY)))"
  shows "search_result g c {n} (dfs_node (Suc fuel) it g n c)"
proof -
  let ?r = "dfs_edges fuel it g (it (edges_at ed_head g n)) (c(n \<mapsto> GRAY))"
  have "n \<in> node_ids g" using assms(3,4) by (auto simp: dfs_ok_def)
  then have out: "map_of (gh_out g) n = Some (edges_at ed_head g n)"
    using assms(1) by (intro adj_lookup) (auto simp: graph_ok_def)
  consider c1 where "?r = Inr (False, c1)" "\<not> acyclic (arcs g)"
    | c1 where "?r = Inr (True, c1)" "dfs_ok g c1" "dfs_after (c(n \<mapsto> GRAY)) c1" "\<And>x. (n, x) \<in> arcs g \<Longrightarrow> c1 x = Some BLACK"
    using assms(5) unfolding search_result_def by (fastforce simp: arcs_def edges_at_def split: sum.splits prod.splits bool.splits)
  then show ?thesis
  proof cases
    case 1
    then show ?thesis by (simp add: out bind_r_def search_result_def)
  next
    case 2
    have gray: "c1 n = Some GRAY" using 2(3) by (simp add: dfs_after_def)
    have "dfs_after c (c1(n \<mapsto> BLACK))" using 2(3) assms(4) by (auto simp: dfs_after_def)
    then show ?thesis using 2 blacken [OF 2(2,4) gray] by (simp add: out bind_r_def search_result_def)
  qed
qed

lemma dfs_edges_result:
  assumes "edge_of g e = Some ed" "dfs_ok g c" "ed_tail ed \<in> node_ids g" "ed_head ed = u"
    "\<forall>m. c m = Some GRAY \<longrightarrow> (m, u) \<in> (arcs g)\<^sup>*"
    "c (ed_tail ed) = Some WHITE \<Longrightarrow> search_result g c {ed_tail ed} (dfs_node fuel it g (ed_tail ed) c)"
    "\<And>c1. search_result g c {ed_tail ed} (Inr (True, c1)) \<Longrightarrow> search_result g c1 ts (dfs_edges fuel it g es c1)"
  shows "search_result g c (insert (ed_tail ed) ts) (dfs_edges fuel it g (e # es) c)"
proof -
  have "ed_tail ed \<in> dom c" using assms(2,3) by (simp add: dfs_ok_def)
  then obtain k where k: "c (ed_tail ed) = Some k" by auto
  have arc: "(u, ed_tail ed) \<in> arcs g" using assms(1,4) by (auto simp: arcs_def)
  show ?thesis
  proof (cases k)
    case GRAY
    then have "(ed_tail ed, ed_tail ed) \<in> (arcs g)\<^sup>+" using k assms(5) arc by (meson rtrancl_into_trancl1)
    then show ?thesis using k GRAY assms(1) by (auto simp: search_result_def acyclic_def)
  next
    case BLACK
    then have "search_result g c {ed_tail ed} (Inr (True, c))" using k assms(2) by (simp add: search_result_def dfs_after_def)
    from search_result_step [OF this assms(7) [OF this]] show ?thesis using k BLACK assms(1) by simp
  next
    case WHITE
    note r = assms(6) [OF k [unfolded WHITE]]
    consider c1 where "dfs_node fuel it g (ed_tail ed) c = Inr (False, c1)" "\<not> acyclic (arcs g)"
      | c1 where "dfs_node fuel it g (ed_tail ed) c = Inr (True, c1)"
      using r unfolding search_result_def by (fastforce split: sum.splits prod.splits bool.splits)
    then show ?thesis
    proof cases
      case 1
      then show ?thesis using k WHITE assms(1) by (simp add: bind_r_def search_result_def)
    next
      case 2
      note r1 = r [unfolded 2]
      from search_result_step [OF r1 assms(7) [OF r1]] show ?thesis using k WHITE assms(1) 2 by (simp add: bind_r_def)
    qed
  qed
qed

definition node_search :: "nat \<Rightarrow> (uuid set \<Rightarrow> uuid list) \<Rightarrow> 'n digraph \<Rightarrow> bool" where
  "node_search fuel it g \<longleftrightarrow>
     (\<forall>c n. dfs_ok g c \<and> c n = Some WHITE \<and> card (white c) \<le> fuel \<and> (\<forall>m. c m = Some GRAY \<longrightarrow> (m, n) \<in> (arcs g)\<^sup>+) \<longrightarrow>
        search_result g c {n} (dfs_node fuel it g n c))"

lemma dfs_edges_search:
  assumes "graph_ok g" "node_search fuel it g"
    "dfs_ok g c" "card (white c) \<le> fuel" "\<forall>m. c m = Some GRAY \<longrightarrow> (m, u) \<in> (arcs g)\<^sup>*" "set es \<subseteq> edges_at ed_head g u"
  shows "search_result g c {ed_tail x |x. \<exists>eid\<in>set es. edge_of g eid = Some x} (dfs_edges fuel it g es c)"
  using assms(3-)
proof (induction es arbitrary: c)
  case Nil
  then show ?case by (simp add: search_result_def dfs_after_def)
next
  case (Cons e es)
  obtain ed where ed: "edge_of g e = Some ed" "ed_head ed = u" using Cons.prems(4) by (auto simp: edges_at_def)
  have tail: "ed_tail ed \<in> node_ids g" using assms(1) ed(1) by (auto simp: graph_ok_def)
  have arc: "(u, ed_tail ed) \<in> arcs g" using ed by (auto simp: arcs_def)
  have "search_result g c (insert (ed_tail ed) {ed_tail x |x. \<exists>eid\<in>set es. edge_of g eid = Some x}) (dfs_edges fuel it g (e # es) c)"
  proof (rule dfs_edges_result [OF ed(1) Cons.prems(1) tail ed(2) Cons.prems(3)])
    assume "c (ed_tail ed) = Some WHITE"
    moreover have "\<forall>m. c m = Some GRAY \<longrightarrow> (m, ed_tail ed) \<in> (arcs g)\<^sup>+"
      using Cons.prems(3) arc by (meson rtrancl_into_trancl1)
    ultimately show "search_result g c {ed_tail ed} (dfs_node fuel it g (ed_tail ed) c)"
      using assms(2) Cons.prems(1,2) by (simp add: node_search_def)
  next
    fix c1 assume c1: "search_result g c {ed_tail ed} (Inr (True, c1))"
    then have "dfs_ok g c1" "dfs_after c c1" by (simp_all add: search_result_def)
    moreover from this have "card (white c1) \<le> fuel"
      using card_mono [OF finite_white [OF Cons.prems(1)] white_after [OF Cons.prems(1)]] Cons.prems(2) by fastforce
    ultimately show "search_result g c1 {ed_tail x |x. \<exists>eid\<in>set es. edge_of g eid = Some x} (dfs_edges fuel it g es c1)"
      using Cons.prems(3,4) by (intro Cons.IH) (auto simp: dfs_after_def)
  qed
  moreover have "{ed_tail x |x. \<exists>eid\<in>set (e # es). edge_of g eid = Some x} =
    insert (ed_tail ed) {ed_tail x |x. \<exists>eid\<in>set es. edge_of g eid = Some x}" using ed(1) by auto
  ultimately show ?case by simp
qed

lemma dfs_node_search:
  assumes "graph_ok g" "lists_sets it"
  shows "node_search fuel it g"
proof (induction fuel)
  case 0
  show ?case using finite_white by (force simp: node_search_def white_def)
next
  case (Suc fuel)
  show ?case unfolding node_search_def
  proof (intro allI impI, elim conjE)
    fix c n
    assume c: "dfs_ok g c" "c n = Some WHITE" "card (white c) \<le> Suc fuel" "\<forall>m. c m = Some GRAY \<longrightarrow> (m, n) \<in> (arcs g)\<^sup>+"
    have es: "set (it (edges_at ed_head g n)) = edges_at ed_head g n" using assms(2) by (simp add: lists_sets_def)
    have "search_result g (c(n \<mapsto> GRAY)) {ed_tail x |x. \<exists>eid\<in>set (it (edges_at ed_head g n)). edge_of g eid = Some x}
       (dfs_edges fuel it g (it (edges_at ed_head g n)) (c(n \<mapsto> GRAY)))"
      using white_grayen [OF c(1,2)] c(3,4)
      by (intro dfs_edges_search [where u = n] assms(1) Suc.IH grayen c(1,2)) (auto simp: es trancl_into_rtrancl)
    then show "search_result g c {n} (dfs_node (Suc fuel) it g n c)"
      unfolding es by (rule dfs_node_result [OF assms c(1,2)])
  qed
qed

lemma dfs_all_decides:
  assumes "graph_ok g" "lists_sets it" "dfs_ok g c" "card (white c) \<le> fuel" "\<forall>m. c m \<noteq> Some GRAY" "white c \<subseteq> set ns"
  shows "dfs_all fuel it g ns c = Inr (acyclic (arcs g))"
  using assms(3-)
proof (induction ns arbitrary: c)
  case Nil
  have black: "c m = Some BLACK" if "m \<in> node_ids g" for m
  proof -
    have "m \<in> dom c" using that Nil.prems(1) by (simp add: dfs_ok_def)
    then obtain k where "c m = Some k" by auto
    then show ?thesis using Nil.prems(3,4) by (cases k) (auto simp: white_def)
  qed
  have "(m, m) \<notin> (arcs g)\<^sup>+" for m
  proof
    assume cycle: "(m, m) \<in> (arcs g)\<^sup>+"
    then obtain x where "(m, x) \<in> arcs g" by (meson tranclD)
    then have "c m = Some BLACK" using arcs_nodes [OF assms(1)] black by blast
    then show False using cycle Nil.prems(1) by (auto simp: dfs_ok_def)
  qed
  then show ?case by (auto simp: acyclic_def)
next
  case (Cons n ns)
  show ?case
  proof (cases "c n = Some WHITE")
    case False
    then show ?thesis using Cons by (auto simp: white_def)
  next
    case True
    then have r: "search_result g c {n} (dfs_node fuel it g n c)"
      using dfs_node_search [OF assms(1,2), of fuel] Cons.prems unfolding node_search_def by blast
    then consider c1 where "dfs_node fuel it g n c = Inr (False, c1)" "\<not> acyclic (arcs g)"
      | c1 where "dfs_node fuel it g n c = Inr (True, c1)" "dfs_ok g c1" "dfs_after c c1" "c1 n = Some BLACK"
      unfolding search_result_def by (fastforce split: sum.splits prod.splits bool.splits)
    then show ?thesis
    proof cases
      case 2
      have w: "white c1 \<subseteq> white c" by (rule white_after [OF Cons.prems(1) 2(2,3)])
      have "card (white c1) \<le> fuel" using card_mono [OF finite_white [OF Cons.prems(1)] w] Cons.prems(2) by simp
      moreover have "white c1 \<subseteq> set ns" using w Cons.prems(4) 2(4) by (auto simp: white_def)
      moreover have "\<forall>m. c1 m \<noteq> Some GRAY" using Cons.prems(3) 2(3) by (simp add: dfs_after_def)
      ultimately show ?thesis using Cons.IH [OF 2(2)] True 2(1) by (simp add: bind_r_def)
    qed (simp add: True bind_r_def)
  qed
qed

lemma pile_keys_ok: "graph_ok g \<Longrightarrow> set (pile_keys (gh_nodes g)) = node_ids g \<and> distinct (pile_keys (gh_nodes g))"
  by (auto simp: graph_ok_def pile_ok_def pile_keys_def node_ids_def node_of_def)

lemma is_acyclic_decides:
  assumes "graph_ok g" "lists_sets it"
  shows "is_acyclic it g = Inr (acyclic (arcs g))"
proof -
  let ?ns = "pile_keys (gh_nodes g)"
  let ?c = "\<lambda>n. if n \<in> set ?ns then Some WHITE else None"
  have ns: "set ?ns = node_ids g" "distinct ?ns" using pile_keys_ok [OF assms(1)] by auto
  have "white ?c = set ?ns" by (auto simp: white_def)
  moreover have "dfs_ok g ?c" by (auto simp: dfs_ok_def ns(1) split: if_splits)
  ultimately show ?thesis
    unfolding is_acyclic_def Let_def using distinct_card [OF ns(2)] by (intro dfs_all_decides assms) auto
qed

end
