(* ===== verification/Graph_Sort.thy ===== *)
theory Graph_Sort
  imports Graph_Acyclic
begin

text \<open>
  \<open>Graph.topological_sort\<close> (Kahn's algorithm over edges): on an acyclic graph it lists every node once, the head of each edge before its
  tail, whatever the iteration order of the sets of edges.
\<close>

section \<open>Releasing the edges of a node\<close>

text \<open>\<open>P\<close> are the edges already counted off, \<open>S\<close> the nodes that have entered the queue.\<close>

definition counted :: "'n digraph \<Rightarrow> uuid set \<Rightarrow> in_degrees \<Rightarrow> uuid set \<Rightarrow> bool" where
  "counted g P deg S \<longleftrightarrow>
     S \<subseteq> node_ids g \<and>
     (\<forall>n\<in>node_ids g. deg n = Some (int (card (edges_at ed_tail g n - P))) \<and> (n \<in> S \<longleftrightarrow> edges_at ed_tail g n \<subseteq> P))"

lemma card_count_off:
  assumes "e \<in> A" "e \<notin> P" "finite A"
  shows "int (card (A - P)) - 1 = int (card (A - insert e P))" "int (card (A - P)) - 1 = 0 \<longleftrightarrow> A \<subseteq> insert e P"
proof -
  have "A - insert e P = A - P - {e}" by auto
  moreover have "e \<in> A - P" "finite (A - P)" using assms by auto
  ultimately have c: "Suc (card (A - insert e P)) = card (A - P)" using card_Suc_Diff1 by metis
  then show "int (card (A - P)) - 1 = int (card (A - insert e P))" by simp
  have "int (card (A - P)) - 1 = 0 \<longleftrightarrow> card (A - insert e P) = 0" using c by linarith
  also have "\<dots> \<longleftrightarrow> A - insert e P = {}" using assms(3) by (intro card_0_eq) simp
  finally show "int (card (A - P)) - 1 = 0 \<longleftrightarrow> A \<subseteq> insert e P" by blast
qed

lemma count_off:
  assumes "graph_ok g" "counted g P deg S" "edge_of g e = Some ed" "e \<notin> P" "deg (ed_tail ed) = Some d"
  shows "ed_tail ed \<notin> S" "ed_tail ed \<in> node_ids g"
    "counted g (insert e P) (deg(ed_tail ed \<mapsto> d - 1)) (if d - 1 = 0 then insert (ed_tail ed) S else S)"
proof -
  let ?t = "ed_tail ed" and ?A = "edges_at ed_tail g (ed_tail ed)"
  show t: "?t \<in> node_ids g" using assms(1,3) by (auto simp: graph_ok_def)
  have e: "e \<in> ?A" using assms(3) by (simp add: edges_at_def)
  show S: "?t \<notin> S" using assms(2,4) t e by (auto simp: counted_def)
  have d: "d = int (card (?A - P))" using assms(2,5) t by (simp add: counted_def)
  have other: "edges_at ed_tail g n - insert e P = edges_at ed_tail g n - P" "edges_at ed_tail g n \<subseteq> insert e P \<longleftrightarrow> edges_at ed_tail g n \<subseteq> P"
    if "n \<noteq> ?t" for n using that assms(3) by (auto simp: edges_at_def)
  show "counted g (insert e P) (deg(?t \<mapsto> d - 1)) (if d - 1 = 0 then insert ?t S else S)"
    using assms(2) t S card_count_off [OF e assms(4) finite_edges_at] other unfolding counted_def d by auto
qed

lemma release_counts:
  assumes "graph_ok g" "counted g P deg (R \<union> set queue)" "distinct queue" "R \<inter> set queue = {}"
    "distinct es" "set es \<inter> P = {}" "set es \<subseteq> dom (edge_of g)"
  shows "\<exists>deg' more. release g es (deg, queue) = Inr (deg', queue @ more) \<and> counted g (P \<union> set es) deg' (R \<union> set (queue @ more)) \<and>
    distinct (queue @ more) \<and> R \<inter> set (queue @ more) = {}"
  using assms(2-)
proof (induction es arbitrary: deg queue P)
  case Nil
  then show ?case by (intro exI [of _ deg] exI [of _ "[]"]) simp
next
  case (Cons e es)
  obtain ed where ed: "edge_of g e = Some ed" using Cons.prems(6) by auto
  have P: "e \<notin> P" using Cons.prems(5) by simp
  have "ed_tail ed \<in> node_ids g" using assms(1) ed by (auto simp: graph_ok_def)
  then obtain d where d: "deg (ed_tail ed) = Some d" using Cons.prems(1) by (auto simp: counted_def)
  note off = count_off [OF assms(1) Cons.prems(1) ed P d]
  define more1 where "more1 = (if d - 1 = 0 then [ed_tail ed] else [])"
  have c: "counted g (insert e P) (deg(ed_tail ed \<mapsto> d - 1)) (R \<union> set (queue @ more1))"
    using off(3) by (simp add: more1_def split: if_splits)
  have q: "distinct (queue @ more1)" "R \<inter> set (queue @ more1) = {}" using Cons.prems(2,3) off(1) by (auto simp: more1_def)
  have es: "distinct es" "set es \<inter> insert e P = {}" "set es \<subseteq> dom (edge_of g)" using Cons.prems(4-6) by auto
  obtain deg' more where "release g es (deg(ed_tail ed \<mapsto> d - 1), queue @ more1) = Inr (deg', (queue @ more1) @ more)"
    "counted g (insert e P \<union> set es) deg' (R \<union> set ((queue @ more1) @ more))" "distinct ((queue @ more1) @ more)"
    "R \<inter> set ((queue @ more1) @ more) = {}"
    using Cons.IH [OF c q es] by (elim exE conjE)
  note r = this
  have "release g (e # es) (deg, queue) = release g es (deg(ed_tail ed \<mapsto> d - 1), queue @ more1)"
    using ed d by (simp add: more1_def)
  moreover have "P \<union> set (e # es) = insert e P \<union> set es" by simp
  ultimately show ?case using r by (intro exI [of _ deg'] exI [of _ "more1 @ more"]) (simp only: append_assoc simp_thms)
qed

section \<open>The loop\<close>

text \<open>The edges that leave the nodes of a set.\<close>

definition edges_from :: "'n digraph \<Rightarrow> uuid set \<Rightarrow> uuid set" where
  "edges_from g R = {e. \<exists>ed. edge_of g e = Some ed \<and> ed_head ed \<in> R}"

text \<open>Every node of the list stands after the heads of the edges that enter it.\<close>

fun heads_first :: "(uuid \<times> uuid) set \<Rightarrow> uuid list \<Rightarrow> bool" where
  "heads_first r [] = True"
| "heads_first r (n # ns) \<longleftrightarrow> heads_first r ns \<and> (\<forall>m. (m, n) \<in> r \<longrightarrow> m \<in> set ns)"

lemma edges_from_insert: "edges_from g (insert n R) = edges_from g R \<union> edges_at ed_head g n"
  by (auto simp: edges_from_def edges_at_def)

text \<open>The state of the loop: the listed nodes \<open>acc\<close> and the nodes waiting in the queue.\<close>

definition sorting :: "'n digraph \<Rightarrow> uuid list \<Rightarrow> in_degrees \<Rightarrow> 'n element_scheme list \<Rightarrow> bool" where
  "sorting g queue deg acc \<longleftrightarrow>
     counted g (edges_from g (el_id ` set acc)) deg (el_id ` set acc \<union> set queue) \<and> distinct (map el_id acc @ queue) \<and>
     heads_first (arcs g) (rev (map el_id acc)) \<and> (\<forall>x\<in>set acc. node_of g (el_id x) = Some x)"

lemma sorting_end:
  assumes "graph_ok g" "acyclic (arcs g)" "sorting g [] deg acc"
  shows "el_id ` set acc = node_ids g"
proof (rule ccontr)
  assume "el_id ` set acc \<noteq> node_ids g"
  moreover have sub: "el_id ` set acc \<subseteq> node_ids g" using assms(3) by (auto simp: sorting_def counted_def)
  ultimately obtain n where n: "n \<in> node_ids g - el_id ` set acc" by auto
  have "arcs g \<subseteq> node_ids g \<times> node_ids g" using arcs_nodes [OF assms(1)] by auto
  then have "finite (arcs g)" by (rule finite_subset) simp
  then have "wf (arcs g)" using assms(2) by (rule finite_acyclic_wf)
  then obtain m where m: "m \<in> node_ids g - el_id ` set acc" "\<And>k. (k, m) \<in> arcs g \<Longrightarrow> k \<notin> node_ids g - el_id ` set acc"
    using n by (rule wfE_min) blast
  have "\<not> edges_at ed_tail g m \<subseteq> edges_from g (el_id ` set acc)" using assms(3) m(1) by (auto simp: sorting_def counted_def)
  then obtain ed e where "edge_of g e = Some ed" "ed_tail ed = m" "ed_head ed \<notin> el_id ` set acc"
    unfolding edges_at_def edges_from_def by blast
  moreover from this have "(ed_head ed, m) \<in> arcs g" by (auto simp: arcs_def)
  ultimately show False using m(2) arcs_nodes [OF assms(1)] by blast
qed

lemma sorting_step:
  assumes "graph_ok g" "lists_sets it" "sorting g (n # queue) deg acc"
  shows "\<exists>x deg' queue'. node_of g n = Some x \<and> map_of (gh_out g) n = Some (edges_at ed_head g n) \<and>
    release g (it (edges_at ed_head g n)) (deg, queue) = Inr (deg', queue') \<and> sorting g queue' deg' (acc @ [x])"
proof -
  let ?R = "el_id ` set acc" and ?es = "it (edges_at ed_head g n)"
  have st: "counted g (edges_from g ?R) deg (?R \<union> set (n # queue))" "distinct (map el_id acc @ n # queue)"
    "heads_first (arcs g) (rev (map el_id acc))" "\<forall>x\<in>set acc. node_of g (el_id x) = Some x"
    using assms(3) by (simp_all add: sorting_def)
  have n: "n \<in> node_ids g" "edges_at ed_tail g n \<subseteq> edges_from g ?R" using st(1) by (auto simp: counted_def)
  then obtain x where x: "node_of g n = Some x" by (auto simp: node_ids_def)
  have nx: "el_id x = n" using assms(1) x by (auto simp: graph_ok_def pile_ok_def node_of_def)
  have out: "map_of (gh_out g) n = Some (edges_at ed_head g n)"
    using assms(1) n(1) by (intro adj_lookup) (auto simp: graph_ok_def)
  have es: "set ?es = edges_at ed_head g n" "distinct ?es" using assms(2) by (simp_all add: lists_sets_def)
  have new: "n \<notin> ?R" "insert n ?R \<inter> set queue = {}" "distinct queue" using st(2) by auto
  have "set ?es \<inter> edges_from g ?R = {}" using new(1) unfolding es by (auto simp: edges_at_def edges_from_def)
  moreover have "set ?es \<subseteq> dom (edge_of g)" unfolding es by (auto simp: edges_at_def)
  moreover have "counted g (edges_from g ?R) deg (insert n ?R \<union> set queue)" using st(1) by simp
  ultimately obtain deg' more where r: "release g ?es (deg, queue) = Inr (deg', queue @ more)"
    "counted g (edges_from g ?R \<union> set ?es) deg' (insert n ?R \<union> set (queue @ more))"
    "distinct (queue @ more)" "insert n ?R \<inter> set (queue @ more) = {}"
    using release_counts [OF assms(1) _ new(3,2) es(2)] by blast
  have "m \<in> ?R" if "(m, n) \<in> arcs g" for m using that n(2) unfolding arcs_def edges_at_def edges_from_def by fastforce
  then have "heads_first (arcs g) (rev (map el_id (acc @ [x])))" using st(3) nx by simp
  then have "sorting g (queue @ more) deg' (acc @ [x])"
    using r(2-4) st(2,4) x nx by (auto simp: sorting_def edges_from_insert es(1))
  with x out r(1) show ?thesis by blast
qed

lemma sort_loop_orders:
  assumes "graph_ok g" "lists_sets it" "sorting g queue deg acc" "card (node_ids g) \<le> fuel + length acc"
  shows "\<exists>xs deg'. sort_loop fuel it g queue deg acc = Inr xs \<and> sorting g [] deg' xs"
  using assms(3-)
proof (induction fuel arbitrary: queue deg acc)
  case (0 queue)
  have "queue = []"
  proof (rule ccontr)
    assume ne: "queue \<noteq> []"
    have "set (map el_id acc @ queue) \<subseteq> node_ids g" "distinct (map el_id acc @ queue)" using 0(1) by (auto simp: sorting_def counted_def)
    then have "length (map el_id acc @ queue) \<le> card (node_ids g)" using distinct_card card_mono finite_node_ids by metis
    then show False using ne 0(2) by (cases queue) simp_all
  qed
  then show ?case using 0(1) by auto
next
  case (Suc fuel)
  show ?case
  proof (cases queue)
    case Nil
    then show ?thesis using Suc.prems(1) by auto
  next
    case (Cons n rest)
    obtain x deg' queue' where s: "node_of g n = Some x" "map_of (gh_out g) n = Some (edges_at ed_head g n)"
      "release g (it (edges_at ed_head g n)) (deg, rest) = Inr (deg', queue')" "sorting g queue' deg' (acc @ [x])"
      using sorting_step [OF assms(1,2) Suc.prems(1) [unfolded Cons]] by blast
    have "card (node_ids g) \<le> fuel + length (acc @ [x])" using Suc.prems(2) by simp
    from Suc.IH [OF s(4) this] show ?thesis using s(1-3) Cons by (simp add: bind_r_def)
  qed
qed

lemma sorting_start:
  assumes "graph_ok g"
  shows "sorting g (map fst (filter (\<lambda>e. card (snd e) = 0) (gh_in g))) (map_of (map (\<lambda>e. (fst e, int (card (snd e)))) (gh_in g))) []"
proof -
  let ?q = "map fst (filter (\<lambda>e. card (snd e) = 0) (gh_in g))"
  have d: "distinct (map fst (gh_in g))" and lk: "\<And>n. map_of (gh_in g) n = (if n \<in> node_ids g then Some (edges_at ed_tail g n) else None)"
    using assms by (auto simp: graph_ok_def adj_ok_def)
  have deg: "map_of (map (\<lambda>e. (fst e, int (card (snd e)))) d) n = map_option (\<lambda>s. int (card s)) (map_of d n)" for d n
    by (induction d) auto
  moreover have "n \<in> set ?q \<longleftrightarrow> n \<in> node_ids g \<and> edges_at ed_tail g n = {}" for n
  proof -
    have "n \<in> set ?q \<longleftrightarrow> (\<exists>s. map_of (gh_in g) n = Some s \<and> card s = 0)" using d by (force simp: image_iff)
    then show ?thesis by (simp add: lk)
  qed
  moreover have "distinct ?q" using d by (rule distinct_map_filter)
  ultimately show ?thesis by (auto simp: sorting_def counted_def edges_from_def deg lk)
qed

lemma graph_topological_sort_orders:
  assumes "graph_ok g" "lists_sets it" "acyclic (arcs g)"
  obtains xs where "graph_topological_sort it g = Inr xs" "distinct (map el_id xs)" "el_id ` set xs = node_ids g"
    "heads_first (arcs g) (rev (map el_id xs))" "\<forall>x\<in>set xs. node_of g (el_id x) = Some x"
proof -
  have "card (node_ids g) \<le> length (pile_keys (gh_nodes g)) + length ([] :: 'a element_scheme list)"
    using pile_keys_ok [OF assms(1)] by (metis add.right_neutral distinct_card le_refl list.size(3))
  from sort_loop_orders [OF assms(1,2) sorting_start [OF assms(1)] this] obtain xs deg' where
    xs: "graph_topological_sort it g = Inr xs" "sorting g [] deg' xs"
    using assms(3) by (auto simp: graph_topological_sort_def is_acyclic_decides [OF assms(1,2)] bind_r_def)
  with sorting_end [OF assms(1,3) xs(2)] show thesis by (intro that) (auto simp: sorting_def)
qed

end
