(* ===== verification/Graph_Path.thy ===== *)
theory Graph_Path
  imports Graph_Acyclic
begin

text \<open>
  \<open>Graph.find_path\<close>: the breadth-first search ends, and returns a path of traversable edges from the start to the end exactly when there
  is one.
\<close>

section \<open>Paths\<close>

fun edge_path :: "'n digraph \<Rightarrow> (edge \<Rightarrow> bool) \<Rightarrow> uuid \<Rightarrow> edge list \<Rightarrow> uuid \<Rightarrow> bool" where
  "edge_path g ok u [] v \<longleftrightarrow> u = v"
| "edge_path g ok u (e # es) v \<longleftrightarrow> edge_of g (el_id e) = Some e \<and> ok e \<and> ed_head e = u \<and> edge_path g ok (ed_tail e) es v"

lemma edge_path_append: "edge_path g ok u (es @ es') v \<longleftrightarrow> (\<exists>w. edge_path g ok u es w \<and> edge_path g ok w es' v)"
  by (induction es arbitrary: u) auto

section \<open>The tree of parents\<close>

text \<open>The nodes in the order in which they were found, the last first: each has a parent that was found before it, save the start.\<close>

fun found :: "'n digraph \<Rightarrow> (edge \<Rightarrow> bool) \<Rightarrow> uuid \<Rightarrow> parents \<Rightarrow> uuid list \<Rightarrow> bool" where
  "found g ok start parent [] \<longleftrightarrow> False"
| "found g ok start parent (v # vs) \<longleftrightarrow>
     (if vs = [] then v = start \<and> parent v = None
      else v \<notin> set vs \<and> found g ok start parent vs \<and>
        (\<exists>u e ed. parent v = Some (u, e) \<and> u \<in> set vs \<and> edge_of g e = Some ed \<and> el_id ed = e \<and> ok ed \<and> ed_head ed = u \<and> ed_tail ed = v))"

lemma found_frame: "found g ok s p vs \<Longrightarrow> n \<notin> set vs \<Longrightarrow> found g ok s (p(n \<mapsto> x)) vs"
  by (induction vs) auto

lemma found_distinct: "found g ok s p vs \<Longrightarrow> distinct vs"
  by (induction vs) (auto split: if_splits)

lemma found_start: "found g ok s p vs \<Longrightarrow> s \<in> set vs"
  by (induction vs) (auto split: if_splits)

lemma backtrack_path:
  assumes "found g ok s p vs" "v \<in> set vs" "length vs \<le> Suc fuel"
  shows "\<exists>path. backtrack fuel g p v acc = Inr (path @ acc) \<and> edge_path g ok s path v"
  using assms
proof (induction vs arbitrary: v fuel acc)
  case (Cons w vs)
  show ?case
  proof (cases "vs = [] \<or> v \<noteq> w")
    case True
    then show ?thesis
    proof (cases "vs = []")
      case True
      then have "v = s" "p v = None" using Cons.prems by auto
      then show ?thesis by (cases fuel) auto
    next
      case False
      then show ?thesis using True Cons.prems by (intro Cons.IH) auto
    qed
  next
    case False
    then obtain u e ed where p: "p v = Some (u, e)" "u \<in> set vs" "edge_of g e = Some ed" "el_id ed = e" "ok ed" "ed_head ed = u" "ed_tail ed = v"
      and vs: "found g ok s p vs" using Cons.prems(1) by auto
    obtain fuel' where fuel: "fuel = Suc fuel'" "length vs \<le> Suc fuel'" using False Cons.prems(3) by (cases fuel) auto
    from Cons.IH [OF vs p(2) fuel(2), of "ed # acc"] obtain path where
      "backtrack fuel' g p u (ed # acc) = Inr (path @ ed # acc)" "edge_path g ok s path u" by blast
    then show ?thesis using p fuel(1) by (intro exI [of _ "path @ [ed]"]) (auto simp: edge_path_append)
  qed
qed simp

section \<open>The search\<close>

text \<open>The nodes that were found are the processed ones, newest first, and those in the queue.\<close>

definition searching ::
  "'n digraph \<Rightarrow> (edge \<Rightarrow> bool) \<Rightarrow> uuid \<Rightarrow> uuid list \<Rightarrow> uuid list \<times> parents \<times> uuid set \<Rightarrow> bool" where
  "searching g ok s proc st \<longleftrightarrow>
     (case st of (queue, parent, visited) \<Rightarrow>
        found g ok s parent (rev (proc @ queue)) \<and> visited = set (proc @ queue) \<and> visited \<subseteq> node_ids g)"

definition closed_at :: "'n digraph \<Rightarrow> (edge \<Rightarrow> bool) \<Rightarrow> uuid set \<Rightarrow> uuid \<Rightarrow> bool" where
  "closed_at g ok visited u \<longleftrightarrow> (\<forall>eid e. edge_of g eid = Some e \<and> ok e \<and> ed_head e = u \<longrightarrow> ed_tail e \<in> visited)"

lemma visit_finds:
  assumes "graph_ok g" "searching g ok s proc (queue, parent, visited)" "n \<in> set proc" "set es \<subseteq> edges_at ed_head g n"
  shows "\<exists>queue' parent' visited'. visit ok g n es (queue, parent, visited) = Inr (queue', parent', visited') \<and>
    searching g ok s proc (queue', parent', visited') \<and> visited \<subseteq> visited' \<and>
    (\<forall>eid\<in>set es. \<forall>e. edge_of g eid = Some e \<and> ok e \<longrightarrow> ed_tail e \<in> visited')"
  using assms(2-)
proof (induction es arbitrary: queue parent visited)
  case (Cons e es)
  obtain ed where ed: "edge_of g e = Some ed" "ed_head ed = n" using Cons.prems(3) by (auto simp: edges_at_def)
  have idt: "el_id ed = e" "ed_tail ed \<in> node_ids g" using assms(1) ed(1) by (auto simp: graph_ok_def)
  let ?t = "ed_tail ed"
  define st where "st = (if ?t \<notin> visited \<and> ok ed then (queue @ [?t], parent(?t \<mapsto> (n, e)), insert ?t visited) else (queue, parent, visited))"
  obtain q1 p1 v1 where st1: "st = (q1, p1, v1)" by (cases st)
  have v: "visit ok g n (e # es) (queue, parent, visited) = visit ok g n es (q1, p1, v1)"
    using ed(1) by (simp add: Let_def st1 [symmetric] st_def)
  have s1: "searching g ok s proc (q1, p1, v1)"
  proof (cases "?t \<notin> visited \<and> ok ed")
    case True
    then have "q1 = queue @ [?t]" "p1 = parent(?t \<mapsto> (n, e))" "v1 = insert ?t visited" using st1 by (auto simp: st_def)
    then show ?thesis
      using True Cons.prems(1,2) ed idt found_frame [of g ok s parent "rev (proc @ queue)" ?t "(n, e)"]
      by (auto simp: searching_def)
  next
    case False
    then show ?thesis using Cons.prems(1) st1 by (auto simp: st_def)
  qed
  have sub: "visited \<subseteq> v1" "ok ed \<longrightarrow> ?t \<in> v1" using st1 by (auto simp: st_def split: if_splits)
  have "set es \<subseteq> edges_at ed_head g n" using Cons.prems(3) by simp
  from Cons.IH [OF s1 Cons.prems(2) this] obtain q' p' v' where r: "visit ok g n es (q1, p1, v1) = Inr (q', p', v')"
    "searching g ok s proc (q', p', v')" "v1 \<subseteq> v'" "\<forall>eid\<in>set es. \<forall>e. edge_of g eid = Some e \<and> ok e \<longrightarrow> ed_tail e \<in> v'" by blast
  then show ?case using v sub ed(1) by (intro exI [of _ q'] exI [of _ p'] exI [of _ v']) auto
qed auto

lemma closed_reach:
  assumes "edge_path g ok u path v" "u \<in> V" "\<forall>w\<in>V. closed_at g ok V w"
  shows "v \<in> V"
  using assms(1,2)
proof (induction path arbitrary: u)
  case (Cons e es)
  then have "ed_tail e \<in> V" using assms(3) by (auto simp: closed_at_def)
  then show ?case using Cons by auto
qed simp

lemma closed_at_mono: "closed_at g ok V w \<Longrightarrow> V \<subseteq> V' \<Longrightarrow> closed_at g ok V' w"
  by (auto simp: closed_at_def)

lemma searching_length:
  assumes "searching g ok s proc (queue, parent, visited)"
  shows "length (proc @ queue) \<le> card (node_ids g)"
proof -
  have "set (proc @ queue) \<subseteq> node_ids g" "distinct (proc @ queue)"
    using assms found_distinct [of g ok s parent "rev (proc @ queue)"] by (auto simp: searching_def)
  then show ?thesis using distinct_card card_mono finite_node_ids by metis
qed

lemma search_finds:
  assumes "graph_ok g" "lists_sets it" "searching g ok s proc (queue, parent, visited)" "card (node_ids g) < fuel + length proc"
    "\<forall>w\<in>set proc. w \<noteq> target \<and> closed_at g ok visited w"
  shows "(\<exists>path. search fuel it ok g target (queue, parent, visited) = Inr (Some path) \<and> edge_path g ok s path target) \<or>
    search fuel it ok g target (queue, parent, visited) = Inr None \<and> (\<forall>path. \<not> edge_path g ok s path target)"
  using assms(3-)
proof (induction fuel arbitrary: proc queue parent visited)
  case 0
  then show ?case using searching_length [OF 0(1)] by simp
next
  case (Suc fuel)
  show ?case
  proof (cases queue)
    case Nil
    then have "s \<in> visited" "visited = set proc"
      using Suc.prems(1) found_start [of g ok s parent "rev (proc @ queue)"] by (auto simp: searching_def)
    then show ?thesis using closed_reach [of g ok s _ target visited] Suc.prems(3) Nil by auto
  next
    case (Cons n rest)
    show ?thesis
    proof (cases "n = target")
      case True
      have "length (rev (proc @ queue)) \<le> Suc (length (pile_keys (gh_nodes g)))"
        using searching_length [OF Suc.prems(1)] pile_keys_ok [OF assms(1)] distinct_card by (metis le_SucI length_rev)
      moreover have "found g ok s parent (rev (proc @ queue))" using Suc.prems(1) by (simp add: searching_def)
      ultimately obtain path where "backtrack (length (pile_keys (gh_nodes g))) g parent target [] = Inr (path @ [])" "edge_path g ok s path target"
        using backtrack_path [of g ok s parent "rev (proc @ queue)" target] True Cons by fastforce
      then show ?thesis using True Cons by (simp add: bind_r_def)
    next
      case False
      have st: "searching g ok s (proc @ [n]) (rest, parent, visited)" using Suc.prems(1) Cons by (auto simp: searching_def)
      then have "n \<in> node_ids g" by (auto simp: searching_def)
      then have out: "map_of (gh_out g) n = Some (edges_at ed_head g n)"
        using assms(1) by (intro adj_lookup) (auto simp: graph_ok_def)
      have it: "set (it (edges_at ed_head g n)) = edges_at ed_head g n" using assms(2) by (simp add: lists_sets_def)
      obtain q' p' v' where v: "visit ok g n (it (edges_at ed_head g n)) (rest, parent, visited) = Inr (q', p', v')"
        "searching g ok s (proc @ [n]) (q', p', v')" "visited \<subseteq> v'"
        "\<forall>eid\<in>edges_at ed_head g n. \<forall>e. edge_of g eid = Some e \<and> ok e \<longrightarrow> ed_tail e \<in> v'"
        using visit_finds [OF assms(1) st, of n "it (edges_at ed_head g n)"] it by auto
      have "closed_at g ok v' n" using v(4) by (auto simp: closed_at_def edges_at_def)
      then have "\<forall>w\<in>set (proc @ [n]). w \<noteq> target \<and> closed_at g ok v' w"
        using Suc.prems(3) False closed_at_mono [OF _ v(3)] by auto
      moreover have "card (node_ids g) < fuel + length (proc @ [n])" using Suc.prems(2) by simp
      ultimately have "(\<exists>path. search fuel it ok g target (q', p', v') = Inr (Some path) \<and> edge_path g ok s path target) \<or>
        search fuel it ok g target (q', p', v') = Inr None \<and> (\<forall>path. \<not> edge_path g ok s path target)"
        using Suc.IH [OF v(2)] by blast
      then show ?thesis using False Cons out v(1) by (simp add: bind_r_def)
    qed
  qed
qed

lemma find_path_search:
  assumes "graph_ok g" "lists_sets it" "start \<in> node_ids g" "target \<in> node_ids g"
  shows "(\<exists>path. find_path it condition start target check g = Inr (Some path) \<and> edge_path g (\<lambda>ed. check \<longrightarrow> condition ed) start path target) \<or>
    find_path it condition start target check g = Inr None \<and> (\<forall>path. \<not> edge_path g (\<lambda>ed. check \<longrightarrow> condition ed) start path target)"
proof -
  have "searching g (\<lambda>ed. check \<longrightarrow> condition ed) start [] ([start], Map.empty, {start})" using assms(3) by (simp add: searching_def)
  moreover have "card (node_ids g) < Suc (length (pile_keys (gh_nodes g))) + length ([] :: uuid list)"
    using pile_keys_ok [OF assms(1)] distinct_card by fastforce
  moreover have eq: "find_path it condition start target check g =
      search (Suc (length (pile_keys (gh_nodes g)))) it (\<lambda>ed. check \<longrightarrow> condition ed) g target ([start], Map.empty, {start})"
    unfolding find_path_def using assms(3,4) node_ids_conv by metis
  ultimately show ?thesis
    unfolding eq by (intro search_finds [OF assms(1,2)]) auto
qed

end
