(* ===== verification/Graph_Correct.thy ===== *)
theory Graph_Correct
  imports Graph_Sort Graph_Path "HOL-Library.List_Lexorder" "HOL-Library.Char_ord"
begin

text \<open>
  Properties of the graphs of \<open>kron.core\<close>: the operations, the acyclicity test, the topological sort and the path search on every graph that
  can be built, with a sample graph on which they are evaluated.
\<close>

section \<open>A sample\<close>

text \<open>Three nodes in a row, built by the operations; sets are iterated in the order of the ids.\<close>

definition nodes_abc :: "element list" where
  "nodes_abc = map (\<lambda>u. \<lparr>el_id = u, el_type = ''Node''\<rparr>) [''a'', ''b'', ''c'']"

definition edge_between :: "uuid \<Rightarrow> uuid \<Rightarrow> uuid \<Rightarrow> edge" where
  "edge_between eid h t = \<lparr>el_id = eid, el_type = ''Edge'', ed_head = h, ed_tail = t, ed_label = []\<rparr>"

definition no_graph :: "unit digraph" where
  "no_graph = \<lparr>gh_nodes = empty_pile None False, gh_edges = empty_pile None False, gh_out = [], gh_in = []\<rparr>"

definition row_graph :: "unit digraph" where
  "row_graph =
    snd (add_edge (=) (edge_between ''y'' ''b'' ''c'')
   (snd (add_edge (=) (edge_between ''x'' ''a'' ''b'')
   (foldl (\<lambda>g n. snd (add_node (=) n g)) no_graph nodes_abc))))"

lemma row_graph_reachable: "reachable_graph row_graph"
proof -
  have "new_graph (empty_pile None False) (empty_pile None False) = Inr no_graph"
    by (simp add: no_graph_def new_graph_def rebuild_adjacency_def pile_keys_def empty_pile_def new_progression_def bind_r_def)
  then have "reachable_graph no_graph"
    by (rule reachable_graph.start [rotated 3]) (simp_all only: empty_pile_ok, simp add: empty_pile_def)
  then show ?thesis unfolding row_graph_def nodes_abc_def by (auto intro!: reachable_graph.add_node reachable_graph.add_edge)
qed

section \<open>Orders by position\<close>

lemma heads_first_take: "heads_first r (rev ns) \<Longrightarrow> j < length ns \<Longrightarrow> (m, ns ! j) \<in> r \<Longrightarrow> m \<in> set (take j ns)"
  by (induction ns rule: rev_induct) (auto simp: nth_append less_Suc_eq)

lemma heads_first_nth:
  assumes "heads_first r (rev (map f xs))" "distinct (map f xs)" "i < length xs" "j < length xs" "(f (xs ! i), f (xs ! j)) \<in> r"
  shows "i < j"
proof -
  have "map f xs ! i \<in> set (take j (map f xs))" using heads_first_take [OF assms(1), of j] assms(3-) by simp
  then obtain k where "k < j" "map f xs ! k = map f xs ! i" using assms(4) by (auto simp: in_set_conv_nth)
  then show ?thesis using assms(2-4) nth_eq_iff_index_eq [OF assms(2), of k i] by simp
qed

lemma listed_nodes:
  assumes "el_id ` set xs = node_ids g" "\<forall>x\<in>set xs. node_of g (el_id x) = Some x"
  shows "set xs = ran (node_of g)"
proof (intro equalityI subsetI)
  fix y assume "y \<in> ran (node_of g)"
  then obtain u where u: "node_of g u = Some y" by (auto simp: ran_def)
  then have "u \<in> el_id ` set xs" unfolding assms(1) node_ids_def by auto
  then show "y \<in> set xs" using assms(2) u by auto
qed (use assms(2) in \<open>auto simp: ran_def\<close>)

section \<open>Properties\<close>

text \<open>On every graph that can be built the operations change the nodes and edges as documented and keep the graph well formed, with the adjacency sets
  of its edges: \<open>add_node\<close> and \<open>add_edge\<close> add a new element of the right type, \<open>remove_edge\<close> takes out the edge, \<open>remove_node\<close> the
  node and every edge at it, whatever the iteration order; each failing call names its reason and leaves the graph as it was.\<close>

theorem graph_operations:
  assumes "reachable_graph g" "lists_sets it"
  shows "(case add_node sub n g of
       (Inr _, g') \<Rightarrow> graph_ok g' \<and> node_of g' = (node_of g)(el_id n \<mapsto> n) \<and> edge_of g' = edge_of g
     | (Inl e, g') \<Rightarrow> g' = g \<and> (e = FromPile PileTypeError \<or> e = FromPile ExistsError \<and> node_of g (el_id n) \<noteq> None)) \<and>
    (case add_edge sub ed g of
       (Inr _, g') \<Rightarrow> graph_ok g' \<and> edge_of g' = (edge_of g)(el_id ed \<mapsto> ed) \<and> node_of g' = node_of g
     | (Inl e, g') \<Rightarrow> g' = g \<and>
         (e = FromPile PileTypeError \<or> e = FromPile ExistsError \<and> edge_of g (el_id ed) \<noteq> None \<or>
          (\<exists>m\<in>{ed_head ed, ed_tail ed}. e = NodeNotFound m \<and> node_of g m = None))) \<and>
    (case remove_edge eid g of
       (Inr x, g') \<Rightarrow> graph_ok g' \<and> edge_of g eid = Some x \<and> edge_of g' = (edge_of g)(eid := None) \<and> node_of g' = node_of g
     | (Inl e, g') \<Rightarrow> g' = g \<and> e = EdgeNotFound eid \<and> edge_of g eid = None) \<and>
    (case remove_node it nid g of
       (Inr x, g') \<Rightarrow> graph_ok g' \<and> node_of g nid = Some x \<and> node_of g' = (node_of g)(nid := None) \<and>
         edge_of g' = (\<lambda>e. if e \<in> edges_at ed_head g nid \<union> edges_at ed_tail g nid then None else edge_of g e)
     | (Inl e, g') \<Rightarrow> g' = g \<and> e = NodeNotFound nid \<and> node_of g nid = None)"
  using add_node_ok [OF reachable_graph_ok [OF assms(1)]] add_edge_ok [OF reachable_graph_ok [OF assms(1)]]
    remove_edge_ok [OF reachable_graph_ok [OF assms(1)]] remove_node_ok [OF reachable_graph_ok [OF assms(1)] assms(2)]
  by (intro conjI)

theorem graph_operations_witness:
  "map_sum id el_id (fst (remove_node sorted_list_of_set ''b'' row_graph)) = Inr ''b'' \<and>
   node_of (snd (remove_node sorted_list_of_set ''b'' row_graph)) ''b'' = None \<and>
   edge_of (snd (remove_node sorted_list_of_set ''b'' row_graph)) ''x'' = None"
proof -
  have r: "map_sum id el_id (fst (remove_node sorted_list_of_set ''b'' row_graph)) = Inr ''b''" by code_simp
  have x: "map_option ed_tail (edge_of row_graph ''x'') = Some ''b''" by code_simp
  obtain y g' where y: "remove_node sorted_list_of_set ''b'' row_graph = (Inr y, g')"
    using r by (cases "remove_node sorted_list_of_set ''b'' row_graph"; cases "fst (remove_node sorted_list_of_set ''b'' row_graph)") auto
  have g': "node_of g' = (node_of row_graph)(''b'' := None)"
    "edge_of g' = (\<lambda>e. if e \<in> edges_at ed_head row_graph ''b'' \<union> edges_at ed_tail row_graph ''b'' then None else edge_of row_graph e)"
    using graph_operations [OF row_graph_reachable sorted_lists_sets, where nid = "''b''"] unfolding y prod.case sum.case by blast+
  have "''x'' \<in> edges_at ed_tail row_graph ''b''" using x by (auto simp: edges_at_def)
  then show ?thesis using r unfolding y by (simp add: g')
qed



text \<open>\<open>topological_sort\<close> refuses exactly the graphs with a cycle, and otherwise lists every node once, the head of each edge before its
  tail.\<close>

theorem graph_topological_sort_correct:
  assumes "reachable_graph g" "lists_sets it"
  shows "if acyclic (arcs g)
    then \<exists>xs. graph_topological_sort it g = Inr xs \<and> distinct (map el_id xs) \<and> set xs = ran (node_of g) \<and>
      (\<forall>i j. i < length xs \<and> j < length xs \<and> (el_id (xs ! i), el_id (xs ! j)) \<in> arcs g \<longrightarrow> i < j)
    else graph_topological_sort it g = Inl CyclicGraph"
proof (cases "acyclic (arcs g)")
  case True
  have ok: "graph_ok g" by (rule reachable_graph_ok [OF assms(1)])
  obtain xs where xs: "graph_topological_sort it g = Inr xs" "distinct (map el_id xs)" "el_id ` set xs = node_ids g"
    "heads_first (arcs g) (rev (map el_id xs))" "\<forall>x\<in>set xs. node_of g (el_id x) = Some x"
    by (rule graph_topological_sort_orders [OF ok assms(2) True])
  have "set xs = ran (node_of g)" by (rule listed_nodes [OF xs(3,5)])
  then show ?thesis using True xs(1,2) heads_first_nth [OF xs(4,2)] by auto
next
  case False
  then show ?thesis
    using is_acyclic_decides [OF reachable_graph_ok [OF assms(1)] assms(2)] by (simp add: graph_topological_sort_def bind_r_def)
qed

theorem graph_topological_sort_correct_witness:
  "map_sum id (map el_id) (graph_topological_sort sorted_list_of_set row_graph) = Inr [''a'', ''b'', ''c''] \<and> acyclic (arcs row_graph)"
proof -
  have r: "map_sum id (map el_id) (graph_topological_sort sorted_list_of_set row_graph) = Inr [''a'', ''b'', ''c'']" by code_simp
  then have "graph_topological_sort sorted_list_of_set row_graph \<noteq> Inl CyclicGraph" by auto
  then show ?thesis
    using graph_topological_sort_correct [OF row_graph_reachable sorted_lists_sets] r by metis
qed

text \<open>\<open>find_path\<close> raises exactly when the start or the end is not a node; otherwise it returns, with a path of traversable edges of the graph
  from the start to the end when there is one, and with \<^const>\<open>None\<close> when there is none.\<close>

theorem find_path_correct:
  assumes "reachable_graph g" "lists_sets it"
  shows "case find_path it condition start target check g of
      Inl e \<Rightarrow> e = StartOrEndNotFound \<and> (node_of g start = None \<or> node_of g target = None)
    | Inr (Some path) \<Rightarrow> edge_path g (\<lambda>ed. check \<longrightarrow> condition ed) start path target
    | Inr None \<Rightarrow> node_of g start \<noteq> None \<and> node_of g target \<noteq> None \<and> (\<forall>path. \<not> edge_path g (\<lambda>ed. check \<longrightarrow> condition ed) start path target)"
proof (cases "start \<in> node_ids g \<and> target \<in> node_ids g")
  case True
  then show ?thesis
    using find_path_search [OF reachable_graph_ok [OF assms(1)] assms(2), of start target condition check]
    by (auto simp: node_ids_def domIff)
next
  case False
  then have "find_path it condition start target check g = Inl StartOrEndNotFound" unfolding find_path_def node_ids_conv by auto
  then show ?thesis using False by (auto simp: node_ids_def domIff)
qed

theorem find_path_correct_witness:
  "map_sum id (map_option (map el_id)) (find_path sorted_list_of_set (\<lambda>_. False) ''a'' ''c'' False row_graph) = Inr (Some [''x'', ''y'']) \<and>
   (\<nexists>path. edge_path row_graph (\<lambda>ed. False) ''a'' path ''c'')"
proof -
  have open_path: "map_sum id (map_option (map el_id)) (find_path sorted_list_of_set (\<lambda>_. False) ''a'' ''c'' False row_graph) = Inr (Some [''x'', ''y''])"
    by code_simp
  have "map_sum id (map_option (map el_id)) (find_path sorted_list_of_set (\<lambda>_. False) ''a'' ''c'' True row_graph) = Inr None" by code_simp
  then have "find_path sorted_list_of_set (\<lambda>_. False) ''a'' ''c'' True row_graph = Inr None"
    by (cases "find_path sorted_list_of_set (\<lambda>_. False) ''a'' ''c'' True row_graph") auto
  then show ?thesis
    using find_path_correct [OF row_graph_reachable sorted_lists_sets, where condition = "\<lambda>_. False" and start = "''a''" and target = "''c''" and check = True] open_path by simp
qed

text \<open>The constructor accepts an edge whose tail is no node; the acyclicity test then raises \<open>KeyError\<close>.\<close>

lemma dangling_edge_breaks:
  "bind_r (new_graph (store (hd nodes_abc) (empty_pile None False)) (store (edge_between ''x'' ''a'' ''b'') (empty_pile None False)))
     (is_acyclic sorted_list_of_set) = Inl (GraphKeyError ''b'')"
  by code_simp

end
