(* ===== verification/Flow.thy ===== *)
theory Flow
  imports Pile
begin

text \<open>
  Flows (\<open>libs/kron/src/kron/core/flow.py\<close>): a pile of items, a pile of progressions over the ids of the items, and an index of the names of
  the progressions. A progression is an element whose object the pile owns; an instance passed to an operation is the object that the pile
  stores under its id. \<open>parse\<close> is the conversion of a text to a UUID, \<^const>\<open>None\<close> where it raises \<open>ValueError\<close>.
\<close>

section \<open>Data\<close>

record prog_element = element +
  fp_prog :: progression

record 'x flow =
  fl_name :: "string option"
  fl_items :: "'x element_scheme pile"
  fl_progressions :: "prog_element pile"
  fl_names :: "(string, uuid) dict"

datatype flow_error =
    FlowPile pile_error | NameExists string | MissingItems "uuid set" | ProgressionNotFound uuid | FlowKeyError string
  | FlowValueError string | FlowSeqError seq_error

datatype prog_ref = RefText string | RefId uuid | RefInstance uuid

type_synonym ('x, 'r) flow_op = "'x flow \<Rightarrow> (flow_error, 'r) result \<times> 'x flow"

text \<open>A name that is absent or empty does not count.\<close>

definition real_name :: "prog_element \<Rightarrow> string option" where
  "real_name pr = (case pg_name (fp_prog pr) of None \<Rightarrow> None | Some nm \<Rightarrow> if nm = '''' then None else Some nm)"

definition missing_ids :: "prog_element \<Rightarrow> 'x element_scheme pile \<Rightarrow> uuid set" where
  "missing_ids pr items = set (pg_order (fp_prog pr)) - set (pile_keys items)"

definition register_name :: "prog_element \<Rightarrow> (string, uuid) dict \<Rightarrow> (string, uuid) dict" where
  "register_name pr names = (case real_name pr of None \<Rightarrow> names | Some nm \<Rightarrow> dict_set nm (el_id pr) names)"

section \<open>Construction\<close>

definition validate_referential_integrity :: "'x flow \<Rightarrow> (flow_error, unit) result" where
  "validate_referential_integrity f =
    bind_r (map_sum FlowPile id (pile_list (fl_progressions f))) (\<lambda>prs.
      case find_first (\<lambda>pr. missing_ids pr (fl_items f) \<noteq> {}) prs of
        None \<Rightarrow> Inr ()
      | Some pr \<Rightarrow> Inl (MissingItems (missing_ids pr (fl_items f))))"

definition new_flow ::
  "string option \<Rightarrow> 'x element_scheme pile \<Rightarrow> prog_element pile \<Rightarrow> (flow_error, 'x flow) result" where
  "new_flow name items progressions =
    bind_r (map_sum FlowPile id (pile_list progressions)) (\<lambda>prs.
      let f = \<lparr>fl_name = name, fl_items = items, fl_progressions = progressions, fl_names = foldl (\<lambda>d pr. register_name pr d) [] prs\<rparr>
      in bind_r (validate_referential_integrity f) (\<lambda>_. Inr f))"

section \<open>Progressions\<close>

definition name_taken :: "prog_element \<Rightarrow> 'x flow \<Rightarrow> bool" where
  "name_taken pr f = (case real_name pr of None \<Rightarrow> False | Some nm \<Rightarrow> map_of (fl_names f) nm \<noteq> None)"

definition add_progression :: "(string \<Rightarrow> string \<Rightarrow> bool) \<Rightarrow> prog_element \<Rightarrow> ('x, unit) flow_op" where
  "add_progression sub pr f =
    (if name_taken pr f then (Inl (NameExists (the (real_name pr))), f)
     else if missing_ids pr (fl_items f) \<noteq> {} then (Inl (MissingItems (missing_ids pr (fl_items f))), f)
     else
       (case pile_add sub pr (fl_progressions f) of
          (Inl e, ps) \<Rightarrow> (Inl (FlowPile e), f\<lparr>fl_progressions := ps\<rparr>)
        | (Inr _, ps) \<Rightarrow> (Inr (), f\<lparr>fl_progressions := ps, fl_names := register_name pr (fl_names f)\<rparr>)))"

text \<open>The id a reference denotes when it is removed, and the name to delete with it.\<close>

definition coerce_id :: "(string \<Rightarrow> uuid option) \<Rightarrow> prog_ref \<Rightarrow> (flow_error, uuid) result" where
  "coerce_id parse ref =
    (case ref of
       RefText s \<Rightarrow> (case parse s of None \<Rightarrow> Inl (FlowValueError s) | Some u \<Rightarrow> Inr u)
     | RefId u \<Rightarrow> Inr u
     | RefInstance u \<Rightarrow> Inr u)"

definition find_by_id :: "(string \<Rightarrow> uuid option) \<Rightarrow> prog_ref \<Rightarrow> 'x flow \<Rightarrow> (flow_error, uuid \<times> string option) result" where
  "find_by_id parse ref f =
    bind_r (coerce_id parse ref) (\<lambda>uid.
      case map_of (pl_items (fl_progressions f)) uid of
        None \<Rightarrow> Inl (ProgressionNotFound uid)
      | Some pr \<Rightarrow>
          Inr (uid, case pg_name (fp_prog pr) of
                      None \<Rightarrow> None
                    | Some nm \<Rightarrow> if map_of (fl_names f) nm \<noteq> None then Some nm else None))"

definition removal_target :: "(string \<Rightarrow> uuid option) \<Rightarrow> prog_ref \<Rightarrow> 'x flow \<Rightarrow> (flow_error, uuid \<times> string option) result" where
  "removal_target parse ref f =
    (case ref of
       RefText s \<Rightarrow> (case map_of (fl_names f) s of Some uid \<Rightarrow> Inr (uid, Some s) | None \<Rightarrow> find_by_id parse ref f)
     | _ \<Rightarrow> find_by_id parse ref f)"

definition remove_progression :: "(string \<Rightarrow> uuid option) \<Rightarrow> prog_ref \<Rightarrow> ('x, prog_element) flow_op" where
  "remove_progression parse ref f =
    (case removal_target parse ref f of
       Inl e \<Rightarrow> (Inl e, f)
     | Inr (uid, name_to_delete) \<Rightarrow>
         (case pile_remove uid (fl_progressions f) of
            (Inl e, ps) \<Rightarrow> (Inl (FlowPile e), f\<lparr>fl_progressions := ps\<rparr>)
          | (Inr pr, ps) \<Rightarrow>
              (Inr pr,
               f\<lparr>fl_progressions := ps,
                 fl_names := (case name_to_delete of
                                None \<Rightarrow> fl_names f
                              | Some nm \<Rightarrow> if nm = '''' then fl_names f else dict_pop nm (fl_names f))\<rparr>)))"

definition lookup_progression :: "uuid \<Rightarrow> 'x flow \<Rightarrow> (flow_error, prog_element) result" where
  "lookup_progression uid f = map_sum FlowPile id (pile_get uid None (fl_progressions f))"

definition get_progression :: "(string \<Rightarrow> uuid option) \<Rightarrow> prog_ref \<Rightarrow> 'x flow \<Rightarrow> (flow_error, prog_element) result" where
  "get_progression parse key f =
    (case key of
       RefText s \<Rightarrow>
         (case map_of (fl_names f) s of
            Some uid \<Rightarrow> lookup_progression uid f
          | None \<Rightarrow> (case parse s of None \<Rightarrow> Inl (FlowKeyError s) | Some uid \<Rightarrow> lookup_progression uid f))
     | RefId uid \<Rightarrow> lookup_progression uid f
     | RefInstance uid \<Rightarrow> lookup_progression uid f)"

section \<open>Items\<close>

text \<open>Instances are taken as they are; the other references are looked up.\<close>

definition resolve_ref :: "(string \<Rightarrow> uuid option) \<Rightarrow> 'x flow \<Rightarrow> prog_ref \<Rightarrow> (flow_error, uuid) result" where
  "resolve_ref parse f ref =
    (case ref of RefInstance uid \<Rightarrow> Inr uid | _ \<Rightarrow> bind_r (get_progression parse ref f) (\<lambda>pr. Inr (el_id pr)))"

text \<open>An update of the progression object that the pile stores under an id.\<close>

definition on_progression :: "(progression \<Rightarrow> progression) \<Rightarrow> uuid \<Rightarrow> prog_element pile \<Rightarrow> prog_element pile" where
  "on_progression h uid ps =
    (case map_of (pl_items ps) uid of
       None \<Rightarrow> ps
     | Some pr \<Rightarrow> ps\<lparr>pl_items := dict_set uid (pr\<lparr>fp_prog := h (fp_prog pr)\<rparr>) (pl_items ps)\<rparr>)"

definition add_item ::
  "(string \<Rightarrow> string \<Rightarrow> bool) \<Rightarrow> (string \<Rightarrow> uuid option) \<Rightarrow> 'x element_scheme \<Rightarrow> prog_ref list \<Rightarrow> ('x, unit) flow_op" where
  "add_item sub parse item refs f =
    (case map_r (resolve_ref parse f) refs of
       Inl e \<Rightarrow> (Inl e, f)
     | Inr uids \<Rightarrow>
         (case pile_add sub item (fl_items f) of
            (Inl e, its) \<Rightarrow> (Inl (FlowPile e), f\<lparr>fl_items := its\<rparr>)
          | (Inr _, its) \<Rightarrow>
              (Inr (), f\<lparr>fl_items := its,
                         fl_progressions := foldl (\<lambda>ps uid. on_progression (prog_append (el_id item)) uid ps) (fl_progressions f) uids\<rparr>)))"

text \<open>The loop over the progressions of the pile: \<open>if uid in progression: progression.remove(uid)\<close>.\<close>

fun drop_from :: "uuid \<Rightarrow> uuid list \<Rightarrow> ('x, unit) flow_op" where
  "drop_from uid [] f = (Inr (), f)"
| "drop_from uid (pid # pids) f =
    (case map_of (pl_items (fl_progressions f)) pid of
       None \<Rightarrow> (Inl (FlowPile PileKeyError), f)
     | Some pr \<Rightarrow>
         if prog_contains uid (fp_prog pr)
         then (case prog_remove uid (fp_prog pr) of
                 Inl e \<Rightarrow> (Inl (FlowSeqError e), f)
               | Inr p \<Rightarrow> drop_from uid pids (f\<lparr>fl_progressions := on_progression (\<lambda>_. p) pid (fl_progressions f)\<rparr>))
         else drop_from uid pids f)"

definition remove_item :: "uuid \<Rightarrow> ('x, 'x element_scheme) flow_op" where
  "remove_item uid f =
    (case drop_from uid (pile_keys (fl_progressions f)) f of
       (Inl e, f') \<Rightarrow> (Inl e, f')
     | (Inr _, f') \<Rightarrow>
         (case pile_remove uid (fl_items f') of
            (Inl e, its) \<Rightarrow> (Inl (FlowPile e), f'\<lparr>fl_items := its\<rparr>)
          | (Inr x, its) \<Rightarrow> (Inr x, f'\<lparr>fl_items := its\<rparr>)))"

end
