(* ===== verification/Flow_Correct.thy ===== *)
theory Flow_Correct
  imports Flow Pile_Correct
begin

text \<open>
  Flows keep referential integrity and their index of names, as long as no progression repeats an id that is removed.
\<close>

section \<open>Well-formed flows\<close>

abbreviation prog_at :: "'x flow \<Rightarrow> uuid \<Rightarrow> prog_element option" where
  "prog_at f \<equiv> map_of (pl_items (fl_progressions f))"

abbreviation item_at :: "'x flow \<Rightarrow> uuid \<Rightarrow> 'x element_scheme option" where
  "item_at f \<equiv> map_of (pl_items (fl_items f))"

definition progs_ok :: "uuid set \<Rightarrow> prog_element pile \<Rightarrow> bool" where
  "progs_ok ids ps \<longleftrightarrow>
     pile_ok ps \<and> (\<forall>pid pr. map_of (pl_items ps) pid = Some pr \<longrightarrow> prog_ok (fp_prog pr) \<and> set (pg_order (fp_prog pr)) \<subseteq> ids)"

text \<open>The index holds exactly the names of the progressions, so no two progressions share a name.\<close>

definition names_ok :: "(string, uuid) dict \<Rightarrow> prog_element pile \<Rightarrow> bool" where
  "names_ok names ps \<longleftrightarrow> (\<forall>nm u. map_of names nm = Some u \<longleftrightarrow> (\<exists>pr. map_of (pl_items ps) u = Some pr \<and> real_name pr = Some nm))"

definition flow_ok :: "'x flow \<Rightarrow> bool" where
  "flow_ok f \<longleftrightarrow>
     pile_ok (fl_items f) \<and> progs_ok (dom (item_at f)) (fl_progressions f) \<and> names_ok (fl_names f) (fl_progressions f)"

lemma keys_items: "pile_ok p \<Longrightarrow> set (pile_keys p) = dom (map_of (pl_items p))"
  by (simp add: pile_ok_def pile_keys_def)

lemma pile_item_id: "pile_ok p \<Longrightarrow> map_of (pl_items p) u = Some x \<Longrightarrow> el_id x = u"
  by (simp add: pile_ok_def)

lemma store_lookup: "map_of (pl_items (store x p)) = (map_of (pl_items p))(el_id x \<mapsto> x)"
  by (simp add: store_def)

section \<open>Progressions\<close>

lemma real_name_Some: "real_name pr = Some nm \<Longrightarrow> nm \<noteq> [] \<and> pg_name (fp_prog pr) = Some nm"
  by (auto simp: real_name_def split: option.splits if_splits)

lemma names_okD: "names_ok names ps \<Longrightarrow> map_of (pl_items ps) u = Some pr \<Longrightarrow> real_name pr = Some nm \<Longrightarrow> map_of names nm = Some u"
  unfolding names_ok_def by blast

lemma names_ok_store:
  assumes "names_ok names ps" "map_of (pl_items ps) (el_id pr) = None" "\<And>nm. real_name pr = Some nm \<Longrightarrow> map_of names nm = None"
  shows "names_ok (register_name pr names) (store pr ps)"
proof (cases "real_name pr")
  case None
  then show ?thesis using assms(1,2) by (auto simp: names_ok_def register_name_def store_lookup)
next
  case (Some nm)
  have "map_of names nm = None" by (rule assms(3) [OF Some])
  then have "\<And>u pr'. map_of (pl_items ps) u = Some pr' \<Longrightarrow> real_name pr' \<noteq> Some nm" using names_okD [OF assms(1)] by fastforce
  then show ?thesis using assms(1,2) Some by (auto simp: names_ok_def register_name_def store_lookup)
qed

lemma add_progression_ok:
  assumes "flow_ok f" "prog_ok (fp_prog pr)"
  shows "case add_progression sub pr f of
      (Inr _, f') \<Rightarrow> flow_ok f' \<and> prog_at f' = (prog_at f)(el_id pr \<mapsto> pr) \<and> item_at f' = item_at f
    | (Inl _, f') \<Rightarrow> f' = f"
proof -
  have ps: "pile_ok (fl_progressions f)" and its: "pile_ok (fl_items f)" using assms(1) by (simp_all add: flow_ok_def progs_ok_def)
  show ?thesis
  proof (cases "name_taken pr f \<or> missing_ids pr (fl_items f) \<noteq> {} \<or> \<not> type_ok sub pr (fl_progressions f) \<or> prog_at f (el_id pr) \<noteq> None")
    case True
    then show ?thesis by (auto simp: add_progression_def pile_add_def)
  next
    case False
    then have new: "prog_at f (el_id pr) = None" by simp
    let ?f = "f\<lparr>fl_progressions := store pr (fl_progressions f), fl_names := register_name pr (fl_names f)\<rparr>"
    have add: "add_progression sub pr f = (Inr (), ?f)" using False by (simp add: add_progression_def pile_add_def)
    have "set (pg_order (fp_prog pr)) \<subseteq> dom (item_at f)" using False keys_items [OF its] by (auto simp: missing_ids_def)
    then have "progs_ok (dom (item_at f)) (store pr (fl_progressions f))"
      using assms store_props(2) [OF ps new] by (auto simp: progs_ok_def flow_ok_def store_lookup)
    moreover have "names_ok (register_name pr (fl_names f)) (store pr (fl_progressions f))"
      using assms(1) False by (intro names_ok_store) (auto simp: flow_ok_def name_taken_def)
    ultimately have "flow_ok ?f" using its by (simp add: flow_ok_def)
    then show ?thesis unfolding add by (simp add: store_lookup)
  qed
qed

lemma names_ok_drop:
  assumes "names_ok names ps" "pile_ok ps" "map_of (pl_items ps) uid = Some pr"
    "case real_name pr of None \<Rightarrow> map_of names' = map_of names | Some nm \<Rightarrow> map_of names' = (map_of names)(nm := None)"
  shows "names_ok names' (pile_drop uid ps)"
proof -
  have drop: "map_of (pl_items (pile_drop uid ps)) u = (if u = uid then None else map_of (pl_items ps) u)" for u
    using pile_seq.get_drop [OF assms(2)] by simp
  show ?thesis
  proof (cases "real_name pr")
    case None
    then show ?thesis using assms drop by (auto simp: names_ok_def)
  next
    case (Some nm)
    show ?thesis unfolding names_ok_def
    proof (intro allI)
      fix m u
      have iff: "map_of names m = Some u \<longleftrightarrow> (\<exists>pr. map_of (pl_items ps) u = Some pr \<and> real_name pr = Some m)"
        using assms(1) unfolding names_ok_def by blast
      have n': "map_of names' m = (if m = nm then None else map_of names m)" using assms(4) Some by simp
      have uniq: "u = uid" if "real_name x = Some nm" "map_of (pl_items ps) u = Some x" for x
        using names_okD [OF assms(1) that(2,1)] names_okD [OF assms(1,3) Some] by simp
      consider "m = nm" | "m \<noteq> nm" "u = uid" | "m \<noteq> nm" "u \<noteq> uid" by blast
      then show "map_of names' m = Some u \<longleftrightarrow> (\<exists>pr. map_of (pl_items (pile_drop uid ps)) u = Some pr \<and> real_name pr = Some m)"
      proof cases
        case 1
        then show ?thesis unfolding n' drop using uniq by (simp split: if_split) blast
      next
        case 2
        then show ?thesis unfolding n' drop using iff assms(3) Some by simp
      next
        case 3
        then show ?thesis unfolding n' drop using iff by simp
      qed
    qed
  qed
qed

text \<open>Removal finds what the lookup finds, and deletes the name of what it removes.\<close>

lemma removal_target_ok:
  assumes "flow_ok f"
  shows "case removal_target parse ref f of
      Inl _ \<Rightarrow> \<exists>e. get_progression parse ref f = Inl e
    | Inr (uid, nm) \<Rightarrow> (prog_at f uid = None \<longrightarrow> (\<exists>e. get_progression parse ref f = Inl e)) \<and>
        (\<forall>pr. prog_at f uid = Some pr \<longrightarrow> get_progression parse ref f = Inr pr \<and> nm = real_name pr)"
proof -
  have names: "names_ok (fl_names f) (fl_progressions f)" using assms by (simp add: flow_ok_def)
  have real: "(case pg_name (fp_prog pr) of None \<Rightarrow> None | Some nm \<Rightarrow> if map_of (fl_names f) nm \<noteq> None then Some nm else None) = real_name pr"
    if "prog_at f uid = Some pr" for uid pr
  proof (cases "real_name pr")
    case None
    have "map_of (fl_names f) '''' \<noteq> Some u" for u using names real_name_Some unfolding names_ok_def by blast
    then have "map_of (fl_names f) '''' = None" by (meson option.exhaust)
    then show ?thesis using None by (auto simp: real_name_def split: option.splits if_splits)
  next
    case (Some nm)
    then show ?thesis using names_okD [OF names that Some] by (auto simp: real_name_def split: option.splits if_splits)
  qed
  have byid: "case find_by_id parse ref f of
      Inl _ \<Rightarrow> \<forall>uid. coerce_id parse ref = Inr uid \<longrightarrow> prog_at f uid = None
    | Inr (uid, nm) \<Rightarrow> coerce_id parse ref = Inr uid \<and> (\<exists>pr. prog_at f uid = Some pr \<and> nm = real_name pr)"
    using real by (auto simp: find_by_id_def bind_r_def split: sum.split option.split)
  show ?thesis
  proof (cases "\<exists>s uid. ref = RefText s \<and> map_of (fl_names f) s = Some uid")
    case True
    then obtain s uid where s: "ref = RefText s" "map_of (fl_names f) s = Some uid" by blast
    then obtain pr where "prog_at f uid = Some pr" "real_name pr = Some s" using names by (auto simp: names_ok_def)
    then show ?thesis using s by (simp add: removal_target_def get_progression_def lookup_progression_def pile_get_def)
  next
    case False
    then have "removal_target parse ref f = find_by_id parse ref f"
      "get_progression parse ref f = (case coerce_id parse ref of Inl (FlowValueError s) \<Rightarrow> Inl (FlowKeyError s) | Inl e \<Rightarrow> Inl e | Inr uid \<Rightarrow> lookup_progression uid f)"
      by (auto simp: removal_target_def get_progression_def coerce_id_def split: prog_ref.split option.split)
    then show ?thesis using byid by (auto simp: lookup_progression_def pile_get_def split: sum.splits option.splits flow_error.splits)
  qed
qed

lemma remove_progression_ok:
  assumes "flow_ok f"
  shows "case remove_progression parse ref f of
      (Inr pr, f') \<Rightarrow> flow_ok f' \<and> get_progression parse ref f = Inr pr \<and> prog_at f' = (prog_at f)(el_id pr := None) \<and> item_at f' = item_at f
    | (Inl _, f') \<Rightarrow> f' = f \<and> (\<exists>e. get_progression parse ref f = Inl e)"
proof -
  have ps: "pile_ok (fl_progressions f)" using assms by (simp add: flow_ok_def progs_ok_def)
  show ?thesis
  proof (cases "removal_target parse ref f")
    case (Inl e)
    then show ?thesis using removal_target_ok [OF assms, of parse ref] by (simp add: remove_progression_def)
  next
    case (Inr t)
    obtain uid nm where t: "t = (uid, nm)" by (cases t)
    show ?thesis
    proof (cases "prog_at f uid")
      case None
      then show ?thesis
        using removal_target_ok [OF assms, of parse ref] Inr t by (simp add: remove_progression_def pile_remove_ok [OF ps])
    next
      case (Some pr)
      then have pr: "get_progression parse ref f = Inr pr" "nm = real_name pr"
        using removal_target_ok [OF assms, of parse ref] Inr t by auto
      have uid: "el_id pr = uid" using pile_item_id [OF ps Some] .
      define names' where "names' = (case nm of None \<Rightarrow> fl_names f | Some n \<Rightarrow> if n = '''' then fl_names f else dict_pop n (fl_names f))"
      let ?f = "f\<lparr>fl_progressions := pile_drop uid (fl_progressions f), fl_names := names'\<rparr>"
      have rem: "remove_progression parse ref f = (Inr pr, ?f)"
        using Inr t Some by (simp add: remove_progression_def pile_remove_ok [OF ps] names'_def)
      have drop: "prog_at ?f = (prog_at f)(uid := None)" using pile_seq.get_drop [OF ps] by (auto simp: fun_eq_iff)
      have "case real_name pr of None \<Rightarrow> map_of names' = map_of (fl_names f) | Some n \<Rightarrow> map_of names' = (map_of (fl_names f))(n := None)"
        using real_name_Some [of pr] by (auto simp: names'_def pr(2) map_of_dict_pop split: option.split)
      then have "names_ok names' (pile_drop uid (fl_progressions f))"
        using assms Some by (intro names_ok_drop [OF _ ps]) (auto simp: flow_ok_def)
      moreover have "progs_ok (dom (item_at f)) (pile_drop uid (fl_progressions f))"
        using assms drop pile_drop_props(2) [OF ps] by (auto simp: progs_ok_def flow_ok_def split: if_splits)
      ultimately have "flow_ok ?f" using assms by (simp add: flow_ok_def)
      then show ?thesis unfolding rem using pr(1) drop uid by simp
    qed
  qed
qed

section \<open>Items\<close>

lemma on_progression_lookup:
  "map_of (pl_items (on_progression h uid ps)) =
     (\<lambda>u. if u = uid then map_option (\<lambda>pr. pr\<lparr>fp_prog := h (fp_prog pr)\<rparr>) (map_of (pl_items ps) u) else map_of (pl_items ps) u)"
  "pl_progression (on_progression h uid ps) = pl_progression ps"
  by (auto simp: on_progression_def fun_eq_iff split: option.split)

text \<open>Updates of the progression objects that keep their names keep the pile and the index.\<close>

lemma on_progression_ok:
  assumes "progs_ok ids ps" "names_ok names ps" "\<And>p. pg_name (h p) = pg_name p"
    "\<And>pr. map_of (pl_items ps) uid = Some pr \<Longrightarrow> prog_ok (h (fp_prog pr)) \<and> set (pg_order (h (fp_prog pr))) \<subseteq> ids"
  shows "progs_ok ids (on_progression h uid ps)" "names_ok names (on_progression h uid ps)"
proof -
  have keep: "el_id (pr\<lparr>fp_prog := h (fp_prog pr)\<rparr>) = el_id pr" "real_name (pr\<lparr>fp_prog := h (fp_prog pr)\<rparr>) = real_name pr" for pr :: prog_element
    by (simp_all add: real_name_def assms(3))
  have "pile_ok (on_progression h uid ps)"
  proof (cases "map_of (pl_items ps) uid")
    case None
    then show ?thesis using assms(1) by (simp add: on_progression_def progs_ok_def)
  next
    case (Some pr)
    have ok: "pile_ok ps" using assms(1) by (simp add: progs_ok_def)
    have uid: "el_id (pr\<lparr>fp_prog := h (fp_prog pr)\<rparr>) = uid" using pile_item_id [OF ok Some] by simp
    show ?thesis using update_elems(2) [OF ok, of "pr\<lparr>fp_prog := h (fp_prog pr)\<rparr>"] Some unfolding uid by (simp add: on_progression_def)
  qed
  then show "progs_ok ids (on_progression h uid ps)"
    using assms(1,4) by (auto simp: progs_ok_def on_progression_lookup(1) split: if_splits)
  show "names_ok names (on_progression h uid ps)"
    using assms(2) by (auto simp: names_ok_def on_progression_lookup(1) keep(2))
qed

lemma append_all_ok:
  assumes "progs_ok ids ps" "names_ok names ps" "iid \<in> ids"
  shows "progs_ok ids (foldl (\<lambda>ps uid. on_progression (prog_append iid) uid ps) ps uids) \<and>
    names_ok names (foldl (\<lambda>ps uid. on_progression (prog_append iid) uid ps) ps uids)"
  using assms(1,2)
proof (induction uids arbitrary: ps)
  case (Cons uid uids)
  have "progs_ok ids (on_progression (prog_append iid) uid ps)" "names_ok names (on_progression (prog_append iid) uid ps)"
    by (rule on_progression_ok [OF Cons.prems]; use Cons.prems(1) assms(3) in \<open>auto simp: prog_append_def progs_ok_def prog_ok_def\<close>)+
  from Cons.IH [OF this] show ?case by simp
qed simp

lemma append_all_lookup:
  "map_of (pl_items (foldl (\<lambda>ps uid. on_progression (prog_append iid) uid ps) ps uids)) u =
     map_option (\<lambda>pr. pr\<lparr>fp_prog := (prog_append iid ^^ count_list uids u) (fp_prog pr)\<rparr>) (map_of (pl_items ps) u)"
proof (induction uids arbitrary: ps)
  case Nil
  show ?case by (cases "map_of (pl_items ps) u") simp_all
next
  case (Cons uid uids)
  show ?case by (cases "map_of (pl_items ps) u") (auto simp: Cons on_progression_lookup(1) funpow_swap1)
qed

lemma progs_ok_mono: "progs_ok ids ps \<Longrightarrow> ids \<subseteq> ids' \<Longrightarrow> progs_ok ids' ps"
  by (fastforce simp: progs_ok_def)

lemma add_item_ok:
  assumes "flow_ok f"
  shows "case add_item sub parse item refs f of
      (Inr _, f') \<Rightarrow> flow_ok f' \<and> item_at f' = (item_at f)(el_id item \<mapsto> item) \<and>
        (\<exists>uids. map_r (resolve_ref parse f) refs = Inr uids \<and>
          (\<forall>u. prog_at f' u = map_option (\<lambda>pr. pr\<lparr>fp_prog := (prog_append (el_id item) ^^ count_list uids u) (fp_prog pr)\<rparr>) (prog_at f u)))
    | (Inl _, f') \<Rightarrow> f' = f"
proof -
  have its: "pile_ok (fl_items f)" using assms by (simp add: flow_ok_def)
  show ?thesis
  proof (cases "(\<exists>e. map_r (resolve_ref parse f) refs = Inl e) \<or> \<not> type_ok sub item (fl_items f) \<or> item_at f (el_id item) \<noteq> None")
    case True
    then show ?thesis by (auto simp: add_item_def pile_add_def split: sum.split)
  next
    case False
    then obtain uids where uids: "map_r (resolve_ref parse f) refs = Inr uids" by (cases "map_r (resolve_ref parse f) refs") auto
    have new: "item_at f (el_id item) = None" using False by simp
    define ps where "ps = foldl (\<lambda>ps uid. on_progression (prog_append (el_id item)) uid ps) (fl_progressions f) uids"
    let ?f = "f\<lparr>fl_items := store item (fl_items f), fl_progressions := ps\<rparr>"
    have add: "add_item sub parse item refs f = (Inr (), ?f)" using False uids by (simp add: add_item_def pile_add_def ps_def)
    have items: "item_at ?f = (item_at f)(el_id item \<mapsto> item)" by (simp add: store_lookup)
    have "progs_ok (insert (el_id item) (dom (item_at f))) ps" "names_ok (fl_names f) ps"
      unfolding ps_def using assms append_all_ok [of "insert (el_id item) (dom (item_at f))" "fl_progressions f" "fl_names f" "el_id item" uids]
      by (auto simp: flow_ok_def intro: progs_ok_mono)
    then have "flow_ok ?f" using items store_props(2) [OF its new] by (simp add: flow_ok_def)
    moreover have "\<forall>u. prog_at ?f u = map_option (\<lambda>pr. pr\<lparr>fp_prog := (prog_append (el_id item) ^^ count_list uids u) (fp_prog pr)\<rparr>) (prog_at f u)"
      by (simp add: ps_def append_all_lookup)
    ultimately show ?thesis unfolding add using items uids by simp
  qed
qed

text \<open>What the loop of \<open>remove_item\<close> makes of a progression.\<close>

definition dropped :: "uuid \<Rightarrow> progression \<Rightarrow> progression" where
  "dropped uid p = (if uid \<in> set (pg_order p) then forget uid (p\<lparr>pg_order := remove1 uid (pg_order p)\<rparr>) else p)"

lemma dropped_props: "pg_order (dropped uid p) = remove1 uid (pg_order p)" "pg_name (dropped uid p) = pg_name p" "prog_ok p \<Longrightarrow> prog_ok (dropped uid p)"
proof -
  show "pg_order (dropped uid p) = remove1 uid (pg_order p)" by (simp add: dropped_def remove1_idem)
  show "pg_name (dropped uid p) = pg_name p" by (simp add: dropped_def forget_def)
  show "prog_ok (dropped uid p)" if "prog_ok p"
    using prog_remove_Inr(3) [of uid p] that by (auto simp: dropped_def prog_remove_def)
qed

lemma on_progression_dropped:
  assumes "progs_ok ids ps" "names_ok names ps"
  shows "progs_ok ids (on_progression (dropped uid) pid ps)" "names_ok names (on_progression (dropped uid) pid ps)"
proof -
  have p: "prog_ok (dropped uid (fp_prog pr)) \<and> set (pg_order (dropped uid (fp_prog pr))) \<subseteq> ids" if "map_of (pl_items ps) pid = Some pr" for pr
    using assms(1) that notin_set_remove1 by (fastforce simp: progs_ok_def dropped_props)
  show "progs_ok ids (on_progression (dropped uid) pid ps)" "names_ok names (on_progression (dropped uid) pid ps)"
    by (rule on_progression_ok(1) [OF assms dropped_props(2) p], assumption)
      (rule on_progression_ok(2) [OF assms dropped_props(2) p], assumption)
qed

lemma drop_from_ok:
  assumes "progs_ok ids (fl_progressions f)" "names_ok (fl_names f) (fl_progressions f)" "set pids \<subseteq> dom (prog_at f)" "distinct pids"
  shows "\<exists>ps. drop_from uid pids f = (Inr (), f\<lparr>fl_progressions := ps\<rparr>) \<and> progs_ok ids ps \<and> names_ok (fl_names f) ps \<and>
    map_of (pl_items ps) = (\<lambda>u. if u \<in> set pids then map_option (\<lambda>pr. pr\<lparr>fp_prog := dropped uid (fp_prog pr)\<rparr>) (prog_at f u) else prog_at f u)"
  using assms
proof (induction pids arbitrary: f)
  case Nil
  then show ?case by (intro exI [of _ "fl_progressions f"]) simp
next
  case (Cons pid pids)
  obtain pr where pr: "prog_at f pid = Some pr" using Cons.prems(3) by auto
  have ok: "prog_ok (fp_prog pr)" using Cons.prems(1) pr by (simp add: progs_ok_def)
  define ps where "ps = (if uid \<in> set (pg_order (fp_prog pr)) then on_progression (dropped uid) pid (fl_progressions f) else fl_progressions f)"
  have step: "drop_from uid (pid # pids) f = drop_from uid pids (f\<lparr>fl_progressions := ps\<rparr>)"
    using pr ok by (simp add: ps_def prog_contains_def prog_ok_def prog_remove_def dropped_def on_progression_def)
  have oks: "progs_ok ids ps" "names_ok (fl_names f) ps" using Cons.prems(1,2) on_progression_dropped by (simp_all add: ps_def)
  have at: "map_of (pl_items ps) u = (if u = pid then Some (pr\<lparr>fp_prog := dropped uid (fp_prog pr)\<rparr>) else prog_at f u)" for u
    using pr by (auto simp: ps_def on_progression_lookup(1) dropped_def)
  have "set pids \<subseteq> dom (prog_at (f\<lparr>fl_progressions := ps\<rparr>))" using Cons.prems(3) by (auto simp: at)
  then obtain ps' where "drop_from uid pids (f\<lparr>fl_progressions := ps\<rparr>) = (Inr (), f\<lparr>fl_progressions := ps'\<rparr>)" "progs_ok ids ps'" "names_ok (fl_names f) ps'"
    "map_of (pl_items ps') = (\<lambda>u. if u \<in> set pids then map_option (\<lambda>pr. pr\<lparr>fp_prog := dropped uid (fp_prog pr)\<rparr>) (map_of (pl_items ps) u) else map_of (pl_items ps) u)"
    using Cons.IH [of "f\<lparr>fl_progressions := ps\<rparr>"] oks Cons.prems(4) by (auto cong: if_cong)
  then show ?case using Cons.prems(4) pr unfolding step by (intro exI [of _ ps']) (auto simp: at fun_eq_iff)
qed

lemma remove1_once: "x \<notin> set (remove1 x xs) \<longleftrightarrow> count_list xs x \<le> 1"
  by (induction xs) (auto simp: count_list_0_iff)

lemma remove_item_ok:
  assumes "flow_ok f"
  shows "case remove_item uid f of
      (Inr x, f') \<Rightarrow> item_at f uid = Some x \<and> item_at f' = (item_at f)(uid := None) \<and>
        prog_at f' = (\<lambda>u. map_option (\<lambda>pr. pr\<lparr>fp_prog := dropped uid (fp_prog pr)\<rparr>) (prog_at f u)) \<and>
        (flow_ok f' \<longleftrightarrow> (\<forall>u pr. prog_at f u = Some pr \<longrightarrow> count_list (pg_order (fp_prog pr)) uid \<le> 1))
    | (Inl e, f') \<Rightarrow> e = FlowPile ItemNotFound \<and> item_at f uid = None \<and> prog_at f' = prog_at f \<and> item_at f' = item_at f \<and> flow_ok f'"
proof -
  have f: "pile_ok (fl_items f)" "progs_ok (dom (item_at f)) (fl_progressions f)" "names_ok (fl_names f) (fl_progressions f)"
    using assms by (simp_all add: flow_ok_def)
  have keys: "set (pile_keys (fl_progressions f)) = dom (prog_at f)" "distinct (pile_keys (fl_progressions f))"
    using f(2) by (auto simp: progs_ok_def pile_ok_def pile_keys_def)
  obtain ps where ps: "drop_from uid (pile_keys (fl_progressions f)) f = (Inr (), f\<lparr>fl_progressions := ps\<rparr>)"
    "progs_ok (dom (item_at f)) ps" "names_ok (fl_names f) ps"
    "map_of (pl_items ps) = (\<lambda>u. map_option (\<lambda>pr. pr\<lparr>fp_prog := dropped uid (fp_prog pr)\<rparr>) (prog_at f u))"
    using drop_from_ok [OF f(2,3) equalityD1 [OF keys(1)] keys(2), of uid] unfolding keys(1) by (auto simp: fun_eq_iff domIff)
  show ?thesis
  proof (cases "item_at f uid")
    case None
    then have "dropped uid (fp_prog pr) = fp_prog pr" if "prog_at f u = Some pr" for u pr
      using f(2) that by (auto simp: progs_ok_def dropped_def)
    then have "map_of (pl_items ps) = prog_at f" unfolding ps(4) by (intro ext option.map_ident_strong) auto
    then show ?thesis using None ps f(1) by (simp add: remove_item_def pile_remove_ok flow_ok_def)
  next
    case (Some x)
    let ?f = "f\<lparr>fl_items := pile_drop uid (fl_items f), fl_progressions := ps\<rparr>"
    have rem: "remove_item uid f = (Inr x, ?f)" using ps(1) Some by (simp add: remove_item_def pile_remove_ok [OF f(1)])
    have items: "item_at ?f = (item_at f)(uid := None)" using pile_seq.get_drop [OF f(1)] by (auto simp: fun_eq_iff)
    have "flow_ok ?f \<longleftrightarrow> (\<forall>u pr. map_of (pl_items ps) u = Some pr \<longrightarrow> uid \<notin> set (pg_order (fp_prog pr)))"
      using ps(2,3) items pile_drop_props(2) [OF f(1)] by (simp add: flow_ok_def progs_ok_def subset_Diff_insert)
    also have "\<dots> \<longleftrightarrow> (\<forall>u pr. prog_at f u = Some pr \<longrightarrow> uid \<notin> set (remove1 uid (pg_order (fp_prog pr))))"
      unfolding ps(4) by (force simp: dropped_props(1))
    also have "\<dots> \<longleftrightarrow> (\<forall>u pr. prog_at f u = Some pr \<longrightarrow> count_list (pg_order (fp_prog pr)) uid \<le> 1)"
      by (simp add: remove1_once)
    finally show ?thesis unfolding rem using Some items ps(4) by simp
  qed
qed

section \<open>Construction\<close>

lemma register_all:
  "map_of (foldl (\<lambda>d pr. register_name pr d) names prs) nm =
     (case find_first (\<lambda>pr. real_name pr = Some nm) (rev prs) of None \<Rightarrow> map_of names nm | Some pr \<Rightarrow> Some (el_id pr))"
  by (induction prs rule: rev_induct) (auto simp: register_name_def split: option.splits)

text \<open>The constructor registers names without looking for clashes; without any, the index is right.\<close>

lemma new_flow_ok:
  assumes "new_flow name its ps = Inr f" "pile_ok its" "pile_ok ps" "\<forall>u pr. map_of (pl_items ps) u = Some pr \<longrightarrow> prog_ok (fp_prog pr)"
    "\<forall>u v pr pr' nm. map_of (pl_items ps) u = Some pr \<and> map_of (pl_items ps) v = Some pr' \<and> real_name pr = Some nm \<and> real_name pr' = Some nm \<longrightarrow> u = v"
  shows "flow_ok f \<and> fl_items f = its \<and> fl_progressions f = ps"
proof -
  have f: "fl_items f = its" "fl_progressions f = ps" "fl_names f = foldl (\<lambda>d pr. register_name pr d) [] (pile_elems ps)"
    "validate_referential_integrity f = Inr ()"
    using assms(1) by (auto simp: new_flow_def pile_list_ok [OF assms(3)] Let_def)
  have mem: "pr \<in> set (pile_elems ps) \<longleftrightarrow> map_of (pl_items ps) (el_id pr) = Some pr" for pr
    using pile_seq.get_Some [OF assms(3)] by auto
  have "missing_ids pr its = {}" if "map_of (pl_items ps) u = Some pr" for u pr
  proof -
    have "pr \<in> set (pile_elems ps)" using that mem pile_item_id [OF assms(3) that] by simp
    moreover have "find_first (\<lambda>pr. missing_ids pr its \<noteq> {}) (pile_elems ps) = None"
      using f(4) by (auto simp: validate_referential_integrity_def f(1,2) pile_list_ok [OF assms(3)] split: option.splits)
    ultimately show ?thesis by (auto simp: find_first_None_iff)
  qed
  then have "progs_ok (dom (item_at f)) ps"
    using assms(3,4) keys_items [OF assms(2)] by (fastforce simp: progs_ok_def missing_ids_def f(1))
  moreover have "names_ok (fl_names f) ps" unfolding names_ok_def f(3) register_all
  proof (intro allI)
    fix nm u
    show "(case find_first (\<lambda>pr. real_name pr = Some nm) (rev (pile_elems ps)) of None \<Rightarrow> map_of [] nm | Some pr \<Rightarrow> Some (el_id pr)) = Some u \<longleftrightarrow>
      (\<exists>pr. map_of (pl_items ps) u = Some pr \<and> real_name pr = Some nm)"
    proof (cases "find_first (\<lambda>pr. real_name pr = Some nm) (rev (pile_elems ps))")
      case None
      then have "\<forall>pr\<in>set (pile_elems ps). real_name pr \<noteq> Some nm" by (auto simp: find_first_None_iff)
      then show ?thesis using None mem pile_item_id [OF assms(3)] by fastforce
    next
      case (Some pr)
      then have "pr \<in> set (pile_elems ps)" "real_name pr = Some nm" by (auto dest: find_first_Some)
      then show ?thesis using Some mem assms(5) by fastforce
    qed
  qed
  ultimately show ?thesis using assms(2) f(1,2) by (simp add: flow_ok_def)
qed

section \<open>Properties\<close>

text \<open>The operations of a flow refine maps of items and progressions and keep the flow well formed: every progression holds ids of items only
  and the index holds exactly the names of the progressions. Adding registers, removing takes out what the lookup finds together
  with its name, a new item is appended once per reference, a failing call changes nothing. The one way to lose integrity is to remove an item whose id some
  progression holds more than once, since only one occurrence goes.\<close>

theorem flow_operations:
  assumes "flow_ok f" "prog_ok (fp_prog pr)"
  shows "(case add_progression sub pr f of
       (Inr _, f') \<Rightarrow> flow_ok f' \<and> prog_at f' = (prog_at f)(el_id pr \<mapsto> pr) \<and> item_at f' = item_at f
     | (Inl _, f') \<Rightarrow> f' = f) \<and>
    (case remove_progression parse ref f of
       (Inr pr', f') \<Rightarrow> flow_ok f' \<and> get_progression parse ref f = Inr pr' \<and> prog_at f' = (prog_at f)(el_id pr' := None) \<and> item_at f' = item_at f
     | (Inl _, f') \<Rightarrow> f' = f \<and> (\<exists>e. get_progression parse ref f = Inl e)) \<and>
    (case add_item sub' parse item refs f of
       (Inr _, f') \<Rightarrow> flow_ok f' \<and> item_at f' = (item_at f)(el_id item \<mapsto> item) \<and>
         (\<exists>uids. map_r (resolve_ref parse f) refs = Inr uids \<and>
           (\<forall>u. prog_at f' u = map_option (\<lambda>pr. pr\<lparr>fp_prog := (prog_append (el_id item) ^^ count_list uids u) (fp_prog pr)\<rparr>) (prog_at f u)))
     | (Inl _, f') \<Rightarrow> f' = f) \<and>
    (case remove_item uid f of
       (Inr x, f') \<Rightarrow> item_at f uid = Some x \<and> item_at f' = (item_at f)(uid := None) \<and>
         prog_at f' = (\<lambda>u. map_option (\<lambda>pr. pr\<lparr>fp_prog := dropped uid (fp_prog pr)\<rparr>) (prog_at f u)) \<and>
         (flow_ok f' \<longleftrightarrow> (\<forall>u pr. prog_at f u = Some pr \<longrightarrow> count_list (pg_order (fp_prog pr)) uid \<le> 1))
     | (Inl e, f') \<Rightarrow> e = FlowPile ItemNotFound \<and> item_at f uid = None \<and> prog_at f' = prog_at f \<and> item_at f' = item_at f \<and> flow_ok f')"
  using add_progression_ok [OF assms] remove_progression_ok [OF assms(1)] add_item_ok [OF assms(1)] remove_item_ok [OF assms(1)]
  by (intro conjI)

section \<open>A sample\<close>

definition stage :: "uuid \<Rightarrow> string \<Rightarrow> uuid list \<Rightarrow> prog_element" where
  "stage uid nm order = \<lparr>el_id = uid, el_type = ''Progression'', fp_prog = new_progression (Some nm) order\<rparr>"

definition sample_flow :: "unit flow" where
  "sample_flow = \<lparr>fl_name = None, fl_items = two_items, fl_progressions = store (stage ''p'' ''ready'' [''a'', ''b'']) (empty_pile None False),
     fl_names = [(''ready'', ''p'')]\<rparr>"

lemma sample_prog: "prog_at sample_flow = [''p'' \<mapsto> stage ''p'' ''ready'' [''a'', ''b'']]"
  by (simp add: sample_flow_def store_lookup empty_pile_def stage_def)

lemma stage_props: "real_name (stage u ''ready'' os) = Some ''ready''" "prog_ok (fp_prog (stage u nm os))" "pg_order (fp_prog (stage u nm os)) = os"
  by (simp_all add: stage_def real_name_def new_progression_def prog_ok_def)

lemma sample_flow_ok: "flow_ok sample_flow"
proof -
  have ps: "pile_ok (fl_progressions sample_flow)"
    unfolding sample_flow_def flow.select_convs by (rule store_props(2) [OF empty_pile_ok(1)]) (simp add: empty_pile_def)
  have its: "item_at sample_flow ''a'' \<noteq> None" "item_at sample_flow ''b'' \<noteq> None" by code_simp+
  have names: "fl_names sample_flow = [(''ready'', ''p'')]" "fl_items sample_flow = two_items" by (simp_all add: sample_flow_def)
  have "progs_ok (dom (item_at sample_flow)) (fl_progressions sample_flow)"
    using ps its by (auto simp: progs_ok_def sample_prog stage_props split: if_splits)
  moreover have "names_ok (fl_names sample_flow) (fl_progressions sample_flow)"
    by (auto simp: names_ok_def sample_prog stage_props names split: if_splits)
  ultimately show ?thesis using two_items_ok names(2) by (simp add: flow_ok_def)
qed

theorem flow_operations_witness:
  "map_sum id el_id (fst (remove_item ''a'' sample_flow)) = Inr ''a'' \<and> flow_ok (snd (remove_item ''a'' sample_flow))"
proof -
  have r: "map_sum id el_id (fst (remove_item ''a'' sample_flow)) = Inr ''a''" by code_simp
  obtain x f' where x: "remove_item ''a'' sample_flow = (Inr x, f')"
    using r by (cases "remove_item ''a'' sample_flow"; cases "fst (remove_item ''a'' sample_flow)") auto
  have ok: "prog_ok (fp_prog (stage ''q'' ''late'' []))" by (simp add: stage_def new_progression_ok)
  have "flow_ok f' \<longleftrightarrow> (\<forall>u pr. prog_at sample_flow u = Some pr \<longrightarrow> count_list (pg_order (fp_prog pr)) ''a'' \<le> 1)"
    using flow_operations [OF sample_flow_ok ok, where uid = "''a''"] unfolding x prod.case sum.case by blast
  then have "flow_ok f'" by (simp add: sample_prog stage_def new_progression_def)
  then show ?thesis using r x by simp
qed

text \<open>A progression that holds the id twice keeps it after the item is gone.\<close>

lemma repeated_id_dangles:
  "map_option (\<lambda>pr. pg_order (fp_prog pr))
     (prog_at (snd (remove_item ''a'' (sample_flow\<lparr>fl_progressions := store (stage ''p'' ''ready'' [''a'', ''b'', ''a'']) (empty_pile None False)\<rparr>))) ''p'') =
   Some [''b'', ''a'']"
  by code_simp

text \<open>Two progressions of one name: the constructor accepts them, and removing the first by its id deletes the name of the second.\<close>

lemma shared_name_lost:
  "map_sum id (\<lambda>f. (fl_names f, fl_names (snd (remove_progression (\<lambda>_. None) (RefId ''p'') f))))
     (new_flow None two_items (store (stage ''q'' ''ready'' []) (store (stage ''p'' ''ready'' []) (empty_pile None False)))) =
   Inr ([(''ready'', ''q'')], [])"
  by code_simp

end
