(* ===== verification/Sql_Ddl.thy ===== *)
theory Sql_Ddl
  imports Py_Text
begin

text \<open>
  SQL identifiers (\<open>libs/kron/src/kron/utils/sql/_sql_validation.py\<close>) and the specifications of tables with the DDL text they generate
  (\<open>libs/kron/src/kron/specs/adapters/sql_ddl.py\<close>). Identifiers are validated before they are written into a statement.
\<close>

section \<open>Identifiers\<close>

datatype sql_error =
    EmptyIdentifier string | IdentifierTooLong string string | UnsafeIdentifier string string
  | InvalidClause string | InvalidOrderColumn string | InvalidOrderDirection string | EmptyOrderBy string

definition newline :: char where
  "newline = CHR 0x0A"

definition identifier_start :: "char \<Rightarrow> bool" where
  "identifier_start c \<longleftrightarrow> 97 \<le> code c \<and> code c \<le> 122 \<or> 65 \<le> code c \<and> code c \<le> 90 \<or> code c = 95"

definition identifier_char :: "char \<Rightarrow> bool" where
  "identifier_char c \<longleftrightarrow> identifier_start c \<or> 48 \<le> code c \<and> code c \<le> 57"

text \<open>The regular expression \<open>^[a-zA-Z_][a-zA-Z0-9_]*$\<close>, whose dollar also matches before a newline at the end.\<close>

definition safe_identifier :: "string \<Rightarrow> bool" where
  "safe_identifier s =
    (let body = (if s \<noteq> [] \<and> last s = newline then butlast s else s)
     in body \<noteq> [] \<and> identifier_start (hd body) \<and> list_all identifier_char body)"

definition max_identifier_length :: nat where
  "max_identifier_length = 63"

definition validate_identifier :: "string \<Rightarrow> string \<Rightarrow> (sql_error, string) result" where
  "validate_identifier name kind =
    (if name = [] then Inl (EmptyIdentifier kind)
     else if length name > max_identifier_length then Inl (IdentifierTooLong kind name)
     else if \<not> safe_identifier name then Inl (UnsafeIdentifier kind name)
     else Inr name)"

definition quoted :: "string \<Rightarrow> string" where
  "quoted s = CHR 0x22 # s @ [CHR 0x22]"

fun order_clause :: "string \<Rightarrow> (sql_error, string) result" where
  "order_clause clause =
    (let tokens = py_words clause
     in bind_r
          (if length tokens = 1 then Inr (hd tokens, ''ASC'')
           else if length tokens = 2 then Inr (hd tokens, py_upper (tokens ! 1))
           else Inl (InvalidClause clause))
          (\<lambda>(column, direction).
             if \<not> safe_identifier column then Inl (InvalidOrderColumn column)
             else if direction \<notin> {''ASC'', ''DESC''} then Inl (InvalidOrderDirection direction)
             else Inr (quoted column @ '' '' @ direction)))"

definition sanitize_order_by :: "string \<Rightarrow> (sql_error, string) result" where
  "sanitize_order_by order_by =
    bind_r (map_r order_clause (filter (\<lambda>c. c \<noteq> []) (map py_strip (py_split (CHR '','') order_by))))
      (\<lambda>parts. if parts = [] then Inl (EmptyOrderBy order_by) else Inr (py_join '', '' parts))"

section \<open>Specifications\<close>

datatype OnAction = CASCADE | SET_NULL | SET_DEFAULT | RESTRICT | NO_ACTION

fun on_action_value :: "OnAction \<Rightarrow> string" where
  "on_action_value CASCADE = ''CASCADE''"
| "on_action_value SET_NULL = ''SET NULL''"
| "on_action_value SET_DEFAULT = ''SET DEFAULT''"
| "on_action_value RESTRICT = ''RESTRICT''"
| "on_action_value NO_ACTION = ''NO ACTION''"

datatype IndexMethod = BTREE | HASH | GIST | GIN | SPGIST | BRIN | IVFFLAT | HNSW

fun index_method_value :: "IndexMethod \<Rightarrow> string" where
  "index_method_value BTREE = ''btree''"
| "index_method_value HASH = ''hash''"
| "index_method_value GIST = ''gist''"
| "index_method_value GIN = ''gin''"
| "index_method_value SPGIST = ''spgist''"
| "index_method_value BRIN = ''brin''"
| "index_method_value IVFFLAT = ''ivfflat''"
| "index_method_value HNSW = ''hnsw''"

record ColumnSpec =
  co_name :: string
  co_type :: string
  co_nullable :: bool
  co_default :: "string option"
  co_primary :: bool
  co_unique :: bool

record ForeignKeySpec =
  fk_name :: string
  fk_columns :: "string list"
  fk_ref_table :: string
  fk_ref_columns :: "string list"
  fk_on_delete :: OnAction
  fk_on_update :: OnAction
  fk_deferrable :: bool
  fk_initially_deferred :: bool

record IndexSpec =
  ix_name :: string
  ix_columns :: "string list"
  ix_unique :: bool
  ix_method :: IndexMethod
  ix_where :: "string option"
  ix_concurrently :: bool
  ix_include :: "string list"

record TriggerSpec =
  tg_name :: string
  tg_timing :: string
  tg_events :: "string list"
  tg_function :: string
  tg_for_each :: string
  tg_when :: "string option"

record CheckConstraintSpec =
  ck_name :: string
  ck_expression :: string

record UniqueConstraintSpec =
  uq_name :: string
  uq_columns :: "string list"

record TableSpec =
  tb_name :: string
  tb_schema :: string
  tb_columns :: "ColumnSpec list"
  tb_primary_key :: "string list"
  tb_foreign_keys :: "ForeignKeySpec list"
  tb_indexes :: "IndexSpec list"
  tb_triggers :: "TriggerSpec list"
  tb_checks :: "CheckConstraintSpec list"
  tb_uniques :: "UniqueConstraintSpec list"

record SchemaSpec =
  sm_tables :: "TableSpec list"
  sm_version :: "string option"

section \<open>DDL text\<close>

definition validate_all :: "string \<Rightarrow> string list \<Rightarrow> (sql_error, unit) result" where
  "validate_all kind names = bind_r (map_r (\<lambda>n. validate_identifier n kind) names) (\<lambda>_. Inr ())"

definition column_list :: "string list \<Rightarrow> string" where
  "column_list cols = py_join '', '' (map quoted cols)"

definition qualify :: "string \<Rightarrow> string \<Rightarrow> string" where
  "qualify schema name = quoted schema @ ''.'' @ quoted name"

definition column_to_ddl :: "ColumnSpec \<Rightarrow> (sql_error, string) result" where
  "column_to_ddl c =
    bind_r (validate_identifier (co_name c) ''column name'') (\<lambda>_.
      Inr (py_join '' ''
        ([quoted (co_name c), co_type c] @
         (if co_primary c then [''PRIMARY KEY''] else if \<not> co_nullable c then [''NOT NULL''] else []) @
         (case co_default c of None \<Rightarrow> [] | Some d \<Rightarrow> [''DEFAULT '' @ d]) @
         (if co_unique c \<and> \<not> co_primary c then [''UNIQUE''] else []))))"

definition fk_to_ddl :: "string \<Rightarrow> ForeignKeySpec \<Rightarrow> (sql_error, string) result" where
  "fk_to_ddl table fk =
    bind_r (validate_identifier table ''table name'') (\<lambda>_.
    bind_r (validate_identifier (fk_name fk) ''constraint name'') (\<lambda>_.
    bind_r (validate_identifier (fk_ref_table fk) ''referenced table name'') (\<lambda>_.
    bind_r (validate_all ''column name'' (fk_columns fk)) (\<lambda>_.
    bind_r (validate_all ''referenced column name'' (fk_ref_columns fk)) (\<lambda>_.
      Inr (''ALTER TABLE '' @ quoted table @ '' ADD CONSTRAINT '' @ quoted (fk_name fk) @
        '' FOREIGN KEY ('' @ column_list (fk_columns fk) @ '') REFERENCES '' @ quoted (fk_ref_table fk) @
        '' ('' @ column_list (fk_ref_columns fk) @ '') ON DELETE '' @ on_action_value (fk_on_delete fk) @
        '' ON UPDATE '' @ on_action_value (fk_on_update fk) @
        (if fk_deferrable fk then '' DEFERRABLE'' @ (if fk_initially_deferred fk then '' INITIALLY DEFERRED'' else []) else [])))))))"

text \<open>A condition that is absent or empty is left out.\<close>

definition condition_part :: "(string \<Rightarrow> 'a) \<Rightarrow> string option \<Rightarrow> 'a list" where
  "condition_part f w = (case w of None \<Rightarrow> [] | Some e \<Rightarrow> if e = [] then [] else [f e])"

definition index_to_ddl :: "string \<Rightarrow> string \<Rightarrow> IndexSpec \<Rightarrow> (sql_error, string) result" where
  "index_to_ddl table schema ix =
    bind_r (validate_identifier table ''table name'') (\<lambda>_.
    bind_r (validate_identifier schema ''schema name'') (\<lambda>_.
    bind_r (validate_identifier (ix_name ix) ''index name'') (\<lambda>_.
    bind_r (validate_all ''column name'' (ix_columns ix)) (\<lambda>_.
    bind_r (validate_all ''included column name'' (ix_include ix)) (\<lambda>_.
      Inr (py_join '' ''
        ([''CREATE''] @ (if ix_unique ix then [''UNIQUE''] else []) @ [''INDEX''] @
         (if ix_concurrently ix then [''CONCURRENTLY''] else []) @
         [''IF NOT EXISTS '' @ quoted (ix_name ix), ''ON '' @ qualify schema table] @
         (if ix_method ix \<noteq> BTREE then [''USING '' @ index_method_value (ix_method ix)] else []) @
         [''('' @ column_list (ix_columns ix) @ '')''] @
         (if ix_include ix \<noteq> [] then [''INCLUDE ('' @ column_list (ix_include ix) @ '')''] else []) @
         condition_part (\<lambda>e. ''WHERE '' @ e) (ix_where ix)) @ '';''))))))"

definition trigger_to_ddl :: "string \<Rightarrow> string \<Rightarrow> TriggerSpec \<Rightarrow> (sql_error, string) result" where
  "trigger_to_ddl table schema tg =
    bind_r (validate_identifier table ''table name'') (\<lambda>_.
    bind_r (validate_identifier schema ''schema name'') (\<lambda>_.
    bind_r (validate_identifier (tg_name tg) ''trigger name'') (\<lambda>_.
      Inr (''CREATE TRIGGER '' @ quoted (tg_name tg) @ '' '' @ tg_timing tg @ '' '' @ py_join '' OR '' (tg_events tg) @
        '' ON '' @ qualify schema table @ '' FOR EACH '' @ tg_for_each tg @ '' '' @
        concat (condition_part (\<lambda>e. ''WHEN ('' @ e @ '') '') (tg_when tg)) @ ''EXECUTE FUNCTION '' @ tg_function tg @ ''();''))))"

definition check_to_ddl :: "string \<Rightarrow> string \<Rightarrow> CheckConstraintSpec \<Rightarrow> (sql_error, string) result" where
  "check_to_ddl table schema ck =
    bind_r (validate_identifier table ''table name'') (\<lambda>_.
    bind_r (validate_identifier schema ''schema name'') (\<lambda>_.
    bind_r (validate_identifier (ck_name ck) ''constraint name'') (\<lambda>_.
      Inr (''ALTER TABLE '' @ qualify schema table @ '' ADD CONSTRAINT '' @ quoted (ck_name ck) @
        '' CHECK ('' @ ck_expression ck @ '');''))))"

definition unique_to_ddl :: "string \<Rightarrow> string \<Rightarrow> UniqueConstraintSpec \<Rightarrow> (sql_error, string) result" where
  "unique_to_ddl table schema uq =
    bind_r (validate_identifier table ''table name'') (\<lambda>_.
    bind_r (validate_identifier schema ''schema name'') (\<lambda>_.
    bind_r (validate_identifier (uq_name uq) ''constraint name'') (\<lambda>_.
    bind_r (validate_all ''column name'' (uq_columns uq)) (\<lambda>_.
      Inr (''ALTER TABLE '' @ qualify schema table @ '' ADD CONSTRAINT '' @ quoted (uq_name uq) @
        '' UNIQUE ('' @ column_list (uq_columns uq) @ '');'')))))"

definition qualified_name :: "TableSpec \<Rightarrow> (sql_error, string) result" where
  "qualified_name t =
    bind_r (validate_identifier (tb_schema t) ''schema name'') (\<lambda>_.
    bind_r (validate_identifier (tb_name t) ''table name'') (\<lambda>_. Inr (qualify (tb_schema t) (tb_name t))))"

definition get_column :: "string \<Rightarrow> TableSpec \<Rightarrow> ColumnSpec option" where
  "get_column name t = find_first (\<lambda>c. co_name c = name) (tb_columns t)"

definition get_table :: "string \<Rightarrow> SchemaSpec \<Rightarrow> TableSpec option" where
  "get_table name s = find_first (\<lambda>t. tb_name t = name) (sm_tables s)"

definition to_create_table_ddl :: "bool \<Rightarrow> TableSpec \<Rightarrow> (sql_error, string) result" where
  "to_create_table_ddl if_not_exists t =
    bind_r (map_r column_to_ddl (tb_columns t)) (\<lambda>cols.
    bind_r (qualified_name t) (\<lambda>name.
      Inr (''CREATE TABLE '' @ (if if_not_exists then ''IF NOT EXISTS '' else []) @ name @ '' ('' @ [newline] @ ''    '' @
        py_join ('','' @ [newline] @ ''    '') cols @ [newline] @ '');'')))"

definition to_full_ddl :: "TableSpec \<Rightarrow> (sql_error, string list) result" where
  "to_full_ddl t =
    bind_r (to_create_table_ddl True t) (\<lambda>create.
    bind_r (map_r (unique_to_ddl (tb_name t) (tb_schema t)) (tb_uniques t)) (\<lambda>uqs.
    bind_r (map_r (check_to_ddl (tb_name t) (tb_schema t)) (tb_checks t)) (\<lambda>cks.
    bind_r (map_r (\<lambda>fk. bind_r (fk_to_ddl (tb_name t) fk) (\<lambda>ddl. Inr (ddl @ '';''))) (tb_foreign_keys t)) (\<lambda>fks.
    bind_r (map_r (index_to_ddl (tb_name t) (tb_schema t)) (tb_indexes t)) (\<lambda>ixs.
    bind_r (map_r (trigger_to_ddl (tb_name t) (tb_schema t)) (tb_triggers t)) (\<lambda>tgs.
      Inr ([create] @ uqs @ cks @ fks @ ixs @ tgs)))))))"

section \<open>Properties\<close>

lemma identifier_char_plain: "identifier_char c \<Longrightarrow> c \<noteq> CHR 0x22 \<and> c \<noteq> newline \<and> \<not> py_isspace c \<and> c \<noteq> CHR '';''"
  by (auto simp: identifier_char_def identifier_start_def newline_def py_isspace_def code_def)

lemma safe_identifier_chars:
  assumes "safe_identifier s"
  obtains body where "body \<noteq> []" "identifier_start (hd body)" "list_all identifier_char body" "s = body \<or> s = body @ [newline]"
proof -
  define body where "body = (if s \<noteq> [] \<and> last s = newline then butlast s else s)"
  have "s = body \<or> s = body @ [newline]" by (auto simp: body_def dest: append_butlast_last_id)
  then show thesis using assms that unfolding safe_identifier_def Let_def body_def [symmetric] by blast
qed

lemma py_words_nonblank: "w \<in> set (py_words s) \<Longrightarrow> w \<noteq> [] \<and> (\<forall>c\<in>set w. \<not> py_isspace c)"
proof (induction s rule: py_words.induct)
  case (2 c cs)
  show ?case
  proof (cases "py_isspace c")
    case False
    then consider "w = c # takeWhile (\<lambda>x. \<not> py_isspace x) cs" | "w \<in> set (py_words (dropWhile (\<lambda>x. \<not> py_isspace x) cs))"
      using "2.prems" by auto
    then show ?thesis
    proof cases
      case 1
      then show ?thesis using False by (auto dest: set_takeWhileD)
    next
      case 2
      then show ?thesis by (rule "2.IH"(2) [OF False])
    qed
  next
    case True
    then show ?thesis using "2.IH"(1) [OF True] "2.prems" by simp
  qed
qed simp

lemma safe_word:
  assumes "safe_identifier w" "\<forall>c\<in>set w. \<not> py_isspace c"
  shows "list_all identifier_char w"
proof -
  obtain body where b: "list_all identifier_char body" "w = body \<or> w = body @ [newline]" by (rule safe_identifier_chars [OF assms(1)])
  moreover have "py_isspace newline" by (simp add: py_isspace_def newline_def code_def)
  ultimately show ?thesis using assms(2) by auto
qed

lemma order_clause_shape:
  assumes "order_clause clause = Inr part"
  shows "\<exists>col dir. part = quoted col @ '' '' @ dir \<and> list_all identifier_char col \<and> dir \<in> {''ASC'', ''DESC''}"
proof -
  obtain col dir where p: "part = quoted col @ '' '' @ dir" "safe_identifier col" "dir \<in> {''ASC'', ''DESC''}" "col \<in> set (py_words clause)"
  proof -
    consider (one) w where "py_words clause = [w]" | (two) w d where "py_words clause = [w, d]"
      | (other) "length (py_words clause) \<noteq> 1" "length (py_words clause) \<noteq> 2"
      by (cases "py_words clause" rule: remdups_adj.cases) (simp_all add: neq_Nil_conv, metis list.exhaust)
    then show thesis
    proof cases
      case one
      with assms have "safe_identifier w" "part = quoted w @ '' '' @ ''ASC''" by (simp_all add: Let_def split: if_splits)
      with one show thesis by (intro that [of w "''ASC''"]) simp_all
    next
      case two
      with assms have "safe_identifier w" "py_upper d \<in> {''ASC'', ''DESC''}" "part = quoted w @ '' '' @ py_upper d"
        by (simp_all add: Let_def split: if_splits)
      with two show thesis by (intro that [of w "py_upper d"]) simp_all
    next
      case other
      with assms show thesis by (simp add: Let_def)
    qed
  qed
  then show ?thesis using safe_word [OF p(2)] py_words_nonblank [OF p(4)] by blast
qed

text \<open>C29: Identifiers that pass the validation have 1 to 63 characters, and none of them but a newline at the end is anything but a letter of
  ASCII, a digit or an underscore, so none can end the quotes it is written in. A sanitised ORDER BY clause is a non-empty list of quoted columns of such characters,
  each with \<open>ASC\<close> or \<open>DESC\<close>.\<close>

theorem identifiers_inert:
  "(case validate_identifier name kind of
      Inr s \<Rightarrow> s = name \<and> 1 \<le> length s \<and> length s \<le> 63 \<and>
        (\<exists>body. (s = body \<or> s = body @ [newline]) \<and> body \<noteq> [] \<and> list_all identifier_char body \<and> CHR 0x22 \<notin> set s)
    | Inl e \<Rightarrow> e \<in> {EmptyIdentifier kind, IdentifierTooLong kind name, UnsafeIdentifier kind name}) \<and>
   (case sanitize_order_by order_by of
      Inr t \<Rightarrow> \<exists>cds. cds \<noteq> [] \<and> t = py_join '', '' (map (\<lambda>(col, dir). quoted col @ '' '' @ dir) cds) \<and>
        list_all (\<lambda>(col, dir). list_all identifier_char col \<and> dir \<in> {''ASC'', ''DESC''}) cds
    | Inl _ \<Rightarrow> True)"
proof
  show "case validate_identifier name kind of
      Inr s \<Rightarrow> s = name \<and> 1 \<le> length s \<and> length s \<le> 63 \<and>
        (\<exists>body. (s = body \<or> s = body @ [newline]) \<and> body \<noteq> [] \<and> list_all identifier_char body \<and> CHR 0x22 \<notin> set s)
    | Inl e \<Rightarrow> e \<in> {EmptyIdentifier kind, IdentifierTooLong kind name, UnsafeIdentifier kind name}"
  proof (cases "safe_identifier name \<and> name \<noteq> [] \<and> length name \<le> 63")
    case True
    then obtain body where b: "body \<noteq> []" "list_all identifier_char body" "name = body \<or> name = body @ [newline]"
      using safe_identifier_chars by blast
    have "CHR 0x22 \<notin> set body" using b(2) identifier_char_plain unfolding list_all_iff by blast
    then have "CHR 0x22 \<notin> set name" using b(3) by (auto simp: newline_def)
    moreover have "validate_identifier name kind = Inr name" "1 \<le> length name" "length name \<le> 63"
      using True by (simp_all add: validate_identifier_def max_identifier_length_def Suc_le_eq)
    ultimately show ?thesis using b by (simp only: sum.case) blast
  next
    case False
    then consider "validate_identifier name kind = Inl (EmptyIdentifier kind)"
      | "validate_identifier name kind = Inl (IdentifierTooLong kind name)" | "validate_identifier name kind = Inl (UnsafeIdentifier kind name)"
      unfolding validate_identifier_def max_identifier_length_def by (metis not_le)
    then show ?thesis by cases simp_all
  qed
  show "case sanitize_order_by order_by of
      Inr t \<Rightarrow> \<exists>cds. cds \<noteq> [] \<and> t = py_join '', '' (map (\<lambda>(col, dir). quoted col @ '' '' @ dir) cds) \<and>
        list_all (\<lambda>(col, dir). list_all identifier_char col \<and> dir \<in> {''ASC'', ''DESC''}) cds
    | Inl _ \<Rightarrow> True"
  proof (cases "sanitize_order_by order_by")
    case (Inr t)
    then obtain cs parts where parts: "list_all2 (\<lambda>c p. order_clause c = Inr p) cs parts" "parts \<noteq> []" "t = py_join '', '' parts"
      by (auto simp: sanitize_order_by_def map_r_Inr split: if_splits simp del: order_clause.simps)
    have "\<forall>p\<in>set parts. \<exists>cd. p = quoted (fst cd) @ '' '' @ snd cd \<and> list_all identifier_char (fst cd) \<and> snd cd \<in> {''ASC'', ''DESC''}"
      using parts(1) order_clause_shape by (fastforce simp: list_all2_conv_all_nth in_set_conv_nth simp del: order_clause.simps)
    then obtain f where f: "\<forall>p\<in>set parts. p = quoted (fst (f p)) @ '' '' @ snd (f p) \<and> list_all identifier_char (fst (f p)) \<and> snd (f p) \<in> {''ASC'', ''DESC''}"
      by metis
    then have "map (\<lambda>(col, dir). quoted col @ '' '' @ dir) (map f parts) = parts" by (auto simp: case_prod_beta intro!: map_idI)
    moreover have "list_all (\<lambda>(col, dir). list_all identifier_char col \<and> dir \<in> {''ASC'', ''DESC''}) (map f parts)"
      using f by (simp add: list_all_iff case_prod_beta)
    ultimately show ?thesis using Inr parts(2,3) by (simp only: sum.case) (rule exI [of _ "map f parts"], simp)
  qed simp
qed

text \<open>A newline at the end gets through.\<close>

lemma trailing_newline_accepted: "validate_identifier (''users'' @ [newline]) ''table name'' = Inr (''users'' @ [newline])"
  by code_simp

end
