(* ===== verification/Schema_Diff.thy ===== *)
theory Schema_Diff
  imports Sql_Ddl
begin

text \<open>
  The schema diff engine (\<open>libs/canon/src/canon/db/migration/diff.py\<close>): two specifications are compared and the differences become a
  plan of operations with a risk, a phase and the DDL text. Python iterates over sets of names in an unspecified order; the parameter \<open>it\<close>
  lists a set in that order. Failures are those of the identifier validation.
\<close>

section \<open>Operations and plans\<close>

datatype OperationRisk = SAFE | CAREFUL | DANGEROUS

datatype OperationType =
    CREATE_TABLE | DROP_TABLE
  | ADD_COLUMN | DROP_COLUMN | ALTER_COLUMN_TYPE | ALTER_COLUMN_NULLABLE | ALTER_COLUMN_DEFAULT
  | ADD_FOREIGN_KEY | DROP_FOREIGN_KEY | ADD_CHECK_CONSTRAINT | DROP_CHECK_CONSTRAINT | ADD_UNIQUE_CONSTRAINT | DROP_UNIQUE_CONSTRAINT
  | CREATE_INDEX | DROP_INDEX
  | CREATE_TRIGGER | DROP_TRIGGER | REPLACE_TRIGGER

record MigrationOp =
  mo_type :: OperationType
  mo_risk :: OperationRisk
  mo_table :: string
  mo_object :: "string option"
  mo_ddl :: string
  mo_phase :: string
  mo_description :: string

record MigrationPlan =
  mp_operations :: "MigrationOp list"
  mp_hash_before :: "string option"
  mp_hash_after :: "string option"

definition has_dangerous :: "MigrationPlan \<Rightarrow> bool" where
  "has_dangerous p = list_ex (\<lambda>op. mo_risk op = DANGEROUS) (mp_operations p)"

definition phase_a_ops :: "MigrationPlan \<Rightarrow> MigrationOp list" where
  "phase_a_ops p = filter (\<lambda>op. mo_phase op = ''A'') (mp_operations p)"

definition phase_b_ops :: "MigrationPlan \<Rightarrow> MigrationOp list" where
  "phase_b_ops p = filter (\<lambda>op. mo_phase op = ''B'') (mp_operations p)"

definition plan_to_sql :: "string option \<Rightarrow> MigrationPlan \<Rightarrow> string" where
  "plan_to_sql phase p =
    (let ops = (case phase of
                  None \<Rightarrow> mp_operations p
                | Some ph \<Rightarrow> if ph = [] then mp_operations p else filter (\<lambda>op. mo_phase op = ph) (mp_operations p))
     in py_join [newline] (concat (map (\<lambda>op. if mo_ddl op = [] then [] else [''-- '' @ mo_description op, mo_ddl op, []]) ops)))"

section \<open>Columns\<close>

text \<open>The number in the brackets of a type: \<open>int(t.split("(")[1].rstrip(")"))\<close>, if it is one.\<close>

definition type_length :: "string \<Rightarrow> int option" where
  "type_length t = (case py_split (CHR ''('') t of _ # p # _ \<Rightarrow> int_of_str (py_rstrip (CHR '')'') p) | _ \<Rightarrow> None)"

definition safe_widenings :: "(string \<times> string) list" where
  "safe_widenings =
    [(''INTEGER'', ''BIGINT''), (''SMALLINT'', ''INTEGER''), (''SMALLINT'', ''BIGINT''), (''REAL'', ''DOUBLE PRECISION''), (''VARCHAR'', ''TEXT'')]"

definition classify_type_change :: "string \<Rightarrow> string \<Rightarrow> OperationRisk" where
  "classify_type_change from_type to_type =
    (let from_upper = py_upper from_type; to_upper = py_upper to_type
     in if (from_upper, to_upper) \<in> set safe_widenings then SAFE
        else if py_startswith ''VARCHAR'' from_upper \<and> py_startswith ''VARCHAR'' to_upper \<and>
          (case (type_length from_upper, type_length to_upper) of (Some f, Some t) \<Rightarrow> f \<le> t | _ \<Rightarrow> False) then SAFE
        else DANGEROUS)"

definition alter_table :: "string \<Rightarrow> string" where
  "alter_table table = ''ALTER TABLE '' @ quoted table @ '' ''"

definition alter_column :: "string \<Rightarrow> string \<Rightarrow> string" where
  "alter_column table column = alter_table table @ ''ALTER COLUMN '' @ quoted column @ '' ''"

definition column_op :: "OperationType \<Rightarrow> OperationRisk \<Rightarrow> string \<Rightarrow> string \<Rightarrow> string \<Rightarrow> string \<Rightarrow> MigrationOp" where
  "column_op ty risk table name ddl desc =
    \<lparr>mo_type = ty, mo_risk = risk, mo_table = table, mo_object = Some name, mo_ddl = ddl, mo_phase = ''A'', mo_description = desc\<rparr>"

fun diff_columns :: "ColumnSpec option \<Rightarrow> ColumnSpec option \<Rightarrow> string \<Rightarrow> (sql_error, MigrationOp list) result" where
  "diff_columns None None table = Inr []"
| "diff_columns None (Some d) table =
    bind_r (column_to_ddl d) (\<lambda>ddl.
      Inr [column_op ADD_COLUMN (if co_nullable d then SAFE else CAREFUL) table (co_name d)
             (alter_table table @ ''ADD COLUMN '' @ ddl @ '';'') (''Add column '' @ co_name d @ '' to '' @ table)])"
| "diff_columns (Some c) None table =
    Inr [column_op DROP_COLUMN DANGEROUS table (co_name c)
           (alter_table table @ ''DROP COLUMN '' @ quoted (co_name c) @ '';'') (''Drop column '' @ co_name c @ '' from '' @ table)]"
| "diff_columns (Some c) (Some d) table =
    Inr ((if co_type c \<noteq> co_type d
          then [column_op ALTER_COLUMN_TYPE (classify_type_change (co_type c) (co_type d)) table (co_name d)
                  (alter_column table (co_name d) @ ''TYPE '' @ co_type d @ '';'')
                  (''Change type of '' @ co_name d @ '' from '' @ co_type c @ '' to '' @ co_type d)]
          else []) @
         (if co_nullable c \<noteq> co_nullable d
          then [column_op ALTER_COLUMN_NULLABLE (if co_nullable d then SAFE else CAREFUL) table (co_name d)
                  (alter_column table (co_name d) @ (if co_nullable d then ''DROP NOT NULL;'' else ''SET NOT NULL;''))
                  ((if co_nullable d then ''Allow'' else ''Disallow'') @ '' NULL for '' @ co_name d)]
          else []) @
         (if co_default c \<noteq> co_default d
          then [column_op ALTER_COLUMN_DEFAULT SAFE table (co_name d)
                  (alter_column table (co_name d) @
                     (case co_default d of None \<Rightarrow> ''DROP DEFAULT;'' | Some e \<Rightarrow> ''SET DEFAULT '' @ e @ '';''))
                  (''Change default of '' @ co_name d)]
          else []))"

section \<open>Named objects\<close>

text \<open>A \<open>for\<close> loop that extends the list of operations.\<close>

definition concat_r :: "('a \<Rightarrow> ('e, 'b list) result) \<Rightarrow> 'a list \<Rightarrow> ('e, 'b list) result" where
  "concat_r f xs = bind_r (map_r f xs) (\<lambda>yss. Inr (concat yss))"

text \<open>The three loops that the comparisons of foreign keys, indexes, triggers and constraints share: what to drop, what to add and what to replace.\<close>

definition diff_named ::
  "(string set \<Rightarrow> string list) \<Rightarrow> ('a \<Rightarrow> string) \<Rightarrow> (string \<Rightarrow> MigrationOp) \<Rightarrow>
   ('a \<Rightarrow> (sql_error, MigrationOp list) result) \<Rightarrow> ('a \<Rightarrow> (sql_error, MigrationOp list) result) \<Rightarrow>
   'a list \<Rightarrow> 'a list \<Rightarrow> (sql_error, MigrationOp list) result" where
  "diff_named it key rm add replace current desired =
    (let cs = key ` set current; ds = key ` set desired
     in bind_r (concat_r (\<lambda>n. case by_name key desired n of Some d \<Rightarrow> add d | None \<Rightarrow> Inr []) (it (ds - cs))) (\<lambda>added.
        bind_r (concat_r
           (\<lambda>n. case (by_name key current n, by_name key desired n) of
                  (Some c, Some d) \<Rightarrow> if c \<noteq> d then replace d else Inr []
                | _ \<Rightarrow> Inr [])
           (it (cs \<inter> ds))) (\<lambda>replaced.
          Inr (map rm (it (cs - ds)) @ added @ replaced))))"

definition named_op :: "OperationType \<Rightarrow> OperationRisk \<Rightarrow> string \<Rightarrow> string \<Rightarrow> string \<Rightarrow> string \<Rightarrow> string \<Rightarrow> MigrationOp" where
  "named_op ty risk table name ddl phase desc =
    \<lparr>mo_type = ty, mo_risk = risk, mo_table = table, mo_object = Some name, mo_ddl = ddl, mo_phase = phase, mo_description = desc\<rparr>"

definition drop_constraint :: "string \<Rightarrow> string \<Rightarrow> string" where
  "drop_constraint table name = alter_table table @ ''DROP CONSTRAINT '' @ quoted name @ '';''"

subsection \<open>Foreign keys\<close>

definition drop_fk :: "string \<Rightarrow> string \<Rightarrow> string \<Rightarrow> MigrationOp" where
  "drop_fk table sfx name = named_op DROP_FOREIGN_KEY CAREFUL table name (drop_constraint table name) ''A'' (''Drop FK '' @ name @ sfx)"

definition add_fk :: "string \<Rightarrow> ForeignKeySpec \<Rightarrow> (sql_error, MigrationOp list) result" where
  "add_fk table fk =
    bind_r (fk_to_ddl table fk) (\<lambda>ddl.
      Inr [named_op ADD_FOREIGN_KEY SAFE table (fk_name fk) (ddl @ '' NOT VALID;'') ''A'' (''Add FK '' @ fk_name fk @ '' (NOT VALID)''),
           named_op ADD_FOREIGN_KEY CAREFUL table (fk_name fk) (alter_table table @ ''VALIDATE CONSTRAINT '' @ quoted (fk_name fk) @ '';'') ''B''
             (''Validate FK '' @ fk_name fk)])"

definition replace_fk :: "string \<Rightarrow> ForeignKeySpec \<Rightarrow> (sql_error, MigrationOp list) result" where
  "replace_fk table fk =
    bind_r (fk_to_ddl table fk) (\<lambda>ddl.
      Inr [drop_fk table '' (modified)'' (fk_name fk),
           named_op ADD_FOREIGN_KEY SAFE table (fk_name fk) ddl ''A'' (''Add FK '' @ fk_name fk @ '' (modified)'')])"

definition diff_foreign_keys ::
  "(string set \<Rightarrow> string list) \<Rightarrow> ForeignKeySpec list \<Rightarrow> ForeignKeySpec list \<Rightarrow> string \<Rightarrow> (sql_error, MigrationOp list) result" where
  "diff_foreign_keys it current desired table =
    diff_named it fk_name (drop_fk table []) (add_fk table) (replace_fk table) current desired"

subsection \<open>Indexes\<close>

definition drop_index :: "string \<Rightarrow> string \<Rightarrow> string \<Rightarrow> MigrationOp" where
  "drop_index table sfx name =
    named_op DROP_INDEX CAREFUL table name (''DROP INDEX '' @ quoted name @ '';'') ''A'' (''Drop index '' @ name @ sfx)"

definition create_index :: "string \<Rightarrow> string \<Rightarrow> IndexSpec \<Rightarrow> (sql_error, MigrationOp) result" where
  "create_index table sfx ix =
    bind_r (index_to_ddl table ''public'' (ix\<lparr>ix_concurrently := True\<rparr>)) (\<lambda>ddl.
      Inr (named_op CREATE_INDEX SAFE table (ix_name ix) (ddl @ '';'') ''B'' (''Create index '' @ ix_name ix @ '' CONCURRENTLY'' @ sfx)))"

definition add_index :: "string \<Rightarrow> IndexSpec \<Rightarrow> (sql_error, MigrationOp list) result" where
  "add_index table ix = bind_r (create_index table [] ix) (\<lambda>op. Inr [op])"

definition replace_index :: "string \<Rightarrow> IndexSpec \<Rightarrow> (sql_error, MigrationOp list) result" where
  "replace_index table ix =
    bind_r (create_index table '' (modified)'' ix) (\<lambda>op. Inr [drop_index table '' (modified)'' (ix_name ix), op])"

definition diff_indexes ::
  "(string set \<Rightarrow> string list) \<Rightarrow> IndexSpec list \<Rightarrow> IndexSpec list \<Rightarrow> string \<Rightarrow> (sql_error, MigrationOp list) result" where
  "diff_indexes it current desired table =
    diff_named it ix_name (drop_index table []) (add_index table) (replace_index table) current desired"

subsection \<open>Triggers\<close>

definition drop_trigger :: "string \<Rightarrow> string \<Rightarrow> string \<Rightarrow> string \<Rightarrow> MigrationOp" where
  "drop_trigger table schema sfx name =
    named_op DROP_TRIGGER CAREFUL table name (''DROP TRIGGER '' @ quoted name @ '' ON '' @ qualify schema table @ '';'') ''A''
      (''Drop trigger '' @ name @ sfx)"

definition create_trigger :: "string \<Rightarrow> string \<Rightarrow> TriggerSpec \<Rightarrow> (sql_error, MigrationOp) result" where
  "create_trigger table sfx tg =
    bind_r (trigger_to_ddl table ''public'' tg) (\<lambda>ddl.
      Inr (named_op CREATE_TRIGGER SAFE table (tg_name tg) (ddl @ '';'') ''A'' (''Create trigger '' @ tg_name tg @ sfx)))"

definition add_trigger :: "string \<Rightarrow> TriggerSpec \<Rightarrow> (sql_error, MigrationOp list) result" where
  "add_trigger table tg = bind_r (create_trigger table [] tg) (\<lambda>op. Inr [op])"

definition replace_trigger :: "string \<Rightarrow> string \<Rightarrow> TriggerSpec \<Rightarrow> (sql_error, MigrationOp list) result" where
  "replace_trigger table schema tg =
    bind_r (create_trigger table '' (replacement)'' tg) (\<lambda>op.
      Inr [drop_trigger table schema '' (for replacement)'' (tg_name tg), op])"

definition diff_triggers ::
  "(string set \<Rightarrow> string list) \<Rightarrow> TriggerSpec list \<Rightarrow> TriggerSpec list \<Rightarrow> string \<Rightarrow> string \<Rightarrow> (sql_error, MigrationOp list) result" where
  "diff_triggers it current desired table schema =
    diff_named it tg_name (drop_trigger table schema []) (add_trigger table) (replace_trigger table schema) current desired"

subsection \<open>Check and unique constraints\<close>

definition drop_check :: "string \<Rightarrow> string \<Rightarrow> string \<Rightarrow> MigrationOp" where
  "drop_check table sfx name =
    named_op DROP_CHECK_CONSTRAINT CAREFUL table name (drop_constraint table name) ''A'' (''Drop CHECK constraint '' @ name @ sfx)"

definition add_check_op :: "string \<Rightarrow> string \<Rightarrow> CheckConstraintSpec \<Rightarrow> (sql_error, MigrationOp) result" where
  "add_check_op table sfx ck =
    bind_r (check_to_ddl table ''public'' ck) (\<lambda>ddl.
      Inr (named_op ADD_CHECK_CONSTRAINT CAREFUL table (ck_name ck) (ddl @ '';'') ''A'' (''Add CHECK constraint '' @ ck_name ck @ sfx)))"

definition add_check :: "string \<Rightarrow> CheckConstraintSpec \<Rightarrow> (sql_error, MigrationOp list) result" where
  "add_check table ck = bind_r (add_check_op table [] ck) (\<lambda>op. Inr [op])"

definition replace_check :: "string \<Rightarrow> CheckConstraintSpec \<Rightarrow> (sql_error, MigrationOp list) result" where
  "replace_check table ck =
    bind_r (add_check_op table '' (modified)'' ck) (\<lambda>op. Inr [drop_check table '' (for modification)'' (ck_name ck), op])"

definition diff_check_constraints ::
  "(string set \<Rightarrow> string list) \<Rightarrow> CheckConstraintSpec list \<Rightarrow> CheckConstraintSpec list \<Rightarrow> string \<Rightarrow> (sql_error, MigrationOp list) result" where
  "diff_check_constraints it current desired table =
    diff_named it ck_name (drop_check table []) (add_check table) (replace_check table) current desired"

definition drop_unique :: "string \<Rightarrow> string \<Rightarrow> string \<Rightarrow> MigrationOp" where
  "drop_unique table sfx name =
    named_op DROP_UNIQUE_CONSTRAINT CAREFUL table name (drop_constraint table name) ''A'' (''Drop UNIQUE constraint '' @ name @ sfx)"

definition add_unique_op :: "string \<Rightarrow> string \<Rightarrow> UniqueConstraintSpec \<Rightarrow> (sql_error, MigrationOp) result" where
  "add_unique_op table sfx uq =
    bind_r (unique_to_ddl table ''public'' uq) (\<lambda>ddl.
      Inr (named_op ADD_UNIQUE_CONSTRAINT CAREFUL table (uq_name uq) (ddl @ '';'') ''A'' (''Add UNIQUE constraint '' @ uq_name uq @ sfx)))"

definition add_unique :: "string \<Rightarrow> UniqueConstraintSpec \<Rightarrow> (sql_error, MigrationOp list) result" where
  "add_unique table uq = bind_r (add_unique_op table [] uq) (\<lambda>op. Inr [op])"

definition replace_unique :: "string \<Rightarrow> UniqueConstraintSpec \<Rightarrow> (sql_error, MigrationOp list) result" where
  "replace_unique table uq =
    bind_r (add_unique_op table '' (modified)'' uq) (\<lambda>op. Inr [drop_unique table '' (for modification)'' (uq_name uq), op])"

definition diff_unique_constraints ::
  "(string set \<Rightarrow> string list) \<Rightarrow> UniqueConstraintSpec list \<Rightarrow> UniqueConstraintSpec list \<Rightarrow> string \<Rightarrow> (sql_error, MigrationOp list) result" where
  "diff_unique_constraints it current desired table =
    diff_named it uq_name (drop_unique table []) (add_unique table) (replace_unique table) current desired"

section \<open>Tables and schemas\<close>

definition create_ops :: "TableSpec \<Rightarrow> (sql_error, MigrationOp list) result" where
  "create_ops d =
    bind_r (to_create_table_ddl True d) (\<lambda>create.
    bind_r (map_r (\<lambda>fk. bind_r (fk_to_ddl (tb_name d) fk) (\<lambda>ddl.
        Inr (named_op ADD_FOREIGN_KEY SAFE (tb_name d) (fk_name fk) (ddl @ '';'') ''A'' (''Add FK '' @ fk_name fk)))) (tb_foreign_keys d)) (\<lambda>fks.
    bind_r (map_r (\<lambda>ix. bind_r (index_to_ddl (tb_name d) ''public'' ix) (\<lambda>ddl.
        Inr (named_op CREATE_INDEX SAFE (tb_name d) (ix_name ix) (ddl @ '';'') ''A'' (''Create index '' @ ix_name ix)))) (tb_indexes d)) (\<lambda>ixs.
    bind_r (map_r (create_trigger (tb_name d) []) (tb_triggers d)) (\<lambda>tgs.
      Inr ([\<lparr>mo_type = CREATE_TABLE, mo_risk = SAFE, mo_table = tb_name d, mo_object = None, mo_ddl = create, mo_phase = ''A'',
             mo_description = ''Create table '' @ tb_name d\<rparr>] @ fks @ ixs @ tgs)))))"

definition drop_table :: "TableSpec \<Rightarrow> MigrationOp" where
  "drop_table c =
    \<lparr>mo_type = DROP_TABLE, mo_risk = DANGEROUS, mo_table = tb_name c, mo_object = None,
     mo_ddl = ''DROP TABLE '' @ qualify (tb_schema c) (tb_name c) @ '' CASCADE;'', mo_phase = ''A'', mo_description = ''Drop table '' @ tb_name c\<rparr>"

definition alter_ops :: "(string set \<Rightarrow> string list) \<Rightarrow> TableSpec \<Rightarrow> TableSpec \<Rightarrow> (sql_error, MigrationOp list) result" where
  "alter_ops it c d =
    bind_r (concat_r (\<lambda>n. diff_columns (by_name co_name (tb_columns c) n) (by_name co_name (tb_columns d) n) (tb_name d))
              (it (co_name ` set (tb_columns c) \<union> co_name ` set (tb_columns d)))) (\<lambda>cols.
    bind_r (diff_foreign_keys it (tb_foreign_keys c) (tb_foreign_keys d) (tb_name d)) (\<lambda>fks.
    bind_r (diff_indexes it (tb_indexes c) (tb_indexes d) (tb_name d)) (\<lambda>ixs.
    bind_r (diff_triggers it (tb_triggers c) (tb_triggers d) (tb_name d) (tb_schema d)) (\<lambda>tgs.
    bind_r (diff_check_constraints it (tb_checks c) (tb_checks d) (tb_name d)) (\<lambda>cks.
    bind_r (diff_unique_constraints it (tb_uniques c) (tb_uniques d) (tb_name d)) (\<lambda>uqs.
      Inr (cols @ fks @ ixs @ tgs @ cks @ uqs)))))))"

fun diff_tables :: "(string set \<Rightarrow> string list) \<Rightarrow> TableSpec option \<Rightarrow> TableSpec option \<Rightarrow> (sql_error, MigrationOp list) result" where
  "diff_tables it None None = Inr []"
| "diff_tables it None (Some d) = create_ops d"
| "diff_tables it (Some c) None = Inr [drop_table c]"
| "diff_tables it (Some c) (Some d) = alter_ops it c d"

definition diff_schemas :: "(string set \<Rightarrow> string list) \<Rightarrow> SchemaSpec \<Rightarrow> SchemaSpec \<Rightarrow> (sql_error, MigrationPlan) result" where
  "diff_schemas it current desired =
    bind_r (concat_r (\<lambda>n. diff_tables it (by_name tb_name (sm_tables current) n) (by_name tb_name (sm_tables desired) n))
              (sorted_list_of_set (tb_name ` set (sm_tables current) \<union> tb_name ` set (sm_tables desired)))) (\<lambda>ops.
      Inr \<lparr>mp_operations = ops, mp_hash_before = sm_version current, mp_hash_after = sm_version desired\<rparr>)"

end
