(* ===== verification/Schema_Diff_Correct.thy ===== *)
theory Schema_Diff_Correct
  imports Schema_Diff
begin

text \<open>
  Correctness of the schema diff: what a plan contains for each object of a table, whatever order the sets are iterated in, when it is empty, and
  what \<open>has_dangerous\<close> tells.
\<close>

section \<open>Loops over names\<close>

lemma concat_r_Inr:
  "concat_r f xs = Inr ys \<longleftrightarrow> (\<exists>yss. list_all2 (\<lambda>x y. f x = Inr y) xs yss \<and> ys = concat yss)"
  by (auto simp: concat_r_def map_r_Inr)

lemma concat_r_simps [simp]:
  "concat_r f [] = Inr []"
  "concat_r f (x # xs) = bind_r (f x) (\<lambda>y. bind_r (concat_r f xs) (\<lambda>ys. Inr (y @ ys)))"
  by (auto simp: concat_r_def bind_r_def split: sum.splits)

lemma concat_r_set:
  "concat_r f xs = Inr ys \<Longrightarrow> set ys = (\<Union>x\<in>set xs. case f x of Inr zs \<Rightarrow> set zs | Inl _ \<Rightarrow> {})"
  by (induction xs arbitrary: ys) auto

lemma concat_r_defined: "concat_r f xs = Inr ys \<Longrightarrow> x \<in> set xs \<Longrightarrow> \<exists>zs. f x = Inr zs \<and> set zs \<subseteq> set ys"
  by (induction xs arbitrary: ys) fastforce+

lemma concat_r_total: "(\<exists>ys. concat_r f xs = Inr ys) \<longleftrightarrow> (\<forall>x\<in>set xs. \<exists>zs. f x = Inr zs)"
  by (induction xs) auto

lemma concat_r_empty: "concat_r f xs = Inr [] \<longleftrightarrow> (\<forall>x\<in>set xs. f x = Inr [])"
  by (induction xs) auto

text \<open>If the results for different elements do not meet, a filter for one element selects just its results.\<close>

lemma concat_r_filter:
  assumes "concat_r f xs = Inr ys" "distinct xs" "\<And>x zs z. f x = Inr zs \<Longrightarrow> z \<in> set zs \<Longrightarrow> P z \<longleftrightarrow> x = n"
  shows "if n \<in> set xs then f n = Inr (filter P ys) else filter P ys = []"
  using assms(1,2)
proof (induction xs arbitrary: ys)
  case (Cons x xs)
  then obtain zs ws where zs: "f x = Inr zs" "concat_r f xs = Inr ws" "ys = zs @ ws" by auto
  have IH: "if n \<in> set xs then f n = Inr (filter P ws) else filter P ws = []" using Cons.IH [OF zs(2)] Cons.prems(2) by simp
  show ?case
  proof (cases "x = n")
    case True
    then have "filter P zs = zs" using assms(3) [OF zs(1)] by (simp add: filter_id_conv)
    then show ?thesis using IH True Cons.prems(2) zs by simp
  next
    case False
    then have "filter P zs = []" using assms(3) [OF zs(1)] by (simp add: filter_empty_conv)
    then show ?thesis using IH False zs by simp
  qed
qed simp

section \<open>Objects of one kind\<close>

text \<open>The operations about one object: those of its kind's types that carry its name.\<close>

definition ops_about :: "OperationType set \<Rightarrow> string \<Rightarrow> MigrationOp list \<Rightarrow> MigrationOp list" where
  "ops_about kinds n = filter (\<lambda>op. mo_type op \<in> kinds \<and> mo_object op = Some n)"

lemma ops_about_append [simp]: "ops_about K n (xs @ ys) = ops_about K n xs @ ops_about K n ys"
  by (simp add: ops_about_def)

lemma ops_about_other: "(\<And>op. op \<in> set ops \<Longrightarrow> mo_type op \<notin> K) \<Longrightarrow> ops_about K n ops = []"
  by (auto simp: ops_about_def filter_empty_conv)

text \<open>What turns one object into another: nothing, an addition, a removal or a replacement.\<close>

fun named_edit ::
  "(string \<Rightarrow> MigrationOp) \<Rightarrow> ('a \<Rightarrow> (sql_error, MigrationOp list) result) \<Rightarrow> ('a \<Rightarrow> (sql_error, MigrationOp list) result) \<Rightarrow>
   string \<Rightarrow> 'a option \<Rightarrow> 'a option \<Rightarrow> (sql_error, MigrationOp list) result" where
  "named_edit rm add replace n None None = Inr []"
| "named_edit rm add replace n None (Some d) = add d"
| "named_edit rm add replace n (Some c) None = Inr [rm n]"
| "named_edit rm add replace n (Some c) (Some d) = (if c = d then Inr [] else replace d)"

locale object_kind =
  fixes key :: "'a \<Rightarrow> string"
    and kinds :: "OperationType set"
    and rm :: "string \<Rightarrow> MigrationOp"
    and add :: "'a \<Rightarrow> (sql_error, MigrationOp list) result"
    and replace :: "'a \<Rightarrow> (sql_error, MigrationOp list) result"
  assumes rm_about: "mo_type (rm n) \<in> kinds" "mo_object (rm n) = Some n" "mo_risk (rm n) = CAREFUL"
    and add_about: "add d = Inr ops \<Longrightarrow>
      ops \<noteq> [] \<and> list_all (\<lambda>op. mo_type op \<in> kinds \<and> mo_object op = Some (key d) \<and> mo_risk op \<noteq> DANGEROUS) ops"
    and replace_about: "replace d = Inr ops \<Longrightarrow>
      ops \<noteq> [] \<and> list_all (\<lambda>op. mo_type op \<in> kinds \<and> mo_object op = Some (key d) \<and> mo_risk op \<noteq> DANGEROUS) ops"
begin

abbreviation edit :: "'a list \<Rightarrow> 'a list \<Rightarrow> string \<Rightarrow> (sql_error, MigrationOp list) result" where
  "edit current desired n \<equiv> named_edit rm add replace n (by_name key current n) (by_name key desired n)"

lemma edit_about:
  assumes "edit current desired n = Inr ops" "op \<in> set ops"
  shows "mo_type op \<in> kinds \<and> mo_object op = Some n \<and> mo_risk op \<noteq> DANGEROUS"
proof (cases "by_name key desired n")
  case None
  then show ?thesis using assms rm_about by (cases "by_name key current n") auto
next
  case (Some d)
  then have "key d = n" "add d = Inr ops \<or> replace d = Inr ops"
    using assms by (auto dest: by_name_key split: option.splits if_splits) (cases "by_name key current n"; auto split: if_splits)+
  then show ?thesis using add_about [of d ops] replace_about [of d ops] assms(2) by (auto simp: list_all_iff)
qed

lemma edit_empty: "edit current desired n = Inr [] \<longleftrightarrow> by_name key current n = by_name key desired n"
proof -
  have "add d \<noteq> Inr []" "replace d \<noteq> Inr []" for d using add_about [of d "[]"] replace_about [of d "[]"] by auto
  then show ?thesis by (cases "by_name key current n"; cases "by_name key desired n") auto
qed

text \<open>The three loops as one pass over the names to drop, to add and to compare.\<close>

lemma diff_named_edits:
  assumes "lists_sets it"
  shows "\<exists>ns. distinct ns \<and> set ns = key ` set current \<union> key ` set desired \<and>
    diff_named it key rm add replace current desired = concat_r (edit current desired) ns"
proof -
  let ?cs = "key ` set current" and ?ds = "key ` set desired" and ?e = "edit current desired"
  have it: "set (it S) = S" "distinct (it S)" if "finite S" for S using assms that by (auto simp: lists_sets_def)
  have app: "concat_r ?e (as @ bs) = bind_r (concat_r ?e as) (\<lambda>x. bind_r (concat_r ?e bs) (\<lambda>y. Inr (x @ y)))" for as bs
    by (induction as) (auto simp: bind_r_def split: sum.splits)
  have cong: "concat_r f xs = concat_r ?e xs" if "\<And>n. n \<in> set xs \<Longrightarrow> f n = ?e n" for f xs using that by (induction xs) auto
  have drops: "concat_r ?e (it (?cs - ?ds)) = Inr (map rm (it (?cs - ?ds)))"
  proof -
    have "concat_r ?e xs = Inr (map rm xs)" if "set xs \<subseteq> ?cs - ?ds" for xs
      using that
    proof (induction xs)
      case (Cons n xs)
      then obtain c where "by_name key current n = Some c" "by_name key desired n = None"
        using by_name_dom [of key desired n] by_name_mem [of n key current] by auto
      then show ?case using Cons by simp
    qed simp
    then show ?thesis using it(1) by simp
  qed
  have adds: "concat_r (\<lambda>n. case by_name key desired n of Some d \<Rightarrow> add d | None \<Rightarrow> Inr []) (it (?ds - ?cs)) = concat_r ?e (it (?ds - ?cs))"
  proof (rule cong)
    fix n assume "n \<in> set (it (?ds - ?cs))"
    then have "by_name key current n = None" using it(1) [of "?ds - ?cs"] by (simp add: by_name_dom)
    then show "(case by_name key desired n of Some d \<Rightarrow> add d | None \<Rightarrow> Inr []) = ?e n" by (simp split: option.split)
  qed
  have replaces: "concat_r (\<lambda>n. case (by_name key current n, by_name key desired n) of
      (Some c, Some d) \<Rightarrow> if c \<noteq> d then replace d else Inr [] | _ \<Rightarrow> Inr []) (it (?cs \<inter> ?ds)) = concat_r ?e (it (?cs \<inter> ?ds))"
  proof (rule cong)
    fix n assume "n \<in> set (it (?cs \<inter> ?ds))"
    then have "by_name key current n \<noteq> None" "by_name key desired n \<noteq> None" using it(1) [of "?cs \<inter> ?ds"] by (simp_all add: by_name_dom)
    then obtain c d where "by_name key current n = Some c" "by_name key desired n = Some d" by blast
    then show "(case (by_name key current n, by_name key desired n) of
      (Some c, Some d) \<Rightarrow> if c \<noteq> d then replace d else Inr [] | _ \<Rightarrow> Inr []) = ?e n" by simp
  qed
  let ?ns = "it (?cs - ?ds) @ it (?ds - ?cs) @ it (?cs \<inter> ?ds)"
  have "diff_named it key rm add replace current desired = concat_r ?e ?ns"
    unfolding diff_named_def Let_def adds replaces app drops by (auto simp: bind_r_def split: sum.splits)
  moreover have "distinct ?ns" "set ?ns = ?cs \<union> ?ds" using it by auto
  ultimately show ?thesis by blast
qed

lemma diff_named_about:
  assumes "lists_sets it" "diff_named it key rm add replace current desired = Inr ops"
  shows "edit current desired n = Inr (ops_about kinds n ops)" "list_all (\<lambda>op. mo_type op \<in> kinds \<and> mo_risk op \<noteq> DANGEROUS) ops"
proof -
  obtain ns where ns: "distinct ns" "set ns = key ` set current \<union> key ` set desired" "concat_r (edit current desired) ns = Inr ops"
    using diff_named_edits [OF assms(1)] assms(2) by metis
  have "if n \<in> set ns then edit current desired n = Inr (ops_about kinds n ops) else ops_about kinds n ops = []"
    unfolding ops_about_def by (rule concat_r_filter [OF ns(3,1)]) (use edit_about in auto)
  moreover have "edit current desired n = Inr []" if "n \<notin> set ns"
    using that ns(2) by_name_dom [of key current n] by_name_dom [of key desired n] by simp
  ultimately show "edit current desired n = Inr (ops_about kinds n ops)" by (auto split: if_splits)
  show "list_all (\<lambda>op. mo_type op \<in> kinds \<and> mo_risk op \<noteq> DANGEROUS) ops"
    using concat_r_set [OF ns(3)] by (auto simp: list_all_iff split: sum.splits dest: edit_about)
qed

lemma diff_named_empty:
  assumes "lists_sets it"
  shows "diff_named it key rm add replace current desired = Inr [] \<longleftrightarrow> by_name key current = by_name key desired"
proof -
  obtain ns where ns: "set ns = key ` set current \<union> key ` set desired"
      "diff_named it key rm add replace current desired = concat_r (edit current desired) ns"
    using diff_named_edits [OF assms] by metis
  have "by_name key current n = by_name key desired n" if "n \<notin> set ns" for n
    using that ns(1) by_name_dom [of key current n] by_name_dom [of key desired n] by simp
  then show ?thesis unfolding ns(2) concat_r_empty edit_empty fun_eq_iff by blast
qed

end

lemmas fk_ops = drop_fk_def add_fk_def replace_fk_def named_op_def

lemmas index_ops = drop_index_def add_index_def replace_index_def create_index_def named_op_def

lemmas trigger_ops = drop_trigger_def add_trigger_def replace_trigger_def create_trigger_def named_op_def

lemmas check_ops = drop_check_def add_check_def replace_check_def add_check_op_def named_op_def

lemmas unique_ops = drop_unique_def add_unique_def replace_unique_def add_unique_op_def named_op_def

definition column_kinds :: "OperationType set" where
  "column_kinds = {ADD_COLUMN, DROP_COLUMN, ALTER_COLUMN_TYPE, ALTER_COLUMN_NULLABLE, ALTER_COLUMN_DEFAULT}"

definition fk_kinds :: "OperationType set" where
  "fk_kinds = {ADD_FOREIGN_KEY, DROP_FOREIGN_KEY}"

definition index_kinds :: "OperationType set" where
  "index_kinds = {CREATE_INDEX, DROP_INDEX}"

definition trigger_kinds :: "OperationType set" where
  "trigger_kinds = {CREATE_TRIGGER, DROP_TRIGGER}"

definition check_kinds :: "OperationType set" where
  "check_kinds = {ADD_CHECK_CONSTRAINT, DROP_CHECK_CONSTRAINT}"

definition unique_kinds :: "OperationType set" where
  "unique_kinds = {ADD_UNIQUE_CONSTRAINT, DROP_UNIQUE_CONSTRAINT}"

lemmas kinds_defs = column_kinds_def fk_kinds_def index_kinds_def trigger_kinds_def check_kinds_def unique_kinds_def

interpretation fks: object_kind fk_name fk_kinds "drop_fk table []" "add_fk table" "replace_fk table"
  by unfold_locales (auto simp: fk_ops fk_kinds_def)

interpretation ixs: object_kind ix_name index_kinds "drop_index table []" "add_index table" "replace_index table"
  by unfold_locales (auto simp: index_ops index_kinds_def)

interpretation tgs: object_kind tg_name trigger_kinds "drop_trigger table schema []" "add_trigger table" "replace_trigger table schema"
  by unfold_locales (auto simp: trigger_ops trigger_kinds_def)

interpretation cks: object_kind ck_name check_kinds "drop_check table []" "add_check table" "replace_check table"
  by unfold_locales (auto simp: check_ops check_kinds_def)

interpretation uqs: object_kind uq_name unique_kinds "drop_unique table []" "add_unique table" "replace_unique table"
  by unfold_locales (auto simp: unique_ops unique_kinds_def)

section \<open>Columns\<close>

lemma column_op_simps [simp]:
  "mo_type (column_op ty risk table name ddl desc) = ty" "mo_object (column_op ty risk table name ddl desc) = Some name"
  "mo_risk (column_op ty risk table name ddl desc) = risk"
  by (simp_all add: column_op_def)

lemma diff_columns_target:
  assumes "diff_columns c d table = Inr ops" "op \<in> set ops"
  shows "mo_type op \<in> column_kinds \<and> mo_object op \<noteq> None \<and> mo_object op \<in> {map_option co_name c, map_option co_name d}"
  using assms by (cases c; cases d) (auto simp: column_kinds_def split: if_splits)

lemma diff_columns_about:
  assumes "diff_columns (by_name co_name cs n) (by_name co_name ds n) table = Inr ops" "op \<in> set ops"
  shows "mo_type op \<in> column_kinds \<and> mo_object op = Some n"
  using diff_columns_target [OF assms] by (fastforce dest: by_name_key)

definition column_agrees :: "ColumnSpec \<Rightarrow> ColumnSpec \<Rightarrow> bool" where
  "column_agrees c d \<longleftrightarrow> co_type c = co_type d \<and> co_nullable c = co_nullable d \<and> co_default c = co_default d"

lemma diff_columns_empty: "diff_columns c d table = Inr [] \<longleftrightarrow> rel_option column_agrees c d"
  by (cases c; cases d) (auto simp: column_agrees_def)

text \<open>A column is at risk if it goes away or its type changes in a way that is not known to be safe.\<close>

fun column_at_risk :: "ColumnSpec \<Rightarrow> ColumnSpec option \<Rightarrow> bool" where
  "column_at_risk c None \<longleftrightarrow> True"
| "column_at_risk c (Some d) \<longleftrightarrow> co_type c \<noteq> co_type d \<and> classify_type_change (co_type c) (co_type d) \<noteq> SAFE"

lemma classify_not_careful: "classify_type_change f t \<noteq> CAREFUL"
  by (simp add: classify_type_change_def Let_def)

lemma diff_columns_risk:
  assumes "diff_columns c d table = Inr ops"
  shows "list_ex (\<lambda>op. mo_risk op = DANGEROUS) ops \<longleftrightarrow> (\<exists>x. c = Some x \<and> column_at_risk x d)"
proof (cases c)
  case (Some x)
  have "classify_type_change f t = DANGEROUS \<longleftrightarrow> classify_type_change f t \<noteq> SAFE" for f t
    by (cases "classify_type_change f t") (auto simp: classify_not_careful)
  then show ?thesis using Some assms by (cases d) (auto split: if_splits)
qed (use assms in \<open>cases d; auto split: if_splits\<close>)

section \<open>Tables\<close>

lemma alter_ops_parts:
  assumes "alter_ops it c d = Inr ops"
  obtains cols fks ixs tgs cks uqs where
    "concat_r (\<lambda>n. diff_columns (by_name co_name (tb_columns c) n) (by_name co_name (tb_columns d) n) (tb_name d))
       (it (co_name ` set (tb_columns c) \<union> co_name ` set (tb_columns d))) = Inr cols"
    "diff_named it fk_name (drop_fk (tb_name d) []) (add_fk (tb_name d)) (replace_fk (tb_name d)) (tb_foreign_keys c) (tb_foreign_keys d) = Inr fks"
    "diff_named it ix_name (drop_index (tb_name d) []) (add_index (tb_name d)) (replace_index (tb_name d)) (tb_indexes c) (tb_indexes d) = Inr ixs"
    "diff_named it tg_name (drop_trigger (tb_name d) (tb_schema d) []) (add_trigger (tb_name d)) (replace_trigger (tb_name d) (tb_schema d))
       (tb_triggers c) (tb_triggers d) = Inr tgs"
    "diff_named it ck_name (drop_check (tb_name d) []) (add_check (tb_name d)) (replace_check (tb_name d)) (tb_checks c) (tb_checks d) = Inr cks"
    "diff_named it uq_name (drop_unique (tb_name d) []) (add_unique (tb_name d)) (replace_unique (tb_name d)) (tb_uniques c) (tb_uniques d) = Inr uqs"
    "ops = cols @ fks @ ixs @ tgs @ cks @ uqs"
  using assms unfolding alter_ops_def diff_foreign_keys_def diff_indexes_def diff_triggers_def diff_check_constraints_def diff_unique_constraints_def
  by auto

lemma column_ops_about:
  assumes "lists_sets it"
    "concat_r (\<lambda>n. diff_columns (by_name co_name cs n) (by_name co_name ds n) table) (it (co_name ` set cs \<union> co_name ` set ds)) = Inr ops"
  shows "diff_columns (by_name co_name cs n) (by_name co_name ds n) table = Inr (ops_about column_kinds n ops)"
    "list_all (\<lambda>op. mo_type op \<in> column_kinds) ops"
proof -
  let ?ns = "it (co_name ` set cs \<union> co_name ` set ds)"
  have ns: "set ?ns = co_name ` set cs \<union> co_name ` set ds" "distinct ?ns" using assms(1) by (auto simp: lists_sets_def)
  have "if n \<in> set ?ns then diff_columns (by_name co_name cs n) (by_name co_name ds n) table = Inr (ops_about column_kinds n ops)
      else ops_about column_kinds n ops = []"
    unfolding ops_about_def by (rule concat_r_filter [OF assms(2) ns(2)]) (use diff_columns_about in auto)
  moreover have "diff_columns (by_name co_name cs n) (by_name co_name ds n) table = Inr []" if "n \<notin> set ?ns"
    using that ns(1) by_name_dom [of co_name cs n] by_name_dom [of co_name ds n] by simp
  ultimately show "diff_columns (by_name co_name cs n) (by_name co_name ds n) table = Inr (ops_about column_kinds n ops)" by (auto split: if_splits)
  show "list_all (\<lambda>op. mo_type op \<in> column_kinds) ops"
    using concat_r_set [OF assms(2)] by (auto simp: list_all_iff split: sum.splits dest: diff_columns_about)
qed


section \<open>Empty plans\<close>

text \<open>What the comparison looks at: types, nullability and defaults of columns, and the five kinds of named objects.\<close>

definition table_agrees :: "TableSpec \<Rightarrow> TableSpec \<Rightarrow> bool" where
  "table_agrees c d \<longleftrightarrow>
    (\<forall>n. rel_option column_agrees (by_name co_name (tb_columns c) n) (by_name co_name (tb_columns d) n)) \<and>
    by_name fk_name (tb_foreign_keys c) = by_name fk_name (tb_foreign_keys d) \<and>
    by_name ix_name (tb_indexes c) = by_name ix_name (tb_indexes d) \<and>
    by_name tg_name (tb_triggers c) = by_name tg_name (tb_triggers d) \<and>
    by_name ck_name (tb_checks c) = by_name ck_name (tb_checks d) \<and>
    by_name uq_name (tb_uniques c) = by_name uq_name (tb_uniques d)"

lemma column_ops_empty:
  assumes "lists_sets it"
  shows "concat_r (\<lambda>n. diff_columns (by_name co_name cs n) (by_name co_name ds n) table) (it (co_name ` set cs \<union> co_name ` set ds)) = Inr [] \<longleftrightarrow>
    (\<forall>n. rel_option column_agrees (by_name co_name cs n) (by_name co_name ds n))"
proof -
  have "rel_option column_agrees (by_name co_name cs n) (by_name co_name ds n)" if "n \<notin> co_name ` set cs \<union> co_name ` set ds" for n
    using that by_name_dom [of co_name cs n] by_name_dom [of co_name ds n] by simp
  moreover have "set (it (co_name ` set cs \<union> co_name ` set ds)) = co_name ` set cs \<union> co_name ` set ds" using assms by (simp add: lists_sets_def)
  ultimately show ?thesis unfolding concat_r_empty diff_columns_empty by blast
qed

lemma alter_ops_empty:
  assumes "lists_sets it"
  shows "alter_ops it c d = Inr [] \<longleftrightarrow> table_agrees c d"
  unfolding table_agrees_def column_ops_empty [OF assms, of _ _ "tb_name d", symmetric] fks.diff_named_empty [OF assms, where table = "tb_name d", symmetric]
    ixs.diff_named_empty [OF assms, where table = "tb_name d", symmetric]
    tgs.diff_named_empty [OF assms, where table = "tb_name d" and schema = "tb_schema d", symmetric]
    cks.diff_named_empty [OF assms, where table = "tb_name d", symmetric] uqs.diff_named_empty [OF assms, where table = "tb_name d", symmetric]
    alter_ops_def diff_foreign_keys_def diff_indexes_def diff_triggers_def diff_check_constraints_def diff_unique_constraints_def
  by auto

lemma diff_tables_empty:
  assumes "lists_sets it"
  shows "diff_tables it c d = Inr [] \<longleftrightarrow> rel_option table_agrees c d"
  by (cases c; cases d) (auto simp: alter_ops_empty [OF assms] create_ops_def)

text \<open>The plan is empty exactly if both schemas have the same tables by name and these agree in what is compared: the types, nullability and
  defaults of their columns and their foreign keys, indexes, triggers and constraints. In particular a schema compared with itself needs no migration.\<close>

theorem plan_empty_iff:
  assumes "lists_sets it"
  shows "diff_schemas it current desired =
      Inr \<lparr>mp_operations = [], mp_hash_before = sm_version current, mp_hash_after = sm_version desired\<rparr> \<longleftrightarrow>
    (\<forall>n. rel_option table_agrees (by_name tb_name (sm_tables current) n) (by_name tb_name (sm_tables desired) n))"
proof -
  have "rel_option table_agrees (by_name tb_name (sm_tables current) n) (by_name tb_name (sm_tables desired) n)"
    if "n \<notin> tb_name ` set (sm_tables current) \<union> tb_name ` set (sm_tables desired)" for n
    using that by_name_dom [of tb_name "sm_tables current" n] by_name_dom [of tb_name "sm_tables desired" n] by simp
  then show ?thesis unfolding diff_schemas_def by (auto simp: concat_r_empty diff_tables_empty [OF assms])
qed

section \<open>Risk\<close>

lemma list_ex_concat_r:
  assumes "concat_r f xs = Inr ys"
  shows "list_ex P ys \<longleftrightarrow> (\<exists>x\<in>set xs. \<exists>zs. f x = Inr zs \<and> list_ex P zs)"
  using assms by (induction xs arbitrary: ys) auto

text \<open>The tables and columns of the current schema that the plan takes away or whose type it changes in a way that is not known to be safe.\<close>

fun table_at_risk :: "TableSpec \<Rightarrow> TableSpec option \<Rightarrow> bool" where
  "table_at_risk c None \<longleftrightarrow> True"
| "table_at_risk c (Some d) \<longleftrightarrow> (\<exists>k x. by_name co_name (tb_columns c) k = Some x \<and> column_at_risk x (by_name co_name (tb_columns d) k))"

lemma column_ops_risk:
  assumes "lists_sets it"
    "concat_r (\<lambda>n. diff_columns (by_name co_name cs n) (by_name co_name ds n) table) (it (co_name ` set cs \<union> co_name ` set ds)) = Inr ops"
  shows "list_ex (\<lambda>op. mo_risk op = DANGEROUS) ops \<longleftrightarrow> (\<exists>k x. by_name co_name cs k = Some x \<and> column_at_risk x (by_name co_name ds k))"
proof
  assume "list_ex (\<lambda>op. mo_risk op = DANGEROUS) ops"
  then obtain n zs where "diff_columns (by_name co_name cs n) (by_name co_name ds n) table = Inr zs" "list_ex (\<lambda>op. mo_risk op = DANGEROUS) zs"
    unfolding list_ex_concat_r [OF assms(2)] by blast
  then show "\<exists>k x. by_name co_name cs k = Some x \<and> column_at_risk x (by_name co_name ds k)" using diff_columns_risk by blast
next
  assume "\<exists>k x. by_name co_name cs k = Some x \<and> column_at_risk x (by_name co_name ds k)"
  then obtain k where "\<exists>x. by_name co_name cs k = Some x \<and> column_at_risk x (by_name co_name ds k)" by blast
  then have "list_ex (\<lambda>op. mo_risk op = DANGEROUS) (ops_about column_kinds k ops)"
    unfolding diff_columns_risk [OF column_ops_about(1) [OF assms], symmetric] .
  then show "list_ex (\<lambda>op. mo_risk op = DANGEROUS) ops" by (auto simp: ops_about_def list_ex_iff)
qed

lemma alter_ops_risk:
  assumes "lists_sets it" "alter_ops it c d = Inr ops"
  shows "list_ex (\<lambda>op. mo_risk op = DANGEROUS) ops \<longleftrightarrow> table_at_risk c (Some d)"
proof -
  obtain cols fks ixs tgs cks uqs where parts:
    "concat_r (\<lambda>n. diff_columns (by_name co_name (tb_columns c) n) (by_name co_name (tb_columns d) n) (tb_name d))
       (it (co_name ` set (tb_columns c) \<union> co_name ` set (tb_columns d))) = Inr cols"
    "diff_named it fk_name (drop_fk (tb_name d) []) (add_fk (tb_name d)) (replace_fk (tb_name d)) (tb_foreign_keys c) (tb_foreign_keys d) = Inr fks"
    "diff_named it ix_name (drop_index (tb_name d) []) (add_index (tb_name d)) (replace_index (tb_name d)) (tb_indexes c) (tb_indexes d) = Inr ixs"
    "diff_named it tg_name (drop_trigger (tb_name d) (tb_schema d) []) (add_trigger (tb_name d)) (replace_trigger (tb_name d) (tb_schema d))
       (tb_triggers c) (tb_triggers d) = Inr tgs"
    "diff_named it ck_name (drop_check (tb_name d) []) (add_check (tb_name d)) (replace_check (tb_name d)) (tb_checks c) (tb_checks d) = Inr cks"
    "diff_named it uq_name (drop_unique (tb_name d) []) (add_unique (tb_name d)) (replace_unique (tb_name d)) (tb_uniques c) (tb_uniques d) = Inr uqs"
    and ops: "ops = cols @ fks @ ixs @ tgs @ cks @ uqs"
    by (rule alter_ops_parts [OF assms(2)])
  have none: "\<not> list_ex (\<lambda>op. mo_risk op = DANGEROUS) xs" if "list_all (\<lambda>op. mo_type op \<in> K \<and> mo_risk op \<noteq> DANGEROUS) xs" for K xs
    using that by (auto simp: list_all_iff list_ex_iff)
  have "list_ex (\<lambda>op. mo_risk op = DANGEROUS) ops \<longleftrightarrow> list_ex (\<lambda>op. mo_risk op = DANGEROUS) cols"
    unfolding ops list_ex_append using none [OF fks.diff_named_about(2) [OF assms(1) parts(2)]] none [OF ixs.diff_named_about(2) [OF assms(1) parts(3)]]
      none [OF tgs.diff_named_about(2) [OF assms(1) parts(4)]] none [OF cks.diff_named_about(2) [OF assms(1) parts(5)]]
      none [OF uqs.diff_named_about(2) [OF assms(1) parts(6)]] by simp
  also have "\<dots> \<longleftrightarrow> table_at_risk c (Some d)"
    unfolding column_ops_risk [OF assms(1) parts(1)] by simp
  finally show ?thesis .
qed

lemma map_r_safe:
  assumes "map_r f xs = Inr ys" "\<And>x y. f x = Inr y \<Longrightarrow> mo_risk y = SAFE"
  shows "\<not> list_ex (\<lambda>op. mo_risk op = DANGEROUS) ys"
  using assms(1) by (induction xs arbitrary: ys) (auto dest: assms(2))

lemma create_ops_risk:
  assumes "create_ops d = Inr ops"
  shows "\<not> list_ex (\<lambda>op. mo_risk op = DANGEROUS) ops"
proof -
  let ?fk = "\<lambda>fk. bind_r (fk_to_ddl (tb_name d) fk) (\<lambda>ddl.
        Inr (named_op ADD_FOREIGN_KEY SAFE (tb_name d) (fk_name fk) (ddl @ '';'') ''A'' (''Add FK '' @ fk_name fk)))"
    and ?ix = "\<lambda>ix. bind_r (index_to_ddl (tb_name d) ''public'' ix) (\<lambda>ddl.
        Inr (named_op CREATE_INDEX SAFE (tb_name d) (ix_name ix) (ddl @ '';'') ''A'' (''Create index '' @ ix_name ix)))"
  obtain create fks ixs tgs where maps: "map_r ?fk (tb_foreign_keys d) = Inr fks" "map_r ?ix (tb_indexes d) = Inr ixs"
      "map_r (create_trigger (tb_name d) []) (tb_triggers d) = Inr tgs"
    and ops: "ops = [\<lparr>mo_type = CREATE_TABLE, mo_risk = SAFE, mo_table = tb_name d, mo_object = None, mo_ddl = create, mo_phase = ''A'',
        mo_description = ''Create table '' @ tb_name d\<rparr>] @ fks @ ixs @ tgs"
    using assms unfolding create_ops_def bind_r_Inr_iff sum.inject by blast
  have "\<not> list_ex (\<lambda>op. mo_risk op = DANGEROUS) fks" by (rule map_r_safe [OF maps(1)]) (auto simp: named_op_def)
  moreover have "\<not> list_ex (\<lambda>op. mo_risk op = DANGEROUS) ixs" by (rule map_r_safe [OF maps(2)]) (auto simp: named_op_def)
  moreover have "\<not> list_ex (\<lambda>op. mo_risk op = DANGEROUS) tgs" by (rule map_r_safe [OF maps(3)]) (auto simp: trigger_ops)
  ultimately show ?thesis by (simp add: ops)
qed

lemma diff_tables_risk:
  assumes "lists_sets it" "diff_tables it c d = Inr ops"
  shows "list_ex (\<lambda>op. mo_risk op = DANGEROUS) ops \<longleftrightarrow> (\<exists>t. c = Some t \<and> table_at_risk t d)"
  using assms(2) create_ops_risk alter_ops_risk [OF assms(1)]
  by (cases c; cases d) (auto simp: drop_table_def simp del: table_at_risk.simps(2))

text \<open>The plan is marked dangerous exactly if it drops a table of the current schema, drops a column, or changes the type of a
  column other than by a known widening. A plan that is not marked so keeps every table and every column.\<close>

theorem has_dangerous_iff:
  assumes "lists_sets it" "diff_schemas it current desired = Inr plan"
  shows "has_dangerous plan \<longleftrightarrow>
    (\<exists>n c. by_name tb_name (sm_tables current) n = Some c \<and> table_at_risk c (by_name tb_name (sm_tables desired) n))"
proof -
  let ?f = "\<lambda>n. diff_tables it (by_name tb_name (sm_tables current) n) (by_name tb_name (sm_tables desired) n)"
  let ?ns = "sorted_list_of_set (tb_name ` set (sm_tables current) \<union> tb_name ` set (sm_tables desired))"
  obtain ops where ops: "concat_r ?f ?ns = Inr ops" "mp_operations plan = ops" using assms(2) by (auto simp: diff_schemas_def)
  have risk: "list_ex (\<lambda>op. mo_risk op = DANGEROUS) zs \<longleftrightarrow>
      (\<exists>c. by_name tb_name (sm_tables current) n = Some c \<and> table_at_risk c (by_name tb_name (sm_tables desired) n))" if "?f n = Inr zs" for n zs
    using diff_tables_risk [OF assms(1) that] .
  have named: "n \<in> set ?ns" if "by_name tb_name (sm_tables current) n = Some c" for n c
    using by_name_key [OF that] by auto
  have "has_dangerous plan \<longleftrightarrow> (\<exists>n\<in>set ?ns. \<exists>zs. ?f n = Inr zs \<and> list_ex (\<lambda>op. mo_risk op = DANGEROUS) zs)"
    unfolding has_dangerous_def ops(2) list_ex_concat_r [OF ops(1)] ..
  also have "\<dots> \<longleftrightarrow> (\<exists>n\<in>set ?ns. \<exists>c. by_name tb_name (sm_tables current) n = Some c \<and> table_at_risk c (by_name tb_name (sm_tables desired) n))"
    using risk concat_r_defined [OF ops(1)] by meson
  finally show ?thesis using named by blast
qed

section \<open>Lengths of texts\<close>

lemma split_plain: "sep \<notin> set s \<Longrightarrow> py_split sep s = [s]"
  by (induction s) auto

lemma split_at: "sep \<notin> set s \<Longrightarrow> py_split sep (s @ sep # t) = s # py_split sep t"
  by (induction s) auto

lemma upper_digit: "c \<in> digit_chars \<Longrightarrow> upper_char c = [c]"
  by (auto simp: digit_chars_def upper_char_def digit_char)

lemma upper_digits: "set s \<subseteq> digit_chars \<Longrightarrow> py_upper s = s"
  by (induction s) (auto simp: py_upper_def upper_digit)

lemma digit_no_bracket: "c \<in> digit_chars \<Longrightarrow> c \<noteq> CHR ''('' \<and> c \<noteq> CHR '')''"
proof -
  assume "c \<in> digit_chars"
  then have "48 \<le> code c" by (auto simp: digit_chars_def digit_char)
  then show ?thesis by (auto simp: code_def)
qed

lemma nat_str_int: "int_str (int n) = nat_str n"
  by (simp add: int_str_def)

definition varchar :: "nat \<Rightarrow> string" where
  "varchar n = ''VARCHAR('' @ nat_str n @ '')''"

lemma varchar_length:
  assumes "printable_int (int n)"
  shows "type_length (varchar n) = Some (int n)"
proof -
  have d: "set (nat_str n) \<subseteq> digit_chars" by (rule nat_str_chars)
  then have "CHR ''('' \<notin> set (nat_str n @ '')'')" "CHR '')'' \<notin> set (nat_str n)" using digit_no_bracket by auto
  moreover have "varchar n = ''VARCHAR'' @ CHR ''('' # (nat_str n @ '')'')" by (simp add: varchar_def)
  ultimately have "py_split (CHR ''('') (varchar n) = [''VARCHAR'', nat_str n @ '')'']" by (simp only: split_at split_plain) (simp add: split_plain)
  moreover have "py_rstrip (CHR '')'') (nat_str n @ '')'') = nat_str n"
    using \<open>CHR '')'' \<notin> set (nat_str n)\<close> by (simp add: py_rstrip_def) (metis dropWhile_eq_self_iff hd_in_set rev_is_Nil_conv rev_rev_ident set_rev)
  ultimately show ?thesis using int_of_str_int_str [OF assms] by (simp add: type_length_def nat_str_int)
qed

text \<open>A change of the length of a \<open>VARCHAR\<close> column is safe exactly if the column gets no shorter.\<close>

theorem varchar_change:
  assumes "printable_int (int n)" "printable_int (int m)"
  shows "classify_type_change (varchar n) (varchar m) = (if n \<le> m then SAFE else DANGEROUS)"
proof -
  have upper: "py_upper (varchar k) = varchar k" for k
    using upper_digits [OF nat_str_chars(2), of k] by (simp add: py_upper_def varchar_def upper_char_def code_def)
  have "(varchar n, varchar m) \<notin> set safe_widenings" by (simp add: safe_widenings_def varchar_def)
  moreover have "py_startswith ''VARCHAR'' (varchar k)" for k by (simp add: py_startswith_def varchar_def)
  ultimately show ?thesis using varchar_length [OF assms(1)] varchar_length [OF assms(2)]
    by (simp add: classify_type_change_def upper)
qed

theorem varchar_change_witness:
  "classify_type_change (varchar 20) (varchar 64) = SAFE \<and> classify_type_change (varchar 64) (varchar 20) = DANGEROUS"
proof -
  have "printable_int (int 20)" "printable_int (int 64)" by (simp_all add: printable_int_def nat_str.simps)
  then show ?thesis using varchar_change [of 20 64] varchar_change [of 64 20] by simp
qed

section \<open>An example\<close>

definition plain_column :: "string \<Rightarrow> string \<Rightarrow> ColumnSpec" where
  "plain_column name ty = \<lparr>co_name = name, co_type = ty, co_nullable = True, co_default = None, co_primary = False, co_unique = False\<rparr>"

definition users_table :: "ColumnSpec list \<Rightarrow> IndexSpec list \<Rightarrow> TableSpec" where
  "users_table cols ixs =
    \<lparr>tb_name = ''users'', tb_schema = ''public'', tb_columns = cols, tb_primary_key = [], tb_foreign_keys = [], tb_indexes = ixs,
     tb_triggers = [], tb_checks = [], tb_uniques = []\<rparr>"

definition nick_index :: IndexSpec where
  "nick_index =
    \<lparr>ix_name = ''idx_nick'', ix_columns = [''nick''], ix_unique = True, ix_method = BTREE, ix_where = None, ix_concurrently = False, ix_include = []\<rparr>"

definition users_v1 :: TableSpec where
  "users_v1 = users_table [plain_column ''nick'' ''VARCHAR(20)'', plain_column ''old'' ''TEXT''] []"

definition users_v2 :: TableSpec where
  "users_v2 = users_table [plain_column ''nick'' ''VARCHAR(64)''] [nick_index]"


definition schema_of :: "TableSpec list \<Rightarrow> SchemaSpec" where
  "schema_of ts = \<lparr>sm_tables = ts, sm_version = None\<rparr>"

theorem plan_empty_iff_witness:
  "diff_schemas sorted_list_of_set (schema_of [users_v1]) (schema_of [users_v1]) =
    Inr \<lparr>mp_operations = [], mp_hash_before = None, mp_hash_after = None\<rparr>"
proof -
  have refl: "rel_option table_agrees t t" for t
    by (rule option.rel_refl) (auto simp: table_agrees_def column_agrees_def intro: option.rel_refl)
  show ?thesis
    using plan_empty_iff [OF sorted_lists_sets, of "schema_of [users_v1]" "schema_of [users_v1]"] refl by (simp add: schema_of_def)
qed

theorem has_dangerous_iff_witness:
  "\<exists>plan. diff_schemas sorted_list_of_set (schema_of [users_v1]) (schema_of [users_v2]) = Inr plan \<and> has_dangerous plan"
proof -
  have "case diff_schemas sorted_list_of_set (schema_of [users_v1]) (schema_of [users_v2]) of Inr _ \<Rightarrow> True | Inl _ \<Rightarrow> False" by code_simp
  then obtain plan where plan: "diff_schemas sorted_list_of_set (schema_of [users_v1]) (schema_of [users_v2]) = Inr plan" by (auto split: sum.splits)
  have "by_name tb_name (sm_tables (schema_of [users_v1])) ''users'' = Some users_v1"
    "by_name tb_name (sm_tables (schema_of [users_v2])) ''users'' = Some users_v2"
    "by_name co_name (tb_columns users_v1) ''old'' = Some (plain_column ''old'' ''TEXT'')" "by_name co_name (tb_columns users_v2) ''old'' = None"
    by code_simp+
  then have "\<exists>n c. by_name tb_name (sm_tables (schema_of [users_v1])) n = Some c \<and>
      table_at_risk c (by_name tb_name (sm_tables (schema_of [users_v2])) n)"
    by (intro exI [of _ "''users''"] exI [of _ users_v1]) (simp, metis column_at_risk.simps(1))
  then show ?thesis using plan has_dangerous_iff [OF sorted_lists_sets plan] by blast
qed

text \<open>The constraints of a new table are not part of its plan.\<close>

lemma new_table_constraints_missing:
  "create_ops (t\<lparr>tb_checks := cks, tb_uniques := uqs\<rparr>) = create_ops t"
  by (simp add: create_ops_def to_create_table_ddl_def qualified_name_def)

end
