(* ===== verification/Opa_Decoder.thy ===== *)
theory Opa_Decoder
  imports Py_Text Py_Float
begin

text \<open>
  Decoding of policy results (\<open>libs/canon/src/canon/utils/opa/decoder.py\<close>): the envelopes of OPA and regorus are unwrapped, and what is
  undefined or of the wrong type denies.

  A result is a Python value; mappings have string keys, sets are listed in their order of iteration, and objects of other classes are opaque. What the
  code asks of these objects, the JSON parser, the order of mixed sets and the texts of exceptions are parameters.
\<close>

section \<open>Values\<close>

datatype 'o pyval =
    PNone | PBool bool | PInt int | PFloat py_float | PStr string | PBytes string
  | PDict "(string \<times> 'o pyval) list" | PList "'o pyval list" | PTuple "'o pyval list" | PSet "'o pyval list" | POther 'o

datatype 'o method_call = NotCallable | MethodRaises | MethodReturns "'o pyval"

datatype 'o decode_error =
    ExpectedBools string "'o pyval" | NonDeterministicBools string "bool list" | ExpectedBool string "'o pyval"
  | ExpectedStringElements string "'o pyval" | ExpectedStrings string "'o pyval" | ExpectedObject string "'o pyval"
  | MissingAllow string "string list" | NonDeterministicDecisions string | ExpectedDecision string "'o pyval"
  | RecursionExceeded

text \<open>\<open>oe_method o name\<close> is \<open>getattr(o, name, None)()\<close>, \<open>oe_loads\<close> is \<open>json.loads\<close>, \<open>oe_utf8\<close> decodes bytes, \<open>oe_sort\<close> sorts the items of a
  set and \<open>oe_message\<close> is the text of an exception.\<close>

record 'o opa_env =
  oe_method :: "'o \<Rightarrow> string \<Rightarrow> 'o method_call"
  oe_loads :: "string \<Rightarrow> 'o pyval option"
  oe_utf8 :: "string \<Rightarrow> string option"
  oe_sort :: "'o pyval list \<Rightarrow> 'o pyval list"
  oe_message :: "'o decode_error \<Rightarrow> string"

record 'o DecodedDecision =
  dd_allow :: bool
  dd_deny_reasons :: "string list"
  dd_decision :: "(string \<times> 'o pyval) list option"

definition denied :: "'o DecodedDecision" where
  "denied = \<lparr>dd_allow = False, dd_deny_reasons = [], dd_decision = None\<rparr>"

section \<open>Unwrapping\<close>

text \<open>The methods an unknown object is asked for, and the first answer that is usable.\<close>

definition conversion_methods :: "string list" where
  "conversion_methods = [''to_json'', ''to_json_str'', ''to_json_string'', ''json'', ''model_dump'', ''dict'']"

text \<open>A text that is an answer: JSON is parsed, a text that cannot be parsed is returned as it is, and any other text is passed over.\<close>

definition text_answer :: "'o opa_env \<Rightarrow> 'o pyval \<Rightarrow> string option \<Rightarrow> 'o pyval option" where
  "text_answer env out decoded =
    (case decoded of
       None \<Rightarrow> Some out
     | Some t \<Rightarrow>
         let s = py_strip t
         in if s \<noteq> [] \<and> hd s \<in> {CHR ''{'', CHR ''[''} then (case oe_loads env s of Some v \<Rightarrow> Some v | None \<Rightarrow> Some out)
            else None)"

fun convert_with :: "'o opa_env \<Rightarrow> 'o \<Rightarrow> string list \<Rightarrow> 'o pyval option" where
  "convert_with env ob [] = None"
| "convert_with env ob (name # names) =
    (case oe_method env ob name of
       MethodReturns (PStr s) \<Rightarrow> (case text_answer env (PStr s) (Some s) of Some v \<Rightarrow> Some v | None \<Rightarrow> convert_with env ob names)
     | MethodReturns (PBytes b) \<Rightarrow> (case text_answer env (PBytes b) (oe_utf8 env b) of Some v \<Rightarrow> Some v | None \<Rightarrow> convert_with env ob names)
     | MethodReturns out \<Rightarrow> Some out
     | _ \<Rightarrow> convert_with env ob names)"

definition try_convert_unknown_to_python :: "'o opa_env \<Rightarrow> 'o pyval \<Rightarrow> 'o pyval" where
  "try_convert_unknown_to_python env v =
    (case v of
       POther ob \<Rightarrow> (case convert_with env ob conversion_methods of Some out \<Rightarrow> out | None \<Rightarrow> PNone)
     | _ \<Rightarrow> PNone)"

text \<open>The loop runs at most \<open>n\<close> times and hands the rest of its count to the recursive calls.\<close>

fun unwrap_opa_result :: "'o opa_env \<Rightarrow> nat \<Rightarrow> 'o pyval \<Rightarrow> 'o pyval" where
  "unwrap_opa_result env 0 v = v"
| "unwrap_opa_result env (Suc n) v =
    (case v of
       PNone \<Rightarrow> PNone
     | PBool b \<Rightarrow> v
     | PInt i \<Rightarrow> v
     | PFloat f \<Rightarrow> v
     | PStr s \<Rightarrow> v
     | PDict d \<Rightarrow>
         (case map_of d ''result'' of
            Some r \<Rightarrow> unwrap_opa_result env n r
          | None \<Rightarrow>
              (case map_of d ''value'' of
                 Some r \<Rightarrow> unwrap_opa_result env n r
               | None \<Rightarrow>
                   (case map_of d ''expressions'' of
                      Some (PList []) \<Rightarrow> PNone
                    | Some (PList [e]) \<Rightarrow> unwrap_opa_result env n e
                    | Some (PList es) \<Rightarrow> PList (map (unwrap_opa_result env n) es)
                    | _ \<Rightarrow> v)))
     | PList [] \<Rightarrow> PNone
     | PList [x] \<Rightarrow> unwrap_opa_result env n x
     | PList xs \<Rightarrow> PList (map (unwrap_opa_result env n) xs)
     | PTuple [] \<Rightarrow> PNone
     | PTuple [x] \<Rightarrow> unwrap_opa_result env n x
     | PTuple xs \<Rightarrow> PList (map (unwrap_opa_result env n) xs)
     | PSet [] \<Rightarrow> PNone
     | PSet xs \<Rightarrow> PList (oe_sort env (map (unwrap_opa_result env n) xs))
     | _ \<Rightarrow>
         let converted = try_convert_unknown_to_python env v
         in if converted = PNone then v else unwrap_opa_result env n converted)"

abbreviation unwrap :: "'o opa_env \<Rightarrow> 'o pyval \<Rightarrow> 'o pyval" where
  "unwrap env \<equiv> unwrap_opa_result env 12"

section \<open>Decoding\<close>

fun decode_bool_items :: "'o opa_env \<Rightarrow> string \<Rightarrow> 'o pyval list \<Rightarrow> ('o decode_error, bool list) result" where
  "decode_bool_items env ctx [] = Inr []"
| "decode_bool_items env ctx (item # items) =
    (case unwrap env item of
       PNone \<Rightarrow> decode_bool_items env ctx items
     | PBool b \<Rightarrow> bind_r (decode_bool_items env ctx items) (\<lambda>bs. Inr (b # bs))
     | v \<Rightarrow> Inl (ExpectedBools ctx v))"

definition decode_bool_list :: "'o opa_env \<Rightarrow> bool \<Rightarrow> string \<Rightarrow> 'o pyval list \<Rightarrow> ('o decode_error, bool) result" where
  "decode_bool_list env dflt ctx items =
    bind_r (decode_bool_items env ctx items) (\<lambda>bools.
      case bools of
        [] \<Rightarrow> Inr dflt
      | b # bs \<Rightarrow> if card (set bools) = 1 then Inr b else Inl (NonDeterministicBools ctx bools))"

definition decode_bool :: "'o opa_env \<Rightarrow> 'o pyval \<Rightarrow> bool \<Rightarrow> string \<Rightarrow> ('o decode_error, bool) result" where
  "decode_bool env raw dflt ctx =
    (case unwrap env raw of
       PNone \<Rightarrow> Inr dflt
     | PBool b \<Rightarrow> Inr b
     | PList items \<Rightarrow> decode_bool_list env dflt ctx items
     | PTuple items \<Rightarrow> decode_bool_list env dflt ctx items
     | v \<Rightarrow> Inl (ExpectedBool ctx v))"

fun decode_string_items :: "'o opa_env \<Rightarrow> string \<Rightarrow> 'o pyval list \<Rightarrow> ('o decode_error, string list) result" where
  "decode_string_items env ctx [] = Inr []"
| "decode_string_items env ctx (item # items) =
    (case unwrap env item of
       PNone \<Rightarrow> decode_string_items env ctx items
     | PStr s \<Rightarrow> bind_r (decode_string_items env ctx items) (\<lambda>ss. Inr (s # ss))
     | v \<Rightarrow> Inl (ExpectedStringElements ctx v))"

text \<open>The first occurrence of every text, in order.\<close>

fun dedupe :: "string set \<Rightarrow> string list \<Rightarrow> string list" where
  "dedupe seen [] = []"
| "dedupe seen (s # ss) = (if s \<in> seen then dedupe seen ss else s # dedupe (insert s seen) ss)"

definition decode_strings :: "'o opa_env \<Rightarrow> 'o pyval \<Rightarrow> string \<Rightarrow> ('o decode_error, string list) result" where
  "decode_strings env raw ctx =
    (let decode_items = (\<lambda>items. bind_r (decode_string_items env ctx items) (\<lambda>out. Inr (dedupe {} out)))
     in case unwrap env raw of
          PNone \<Rightarrow> Inr []
        | PStr s \<Rightarrow> Inr [s]
        | PList items \<Rightarrow> decode_items items
        | PTuple items \<Rightarrow> decode_items items
        | PSet items \<Rightarrow> decode_items items
        | v \<Rightarrow> Inl (ExpectedStrings ctx v))"

definition decode_object :: "'o opa_env \<Rightarrow> 'o pyval \<Rightarrow> string \<Rightarrow> ('o decode_error, (string \<times> 'o pyval) list option) result" where
  "decode_object env raw ctx =
    (case unwrap env raw of
       PNone \<Rightarrow> Inr None
     | PDict d \<Rightarrow> Inr (Some d)
     | v \<Rightarrow> Inl (ExpectedObject ctx v))"

definition decode_mapping :: "'o opa_env \<Rightarrow> string \<Rightarrow> (string \<times> 'o pyval) list \<Rightarrow> ('o decode_error, 'o DecodedDecision) result" where
  "decode_mapping env ctx obj =
    bind_r
      (case map_of obj ''allow'' of
         Some v \<Rightarrow> decode_bool env v False (ctx @ ''.allow'')
       | None \<Rightarrow>
           (case map_of obj ''passed'' of
              Some v \<Rightarrow> decode_bool env v False (ctx @ ''.passed'')
            | None \<Rightarrow> Inl (MissingAllow ctx (map fst obj))))
      (\<lambda>allow.
    bind_r
      (case map_of obj ''deny_reasons'' of
         Some v \<Rightarrow> decode_strings env v (ctx @ ''.deny_reasons'')
       | None \<Rightarrow> (case map_of obj ''deny'' of Some v \<Rightarrow> decode_strings env v (ctx @ ''.deny'') | None \<Rightarrow> Inr []))
      (\<lambda>reasons. Inr \<lparr>dd_allow = allow, dd_deny_reasons = reasons, dd_decision = Some obj\<rparr>))"

definition bool_or_none :: "'o pyval \<Rightarrow> bool" where
  "bool_or_none v = (case v of PNone \<Rightarrow> True | PBool _ \<Rightarrow> True | _ \<Rightarrow> False)"

definition merge_decisions :: "string \<Rightarrow> 'o DecodedDecision list \<Rightarrow> ('o decode_error, 'o DecodedDecision) result" where
  "merge_decisions ctx decoded =
    (case decoded of
       [] \<Rightarrow> Inr denied
     | d # ds \<Rightarrow>
         if card (set (map dd_allow decoded)) \<noteq> 1 then Inl (NonDeterministicDecisions ctx)
         else Inr \<lparr>dd_allow = dd_allow d, dd_deny_reasons = dedupe {} (concat (map dd_deny_reasons decoded)), dd_decision = None\<rparr>)"

text \<open>The recursion goes into the items of a list; \<open>fuel\<close> is the depth of the interpreter's stack.\<close>

fun decode_decision :: "'o opa_env \<Rightarrow> nat \<Rightarrow> 'o pyval \<Rightarrow> string \<Rightarrow> ('o decode_error, 'o DecodedDecision) result" where
  "decode_decision env 0 raw ctx = Inl RecursionExceeded"
| "decode_decision env (Suc fuel) raw ctx =
    (let decode_items = (\<lambda>items.
           if list_all (\<lambda>v. bool_or_none (unwrap env v)) items
           then bind_r (decode_bool env (unwrap env raw) False ctx) (\<lambda>b. Inr (denied\<lparr>dd_allow := b\<rparr>))
           else bind_r (map_r (\<lambda>v. decode_decision env fuel v ctx) (filter (\<lambda>v. v \<noteq> PNone) (map (unwrap env) items))) (merge_decisions ctx))
     in case unwrap env raw of
          PNone \<Rightarrow> Inr denied
        | PBool b \<Rightarrow> Inr (denied\<lparr>dd_allow := b\<rparr>)
        | PDict obj \<Rightarrow> decode_mapping env ctx obj
        | PList items \<Rightarrow> decode_items items
        | PTuple items \<Rightarrow> decode_items items
        | v \<Rightarrow> Inl (ExpectedDecision ctx v))"

text \<open>A mapping is decoded without recursion.\<close>

definition decode_policy :: "'o opa_env \<Rightarrow> 'o pyval \<Rightarrow> 'o pyval \<Rightarrow> 'o pyval \<Rightarrow> string \<Rightarrow> 'o DecodedDecision" where
  "decode_policy env decision_raw allow_raw deny_raw deny_field_name =
    (let legacy =
           (case decode_bool env allow_raw False ''opa.allow'' of
              Inl e \<Rightarrow> denied\<lparr>dd_deny_reasons := [''OPA allow parse error: '' @ oe_message env e]\<rparr>
            | Inr allow \<Rightarrow>
                \<lparr>dd_allow = allow,
                 dd_deny_reasons =
                   (if deny_raw = PNone then []
                    else case decode_strings env deny_raw (''opa.'' @ deny_field_name) of
                           Inr reasons \<Rightarrow> reasons
                         | Inl e \<Rightarrow> [''OPA deny_reasons parse error: '' @ oe_message env e]),
                 dd_decision = None\<rparr>)
     in case unwrap env decision_raw of
          PDict _ \<Rightarrow>
            (case decode_decision env 1 decision_raw ''opa.decision'' of
               Inr dec \<Rightarrow> dec
             | Inl e \<Rightarrow> denied\<lparr>dd_deny_reasons := [''OPA decision contract error: '' @ oe_message env e]\<rparr>)
        | _ \<Rightarrow> legacy)"

section \<open>Fail-closed decisions\<close>

text \<open>A value grants if it unwraps to true, or to several values of which one is true and none is anything but true or undefined.\<close>

definition all_grant :: "'o opa_env \<Rightarrow> 'o pyval list \<Rightarrow> bool" where
  "all_grant env xs \<longleftrightarrow> list_all (\<lambda>x. unwrap env x \<in> {PNone, PBool True}) xs \<and> list_ex (\<lambda>x. unwrap env x = PBool True) xs"

definition grants :: "'o opa_env \<Rightarrow> 'o pyval \<Rightarrow> bool" where
  "grants env v = (case unwrap env v of PBool b \<Rightarrow> b | PList xs \<Rightarrow> all_grant env xs | PTuple xs \<Rightarrow> all_grant env xs | _ \<Rightarrow> False)"

declare unwrap_opa_result.simps [simp del]

lemma decode_bool_items_Inr:
  "decode_bool_items env ctx items = Inr bs \<longleftrightarrow>
    list_all (\<lambda>x. bool_or_none (unwrap env x)) items \<and> map PBool bs = filter (\<lambda>v. v \<noteq> PNone) (map (unwrap env) items)"
proof (induction items arbitrary: bs)
  case (Cons x xs)
  then show ?case by (cases "unwrap env x"; cases bs) (auto simp: bool_or_none_def)
qed auto

lemma decode_bool_list_true: "decode_bool_list env False ctx items = Inr True \<longleftrightarrow> all_grant env items"
proof -
  have one: "card (set (b # bs)) = 1 \<longleftrightarrow> (\<forall>x\<in>set bs. x = b)" for b :: bool and bs
    by (auto simp: card_1_singleton_iff)
  have "decode_bool_list env False ctx items = Inr True \<longleftrightarrow>
      (\<exists>bs. decode_bool_items env ctx items = Inr bs \<and> bs \<noteq> [] \<and> (\<forall>b\<in>set bs. b))"
    unfolding decode_bool_list_def bind_r_Inr_iff
  proof (intro arg_cong [where f = Ex] ext conj_cong refl)
    fix bs :: "bool list"
    show "(case bs of [] \<Rightarrow> Inr False | b # _ \<Rightarrow> if card (set bs) = 1 then Inr b else Inl (NonDeterministicBools ctx bs)) =
        Inr True \<longleftrightarrow> bs \<noteq> [] \<and> (\<forall>b\<in>set bs. b)" using one by (cases bs) auto
  qed
  also have "\<dots> \<longleftrightarrow> all_grant env items"
  proof
    assume "\<exists>bs. decode_bool_items env ctx items = Inr bs \<and> bs \<noteq> [] \<and> (\<forall>b\<in>set bs. b)"
    then obtain bs where bs: "map PBool bs = filter (\<lambda>v. v \<noteq> PNone) (map (unwrap env) items)" "bs \<noteq> []" "\<forall>b\<in>set bs. b"
      by (auto simp: decode_bool_items_Inr)
    have "PBool ` set bs = {v \<in> unwrap env ` set items. v \<noteq> PNone}" using arg_cong [OF bs(1), of set] by simp
    moreover have "PBool ` set bs = {PBool True}" using bs(2,3) by (cases bs) auto
    ultimately have vs: "{v \<in> unwrap env ` set items. v \<noteq> PNone} = {PBool True}" by metis
    then have "unwrap env x \<in> {PNone, PBool True}" if "x \<in> set items" for x using that by blast
    moreover have "PBool True \<in> unwrap env ` set items" using vs by blast
    ultimately show "all_grant env items" unfolding all_grant_def list_all_iff list_ex_iff by force
  next
    assume g: "all_grant env items"
    let ?vs = "filter (\<lambda>v. v \<noteq> PNone) (map (unwrap env) items)"
    have vs: "v = PBool True" if "v \<in> set ?vs" for v using g that by (auto simp: all_grant_def list_all_iff)
    have "PBool True \<in> set ?vs" using g by (force simp: all_grant_def list_ex_iff)
    then have "?vs \<noteq> []" by force
    moreover have "map PBool (map (\<lambda>_. True) ?vs) = ?vs" unfolding map_map by (rule map_idI) (use vs in \<open>simp only: o_def\<close>)
    moreover have "list_all (\<lambda>x. bool_or_none (unwrap env x)) items" unfolding list_all_iff
    proof
      fix x assume "x \<in> set items"
      then have "unwrap env x = PNone \<or> unwrap env x = PBool True" using g by (simp add: all_grant_def list_all_iff)
      then show "bool_or_none (unwrap env x)" by (auto simp: bool_or_none_def)
    qed
    ultimately show "\<exists>bs. decode_bool_items env ctx items = Inr bs \<and> bs \<noteq> [] \<and> (\<forall>b\<in>set bs. b)"
      unfolding decode_bool_items_Inr by (intro exI [of _ "map (\<lambda>_. True) ?vs"]) simp
  qed
  finally show ?thesis .
qed

lemma decode_bool_true: "decode_bool env raw False ctx = Inr True \<longleftrightarrow> grants env raw"
  by (auto simp: decode_bool_def grants_def decode_bool_list_true split: pyval.splits)

text \<open>The field that decides, and whether the reasons can be read.\<close>

definition verdict_field :: "(string \<times> 'o pyval) list \<Rightarrow> 'o pyval option" where
  "verdict_field obj = (case map_of obj ''allow'' of Some v \<Rightarrow> Some v | None \<Rightarrow> map_of obj ''passed'')"

definition reasons_field :: "(string \<times> 'o pyval) list \<Rightarrow> 'o pyval option" where
  "reasons_field obj = (case map_of obj ''deny_reasons'' of Some v \<Rightarrow> Some v | None \<Rightarrow> map_of obj ''deny'')"

definition strings_readable :: "'o opa_env \<Rightarrow> 'o pyval \<Rightarrow> bool" where
  "strings_readable env v =
    (case unwrap env v of
       PNone \<Rightarrow> True
     | PStr _ \<Rightarrow> True
     | PList xs \<Rightarrow> list_all (\<lambda>x. case unwrap env x of PNone \<Rightarrow> True | PStr _ \<Rightarrow> True | _ \<Rightarrow> False) xs
     | PTuple xs \<Rightarrow> list_all (\<lambda>x. case unwrap env x of PNone \<Rightarrow> True | PStr _ \<Rightarrow> True | _ \<Rightarrow> False) xs
     | PSet xs \<Rightarrow> list_all (\<lambda>x. case unwrap env x of PNone \<Rightarrow> True | PStr _ \<Rightarrow> True | _ \<Rightarrow> False) xs
     | _ \<Rightarrow> False)"

lemma decode_string_items_total:
  "(\<exists>ss. decode_string_items env ctx items = Inr ss) \<longleftrightarrow> list_all (\<lambda>x. case unwrap env x of PNone \<Rightarrow> True | PStr _ \<Rightarrow> True | _ \<Rightarrow> False) items"
  by (induction items) (auto split: pyval.splits)

lemma decode_strings_total: "(\<exists>ss. decode_strings env v ctx = Inr ss) \<longleftrightarrow> strings_readable env v"
  using decode_string_items_total [of env ctx] by (auto simp: decode_strings_def strings_readable_def split: pyval.splits)

lemma decode_mapping_allows:
  "(\<exists>dec. decode_mapping env ctx obj = Inr dec \<and> dd_allow dec) \<longleftrightarrow>
    (\<exists>v. verdict_field obj = Some v \<and> grants env v) \<and> (\<forall>v. reasons_field obj = Some v \<longrightarrow> strings_readable env v)"
proof -
  let ?allow = "case map_of obj ''allow'' of Some v \<Rightarrow> decode_bool env v False (ctx @ ''.allow'')
       | None \<Rightarrow> (case map_of obj ''passed'' of Some v \<Rightarrow> decode_bool env v False (ctx @ ''.passed'') | None \<Rightarrow> Inl (MissingAllow ctx (map fst obj)))"
  let ?reasons = "case map_of obj ''deny_reasons'' of Some v \<Rightarrow> decode_strings env v (ctx @ ''.deny_reasons'')
       | None \<Rightarrow> (case map_of obj ''deny'' of Some v \<Rightarrow> decode_strings env v (ctx @ ''.deny'') | None \<Rightarrow> Inr [])"
  have "?allow = Inr True \<longleftrightarrow> (\<exists>v. verdict_field obj = Some v \<and> grants env v)"
    by (auto simp: verdict_field_def decode_bool_true split: option.splits)
  moreover have "(\<exists>rs. ?reasons = Inr rs) \<longleftrightarrow> (\<forall>v. reasons_field obj = Some v \<longrightarrow> strings_readable env v)"
    by (auto simp: reasons_field_def decode_strings_total split: option.splits)
  moreover have "(\<exists>dec. decode_mapping env ctx obj = Inr dec \<and> dd_allow dec) \<longleftrightarrow> ?allow = Inr True \<and> (\<exists>rs. ?reasons = Inr rs)"
    unfolding decode_mapping_def by (cases "?allow"; cases "?reasons") simp_all
  ultimately show ?thesis by simp
qed

lemma decode_policy_allows:
  "dd_allow (decode_policy env decision allow deny field) \<longleftrightarrow>
    (case unwrap env decision of
       PDict obj \<Rightarrow> (\<exists>v. verdict_field obj = Some v \<and> grants env v) \<and> (case reasons_field obj of None \<Rightarrow> True | Some v \<Rightarrow> strings_readable env v)
     | _ \<Rightarrow> grants env allow)"
proof -
  have legacy: "dd_allow (case decode_bool env allow False ''opa.allow'' of
        Inl e \<Rightarrow> denied\<lparr>dd_deny_reasons := f e\<rparr> | Inr b \<Rightarrow> \<lparr>dd_allow = b, dd_deny_reasons = g b, dd_decision = None\<rparr>) \<longleftrightarrow> grants env allow" for f g
    using decode_bool_true [of env allow "''opa.allow''"] by (auto simp: denied_def split: sum.splits)
  show ?thesis
  proof (cases "unwrap env decision")
    case (PDict obj)
    have "dd_allow (decode_policy env decision allow deny field) \<longleftrightarrow> (\<exists>dec. decode_mapping env ''opa.decision'' obj = Inr dec \<and> dd_allow dec)"
      using PDict by (auto simp: decode_policy_def Let_def denied_def split: sum.splits)
    then show ?thesis using PDict unfolding decode_mapping_allows by (auto split: option.splits)
  qed (simp_all add: decode_policy_def Let_def legacy)
qed

text \<open>C21: The decoder fails closed. It allows exactly if the decision is an object whose \<open>allow\<close> field, or else whose \<open>passed\<close> field, grants and whose
  reasons can be read, or if there is no decision object and the allow entry point grants. A value grants only if it unwraps to true, or to several
  results of which at least one is true and all others are true or undefined; undefined, empty, mistyped and contradictory results deny.\<close>

theorem decode_policy_allows_iff:
  "dd_allow (decode_policy env decision allow deny field) \<longleftrightarrow>
    (case unwrap env decision of
       PDict obj \<Rightarrow> (\<exists>v. verdict_field obj = Some v \<and> grants env v) \<and> (case reasons_field obj of None \<Rightarrow> True | Some v \<Rightarrow> strings_readable env v)
     | _ \<Rightarrow> grants env allow)"
  by (rule decode_policy_allows)

section \<open>Shapes of results\<close>

text \<open>Values without opaque objects, and how deep they are nested.\<close>

fun plain :: "'o pyval \<Rightarrow> bool" where
  "plain (PDict d) = list_all (\<lambda>(k, v). plain v) d"
| "plain (PList xs) = list_all plain xs"
| "plain (PTuple xs) = list_all plain xs"
| "plain (PSet xs) = list_all plain xs"
| "plain (POther ob) = False"
| "plain _ = True"

fun depth :: "'o pyval \<Rightarrow> nat" where
  "depth (PDict d) = Suc (foldr max (map (\<lambda>(k, v). depth v) d) 0)"
| "depth (PList xs) = Suc (foldr max (map depth xs) 0)"
| "depth (PTuple xs) = Suc (foldr max (map depth xs) 0)"
| "depth (PSet xs) = Suc (foldr max (map depth xs) 0)"
| "depth _ = 0"

lemma foldr_max_bound: "foldr max ns 0 \<le> m \<longleftrightarrow> (\<forall>n\<in>set ns. n \<le> m)" for m :: nat
  by (induction ns) auto

lemma foldr_max_mem: "n \<in> set ns \<Longrightarrow> n \<le> foldr max ns 0" for n :: nat
  using foldr_max_bound by blast

text \<open>What unwrapping aims at: a value that is undefined, primitive, an object that is no envelope, or a non-empty list of such values.\<close>

fun unwrapped :: "'o pyval \<Rightarrow> bool" where
  "unwrapped (PDict d) \<longleftrightarrow>
    map_of d ''result'' = None \<and> map_of d ''value'' = None \<and> (case map_of d ''expressions'' of Some (PList _) \<Rightarrow> False | _ \<Rightarrow> True)"
| "unwrapped (PList xs) \<longleftrightarrow> xs \<noteq> [] \<and> list_all unwrapped xs"
| "unwrapped (PTuple _) \<longleftrightarrow> False"
| "unwrapped (PSet _) \<longleftrightarrow> False"
| "unwrapped (POther _) \<longleftrightarrow> False"
| "unwrapped _ \<longleftrightarrow> True"

definition sort_permutes :: "'o opa_env \<Rightarrow> bool" where
  "sort_permutes env \<longleftrightarrow> (\<forall>xs. length (oe_sort env xs) = length xs \<and> set (oe_sort env xs) = set xs)"

lemma field_plain: "plain (PDict d) \<Longrightarrow> map_of d k = Some v \<Longrightarrow> plain v \<and> depth v < depth (PDict d)"
proof -
  assume d: "plain (PDict d)" "map_of d k = Some v"
  then have "(k, v) \<in> set d" by (simp add: map_of_SomeD)
  then have "depth v \<in> set (map (\<lambda>(k, v). depth v) d)" "plain v" using d(1) by (force simp: list_all_iff)+
  then show ?thesis using foldr_max_mem by (simp add: less_Suc_eq_le)
qed

lemma items_plain:
  "x \<in> set xs \<Longrightarrow> depth x < depth (PList xs)" "x \<in> set xs \<Longrightarrow> depth x < depth (PTuple xs)" "x \<in> set xs \<Longrightarrow> depth x < depth (PSet xs)"
  by (simp_all add: less_Suc_eq_le foldr_max_mem)

text \<open>Unwrapping follows one of four courses on a plain value.\<close>

lemma unwrap_cases:
  assumes "sort_permutes env" "plain v"
  obtains (same) "unwrap_opa_result env (Suc n) v = v" "unwrapped v"
  | (undefined) "unwrap_opa_result env (Suc n) v = PNone"
  | (step) w where "unwrap_opa_result env (Suc n) v = unwrap_opa_result env n w" "plain w" "depth w < depth v"
  | (many) xs ys where "unwrap_opa_result env (Suc n) v = PList ys" "ys \<noteq> []" "set ys = unwrap_opa_result env n ` set xs"
      "\<forall>x\<in>set xs. plain x \<and> depth x < depth v"
proof (cases v)
  case (PDict d)
  show thesis
  proof (cases "map_of d ''result''")
    case (Some r)
    then show thesis using step [of r] PDict field_plain [of d "''result''" r] assms(2) by (simp add: unwrap_opa_result.simps)
  next
    case nr: None
    show thesis
    proof (cases "map_of d ''value''")
      case (Some r)
      then show thesis using step [of r] nr PDict field_plain [of d "''value''" r] assms(2) by (simp add: unwrap_opa_result.simps)
    next
      case nv: None
      show thesis
      proof (cases "\<exists>es. map_of d ''expressions'' = Some (PList es)")
        case True
        then obtain es where es: "map_of d ''expressions'' = Some (PList es)" by blast
        have sub: "plain e \<and> depth e < depth v" if "e \<in> set es" for e
          using field_plain [of d, OF _ es] assms(2) PDict that items_plain(1) [OF that] by (auto simp: list_all_iff)
        show thesis
        proof (cases es rule: remdups_adj.cases)
          case 1
          then show thesis using undefined nr nv es PDict by (simp add: unwrap_opa_result.simps)
        next
          case (2 e)
          then show thesis using step [of e] nr nv es PDict sub by (simp add: unwrap_opa_result.simps)
        next
          case (3 e f fs)
          then show thesis using many [of "map (unwrap_opa_result env n) es" es] nr nv es PDict sub by (simp add: unwrap_opa_result.simps)
        qed
      next
        case False
        then show thesis using same nr nv PDict by (auto simp: unwrap_opa_result.simps split: option.splits pyval.splits)
      qed
    qed
  qed
next
  case (PList xs)
  have sub: "plain x \<and> depth x < depth v" if "x \<in> set xs" for x using that items_plain(1) [OF that] assms(2) PList by (auto simp: list_all_iff)
  show thesis
  proof (cases xs rule: remdups_adj.cases)
    case 1
    then show thesis using undefined PList by (simp add: unwrap_opa_result.simps)
  next
    case (2 x)
    then show thesis using step [of x] PList sub by (simp add: unwrap_opa_result.simps)
  next
    case (3 x y zs)
    then show thesis using many [of "map (unwrap_opa_result env n) xs" xs] PList sub by (simp add: unwrap_opa_result.simps)
  qed
next
  case (PTuple xs)
  have sub: "plain x \<and> depth x < depth v" if "x \<in> set xs" for x using that items_plain(2) [OF that] assms(2) PTuple by (auto simp: list_all_iff)
  show thesis
  proof (cases xs rule: remdups_adj.cases)
    case 1
    then show thesis using undefined PTuple by (simp add: unwrap_opa_result.simps)
  next
    case (2 x)
    then show thesis using step [of x] PTuple sub by (simp add: unwrap_opa_result.simps)
  next
    case (3 x y zs)
    then show thesis using many [of "map (unwrap_opa_result env n) xs" xs] PTuple sub by (simp add: unwrap_opa_result.simps)
  qed
next
  case (PSet xs)
  have sub: "plain x \<and> depth x < depth v" if "x \<in> set xs" for x using that items_plain(3) [OF that] assms(2) PSet by (auto simp: list_all_iff)
  let ?ys = "oe_sort env (map (unwrap_opa_result env n) xs)"
  have "length ?ys = length xs" "set ?ys = unwrap_opa_result env n ` set xs" using assms(1) by (simp_all add: sort_permutes_def)
  then have "xs \<noteq> [] \<Longrightarrow> ?ys \<noteq> []" "set ?ys = unwrap_opa_result env n ` set xs" by auto
  moreover have "unwrap_opa_result env (Suc n) v = (if xs = [] then PNone else PList ?ys)" by (cases xs) (simp_all add: PSet unwrap_opa_result.simps)
  ultimately show thesis using undefined many [of ?ys xs] sub by (cases "xs = []") simp_all
qed (use assms(2) same in \<open>auto simp: unwrap_opa_result.simps try_convert_unknown_to_python_def\<close>)

lemma unwrap_shallower:
  assumes "sort_permutes env" "plain v"
  shows "plain (unwrap_opa_result env n v) \<and> depth (unwrap_opa_result env n v) \<le> depth v"
  using assms(2)
proof (induction n arbitrary: v)
  case (Suc n)
  show ?case using assms(1) Suc.prems
  proof (cases rule: unwrap_cases [where n = n])
    case (step w)
    then show ?thesis using Suc.IH [of w] by simp
  next
    case (many xs ys)
    have sub: "plain y \<and> depth y < depth v" if "y \<in> set ys" for y
    proof -
      from that many(3) obtain x where x: "x \<in> set xs" "y = unwrap_opa_result env n x" by blast
      then show ?thesis using Suc.IH [of x] many(4) by (metis le_less_trans)
    qed
    then have "\<forall>n\<in>set (map depth ys). n \<le> depth v - 1" by fastforce
    moreover have "0 < depth v" using sub [of "hd ys"] many(2) by simp
    ultimately have "foldr max (map depth ys) 0 < depth v"
      using foldr_max_bound [of "map depth ys" "depth v - 1"] by linarith
    then show ?thesis using many(1) sub by (simp add: list_all_iff)
  qed (use Suc.prems in auto)
qed (simp add: unwrap_opa_result.simps)

lemma unwrap_reaches:
  assumes "sort_permutes env" "plain v" "depth v \<le> n"
  shows "unwrapped (unwrap_opa_result env n v)"
  using assms(2,3)
proof (induction n arbitrary: v)
  case 0
  then show ?case by (cases v) (simp_all add: unwrap_opa_result.simps)
next
  case (Suc n)
  show ?case using assms(1) Suc.prems(1)
  proof (cases rule: unwrap_cases [where n = n])
    case (step w)
    then show ?thesis using Suc.IH [of w] Suc.prems(2) by simp
  next
    case (many xs ys)
    have "unwrapped y" if "y \<in> set ys" for y
    proof -
      from that many(3) obtain x where x: "x \<in> set xs" "y = unwrap_opa_result env n x" by blast
      then show ?thesis using Suc.IH [of x] many(4) Suc.prems(2) by auto
    qed
    then show ?thesis using many(1,2) by (simp add: list_all_iff)
  qed simp_all
qed

text \<open>C28: Unwrapping a result of at most twelve levels of lists and mappings gives an undefined, a primitive, an object that is no envelope, or a
  non-empty list of such values, so the decoders meet no envelope; and it adds no opaque value and no nesting.\<close>

theorem unwrap_typed:
  assumes "sort_permutes env" "plain v" "depth v \<le> 12"
  shows "unwrapped (unwrap env v) \<and> plain (unwrap env v) \<and> depth (unwrap env v) \<le> depth v"
  using unwrap_reaches [OF assms] unwrap_shallower [OF assms(1,2)] by blast

definition test_env :: "unit opa_env" where
  "test_env = \<lparr>oe_method = \<lambda>_ _. NotCallable, oe_loads = \<lambda>_. None, oe_utf8 = Some, oe_sort = \<lambda>xs. xs, oe_message = \<lambda>_. ''decode error''\<rparr>"

lemma test_env_sort: "sort_permutes test_env"
  by (simp add: sort_permutes_def test_env_def)

definition envelope :: "unit pyval" where
  "envelope = PDict [(''result'', PList [PDict [(''expressions'', PList [PDict [(''value'', PBool False)], PDict [(''value'', PNone)]])]])]"

theorem unwrap_typed_witness:
  "unwrap test_env envelope = PList [PBool False, PNone] \<and> unwrapped (unwrap test_env envelope)"
proof -
  have "plain envelope" "depth envelope \<le> 12" "unwrap test_env envelope = PList [PBool False, PNone]" by code_simp+
  then show ?thesis using unwrap_typed [OF test_env_sort, of envelope] by simp
qed

section \<open>Termination\<close>

lemma decode_bool_recursion: "decode_bool env raw dflt ctx \<noteq> Inl RecursionExceeded"
proof -
  have "decode_bool_items env ctx xs \<noteq> Inl RecursionExceeded" for xs by (induction xs) (auto simp: bind_r_Inl_iff split: pyval.splits)
  then have "decode_bool_list env dflt ctx xs \<noteq> Inl RecursionExceeded" for xs
    by (auto simp: decode_bool_list_def bind_r_Inl_iff split: list.splits)
  then show ?thesis by (auto simp: decode_bool_def split: pyval.splits)
qed

lemma decode_strings_recursion: "decode_strings env raw ctx \<noteq> Inl RecursionExceeded"
proof -
  have "decode_string_items env ctx xs \<noteq> Inl RecursionExceeded" for xs by (induction xs) (auto simp: bind_r_Inl_iff split: pyval.splits)
  then show ?thesis by (auto simp: decode_strings_def bind_r_Inl_iff Let_def split: pyval.splits)
qed

lemma decode_mapping_recursion: "decode_mapping env ctx obj \<noteq> Inl RecursionExceeded"
  by (auto simp: decode_mapping_def bind_r_Inl_iff decode_bool_recursion decode_strings_recursion split: option.splits)

lemma map_r_Inl: "map_r f xs = Inl e \<Longrightarrow> \<exists>x\<in>set xs. f x = Inl e"
  by (induction xs) (auto simp: bind_r_Inl_iff)

text \<open>Decoding a decision ends: on a value without opaque objects the recursion is at most as deep as the value is nested, so a
  stack of that depth is never exceeded.\<close>

theorem decode_decision_terminates:
  assumes "sort_permutes env" "plain raw" "depth raw < fuel"
  shows "decode_decision env fuel raw ctx \<noteq> Inl RecursionExceeded"
  using assms(2,3)
proof (induction fuel arbitrary: raw)
  case (Suc fuel)
  let ?u = "unwrap env raw"
  have u: "plain ?u" "depth ?u \<le> depth raw" using unwrap_shallower [OF assms(1) Suc.prems(1), of 12] by simp_all
  have items: "map_r (\<lambda>v. decode_decision env fuel v ctx) (filter (\<lambda>v. v \<noteq> PNone) (map (unwrap env) xs)) \<noteq> Inl RecursionExceeded"
    if "\<forall>x\<in>set xs. plain x \<and> depth x < depth ?u" for xs
  proof
    assume "map_r (\<lambda>v. decode_decision env fuel v ctx) (filter (\<lambda>v. v \<noteq> PNone) (map (unwrap env) xs)) = Inl RecursionExceeded"
    from map_r_Inl [OF this] obtain x where x: "x \<in> set xs" "decode_decision env fuel (unwrap env x) ctx = Inl RecursionExceeded" by auto
    then have "plain (unwrap env x)" "depth (unwrap env x) < fuel"
      using unwrap_shallower [OF assms(1), of x 12] that u(2) Suc.prems(2) by fastforce+
    then show False using Suc.IH x(2) by blast
  qed
  have merge: "merge_decisions ctx ds \<noteq> Inl RecursionExceeded" for ds by (auto simp: merge_decisions_def split: list.splits)
  show ?case
  proof (cases ?u)
    case (PList xs)
    then have "\<forall>x\<in>set xs. plain x \<and> depth x < depth ?u" using u(1) items_plain(1) by (auto simp: list_all_iff less_Suc_eq_le foldr_max_mem)
    from items [OF this] show ?thesis by (auto simp: PList Let_def bind_r_Inl_iff merge decode_bool_recursion)
  next
    case (PTuple xs)
    then have "\<forall>x\<in>set xs. plain x \<and> depth x < depth ?u" using u(1) items_plain(2) by (auto simp: list_all_iff less_Suc_eq_le foldr_max_mem)
    from items [OF this] show ?thesis by (auto simp: PTuple Let_def bind_r_Inl_iff merge decode_bool_recursion)
  qed (simp_all add: Let_def decode_mapping_recursion)
qed simp

theorem decode_decision_terminates_witness:
  "decode_decision test_env 6 envelope ''policy'' \<noteq> Inl RecursionExceeded"
proof -
  have "plain envelope" "depth envelope < 6" by code_simp+
  then show ?thesis using decode_decision_terminates [OF test_env_sort] by blast
qed

text \<open>A decision object that carries a key \<open>result\<close> or \<open>value\<close> is taken for an envelope: its own verdict is lost.\<close>

lemma denial_lost_in_envelope:
  "dd_allow (decode_policy test_env
     (PDict [(''allow'', PBool False), (''value'', PDict [(''allow'', PBool True)])]) (PBool False) PNone ''deny_reasons'')"
  by code_simp

end
