(* ===== verification/Policy_Types.thy ===== *)
theory Policy_Types
  imports Py_Text
begin

text \<open>
  Enforcement levels (\<open>libs/canon/src/canon/enforcement/policy.py\<close>), the results of policy evaluation and their aggregation
  (\<open>utils/opa/types.py\<close>), and the decisions of the degraded mode (\<open>enforcement/degraded.py\<close>). Times, durations and the raw output are left out; what a policy
  says about a violation has an arbitrary type.
\<close>

section \<open>Levels\<close>

datatype EnforcementLevel = HARD_MANDATORY | SOFT_MANDATORY | ADVISORY

fun level_value :: "EnforcementLevel \<Rightarrow> string" where
  "level_value HARD_MANDATORY = ''hard_mandatory''"
| "level_value SOFT_MANDATORY = ''soft_mandatory''"
| "level_value ADVISORY = ''advisory''"

text \<open>\<open>EnforcementLevel.is_blocking\<close> and \<open>is_advisory\<close> look at the \<open>enforcement\<close> attribute of a result, a level or its text; a result without
  one counts as the empty text.\<close>

definition is_blocking_level :: "string option \<Rightarrow> bool" where
  "is_blocking_level enforcement = ((case enforcement of None \<Rightarrow> [] | Some e \<Rightarrow> e) \<in> {level_value HARD_MANDATORY, level_value SOFT_MANDATORY})"

definition is_advisory_level :: "string option \<Rightarrow> bool" where
  "is_advisory_level enforcement = ((case enforcement of None \<Rightarrow> [] | Some e \<Rightarrow> e) = level_value ADVISORY)"

section \<open>Results\<close>

record 'x PolicyResult =
  po_policy_id :: string
  po_allowed :: bool
  po_enforcement :: EnforcementLevel
  po_legal_citation :: "string option"
  po_regulation_url :: "string option"
  po_violation_code :: 'x
  po_violation_message :: 'x
  po_remediation_steps :: "'x list"
  po_conditions_met :: "'x list"
  po_conditions_missing :: "'x list"

definition po_is_blocking :: "'x PolicyResult \<Rightarrow> bool" where
  "po_is_blocking r = (if po_allowed r then False else po_enforcement r \<in> {HARD_MANDATORY, SOFT_MANDATORY})"

definition po_is_advisory_failure :: "'x PolicyResult \<Rightarrow> bool" where
  "po_is_advisory_failure r \<longleftrightarrow> \<not> po_allowed r \<and> po_enforcement r = ADVISORY"

record 'x AggregatedResult =
  ag_allowed :: bool
  ag_results :: "'x PolicyResult list"
  ag_blocking_count :: nat
  ag_advisory_count :: nat

definition from_results :: "'x PolicyResult list \<Rightarrow> 'x AggregatedResult" where
  "from_results results =
    (let blocking_count = length (filter po_is_blocking results);
         advisory_count = length (filter po_is_advisory_failure results)
     in \<lparr>ag_allowed = (blocking_count = 0), ag_results = results, ag_blocking_count = blocking_count, ag_advisory_count = advisory_count\<rparr>)"

definition get_blocking_results :: "'x AggregatedResult \<Rightarrow> 'x PolicyResult list" where
  "get_blocking_results a = filter po_is_blocking (ag_results a)"

definition get_advisory_results :: "'x AggregatedResult \<Rightarrow> 'x PolicyResult list" where
  "get_advisory_results a = filter po_is_advisory_failure (ag_results a)"

section \<open>Degraded mode\<close>

datatype DegradedReason = POOL_EXHAUSTED | CIRCUIT_OPEN | TIMEOUT | SERVICE_UNAVAILABLE

definition reason_of :: "DegradedReason + string \<Rightarrow> DegradedReason" where
  "reason_of r =
    (case r of
       Inl x \<Rightarrow> x
     | Inr s \<Rightarrow>
         if s = ''pool_exhausted'' then POOL_EXHAUSTED
         else if s = ''circuit_open'' then CIRCUIT_OPEN
         else if s = ''timeout'' then TIMEOUT
         else SERVICE_UNAVAILABLE)"

record DegradedModeConfig =
  dc_advisory_fail_open :: bool
  dc_soft_mandatory_fail_open :: bool
  dc_hard_mandatory_fail_open :: bool
  dc_log_degraded :: bool

definition default_degraded_config :: DegradedModeConfig where
  "default_degraded_config =
    \<lparr>dc_advisory_fail_open = True, dc_soft_mandatory_fail_open = False, dc_hard_mandatory_fail_open = False, dc_log_degraded = True\<rparr>"

record DegradedResult =
  dr_allowed :: bool
  dr_degraded :: bool
  dr_reason :: DegradedReason
  dr_enforcement :: string
  dr_message :: string

definition requires_review :: "DegradedResult \<Rightarrow> bool" where
  "requires_review r \<longleftrightarrow> dr_enforcement r = ''soft_mandatory'' \<and> dr_allowed r"

record DegradedMode =
  dm_config :: DegradedModeConfig
  dm_degraded_count :: nat
  dm_allowed_count :: nat
  dm_blocked_count :: nat

definition new_degraded_mode :: "DegradedModeConfig \<Rightarrow> DegradedMode" where
  "new_degraded_mode config = \<lparr>dm_config = config, dm_degraded_count = 0, dm_allowed_count = 0, dm_blocked_count = 0\<rparr>"

definition degraded_decision :: "DegradedModeConfig \<Rightarrow> string \<Rightarrow> bool \<times> string" where
  "degraded_decision config enforcement =
    (let level = py_lower enforcement
     in if level = ''advisory'' then
          (dc_advisory_fail_open config,
           if dc_advisory_fail_open config then ''Advisory gate bypassed in degraded mode'' else ''Advisory gate blocked in degraded mode'')
        else if level = ''soft_mandatory'' then
          (dc_soft_mandatory_fail_open config,
           if dc_soft_mandatory_fail_open config then ''Soft-mandatory gate bypassed in degraded mode (requires review)''
           else ''Soft-mandatory gate blocked in degraded mode'')
        else if level = ''hard_mandatory'' then
          (dc_hard_mandatory_fail_open config,
           if dc_hard_mandatory_fail_open config then ''DANGER: Hard-mandatory gate bypassed in degraded mode''
           else ''Hard-mandatory gate blocked in degraded mode (fail-closed)'')
        else (False, ''Unknown enforcement level '' @ [CHR 0x27] @ enforcement @ [CHR 0x27] @ '' blocked''))"

definition evaluate_degraded :: "string \<Rightarrow> DegradedReason + string \<Rightarrow> DegradedMode \<Rightarrow> DegradedResult \<times> DegradedMode" where
  "evaluate_degraded enforcement reason m =
    (let (allowed, message) = degraded_decision (dm_config m) enforcement
     in (\<lparr>dr_allowed = allowed, dr_degraded = True, dr_reason = reason_of reason, dr_enforcement = py_lower enforcement, dr_message = message\<rparr>,
         m\<lparr>dm_degraded_count := dm_degraded_count m + 1,
           dm_allowed_count := dm_allowed_count m + (if allowed then 1 else 0),
           dm_blocked_count := dm_blocked_count m + (if allowed then 0 else 1)\<rparr>))"

definition reset_metrics :: "DegradedMode \<Rightarrow> DegradedMode" where
  "reset_metrics m = m\<lparr>dm_degraded_count := 0, dm_allowed_count := 0, dm_blocked_count := 0\<rparr>"

section \<open>Properties\<close>

lemma from_results_allowed: "ag_allowed (from_results rs) \<longleftrightarrow> (\<forall>r\<in>set rs. po_allowed r \<or> po_enforcement r = ADVISORY)"
proof -
  have "po_is_blocking r \<longleftrightarrow> \<not> po_allowed r \<and> po_enforcement r \<noteq> ADVISORY" for r
    by (cases "po_enforcement r") (simp_all add: po_is_blocking_def)
  then show ?thesis by (auto simp: from_results_def Let_def filter_empty_conv)
qed

text \<open>The gates asked about in degraded mode since the last reset, in order: the counters add up and count the decisions.\<close>

inductive degraded_run :: "DegradedModeConfig \<Rightarrow> string list \<Rightarrow> DegradedMode \<Rightarrow> bool" where
  new: "degraded_run config [] (new_degraded_mode config)"
| evaluate: "degraded_run config gates m \<Longrightarrow> degraded_run config (gates @ [enforcement]) (snd (evaluate_degraded enforcement reason m))"
| reset: "degraded_run config gates m \<Longrightarrow> degraded_run config [] (reset_metrics m)"

lemma degraded_run_counts:
  assumes "degraded_run config gates m"
  shows "dm_config m = config \<and> dm_degraded_count m = length gates \<and>
    dm_allowed_count m = length (filter (\<lambda>g. fst (degraded_decision config g)) gates) \<and>
    dm_blocked_count m = length (filter (\<lambda>g. \<not> fst (degraded_decision config g)) gates)"
  using assms
  by induction (auto simp: new_degraded_mode_def evaluate_degraded_def reset_metrics_def Let_def split: prod.splits)

end
