(* ===== verification/Policy_Resolver.thy ===== *)
theory Policy_Resolver
  imports Policy_Types Kahn Complex_Main
begin

text \<open>
  Which policies apply to a request (\<open>libs/canon/src/canon/utils/opa/resolver.py\<close>): the policy index and the seven stages of \<open>PolicyResolver.resolve\<close>.
  Times are instants in microseconds; \<open>ts\<close> is the value of \<open>datetime.timestamp()\<close>, the last component of the sort key. The charter is any object with
  \<open>is_effective\<close>, \<open>policy_ids\<close> and \<open>constraints\<close>, which is what the code asks of it. Values of policy parameters are opaque.
\<close>

section \<open>Entries and the index\<close>

record ResolutionContext =
  rc_tenant_id :: uuid
  rc_action :: string
  rc_jurisdictions :: "string list"
  rc_subject_id :: "uuid option"
  rc_timestamp :: int

record 'v ResolvedPolicy =
  rp_policy_id :: string
  rp_rego_package :: string
  rp_enforcement :: EnforcementLevel
  rp_legal_citation :: "string option"
  rp_regulation_url :: "string option"
  rp_parameters :: "(string, 'v) dict"

record 'v PolicyIndexEntry =
  pn_policy_id :: string
  pn_rego_package :: string
  pn_enforcement :: EnforcementLevel
  pn_authority :: string
  pn_jurisdictions :: "string list"
  pn_actions :: "string list"
  pn_effective_from :: "int option"
  pn_effective_until :: "int option"
  pn_legal_citation :: "string option"
  pn_regulation_url :: "string option"
  pn_priority :: int
  pn_prerequisites :: "string list"
  pn_excludes :: "string list"
  pn_parameters :: "(string, 'v) dict"

definition entry_is_effective :: "int \<Rightarrow> 'v PolicyIndexEntry \<Rightarrow> bool" where
  "entry_is_effective moment e =
    (if (case pn_effective_from e of Some f \<Rightarrow> moment < f | None \<Rightarrow> False) then False
     else if (case pn_effective_until e of Some u \<Rightarrow> u < moment | None \<Rightarrow> False) then False
     else True)"

definition applies_to_jurisdiction :: "string list \<Rightarrow> 'v PolicyIndexEntry \<Rightarrow> bool" where
  "applies_to_jurisdiction jurisdictions e =
    (if pn_jurisdictions e = [] then True else list_ex (\<lambda>j. j \<in> set (pn_jurisdictions e)) jurisdictions)"

definition applies_to_action :: "string \<Rightarrow> 'v PolicyIndexEntry \<Rightarrow> bool" where
  "applies_to_action action e = (if pn_actions e = [] then True else action \<in> set (pn_actions e))"

definition to_resolved_policy :: "'v PolicyIndexEntry \<Rightarrow> 'v ResolvedPolicy" where
  "to_resolved_policy e =
    \<lparr>rp_policy_id = pn_policy_id e, rp_rego_package = pn_rego_package e, rp_enforcement = pn_enforcement e,
     rp_legal_citation = pn_legal_citation e, rp_regulation_url = pn_regulation_url e, rp_parameters = pn_parameters e\<rparr>"

record 'v PolicyIndex =
  px_entries :: "(string, 'v PolicyIndexEntry) dict"
  px_by_jurisdiction :: "(string, string list) dict"
  px_by_action :: "(string, string list) dict"

definition empty_index :: "'v PolicyIndex" where
  "empty_index = \<lparr>px_entries = [], px_by_jurisdiction = [], px_by_action = []\<rparr>"

definition list_under :: "string \<Rightarrow> (string, string list) dict \<Rightarrow> string \<Rightarrow> (string, string list) dict" where
  "list_under pid d k = dict_set k ((case map_of d k of None \<Rightarrow> [] | Some ids \<Rightarrow> ids) @ [pid]) d"

definition index_add :: "'v PolicyIndexEntry \<Rightarrow> 'v PolicyIndex \<Rightarrow> 'v PolicyIndex" where
  "index_add e px =
    \<lparr>px_entries = dict_set (pn_policy_id e) e (px_entries px),
     px_by_jurisdiction = foldl (list_under (pn_policy_id e)) (px_by_jurisdiction px) (pn_jurisdictions e),
     px_by_action = foldl (list_under (pn_policy_id e)) (px_by_action px) (pn_actions e)\<rparr>"

definition index_get :: "string \<Rightarrow> 'v PolicyIndex \<Rightarrow> 'v PolicyIndexEntry option" where
  "index_get pid px = map_of (px_entries px) pid"

definition all_entries :: "'v PolicyIndex \<Rightarrow> 'v PolicyIndexEntry list" where
  "all_entries px = map snd (px_entries px)"

definition listed_entries :: "(string, string list) dict \<Rightarrow> string \<Rightarrow> 'v PolicyIndex \<Rightarrow> 'v PolicyIndexEntry list" where
  "listed_entries d k px = List.map_filter (map_of (px_entries px)) (case map_of d k of None \<Rightarrow> [] | Some ids \<Rightarrow> ids)"

definition entries_for_jurisdiction :: "string \<Rightarrow> 'v PolicyIndex \<Rightarrow> 'v PolicyIndexEntry list" where
  "entries_for_jurisdiction j px = listed_entries (px_by_jurisdiction px) j px"

definition entries_for_action :: "string \<Rightarrow> 'v PolicyIndex \<Rightarrow> 'v PolicyIndexEntry list" where
  "entries_for_action a px = listed_entries (px_by_action px) a px"

section \<open>Charter overrides\<close>

definition parse_enforcement :: "string option \<Rightarrow> EnforcementLevel" where
  "parse_enforcement value =
    (case value of
       None \<Rightarrow> HARD_MANDATORY
     | Some v \<Rightarrow>
         if v = [] then HARD_MANDATORY
         else
           let name = py_lower (map (\<lambda>c. if c = CHR ''-'' then CHR ''_'' else c) (py_upper v))
           in if name = ''hard_mandatory'' then HARD_MANDATORY
              else if name = ''soft_mandatory'' then SOFT_MANDATORY
              else if name = ''advisory'' then ADVISORY
              else HARD_MANDATORY)"

text \<open>A constraint is a dictionary; the outer \<open>option\<close> tells whether a key is there. \<open>disabled\<close> is read as a truth value.\<close>

record 'v charter_constraint =
  cn_policy_id :: "string option"
  cn_enforcement :: "string option option"
  cn_parameters :: "(string, 'v) dict option"
  cn_disabled :: "bool option"

record 'v policy_charter =
  pc_is_effective :: "int \<Rightarrow> bool"
  pc_policy_ids :: "string list"
  pc_constraints :: "'v charter_constraint list"

record 'v override =
  ov_enforcement :: "string option option"
  ov_parameters :: "(string, 'v) dict option"
  ov_disabled :: "bool option"

definition no_override :: "'v override" where
  "no_override = \<lparr>ov_enforcement = None, ov_parameters = None, ov_disabled = None\<rparr>"

definition merge_constraint :: "'v charter_constraint \<Rightarrow> 'v override \<Rightarrow> 'v override" where
  "merge_constraint c ov =
    \<lparr>ov_enforcement = (case cn_enforcement c of None \<Rightarrow> ov_enforcement ov | Some e \<Rightarrow> Some e),
     ov_parameters =
       (case cn_parameters c of
          None \<Rightarrow> ov_parameters ov
        | Some ps \<Rightarrow> Some (dict_update (case ov_parameters ov of None \<Rightarrow> [] | Some qs \<Rightarrow> qs) ps)),
     ov_disabled = (case cn_disabled c of None \<Rightarrow> ov_disabled ov | Some b \<Rightarrow> Some b)\<rparr>"

definition add_constraint :: "(string, 'v override) dict \<Rightarrow> 'v charter_constraint \<Rightarrow> (string, 'v override) dict" where
  "add_constraint overrides c =
    (case cn_policy_id c of
       None \<Rightarrow> overrides
     | Some pid \<Rightarrow>
         if pid = [] then overrides
         else dict_set pid (merge_constraint c (case map_of overrides pid of None \<Rightarrow> no_override | Some ov \<Rightarrow> ov)) overrides)"

definition build_constraint_overrides :: "'v policy_charter \<Rightarrow> (string, 'v override) dict" where
  "build_constraint_overrides ch = foldl add_constraint [] (pc_constraints ch)"

definition apply_constraint_to_entry :: "'v PolicyIndexEntry \<Rightarrow> (string, 'v override) dict \<Rightarrow> 'v PolicyIndexEntry option" where
  "apply_constraint_to_entry e overrides =
    (case map_of overrides (pn_policy_id e) of
       None \<Rightarrow> Some e
     | Some ov \<Rightarrow>
         if ov = no_override then Some e
         else if ov_disabled ov = Some True then None
         else
           Some (e\<lparr>pn_enforcement := (case ov_enforcement ov of None \<Rightarrow> pn_enforcement e | Some v \<Rightarrow> parse_enforcement v),
                   pn_parameters := (case ov_parameters ov of None \<Rightarrow> pn_parameters e | Some ps \<Rightarrow> dict_update (pn_parameters e) ps)\<rparr>))"

definition apply_charter :: "'v policy_charter option \<Rightarrow> 'v PolicyIndexEntry list \<Rightarrow> ResolutionContext \<Rightarrow> 'v PolicyIndexEntry list" where
  "apply_charter charter entries ctx =
    (case charter of
       None \<Rightarrow> entries
     | Some ch \<Rightarrow>
         if \<not> pc_is_effective ch (rc_timestamp ctx) then entries
         else
           let active = (if pc_policy_ids ch = [] then entries else filter (\<lambda>e. pn_policy_id e \<in> set (pc_policy_ids ch)) entries);
               overrides = build_constraint_overrides ch
           in if overrides = [] then active else List.map_filter (\<lambda>e. apply_constraint_to_entry e overrides) active)"

section \<open>Precedence\<close>

text \<open>The score of one jurisdiction of a policy: the distance from the end of the first jurisdiction of the context that is equal to it or
  a prefix of it.\<close>

fun jurisdiction_match :: "string \<Rightarrow> string list \<Rightarrow> nat" where
  "jurisdiction_match policy_j [] = 0"
| "jurisdiction_match policy_j (ctx_j # rest) =
    (if ctx_j = policy_j \<or> py_startswith (ctx_j @ ''-'') policy_j then Suc (length rest) else jurisdiction_match policy_j rest)"

definition jurisdiction_score :: "'v PolicyIndexEntry \<Rightarrow> ResolutionContext \<Rightarrow> nat" where
  "jurisdiction_score e ctx = foldl (\<lambda>s j. max s (jurisdiction_match j (rc_jurisdictions ctx))) 0 (pn_jurisdictions e)"

definition compute_specificity :: "(int \<Rightarrow> rat) \<Rightarrow> 'v PolicyIndexEntry \<Rightarrow> ResolutionContext \<Rightarrow> nat \<times> nat \<times> rat" where
  "compute_specificity ts e ctx =
    (jurisdiction_score e ctx,
     if pn_actions e \<noteq> [] \<and> rc_action ctx \<in> set (pn_actions e) then 1 else 0,
     case pn_effective_from e of Some f \<Rightarrow> ts f | None \<Rightarrow> 0)"

text \<open>The sort key, compared component by component.\<close>

definition sort_key_of :: "(int \<Rightarrow> rat) \<Rightarrow> ResolutionContext \<Rightarrow> 'v PolicyIndexEntry \<Rightarrow> rat list" where
  "sort_key_of ts ctx e =
    (case compute_specificity ts e ctx of (j, a, r) \<Rightarrow> [- of_int (pn_priority e), - of_nat j, - of_nat a, - r])"

fun drop_excluded :: "string set \<Rightarrow> string set \<Rightarrow> 'v PolicyIndexEntry list \<Rightarrow> 'v PolicyIndexEntry list" where
  "drop_excluded seen excluded [] = []"
| "drop_excluded seen excluded (e # es) =
    (if pn_policy_id e \<in> excluded then drop_excluded seen excluded es
     else
       let seen' = insert (pn_policy_id e) seen
       in e # drop_excluded seen' (excluded \<union> (set (pn_excludes e) - seen')) es)"

section \<open>Order by prerequisites\<close>

definition included_ids :: "'v PolicyIndexEntry list \<Rightarrow> string set" where
  "included_ids entries = set (map pn_policy_id entries)"

definition add_prerequisites ::
  "string set \<Rightarrow> degrees \<times> (string, string list) dict \<Rightarrow> 'v PolicyIndexEntry \<Rightarrow> degrees \<times> (string, string list) dict" where
  "add_prerequisites ids st e = foldl (add_prerequisite ids (pn_policy_id e)) st (pn_prerequisites e)"

definition prerequisite_graph :: "'v PolicyIndexEntry list \<Rightarrow> degrees \<times> (string, string list) dict" where
  "prerequisite_graph entries =
    foldl (add_prerequisites (included_ids entries))
      (dict_update [] (map (\<lambda>e. (pn_policy_id e, 0)) entries), dict_update [] (map (\<lambda>e. (pn_policy_id e, [])) entries)) entries"

definition policy_topological_sort :: "'v PolicyIndexEntry list \<Rightarrow> 'v PolicyIndexEntry list" where
  "policy_topological_sort entries =
    (let (deg, deps) = prerequisite_graph entries;
         order = drain deps (map fst (filter (\<lambda>e. snd e = 0) deg)) deg [];
         result = List.map_filter (by_name pn_policy_id entries) order
     in if length result \<noteq> length entries then entries else result)"

definition resolve_precedence :: "(int \<Rightarrow> rat) \<Rightarrow> 'v PolicyIndexEntry list \<Rightarrow> ResolutionContext \<Rightarrow> 'v PolicyIndexEntry list" where
  "resolve_precedence ts entries ctx =
    (if entries = [] then entries else policy_topological_sort (drop_excluded {} {} (sort_key (sort_key_of ts ctx) entries)))"

definition policy_resolve ::
  "(int \<Rightarrow> rat) \<Rightarrow> 'v PolicyIndex \<Rightarrow> 'v policy_charter option \<Rightarrow> ResolutionContext \<Rightarrow> 'v ResolvedPolicy list" where
  "policy_resolve ts px charter ctx =
    (let candidates = all_entries px;
         in_jurisdiction = filter (applies_to_jurisdiction (rc_jurisdictions ctx)) candidates;
         for_action = filter (applies_to_action (rc_action ctx)) in_jurisdiction;
         effective = filter (entry_is_effective (rc_timestamp ctx)) for_action;
         chartered = apply_charter charter effective ctx;
         ordered = resolve_precedence ts chartered ctx
     in map to_resolved_policy ordered)"

end
