(* ===== verification/Policy_Resolver_Correct.thy ===== *)
theory Policy_Resolver_Correct
  imports Policy_Resolver
begin

text \<open>
  Correctness of policy resolution: which policies of the index are resolved for a request, in which order, and what remains of
  mutual exclusions and prerequisites.
\<close>

section \<open>The order by prerequisites\<close>

definition prerequisite_edges :: "string set \<Rightarrow> 'v PolicyIndexEntry list \<Rightarrow> (string \<times> string) list" where
  "prerequisite_edges ids entries = concat (map (\<lambda>e. map (\<lambda>p. (p, pn_policy_id e)) (filter (\<lambda>p. p \<in> ids) (pn_prerequisites e))) entries)"

lemma graph_for_start:
  "graph_for (included_ids entries) [] (dict_update [] (map (\<lambda>e. (pn_policy_id e, 0)) entries), dict_update [] (map (\<lambda>e. (pn_policy_id e, [])) entries))"
  by (simp add: graph_for_def included_ids_def distinct_dict_update map_of_dict_update_const image_image)

lemma graph_for_graph: "graph_for (included_ids entries) (prerequisite_edges (included_ids entries) entries) (prerequisite_graph entries)"
proof -
  let ?N = "included_ids entries"
  have "graph_for ?N (E @ prerequisite_edges ?N es) (foldl (add_prerequisites ?N) st es)" if "graph_for ?N E st" "set es \<subseteq> set entries" for E st es
    using that
  proof (induction es arbitrary: E st)
    case (Cons e es)
    have "pn_policy_id e \<in> ?N" using Cons.prems(2) by (simp add: included_ids_def)
    from Cons.IH [OF graph_for_prerequisites [OF Cons.prems(1) this, of "pn_prerequisites e"]] Cons.prems(2)
    show ?case by (simp add: prerequisite_edges_def add_prerequisites_def)
  qed (simp add: prerequisite_edges_def)
  from this [OF graph_for_start, of entries] show ?thesis by (simp add: prerequisite_graph_def)
qed

lemma edges_between: "set (prerequisite_edges (included_ids entries) entries) \<subseteq> included_ids entries \<times> included_ids entries"
  by (auto simp: prerequisite_edges_def included_ids_def)

text \<open>What the sort returns: the entries with every entry after its prerequisites, or the entries as they were if there is a cycle.\<close>

lemma map_filter_by_name:
  assumes "distinct (map pn_policy_id es)" "set order \<subseteq> included_ids es"
  shows "map pn_policy_id (List.map_filter (by_name pn_policy_id es) order) = order"
    "set (List.map_filter (by_name pn_policy_id es) order) = {e \<in> set es. pn_policy_id e \<in> set order}"
proof -
  have found: "\<exists>e. by_name pn_policy_id es p = Some e \<and> pn_policy_id e = p \<and> e \<in> set es" if "p \<in> included_ids es" for p
    using that by_name_mem [of p pn_policy_id es] by (auto simp: included_ids_def dest: by_name_key)
  show ids: "map pn_policy_id (List.map_filter (by_name pn_policy_id es) order) = order"
    using assms(2)
  proof (induction order)
    case (Cons p ps)
    then obtain e where "by_name pn_policy_id es p = Some e" "pn_policy_id e = p" using found [of p] by auto
    then show ?case using Cons by (simp add: map_filter_simps)
  qed (simp add: map_filter_simps)
  show "set (List.map_filter (by_name pn_policy_id es) order) = {e \<in> set es. pn_policy_id e \<in> set order}" (is "?L = ?R")
  proof (intro set_eqI iffI)
    fix e assume e: "e \<in> ?L"
    then show "e \<in> ?R" by (auto simp: List.map_filter_def dest: by_name_key)
  next
    fix e assume e: "e \<in> ?R"
    then obtain f where f: "by_name pn_policy_id es (pn_policy_id e) = Some f" "pn_policy_id f = pn_policy_id e" "f \<in> set es"
      using found [of "pn_policy_id e"] assms(2) by auto
    then have "f = e" using e assms(1) by (auto dest: inj_onD [of pn_policy_id "set es" f e] simp: distinct_map)
    then show "e \<in> ?L" using e f(1) by (force simp: List.map_filter_def)
  qed
qed

lemma policy_topological_sort_cases:
  assumes "distinct (map pn_policy_id es)"
  obtains (sorted) "set (policy_topological_sort es) = set es" "distinct (map pn_policy_id (policy_topological_sort es))"
      "\<forall>p n. (p, n) \<in> set (prerequisite_edges (included_ids es) es) \<longrightarrow> precedes (map pn_policy_id (policy_topological_sort es)) p n"
  | (cyclic) "policy_topological_sort es = es" "\<not> acyclic (set (prerequisite_edges (included_ids es) es))"
proof -
  let ?N = "included_ids es" let ?E = "prerequisite_edges ?N es"
  obtain deg deps where g: "prerequisite_graph es = (deg, deps)" by fastforce
  define order where "order = drain deps (map fst (filter (\<lambda>e. snd e = 0) deg)) deg []"
  have graph: "graph_for ?N ?E (deg, deps)" using graph_for_graph [of es] g by simp
  then have "\<forall>p\<in>?N. map_of deps p = Some (map snd (filter (\<lambda>e. fst e = p) ?E))" unfolding graph_for_def snd_conv by blast
  then obtain deg' where inv: "drain_inv ?N ?E [] deg' order"
    using drain_keeps [OF drain_inv_start [OF graph] edges_between] unfolding order_def by blast
  then have order: "distinct order" "set order \<subseteq> ?N" by (auto simp: drain_inv_def)
  let ?r = "List.map_filter (by_name pn_policy_id es) order"
  note r = map_filter_by_name [OF assms order(2)]
  have len: "length ?r = length order" using arg_cong [OF r(1), of length] by simp
  have "length es = card ?N" using assms distinct_card by (fastforce simp: included_ids_def)
  then have all: "length ?r = length es \<longleftrightarrow> set order = ?N"
    using len distinct_card [OF order(1)] card_subset_eq [OF _ order(2)] by (auto simp: included_ids_def)
  show thesis
  proof (cases "set order = ?N")
    case True
    then have "policy_topological_sort es = ?r" using all g by (simp add: policy_topological_sort_def order_def)
    moreover have "set ?r = set es" using r(2) True by (auto simp: included_ids_def)
    moreover have "precedes order p n" if "(p, n) \<in> set ?E" for p n
      using inv that True edges_between [of es] unfolding drain_inv_def by blast
    ultimately show thesis using sorted r(1) order(1) by simp
  next
    case False
    then have "policy_topological_sort es = es" using all g by (simp add: policy_topological_sort_def order_def)
    moreover have "\<not> acyclic (set ?E)" using drain_acyclic [OF inv _ edges_between] False by blast
    ultimately show thesis by (rule cyclic)
  qed
qed

section \<open>Mutual exclusion\<close>

lemma drop_excluded_subset: "set (drop_excluded seen excluded es) \<subseteq> set es"
  by (induction seen excluded es rule: drop_excluded.induct) (auto simp: Let_def)

lemma drop_excluded_distinct: "distinct (map pn_policy_id es) \<Longrightarrow> distinct (map pn_policy_id (drop_excluded seen excluded es))"
proof (induction seen excluded es rule: drop_excluded.induct)
  case (2 seen excluded e es)
  then show ?case using drop_excluded_subset by (fastforce simp: Let_def)
qed simp

text \<open>Going down the list, an entry stays unless one that stays before it excludes it.\<close>

fun survivors :: "'v PolicyIndexEntry list \<Rightarrow> 'v PolicyIndexEntry list \<Rightarrow> 'v PolicyIndexEntry list" where
  "survivors kept [] = kept"
| "survivors kept (e # es) = survivors (if list_ex (\<lambda>k. pn_policy_id e \<in> set (pn_excludes k)) kept then kept else kept @ [e]) es"

lemma drop_excluded_survivors:
  assumes "distinct (map pn_policy_id (kept @ es))" "seen = pn_policy_id ` set kept" "excluded \<inter> pn_policy_id ` set es = (\<Union>k\<in>set kept. set (pn_excludes k)) \<inter> pn_policy_id ` set es"
  shows "kept @ drop_excluded seen excluded es = survivors kept es"
  using assms
proof (induction es arbitrary: kept seen excluded)
  case (Cons e es)
  let ?id = "pn_policy_id e"
  have out: "?id \<in> excluded \<longleftrightarrow> list_ex (\<lambda>k. ?id \<in> set (pn_excludes k)) kept" using Cons.prems(3) by (auto simp: list_ex_iff)
  have rest: "excluded \<inter> pn_policy_id ` set es = (\<Union>k\<in>set kept. set (pn_excludes k)) \<inter> pn_policy_id ` set es" using Cons.prems(3) by auto
  show ?case
  proof (cases "?id \<in> excluded")
    case True
    then show ?thesis using out Cons.IH [OF _ Cons.prems(2) rest] Cons.prems(1) by simp
  next
    case False
    have new: "insert ?id seen \<inter> pn_policy_id ` set es = {}" using Cons.prems(1,2) by auto
    have "(excluded \<union> (set (pn_excludes e) - insert ?id seen)) \<inter> pn_policy_id ` set es =
        (\<Union>k\<in>set (kept @ [e]). set (pn_excludes k)) \<inter> pn_policy_id ` set es" (is "?L = ?R")
    proof -
      have "?L = (excluded \<inter> pn_policy_id ` set es) \<union> (set (pn_excludes e) \<inter> pn_policy_id ` set es)" using new by blast
      then show ?thesis unfolding rest by auto
    qed
    then have "(kept @ [e]) @ drop_excluded (insert ?id seen) (excluded \<union> (set (pn_excludes e) - insert ?id seen)) es = survivors (kept @ [e]) es"
      using Cons.IH [of "kept @ [e]" "insert ?id seen" "excluded \<union> (set (pn_excludes e) - insert ?id seen)"] Cons.prems(1,2) by simp
    then show ?thesis using out False by (simp add: Let_def)
  qed
qed simp

lemma drop_excluded_greedy: "distinct (map pn_policy_id es) \<Longrightarrow> drop_excluded {} {} es = survivors [] es"
  using drop_excluded_survivors [of "[]" es "{}" "{}"] by simp

text \<open>In the result no entry excludes a later one, and what is missing was excluded by an earlier one.\<close>

lemma survivors_spec:
  assumes "distinct (map pn_policy_id (kept @ es))" "\<forall>a b. precedes kept a b \<longrightarrow> pn_policy_id b \<notin> set (pn_excludes a)"
  shows "(\<forall>a b. precedes (survivors kept es) a b \<longrightarrow> pn_policy_id b \<notin> set (pn_excludes a)) \<and> set kept \<subseteq> set (survivors kept es) \<and>
    (\<forall>e\<in>set es. e \<notin> set (survivors kept es) \<longrightarrow> (\<exists>k\<in>set (survivors kept es). pn_policy_id e \<in> set (pn_excludes k)))"
  using assms
proof (induction es arbitrary: kept)
  case (Cons e es)
  show ?case
  proof (cases "list_ex (\<lambda>k. pn_policy_id e \<in> set (pn_excludes k)) kept")
    case True
    then show ?thesis using Cons.IH [of kept] Cons.prems by (auto simp: list_ex_iff)
  next
    case False
    have "pn_policy_id b \<notin> set (pn_excludes a)" if "precedes (kept @ [e]) a b" for a b
    proof -
      from that obtain i j where ij: "i < j" "j < length (kept @ [e])" "(kept @ [e]) ! i = a" "(kept @ [e]) ! j = b" by (auto simp: precedes_def)
      show ?thesis
      proof (cases "j < length kept")
        case True
        then have "precedes kept a b" using ij by (auto simp: precedes_def nth_append)
        then show ?thesis using Cons.prems(2) by blast
      next
        case j: False
        then have "b = e" "a \<in> set kept" using ij by (auto simp: nth_append less_Suc_eq)
        then show ?thesis using False by (auto simp: list_ex_iff)
      qed
    qed
    then show ?thesis using Cons.IH [of "kept @ [e]"] Cons.prems(1) False by auto
  qed
qed (simp add: precedes_def)

section \<open>The index\<close>

definition index_of :: "'v PolicyIndexEntry list \<Rightarrow> 'v PolicyIndex" where
  "index_of es = foldl (\<lambda>px e. index_add e px) empty_index es"

lemma index_of_snoc: "index_of (es @ [e]) = index_add e (index_of es)"
  by (simp add: index_of_def)

lemma index_get_of: "index_get pid (index_of es) = by_name pn_policy_id es pid"
  by (induction es rule: rev_induct) (simp_all add: index_of_snoc index_get_def index_add_def by_name_def, simp add: index_of_def empty_index_def)

lemma index_of_keys:
  "distinct (dict_keys (px_entries (index_of es))) \<and> map pn_policy_id (all_entries (index_of es)) = dict_keys (px_entries (index_of es))"
proof (induction es rule: rev_induct)
  case (snoc e es)
  have keys: "map (\<lambda>x. pn_policy_id (snd x)) (dict_set k v d) = map fst (dict_set k v d)"
    if "map (\<lambda>x. pn_policy_id (snd x)) d = map fst d" "pn_policy_id v = k" for k v and d :: "(string, 'v PolicyIndexEntry) dict"
    using that by (induction k v d rule: dict_set.induct) auto
  show ?case using snoc keys [of "px_entries (index_of es)" e] by (simp add: index_of_snoc index_add_def all_entries_def comp_def distinct_dict_set)
qed (simp add: index_of_def empty_index_def all_entries_def)

lemma all_entries_mem: "e \<in> set (all_entries (index_of es)) \<longleftrightarrow> by_name pn_policy_id es (pn_policy_id e) = Some e"
proof -
  let ?d = "px_entries (index_of es)"
  have d: "distinct (dict_keys ?d)" "map (\<lambda>x. pn_policy_id (snd x)) ?d = map fst ?d"
    using index_of_keys [of es] by (simp_all add: all_entries_def comp_def)
  then have key: "pn_policy_id (snd x) = fst x" if "x \<in> set ?d" for x using that by (simp add: map_eq_conv)
  have "e \<in> set (all_entries (index_of es)) \<longleftrightarrow> (pn_policy_id e, e) \<in> set ?d"
  proof
    assume "e \<in> set (all_entries (index_of es))"
    then obtain k where k: "(k, e) \<in> set ?d" by (auto simp: all_entries_def)
    then show "(pn_policy_id e, e) \<in> set ?d" using key [OF k] by simp
  qed (auto simp: all_entries_def intro: rev_image_eqI)
  also have "\<dots> \<longleftrightarrow> index_get (pn_policy_id e) (index_of es) = Some e" using d(1) by (simp add: index_get_def)
  finally show ?thesis unfolding index_get_of .
qed

section \<open>The charter\<close>

text \<open>The last word of the constraints about a policy.\<close>

definition last_disabled :: "'v charter_constraint list \<Rightarrow> string \<Rightarrow> bool option" where
  "last_disabled cs pid = Option.bind (find_first (\<lambda>c. cn_policy_id c = Some pid \<and> cn_disabled c \<noteq> None) (rev cs)) cn_disabled"

definition charter_admits :: "'v policy_charter option \<Rightarrow> int \<Rightarrow> string \<Rightarrow> bool" where
  "charter_admits charter moment pid =
    (case charter of
       None \<Rightarrow> True
     | Some ch \<Rightarrow> \<not> pc_is_effective ch moment \<or>
         (pc_policy_ids ch = [] \<or> pid \<in> set (pc_policy_ids ch)) \<and> (pid = [] \<or> last_disabled (pc_constraints ch) pid \<noteq> Some True))"

lemma overrides_disabled:
  "Option.bind (map_of (foldl add_constraint [] cs) pid) ov_disabled = (if pid = [] then None else last_disabled cs pid)"
proof (induction cs rule: rev_induct)
  case (snoc c cs)
  then show ?case
    by (cases "cn_policy_id c"; cases "cn_disabled c")
      (auto simp: add_constraint_def merge_constraint_def last_disabled_def no_override_def split: option.splits)
qed (simp add: last_disabled_def)

lemma apply_constraint_keeps:
  assumes "apply_constraint_to_entry e overrides = Some f"
  shows "pn_policy_id f = pn_policy_id e" "pn_excludes f = pn_excludes e" "pn_prerequisites f = pn_prerequisites e"
  using assms by (auto simp: apply_constraint_to_entry_def split: option.splits if_splits)

lemma apply_constraint_None:
  "apply_constraint_to_entry e overrides = None \<longleftrightarrow> Option.bind (map_of overrides (pn_policy_id e)) ov_disabled = Some True"
  by (auto simp: apply_constraint_to_entry_def no_override_def split: option.splits)

lemma map_filter_none: "(\<And>x. f x = Some x) \<Longrightarrow> List.map_filter f xs = xs"
  by (induction xs) (simp_all add: map_filter_simps)

text \<open>The charter keeps the admitted policies in their order, with their exclusions and prerequisites.\<close>

lemma apply_charter_keeps:
  "list_all2 (\<lambda>e f. pn_policy_id f = pn_policy_id e \<and> pn_excludes f = pn_excludes e \<and> pn_prerequisites f = pn_prerequisites e)
     (filter (\<lambda>e. charter_admits charter (rc_timestamp ctx) (pn_policy_id e)) es) (apply_charter charter es ctx)"
proof -
  let ?R = "\<lambda>e f. pn_policy_id f = pn_policy_id e \<and> pn_excludes f = pn_excludes e \<and> pn_prerequisites f = pn_prerequisites e"
  have same: "list_all2 ?R xs xs" for xs :: "'a PolicyIndexEntry list" by (simp add: list_all2_refl)
  show ?thesis
  proof (cases "\<exists>ch. charter = Some ch \<and> pc_is_effective ch (rc_timestamp ctx)")
    case True
    then obtain ch where ch: "charter = Some ch" "pc_is_effective ch (rc_timestamp ctx)" by blast
    let ?ov = "build_constraint_overrides ch"
    have dis: "apply_constraint_to_entry e ?ov = None \<longleftrightarrow> pn_policy_id e \<noteq> [] \<and> last_disabled (pc_constraints ch) (pn_policy_id e) = Some True" for e
      unfolding apply_constraint_None build_constraint_overrides_def overrides_disabled by simp
    have listed: "list_all2 ?R (filter (\<lambda>e. pn_policy_id e = [] \<or> last_disabled (pc_constraints ch) (pn_policy_id e) \<noteq> Some True) xs)
        (List.map_filter (\<lambda>e. apply_constraint_to_entry e ?ov) xs)" for xs
    proof (induction xs)
      case (Cons e xs)
      show ?case
      proof (cases "apply_constraint_to_entry e ?ov")
        case None
        then show ?thesis using Cons.IH dis [of e] by (simp add: map_filter_simps)
      next
        case (Some f)
        moreover have "pn_policy_id e = [] \<or> last_disabled (pc_constraints ch) (pn_policy_id e) \<noteq> Some True" using dis [of e] Some by simp
        ultimately show ?thesis using Cons.IH apply_constraint_keeps [OF Some] by (simp add: map_filter_simps)
      qed
    qed (simp add: map_filter_simps)
    have "List.map_filter (\<lambda>e. apply_constraint_to_entry e []) xs = xs" for xs :: "'a PolicyIndexEntry list"
      by (rule map_filter_none) (simp add: apply_constraint_to_entry_def)
    then have "apply_charter charter es ctx = List.map_filter (\<lambda>e. apply_constraint_to_entry e ?ov)
        (filter (\<lambda>e. pc_policy_ids ch = [] \<or> pn_policy_id e \<in> set (pc_policy_ids ch)) es)"
      using ch by (auto simp: apply_charter_def Let_def)
    then show ?thesis
      using listed [of "filter (\<lambda>e. pc_policy_ids ch = [] \<or> pn_policy_id e \<in> set (pc_policy_ids ch)) es"] ch
      by (simp add: charter_admits_def conj_commute)
  next
    case False
    then have "apply_charter charter es ctx = es" "\<forall>p. charter_admits charter (rc_timestamp ctx) p"
      by (auto simp: apply_charter_def charter_admits_def split: option.splits)
    then show ?thesis using same by simp
  qed
qed

section \<open>Resolution\<close>

definition applicable :: "'v PolicyIndexEntry list \<Rightarrow> 'v policy_charter option \<Rightarrow> ResolutionContext \<Rightarrow> 'v PolicyIndexEntry \<Rightarrow> bool" where
  "applicable es charter ctx e \<longleftrightarrow>
     by_name pn_policy_id es (pn_policy_id e) = Some e \<and> applies_to_jurisdiction (rc_jurisdictions ctx) e \<and>
     applies_to_action (rc_action ctx) e \<and> entry_is_effective (rc_timestamp ctx) e \<and> charter_admits charter (rc_timestamp ctx) (pn_policy_id e)"

text \<open>The entries after the charter has been applied: one for each applicable entry of the index.\<close>

definition chartered :: "'v PolicyIndexEntry list \<Rightarrow> 'v policy_charter option \<Rightarrow> ResolutionContext \<Rightarrow> 'v PolicyIndexEntry list" where
  "chartered es charter ctx =
    apply_charter charter (filter (entry_is_effective (rc_timestamp ctx)) (filter (applies_to_action (rc_action ctx))
      (filter (applies_to_jurisdiction (rc_jurisdictions ctx)) (all_entries (index_of es))))) ctx"

lemma list_all2_mem:
  "list_all2 P xs ys \<Longrightarrow> y \<in> set ys \<Longrightarrow> \<exists>x\<in>set xs. P x y"
  "list_all2 P xs ys \<Longrightarrow> x \<in> set xs \<Longrightarrow> \<exists>y\<in>set ys. P x y"
  by (induction rule: list_all2_induct) auto

lemma chartered_entries:
  "distinct (map pn_policy_id (chartered es charter ctx))"
  "f \<in> set (chartered es charter ctx) \<Longrightarrow> \<exists>e. applicable es charter ctx e \<and> pn_policy_id f = pn_policy_id e \<and> pn_excludes f = pn_excludes e \<and>
     pn_prerequisites f = pn_prerequisites e"
  "applicable es charter ctx e \<Longrightarrow> \<exists>f\<in>set (chartered es charter ctx). pn_policy_id f = pn_policy_id e"
proof -
  let ?base = "filter (\<lambda>e. charter_admits charter (rc_timestamp ctx) (pn_policy_id e))
    (filter (entry_is_effective (rc_timestamp ctx)) (filter (applies_to_action (rc_action ctx))
      (filter (applies_to_jurisdiction (rc_jurisdictions ctx)) (all_entries (index_of es)))))"
  have rel: "list_all2 (\<lambda>e f. pn_policy_id f = pn_policy_id e \<and> pn_excludes f = pn_excludes e \<and> pn_prerequisites f = pn_prerequisites e)
      ?base (chartered es charter ctx)" unfolding chartered_def by (rule apply_charter_keeps)
  have base: "e \<in> set ?base \<longleftrightarrow> applicable es charter ctx e" for e by (auto simp: applicable_def all_entries_mem)
  have "distinct (map pn_policy_id (all_entries (index_of es)))" using index_of_keys [of es] by simp
  then have "distinct (map pn_policy_id ?base)" by (simp add: distinct_map_filter)
  moreover have "map pn_policy_id (chartered es charter ctx) = map pn_policy_id ?base"
    using rel by (induction rule: list_all2_induct) simp_all
  ultimately show "distinct (map pn_policy_id (chartered es charter ctx))" by simp
  show "\<exists>e. applicable es charter ctx e \<and> pn_policy_id f = pn_policy_id e \<and> pn_excludes f = pn_excludes e \<and> pn_prerequisites f = pn_prerequisites e"
    if "f \<in> set (chartered es charter ctx)"
    using list_all2_mem(1) [OF rel that] unfolding base [symmetric] by blast
  show "\<exists>f\<in>set (chartered es charter ctx). pn_policy_id f = pn_policy_id e" if "applicable es charter ctx e"
    using list_all2_mem(2) [OF rel, of e] that unfolding base by blast
qed

definition ranked :: "(int \<Rightarrow> rat) \<Rightarrow> 'v PolicyIndexEntry list \<Rightarrow> 'v policy_charter option \<Rightarrow> ResolutionContext \<Rightarrow> 'v PolicyIndexEntry list" where
  "ranked ts es charter ctx = drop_excluded {} {} (sort_key (sort_key_of ts ctx) (chartered es charter ctx))"

lemma policy_resolve_ranked:
  "policy_resolve ts (index_of es) charter ctx = map to_resolved_policy (policy_topological_sort (ranked ts es charter ctx))"
proof -
  have "policy_topological_sort [] = []" by (simp add: policy_topological_sort_def prerequisite_graph_def map_filter_simps)
  then show ?thesis
    by (auto simp: policy_resolve_def Let_def resolve_precedence_def ranked_def chartered_def)
qed

lemma ranked_distinct: "distinct (map pn_policy_id (ranked ts es charter ctx))"
proof -
  have "distinct (map pn_policy_id (sort_key k (chartered es charter ctx)))" for k :: "'a PolicyIndexEntry \<Rightarrow> rat list"
    using chartered_entries(1) [of es charter ctx] by (simp add: distinct_map)
  then show ?thesis unfolding ranked_def by (rule drop_excluded_distinct)
qed

lemma ranked_spec:
  "\<forall>a b. precedes (ranked ts es charter ctx) a b \<longrightarrow> pn_policy_id b \<notin> set (pn_excludes a)"
  "set (ranked ts es charter ctx) \<subseteq> set (chartered es charter ctx)"
  "e \<in> set (chartered es charter ctx) \<Longrightarrow> e \<notin> set (ranked ts es charter ctx) \<Longrightarrow>
     \<exists>k\<in>set (ranked ts es charter ctx). pn_policy_id e \<in> set (pn_excludes k)"
proof -
  let ?s = "sort_key (sort_key_of ts ctx) (chartered es charter ctx)"
  have d: "distinct (map pn_policy_id ?s)" using chartered_entries(1) [of es charter ctx] by (simp add: distinct_map)
  then have r: "ranked ts es charter ctx = survivors [] ?s" unfolding ranked_def by (rule drop_excluded_greedy)
  note spec = survivors_spec [of "[]" ?s, folded r]
  show "\<forall>a b. precedes (ranked ts es charter ctx) a b \<longrightarrow> pn_policy_id b \<notin> set (pn_excludes a)" using spec d by (simp add: precedes_def)
  show "set (ranked ts es charter ctx) \<subseteq> set (chartered es charter ctx)" using drop_excluded_subset [of "{}" "{}" ?s] by (simp add: ranked_def)
  show "\<exists>k\<in>set (ranked ts es charter ctx). pn_policy_id e \<in> set (pn_excludes k)"
    if "e \<in> set (chartered es charter ctx)" "e \<notin> set (ranked ts es charter ctx)" using spec d that by (simp add: precedes_def)
qed

lemma sorted_set:
  assumes "distinct (map pn_policy_id es)"
  shows "set (policy_topological_sort es) = set es" "distinct (map pn_policy_id (policy_topological_sort es))"
  using assms by (cases rule: policy_topological_sort_cases, simp_all)+

definition resolved_ids :: "(int \<Rightarrow> rat) \<Rightarrow> 'v PolicyIndexEntry list \<Rightarrow> 'v policy_charter option \<Rightarrow> ResolutionContext \<Rightarrow> string list" where
  "resolved_ids ts es charter ctx = map rp_policy_id (policy_resolve ts (index_of es) charter ctx)"

lemma resolved_ids_ranked: "resolved_ids ts es charter ctx = map pn_policy_id (policy_topological_sort (ranked ts es charter ctx))"
  by (simp add: resolved_ids_def policy_resolve_ranked to_resolved_policy_def)

lemma resolved_ids_set: "set (resolved_ids ts es charter ctx) = pn_policy_id ` set (ranked ts es charter ctx)"
  unfolding resolved_ids_ranked set_map sorted_set(1) [OF ranked_distinct] ..

lemma resolved_entry:
  assumes "pid \<in> set (resolved_ids ts es charter ctx)"
  obtains f e where "f \<in> set (ranked ts es charter ctx)" "applicable es charter ctx e" "pn_policy_id f = pid" "pn_policy_id e = pid"
    "pn_excludes f = pn_excludes e" "pn_prerequisites f = pn_prerequisites e"
proof -
  from assms obtain f where f: "f \<in> set (ranked ts es charter ctx)" "pn_policy_id f = pid" unfolding resolved_ids_set by blast
  then have "f \<in> set (chartered es charter ctx)" using ranked_spec(2) by blast
  from chartered_entries(2) [OF this] f that show thesis by metis
qed

lemma applicable_unique: "applicable es charter ctx a \<Longrightarrow> applicable es charter ctx b \<Longrightarrow> pn_policy_id a = pn_policy_id b \<Longrightarrow> a = b"
  by (auto simp: applicable_def)

text \<open>C22: Resolution returns each policy at most once, and only policies of the index that apply to the jurisdictions, the action and the time of
  the request and that the charter admits. An applicable policy is left out only if a resolved one excludes it, and of two applicable policies
  that exclude each other at most one is resolved.\<close>

theorem policy_resolve_selects:
  "distinct (resolved_ids ts es charter ctx) \<and>
   (\<forall>pid\<in>set (resolved_ids ts es charter ctx). \<exists>e. applicable es charter ctx e \<and> pn_policy_id e = pid) \<and>
   (\<forall>e. applicable es charter ctx e \<longrightarrow> pn_policy_id e \<in> set (resolved_ids ts es charter ctx) \<or>
      (\<exists>k. applicable es charter ctx k \<and> pn_policy_id k \<in> set (resolved_ids ts es charter ctx) \<and> pn_policy_id e \<in> set (pn_excludes k))) \<and>
   (\<forall>a b. applicable es charter ctx a \<longrightarrow> applicable es charter ctx b \<longrightarrow> a \<noteq> b \<longrightarrow>
      pn_policy_id a \<in> set (pn_excludes b) \<longrightarrow> pn_policy_id b \<in> set (pn_excludes a) \<longrightarrow>
      \<not> (pn_policy_id a \<in> set (resolved_ids ts es charter ctx) \<and> pn_policy_id b \<in> set (resolved_ids ts es charter ctx)))"
proof (intro conjI allI ballI impI notI)
  show "distinct (resolved_ids ts es charter ctx)" unfolding resolved_ids_ranked by (rule sorted_set(2) [OF ranked_distinct])
next
  fix pid assume "pid \<in> set (resolved_ids ts es charter ctx)"
  then show "\<exists>e. applicable es charter ctx e \<and> pn_policy_id e = pid" by (elim resolved_entry) blast
next
  fix e assume e: "applicable es charter ctx e"
  obtain f where f: "f \<in> set (chartered es charter ctx)" "pn_policy_id f = pn_policy_id e" using chartered_entries(3) [OF e] by blast
  show "pn_policy_id e \<in> set (resolved_ids ts es charter ctx) \<or>
      (\<exists>k. applicable es charter ctx k \<and> pn_policy_id k \<in> set (resolved_ids ts es charter ctx) \<and> pn_policy_id e \<in> set (pn_excludes k))"
  proof (cases "f \<in> set (ranked ts es charter ctx)")
    case True
    then have "pn_policy_id e \<in> set (resolved_ids ts es charter ctx)" unfolding resolved_ids_set using f(2) by (metis imageI)
    then show ?thesis ..
  next
    case False
    then obtain k where k: "k \<in> set (ranked ts es charter ctx)" "pn_policy_id e \<in> set (pn_excludes k)" using ranked_spec(3) [OF f(1)] f(2) by metis
    then obtain k' where "applicable es charter ctx k'" "pn_policy_id k' = pn_policy_id k" "pn_excludes k' = pn_excludes k"
      using chartered_entries(2) [of k es charter ctx] ranked_spec(2) by fastforce
    then show ?thesis using k unfolding resolved_ids_set by (metis imageI)
  qed
next
  fix a b
  assume ab: "applicable es charter ctx a" "applicable es charter ctx b" "a \<noteq> b" "pn_policy_id a \<in> set (pn_excludes b)" "pn_policy_id b \<in> set (pn_excludes a)"
    and both: "pn_policy_id a \<in> set (resolved_ids ts es charter ctx) \<and> pn_policy_id b \<in> set (resolved_ids ts es charter ctx)"
  obtain a' where a': "a' \<in> set (ranked ts es charter ctx)" "pn_policy_id a' = pn_policy_id a" "pn_excludes a' = pn_excludes a"
    by (rule resolved_entry [OF conjunct1 [OF both]]) (metis ab(1) applicable_unique)
  obtain b' where b': "b' \<in> set (ranked ts es charter ctx)" "pn_policy_id b' = pn_policy_id b" "pn_excludes b' = pn_excludes b"
    by (rule resolved_entry [OF conjunct2 [OF both]]) (metis ab(2) applicable_unique)
  have "pn_policy_id a \<noteq> pn_policy_id b" using ab(1-3) applicable_unique by blast
  then have "precedes (ranked ts es charter ctx) a' b' \<or> precedes (ranked ts es charter ctx) b' a'"
    using a'(1,2) b'(1,2) unfolding precedes_def in_set_conv_nth by (metis linorder_neqE_nat)
  then show False using ranked_spec(1) [of ts es charter ctx] a' b' ab(4,5) by metis
qed

definition needs :: "(int \<Rightarrow> rat) \<Rightarrow> 'v PolicyIndexEntry list \<Rightarrow> 'v policy_charter option \<Rightarrow> ResolutionContext \<Rightarrow> (string \<times> string) set" where
  "needs ts es charter ctx =
    {(p, n). p \<in> set (resolved_ids ts es charter ctx) \<and> n \<in> set (resolved_ids ts es charter ctx) \<and>
       (\<exists>e. applicable es charter ctx e \<and> pn_policy_id e = n \<and> p \<in> set (pn_prerequisites e))}"

lemma ranked_edges:
  "set (prerequisite_edges (included_ids (ranked ts es charter ctx)) (ranked ts es charter ctx)) = needs ts es charter ctx" (is "?L = ?R")
proof (intro set_eqI iffI)
  fix x assume "x \<in> ?L"
  then obtain f p where f: "f \<in> set (ranked ts es charter ctx)" "p \<in> set (pn_prerequisites f)" "p \<in> pn_policy_id ` set (ranked ts es charter ctx)"
      "x = (p, pn_policy_id f)" by (auto simp: prerequisite_edges_def included_ids_def)
  moreover obtain e where "applicable es charter ctx e" "pn_policy_id f = pn_policy_id e" "pn_prerequisites f = pn_prerequisites e"
    using chartered_entries(2) [of f es charter ctx] f(1) ranked_spec(2) by blast
  ultimately show "x \<in> ?R" unfolding needs_def resolved_ids_set by (metis (mono_tags, lifting) case_prodI imageI mem_Collect_eq)
next
  fix x assume "x \<in> ?R"
  then obtain p n e where x: "x = (p, n)" "p \<in> set (resolved_ids ts es charter ctx)" "n \<in> set (resolved_ids ts es charter ctx)"
      "applicable es charter ctx e" "pn_policy_id e = n" "p \<in> set (pn_prerequisites e)" by (auto simp: needs_def)
  obtain f where f: "f \<in> set (ranked ts es charter ctx)" "pn_policy_id f = n" "pn_prerequisites f = pn_prerequisites e"
    by (rule resolved_entry [OF x(3)]) (metis applicable_unique x(4,5))
  then show "x \<in> ?L" using x(1,2,6) unfolding resolved_ids_set prerequisite_edges_def included_ids_def by force
qed

text \<open>If the prerequisites among the resolved policies have no cycle, every resolved policy comes after all of its
  prerequisites that are resolved.\<close>

theorem policy_resolve_order:
  assumes "acyclic (needs ts es charter ctx)"
  shows "\<forall>p n. (p, n) \<in> needs ts es charter ctx \<longrightarrow> precedes (resolved_ids ts es charter ctx) p n"
proof -
  have d: "distinct (map pn_policy_id (ranked ts es charter ctx))" by (rule ranked_distinct)
  then show ?thesis
  proof (cases rule: policy_topological_sort_cases)
    case sorted
    then show ?thesis unfolding resolved_ids_ranked ranked_edges by blast
  next
    case cyclic
    then show ?thesis using assms unfolding ranked_edges by blast
  qed
qed

section \<open>An example\<close>

definition demo_policy :: "string \<Rightarrow> int \<Rightarrow> string list \<Rightarrow> string list \<Rightarrow> string list \<Rightarrow> unit PolicyIndexEntry" where
  "demo_policy pid priority js prereqs excludes =
    \<lparr>pn_policy_id = pid, pn_rego_package = ''canon.'' @ pid, pn_enforcement = HARD_MANDATORY, pn_authority = ''INTERNAL'', pn_jurisdictions = js,
     pn_actions = [], pn_effective_from = None, pn_effective_until = None, pn_legal_citation = None, pn_regulation_url = None,
     pn_priority = priority, pn_prerequisites = prereqs, pn_excludes = excludes, pn_parameters = []\<rparr>"

definition demo_policies :: "unit PolicyIndexEntry list" where
  "demo_policies =
    [demo_policy ''fair'' 5 [''US-NYC''] [''consent''] [''basic''], demo_policy ''consent'' 1 [] [] [], demo_policy ''basic'' 2 [''US''] [] [''fair''],
     demo_policy ''ca'' 9 [''US-CA''] [] []]"

definition demo_context :: ResolutionContext where
  "demo_context =
    \<lparr>rc_tenant_id = ''t'', rc_action = ''hire'', rc_jurisdictions = [''US-NYC'', ''US''], rc_subject_id = None, rc_timestamp = 0\<rparr>"

lemma demo_resolved: "resolved_ids (\<lambda>_. 0) demo_policies None demo_context = [''consent'', ''fair'']"
  by code_simp

lemma demo_applicable:
  "applicable demo_policies None demo_context (demo_policy ''basic'' 2 [''US''] [] [''fair''])"
  "applicable demo_policies None demo_context (demo_policy ''fair'' 5 [''US-NYC''] [''consent''] [''basic''])"
proof -
  have "by_name pn_policy_id demo_policies ''basic'' = Some (demo_policy ''basic'' 2 [''US''] [] [''fair''])"
    "by_name pn_policy_id demo_policies ''fair'' = Some (demo_policy ''fair'' 5 [''US-NYC''] [''consent''] [''basic''])" by code_simp+
  then show "applicable demo_policies None demo_context (demo_policy ''basic'' 2 [''US''] [] [''fair''])"
    "applicable demo_policies None demo_context (demo_policy ''fair'' 5 [''US-NYC''] [''consent''] [''basic''])"
    by (simp_all add: applicable_def demo_policy_def applies_to_jurisdiction_def applies_to_action_def entry_is_effective_def charter_admits_def demo_context_def)
qed

theorem policy_resolve_selects_witness:
  "distinct (resolved_ids (\<lambda>_. 0) demo_policies None demo_context) \<and> ''basic'' \<notin> set (resolved_ids (\<lambda>_. 0) demo_policies None demo_context)"
proof -
  let ?basic = "demo_policy ''basic'' 2 [''US''] [] [''fair'']" and ?fair = "demo_policy ''fair'' 5 [''US-NYC''] [''consent''] [''basic'']"
  have ex: "?basic \<noteq> ?fair" "pn_policy_id ?basic \<in> set (pn_excludes ?fair)" "pn_policy_id ?fair \<in> set (pn_excludes ?basic)"
    by (simp_all add: demo_policy_def)
  note selects = policy_resolve_selects [of "\<lambda>_. 0" demo_policies None demo_context]
  have "\<not> (pn_policy_id ?basic \<in> set (resolved_ids (\<lambda>_. 0) demo_policies None demo_context) \<and>
      pn_policy_id ?fair \<in> set (resolved_ids (\<lambda>_. 0) demo_policies None demo_context))"
    using selects [THEN conjunct2, THEN conjunct2, THEN conjunct2, rule_format, OF demo_applicable ex] .
  then show ?thesis using selects [THEN conjunct1] by (simp add: demo_policy_def demo_resolved)
qed

theorem policy_resolve_order_witness:
  "precedes (resolved_ids (\<lambda>_. 0) demo_policies None demo_context) ''consent'' ''fair''"
proof -
  let ?n = "needs (\<lambda>_. 0) demo_policies None demo_context"
  have named: "by_name pn_policy_id demo_policies ''fair'' = Some (demo_policy ''fair'' 5 [''US-NYC''] [''consent''] [''basic''])"
    "by_name pn_policy_id demo_policies ''consent'' = Some (demo_policy ''consent'' 1 [] [] [])" by code_simp+
  then have "?n \<subseteq> {(''consent'', ''fair'')}"
    by (auto simp: needs_def demo_resolved applicable_def demo_policy_def)
  moreover have "acyclic {(''consent'', ''fair'')}" unfolding acyclic_insert by (simp add: acyclic_def)
  ultimately have "acyclic ?n" by (meson acyclic_subset)
  moreover have "(''consent'', ''fair'') \<in> ?n"
    unfolding needs_def demo_resolved using demo_applicable(2)
    by (auto intro!: exI [of _ "demo_policy ''fair'' 5 [''US-NYC''] [''consent''] [''basic'']"] simp: demo_policy_def)
  ultimately show ?thesis using policy_resolve_order [of "\<lambda>_. 0" demo_policies None demo_context] by blast
qed

text \<open>If only the policy of lower priority declares the exclusion, both are resolved.\<close>

lemma one_sided_exclusion:
  "resolved_ids (\<lambda>_. 0) [demo_policy ''a'' 2 [] [] [], demo_policy ''b'' 1 [] [] [''a'']] None demo_context = [''a'', ''b'']"
  by code_simp

end
