(* ===== verification/Policy_Engine.thy ===== *)
theory Policy_Engine
  imports Opa_Decoder Policy_Resolver_Correct
begin

text \<open>
  Evaluation of resolved policies (\<open>libs/canon/src/canon/utils/opa/engine.py\<close>, class \<open>PolicyEngine\<close>). The regorus engine is a parameter: \<open>eval\<close> answers a query
  about an input or raises. The quota check is a parameter as well. The input held by the engine is the state that evaluation changes; timing and metrics are left out.
\<close>

section \<open>Values\<close>

text \<open>What the code asks of opaque objects here: their truth value, their items, and \<open>get\<close>, which may fail.\<close>

record 'o object_env =
  ob_truth :: "'o \<Rightarrow> bool"
  ob_items :: "'o \<Rightarrow> 'o pyval list option"
  ob_get :: "'o \<Rightarrow> string \<Rightarrow> 'o pyval \<Rightarrow> 'o pyval option"

fun py_truth :: "'o object_env \<Rightarrow> 'o pyval \<Rightarrow> bool" where
  "py_truth oe PNone = False"
| "py_truth oe (PBool b) = b"
| "py_truth oe (PInt i) = (i \<noteq> 0)"
| "py_truth oe (PFloat f) = (f \<noteq> Finite 0)"
| "py_truth oe (PStr s) = (s \<noteq> [])"
| "py_truth oe (PBytes s) = (s \<noteq> [])"
| "py_truth oe (PDict d) = (d \<noteq> [])"
| "py_truth oe (PList xs) = (xs \<noteq> [])"
| "py_truth oe (PTuple xs) = (xs \<noteq> [])"
| "py_truth oe (PSet xs) = (xs \<noteq> [])"
| "py_truth oe (POther ob) = ob_truth oe ob"

text \<open>\<open>list(v)\<close> and \<open>tuple(v)\<close>, which fail on what cannot be iterated over.\<close>

fun py_items :: "'o object_env \<Rightarrow> 'o pyval \<Rightarrow> 'o pyval list option" where
  "py_items oe (PStr s) = Some (map (\<lambda>c. PStr [c]) s)"
| "py_items oe (PBytes s) = Some (map (\<lambda>c. PInt (int (Prelude.code c))) s)"
| "py_items oe (PDict d) = Some (map (\<lambda>kv. PStr (fst kv)) d)"
| "py_items oe (PList xs) = Some xs"
| "py_items oe (PTuple xs) = Some xs"
| "py_items oe (PSet xs) = Some xs"
| "py_items oe (POther ob) = ob_items oe ob"
| "py_items oe _ = None"

fun py_get :: "'o object_env \<Rightarrow> 'o pyval \<Rightarrow> string \<Rightarrow> 'o pyval \<Rightarrow> 'o pyval option" where
  "py_get oe (PDict d) k dflt = Some (case map_of d k of None \<Rightarrow> dflt | Some v \<Rightarrow> v)"
| "py_get oe (POther ob) k dflt = ob_get oe ob k dflt"
| "py_get oe _ k dflt = None"

section \<open>One policy\<close>

record 'o sync_result =
  sr_allow :: bool
  sr_deny_reasons :: "string list"
  sr_decision :: "(string \<times> 'o pyval) list option"
  sr_violation :: "'o pyval option"
  sr_remediation :: "'o pyval list option"
  sr_conditions_met :: "'o pyval option"
  sr_conditions_missing :: "'o pyval option"

definition policy_query :: "'v ResolvedPolicy \<Rightarrow> string \<Rightarrow> string" where
  "policy_query policy name = ''data.'' @ rp_rego_package policy @ ''.'' @ name"

text \<open>A query whose exceptions are swallowed gives \<open>None\<close>.\<close>

definition raw_or_none :: "('x, 'o pyval) result \<Rightarrow> 'o pyval" where
  "raw_or_none r = (case r of Inr v \<Rightarrow> v | Inl _ \<Rightarrow> PNone)"

definition query_failure :: "('x, 'o pyval) result \<Rightarrow> ('x, 'o pyval) result \<Rightarrow> 'x option" where
  "query_failure decision allow =
    (if raw_or_none decision = PNone \<and> raw_or_none allow = PNone
     then (case allow of Inl x \<Rightarrow> Some x | Inr _ \<Rightarrow> (case decision of Inl x \<Rightarrow> Some x | Inr _ \<Rightarrow> None))
     else None)"

definition policy_details :: "'o object_env \<Rightarrow> (string \<Rightarrow> ('x, 'o pyval) result) \<Rightarrow> 'o DecodedDecision \<Rightarrow> 'o sync_result" where
  "policy_details oe query decoded =
    (let violation = raw_or_none (query ''violation'');
         remediation = raw_or_none (query ''remediation'');
         conditions = raw_or_none (query ''conditions'');
         met = (if py_truth oe conditions then py_get oe conditions ''met'' (PList []) else None)
     in \<lparr>sr_allow = dd_allow decoded,
         sr_deny_reasons = dd_deny_reasons decoded,
         sr_decision = (case dd_decision decoded of Some d \<Rightarrow> if d = [] then None else Some d | None \<Rightarrow> None),
         sr_violation = (if py_truth oe violation then Some violation else None),
         sr_remediation = (if py_truth oe remediation then py_items oe remediation else None),
         sr_conditions_met = met,
         sr_conditions_missing = (if met = None then None else py_get oe conditions ''missing'' (PList []))\<rparr>)"

text \<open>The engine's input is set at the start and cleared in the \<open>finally\<close> block; the second component is what it holds afterwards.\<close>

definition evaluate_sync ::
  "'o opa_env \<Rightarrow> 'o object_env \<Rightarrow> ('i \<Rightarrow> string \<Rightarrow> ('x, 'o pyval) result) \<Rightarrow> 'v ResolvedPolicy \<Rightarrow> 'i \<Rightarrow> string \<Rightarrow>
   ('x, 'o sync_result) result \<times> 'i option" where
  "evaluate_sync env oe eval policy input rule =
    (let query = (\<lambda>name. eval input (policy_query policy name));
         decision = query ''decision'';
         allow = query rule
     in (case query_failure decision allow of
           Some x \<Rightarrow> Inl x
         | None \<Rightarrow>
             Inr (policy_details oe query
               (decode_policy env (raw_or_none decision) (raw_or_none allow) (raw_or_none (query ''deny_reasons'')) ''deny_reasons'')),
         None))"

datatype 'x engine_error = QuotaExceeded 'x | PolicyEvaluationError string

definition policy_result_of :: "'o object_env \<Rightarrow> 'v ResolvedPolicy \<Rightarrow> 'o sync_result \<Rightarrow> 'o pyval PolicyResult option" where
  "policy_result_of oe policy r =
    (let violation = (case sr_violation r of None \<Rightarrow> PDict [] | Some v \<Rightarrow> v);
         tup = (\<lambda>v. case v of None \<Rightarrow> Some [] | Some x \<Rightarrow> py_items oe x)
     in case (py_get oe violation ''code'' PNone, py_get oe violation ''message'' PNone, tup (sr_conditions_met r), tup (sr_conditions_missing r)) of
          (Some vcode, Some message, Some met, Some missing) \<Rightarrow>
            Some \<lparr>po_policy_id = rp_policy_id policy, po_allowed = sr_allow r, po_enforcement = rp_enforcement policy,
              po_legal_citation = rp_legal_citation policy, po_regulation_url = rp_regulation_url policy,
              po_violation_code = vcode, po_violation_message = message,
              po_remediation_steps = (case sr_remediation r of None \<Rightarrow> [] | Some xs \<Rightarrow> xs),
              po_conditions_met = met, po_conditions_missing = missing\<rparr>
        | _ \<Rightarrow> None)"

text \<open>\<open>failed\<close> is the text of the exception's message.\<close>

definition failed_result :: "'v ResolvedPolicy \<Rightarrow> string \<Rightarrow> 'o pyval PolicyResult" where
  "failed_result policy failed =
    \<lparr>po_policy_id = rp_policy_id policy, po_allowed = False, po_enforcement = rp_enforcement policy,
     po_legal_citation = rp_legal_citation policy, po_regulation_url = None, po_violation_code = PStr ''EVALUATION_ERROR'',
     po_violation_message = PStr (''Policy evaluation failed: '' @ failed), po_remediation_steps = [], po_conditions_met = [], po_conditions_missing = []\<rparr>"

record ('o, 'i, 'x) engine_env =
  ee_opa :: "'o opa_env"
  ee_object :: "'o object_env"
  ee_eval :: "'i \<Rightarrow> string \<Rightarrow> ('x, 'o pyval) result"
  ee_tenant :: "'i \<Rightarrow> string option"
  ee_quota :: "string \<Rightarrow> 'x option"
  ee_text :: "'x option \<Rightarrow> string"
  ee_fail_closed :: bool

definition check_quota :: "('o, 'i, 'x) engine_env \<Rightarrow> 'i \<Rightarrow> bool \<Rightarrow> 'x option" where
  "check_quota en input enforce_quotas =
    (case ee_tenant en input of
       Some tenant \<Rightarrow> if enforce_quotas \<and> tenant \<noteq> [] then ee_quota en tenant else None
     | None \<Rightarrow> None)"

definition evaluate_single ::
  "('o, 'i, 'x) engine_env \<Rightarrow> 'v ResolvedPolicy \<Rightarrow> 'i \<Rightarrow> string \<Rightarrow> bool \<Rightarrow> ('x engine_error, 'o pyval PolicyResult) result" where
  "evaluate_single en policy input rule enforce_quotas =
    (case check_quota en input enforce_quotas of
       Some x \<Rightarrow> Inl (QuotaExceeded x)
     | None \<Rightarrow>
         let on_error = (\<lambda>x. if ee_fail_closed en then Inr (failed_result policy (ee_text en x)) else Inl (PolicyEvaluationError (rp_policy_id policy)))
         in case fst (evaluate_sync (ee_opa en) (ee_object en) (ee_eval en) policy input rule) of
              Inl x \<Rightarrow> on_error (Some x)
            | Inr r \<Rightarrow> (case policy_result_of (ee_object en) policy r of Some res \<Rightarrow> Inr res | None \<Rightarrow> on_error None))"

definition evaluate_policies ::
  "('o, 'i, 'x) engine_env \<Rightarrow> 'v ResolvedPolicy list \<Rightarrow> 'i \<Rightarrow> ('x engine_error, 'o pyval AggregatedResult) result" where
  "evaluate_policies en policies input =
    bind_r (map_r (\<lambda>p. evaluate_single en p input ''allow'' True) policies) (\<lambda>results. Inr (from_results results))"

section \<open>Properties\<close>

text \<open>A policy passes if its decision object or its allow rule grants.\<close>

definition policy_grants :: "('o, 'i, 'x) engine_env \<Rightarrow> 'i \<Rightarrow> string \<Rightarrow> bool" where
  "policy_grants en input package \<longleftrightarrow>
    (let decision = raw_or_none (ee_eval en input (''data.'' @ package @ ''.decision''));
         allow = raw_or_none (ee_eval en input (''data.'' @ package @ ''.allow''))
     in case unwrap (ee_opa en) decision of
          PDict obj \<Rightarrow> (\<exists>v. verdict_field obj = Some v \<and> grants (ee_opa en) v)
        | _ \<Rightarrow> grants (ee_opa en) allow)"

lemma evaluate_single_id:
  "evaluate_single en policy input rule q = Inr r \<Longrightarrow> po_policy_id r = rp_policy_id policy \<and> po_enforcement r = rp_enforcement policy"
  by (auto simp: evaluate_single_def policy_result_of_def failed_result_def Let_def split: option.splits sum.splits if_splits prod.splits)

lemma evaluate_single_allowed:
  assumes "evaluate_single en policy input ''allow'' q = Inr r" "po_allowed r"
  shows "policy_grants en input (rp_rego_package policy)"
proof -
  let ?q = "\<lambda>name. ee_eval en input (policy_query policy name)"
  let ?dec = "decode_policy (ee_opa en) (raw_or_none (?q ''decision'')) (raw_or_none (?q ''allow'')) (raw_or_none (?q ''deny_reasons'')) ''deny_reasons''"
  have "dd_allow ?dec"
    using assms by (auto simp: evaluate_single_def evaluate_sync_def policy_result_of_def failed_result_def policy_details_def Let_def
        split: option.splits sum.splits if_splits prod.splits)
  then show ?thesis unfolding decode_policy_allows policy_grants_def Let_def policy_query_def by (auto split: pyval.splits)
qed

text \<open>With \<open>fail_closed\<close> the engine always answers, quota errors apart.\<close>

lemma evaluate_single_total:
  assumes "ee_fail_closed en" "check_quota en input q = None"
  shows "\<exists>r. evaluate_single en policy input rule q = Inr r"
  using assms by (auto simp: evaluate_single_def Let_def split: sum.splits option.splits)

lemma map_r_nth: "map_r f xs = Inr ys \<Longrightarrow> length ys = length xs \<and> (\<forall>i<length xs. f (xs ! i) = Inr (ys ! i))"
  by (simp add: map_r_Inr list_all2_conv_all_nth)

lemma evaluate_policies_results:
  assumes "evaluate_policies en policies input = Inr agg"
  obtains results where "agg = from_results results" "length results = length policies"
    "\<forall>i<length policies. evaluate_single en (policies ! i) input ''allow'' True = Inr (results ! i)"
  using assms by (auto simp: evaluate_policies_def dest!: map_r_nth)

text \<open>C20: From resolution to verdict. The aggregated result holds one result per resolved policy, in the order of resolution, and it allows
  the action only if every resolved policy that is not advisory grants it: its decision object has a field \<open>allow\<close> (or \<open>passed\<close>) that is true, or it has no
  decision object and its allow rule is true.\<close>

theorem policy_gate_sound:
  assumes "evaluate_policies en (policy_resolve ts (index_of es) charter ctx) input = Inr agg"
  shows "map po_policy_id (ag_results agg) = resolved_ids ts es charter ctx \<and>
    (ag_allowed agg \<longrightarrow>
      (\<forall>rp\<in>set (policy_resolve ts (index_of es) charter ctx). rp_enforcement rp = ADVISORY \<or> policy_grants en input (rp_rego_package rp)))"
proof -
  let ?ps = "policy_resolve ts (index_of es) charter ctx"
  obtain results where r: "agg = from_results results" "length results = length ?ps"
      "\<forall>i<length ?ps. evaluate_single en (?ps ! i) input ''allow'' True = Inr (results ! i)"
    using evaluate_policies_results [OF assms] .
  have results: "ag_results agg = results" by (simp add: r(1) from_results_def Let_def)
  have "po_policy_id (results ! i) = rp_policy_id (?ps ! i)" if "i < length ?ps" for i using evaluate_single_id [OF r(3) [rule_format, OF that]] by simp
  then have "map po_policy_id results = map rp_policy_id ?ps" using r(2) by (auto simp: list_eq_iff_nth_eq [of "map po_policy_id results"])
  moreover have "rp_enforcement rp = ADVISORY \<or> policy_grants en input (rp_rego_package rp)" if "ag_allowed agg" "rp \<in> set ?ps" for rp
  proof -
    from that(2) obtain i where i: "i < length ?ps" "rp = ?ps ! i" by (metis in_set_conv_nth)
    then have e: "evaluate_single en rp input ''allow'' True = Inr (results ! i)" using r(3) by blast
    have "po_allowed (results ! i) \<or> po_enforcement (results ! i) = ADVISORY"
      using that(1) i(1) r(1,2) by (simp add: from_results_allowed)
    then show ?thesis using evaluate_single_allowed [OF e] evaluate_single_id [OF e] by metis
  qed
  ultimately show ?thesis by (simp add: results resolved_ids_def)
qed

text \<open>An engine that fails closed answers every request whose quota is not exceeded: failing queries and results of the wrong shape
  become denials, so a failing policy that is not advisory blocks the action.\<close>

theorem policy_gate_answers:
  assumes "ee_fail_closed en" "check_quota en input True = None"
  shows "\<exists>agg. evaluate_policies en policies input = Inr agg \<and>
    (\<forall>i<length policies. (\<exists>x. fst (evaluate_sync (ee_opa en) (ee_object en) (ee_eval en) (policies ! i) input ''allow'') = Inl x) \<longrightarrow>
       rp_enforcement (policies ! i) \<noteq> ADVISORY \<longrightarrow> \<not> ag_allowed agg)"
proof -
  have single: "\<exists>r. evaluate_single en p input ''allow'' True = Inr r" for p :: "'d ResolvedPolicy" using evaluate_single_total [OF assms] .
  have "\<exists>ys. map_r (\<lambda>p. evaluate_single en p input ''allow'' True) ps = Inr ys" for ps :: "'d ResolvedPolicy list"
  proof (induction ps)
    case (Cons p ps)
    then show ?case using single [of p] by auto
  qed simp
  then obtain results where m: "map_r (\<lambda>p. evaluate_single en p input ''allow'' True) policies = Inr results" by blast
  have "\<not> ag_allowed (from_results results)" if i: "i < length policies" and x: "fst (evaluate_sync (ee_opa en) (ee_object en) (ee_eval en) (policies ! i) input ''allow'') = Inl x"
      and mandatory: "rp_enforcement (policies ! i) \<noteq> ADVISORY" for i x
  proof -
    have "evaluate_single en (policies ! i) input ''allow'' True = Inr (failed_result (policies ! i) (ee_text en (Some x)))"
      using assms x by (simp add: evaluate_single_def Let_def)
    then have r: "results ! i = failed_result (policies ! i) (ee_text en (Some x))" using map_r_nth [OF m] i by simp
    have "results ! i \<in> set results" using map_r_nth [OF m] i by simp
    moreover have "\<not> po_allowed (results ! i)" "po_enforcement (results ! i) \<noteq> ADVISORY" using r mandatory by (simp_all add: failed_result_def)
    ultimately show ?thesis unfolding from_results_allowed by blast
  qed
  then show ?thesis using m by (auto simp: evaluate_policies_def)
qed

section \<open>An example\<close>

definition demo_object_env :: "unit object_env" where
  "demo_object_env = \<lparr>ob_truth = \<lambda>_. True, ob_items = \<lambda>_. None, ob_get = \<lambda>_ _ _. None\<rparr>"

definition demo_engine :: "(unit, unit, string) engine_env" where
  "demo_engine =
    \<lparr>ee_opa = test_env, ee_object = demo_object_env,
     ee_eval = \<lambda>_ query. if query = ''data.canon.consent.allow'' then Inr (PDict [(''result'', PBool True)])
                         else if query = ''data.canon.fair.decision'' then Inr (PDict [(''allow'', PBool True), (''deny_reasons'', PList [])])
                         else Inl ''undefined'',
     ee_tenant = \<lambda>_. None, ee_quota = \<lambda>_. None, ee_text = \<lambda>_. ''error'', ee_fail_closed = True\<rparr>"

lemma demo_evaluated:
  "map_sum id ag_allowed (evaluate_policies demo_engine (policy_resolve (\<lambda>_. 0) (index_of demo_policies) None demo_context) ()) = Inr True"
  by code_simp

theorem policy_gate_sound_witness:
  "\<exists>agg. evaluate_policies demo_engine (policy_resolve (\<lambda>_. 0) (index_of demo_policies) None demo_context) () = Inr agg \<and> ag_allowed agg \<and>
     map po_policy_id (ag_results agg) = [''consent'', ''fair'']"
proof -
  obtain agg where agg: "evaluate_policies demo_engine (policy_resolve (\<lambda>_. 0) (index_of demo_policies) None demo_context) () = Inr agg" "ag_allowed agg"
    using demo_evaluated by (cases "evaluate_policies demo_engine (policy_resolve (\<lambda>_. 0) (index_of demo_policies) None demo_context) ()") auto
  then show ?thesis using policy_gate_sound [OF agg(1)] demo_resolved by auto
qed

theorem policy_gate_answers_witness:
  "\<exists>agg. evaluate_policies (demo_engine\<lparr>ee_eval := \<lambda>_ _. Inl ''engine down''\<rparr>) (policy_resolve (\<lambda>_. 0) (index_of demo_policies) None demo_context) () = Inr agg \<and>
     \<not> ag_allowed agg"
proof -
  let ?en = "demo_engine\<lparr>ee_eval := \<lambda>_ _. Inl ''engine down''\<rparr>" and ?ps = "policy_resolve (\<lambda>_. 0) (index_of demo_policies) None demo_context"
  have ok: "ee_fail_closed ?en" "check_quota ?en () True = None" by (simp_all add: demo_engine_def check_quota_def)
  have "map rp_policy_id ?ps = [''consent'', ''fair'']" using demo_resolved unfolding resolved_ids_def .
  then have "0 < length ?ps" by (cases ?ps) auto
  moreover have "fst (evaluate_sync (ee_opa ?en) (ee_object ?en) (ee_eval ?en) p () ''allow'') = Inl ''engine down''" for p :: "unit ResolvedPolicy"
    by (simp add: evaluate_sync_def query_failure_def raw_or_none_def Let_def)
  moreover have "map rp_enforcement ?ps = [HARD_MANDATORY, HARD_MANDATORY]" by code_simp
  then have "rp_enforcement (?ps ! 0) \<noteq> ADVISORY" by (cases ?ps) auto
  ultimately show ?thesis using policy_gate_answers [OF ok, of ?ps] by blast
qed

end
