(* ===== verification/Service.thy ===== *)
theory Service
  imports Policy_Types
begin

text \<open>
  Calls of service actions (\<open>libs/canon/src/canon/enforcement/service.py\<close>, class \<open>KronService\<close>): hooks, policy evaluation, validation of the options and the
  handler. Handlers, hooks, the validation, the policy resolver and the policy engine are supplied by the service's author and are parameters; hooks and handlers
  may change the request context. The trace lists what was run, in order.
\<close>

section \<open>Services\<close>

datatype exn = PermissionError string | AttributeError string | OtherException string

record ActionMeta =
  am_name :: string
  am_inputs :: "string set"
  am_outputs :: "string set"
  am_pre_hooks :: "string list"
  am_post_hooks :: "string list"
  am_typed_options :: bool

record 'd request_context =
  rq_name :: string
  rq_data :: 'd

text \<open>What an engine returns for a policy; attributes may be missing.\<close>

record batch_result =
  br_policy_id :: "string option"
  br_allowed :: "bool option"
  br_enforcement :: "string option"
  br_message :: "string option"

datatype event = HookRan string | HookFailed string | HookMissing string | PolicyCheck | PolicyErrorLogged | OptionsValidated | HandlerRan

type_synonym ('opt, 'd, 'r) hook = "'opt \<Rightarrow> 'd request_context \<Rightarrow> 'r option \<Rightarrow> 'd request_context \<times> bool"

type_synonym ('opt, 'd, 'r) handler = "'opt \<Rightarrow> 'd request_context \<Rightarrow> (exn, 'r) result \<times> 'd request_context"

record ('opt, 'd, 'r) service =
  sv_use_policies :: bool
  sv_fail_open :: bool
  sv_has_operable :: bool
  sv_hooks :: "(string, ('opt, 'd, 'r) hook) dict"
  sv_registry :: "(string, ('opt, 'd, 'r) handler \<times> ActionMeta) dict"
  sv_engine :: "(string list \<Rightarrow> 'd request_context \<Rightarrow> (exn, batch_result list) result) option"
  sv_resolver :: "('d request_context \<Rightarrow> (exn, string list) result) option"
  sv_validate :: "ActionMeta \<Rightarrow> 'opt \<Rightarrow> (exn, 'opt) result"

datatype call_error = UnknownAction string | ActionRaised exn

section \<open>Policies\<close>

text \<open>The loop over the results: the first blocking one raises; its message needs two attributes.\<close>

fun first_blocking :: "batch_result list \<Rightarrow> exn option" where
  "first_blocking [] = None"
| "first_blocking (r # rs) =
    (if is_blocking_level (br_enforcement r)
     then Some (case br_policy_id r of
                  None \<Rightarrow> AttributeError ''policy_id''
                | Some pid \<Rightarrow>
                    (case br_message r of
                       None \<Rightarrow> AttributeError ''message''
                     | Some m \<Rightarrow> PermissionError (''Policy '' @ pid @ '' blocked: '' @ m)))
     else first_blocking rs)"

definition policy_failure :: "('opt, 'd, 'r) service \<Rightarrow> 'd request_context \<Rightarrow> exn option" where
  "policy_failure sv ctx =
    (case (sv_engine sv, sv_resolver sv) of
       (Some engine, Some resolver) \<Rightarrow>
         (case resolver ctx of
            Inl x \<Rightarrow> Some x
          | Inr resolved \<Rightarrow>
              if resolved = [] then None
              else (case engine resolved ctx of Inl x \<Rightarrow> Some x | Inr results \<Rightarrow> first_blocking results))
     | _ \<Rightarrow> None)"

definition exn_text :: "exn \<Rightarrow> string" where
  "exn_text x = (case x of PermissionError s \<Rightarrow> s | AttributeError s \<Rightarrow> s | OtherException s \<Rightarrow> s)"

definition service_evaluate_policies :: "('opt, 'd, 'r) service \<Rightarrow> 'd request_context \<Rightarrow> (exn, unit) result \<times> event list" where
  "service_evaluate_policies sv ctx =
    (case policy_failure sv ctx of
       None \<Rightarrow> (Inr (), [PolicyCheck])
     | Some (PermissionError s) \<Rightarrow> (Inl (PermissionError s), [PolicyCheck])
     | Some x \<Rightarrow>
         (if sv_fail_open sv then Inr () else Inl (PermissionError (''Policy engine error: '' @ exn_text x)), [PolicyCheck, PolicyErrorLogged]))"

section \<open>Calls\<close>

definition run_hook :: "('opt, 'd, 'r) service \<Rightarrow> 'opt \<Rightarrow> 'r option \<Rightarrow> 'd request_context \<times> event list \<Rightarrow> string \<Rightarrow> 'd request_context \<times> event list" where
  "run_hook sv opts res st name =
    (case map_of (sv_hooks sv) name of
       None \<Rightarrow> (fst st, snd st @ [HookMissing name])
     | Some hook \<Rightarrow> (let (ctx, ok) = hook opts (fst st) res in (ctx, snd st @ [if ok then HookRan name else HookFailed name])))"

definition run_hooks :: "('opt, 'd, 'r) service \<Rightarrow> string list \<Rightarrow> 'opt \<Rightarrow> 'd request_context \<Rightarrow> 'r option \<Rightarrow> 'd request_context \<times> event list" where
  "run_hooks sv names opts ctx res = foldl (run_hook sv opts res) (ctx, []) names"

definition service_call ::
  "('opt, 'd, 'r) service \<Rightarrow> string \<Rightarrow> 'opt \<Rightarrow> 'd request_context \<Rightarrow> (call_error, 'r) result \<times> 'd request_context \<times> event list" where
  "service_call sv name opts ctx =
    (case map_of (sv_registry sv) name of
       None \<Rightarrow> (Inl (UnknownAction name), ctx, [])
     | Some (handler, meta) \<Rightarrow>
         let (ctx1, ev1) = run_hooks sv (am_pre_hooks meta) opts (ctx\<lparr>rq_name := name\<rparr>) None;
             (checked, ev2) = (if sv_use_policies sv \<and> sv_engine sv \<noteq> None then service_evaluate_policies sv ctx1 else (Inr (), []))
         in case checked of
              Inl x \<Rightarrow> (Inl (ActionRaised x), ctx1, ev1 @ ev2)
            | Inr _ \<Rightarrow>
                (case (if am_typed_options meta \<and> sv_has_operable sv then sv_validate sv meta opts else Inr opts) of
                   Inl x \<Rightarrow> (Inl (ActionRaised x), ctx1, ev1 @ ev2)
                 | Inr opts' \<Rightarrow>
                     (let ev3 = ev1 @ ev2 @ (if am_typed_options meta \<and> sv_has_operable sv then [OptionsValidated] else []) @ [HandlerRan]
                      in case handler opts' ctx1 of
                           (Inl x, ctx2) \<Rightarrow> (Inl (ActionRaised x), ctx2, ev3)
                         | (Inr res, ctx2) \<Rightarrow>
                             (let (ctx3, ev4) = run_hooks sv (am_post_hooks meta) opts' ctx2 (Some res) in (Inr res, ctx3, ev3 @ ev4)))))"

section \<open>Properties\<close>

lemma run_hooks_events: "HandlerRan \<notin> set (snd (run_hooks sv names opts ctx res))" "PolicyCheck \<notin> set (snd (run_hooks sv names opts ctx res))"
proof -
  have "HandlerRan \<notin> set (snd (foldl (run_hook sv opts res) st names)) \<and> PolicyCheck \<notin> set (snd (foldl (run_hook sv opts res) st names))"
    if "HandlerRan \<notin> set (snd st)" "PolicyCheck \<notin> set (snd st)" for st
    using that
  proof (induction names arbitrary: st)
    case (Cons n names)
    have "HandlerRan \<notin> set (snd (run_hook sv opts res st n))" "PolicyCheck \<notin> set (snd (run_hook sv opts res st n))"
      using Cons.prems by (auto simp: run_hook_def split: option.splits prod.splits)
    then show ?case using Cons.IH by simp
  qed simp
  from this [of "(ctx, [])"] show "HandlerRan \<notin> set (snd (run_hooks sv names opts ctx res))" "PolicyCheck \<notin> set (snd (run_hooks sv names opts ctx res))"
    by (simp_all add: run_hooks_def)
qed

text \<open>No result of a batch has a blocking level.\<close>

lemma first_blocking_None: "first_blocking rs = None \<longleftrightarrow> (\<forall>r\<in>set rs. \<not> is_blocking_level (br_enforcement r))"
  by (induction rs) auto

lemma first_blocking_Some:
  assumes "first_blocking rs = Some x"
  shows "\<exists>r\<in>set rs. is_blocking_level (br_enforcement r)"
  using assms first_blocking_None [of rs] by auto

text \<open>The context the policies see: the action's name is set and the hooks that run before the action have had their turn.\<close>

definition checked_context :: "('opt, 'd, 'r) service \<Rightarrow> ActionMeta \<Rightarrow> string \<Rightarrow> 'opt \<Rightarrow> 'd request_context \<Rightarrow> 'd request_context" where
  "checked_context sv meta name opts ctx = fst (run_hooks sv (am_pre_hooks meta) opts (ctx\<lparr>rq_name := name\<rparr>) None)"

definition policies_pass :: "('opt, 'd, 'r) service \<Rightarrow> 'd request_context \<Rightarrow> bool" where
  "policies_pass sv ctx \<longleftrightarrow> \<not> sv_use_policies sv \<or>
    (case policy_failure sv ctx of None \<Rightarrow> True | Some (PermissionError _) \<Rightarrow> False | Some _ \<Rightarrow> sv_fail_open sv)"

definition options_pass :: "('opt, 'd, 'r) service \<Rightarrow> ActionMeta \<Rightarrow> 'opt \<Rightarrow> bool" where
  "options_pass sv meta opts \<longleftrightarrow> \<not> am_typed_options meta \<or> \<not> sv_has_operable sv \<or> (\<exists>opts'. sv_validate sv meta opts = Inr opts')"

lemma service_evaluate_policies_passes:
  assumes "sv_use_policies sv"
  shows "(\<exists>u. fst (service_evaluate_policies sv ctx) = Inr u) \<longleftrightarrow> policies_pass sv ctx"
  using assms by (auto simp: service_evaluate_policies_def policies_pass_def split: option.splits exn.splits)

lemma service_evaluate_policies_events: "HandlerRan \<notin> set (snd (service_evaluate_policies sv ctx))"
  by (auto simp: service_evaluate_policies_def split: option.splits exn.splits)

lemma no_engine_passes: "sv_engine sv = None \<Longrightarrow> policies_pass sv ctx"
  by (simp add: policies_pass_def policy_failure_def)

lemma handler_guarded:
  "HandlerRan \<in> set (snd (snd (service_call sv name opts ctx))) \<longleftrightarrow>
    (\<exists>handler meta. map_of (sv_registry sv) name = Some (handler, meta) \<and> policies_pass sv (checked_context sv meta name opts ctx) \<and> options_pass sv meta opts)"
proof (cases "map_of (sv_registry sv) name")
  case (Some hm)
  obtain handler meta where hm: "hm = (handler, meta)" by fastforce
  obtain ctx1 ev1 where h1: "run_hooks sv (am_pre_hooks meta) opts (ctx\<lparr>rq_name := name\<rparr>) None = (ctx1, ev1)" by fastforce
  define chk where "chk = (if sv_use_policies sv \<and> sv_engine sv \<noteq> None then service_evaluate_policies sv ctx1 else (Inr (), []))"
  obtain checked ev2 where c: "chk = (checked, ev2)" by fastforce
  have ev: "HandlerRan \<notin> set ev1" "HandlerRan \<notin> set ev2"
    using run_hooks_events(1) [of sv "am_pre_hooks meta" opts "ctx\<lparr>rq_name := name\<rparr>" None] h1 service_evaluate_policies_events [of sv ctx1] c
    by (auto simp: chk_def split: if_splits)
  have pass: "(\<exists>u. checked = Inr u) \<longleftrightarrow> policies_pass sv ctx1"
    using service_evaluate_policies_passes [of sv ctx1] no_engine_passes [of sv ctx1] c
    by (auto simp: chk_def policies_pass_def split: if_splits)
  let ?v = "if am_typed_options meta \<and> sv_has_operable sv then sv_validate sv meta opts else Inr opts"
  have valid: "(\<exists>o'. ?v = Inr o') \<longleftrightarrow> options_pass sv meta opts" by (auto simp: options_pass_def)
  have "HandlerRan \<in> set (snd (snd (service_call sv name opts ctx))) \<longleftrightarrow> (\<exists>u. checked = Inr u) \<and> (\<exists>o'. ?v = Inr o')"
  proof (cases checked)
    case (Inl x)
    then show ?thesis using Some hm h1 c ev by (simp add: service_call_def chk_def)
  next
    case (Inr u)
    show ?thesis
    proof (cases ?v)
      case (Inl x)
      then show ?thesis using Some hm h1 c ev Inr by (simp add: service_call_def chk_def)
    next
      case v: (Inr opts')
      show ?thesis using Some hm h1 c Inr v
        by (cases "handler opts' ctx1") (simp add: service_call_def chk_def Let_def split: sum.splits prod.splits)
    qed
  qed
  then show ?thesis using Some hm h1 pass valid by (simp add: checked_context_def)
qed (simp add: service_call_def)


text \<open>The verdict of a policy plays no part: a result of a mandatory level stops the action of a service that does not fail open even if
  the policy allowed it.\<close>

theorem allowing_policy_stops_action:
  assumes "sv_use_policies sv" "\<not> sv_fail_open sv" "sv_engine sv = Some engine" "sv_resolver sv = Some resolver"
    "map_of (sv_registry sv) name = Some (handler, meta)" "resolver (checked_context sv meta name opts ctx) = Inr policies" "policies \<noteq> []"
    "engine policies (checked_context sv meta name opts ctx) = Inr results" "r \<in> set results" "br_allowed r = Some True" "br_enforcement r = Some (level_value HARD_MANDATORY)"
  shows "HandlerRan \<notin> set (snd (snd (service_call sv name opts ctx)))"
proof -
  have "is_blocking_level (br_enforcement r)" using assms(11) by (simp add: is_blocking_level_def)
  then have "first_blocking results \<noteq> None" using assms(9) first_blocking_None [of results] by blast
  then have "\<not> policies_pass sv (checked_context sv meta name opts ctx)"
    using assms by (auto simp: policies_pass_def policy_failure_def split: exn.splits)
  then show ?thesis using assms(5) unfolding handler_guarded by simp
qed

definition demo_meta :: ActionMeta where
  "demo_meta = \<lparr>am_name = ''grant'', am_inputs = {}, am_outputs = {}, am_pre_hooks = [], am_post_hooks = [], am_typed_options = False\<rparr>"

definition demo_service :: "(unit, unit, unit) service" where
  "demo_service =
    \<lparr>sv_use_policies = True, sv_fail_open = False, sv_has_operable = False, sv_hooks = [], sv_registry = [(''grant'', \<lambda>_ ctx. (Inr (), ctx), demo_meta)],
     sv_engine = Some (\<lambda>_ _. Inr [\<lparr>br_policy_id = Some ''p'', br_allowed = Some True, br_enforcement = Some ''hard_mandatory'', br_message = Some ''ok''\<rparr>]),
     sv_resolver = Some (\<lambda>_. Inr [''p'']), sv_validate = \<lambda>_ opts. Inr opts\<rparr>"

theorem allowing_policy_stops_action_witness:
  "HandlerRan \<notin> set (snd (snd (service_call demo_service ''grant'' () \<lparr>rq_name = [], rq_data = ()\<rparr>)))"
  by (rule allowing_policy_stops_action [where policies = "[''p'']" and meta = demo_meta and handler = "\<lambda>_ ctx. (Inr (), ctx)" and resolver = "\<lambda>_. Inr [''p'']" and
        results = "[\<lparr>br_policy_id = Some ''p'', br_allowed = Some True, br_enforcement = Some ''hard_mandatory'', br_message = Some ''ok''\<rparr>]" and
        r = "\<lparr>br_policy_id = Some ''p'', br_allowed = Some True, br_enforcement = Some ''hard_mandatory'', br_message = Some ''ok''\<rparr>"])
    (simp_all add: demo_service_def)


text \<open>A service that fails open lets a blocked action through if the result has no message to report.\<close>

lemma blocked_without_message_runs:
  "HandlerRan \<in> set (snd (snd (service_call
     (demo_service\<lparr>sv_fail_open := True,
        sv_engine := Some (\<lambda>_ _. Inr [\<lparr>br_policy_id = Some ''p'', br_allowed = Some False, br_enforcement = Some ''hard_mandatory'', br_message = None\<rparr>])\<rparr>)
     ''grant'' () \<lparr>rq_name = [], rq_data = ()\<rparr>)))"
  by code_simp

end
