(* ===== verification/Constraints.thy ===== *)
theory Constraints
  imports Py_Text Py_Float
begin

text \<open>
  The regulatory constraints (\<open>libs/canon/src/canon/enforcement/constraints.py\<close>): each returns if its invariant holds and raises a typed error otherwise. A
  datetime is a wall-clock time in microseconds with the offset of its zone, if it has one. The hash function is a parameter. Identifiers that only fill the
  context of an error are left out.
\<close>

section \<open>Times\<close>

record datetime =
  tm_local :: int
  tm_offset :: "int option"

definition ensure_tz_aware :: "datetime \<Rightarrow> datetime" where
  "ensure_tz_aware dt = (if tm_offset dt = None then dt\<lparr>tm_offset := Some 0\<rparr> else dt)"

text \<open>Aware datetimes compare and subtract as instants.\<close>

definition instant :: "datetime \<Rightarrow> int" where
  "instant dt = tm_local dt - (case tm_offset dt of None \<Rightarrow> 0 | Some off \<Rightarrow> off)"

definition delta_days :: "int \<Rightarrow> int" where
  "delta_days us = us div (86400 * 1000000)"

text \<open>Division of floats, rounded to the nearest double, and \<open>int\<close>, which cuts off towards zero.\<close>

definition nearest_double :: "rat \<Rightarrow> rat" where
  "nearest_double q =
    (let r = (\<lambda>x. case round_double x of Finite y \<Rightarrow> y | _ \<Rightarrow> x)
     in if q = 0 then 0 else if q < 0 then - r (- q) else r q)"

definition delta_hours :: "int \<Rightarrow> int" where
  "delta_hours us =
    (let h = nearest_double (nearest_double (of_int us / 1000000) / 3600)
     in if h < 0 then - \<lfloor>- h\<rfloor> else \<lfloor>h\<rfloor>)"

section \<open>Errors\<close>

datatype violation =
    WaitingPeriodNotElapsed uuid int int
  | NoticePrecedence string string
  | EvidenceStale int int
  | DeadlineExceeded
  | SoDViolation uuid string string
  | DualApprovalMissing nat int
  | LevelUnknown string
  | ClearanceInsufficient string string
  | EvidenceNotBound string
  | ChainBroken string string string
  | HashMismatch string string
  | CEPNotSealed string
  | HumanReviewMissing
  | BiasAssessmentMissing
  | ToolConfigMismatch string string
  | DisclosureMissing string
  | PIIExposure
  | UnencryptedTransmission string
  | ClassificationViolation string string
  | RetentionExceeded

section \<open>Timing\<close>

record waiting_period =
  wp_elapsed :: bool
  wp_paused_at :: "datetime option"
  wp_resumed_at :: "datetime option"
  wp_started_at :: datetime
  wp_notice_id :: uuid
  wp_required_days :: int

definition waiting_period_must_be_elapsed :: "datetime \<Rightarrow> waiting_period \<Rightarrow> (violation, unit) result" where
  "waiting_period_must_be_elapsed now p =
    (let started = instant (ensure_tz_aware (wp_started_at p));
         fail = (\<lambda>until. Inl (WaitingPeriodNotElapsed (wp_notice_id p) (wp_required_days p) (delta_days (instant (ensure_tz_aware until) - started))))
     in case (wp_paused_at p, wp_resumed_at p) of
          (Some paused, None) \<Rightarrow> fail paused
        | _ \<Rightarrow> if \<not> wp_elapsed p then fail now else Inr ())"

definition notice_must_precede_action :: "datetime option \<Rightarrow> datetime \<Rightarrow> string \<Rightarrow> (violation, unit) result" where
  "notice_must_precede_action notice_sent_at action_at notice_type =
    (case notice_sent_at of
       None \<Rightarrow> Inl (NoticePrecedence notice_type ''not_sent'')
     | Some sent \<Rightarrow>
         if instant (ensure_tz_aware sent) \<ge> instant (ensure_tz_aware action_at) then Inl (NoticePrecedence notice_type ''sent_after_action'') else Inr ())"

definition evidence_must_be_fresh :: "datetime \<Rightarrow> int \<Rightarrow> datetime \<Rightarrow> (violation, unit) result" where
  "evidence_must_be_fresh evidence_timestamp max_age_hours reference =
    (let actual_age_hours = delta_hours (instant (ensure_tz_aware reference) - instant (ensure_tz_aware evidence_timestamp))
     in if actual_age_hours > max_age_hours then Inl (EvidenceStale max_age_hours actual_age_hours) else Inr ())"

definition deadline_must_not_be_exceeded :: "datetime \<Rightarrow> datetime \<Rightarrow> (violation, unit) result" where
  "deadline_must_not_be_exceeded deadline reference =
    (if instant (ensure_tz_aware reference) > instant (ensure_tz_aware deadline) then Inl DeadlineExceeded else Inr ())"

section \<open>Authorization\<close>

definition preparer_must_not_be_approver :: "uuid \<Rightarrow> uuid \<Rightarrow> (violation, unit) result" where
  "preparer_must_not_be_approver preparer_id approver_id =
    (if preparer_id = approver_id then Inl (SoDViolation preparer_id ''preparer'' ''approver'') else Inr ())"

text \<open>The approvals by the identifiers of their approvers.\<close>

definition dual_approval_must_be_present :: "uuid list \<Rightarrow> int \<Rightarrow> (violation, unit) result" where
  "dual_approval_must_be_present approvals min_required =
    (if int (length approvals) < min_required then Inl (DualApprovalMissing (length approvals) min_required) else Inr ())"

fun list_index :: "'a list \<Rightarrow> 'a \<Rightarrow> nat" where
  "list_index [] x = 0"
| "list_index (y # ys) x = (if y = x then 0 else Suc (list_index ys x))"

definition clearance_must_be_sufficient :: "string \<Rightarrow> string \<Rightarrow> string list \<Rightarrow> (violation, unit) result" where
  "clearance_must_be_sufficient actor_level required_level level_order =
    (if actor_level \<notin> set level_order then Inl (LevelUnknown actor_level)
     else if required_level \<notin> set level_order then Inl (LevelUnknown required_level)
     else if list_index level_order actor_level < list_index level_order required_level then Inl (ClearanceInsufficient required_level actor_level)
     else Inr ())"

fun distinct_from :: "uuid set \<Rightarrow> uuid list \<Rightarrow> (violation, unit) result" where
  "distinct_from seen [] = Inr ()"
| "distinct_from seen (a # as) =
    (if a \<in> seen then Inl (SoDViolation a ''approver'' ''approver'') else distinct_from (insert a seen) as)"

definition approvers_must_be_distinct :: "uuid list \<Rightarrow> (violation, unit) result" where
  "approvers_must_be_distinct approver_ids = distinct_from {} approver_ids"

section \<open>Evidence\<close>

definition evidence_must_be_bound :: "string \<Rightarrow> string option \<Rightarrow> (violation, unit) result" where
  "evidence_must_be_bound case_id bound_case_id =
    (case bound_case_id of
       None \<Rightarrow> Inl (EvidenceNotBound ''FRCP Rule 37'')
     | Some b \<Rightarrow> if b \<noteq> case_id then Inl (EvidenceNotBound ''SOX Section 802'') else Inr ())"

definition or_genesis :: "string \<Rightarrow> string" where
  "or_genesis h = (if h = [] then ''<genesis>'' else h)"

fun check_links :: "string \<Rightarrow> (string \<times> string) list \<Rightarrow> (violation, unit) result" where
  "check_links expected [] = Inr ()"
| "check_links expected ((prev, current) # links) =
    (if prev \<noteq> expected then Inl (ChainBroken (or_genesis expected) (or_genesis prev) ''SOX Section 802'') else check_links current links)"

definition chain_must_be_intact :: "string list \<Rightarrow> (string \<times> string) list option \<Rightarrow> (violation, unit) result" where
  "chain_must_be_intact evidence_ids chain_hashes =
    (let links = (case chain_hashes of None \<Rightarrow> [] | Some hs \<Rightarrow> hs)
     in if links = [] then
          (if evidence_ids \<noteq> [] then Inl (ChainBroken ''<chain_data_required>'' ''<no_chain_data_provided>'' ''SOX Section 802'') else Inr ())
        else if length evidence_ids \<noteq> length links then
          Inl (ChainBroken (''<'' @ nat_str (length evidence_ids) @ ''_entries>'') (''<'' @ nat_str (length links) @ ''_entries>'') ''SOC 2 CC6.1'')
        else check_links [] links)"

definition hash_must_match :: "('b \<Rightarrow> string) \<Rightarrow> 'b \<Rightarrow> string \<Rightarrow> (violation, unit) result" where
  "hash_must_match hexdigest content expected_hash =
    (if py_lower (hexdigest content) \<noteq> py_lower expected_hash then Inl (HashMismatch expected_hash (hexdigest content)) else Inr ())"

definition cep_must_be_sealed :: "string \<Rightarrow> (violation, unit) result" where
  "cep_must_be_sealed cep_status = (if py_upper cep_status \<noteq> ''SEALED'' then Inl (CEPNotSealed cep_status) else Inr ())"

section \<open>AI governance and data protection\<close>

definition human_review_must_be_present :: "string option \<Rightarrow> (violation, unit) result" where
  "human_review_must_be_present human_review_id = (if human_review_id = None then Inl HumanReviewMissing else Inr ())"

definition bias_assessment_must_be_documented :: "string option \<Rightarrow> (violation, unit) result" where
  "bias_assessment_must_be_documented assessment_id = (if assessment_id = None then Inl BiasAssessmentMissing else Inr ())"

definition same_tool_must_be_verified :: "string \<Rightarrow> string \<Rightarrow> (violation, unit) result" where
  "same_tool_must_be_verified tool_hash expected_hash =
    (if tool_hash \<noteq> expected_hash then Inl (ToolConfigMismatch expected_hash tool_hash) else Inr ())"

definition disclosure_must_be_provided :: "datetime option \<Rightarrow> datetime \<Rightarrow> (violation, unit) result" where
  "disclosure_must_be_provided disclosure_timestamp action_timestamp =
    (case disclosure_timestamp of
       None \<Rightarrow> Inl (DisclosureMissing ''not_provided'')
     | Some d \<Rightarrow>
         if instant (ensure_tz_aware d) \<ge> instant (ensure_tz_aware action_timestamp) then Inl (DisclosureMissing ''provided_after_action'') else Inr ())"

definition pii_must_not_be_public :: "string \<Rightarrow> bool \<Rightarrow> (violation, unit) result" where
  "pii_must_not_be_public visibility contains_pii = (if visibility = ''public'' \<and> contains_pii then Inl PIIExposure else Inr ())"

definition sensitive_classifications :: "string set" where
  "sensitive_classifications = {''confidential'', ''restricted'', ''pii''}"

definition transmission_must_be_encrypted :: "bool \<Rightarrow> string \<Rightarrow> (violation, unit) result" where
  "transmission_must_be_encrypted is_encrypted data_classification =
    (if \<not> is_encrypted \<and> py_lower data_classification \<in> sensitive_classifications then Inl (UnencryptedTransmission data_classification) else Inr ())"

definition data_classification_must_allow :: "string \<Rightarrow> string \<Rightarrow> string set \<Rightarrow> (violation, unit) result" where
  "data_classification_must_allow classification operation allowed_operations =
    (if operation \<notin> allowed_operations then Inl (ClassificationViolation classification operation) else Inr ())"

definition retention_must_not_be_exceeded :: "datetime \<Rightarrow> datetime \<Rightarrow> (violation, unit) result" where
  "retention_must_not_be_exceeded retention_end current_time =
    (if instant (ensure_tz_aware current_time) > instant (ensure_tz_aware retention_end) then Inl RetentionExceeded else Inr ())"

section \<open>Properties\<close>

lemma distinct_from_ok: "distinct_from seen as = Inr () \<longleftrightarrow> distinct as \<and> set as \<inter> seen = {}"
  by (induction seen as rule: distinct_from.induct) auto

text \<open>Segregation of duties. If the approvals are enough, their approvers distinct and none of them the preparer, then at least the
  required number of persons other than the preparer have approved.\<close>

theorem segregation_of_duties:
  assumes "dual_approval_must_be_present approvals required = Inr ()" "approvers_must_be_distinct approvals = Inr ()"
    "list_all (\<lambda>a. preparer_must_not_be_approver preparer a = Inr ()) approvals"
  shows "required \<le> int (card (set approvals - {preparer}))"
proof -
  have "preparer \<notin> set approvals" using assms(3) by (auto simp: preparer_must_not_be_approver_def list_all_iff split: if_splits)
  moreover have "distinct approvals" using assms(2) by (simp add: approvers_must_be_distinct_def distinct_from_ok)
  ultimately have "card (set approvals - {preparer}) = length approvals" by (simp add: distinct_card)
  then show ?thesis using assms(1) by (simp add: dual_approval_must_be_present_def split: if_splits)
qed

theorem segregation_of_duties_witness:
  "2 \<le> int (card (set [''ann'', ''bob''] - {''eve''}))"
  by (rule segregation_of_duties)
    (simp_all add: dual_approval_must_be_present_def approvers_must_be_distinct_def preparer_must_not_be_approver_def)

text \<open>The count alone accepts one person twice.\<close>

lemma one_approver_counts_twice: "dual_approval_must_be_present [a, a] 2 = Inr ()"
  by (simp add: dual_approval_must_be_present_def)

text \<open>The chain of evidence is accepted exactly if there is one link per item, the first link starts from the empty hash and every other
  from the hash of the link before it.\<close>

theorem chain_must_be_intact_iff:
  "chain_must_be_intact ids hashes = Inr () \<longleftrightarrow>
    (let links = (case hashes of None \<Rightarrow> [] | Some hs \<Rightarrow> hs)
     in length ids = length links \<and> map fst links = take (length links) ([] # map snd links))"
proof -
  have links: "check_links h ls = Inr () \<longleftrightarrow> map fst ls = take (length ls) (h # map snd ls)" for h ls
    by (induction h ls rule: check_links.induct) auto
  show ?thesis by (auto simp: chain_must_be_intact_def links Let_def)
qed

text \<open>Ages are cut off to whole hours, so evidence is taken for fresh for up to an hour too long.\<close>

lemma nearest_double_5400: "nearest_double 5400 = 5400" "nearest_double (3 / 2) = 3 / 2"
proof -
  have b: "bit_length 5400 = 13" "bit_length (Suc 0) = 1" "bit_length 3 = 2" "bit_length 2 = 2" by (simp_all add: bit_length.simps)
  have q: "quotient_of 5400 = (5400, 1)" "quotient_of (3 / 2) = (3, 2)" by (simp_all add: quotient_of_number) code_simp
  have e: "ulp_exponent 5400 = - 40" "ulp_exponent (3 / 2) = - 52" unfolding ulp_exponent_def Let_def q prod.case by (simp_all add: b scale2_def)
  have "round_half_even (5400 * 2 ^ 40) = 5400 * 2 ^ 40" "round_half_even (3 / 2 * 2 ^ 52) = 3 * 2 ^ 51"
    using round_half_even_of_int [of "5400 * 2 ^ 40"] round_half_even_of_int [of "3 * 2 ^ 51"] by simp_all
  then show "nearest_double 5400 = 5400" "nearest_double (3 / 2) = 3 / 2"
    unfolding nearest_double_def round_double_def Let_def e by (simp_all add: scale2_def)
qed

lemma stale_evidence_accepted:
  "evidence_must_be_fresh \<lparr>tm_local = 0, tm_offset = None\<rparr> 1 \<lparr>tm_local = 5400 * 1000000, tm_offset = None\<rparr> = Inr ()"
proof -
  have "\<lfloor>3 / 2 :: rat\<rfloor> = 1" by (rule floor_unique) simp_all
  then have "delta_hours (5400 * 1000000) = 1" by (simp add: delta_hours_def nearest_double_5400)
  then show ?thesis by (simp add: evidence_must_be_fresh_def instant_def ensure_tz_aware_def)
qed

end
