(* ===== verification/Events.thy ===== *)
theory Events
  imports Resilience Py_Text
begin

text \<open>
  Events (\<open>libs/kron/src/kron/core/event.py\<close>): the status of an execution, one invocation of an event with every way it can end, the errors
  collected by an execution and their serialisation, and fresh copies of events. What \<open>_invoke\<close> does under the timeout is an outcome, an
  argument of \<^term>\<open>invoke\<close>. A sentinel returned in place of a response is \<^const>\<open>None\<close>.
\<close>

section \<open>Exceptions\<close>

text \<open>
  The exceptions the code tells apart: \<open>TimeoutError\<close>, \<open>KronError\<close> with its retry flag and details, exceptions with a method \<open>to_dict\<close> of
  their own, exception groups with their identity, other exceptions, and the two kinds that are no \<open>Exception\<close>: cancellation, and the rest of
  \<open>BaseException\<close>.
\<close>

datatype 'd py_exc =
    Exc string string
  | TimeoutExc string string
  | KronExc string string bool "(string \<times> 'd) list"
  | DocExc string string 'd
  | ExcGroup nat string string "'d py_exc list"
  | CancelledExc string string
  | BaseExc string string

fun is_exception :: "'d py_exc \<Rightarrow> bool" where
  "is_exception (CancelledExc _ _) = False"
| "is_exception (BaseExc _ _) = False"
| "is_exception _ = True"

fun exc_class :: "'d py_exc \<Rightarrow> string" where
  "exc_class (Exc c _) = c"
| "exc_class (TimeoutExc c _) = c"
| "exc_class (KronExc c _ _ _) = c"
| "exc_class (DocExc c _ _) = c"
| "exc_class (ExcGroup _ c _ _) = c"
| "exc_class (CancelledExc c _) = c"
| "exc_class (BaseExc c _) = c"

fun exc_str :: "'d py_exc \<Rightarrow> string" where
  "exc_str (Exc _ m) = m"
| "exc_str (TimeoutExc _ m) = m"
| "exc_str (KronExc _ m _ _) = m"
| "exc_str (DocExc _ m _) = m"
| "exc_str (ExcGroup _ _ m es) = m @ '' ('' @ nat_str (length es) @ '' sub-exception'' @ (if length es = 1 then '''' else ''s'') @ '')''"
| "exc_str (CancelledExc _ m) = m"
| "exc_str (BaseExc _ m) = m"

text \<open>\<open>not isinstance(exc, KronError) or exc.retryable\<close>.\<close>

fun may_retry :: "'d py_exc \<Rightarrow> bool" where
  "may_retry (KronExc _ _ r _) = r"
| "may_retry _ = True"

section \<open>Executions\<close>

datatype EventStatus = PENDING | PROCESSING | COMPLETED | FAILED | CANCELLED | SKIPPED | ABORTED

fun event_status_value :: "EventStatus \<Rightarrow> string" where
  "event_status_value PENDING = ''pending''"
| "event_status_value PROCESSING = ''processing''"
| "event_status_value COMPLETED = ''completed''"
| "event_status_value FAILED = ''failed''"
| "event_status_value CANCELLED = ''cancelled''"
| "event_status_value SKIPPED = ''skipped''"
| "event_status_value ABORTED = ''aborted''"

datatype 'd error_field = ErrorUnset | NoError | HasError "'d py_exc"

record ('r, 'd) execution =
  ex_status :: EventStatus
  ex_duration :: "rat option"
  ex_response :: "'r option"
  ex_error :: "'d error_field"
  ex_retryable :: "bool option"

definition new_execution :: "('r, 'd) execution" where
  "new_execution = \<lparr>ex_status = PENDING, ex_duration = None, ex_response = None, ex_error = ErrorUnset, ex_retryable = None\<rparr>"

text \<open>The dictionaries an error is serialised to, one constructor per shape.\<close>

datatype 'd error_doc =
    PlainDoc string string
  | KronDoc string string bool "(string \<times> 'd) list option"
  | OwnDoc 'd
  | DepthDoc string nat
  | CircularDoc
  | GroupDoc string string "'d error_doc list"

fun kron_to_dict :: "string \<Rightarrow> string \<Rightarrow> bool \<Rightarrow> (string \<times> 'd) list \<Rightarrow> 'd error_doc" where
  "kron_to_dict c m r details = KronDoc c m r (if details = [] then None else Some details)"

definition MAX_DEPTH :: nat where
  "MAX_DEPTH = 100"

text \<open>\<open>_serialize_exception_group\<close>; the set of the identities under way is restored when a group is done.\<close>

fun serialize_group :: "nat \<Rightarrow> nat set \<Rightarrow> 'd py_exc \<Rightarrow> 'd error_doc" and
  serialize_nested :: "nat \<Rightarrow> nat set \<Rightarrow> 'd py_exc \<Rightarrow> 'd error_doc" where
  "serialize_group depth seen (ExcGroup gid c m es) =
    (if MAX_DEPTH < depth then DepthDoc (''Max nesting depth ('' @ nat_str MAX_DEPTH @ '') exceeded'') (length es)
     else if gid \<in> seen then CircularDoc
     else GroupDoc c (exc_str (ExcGroup gid c m es)) (map (serialize_nested (Suc depth) (insert gid seen)) es))"
| "serialize_group depth seen e = PlainDoc (exc_class e) (exc_str e)"
| "serialize_nested depth seen e =
    (case e of
       KronExc c m r details \<Rightarrow> kron_to_dict c m r details
     | DocExc _ _ doc \<Rightarrow> OwnDoc doc
     | ExcGroup gid c m es \<Rightarrow> serialize_group depth seen (ExcGroup gid c m es)
     | _ \<Rightarrow> PlainDoc (exc_class e) (exc_str e))"

datatype 'b response_doc = ResponseNone | ResponseBytes 'b | Unserializable

record ('b, 'd) execution_doc =
  xd_status :: string
  xd_duration :: "rat option"
  xd_response :: "'b response_doc"
  xd_error :: "'d error_doc option"
  xd_retryable :: "bool option"

definition execution_to_dict :: "('r \<Rightarrow> 'b option) \<Rightarrow> ('r, 'd) execution \<Rightarrow> ('b, 'd) execution_doc" where
  "execution_to_dict json_dumpb x =
    \<lparr>xd_status = event_status_value (ex_status x), xd_duration = ex_duration x,
     xd_response = (case ex_response x of
                      None \<Rightarrow> ResponseNone
                    | Some r \<Rightarrow> (case json_dumpb r of None \<Rightarrow> Unserializable | Some b \<Rightarrow> ResponseBytes b)),
     xd_error = (case ex_error x of HasError e \<Rightarrow> Some (serialize_nested 0 {} e) | _ \<Rightarrow> None),
     xd_retryable = ex_retryable x\<rparr>"

text \<open>\<open>add_error\<close>: the constructor of \<open>ExceptionGroup\<close> refuses members that are no \<open>Exception\<close>. \<open>gid\<close> is the identity of the new group.\<close>

definition exception_group :: "nat \<Rightarrow> string \<Rightarrow> 'd py_exc list \<Rightarrow> ('d py_exc, 'd py_exc) result" where
  "exception_group gid message es =
    (if list_all is_exception es then Inr (ExcGroup gid ''ExceptionGroup'' message es)
     else Inl (Exc ''TypeError'' ''Cannot nest BaseExceptions in an ExceptionGroup''))"

definition add_error :: "nat \<Rightarrow> 'd py_exc \<Rightarrow> ('r, 'd) execution \<Rightarrow> ('d py_exc, ('r, 'd) execution) result" where
  "add_error gid exc x =
    (case ex_error x of
       HasError (ExcGroup g c m es) \<Rightarrow>
         bind_r (exception_group gid ''multiple errors'' (es @ [exc])) (\<lambda>e. Inr (x\<lparr>ex_error := HasError e\<rparr>))
     | HasError e \<Rightarrow> bind_r (exception_group gid ''multiple errors'' [e, exc]) (\<lambda>e. Inr (x\<lparr>ex_error := HasError e\<rparr>))
     | _ \<Rightarrow> Inr (x\<lparr>ex_error := HasError exc\<rparr>))"

section \<open>Events\<close>

datatype 'm meta_value = OriginalEvent uuid rat | OtherMeta 'm

record ('r, 'd, 'm) event =
  ev_id :: uuid
  ev_created_at :: rat
  ev_metadata :: "(string, 'm meta_value) dict"
  ev_execution :: "('r, 'd) execution"
  ev_timeout :: "rat option"
  ev_streaming :: bool

text \<open>The validator of the timeout: \<^const>\<open>None\<close> for a sentinel, \<open>None\<close> or empty value.\<close>

definition validate_timeout :: "py_float option \<Rightarrow> (string, rat option) result" where
  "validate_timeout v =
    (case v of
       None \<Rightarrow> Inr None
     | Some (Finite q) \<Rightarrow> if q \<le> 0 then Inl ''timeout must be positive'' else Inr (Some q)
     | Some _ \<Rightarrow> Inl ''timeout must be finite'')"

datatype ('r, 'd) outcome = InvokeReturned "'r option" | InvokeRaised "'d py_exc"

fun group_retryable :: "'d py_exc \<Rightarrow> bool" where
  "group_retryable (ExcGroup _ _ _ es) = list_all may_retry es"
| "group_retryable e = may_retry e"

text \<open>The body of the \<open>try\<close> statement with its handlers: the exception that leaves it, and the execution.\<close>

definition settle :: "string \<Rightarrow> ('r, 'd) outcome \<Rightarrow> ('r, 'd) execution \<Rightarrow> 'd py_exc option \<times> ('r, 'd) execution" where
  "settle timeout_text out x =
    (case out of
       InvokeReturned v \<Rightarrow>
         (None, x\<lparr>ex_response := v, ex_error := NoError, ex_status := COMPLETED, ex_retryable := Some False\<rparr>)
     | InvokeRaised (TimeoutExc _ _) \<Rightarrow>
         (None, x\<lparr>ex_response := None,
                  ex_error := HasError (KronExc ''KronTimeoutError'' (''Operation timed out after '' @ timeout_text @ ''s'') True []),
                  ex_status := CANCELLED, ex_retryable := Some True\<rparr>)
     | InvokeRaised e \<Rightarrow>
         if is_exception e
         then (None, x\<lparr>ex_retryable := Some (group_retryable e), ex_response := None, ex_error := HasError e, ex_status := FAILED\<rparr>)
         else (case e of
                 CancelledExc _ _ \<Rightarrow>
                   (Some e, x\<lparr>ex_response := None, ex_error := HasError e, ex_status := CANCELLED, ex_retryable := Some True\<rparr>)
               | _ \<Rightarrow> (Some e, x)))"

definition invoke_execution ::
  "string \<Rightarrow> rat \<Rightarrow> rat \<Rightarrow> ('r, 'd) outcome \<Rightarrow> ('r, 'd) execution \<Rightarrow> 'd py_exc option \<times> ('r, 'd) execution" where
  "invoke_execution timeout_text start finish out x =
    (if ex_status x \<noteq> PENDING then (None, x)
     else let (raised, x') = settle timeout_text out (x\<lparr>ex_status := PROCESSING\<rparr>)
          in (raised, x'\<lparr>ex_duration := Some (float_sub finish start)\<rparr>))"

definition invoke :: "(rat \<Rightarrow> string) \<Rightarrow> rat \<Rightarrow> rat \<Rightarrow> ('r, 'd) outcome \<Rightarrow> ('r, 'd, 'm) event \<Rightarrow> 'd py_exc option \<times> ('r, 'd, 'm) event" where
  "invoke show_float start finish out ev =
    (let timeout_text = (case ev_timeout ev of None \<Rightarrow> ''Unset'' | Some t \<Rightarrow> show_float t);
         (raised, x) = invoke_execution timeout_text start finish out (ev_execution ev)
     in (raised, ev\<lparr>ev_execution := x\<rparr>))"

text \<open>\<open>as_fresh_event\<close>: the fields that \<open>to_dict\<close> leaves out take their defaults, the timeout is copied afterwards.\<close>

definition as_fresh_event :: "uuid \<Rightarrow> rat \<Rightarrow> bool \<Rightarrow> ('r, 'd, 'm) event \<Rightarrow> ('r, 'd, 'm) event" where
  "as_fresh_event new_id now copy_meta ev =
    \<lparr>ev_id = new_id, ev_created_at = now,
     ev_metadata = dict_set ''original'' (OriginalEvent (ev_id ev) (ev_created_at ev)) (if copy_meta then ev_metadata ev else []),
     ev_execution = new_execution, ev_timeout = ev_timeout ev, ev_streaming = False\<rparr>"

section \<open>Properties\<close>

text \<open>The status the outcome of \<open>_invoke\<close> leads to.\<close>

fun outcome_status :: "('r, 'd) outcome \<Rightarrow> EventStatus" where
  "outcome_status (InvokeReturned _) = COMPLETED"
| "outcome_status (InvokeRaised (TimeoutExc _ _)) = CANCELLED"
| "outcome_status (InvokeRaised (CancelledExc _ _)) = CANCELLED"
| "outcome_status (InvokeRaised (BaseExc _ _)) = PROCESSING"
| "outcome_status (InvokeRaised _) = FAILED"

fun escaping :: "('r, 'd) outcome \<Rightarrow> 'd py_exc option" where
  "escaping (InvokeRaised e) = (if is_exception e then None else Some e)"
| "escaping (InvokeReturned _) = None"

lemma settle_status: "ex_status x = PROCESSING \<Longrightarrow> ex_status (snd (settle t out x)) = outcome_status out"
  by (cases out rule: outcome_status.cases) (simp_all add: settle_def)

lemma settle_raised:
  "fst (settle t out x) = escaping out"
  by (cases out rule: outcome_status.cases) (simp_all add: settle_def)

lemma invoke_simps [simp]:
  "ev_id (snd (invoke sh t0 t1 out ev)) = ev_id ev" "ev_timeout (snd (invoke sh t0 t1 out ev)) = ev_timeout ev"
  "ev_metadata (snd (invoke sh t0 t1 out ev)) = ev_metadata ev"
  by (simp_all add: invoke_def Let_def case_prod_beta)

lemma invoke_execution_settled: "ex_status x \<noteq> PENDING \<Longrightarrow> invoke_execution t t0 t1 out x = (None, x)"
  by (simp add: invoke_execution_def)

lemma invoke_execution_status:
  assumes "ex_status x = PENDING"
  shows "ex_status (snd (invoke_execution t t0 t1 out x)) = outcome_status out"
  using settle_status [of "x\<lparr>ex_status := PROCESSING\<rparr>" t out] assms by (simp add: invoke_execution_def Let_def case_prod_beta)

lemma invoke_execution_raised:
  assumes "ex_status x = PENDING"
  shows "fst (invoke_execution t t0 t1 out x) = escaping out"
  using settle_raised [of t out "x\<lparr>ex_status := PROCESSING\<rparr>"] assms by (simp add: invoke_execution_def Let_def case_prod_beta)

lemma invoke_execution_leaves: "ex_status (snd (invoke_execution t t0 t1 out x)) \<noteq> PENDING"
proof (cases "ex_status x = PENDING")
  case True
  then show ?thesis by (cases out rule: outcome_status.cases) (simp_all add: invoke_execution_status)
qed (simp add: invoke_execution_settled)

lemma invoke_execution_completed:
  "ex_status x = PENDING \<Longrightarrow> invoke_execution t t0 t1 (InvokeReturned v) x =
    (None, x\<lparr>ex_response := v, ex_error := NoError, ex_status := COMPLETED, ex_retryable := Some False, ex_duration := Some (float_sub t1 t0)\<rparr>)"
  by (simp add: invoke_execution_def settle_def)

text \<open>
  An event runs at most once: whatever the later invocations of it would do, they change nothing, and its status is the one the first outcome
  gives it. An exception that is no \<open>Exception\<close> is passed on; all others are recorded.
\<close>

theorem invoke_once:
  assumes "ex_status (ev_execution ev) = PENDING"
  shows "foldl (\<lambda>e (t0, t1, out). snd (invoke sh t0 t1 out e)) ev ((s, f, first) # later) = snd (invoke sh s f first ev)"
    "ex_status (ev_execution (snd (invoke sh s f first ev))) = outcome_status first"
    "fst (invoke sh s f first ev) = escaping first"
proof -
  have settled: "snd (invoke sh t0 t1 out e) = e" if "ex_status (ev_execution e) \<noteq> PENDING" for t0 t1 out and e :: "('a, 'b, 'c) event"
    using that by (simp add: invoke_def invoke_execution_settled)
  have "foldl (\<lambda>e (t0, t1, out). snd (invoke sh t0 t1 out e)) e later = e" if "ex_status (ev_execution e) \<noteq> PENDING" for e :: "('a, 'b, 'c) event"
    using that by (induction later) (auto simp: settled)
  moreover have "ex_status (ev_execution (snd (invoke sh s f first ev))) \<noteq> PENDING"
    using invoke_execution_leaves by (simp add: invoke_def Let_def case_prod_beta)
  ultimately show "foldl (\<lambda>e (t0, t1, out). snd (invoke sh t0 t1 out e)) ev ((s, f, first) # later) = snd (invoke sh s f first ev)" by simp
  show "ex_status (ev_execution (snd (invoke sh s f first ev))) = outcome_status first"
    using assms by (simp add: invoke_def Let_def case_prod_beta invoke_execution_status)
  show "fst (invoke sh s f first ev) = escaping first"
    using assms by (simp add: invoke_def Let_def case_prod_beta invoke_execution_raised)
qed

subsection \<open>Exception groups\<close>

text \<open>The groups inside an exception, and how deep they are nested. Groups are immutable, so an identity stands for one value.\<close>

fun groups_of :: "'d py_exc \<Rightarrow> 'd py_exc set" where
  "groups_of (ExcGroup gid c m es) = insert (ExcGroup gid c m es) (\<Union>e\<in>set es. groups_of e)"
| "groups_of _ = {}"

fun group_depth :: "'d py_exc \<Rightarrow> nat" where
  "group_depth (ExcGroup _ _ _ es) = Suc (foldr (\<lambda>e. max (group_depth e)) es 0)"
| "group_depth _ = 0"

fun group_id :: "'d py_exc \<Rightarrow> nat" where
  "group_id (ExcGroup gid _ _ _) = gid"
| "group_id _ = 0"

text \<open>What the serialisation of an exception should be: nothing cut off.\<close>

fun full_doc :: "'d py_exc \<Rightarrow> 'd error_doc" where
  "full_doc (ExcGroup gid c m es) = GroupDoc c (exc_str (ExcGroup gid c m es)) (map full_doc es)"
| "full_doc (KronExc c m r details) = kron_to_dict c m r details"
| "full_doc (DocExc _ _ doc) = OwnDoc doc"
| "full_doc e = PlainDoc (exc_class e) (exc_str e)"

lemma groups_size: "g \<in> groups_of e \<Longrightarrow> size g \<le> size e"
proof (induction e)
  case (ExcGroup gid c m es)
  then show ?case using size_list_estimation' [of _ es "size g" size] by fastforce
qed auto

lemma depth_member: "e \<in> set es \<Longrightarrow> group_depth e \<le> foldr (\<lambda>e. max (group_depth e)) es 0"
  by (induction es) auto

lemma serialize_nested_full:
  assumes "depth + group_depth e \<le> Suc MAX_DEPTH" "\<forall>g\<in>groups_of e. group_id g \<notin> seen" "inj_on group_id (groups_of e)"
  shows "serialize_nested depth seen e = full_doc e"
  using assms
proof (induction e arbitrary: depth seen)
  case (ExcGroup gid c m es)
  have "serialize_nested (Suc depth) (insert gid seen) e = full_doc e" if e: "e \<in> set es" for e
  proof (rule ExcGroup.IH [OF e])
    show "Suc depth + group_depth e \<le> Suc MAX_DEPTH" using ExcGroup.prems(1) depth_member [OF e] by simp
    have sub: "groups_of e \<subseteq> groups_of (ExcGroup gid c m es)" using e by auto
    then show "inj_on group_id (groups_of e)" using ExcGroup.prems(3) by (rule inj_on_subset [rotated])
    show "\<forall>g\<in>groups_of e. group_id g \<notin> insert gid seen"
    proof
      fix g assume g: "g \<in> groups_of e"
      then have "size g < size (ExcGroup gid c m es)" using size_list_estimation' [OF e, of "size g" size] groups_size [OF g] by simp
      then have "g \<noteq> ExcGroup gid c m es" by auto
      then have "group_id g \<noteq> group_id (ExcGroup gid c m es)"
        using inj_on_eq_iff [OF ExcGroup.prems(3), of g "ExcGroup gid c m es"] sub g by auto
      then show "group_id g \<notin> insert gid seen" using ExcGroup.prems(2) sub g by auto
    qed
  qed
  then show ?case using ExcGroup.prems(1,2) by simp
qed auto

text \<open>Serialising an error loses nothing as long as its groups are nested at most 101 deep.\<close>

theorem serialized_errors_complete:
  assumes "inj_on group_id (groups_of e)" "group_depth e \<le> Suc MAX_DEPTH"
  shows "xd_error (execution_to_dict dump (x\<lparr>ex_error := HasError e\<rparr>)) = Some (full_doc e)"
  using serialize_nested_full [of 0 e "{}"] assms by (simp add: execution_to_dict_def)

text \<open>The errors that an execution holds after several were added, in their order.\<close>

fun held_errors :: "'d error_field \<Rightarrow> 'd py_exc list" where
  "held_errors (HasError (ExcGroup _ _ _ es)) = es"
| "held_errors (HasError e) = [e]"
| "held_errors _ = []"

lemma add_error_held:
  assumes "is_exception e" "list_all is_exception (held_errors (ex_error x))" "held_errors (ex_error x) \<noteq> [] \<or> (\<nexists>g c m es. e = ExcGroup g c m es)"
  shows "\<exists>x'. add_error gid e x = Inr x' \<and> held_errors (ex_error x') = held_errors (ex_error x) @ [e]"
  using assms by (cases "ex_error x" rule: held_errors.cases; cases e) (auto simp: add_error_def exception_group_def)

text \<open>Counterexamples: an error in a nested group is not asked whether it may be retried; an interrupt cannot be added to an earlier error;
  a fresh copy of a streaming event does not stream; an interrupted event stays in processing.\<close>

lemma nested_permanent_error_retried:
  "snd (settle [] (InvokeRaised (ExcGroup 1 ''ExceptionGroup'' ''outer'' [ExcGroup 2 ''ExceptionGroup'' ''inner'' [KronExc ''ValidationError'' ''bad'' False []]]))
      (new_execution :: (unit, unit) execution)) =
    new_execution\<lparr>ex_retryable := Some True, ex_status := FAILED,
      ex_error := HasError (ExcGroup 1 ''ExceptionGroup'' ''outer'' [ExcGroup 2 ''ExceptionGroup'' ''inner'' [KronExc ''ValidationError'' ''bad'' False []]])\<rparr>"
  by (simp add: settle_def new_execution_def)

lemma interrupt_not_added:
  "add_error 1 (BaseExc ''KeyboardInterrupt'' []) (new_execution\<lparr>ex_error := HasError (Exc ''ValueError'' ''x'')\<rparr> :: (unit, unit) execution) =
    Inl (Exc ''TypeError'' ''Cannot nest BaseExceptions in an ExceptionGroup'')"
  by (simp add: add_error_def exception_group_def new_execution_def)

lemma fresh_event_stops_streaming: "ev_streaming ev \<Longrightarrow> \<not> ev_streaming (as_fresh_event new_id now copy_meta ev)"
  by (simp add: as_fresh_event_def)

lemma fresh_event_runs:
  "ex_status (ev_execution (as_fresh_event new_id now copy_meta ev)) = PENDING"
  "ev_timeout (as_fresh_event new_id now copy_meta ev) = ev_timeout ev"
  "map_of (ev_metadata (as_fresh_event new_id now copy_meta ev)) ''original'' = Some (OriginalEvent (ev_id ev) (ev_created_at ev))"
  by (simp_all add: as_fresh_event_def new_execution_def)

end
