(* ===== verification/Dag_Executor.thy ===== *)
theory Dag_Executor
  imports Events Graph_Acyclic
begin

text \<open>
  The executor of operation graphs (\<open>libs/kron/src/kron/operations/flow.py\<close>): one task per operation, which waits for the completion events of
  its predecessors, takes a slot of the limiter, invokes the operation and signals its own completion. The tasks interleave at their \<open>await\<close>s:
  an action is what one task does between two of them, and a run is any sequence of actions. An event once set stays set, the limiter lets a
  task in while slots are free, and a task that raises makes the task group cancel the others.
\<close>

section \<open>Configuration\<close>

datatype 'b branch_spec = BranchObject 'b | BranchRef string | NoBranchSpec

record 'b op_node = element +
  on_name :: "string option"
  on_branch :: "'b branch_spec option"

type_synonym 'b op_graph = "('b, unit) op_node_ext digraph"

text \<open>\<open>get_branch\<close> is the lookup of the session; \<^const>\<open>None\<close> if it raises.\<close>

fun resolve_operation_branch :: "(string \<Rightarrow> 'b option) \<Rightarrow> 'b branch_spec option \<Rightarrow> 'b option" where
  "resolve_operation_branch get_branch None = None"
| "resolve_operation_branch get_branch (Some (BranchObject b)) = Some b"
| "resolve_operation_branch get_branch (Some (BranchRef r)) = get_branch r"
| "resolve_operation_branch get_branch (Some NoBranchSpec) = None"

definition preallocate_branches ::
  "(string \<Rightarrow> 'b option) \<Rightarrow> 'b branch_spec option \<Rightarrow> 'b option \<Rightarrow> 'b op_node list \<Rightarrow> (uuid, 'b option) dict" where
  "preallocate_branches get_branch default_spec session_default nodes =
    (let default_branch = (case resolve_operation_branch get_branch default_spec of None \<Rightarrow> session_default | Some b \<Rightarrow> Some b)
     in foldl (\<lambda>d n. dict_set (el_id n)
                (case on_branch n of
                   None \<Rightarrow> default_branch
                 | Some spec \<Rightarrow> (case resolve_operation_branch get_branch (Some spec) of None \<Rightarrow> default_branch | Some b \<Rightarrow> Some b)) d)
          [] nodes)"

record 'b flow_config =
  fc_graph :: "'b op_graph"
  fc_iter :: "uuid set \<Rightarrow> uuid list"
  fc_limit :: "int option"
  fc_stop_on_error :: bool
  fc_branches :: "(uuid, 'b option) dict"
  fc_timeout_text :: "uuid \<Rightarrow> string"

text \<open>The slots of the limiter; \<open>0\<close> is falsy and means no limiter, a negative number is refused by its constructor.\<close>

definition resolve_limit :: "int option \<Rightarrow> (string, int option) result" where
  "resolve_limit max_concurrent =
    (case max_concurrent of
       None \<Rightarrow> Inr None
     | Some n \<Rightarrow> if n = 0 then Inr None else if n < 0 then Inl ''total_tokens must be > 0'' else Inr (Some n))"

section \<open>State\<close>

datatype 'd task =
    NotStarted
  | Waiting "uuid list"
  | Ready
  | Running
  | Ended
  | Escaped "'d py_exc"
  | Aborted

fun task_over :: "'d task \<Rightarrow> bool" where
  "task_over Ended = True"
| "task_over (Escaped _) = True"
| "task_over Aborted = True"
| "task_over _ = False"

record ('r, 'd) executor =
  dx_results :: "(uuid, 'r option) dict"
  dx_errors :: "(uuid, 'd py_exc) dict"
  dx_signalled :: "uuid set"
  dx_operations :: "uuid \<Rightarrow> ('r, 'd) execution"
  dx_tasks :: "uuid \<Rightarrow> 'd task"
  dx_borrowed :: int

datatype ('r, 'd) flow_action =
    Advance uuid
  | Finish uuid rat rat "('r, 'd) outcome"
  | Cancel uuid rat rat

datatype flow_setup_error = FlowCycles | NonOperation uuid | SetupGraph graph_error | SetupPile pile_error

text \<open>\<open>isinstance(node, Operation)\<close>.\<close>

definition is_operation :: "(string \<Rightarrow> string \<Rightarrow> bool) \<Rightarrow> 'n element_scheme \<Rightarrow> bool" where
  "is_operation sub node \<longleftrightarrow> sub (el_type node) ''Operation''"

text \<open>The checks of \<open>execute\<close> and the tasks it starts, for operations in the given states.\<close>

definition start_execution ::
  "(string \<Rightarrow> string \<Rightarrow> bool) \<Rightarrow> 'b flow_config \<Rightarrow> (uuid \<Rightarrow> ('r, 'd) execution) \<Rightarrow> (flow_setup_error, ('r, 'd) executor) result" where
  "start_execution sub cfg ops =
    (case is_acyclic (fc_iter cfg) (fc_graph cfg) of
       Inl e \<Rightarrow> Inl (SetupGraph e)
     | Inr False \<Rightarrow> Inl FlowCycles
     | Inr True \<Rightarrow>
         (case pile_list (gh_nodes (fc_graph cfg)) of
            Inl e \<Rightarrow> Inl (SetupPile e)
          | Inr nodes \<Rightarrow>
              (case find_first (\<lambda>n. \<not> is_operation sub n) nodes of
                 Some n \<Rightarrow> Inl (NonOperation (el_id n))
               | None \<Rightarrow>
                   Inr \<lparr>dx_results = [], dx_errors = [], dx_signalled = {}, dx_operations = ops, dx_tasks = \<lambda>_. NotStarted, dx_borrowed = 0\<rparr>)))"

section \<open>Tasks\<close>

text \<open>The handler and the \<open>finally\<close> clause of \<open>_execute_operation\<close> for an \<open>Exception\<close>.\<close>

definition fail_task :: "'b flow_config \<Rightarrow> uuid \<Rightarrow> 'd py_exc \<Rightarrow> ('r, 'd) executor \<Rightarrow> ('r, 'd) executor" where
  "fail_task cfg u e s =
    s\<lparr>dx_errors := dict_set u e (dx_errors s), dx_signalled := insert u (dx_signalled s),
      dx_tasks := (dx_tasks s)(u := if fc_stop_on_error cfg then Escaped e else Ended)\<rparr>"

definition end_task :: "uuid \<Rightarrow> 'd task \<Rightarrow> ('r, 'd) executor \<Rightarrow> ('r, 'd) executor" where
  "end_task u t s = s\<lparr>dx_signalled := insert u (dx_signalled s), dx_tasks := (dx_tasks s)(u := t)\<rparr>"

definition release_slot :: "'b flow_config \<Rightarrow> ('r, 'd) executor \<Rightarrow> ('r, 'd) executor" where
  "release_slot cfg s = (case fc_limit cfg of None \<Rightarrow> s | Some _ \<Rightarrow> s\<lparr>dx_borrowed := dx_borrowed s - 1\<rparr>)"

definition branch_of :: "'b flow_config \<Rightarrow> uuid \<Rightarrow> 'b option" where
  "branch_of cfg u = (case map_of (fc_branches cfg) u of None \<Rightarrow> None | Some b \<Rightarrow> b)"

text \<open>From taking the slot to the invocation; without a branch the operation is not invoked and the slot is given back.\<close>

definition enter_operation :: "'b flow_config \<Rightarrow> uuid \<Rightarrow> ('r, 'd) executor \<Rightarrow> ('r, 'd) executor" where
  "enter_operation cfg u s =
    (if branch_of cfg u = None then fail_task cfg u (Exc ''ValueError'' (''No branch allocated for operation '' @ u)) s
     else s\<lparr>dx_borrowed := (case fc_limit cfg of None \<Rightarrow> dx_borrowed s | Some _ \<Rightarrow> dx_borrowed s + 1), dx_tasks := (dx_tasks s)(u := Running)\<rparr>)"

fun task_advance :: "'b flow_config \<Rightarrow> uuid \<Rightarrow> 'd task \<Rightarrow> ('r, 'd) executor \<Rightarrow> ('r, 'd) executor option" where
  "task_advance cfg u NotStarted s =
    (case get_predecessors (fc_iter cfg) u (fc_graph cfg) of
       Inl _ \<Rightarrow> Some (fail_task cfg u (KronExc ''NotFoundError'' ''Item not found'' False []) s)
     | Inr preds \<Rightarrow> Some (s\<lparr>dx_tasks := (dx_tasks s)(u := Waiting (map el_id preds))\<rparr>))"
| "task_advance cfg u (Waiting []) s = Some (s\<lparr>dx_tasks := (dx_tasks s)(u := Ready)\<rparr>)"
| "task_advance cfg u (Waiting (p # ps)) s =
    (if pile_contains p (gh_nodes (fc_graph cfg)) \<and> p \<notin> dx_signalled s then None
     else Some (s\<lparr>dx_tasks := (dx_tasks s)(u := Waiting ps)\<rparr>))"
| "task_advance cfg u Ready s =
    (case fc_limit cfg of
       None \<Rightarrow> Some (enter_operation cfg u s)
     | Some n \<Rightarrow> if dx_borrowed s < n then Some (enter_operation cfg u s) else None)"
| "task_advance cfg u _ s = None"

text \<open>The text of the error that stands for an operation that was not completed.\<close>

definition failure_text :: "('r, 'd) execution \<Rightarrow> string" where
  "failure_text x =
    ''Execution status: '' @ event_status_value (ex_status x) @ (case ex_error x of HasError e \<Rightarrow> '' - '' @ exc_str e | _ \<Rightarrow> '''')"

definition finish_operation :: "'b flow_config \<Rightarrow> uuid \<Rightarrow> rat \<Rightarrow> rat \<Rightarrow> ('r, 'd) outcome \<Rightarrow> ('r, 'd) executor \<Rightarrow> ('r, 'd) executor" where
  "finish_operation cfg u start finish out s =
    (let (raised, x) = invoke_execution (fc_timeout_text cfg u) start finish out (dx_operations s u);
         s1 = release_slot cfg (s\<lparr>dx_operations := (dx_operations s)(u := x)\<rparr>)
     in case raised of
          Some e \<Rightarrow> end_task u (Escaped e) s1
        | None \<Rightarrow>
            if ex_status x = COMPLETED then end_task u Ended (s1\<lparr>dx_results := dict_set u (ex_response x) (dx_results s1)\<rparr>)
            else end_task u Ended (s1\<lparr>dx_errors := dict_set u (Exc ''RuntimeError'' (failure_text x)) (dx_errors s1)\<rparr>))"

text \<open>A cancellation is no \<open>Exception\<close>: only the \<open>finally\<close> clauses run.\<close>

definition cancel_task :: "'b flow_config \<Rightarrow> uuid \<Rightarrow> rat \<Rightarrow> rat \<Rightarrow> ('r, 'd) executor \<Rightarrow> ('r, 'd) executor" where
  "cancel_task cfg u start finish s =
    end_task u Aborted
      (if dx_tasks s u = Running
       then release_slot cfg (s\<lparr>dx_operations := (dx_operations s)
              (u := snd (invoke_execution (fc_timeout_text cfg u) start finish (InvokeRaised (CancelledExc ''CancelledError'' [])) (dx_operations s u)))\<rparr>)
       else s)"

definition group_cancelled :: "'b flow_config \<Rightarrow> ('r, 'd) executor \<Rightarrow> bool" where
  "group_cancelled cfg s \<longleftrightarrow> list_ex (\<lambda>u. case dx_tasks s u of Escaped _ \<Rightarrow> True | _ \<Rightarrow> False) (pile_keys (gh_nodes (fc_graph cfg)))"

text \<open>One action of the task of an operation of the graph; \<^const>\<open>None\<close> if it cannot happen.\<close>

fun flow_step :: "'b flow_config \<Rightarrow> ('r, 'd) flow_action \<Rightarrow> ('r, 'd) executor \<Rightarrow> ('r, 'd) executor option" where
  "flow_step cfg (Advance u) s =
    (if pile_contains u (gh_nodes (fc_graph cfg)) then task_advance cfg u (dx_tasks s u) s else None)"
| "flow_step cfg (Finish u start finish out) s =
    (if pile_contains u (gh_nodes (fc_graph cfg)) \<and> dx_tasks s u = Running then Some (finish_operation cfg u start finish out s) else None)"
| "flow_step cfg (Cancel u start finish) s =
    (if pile_contains u (gh_nodes (fc_graph cfg)) \<and> group_cancelled cfg s \<and>
        (case dx_tasks s u of Waiting (_ # _) \<Rightarrow> True | Ready \<Rightarrow> True | Running \<Rightarrow> True | _ \<Rightarrow> False)
     then Some (cancel_task cfg u start finish s) else None)"

fun flow_run :: "'b flow_config \<Rightarrow> ('r, 'd) flow_action list \<Rightarrow> ('r, 'd) executor \<Rightarrow> ('r, 'd) executor option" where
  "flow_run cfg [] s = Some s"
| "flow_run cfg (a # as) s = (case flow_step cfg a s of None \<Rightarrow> None | Some s' \<Rightarrow> flow_run cfg as s')"

text \<open>The results by the name of their operation; a later operation of the same name replaces an earlier one.\<close>

definition node_label :: "'b op_node \<Rightarrow> string" where
  "node_label n = (case on_name n of None \<Rightarrow> el_id n | Some nm \<Rightarrow> nm)"

definition results_by_name :: "'b op_node list \<Rightarrow> ('r, 'd) executor \<Rightarrow> (string, 'r option) dict" where
  "results_by_name nodes s =
    foldl (\<lambda>d n. case map_of (dx_results s) (el_id n) of None \<Rightarrow> d | Some r \<Rightarrow> dict_set (node_label n) r d) [] nodes"

text \<open>The result \<open>stream_execute\<close> yields when the task of an operation has ended, as the \<open>completed\<close>-th of \<open>amount\<close>.\<close>

record ('r, 'd) OperationResult =
  or_name :: string
  or_result :: "'r option option"
  or_error :: "'d py_exc option"
  or_completed :: nat
  or_total :: nat

definition operation_result :: "'b op_node \<Rightarrow> nat \<Rightarrow> nat \<Rightarrow> ('r, 'd) executor \<Rightarrow> ('r, 'd) OperationResult" where
  "operation_result n completed amount s =
    (case map_of (dx_errors s) (el_id n) of
       Some e \<Rightarrow> \<lparr>or_name = node_label n, or_result = None, or_error = Some e, or_completed = completed, or_total = amount\<rparr>
     | None \<Rightarrow> \<lparr>or_name = node_label n, or_result = map_of (dx_results s) (el_id n), or_error = None, or_completed = completed, or_total = amount\<rparr>)"

definition result_success :: "('r, 'd) OperationResult \<Rightarrow> bool" where
  "result_success r \<longleftrightarrow> or_error r = None"

end
