(* ===== verification/Dag_Correct.thy ===== *)
theory Dag_Correct
  imports Dag_Executor Graph_Correct
begin

text \<open>
  The executor of operation graphs under every interleaving of its tasks: an operation starts only when its predecessors are over, the limiter
  is never exceeded, no run gets stuck or goes on for ever, and what the results and errors hold in the end.
\<close>

section \<open>Predecessors\<close>

abbreviation flow_nodes :: "'b flow_config \<Rightarrow> uuid set" where
  "flow_nodes cfg \<equiv> node_ids (fc_graph cfg)"

definition preds :: "'b flow_config \<Rightarrow> uuid \<Rightarrow> uuid set" where
  "preds cfg u = {p. (p, u) \<in> arcs (fc_graph cfg)}"

definition dag_ok :: "'b flow_config \<Rightarrow> bool" where
  "dag_ok cfg \<longleftrightarrow> graph_ok (fc_graph cfg) \<and> lists_sets (fc_iter cfg) \<and> (\<forall>n. fc_limit cfg = Some n \<longrightarrow> 0 < n)"

lemma reachable_dag_ok:
  "reachable_graph (fc_graph cfg) \<Longrightarrow> lists_sets (fc_iter cfg) \<Longrightarrow> resolve_limit max_concurrent = Inr (fc_limit cfg) \<Longrightarrow> dag_ok cfg"
  using reachable_graph_ok by (auto simp: dag_ok_def resolve_limit_def split: option.splits if_splits)

lemma through_edges_ids:
  assumes "\<forall>eid\<in>set es. \<exists>e. edge_of g eid = Some e \<and> f e \<in> node_ids g" "graph_ok g"
  shows "\<exists>ns. through_edges g f es = Inr ns \<and> map el_id ns = map (\<lambda>eid. f (the (edge_of g eid))) es"
  using assms(1)
proof (induction es)
  case (Cons a es)
  obtain e n where e: "edge_of g a = Some e" "node_of g (f e) = Some n" using Cons.prems by (auto simp: node_ids_def)
  then have "el_id n = f e" using assms(2) by (auto simp: graph_ok_def pile_ok_def node_of_def)
  moreover obtain ns where "through_edges g f es = Inr ns" "map el_id ns = map (\<lambda>eid. f (the (edge_of g eid))) es"
    using Cons by auto
  ultimately show ?case using e by simp
qed simp

lemma get_predecessors_ids:
  assumes "dag_ok cfg" "u \<in> flow_nodes cfg"
  obtains ns where "get_predecessors (fc_iter cfg) u (fc_graph cfg) = Inr ns" "set (map el_id ns) = preds cfg u"
proof -
  let ?g = "fc_graph cfg"
  have g: "graph_ok ?g" "lists_sets (fc_iter cfg)" using assms(1) by (auto simp: dag_ok_def)
  have adj: "adjacent (gh_in ?g) u = edges_at ed_tail ?g u"
    using g(1) assms(2) by (simp add: adjacent_def graph_ok_def adj_ok_def)
  have es: "set (fc_iter cfg (edges_at ed_tail ?g u)) = edges_at ed_tail ?g u" using g(2) by (simp add: lists_sets_def)
  have "\<forall>eid\<in>set (fc_iter cfg (edges_at ed_tail ?g u)). \<exists>e. edge_of ?g eid = Some e \<and> ed_head e \<in> node_ids ?g"
    using g(1) unfolding es by (auto simp: edges_at_def graph_ok_def)
  from through_edges_ids [OF this g(1)] obtain ns where
    ns: "get_predecessors (fc_iter cfg) u ?g = Inr ns"
    "map el_id ns = map (\<lambda>eid. ed_head (the (edge_of ?g eid))) (fc_iter cfg (edges_at ed_tail ?g u))"
    by (auto simp: get_predecessors_def adj)
  have "set (map el_id ns) = preds cfg u" 
  proof
    show "set (map el_id ns) \<subseteq> preds cfg u" unfolding ns(2) set_map es by (auto simp: preds_def arcs_def edges_at_def)
    show "preds cfg u \<subseteq> set (map el_id ns)"
    proof
      fix p assume "p \<in> preds cfg u"
      then obtain eid e where "edge_of ?g eid = Some e" "ed_tail e = u" "ed_head e = p" by (auto simp: preds_def arcs_def)
      then show "p \<in> set (map el_id ns)" unfolding ns(2) set_map es by (auto simp: edges_at_def image_iff intro!: exI [of _ eid])
    qed
  qed
  with ns(1) show thesis by (rule that)
qed

lemma flow_contains [simp]: "pile_contains u (gh_nodes (fc_graph cfg)) \<longleftrightarrow> u \<in> flow_nodes cfg"
  by (simp add: node_ids_conv)

lemma finite_flow_nodes [simp]: "finite (flow_nodes cfg)"
  by (rule finite_node_ids)

section \<open>The invariant\<close>

text \<open>
  The tasks that are over are those that have signalled; what a task has still to wait for; the predecessors of an operation under way are over;
  the slots in use; and the result or error of every task that has ended.
\<close>

fun waited :: "'b flow_config \<Rightarrow> uuid set \<Rightarrow> uuid \<Rightarrow> 'd task \<Rightarrow> bool" where
  "waited cfg sig u NotStarted = True"
| "waited cfg sig u (Waiting ps) = (preds cfg u \<subseteq> set ps \<union> sig \<and> set ps \<subseteq> preds cfg u)"
| "waited cfg sig u (Escaped _) = True"
| "waited cfg sig u Aborted = True"
| "waited cfg sig u _ = (preds cfg u \<subseteq> sig)"

definition running_tasks :: "'b flow_config \<Rightarrow> ('r, 'd) executor \<Rightarrow> uuid set" where
  "running_tasks cfg s = {u \<in> flow_nodes cfg. dx_tasks s u = Running}"

definition dag_inv :: "'b flow_config \<Rightarrow> ('r, 'd) executor \<Rightarrow> bool" where
  "dag_inv cfg s \<longleftrightarrow>
     dx_signalled s = {u \<in> flow_nodes cfg. task_over (dx_tasks s u)} \<and>
     (\<forall>u\<in>flow_nodes cfg. waited cfg (dx_signalled s) u (dx_tasks s u)) \<and>
     (\<forall>n. fc_limit cfg = Some n \<longrightarrow> dx_borrowed s = int (card (running_tasks cfg s)) \<and> dx_borrowed s \<le> n) \<and>
     (\<forall>u\<in>flow_nodes cfg. dx_tasks s u = Ended \<longrightarrow> map_of (dx_results s) u \<noteq> None \<or> map_of (dx_errors s) u \<noteq> None)"

text \<open>A task of the graph moves on, and signals if it is over.\<close>

definition task_moves :: "'b flow_config \<Rightarrow> uuid \<Rightarrow> 'd task \<Rightarrow> ('r, 'd) executor \<Rightarrow> ('r, 'd) executor \<Rightarrow> bool" where
  "task_moves cfg u t s s' \<longleftrightarrow>
     u \<in> flow_nodes cfg \<and> \<not> task_over (dx_tasks s u) \<and> dx_tasks s' = (dx_tasks s)(u := t) \<and>
     dx_signalled s' = (if task_over t then insert u (dx_signalled s) else dx_signalled s) \<and>
     (\<forall>n. fc_limit cfg = Some n \<longrightarrow>
        dx_borrowed s' = dx_borrowed s + (if t = Running then 1 else 0) - (if dx_tasks s u = Running then 1 else 0)) \<and>
     (\<forall>v. v \<noteq> u \<longrightarrow> map_of (dx_results s') v = map_of (dx_results s) v \<and> map_of (dx_errors s') v = map_of (dx_errors s) v) \<and>
     (t = Ended \<longrightarrow> map_of (dx_results s') u \<noteq> None \<or> map_of (dx_errors s') u \<noteq> None)"

lemma dag_inv_waited: "dag_inv cfg s \<Longrightarrow> u \<in> flow_nodes cfg \<Longrightarrow> waited cfg (dx_signalled s) u (dx_tasks s u)"
  unfolding dag_inv_def by blast

lemma waited_mono: "waited cfg sig u t \<Longrightarrow> sig \<subseteq> sig' \<Longrightarrow> waited cfg sig' u t"
  by (cases t) auto

lemma running_moves:
  assumes "task_moves cfg u t s s'"
  shows "running_tasks cfg s' = (if t = Running then insert u (running_tasks cfg s) else running_tasks cfg s - {u})"
  using assms by (auto simp: running_tasks_def task_moves_def split: if_splits)

lemma task_moves_inv:
  assumes inv: "dag_inv cfg s" and m: "task_moves cfg u t s s'" and w: "waited cfg (dx_signalled s) u t"
    and room: "\<And>n. fc_limit cfg = Some n \<Longrightarrow> t = Running \<Longrightarrow> dx_borrowed s < n"
  shows "dag_inv cfg s'"
  unfolding dag_inv_def
proof (intro conjI allI impI)
  have u: "u \<in> flow_nodes cfg" "\<not> task_over (dx_tasks s u)" "dx_tasks s' = (dx_tasks s)(u := t)"
    and sig: "dx_signalled s' = (if task_over t then insert u (dx_signalled s) else dx_signalled s)"
    using m by (simp_all add: task_moves_def)
  have s: "dx_signalled s = {u \<in> flow_nodes cfg. task_over (dx_tasks s u)}" using inv by (simp add: dag_inv_def)
  show "dx_signalled s' = {u \<in> flow_nodes cfg. task_over (dx_tasks s' u)}" unfolding sig s using u by auto
  have mono: "dx_signalled s \<subseteq> dx_signalled s'" by (auto simp: sig)
  show "\<forall>v\<in>flow_nodes cfg. waited cfg (dx_signalled s') v (dx_tasks s' v)"
    using inv w waited_mono [OF _ mono] u(3) by (auto simp: dag_inv_def)
  show "\<forall>v\<in>flow_nodes cfg. dx_tasks s' v = Ended \<longrightarrow> map_of (dx_results s') v \<noteq> None \<or> map_of (dx_errors s') v \<noteq> None"
    using inv m by (auto simp: dag_inv_def task_moves_def)
  fix n assume n: "fc_limit cfg = Some n"
  have fin: "finite (running_tasks cfg s)" by (simp add: running_tasks_def)
  have b: "dx_borrowed s = int (card (running_tasks cfg s))" "dx_borrowed s \<le> n" using inv n by (auto simp: dag_inv_def)
  have b': "dx_borrowed s' = dx_borrowed s + (if t = Running then 1 else 0) - (if dx_tasks s u = Running then 1 else 0)"
    using m n by (simp add: task_moves_def)
  have mem: "u \<in> running_tasks cfg s \<longleftrightarrow> dx_tasks s u = Running" using u(1) by (simp add: running_tasks_def)
  then have "u \<in> running_tasks cfg s \<Longrightarrow> 0 < card (running_tasks cfg s)" using fin by (auto simp: card_gt_0_iff)
  then show "dx_borrowed s' = int (card (running_tasks cfg s'))"
    unfolding running_moves [OF m] b' b(1) using fin mem by (auto simp: card_insert_if card_Diff_singleton_if of_nat_diff)
  show "dx_borrowed s' \<le> n" unfolding b' using room [OF n] b(2) by auto
qed

section \<open>Actions\<close>

lemma fail_task_moves:
  assumes "u \<in> flow_nodes cfg" "\<not> task_over (dx_tasks s u)" "dx_tasks s u \<noteq> Running"
  shows "task_moves cfg u (if fc_stop_on_error cfg then Escaped e else Ended) s (fail_task cfg u e s)"
  using assms by (simp add: task_moves_def fail_task_def)

lemma release_slot_simps [simp]:
  "dx_tasks (release_slot cfg s) = dx_tasks s" "dx_signalled (release_slot cfg s) = dx_signalled s"
  "dx_results (release_slot cfg s) = dx_results s" "dx_errors (release_slot cfg s) = dx_errors s"
  "dx_operations (release_slot cfg s) = dx_operations s"
  "fc_limit cfg = Some n \<Longrightarrow> dx_borrowed (release_slot cfg s) = dx_borrowed s - 1"
  by (simp_all add: release_slot_def split: option.splits)

lemma end_task_simps [simp]:
  "dx_tasks (end_task u t s) = (dx_tasks s)(u := t)" "dx_signalled (end_task u t s) = insert u (dx_signalled s)"
  "dx_results (end_task u t s) = dx_results s" "dx_errors (end_task u t s) = dx_errors s"
  "dx_operations (end_task u t s) = dx_operations s" "dx_borrowed (end_task u t s) = dx_borrowed s"
  by (simp_all add: end_task_def)

lemma finish_operation_moves:
  assumes "u \<in> flow_nodes cfg" "dx_tasks s u = Running"
  obtains t where "task_moves cfg u t s (finish_operation cfg u a b out s)" "t = Ended \<or> (\<exists>e. t = Escaped e \<and> escaping out = Some e)"
proof (cases "fst (invoke_execution (fc_timeout_text cfg u) a b out (dx_operations s u))")
  case None
  then have "task_moves cfg u Ended s (finish_operation cfg u a b out s)"
    using assms by (auto simp: task_moves_def finish_operation_def case_prod_beta Let_def)
  then show thesis by (rule that) simp
next
  case (Some e)
  then have "escaping out = Some e"
    by (cases "ex_status (dx_operations s u) = PENDING") (auto simp: invoke_execution_raised invoke_execution_settled)
  moreover have "task_moves cfg u (Escaped e) s (finish_operation cfg u a b out s)"
    using assms Some by (auto simp: task_moves_def finish_operation_def case_prod_beta Let_def)
  ultimately show thesis using that by blast
qed

lemma cancel_task_moves:
  assumes "u \<in> flow_nodes cfg" "\<not> task_over (dx_tasks s u)"
  shows "task_moves cfg u Aborted s (cancel_task cfg u a b s)"
  using assms by (auto simp: task_moves_def cancel_task_def)

lemma enter_operation_moves:
  assumes "u \<in> flow_nodes cfg" "dx_tasks s u = Ready"
  shows "task_moves cfg u (if branch_of cfg u = None then if fc_stop_on_error cfg then Escaped (Exc ''ValueError'' (''No branch allocated for operation '' @ u)) else Ended
    else Running) s (enter_operation cfg u s)"
  using assms fail_task_moves [of u cfg s] by (auto simp: enter_operation_def task_moves_def)

text \<open>Every action moves one task, and ends a task with an exception only where the code raises one.\<close>

definition raised_by :: "'b flow_config \<Rightarrow> ('r, 'd) flow_action \<Rightarrow> 'd py_exc \<Rightarrow> bool" where
  "raised_by cfg a e \<longleftrightarrow>
     (\<exists>u x y out. a = Finish u x y out \<and> escaping out = Some e) \<or> (\<exists>u. a = Advance u \<and> branch_of cfg u = None \<and> fc_stop_on_error cfg)"

fun action_task :: "('r, 'd) flow_action \<Rightarrow> uuid" where
  "action_task (Advance u) = u"
| "action_task (Finish u _ _ _) = u"
| "action_task (Cancel u _ _) = u"

lemma task_advance_moves:
  assumes ok: "dag_ok cfg" and inv: "dag_inv cfg s" and u: "u \<in> flow_nodes cfg" and step: "task_advance cfg u (dx_tasks s u) s = Some s'"
  shows "\<exists>t. task_moves cfg u t s s' \<and> waited cfg (dx_signalled s) u t \<and> t \<noteq> Aborted \<and>
    (\<forall>n. fc_limit cfg = Some n \<longrightarrow> t = Running \<longrightarrow> dx_borrowed s < n) \<and> (\<forall>e. t = Escaped e \<longrightarrow> raised_by cfg (Advance u) e)"
proof -
  have w: "waited cfg (dx_signalled s) u (dx_tasks s u)" by (rule dag_inv_waited [OF inv u])
  show ?thesis
  proof (cases "dx_tasks s u")
    case NotStarted
    obtain ns where ns: "get_predecessors (fc_iter cfg) u (fc_graph cfg) = Inr ns" "set (map el_id ns) = preds cfg u"
      by (rule get_predecessors_ids [OF ok u])
    then have "task_moves cfg u (Waiting (map el_id ns)) s s'" using step NotStarted u by (auto simp: task_moves_def)
    then show ?thesis using ns(2) by (intro exI [of _ "Waiting (map el_id ns)"]) auto
  next
    case (Waiting ps)
    show ?thesis
    proof (cases ps)
      case Nil
      then have "task_moves cfg u Ready s s'" using step Waiting u by (auto simp: task_moves_def)
      then show ?thesis using w Waiting Nil by (intro exI [of _ Ready]) auto
    next
      case (Cons p qs)
      then have m: "task_moves cfg u (Waiting qs) s s'" and p: "p \<notin> flow_nodes cfg \<or> p \<in> dx_signalled s"
        using step Waiting u by (auto simp: task_moves_def split: if_splits)
      have "p \<in> preds cfg u" using w Waiting Cons by simp
      then have "p \<in> flow_nodes cfg" using ok arcs_nodes by (auto simp: preds_def dag_ok_def)
      then show ?thesis using w Waiting Cons m p by (intro exI [of _ "Waiting qs"]) auto
    qed
  next
    case Ready
    let ?t = "if branch_of cfg u = None then if fc_stop_on_error cfg then Escaped (Exc ''ValueError'' (''No branch allocated for operation '' @ u)) else Ended
      else Running"
    have s': "s' = enter_operation cfg u s" "\<forall>n. fc_limit cfg = Some n \<longrightarrow> dx_borrowed s < n"
      using step Ready by (auto split: option.splits if_splits)
    show ?thesis unfolding s'(1)
      using enter_operation_moves [OF u Ready] s'(2) w Ready by (intro exI [of _ ?t]) (auto simp: raised_by_def)
  qed (use step in auto)
qed

lemma flow_step_moves:
  assumes ok: "dag_ok cfg" and inv: "dag_inv cfg s" and step: "flow_step cfg a s = Some s'"
  shows "\<exists>t. task_moves cfg (action_task a) t s s' \<and> waited cfg (dx_signalled s) (action_task a) t \<and>
    (\<forall>n. fc_limit cfg = Some n \<longrightarrow> t = Running \<longrightarrow> dx_borrowed s < n) \<and> (\<forall>e. t = Escaped e \<longrightarrow> raised_by cfg a e) \<and>
    (t = Aborted \<longrightarrow> group_cancelled cfg s)"
proof (cases a)
  case (Advance u)
  then show ?thesis using task_advance_moves [OF ok inv, of u s'] step by (fastforce split: if_splits)
next
  case (Finish u x y out)
  then have u: "u \<in> flow_nodes cfg" "dx_tasks s u = Running" and s': "s' = finish_operation cfg u x y out s"
    using step by (auto split: if_splits)
  have w: "preds cfg u \<subseteq> dx_signalled s" using dag_inv_waited [OF inv u(1)] u(2) by simp
  obtain t where "task_moves cfg u t s s'" "t = Ended \<or> (\<exists>e. t = Escaped e \<and> escaping out = Some e)"
    unfolding s' by (rule finish_operation_moves [OF u])
  then show ?thesis using w Finish by (intro exI [of _ t]) (auto simp: raised_by_def)
next
  case (Cancel u x y)
  then have "u \<in> flow_nodes cfg" "\<not> task_over (dx_tasks s u)" "s' = cancel_task cfg u x y s" "group_cancelled cfg s"
    using step by (auto split: if_splits task.splits)
  then show ?thesis using cancel_task_moves [of u cfg s x y] Cancel by (intro exI [of _ Aborted]) auto
qed

lemma flow_step_inv: "dag_ok cfg \<Longrightarrow> dag_inv cfg s \<Longrightarrow> flow_step cfg a s = Some s' \<Longrightarrow> dag_inv cfg s'"
  using flow_step_moves task_moves_inv by metis

lemma flow_run_inv: "dag_ok cfg \<Longrightarrow> dag_inv cfg s \<Longrightarrow> flow_run cfg as s = Some s' \<Longrightarrow> dag_inv cfg s'"
  by (induction as arbitrary: s) (auto split: option.splits dest: flow_step_inv)

lemma start_execution_inv:
  assumes "start_execution sub cfg ops = Inr s" "dag_ok cfg"
  shows "dag_inv cfg s" "dx_tasks s = (\<lambda>_. NotStarted)" "acyclic (arcs (fc_graph cfg))"
proof -
  have s: "s = \<lparr>dx_results = [], dx_errors = [], dx_signalled = {}, dx_operations = ops, dx_tasks = \<lambda>_. NotStarted, dx_borrowed = 0\<rparr>"
    and a: "is_acyclic (fc_iter cfg) (fc_graph cfg) = Inr True"
    using assms(1) by (auto simp: start_execution_def split: sum.splits bool.splits option.splits)
  show "dag_inv cfg s" using assms(2) by (auto simp: s dag_inv_def running_tasks_def dag_ok_def)
  show "dx_tasks s = (\<lambda>_. NotStarted)" by (simp add: s)
  show "acyclic (arcs (fc_graph cfg))" using a is_acyclic_decides [of "fc_graph cfg" "fc_iter cfg"] assms(2) by (simp add: dag_ok_def)
qed


section \<open>Progress\<close>

text \<open>How many actions a task can still take.\<close>

fun task_rank :: "nat \<Rightarrow> 'd task \<Rightarrow> nat" where
  "task_rank k NotStarted = k + 4"
| "task_rank k (Waiting ps) = length ps + 3"
| "task_rank k Ready = 2"
| "task_rank k Running = 1"
| "task_rank k _ = 0"

definition pred_count :: "'b flow_config \<Rightarrow> uuid \<Rightarrow> nat" where
  "pred_count cfg u = (case get_predecessors (fc_iter cfg) u (fc_graph cfg) of Inl _ \<Rightarrow> 0 | Inr ns \<Rightarrow> length ns)"

definition flow_rank :: "'b flow_config \<Rightarrow> ('r, 'd) executor \<Rightarrow> nat" where
  "flow_rank cfg s = (\<Sum>u\<in>flow_nodes cfg. task_rank (pred_count cfg u) (dx_tasks s u))"

lemma sum_update_less:
  assumes "finite A" "u \<in> A" "f' u < (f u :: nat)" "\<And>v. v \<noteq> u \<Longrightarrow> f' v = f v"
  shows "sum f' A < sum f A"
proof -
  have "sum f' A = f' u + sum f (A - {u})" "sum f A = f u + sum f (A - {u})"
    using assms(1,2,4) by (auto simp: sum.remove [of A u] intro!: sum.cong)
  then show ?thesis using assms(3) by simp
qed

lemma rank_over: "task_over t \<Longrightarrow> task_rank k t = 0" "\<not> task_over t \<Longrightarrow> 0 < task_rank k t"
  by (cases t; simp)+

lemma flow_rank_update:
  assumes "u \<in> flow_nodes cfg" "\<And>v. v \<noteq> u \<Longrightarrow> dx_tasks s' v = dx_tasks s v"
    "task_rank (pred_count cfg u) (dx_tasks s' u) < task_rank (pred_count cfg u) (dx_tasks s u)"
  shows "flow_rank cfg s' < flow_rank cfg s"
  unfolding flow_rank_def using assms by (intro sum_update_less [of _ u]) auto

lemma enter_operation_tasks:
  "task_rank k (dx_tasks (enter_operation cfg u s) u) < 2" "v \<noteq> u \<Longrightarrow> dx_tasks (enter_operation cfg u s) v = dx_tasks s v"
  by (auto simp: enter_operation_def fail_task_def)

lemma flow_step_rank:
  assumes step: "flow_step cfg a s = Some s'"
  shows "flow_rank cfg s' < flow_rank cfg s"
proof (cases a)
  case (Advance u)
  let ?k = "pred_count cfg u"
  have u: "u \<in> flow_nodes cfg" "task_advance cfg u (dx_tasks s u) s = Some s'" using step Advance by (auto split: if_splits)
  have "(\<forall>v. v \<noteq> u \<longrightarrow> dx_tasks s' v = dx_tasks s v) \<and> task_rank ?k (dx_tasks s' u) < task_rank ?k (dx_tasks s u)"
  proof (cases "(cfg, u, dx_tasks s u, s)" rule: task_advance.cases)
    case 1
    then show ?thesis using u(2) by (cases "get_predecessors (fc_iter cfg) u (fc_graph cfg)") (auto simp: fail_task_def pred_count_def)
  next
    case 4
    then show ?thesis using u(2) by (auto simp: enter_operation_tasks split: option.splits if_splits)
  qed (use u(2) in \<open>auto split: if_splits\<close>)
  then show ?thesis using flow_rank_update [OF u(1)] by blast
next
  case (Finish u x y out)
  then have u: "u \<in> flow_nodes cfg" "dx_tasks s u = Running" "s' = finish_operation cfg u x y out s" using step by (auto split: if_splits)
  then obtain t where "task_moves cfg u t s s'" "t = Ended \<or> (\<exists>e. t = Escaped e \<and> escaping out = Some e)"
    using finish_operation_moves [of u cfg s] by blast
  then show ?thesis using u by (intro flow_rank_update [of u]) (auto simp: task_moves_def)
next
  case (Cancel u x y)
  then have u: "u \<in> flow_nodes cfg" "\<not> task_over (dx_tasks s u)" "s' = cancel_task cfg u x y s"
    using step by (auto split: if_splits task.splits)
  then show ?thesis using cancel_task_moves [of u cfg s x y] rank_over(2) [OF u(2)]
    by (intro flow_rank_update [of u]) (auto simp: task_moves_def)
qed

lemma flow_run_rank: "flow_run cfg as s = Some s' \<Longrightarrow> length as + flow_rank cfg s' \<le> flow_rank cfg s"
proof (induction as arbitrary: s)
  case (Cons a as)
  then obtain s1 where s1: "flow_step cfg a s = Some s1" "flow_run cfg as s1 = Some s'" by (auto split: option.splits)
  then show ?case using Cons.IH [OF s1(2)] flow_step_rank [OF s1(1)] by simp
qed simp

text \<open>As long as a task is not over, some task can act: the tasks cannot wait for each other.\<close>

lemma ready_task_acts:
  assumes "dag_inv cfg s" "u \<in> flow_nodes cfg" "dx_tasks s u = Ready" "dag_ok cfg"
  shows "\<exists>a s'. flow_step cfg a s = Some s'"
proof (cases "running_tasks cfg s = {}")
  case True
  then have "\<And>n. fc_limit cfg = Some n \<Longrightarrow> dx_borrowed s < n" using assms(1,4) by (auto simp: dag_inv_def dag_ok_def)
  then have "flow_step cfg (Advance u) s \<noteq> None" using assms(2,3) by (auto split: option.splits)
  then show ?thesis by blast
next
  case False
  then obtain v where "v \<in> flow_nodes cfg" "dx_tasks s v = Running" by (auto simp: running_tasks_def)
  then have "flow_step cfg (Finish v 0 0 out) s \<noteq> None" for out by simp
  then show ?thesis by blast
qed

lemma some_task_acts:
  assumes ok: "dag_ok cfg" and inv: "dag_inv cfg s" and acyc: "acyclic (arcs (fc_graph cfg))"
    and u: "u \<in> flow_nodes cfg" "\<not> task_over (dx_tasks s u)"
  shows "\<exists>a s'. flow_step cfg a s = Some s'"
proof -
  let ?r = "arcs (fc_graph cfg)" and ?open = "{u \<in> flow_nodes cfg. \<not> task_over (dx_tasks s u)}"
  have "?r \<subseteq> flow_nodes cfg \<times> flow_nodes cfg" using ok arcs_nodes by (auto simp: dag_ok_def)
  then have "wf ?r" using acyc by (intro finite_acyclic_wf) (auto intro: finite_subset)
  then obtain v where v: "v \<in> ?open" "\<And>p. (p, v) \<in> ?r \<Longrightarrow> p \<notin> ?open" using u wfE_min [of ?r u ?open] by blast
  have sig: "preds cfg v \<subseteq> dx_signalled s"
  proof
    fix p assume "p \<in> preds cfg v"
    then have "p \<in> flow_nodes cfg" "p \<notin> ?open" using v(2) ok arcs_nodes by (auto simp: preds_def dag_ok_def)
    then show "p \<in> dx_signalled s" using inv by (auto simp: dag_inv_def)
  qed
  have vn: "v \<in> flow_nodes cfg" using v(1) by simp
  show ?thesis
  proof (cases "dx_tasks s v")
    case NotStarted
    then have "flow_step cfg (Advance v) s \<noteq> None" using vn by (simp split: sum.splits)
    then show ?thesis by blast
  next
    case (Waiting ps)
    then have "set ps \<subseteq> dx_signalled s" using dag_inv_waited [OF inv vn] sig by auto
    then have "flow_step cfg (Advance v) s \<noteq> None" using vn Waiting by (cases ps) auto
    then show ?thesis by blast
  next
    case Ready
    then show ?thesis by (rule ready_task_acts [OF inv vn _ ok])
  next
    case Running
    then have "flow_step cfg (Finish v 0 0 out) s \<noteq> None" for out using vn by simp
    then show ?thesis by blast
  qed (use v(1) in auto)
qed


section \<open>Results\<close>

text \<open>Only a task that is over has a result or an error, never both, and a result is the response of a completed operation.\<close>

definition outcome_ok :: "('r, 'd) executor \<Rightarrow> uuid \<Rightarrow> bool" where
  "outcome_ok s u \<longleftrightarrow>
     (\<not> task_over (dx_tasks s u) \<longrightarrow> map_of (dx_results s) u = None \<and> map_of (dx_errors s) u = None) \<and>
     (\<forall>r. map_of (dx_results s) u = Some r \<longrightarrow>
        map_of (dx_errors s) u = None \<and> ex_status (dx_operations s u) = COMPLETED \<and> ex_response (dx_operations s u) = r)"

lemma enter_operation_outcome:
  "outcome_ok s u \<Longrightarrow> \<not> task_over (dx_tasks s u) \<Longrightarrow> outcome_ok (enter_operation cfg u s) u"
  by (auto simp: outcome_ok_def enter_operation_def fail_task_def)

lemma flow_step_outcome:
  assumes step: "flow_step cfg a s = Some s'" and out: "\<And>v. outcome_ok s v"
  shows "outcome_ok s' v"
proof (cases "v = action_task a")
  case False
  then have "dx_tasks s' v = dx_tasks s v \<and> map_of (dx_results s') v = map_of (dx_results s) v \<and>
      map_of (dx_errors s') v = map_of (dx_errors s) v \<and> dx_operations s' v = dx_operations s v"
  proof (cases a)
    case (Advance u)
    then have "task_advance cfg u (dx_tasks s u) s = Some s'" using step by (auto split: if_splits)
    then show ?thesis using False Advance
      by (cases "(cfg, u, dx_tasks s u, s)" rule: task_advance.cases)
        (auto simp: fail_task_def enter_operation_def split: if_splits option.splits sum.splits)
  next
    case (Finish u x y out)
    then show ?thesis using step False by (auto simp: finish_operation_def case_prod_beta Let_def split: if_splits option.splits)
  qed (use step False in \<open>auto simp: cancel_task_def split: if_splits\<close>)
  then show ?thesis using out [of v] by (simp add: outcome_ok_def)
next
  case True
  have v: "outcome_ok s v" by (rule out)
  show ?thesis
  proof (cases a)
    case (Advance u)
    then have a: "task_advance cfg u (dx_tasks s u) s = Some s'" "u = v" using step True by (auto split: if_splits)
    show ?thesis
    proof (cases "(cfg, u, dx_tasks s u, s)" rule: task_advance.cases)
      case 4
      then show ?thesis using a v enter_operation_outcome [of s v cfg] by (auto split: option.splits if_splits)
    qed (use a v in \<open>auto simp: outcome_ok_def fail_task_def split: if_splits sum.splits\<close>)
  next
    case (Finish u x y o')
    then have "u = v" "dx_tasks s v = Running" "s' = finish_operation cfg v x y o' s" using step True by (auto split: if_splits)
    then show ?thesis using v by (auto simp: outcome_ok_def finish_operation_def case_prod_beta Let_def split: if_splits option.splits)
  next
    case (Cancel u x y)
    then have "\<not> task_over (dx_tasks s v)" "s' = cancel_task cfg v x y s" using step True by (auto split: if_splits task.splits)
    then show ?thesis using v by (auto simp: outcome_ok_def cancel_task_def)
  qed
qed

lemma flow_run_outcome: "flow_run cfg as s = Some s' \<Longrightarrow> (\<And>v. outcome_ok s v) \<Longrightarrow> outcome_ok s' v"
proof (induction as arbitrary: s)
  case (Cons a as)
  then obtain s1 where "flow_step cfg a s = Some s1" "flow_run cfg as s1 = Some s'" by (auto split: option.splits)
  then show ?case using Cons.IH [of s1] flow_step_outcome [of cfg a s s1] Cons.prems(2) by blast
qed simp

text \<open>If every operation has a branch and no interrupt occurs, no task escapes, so none is cancelled.\<close>

definition plain_action :: "('r, 'd) flow_action \<Rightarrow> bool" where
  "plain_action a \<longleftrightarrow> (\<forall>u x y out. a = Finish u x y out \<longrightarrow> escaping out = None)"

definition undisturbed :: "'b flow_config \<Rightarrow> ('r, 'd) executor \<Rightarrow> bool" where
  "undisturbed cfg s \<longleftrightarrow> (\<forall>u\<in>flow_nodes cfg. dx_tasks s u \<noteq> Aborted \<and> (\<forall>e. dx_tasks s u \<noteq> Escaped e))"

lemma flow_step_undisturbed:
  assumes "dag_ok cfg" "dag_inv cfg s" "flow_step cfg a s = Some s'" "undisturbed cfg s" "plain_action a" "\<forall>u\<in>flow_nodes cfg. branch_of cfg u \<noteq> None"
  shows "undisturbed cfg s'"
proof -
  obtain t where t: "task_moves cfg (action_task a) t s s'" "\<forall>e. t = Escaped e \<longrightarrow> raised_by cfg a e" "t = Aborted \<longrightarrow> group_cancelled cfg s"
    using flow_step_moves [OF assms(1-3)] by blast
  have u: "action_task a \<in> flow_nodes cfg" using t(1) by (simp add: task_moves_def)
  have keys: "set (pile_keys (gh_nodes (fc_graph cfg))) = flow_nodes cfg" using pile_keys_ok assms(1) by (auto simp: dag_ok_def)
  have "\<not> group_cancelled cfg s" using assms(4) by (auto simp: group_cancelled_def undisturbed_def list_ex_iff keys split: task.splits)
  moreover have "\<not> raised_by cfg a e" for e using assms(5,6) u by (auto simp: raised_by_def plain_action_def)
  ultimately show ?thesis using t assms(4) by (auto simp: undisturbed_def task_moves_def)
qed

lemma flow_run_undisturbed:
  assumes "dag_ok cfg" "dag_inv cfg s" "undisturbed cfg s" "\<forall>u\<in>flow_nodes cfg. branch_of cfg u \<noteq> None" "list_all plain_action as" "flow_run cfg as s = Some s'"
  shows "undisturbed cfg s'"
  using assms(2,3,5,6)
proof (induction as arbitrary: s)
  case (Cons a as)
  then obtain s1 where s1: "flow_step cfg a s = Some s1" "flow_run cfg as s1 = Some s'" by (auto split: option.splits)
  show ?case
    using Cons.IH [OF flow_step_inv [OF assms(1) Cons.prems(1) s1(1)] flow_step_undisturbed [OF assms(1) Cons.prems(1) s1(1) Cons.prems(2) _ assms(4)] _ s1(2)] Cons.prems(3)
    by simp
qed simp

section \<open>Properties\<close>

text \<open>C7: Whatever the interleaving, an operation is under way or has ended normally only if all its predecessors are over, and never more operations
  are under way than the limiter has slots.\<close>

theorem operations_in_order:
  assumes "reachable_graph (fc_graph cfg)" "lists_sets (fc_iter cfg)" "resolve_limit max_concurrent = Inr (fc_limit cfg)"
    "start_execution sub cfg ops = Inr s0" "flow_run cfg as s0 = Some s"
  shows "(\<forall>(p, u)\<in>arcs (fc_graph cfg). dx_tasks s u = Running \<or> dx_tasks s u = Ended \<longrightarrow> task_over (dx_tasks s p)) \<and>
    (\<forall>n. fc_limit cfg = Some n \<longrightarrow> int (card {u. u \<in> node_ids (fc_graph cfg) \<and> dx_tasks s u = Running}) \<le> n)"
proof -
  have ok: "dag_ok cfg" by (rule reachable_dag_ok [OF assms(1-3)])
  have inv: "dag_inv cfg s" by (rule flow_run_inv [OF ok start_execution_inv(1) [OF assms(4) ok] assms(5)])
  have "task_over (dx_tasks s p)" if pu: "(p, u) \<in> arcs (fc_graph cfg)" "dx_tasks s u = Running \<or> dx_tasks s u = Ended" for p u
  proof -
    have "u \<in> flow_nodes cfg" using ok pu(1) arcs_nodes by (auto simp: dag_ok_def)
    then have "preds cfg u \<subseteq> dx_signalled s" using dag_inv_waited [OF inv, of u] pu(2) by auto
    then have "p \<in> dx_signalled s" using pu(1) by (auto simp: preds_def)
    then show ?thesis using inv by (auto simp: dag_inv_def)
  qed
  moreover have "int (card (running_tasks cfg s)) \<le> n" if "fc_limit cfg = Some n" for n using inv that by (auto simp: dag_inv_def)
  ultimately show ?thesis by (auto simp: running_tasks_def)
qed

text \<open>C8: The executor cannot deadlock or run for ever: the number of actions of a run is bounded, and as long as a task is not over some task can act.
  In the end every operation whose task ended has a result, the response of the completed operation, or an error, and not both.\<close>

theorem flow_completes:
  assumes "reachable_graph (fc_graph cfg)" "lists_sets (fc_iter cfg)" "resolve_limit max_concurrent = Inr (fc_limit cfg)"
    "start_execution sub cfg ops = Inr s0" "flow_run cfg as s0 = Some s"
  shows "length as \<le> flow_rank cfg s0 \<and>
    ((\<exists>a s'. flow_step cfg a s = Some s') \<or> (\<forall>u\<in>node_ids (fc_graph cfg). task_over (dx_tasks s u))) \<and>
    (\<forall>u\<in>node_ids (fc_graph cfg). dx_tasks s u = Ended \<longrightarrow>
       (case map_of (dx_results s) u of
          Some r \<Rightarrow> map_of (dx_errors s) u = None \<and> ex_status (dx_operations s u) = COMPLETED \<and> ex_response (dx_operations s u) = r
        | None \<Rightarrow> map_of (dx_errors s) u \<noteq> None))"
proof -
  have ok: "dag_ok cfg" by (rule reachable_dag_ok [OF assms(1-3)])
  note start = start_execution_inv [OF assms(4) ok]
  have inv: "dag_inv cfg s" by (rule flow_run_inv [OF ok start(1) assms(5)])
  have "outcome_ok s0 v" for v using assms(4) by (auto simp: start_execution_def outcome_ok_def split: sum.splits bool.splits option.splits)
  then have out: "outcome_ok s u" for u by (rule flow_run_outcome [OF assms(5)])
  show ?thesis
  proof (intro conjI ballI impI)
    show "length as \<le> flow_rank cfg s0" using flow_run_rank [OF assms(5)] by simp
    show "(\<exists>a s'. flow_step cfg a s = Some s') \<or> (\<forall>u\<in>node_ids (fc_graph cfg). task_over (dx_tasks s u))"
      using some_task_acts [OF ok inv start(3)] by blast
    fix u assume "u \<in> node_ids (fc_graph cfg)" "dx_tasks s u = Ended"
    then have "map_of (dx_results s) u \<noteq> None \<or> map_of (dx_errors s) u \<noteq> None" using inv unfolding dag_inv_def by blast
    then show "case map_of (dx_results s) u of
          Some r \<Rightarrow> map_of (dx_errors s) u = None \<and> ex_status (dx_operations s u) = COMPLETED \<and> ex_response (dx_operations s u) = r
        | None \<Rightarrow> map_of (dx_errors s) u \<noteq> None"
      using out [of u] by (auto simp: outcome_ok_def split: option.splits)
  qed
qed

text \<open>An operation that fails stops nothing, even with \<open>stop_on_error\<close>: if every operation has a branch and none is interrupted, no task raises or is
  cancelled, so when nothing more can happen every operation has run, the dependents of failed operations included.\<close>

theorem failures_stop_nothing:
  assumes "reachable_graph (fc_graph cfg)" "lists_sets (fc_iter cfg)" "resolve_limit max_concurrent = Inr (fc_limit cfg)"
    "start_execution sub cfg ops = Inr s0" "flow_run cfg as s0 = Some s"
    "\<forall>u\<in>node_ids (fc_graph cfg). branch_of cfg u \<noteq> None" "list_all plain_action as" "\<forall>a. flow_step cfg a s = None"
  shows "\<forall>u\<in>node_ids (fc_graph cfg). dx_tasks s u = Ended"
proof -
  have ok: "dag_ok cfg" by (rule reachable_dag_ok [OF assms(1-3)])
  note start = start_execution_inv [OF assms(4) ok]
  have inv: "dag_inv cfg s" by (rule flow_run_inv [OF ok start(1) assms(5)])
  have "undisturbed cfg s0" by (simp add: undisturbed_def start(2))
  then have "undisturbed cfg s" by (rule flow_run_undisturbed [OF ok start(1) _ assms(6,7,5)])
  moreover have "task_over (dx_tasks s u)" if "u \<in> flow_nodes cfg" for u
    using some_task_acts [OF ok inv start(3) that] assms(8) by auto
  ultimately show ?thesis unfolding undisturbed_def using task_over.elims(2) by metis
qed


section \<open>A sample run\<close>

text \<open>Two operations, the second after the first, one slot, and \<open>stop_on_error\<close>; the first fails, the second runs all the same.\<close>

definition sample_op :: "uuid \<Rightarrow> unit op_node" where
  "sample_op u = \<lparr>el_id = u, el_type = ''Operation'', on_name = None, on_branch = None\<rparr>"

definition empty_ops :: "unit op_graph" where
  "empty_ops = \<lparr>gh_nodes = empty_pile None False, gh_edges = empty_pile None False, gh_out = [], gh_in = []\<rparr>"

definition sample_ops :: "unit op_graph" where
  "sample_ops = snd (add_edge (=) (edge_between ''x'' ''a'' ''b'') (snd (add_node (=) (sample_op ''b'') (snd (add_node (=) (sample_op ''a'') empty_ops)))))"

definition sample_flow_config :: "unit flow_config" where
  "sample_flow_config =
    \<lparr>fc_graph = sample_ops, fc_iter = sorted_list_of_set, fc_limit = Some 1, fc_stop_on_error = True,
     fc_branches = preallocate_branches (\<lambda>_. None) None (Some ()) [sample_op ''a'', sample_op ''b''], fc_timeout_text = \<lambda>_. ''Unset''\<rparr>"

definition sample_schedule :: "(nat, unit) flow_action list" where
  "sample_schedule =
    [Advance ''b'', Advance ''a'', Advance ''a'', Advance ''a'', Finish ''a'' 0 0 (InvokeRaised (Exc ''ValueError'' ''boom'')),
     Advance ''b'', Advance ''b'', Advance ''b'', Finish ''b'' 0 0 (InvokeReturned (Some 7))]"

definition sample_start :: "(nat, unit) executor" where
  "sample_start = \<lparr>dx_results = [], dx_errors = [], dx_signalled = {}, dx_operations = \<lambda>_. new_execution, dx_tasks = \<lambda>_. NotStarted, dx_borrowed = 0\<rparr>"

lemma sample_ops_reachable: "reachable_graph sample_ops"
proof -
  have "new_graph (empty_pile None False) (empty_pile None False) = Inr empty_ops"
    by (simp add: empty_ops_def new_graph_def rebuild_adjacency_def pile_keys_def empty_pile_def new_progression_def bind_r_def)
  then have "reachable_graph empty_ops"
    by (rule reachable_graph.start [rotated 3]) (simp_all only: empty_pile_ok, simp add: empty_pile_def)
  then show ?thesis unfolding sample_ops_def by (intro reachable_graph.add_node reachable_graph.add_edge)
qed

lemma sample_config:
  "reachable_graph (fc_graph sample_flow_config)" "lists_sets (fc_iter sample_flow_config)" "resolve_limit (Some 1) = Inr (fc_limit sample_flow_config)"
  by (simp_all add: sample_flow_config_def sample_ops_reachable sorted_lists_sets resolve_limit_def)

lemma sample_started: "start_execution (=) sample_flow_config (\<lambda>_. new_execution) = Inr sample_start"
proof -
  have "is_acyclic (fc_iter sample_flow_config) (fc_graph sample_flow_config) = Inr True" by code_simp
  moreover have "map_sum id (map (is_operation (=))) (pile_list (gh_nodes (fc_graph sample_flow_config))) = Inr [True, True]" by code_simp
  ultimately show ?thesis
    by (auto simp: start_execution_def sample_start_def find_first_None_iff split: sum.splits option.splits)
qed

lemma sample_finished:
  "map_option (\<lambda>s. (dx_results s, dx_errors s, map (dx_tasks s) [''a'', ''b''])) (flow_run sample_flow_config sample_schedule sample_start) =
    Some ([(''b'', Some 7)], [(''a'', Exc ''RuntimeError'' ''Execution status: failed - boom'')], [Ended, Ended])"
  by code_simp

lemma sample_arc: "(''a'', ''b'') \<in> arcs (fc_graph sample_flow_config)"
proof -
  have "map_option (\<lambda>e. (ed_head e, ed_tail e)) (edge_of (fc_graph sample_flow_config) ''x'') = Some (''a'', ''b'')" by code_simp
  then show ?thesis by (auto simp: arcs_def intro!: exI [of _ "the (edge_of (fc_graph sample_flow_config) ''x'')"] exI [of _ "''x''"])
qed

lemma sample_nodes: "node_ids (fc_graph sample_flow_config) = {''a'', ''b''}"
proof -
  have "pile_keys (gh_nodes (fc_graph sample_flow_config)) = [''a'', ''b'']" by code_simp
  then show ?thesis using pile_keys_ok [OF reachable_graph_ok [OF sample_config(1)]] by simp
qed

theorem operations_in_order_witness:
  "\<exists>s. flow_run sample_flow_config (take 8 sample_schedule) sample_start = Some s \<and> dx_tasks s ''b'' = Running \<and> task_over (dx_tasks s ''a'')"
proof -
  have "map_option (\<lambda>s. dx_tasks s ''b'') (flow_run sample_flow_config (take 8 sample_schedule) sample_start) = Some Running" by code_simp
  then obtain s where s: "flow_run sample_flow_config (take 8 sample_schedule) sample_start = Some s" "dx_tasks s ''b'' = Running" by auto
  then show ?thesis using operations_in_order [OF sample_config sample_started s(1)] sample_arc by blast
qed

theorem flow_completes_witness:
  "\<exists>s. flow_run sample_flow_config sample_schedule sample_start = Some s \<and> length sample_schedule \<le> flow_rank sample_flow_config sample_start \<and>
     ex_response (dx_operations s ''b'') = Some 7 \<and> map_of (dx_errors s) ''a'' \<noteq> None"
proof -
  obtain s where s: "flow_run sample_flow_config sample_schedule sample_start = Some s" "dx_results s = [(''b'', Some 7)]" "map (dx_tasks s) [''a'', ''b''] = [Ended, Ended]"
    using sample_finished by auto
  have "case map_of (dx_results s) u of
      Some r \<Rightarrow> map_of (dx_errors s) u = None \<and> ex_status (dx_operations s u) = COMPLETED \<and> ex_response (dx_operations s u) = r
    | None \<Rightarrow> map_of (dx_errors s) u \<noteq> None" if "u \<in> {''a'', ''b''}" for u
    using flow_completes [OF sample_config sample_started s(1)] s(3) that unfolding sample_nodes by auto
  from this [of "''a''"] this [of "''b''"] show ?thesis
    using s flow_completes [OF sample_config sample_started s(1)] by simp
qed

theorem failures_stop_nothing_witness:
  "\<exists>s. flow_run sample_flow_config sample_schedule sample_start = Some s \<and> fc_stop_on_error sample_flow_config \<and> map_of (dx_errors s) ''a'' \<noteq> None \<and> dx_tasks s ''b'' = Ended"
proof -
  obtain s where s: "flow_run sample_flow_config sample_schedule sample_start = Some s" "map_of (dx_errors s) ''a'' \<noteq> None" "map (dx_tasks s) [''a'', ''b''] = [Ended, Ended]"
    using sample_finished by auto
  have stuck: "\<forall>a. flow_step sample_flow_config a s = None"
  proof
    fix a show "flow_step sample_flow_config a s = None" using s(3) by (cases a) (auto simp: sample_nodes)
  qed
  have "branch_of sample_flow_config ''a'' = Some ()" "branch_of sample_flow_config ''b'' = Some ()" by code_simp+
  moreover have "list_all plain_action sample_schedule" by (auto simp: sample_schedule_def plain_action_def)
  ultimately have "\<forall>u\<in>node_ids (fc_graph sample_flow_config). dx_tasks s u = Ended"
    using failures_stop_nothing [OF sample_config sample_started s(1) _ _ stuck] by (simp add: sample_nodes)
  moreover have "fc_stop_on_error sample_flow_config" by (simp add: sample_flow_config_def)
  ultimately show ?thesis using s(1,2) by (auto simp: sample_nodes)
qed

end
