(* ===== verification/Decision_Cache.thy ===== *)
theory Decision_Cache
  imports Resilience Py_Text "HOL-Library.List_Lexorder" "HOL-Library.Char_ord"
begin

text \<open>
  The cache of governance decisions (\<open>libs/canon/src/canon/utils/cache.py\<close>). Every operation holds the lock from its first access to the store to its
  last, so an operation is one step; the clock readings are arguments. Serialising a context and hashing it is the argument \<open>digest\<close>.
\<close>

section \<open>Keys\<close>

record CacheKey =
  ck_kind :: string
  ck_id :: string
  ck_tenant_id :: string
  ck_scope :: string
  ck_context_hash :: string

definition volatile_keys :: "string list" where
  "volatile_keys = [''timestamp'', ''request_id'', ''correlation_id'', ''created_at'', ''updated_at'']"

text \<open>\<open>_hash_context\<close>: the stable entries in the order of their keys, without those that are \<open>None\<close>.\<close>

definition hash_context :: "((string \<times> 'v) list \<Rightarrow> string) \<Rightarrow> (string, 'v option) dict \<Rightarrow> string" where
  "hash_context digest context =
    digest (List.map_filter (\<lambda>(k, v). if k \<in> set volatile_keys then None else map_option (Pair k) v) (sort_key fst context))"

definition context_key :: "((string \<times> 'v) list \<Rightarrow> string) \<Rightarrow> (string, 'v option) dict option \<Rightarrow> string" where
  "context_key digest context =
    (case context of None \<Rightarrow> ''none'' | Some c \<Rightarrow> if c = [] then ''none'' else hash_context digest c)"

definition for_gate :: "((string \<times> 'v) list \<Rightarrow> string) \<Rightarrow> string \<Rightarrow> string \<Rightarrow> string \<Rightarrow> (string, 'v option) dict option \<Rightarrow> CacheKey" where
  "for_gate digest gate_id tenant_id scope context =
    \<lparr>ck_kind = ''gate'', ck_id = gate_id, ck_tenant_id = tenant_id, ck_scope = scope, ck_context_hash = context_key digest context\<rparr>"

definition for_policy :: "((string \<times> 'v) list \<Rightarrow> string) \<Rightarrow> string \<Rightarrow> string \<Rightarrow> string \<Rightarrow> (string, 'v option) dict option \<Rightarrow> CacheKey" where
  "for_policy digest policy_id tenant_id scope input_data =
    \<lparr>ck_kind = ''policy'', ck_id = policy_id, ck_tenant_id = tenant_id, ck_scope = scope, ck_context_hash = context_key digest input_data\<rparr>"

definition key_str :: "CacheKey \<Rightarrow> string" where
  "key_str k = ck_kind k @ '':'' @ ck_id k @ '':'' @ ck_tenant_id k @ '':'' @ ck_scope k @ '':'' @ ck_context_hash k"

section \<open>The store\<close>

record DecisionCacheConfig =
  cf_max_size :: int
  cf_default_ttl :: rat
  cf_gate_ttl :: rat
  cf_policy_ttl :: rat
  cf_enabled :: bool

record 'v CacheEntry =
  ce_value :: 'v
  ce_created_at :: rat
  ce_ttl :: rat
  ce_hits :: int

definition entry_age :: "rat \<Rightarrow> 'v CacheEntry \<Rightarrow> rat" where
  "entry_age now e = float_sub now (ce_created_at e)"

definition entry_expired :: "rat \<Rightarrow> 'v CacheEntry \<Rightarrow> bool" where
  "entry_expired now e \<longleftrightarrow> entry_age now e > ce_ttl e"

record 'v DecisionCache =
  dc_config :: DecisionCacheConfig
  dc_cache :: "(string, 'v CacheEntry) dict"
  dc_hits :: int
  dc_misses :: int
  dc_evictions :: int

definition new_cache :: "DecisionCacheConfig \<Rightarrow> 'v DecisionCache" where
  "new_cache cfg = \<lparr>dc_config = cfg, dc_cache = [], dc_hits = 0, dc_misses = 0, dc_evictions = 0\<rparr>"

record cache_metrics =
  mt_hits :: int
  mt_misses :: int
  mt_evictions :: int
  mt_size :: nat
  mt_max_size :: int
  mt_hit_rate :: py_float

definition metrics :: "'v DecisionCache \<Rightarrow> cache_metrics" where
  "metrics c =
    (let requests = dc_hits c + dc_misses c
     in \<lparr>mt_hits = dc_hits c, mt_misses = dc_misses c, mt_evictions = dc_evictions c, mt_size = length (dc_cache c),
         mt_max_size = cf_max_size (dc_config c),
         mt_hit_rate = (if requests > 0 \<and> dc_hits c > 0 then round_double (of_int (dc_hits c) / of_int requests) else Finite 0)\<rparr>)"

definition cache_get :: "rat \<Rightarrow> CacheKey \<Rightarrow> 'v DecisionCache \<Rightarrow> 'v option \<times> 'v DecisionCache" where
  "cache_get now key c =
    (if \<not> cf_enabled (dc_config c) then (None, c)
     else
       (case map_of (dc_cache c) (key_str key) of
          None \<Rightarrow> (None, c\<lparr>dc_misses := dc_misses c + 1\<rparr>)
        | Some e \<Rightarrow>
            if entry_expired now e then (None, c\<lparr>dc_cache := dict_pop (key_str key) (dc_cache c), dc_misses := dc_misses c + 1\<rparr>)
            else (Some (ce_value e),
                  c\<lparr>dc_cache := dict_set (key_str key) (e\<lparr>ce_hits := ce_hits e + 1\<rparr>) (dc_cache c), dc_hits := dc_hits c + 1\<rparr>)))"

text \<open>\<open>min\<close> over the keys by the time of creation: the first of the oldest.\<close>

fun oldest :: "(string, 'v CacheEntry) dict \<Rightarrow> string option" where
  "oldest [] = None"
| "oldest ((k, e) # d) =
    (case oldest d of
       None \<Rightarrow> Some k
     | Some k' \<Rightarrow> (case map_of d k' of None \<Rightarrow> Some k | Some e' \<Rightarrow> if ce_created_at e' < ce_created_at e then Some k' else Some k))"

definition evict_oldest :: "'v DecisionCache \<Rightarrow> 'v DecisionCache" where
  "evict_oldest c =
    (case oldest (dc_cache c) of
       None \<Rightarrow> c
     | Some k \<Rightarrow> c\<lparr>dc_cache := dict_pop k (dc_cache c), dc_evictions := dc_evictions c + 1\<rparr>)"

definition key_ttl :: "CacheKey \<Rightarrow> rat option \<Rightarrow> DecisionCacheConfig \<Rightarrow> rat" where
  "key_ttl key ttl cfg =
    (case ttl of
       Some t \<Rightarrow> t
     | None \<Rightarrow> if ck_kind key = ''gate'' then cf_gate_ttl cfg else if ck_kind key = ''policy'' then cf_policy_ttl cfg else cf_default_ttl cfg)"

definition cache_set :: "rat \<Rightarrow> CacheKey \<Rightarrow> 'v \<Rightarrow> rat option \<Rightarrow> 'v DecisionCache \<Rightarrow> 'v DecisionCache" where
  "cache_set now key value ttl c =
    (if \<not> cf_enabled (dc_config c) then c
     else
       (let c1 = (if int (length (dc_cache c)) \<ge> cf_max_size (dc_config c) then evict_oldest c else c)
        in c1\<lparr>dc_cache := dict_set (key_str key)
                \<lparr>ce_value = value, ce_created_at = now, ce_ttl = key_ttl key ttl (dc_config c), ce_hits = 0\<rparr> (dc_cache c1)\<rparr>))"

definition invalidate :: "CacheKey \<Rightarrow> 'v DecisionCache \<Rightarrow> bool \<times> 'v DecisionCache" where
  "invalidate key c =
    (if map_of (dc_cache c) (key_str key) \<noteq> None then (True, c\<lparr>dc_cache := dict_pop (key_str key) (dc_cache c)\<rparr>) else (False, c))"

text \<open>The operations that collect keys and delete them one by one.\<close>

definition remove_keys :: "(string \<times> 'v CacheEntry \<Rightarrow> bool) \<Rightarrow> 'v DecisionCache \<Rightarrow> nat \<times> 'v DecisionCache" where
  "remove_keys P c =
    (let ks = map fst (filter P (dc_cache c)) in (length ks, c\<lparr>dc_cache := foldl (\<lambda>d k. dict_pop k d) (dc_cache c) ks\<rparr>))"

definition invalidate_by_prefix :: "string \<Rightarrow> 'v DecisionCache \<Rightarrow> nat \<times> 'v DecisionCache" where
  "invalidate_by_prefix p c = remove_keys (\<lambda>(k, _). py_startswith p k) c"

definition invalidate_by_tenant :: "string \<Rightarrow> 'v DecisionCache \<Rightarrow> nat \<times> 'v DecisionCache" where
  "invalidate_by_tenant tenant_id c = remove_keys (\<lambda>(k, _). py_contains ('':'' @ tenant_id @ '':'') k) c"

definition cleanup_expired :: "rat \<Rightarrow> 'v DecisionCache \<Rightarrow> nat \<times> 'v DecisionCache" where
  "cleanup_expired now c = remove_keys (\<lambda>(_, e). entry_expired now e) c"

definition cache_clear :: "'v DecisionCache \<Rightarrow> nat \<times> 'v DecisionCache" where
  "cache_clear c = (length (dc_cache c), c\<lparr>dc_cache := []\<rparr>)"

section \<open>Histories\<close>

datatype 'v cache_op =
    OpGet rat CacheKey
  | OpSet rat CacheKey 'v "rat option"
  | OpInvalidate CacheKey
  | OpPrefix string
  | OpTenant string
  | OpCleanup rat
  | OpClear

fun cache_step :: "'v DecisionCache \<Rightarrow> 'v cache_op \<Rightarrow> 'v DecisionCache" where
  "cache_step c (OpGet now key) = snd (cache_get now key c)"
| "cache_step c (OpSet now key v ttl) = cache_set now key v ttl c"
| "cache_step c (OpInvalidate key) = snd (invalidate key c)"
| "cache_step c (OpPrefix p) = snd (invalidate_by_prefix p c)"
| "cache_step c (OpTenant t) = snd (invalidate_by_tenant t c)"
| "cache_step c (OpCleanup now) = snd (cleanup_expired now c)"
| "cache_step c OpClear = snd (cache_clear c)"

text \<open>
  What a cache without a bound and without a clock would hold: for every key text the last value stored under it that was not invalidated since,
  with the key it was stored under, its time and its time to live.
\<close>

type_synonym 'v ledger = "string \<rightharpoonup> CacheKey \<times> 'v \<times> rat \<times> rat"

fun ledger_step :: "DecisionCacheConfig \<Rightarrow> 'v ledger \<Rightarrow> 'v cache_op \<Rightarrow> 'v ledger" where
  "ledger_step cfg l (OpSet now key v ttl) = (if cf_enabled cfg then l(key_str key \<mapsto> (key, v, now, key_ttl key ttl cfg)) else l)"
| "ledger_step cfg l (OpInvalidate key) = l(key_str key := None)"
| "ledger_step cfg l (OpPrefix p) = (\<lambda>k. if py_startswith p k then None else l k)"
| "ledger_step cfg l (OpTenant t) = (\<lambda>k. if py_contains ('':'' @ t @ '':'') k then None else l k)"
| "ledger_step cfg l OpClear = (\<lambda>_. None)"
| "ledger_step cfg l _ = l"

definition ledger_of :: "DecisionCacheConfig \<Rightarrow> 'v cache_op list \<Rightarrow> 'v ledger" where
  "ledger_of cfg ops = foldl (ledger_step cfg) (\<lambda>_. None) ops"

definition cache_of :: "DecisionCacheConfig \<Rightarrow> 'v cache_op list \<Rightarrow> 'v DecisionCache" where
  "cache_of cfg ops = foldl cache_step (new_cache cfg) ops"

section \<open>The invariant\<close>

lemma foldl_dict_pop: "foldl (\<lambda>d k. dict_pop k d) d ks = filter (\<lambda>e. fst e \<notin> set ks) d"
  by (induction ks arbitrary: d) (auto simp: dict_pop_def intro: filter_cong)

lemma remove_keys_filter:
  assumes "distinct (dict_keys (dc_cache c))"
  shows "remove_keys P c = (length (filter P (dc_cache c)), c\<lparr>dc_cache := filter (\<lambda>e. \<not> P e) (dc_cache c)\<rparr>)"
proof -
  have "fst e \<in> fst ` set (filter P (dc_cache c)) \<longleftrightarrow> P e" if "e \<in> set (dc_cache c)" for e
    using that assms by (auto simp: distinct_map inj_on_def)
  then have "filter (\<lambda>e. fst e \<notin> fst ` set (filter P (dc_cache c))) (dc_cache c) = filter (\<lambda>e. \<not> P e) (dc_cache c)"
    by (intro filter_cong) auto
  then show ?thesis by (simp only: remove_keys_def foldl_dict_pop Let_def set_map length_map)
qed

lemma map_of_filter: "distinct (dict_keys d) \<Longrightarrow> map_of (filter P d) k = Some v \<longleftrightarrow> map_of d k = Some v \<and> P (k, v)"
  by (auto simp: map_of_eq_Some_iff distinct_map_filter)

lemma oldest_mem: "distinct (dict_keys d) \<Longrightarrow> oldest d = Some k \<Longrightarrow> \<exists>e. map_of d k = Some e \<and> (\<forall>k' e'. map_of d k' = Some e' \<longrightarrow> ce_created_at e \<le> ce_created_at e')"
proof (induction d arbitrary: k rule: oldest.induct)
  case (2 k0 e d)
  have d: "distinct (dict_keys d)" "map_of d k0 = None" using "2.prems"(1) by (auto simp: map_of_eq_None_iff)
  show ?case
  proof (cases "oldest d")
    case None
    then have "d = []" by (cases d rule: oldest.cases) (auto split: option.splits if_splits)
    then show ?thesis using "2.prems"(2) by auto
  next
    case (Some k1)
    then obtain e1 where e1: "map_of d k1 = Some e1" "\<forall>k' e'. map_of d k' = Some e' \<longrightarrow> ce_created_at e1 \<le> ce_created_at e'"
      using "2.IH" [OF d(1)] by blast
    then show ?thesis using "2.prems"(2) Some d(2) by (fastforce split: if_splits)
  qed
qed simp

lemma oldest_None: "oldest d = None \<longleftrightarrow> d = []"
  by (cases d rule: oldest.cases) (auto split: option.splits if_splits)

definition cache_ok :: "DecisionCacheConfig \<Rightarrow> 'v DecisionCache \<Rightarrow> bool" where
  "cache_ok cfg c \<longleftrightarrow> dc_config c = cfg \<and> distinct (dict_keys (dc_cache c)) \<and> int (length (dc_cache c)) \<le> max 1 (cf_max_size cfg)"

lemma dict_pop_length: "length (dict_pop k d) \<le> length d" "k \<in> fst ` set d \<Longrightarrow> length (dict_pop k d) < length d"
  by (simp add: dict_pop_def) (induction d; auto simp: dict_pop_def intro: le_imp_less_Suc)

lemma dict_pop_once: "distinct (dict_keys d) \<Longrightarrow> map_of d k = Some e \<Longrightarrow> Suc (length (dict_pop k d)) = length d"
proof (induction d)
  case (Cons x d)
  show ?case
  proof (cases "fst x = k")
    case True
    then have "k \<notin> fst ` set d" using Cons.prems(1) by auto
    then have "filter (\<lambda>e. fst e \<noteq> k) d = d" by (intro filter_True) auto
    then show ?thesis using True by (simp add: dict_pop_def)
  next
    case False
    then have "Suc (length (dict_pop k d)) = length d" using Cons by (cases x) simp
    then show ?thesis using False by (simp add: dict_pop_def)
  qed
qed simp

lemma length_dict_set_known: "map_of d k = Some e \<Longrightarrow> length (dict_set k v d) = length d"
  using map_of_Some_in [of d k e] by (force simp: length_dict_set)

lemma cache_get_ok: "cache_ok cfg c \<Longrightarrow> cache_ok cfg (snd (cache_get now key c))"
  using dict_pop_length(1) [of "key_str key" "dc_cache c"]
  by (auto simp: cache_ok_def cache_get_def dict_pop_distinct distinct_dict_set length_dict_set_known split: option.splits)

lemma evict_oldest_ok:
  assumes "cache_ok cfg c"
  shows "cache_ok cfg (evict_oldest c)" "length (dc_cache (evict_oldest c)) = length (dc_cache c) - 1"
proof -
  have d: "distinct (dict_keys (dc_cache c))" using assms by (simp add: cache_ok_def)
  show "length (dc_cache (evict_oldest c)) = length (dc_cache c) - 1"
  proof (cases "oldest (dc_cache c)")
    case (Some k)
    then obtain e where "map_of (dc_cache c) k = Some e" using oldest_mem [OF d] by blast
    then have "Suc (length (dict_pop k (dc_cache c))) = length (dc_cache c)" by (rule dict_pop_once [OF d])
    then show ?thesis using Some by (simp add: evict_oldest_def)
  qed (simp add: evict_oldest_def oldest_None)
  then show "cache_ok cfg (evict_oldest c)"
    using assms by (auto simp: cache_ok_def evict_oldest_def dict_pop_distinct split: option.splits)
qed

lemma cache_set_ok:
  assumes "cache_ok cfg c"
  shows "cache_ok cfg (cache_set now key v ttl c)"
proof (cases "int (length (dc_cache c)) \<ge> cf_max_size cfg")
  case True
  have "dc_config c = cfg" using assms by (simp add: cache_ok_def)
  then show ?thesis
    using assms True evict_oldest_ok [OF assms] by (auto simp: cache_ok_def cache_set_def Let_def distinct_dict_set length_dict_set)
next
  case False
  then show ?thesis using assms by (auto simp: cache_ok_def cache_set_def Let_def distinct_dict_set length_dict_set)
qed

lemma remove_keys_ok: "cache_ok cfg c \<Longrightarrow> cache_ok cfg (snd (remove_keys P c))"
  using order_trans [of "int (length (filter (\<lambda>e. \<not> P e) (dc_cache c)))" "int (length (dc_cache c))"]
  by (auto simp: cache_ok_def remove_keys_filter distinct_map_filter)

lemma invalidate_ok: "cache_ok cfg c \<Longrightarrow> cache_ok cfg (snd (invalidate key c))"
  using dict_pop_length(1) [of "key_str key" "dc_cache c"] by (auto simp: cache_ok_def invalidate_def dict_pop_distinct)

lemma cache_step_ok: "cache_ok cfg c \<Longrightarrow> cache_ok cfg (cache_step c x)"
  by (cases x)
    (simp_all add: cache_get_ok cache_set_ok invalidate_ok remove_keys_ok invalidate_by_prefix_def invalidate_by_tenant_def cleanup_expired_def,
     simp add: cache_ok_def cache_clear_def)

lemma cache_of_ok: "cache_ok cfg (cache_of cfg ops)"
proof -
  have "cache_ok cfg c \<Longrightarrow> cache_ok cfg (foldl cache_step c ops)" for c by (induction ops arbitrary: c) (auto simp: cache_step_ok)
  then show ?thesis by (simp add: cache_of_def cache_ok_def new_cache_def)
qed

section \<open>Refinement\<close>

definition backed_by :: "'v ledger \<Rightarrow> 'v DecisionCache \<Rightarrow> bool" where
  "backed_by l c \<longleftrightarrow>
     (\<forall>k e. map_of (dc_cache c) k = Some e \<longrightarrow> (\<exists>key. l k = Some (key, ce_value e, ce_created_at e, ce_ttl e) \<and> key_str key = k))"

lemma remove_keys_backed:
  assumes "cache_ok cfg c" "backed_by l c" "\<And>k e. map_of (dc_cache c) k = Some e \<Longrightarrow> \<not> P (k, e) \<Longrightarrow> l' k = l k"
  shows "backed_by l' (snd (remove_keys P c))"
  using assms by (auto simp: backed_by_def cache_ok_def remove_keys_filter map_of_filter)

lemma evict_oldest_backed: "backed_by l c \<Longrightarrow> backed_by l (evict_oldest c)"
  by (auto simp: backed_by_def evict_oldest_def map_of_dict_pop split: option.splits if_splits)

lemma cache_step_backed:
  assumes ok: "cache_ok cfg c" and b: "backed_by l c"
  shows "backed_by (ledger_step cfg l x) (cache_step c x)"
proof (cases x)
  case (OpGet now key)
  then show ?thesis using b by (auto simp: backed_by_def cache_get_def map_of_dict_pop split: option.splits if_splits)
next
  case (OpSet now key v ttl)
  have "dc_config c = cfg" using ok by (simp add: cache_ok_def)
  then show ?thesis
    using OpSet b evict_oldest_backed [OF b] by (auto simp: backed_by_def cache_set_def Let_def split: if_splits)
next
  case (OpInvalidate key)
  then show ?thesis using b by (auto simp: backed_by_def invalidate_def map_of_dict_pop split: if_splits)
next
  case (OpPrefix p)
  then show ?thesis by (auto simp: invalidate_by_prefix_def intro!: remove_keys_backed [OF ok b])
next
  case (OpTenant t)
  then show ?thesis by (auto simp: invalidate_by_tenant_def intro!: remove_keys_backed [OF ok b])
next
  case (OpCleanup now)
  then show ?thesis by (simp add: cleanup_expired_def remove_keys_backed [OF ok b])
qed (simp add: cache_clear_def backed_by_def)

lemma cache_of_backed: "backed_by (ledger_of cfg ops) (cache_of cfg ops)"
proof -
  have "cache_ok cfg c \<Longrightarrow> backed_by l c \<Longrightarrow> backed_by (foldl (ledger_step cfg) l ops) (foldl cache_step c ops)" for c l
    by (induction ops arbitrary: c l) (auto simp: cache_step_ok cache_step_backed)
  moreover have "cache_ok cfg (new_cache cfg)" "backed_by (\<lambda>_. None) (new_cache cfg)"
    by (simp_all add: cache_ok_def new_cache_def backed_by_def)
  ultimately show ?thesis by (simp add: cache_of_def ledger_of_def)
qed

fun op_keys :: "'v cache_op \<Rightarrow> CacheKey set" where
  "op_keys (OpSet _ key _ _) = {key}"
| "op_keys _ = {}"

lemma ledger_step_keys: "ledger_step cfg l x k = Some y \<Longrightarrow> fst y \<in> op_keys x \<or> l k = Some y"
  by (cases x) (auto split: if_splits)

lemma ledger_of_keys: "ledger_of cfg ops k = Some y \<Longrightarrow> fst y \<in> (\<Union>x\<in>set ops. op_keys x)"
proof (induction ops rule: rev_induct)
  case (snoc x ops)
  then show ?case using ledger_step_keys [of cfg "ledger_of cfg ops" x k y] by (auto simp: ledger_of_def)
qed (simp add: ledger_of_def)

section \<open>Tenants\<close>

definition plain_key :: "CacheKey \<Rightarrow> bool" where
  "plain_key k \<longleftrightarrow> list_all (\<lambda>s. CHR '':'' \<notin> set s) [ck_kind k, ck_id k, ck_tenant_id k, ck_scope k, ck_context_hash k]"

lemma split_at_colon: "c \<notin> set a \<Longrightarrow> c \<notin> set a' \<Longrightarrow> a @ c # b = a' @ c # b' \<longleftrightarrow> a = a' \<and> b = b'"
  by (induction a arbitrary: a'; case_tac a') auto

lemma key_str_plain: "plain_key k \<Longrightarrow> plain_key k' \<Longrightarrow> key_str k = key_str k' \<Longrightarrow> k = k'"
  by (simp add: plain_key_def key_str_def split_at_colon)

section \<open>Properties\<close>

text \<open>C9: A value that the cache returns is the last value stored under the text of the key that was not invalidated since, and it is not older than its
  time to live. If the parts of the keys in use contain no colon, it was stored under the very key it is asked for, so for the same tenant.\<close>

theorem cache_serves_own_tenant:
  assumes "fst (cache_get now key (cache_of cfg ops)) = Some v" "\<forall>k\<in>insert key (\<Union>x\<in>set ops. op_keys x). plain_key k"
  shows "\<exists>t ttl. ledger_of cfg ops (key_str key) = Some (key, v, t, ttl) \<and> float_sub now t \<le> ttl"
proof -
  obtain e where e: "map_of (dc_cache (cache_of cfg ops)) (key_str key) = Some e" "\<not> entry_expired now e" "v = ce_value e"
    using assms(1) by (auto simp: cache_get_def split: option.splits if_splits)
  then obtain key' where key': "ledger_of cfg ops (key_str key) = Some (key', v, ce_created_at e, ce_ttl e)" "key_str key' = key_str key"
    using cache_of_backed [of cfg ops] by (auto simp: backed_by_def)
  have "key' = key" by (rule key_str_plain [OF _ _ key'(2)]) (use assms(2) ledger_of_keys [OF key'(1)] in auto)
  then show ?thesis using key'(1) e(2) by (auto simp: entry_expired_def entry_age_def)
qed

text \<open>The cache never holds more entries than configured, one at least; storing a value makes it available until its time to live is over, and
  invalidating a tenant leaves none of its decisions.\<close>

theorem cache_bounded_and_fresh:
  "int (length (dc_cache (cache_of cfg ops))) \<le> max 1 (cf_max_size cfg) \<and>
   fst (cache_get now key (cache_of cfg (ops @ [OpSet t key v ttl]))) =
     (if cf_enabled cfg \<and> float_sub now t \<le> key_ttl key ttl cfg then Some v else None) \<and>
   (ck_tenant_id key = tenant \<longrightarrow> fst (cache_get now key (cache_of cfg (ops @ [OpTenant tenant]))) = None)"
proof (intro conjI impI)
  have ok: "cache_ok cfg (cache_of cfg ops)" by (rule cache_of_ok)
  show "int (length (dc_cache (cache_of cfg ops))) \<le> max 1 (cf_max_size cfg)" using ok by (simp add: cache_ok_def)
  have cfg: "dc_config (cache_of cfg ops) = cfg" using ok by (simp add: cache_ok_def)
  have ev: "dc_config (evict_oldest c) = dc_config c" for c :: "'a DecisionCache" by (simp add: evict_oldest_def split: option.splits)
  have last: "cache_of cfg (ops @ [x]) = cache_step (cache_of cfg ops) x" for x by (simp add: cache_of_def)
  show "fst (cache_get now key (cache_of cfg (ops @ [OpSet t key v ttl]))) =
     (if cf_enabled cfg \<and> float_sub now t \<le> key_ttl key ttl cfg then Some v else None)"
    by (simp add: last cache_set_def cfg Let_def cache_get_def ev entry_expired_def entry_age_def not_less)
  assume "ck_tenant_id key = tenant"
  then have "py_contains ('':'' @ tenant @ '':'') (key_str key)"
    using py_contains_append [of "'':'' @ tenant @ '':''" "ck_kind key @ '':'' @ ck_id key" "ck_scope key @ '':'' @ ck_context_hash key"] by (simp add: key_str_def)
  moreover have "dc_cache (cache_of cfg (ops @ [OpTenant tenant])) = filter (\<lambda>e. \<not> py_contains ('':'' @ tenant @ '':'') (fst e)) (dc_cache (cache_of cfg ops))"
    using ok by (simp add: last invalidate_by_tenant_def remove_keys_filter cache_ok_def case_prod_beta)
  ultimately have "map_of (dc_cache (cache_of cfg (ops @ [OpTenant tenant]))) (key_str key) = None"
    using map_of_filter_keys [of "\<lambda>k. \<not> py_contains ('':'' @ tenant @ '':'') k" "dc_cache (cache_of cfg ops)" "key_str key"] by (simp only: not_True_eq_False if_False)
  then show "fst (cache_get now key (cache_of cfg (ops @ [OpTenant tenant]))) = None" by (simp add: cache_get_def)
qed

definition demo_cache_config :: DecisionCacheConfig where
  "demo_cache_config = \<lparr>cf_max_size = 2, cf_default_ttl = 300, cf_gate_ttl = 60, cf_policy_ttl = 300, cf_enabled = True\<rparr>"

definition demo_key :: "string \<Rightarrow> string \<Rightarrow> string \<Rightarrow> CacheKey" where
  "demo_key i t sc = for_gate (\<lambda>_ :: (string \<times> nat) list. ''h'') i t sc None"

theorem cache_serves_own_tenant_witness:
  "\<exists>t ttl. ledger_of demo_cache_config [OpSet 5 (demo_key ''g'' ''t1'' ''s'') (1 :: nat) None] (key_str (demo_key ''g'' ''t1'' ''s'')) =
     Some (demo_key ''g'' ''t1'' ''s'', 1, t, ttl) \<and> float_sub 5 t \<le> ttl"
proof (rule cache_serves_own_tenant)
  show "fst (cache_get 5 (demo_key ''g'' ''t1'' ''s'') (cache_of demo_cache_config [OpSet 5 (demo_key ''g'' ''t1'' ''s'') 1 None])) = Some (1 :: nat)"
    by code_simp
  show "\<forall>k\<in>insert (demo_key ''g'' ''t1'' ''s'') (\<Union>x\<in>set [OpSet 5 (demo_key ''g'' ''t1'' ''s'') (1 :: nat) None]. op_keys x). plain_key k" by code_simp
qed

theorem cache_bounded_and_fresh_witness:
  "fst (cache_get 5 (demo_key ''g'' ''t1'' ''s'') (cache_of demo_cache_config ([OpSet 5 (demo_key ''g'' ''t1'' ''s'') (1 :: nat) None] @ [OpTenant ''t1'']))) = None"
proof -
  have "ck_tenant_id (demo_key ''g'' ''t1'' ''s'') = ''t1''" by (simp add: demo_key_def for_gate_def)
  then show ?thesis by (rule cache_bounded_and_fresh [THEN conjunct2, THEN conjunct2, rule_format])
qed

text \<open>Colons in the parts make keys of different tenants the same: a decision stored for the tenant \<open>t2\<close> is served to \<open>t1\<close>.\<close>

lemma decision_of_other_tenant:
  "fst (cache_get 5 (demo_key ''g'' ''t1'' ''t2:s'') (cache_of demo_cache_config [OpSet 5 (demo_key ''g:t1'' ''t2'' ''s'') (1 :: nat) None])) = Some 1"
  by code_simp

text \<open>Storing a new value for a key in a full cache evicts another entry although nothing has to make room.\<close>

lemma overwriting_evicts:
  "fst (cache_get 7 (demo_key ''a'' ''t'' ''s'') (cache_of demo_cache_config
     [OpSet 5 (demo_key ''a'' ''t'' ''s'') (1 :: nat) None, OpSet 6 (demo_key ''b'' ''t'' ''s'') 2 None, OpSet 7 (demo_key ''b'' ''t'' ''s'') 3 None])) = None"
  by code_simp

end
