(* ===== verification/Migration.thy ===== *)
theory Migration
  imports Kahn "HOL-Library.List_Lexorder" "HOL-Library.Char_ord"
begin

text \<open>
  Creation of the database from the entity classes (\<open>libs/canon/src/canon/db/migration/migration.py\<close>, \<open>rls.py\<close>, \<open>roles.py\<close>), and the registration of
  the classes (\<open>libs/canon/src/canon/entities/entity.py\<close>, \<open>libs/kron/src/kron/core/node.py\<close>). A class is a record of the attributes the code reads;
  a statement sent to the database is a constructor with the values its text is made from. The order in which Python iterates a set is the
  argument \<open>it\<close>.
\<close>

section \<open>Classes\<close>

text \<open>
  \<open>ec_table_attr\<close>, \<open>ec_schema_attr\<close>, \<open>ec_immutable_attr\<close>, \<open>ec_allowed_attr\<close> and \<open>ec_unique_attr\<close> are class attributes that may be missing;
  \<open>ec_config_table\<close>, \<open>ec_config_schema\<close> and \<open>ec_content_frozen\<close> belong to the node configuration. A field is its name and the table it
  references, if it is a foreign key; \<open>ec_content_fields\<close> are those of the content type, if it has any.
\<close>

record entity_class =
  ec_name :: string
  ec_table_attr :: "string option"
  ec_schema_attr :: "string option"
  ec_config_table :: "string option"
  ec_config_schema :: string
  ec_content_frozen :: bool
  ec_fields :: "(string \<times> string option) list"
  ec_content_fields :: "(string \<times> string option) list option"
  ec_immutable_attr :: "bool option"
  ec_allowed_attr :: "string set option"
  ec_unique_attr :: "string set option"

type_synonym entity_registry = "(string, entity_class) dict"

datatype migration_error =
    CircularFk "string set"
  | TableTaken string string string
  | NotPersistable string
  | MissingAttribute string string
  | UnknownUniqueField string string

text \<open>\<open>_register_persistable\<close> and \<open>_register_entity\<close>; a class is identified by its name.\<close>

definition register_persistable :: "string \<Rightarrow> entity_class \<Rightarrow> entity_registry \<Rightarrow> (migration_error, entity_registry) result" where
  "register_persistable table cls reg =
    (case map_of reg table of
       Some existing \<Rightarrow> if ec_name existing \<noteq> ec_name cls then Inl (TableTaken table (ec_name existing) (ec_name cls)) else Inr reg
     | None \<Rightarrow> Inr (dict_set table cls reg))"

text \<open>The decorator \<open>register_entity\<close>: the class gets its configuration and enters the registries of entities and of persistable nodes.\<close>

definition register_entity ::
  "string \<Rightarrow> string \<Rightarrow> bool \<Rightarrow> entity_class \<Rightarrow> entity_registry \<times> entity_registry \<Rightarrow>
   (migration_error, entity_class \<times> entity_registry \<times> entity_registry) result" where
  "register_entity table schema immutable cls regs =
    (let cls' = cls\<lparr>ec_config_table := Some table, ec_config_schema := schema, ec_content_frozen := immutable\<rparr>
     in bind_r (register_persistable table cls' (fst regs)) (\<lambda>entities.
        bind_r (register_persistable table cls' (snd regs)) (\<lambda>persistable. Inr (cls', entities, persistable))))"

definition get_table_name :: "entity_class \<Rightarrow> string" where
  "get_table_name cls =
    (case ec_table_attr cls of Some t \<Rightarrow> t | None \<Rightarrow> (case ec_config_table cls of Some t \<Rightarrow> t | None \<Rightarrow> ''Unset''))"

definition get_schema :: "entity_class \<Rightarrow> string" where
  "get_schema cls = (case ec_schema_attr cls of Some s \<Rightarrow> s | None \<Rightarrow> ec_config_schema cls)"

definition get_fk_dependencies :: "entity_class \<Rightarrow> string set" where
  "get_fk_dependencies cls =
    (case ec_content_fields cls of None \<Rightarrow> {} | Some fs \<Rightarrow> set (List.map_filter snd fs))"

section \<open>Order\<close>

definition add_fk :: "string set \<Rightarrow> string \<Rightarrow> degrees \<times> (string, string list) dict \<Rightarrow> string \<Rightarrow> degrees \<times> (string, string list) dict" where
  "add_fk names name st dep = (if dep = name then st else add_prerequisite names name st dep)"

definition fk_graph :: "(string set \<Rightarrow> string list) \<Rightarrow> entity_registry \<Rightarrow> degrees \<times> (string, string list) dict" where
  "fk_graph it entities =
    foldl (\<lambda>st (name, cls). foldl (add_fk (set (dict_keys entities)) name) st (it (get_fk_dependencies cls)))
      (dict_update [] (map (\<lambda>(name, _). (name, 0)) entities), dict_update [] (map (\<lambda>(name, _). (name, [])) entities)) entities"

definition entity_topological_sort :: "(string set \<Rightarrow> string list) \<Rightarrow> entity_registry \<Rightarrow> (migration_error, entity_class list) result" where
  "entity_topological_sort it entities =
    (let (deg, dependents) = fk_graph it entities;
         sorted_names = drain dependents (map fst (filter (\<lambda>e. snd e = 0) deg)) deg [];
         sorted_classes = List.map_filter (map_of entities) sorted_names
     in if length sorted_classes \<noteq> length entities
        then Inl (CircularFk (set (dict_keys entities) - set (map get_table_name sorted_classes)))
        else Inr sorted_classes)"

section \<open>Statements\<close>

record RoleConfig =
  rl_owner :: string
  rl_app :: string
  rl_support :: string
  rl_analytics :: string

datatype statement =
    CreateTable string string
  | DropTable string string bool
  | UpdateTrigger string string "string list" "string list"
  | DeleteTrigger string string
  | TenantIndex string string
  | TenantUnique string string
  | UniqueWithinTenant string string string
  | CompositeFk string string string string string
  | TenantFunction "string option"
  | RlsPolicy string string
  | DatabaseRoles RoleConfig
  | TableOwner string string string
  | EvidenceActiveView string

definition generate_ddl :: "entity_class \<Rightarrow> (migration_error, statement) result" where
  "generate_ddl cls =
    (case ec_config_table cls of None \<Rightarrow> Inl (NotPersistable (ec_name cls)) | Some t \<Rightarrow> Inr (CreateTable (ec_config_schema cls) t))"

definition is_immutable_entity :: "entity_class \<Rightarrow> bool" where
  "is_immutable_entity cls = (case ec_immutable_attr cls of None \<Rightarrow> False | Some b \<Rightarrow> b)"

definition get_allowed_update_fields :: "entity_class \<Rightarrow> string set" where
  "get_allowed_update_fields cls = (case ec_allowed_attr cls of None \<Rightarrow> {} | Some s \<Rightarrow> s)"

definition generate_immutable_update_trigger :: "entity_class \<Rightarrow> statement" where
  "generate_immutable_update_trigger cls =
    (let allowed = get_allowed_update_fields cls
     in UpdateTrigger (get_schema cls) (get_table_name cls)
          (filter (\<lambda>n. n \<noteq> ''id'' \<and> n \<notin> allowed) (map fst (ec_fields cls))) (sorted_list_of_set allowed))"

definition generate_immutability_triggers :: "entity_class \<Rightarrow> statement list" where
  "generate_immutability_triggers cls =
    (if \<not> is_immutable_entity cls then []
     else [generate_immutable_update_trigger cls, DeleteTrigger (get_schema cls) (get_table_name cls)])"

text \<open>What the trigger function of an \<^const>\<open>UpdateTrigger\<close> does with a row: \<^const>\<open>True\<close> lets the update pass. A name that is no column reads as
  null in both rows.\<close>

definition update_trigger_passes :: "string list \<Rightarrow> string list \<Rightarrow> (string \<rightharpoonup> 'v) \<Rightarrow> (string \<rightharpoonup> 'v) \<Rightarrow> bool" where
  "update_trigger_passes immutable_fields allowed old new =
    (let changed = filter (\<lambda>f. old f \<noteq> new f) immutable_fields
     in if allowed \<noteq> [] \<and> length changed = 1 \<and> hd changed \<in> set allowed then True else length changed = 0)"

definition is_tenant_scoped :: "entity_class \<Rightarrow> bool" where
  "is_tenant_scoped cls \<longleftrightarrow> ''tenant_id'' \<in> set (map fst (ec_fields cls))"

text \<open>\<open>rls.py\<close> and \<open>roles.py\<close> read the attributes of the class without the fall-back.\<close>

definition own_table :: "entity_class \<Rightarrow> (migration_error, string \<times> string) result" where
  "own_table cls =
    (case ec_table_attr cls of
       None \<Rightarrow> Inl (MissingAttribute (ec_name cls) ''_table_name'')
     | Some t \<Rightarrow> (case ec_schema_attr cls of None \<Rightarrow> Inl (MissingAttribute (ec_name cls) ''_schema'') | Some s \<Rightarrow> Inr (s, t)))"

definition if_tenant_scoped :: "(string \<Rightarrow> string \<Rightarrow> statement) \<Rightarrow> entity_class \<Rightarrow> (migration_error, statement list) result" where
  "if_tenant_scoped stmt cls =
    (if \<not> is_tenant_scoped cls then Inr [] else bind_r (own_table cls) (\<lambda>(s, t). Inr [stmt s t]))"

definition generate_tenant_index :: "entity_class \<Rightarrow> (migration_error, statement list) result" where
  "generate_tenant_index = if_tenant_scoped TenantIndex"

definition generate_tenant_unique_constraint :: "entity_class \<Rightarrow> (migration_error, statement list) result" where
  "generate_tenant_unique_constraint = if_tenant_scoped TenantUnique"

definition generate_rls_policy :: "entity_class \<Rightarrow> (migration_error, statement list) result" where
  "generate_rls_policy = if_tenant_scoped RlsPolicy"

definition composite_fk ::
  "entity_registry \<Rightarrow> string \<Rightarrow> string \<Rightarrow> string \<times> string option \<Rightarrow> (migration_error, statement list) result" where
  "composite_fk reg s t fld =
    (if fst fld = ''tenant_id'' then Inr []
     else
       (case snd fld of
          None \<Rightarrow> Inr []
        | Some target \<Rightarrow>
            (case map_of reg target of
               None \<Rightarrow> Inr []
             | Some cls \<Rightarrow>
                 if \<not> is_tenant_scoped cls then Inr []
                 else bind_r (own_table cls) (\<lambda>(s', t'). Inr [CompositeFk s t (fst fld) s' t']))))"

definition generate_composite_fks :: "entity_registry \<Rightarrow> entity_class \<Rightarrow> (migration_error, statement list) result" where
  "generate_composite_fks reg cls =
    (if \<not> is_tenant_scoped cls then Inr []
     else bind_r (own_table cls) (\<lambda>(s, t). bind_r (map_r (composite_fk reg s t) (ec_fields cls)) (\<lambda>fks. Inr (concat fks))))"

definition generate_tenant_scoped_unique_constraints :: "entity_class \<Rightarrow> (migration_error, statement list) result" where
  "generate_tenant_scoped_unique_constraints cls =
    (let unique_fields = (case ec_unique_attr cls of None \<Rightarrow> {} | Some s \<Rightarrow> s)
     in if \<not> is_tenant_scoped cls \<or> unique_fields = {} then Inr []
        else bind_r (own_table cls) (\<lambda>(s, t).
          map_r (\<lambda>f. if f \<in> set (map fst (ec_fields cls)) then Inr (UniqueWithinTenant s t f) else Inl (UnknownUniqueField (ec_name cls) f))
            (sorted_list_of_set unique_fields)))"

definition generate_table_ownership :: "string \<Rightarrow> entity_class \<Rightarrow> (migration_error, statement list) result" where
  "generate_table_ownership owner cls = bind_r (own_table cls) (\<lambda>(s, t). Inr [TableOwner s t owner])"

section \<open>Migrations\<close>

text \<open>
  The statements of a migration, in the order they are executed one after the other, not in a transaction, or the exception that ends it. A phase goes through
  the classes in their order.
\<close>

definition each :: "(entity_class \<Rightarrow> (migration_error, statement list) result) \<Rightarrow> entity_class list \<Rightarrow> (migration_error, statement list) result" where
  "each f classes = bind_r (map_r f classes) (\<lambda>ss. Inr (concat ss))"

definition tables_phase :: "entity_class list \<Rightarrow> (migration_error, statement list) result" where
  "tables_phase = each (\<lambda>cls. bind_r (generate_ddl cls) (\<lambda>s. Inr [s]))"

fun phases :: "(migration_error, statement list) result list \<Rightarrow> (migration_error, statement list) result" where
  "phases [] = Inr []"
| "phases (p # ps) = bind_r p (\<lambda>ss. bind_r (phases ps) (\<lambda>rest. Inr (ss @ rest)))"

definition migrate :: "(string set \<Rightarrow> string list) \<Rightarrow> entity_registry \<Rightarrow> (migration_error, statement list \<times> string list) result" where
  "migrate it reg =
    bind_r (entity_topological_sort it reg) (\<lambda>classes.
    bind_r (tables_phase classes) (\<lambda>ss. Inr (ss, map get_table_name classes)))"

definition drop_all :: "(string set \<Rightarrow> string list) \<Rightarrow> bool \<Rightarrow> entity_registry \<Rightarrow> (migration_error, statement list) result" where
  "drop_all it cascade reg =
    bind_r (entity_topological_sort it reg) (\<lambda>classes. Inr (map (\<lambda>cls. DropTable (get_schema cls) (get_table_name cls) cascade) (rev classes)))"

definition migrate_with_rls ::
  "(string set \<Rightarrow> string list) \<Rightarrow> string option \<Rightarrow> entity_registry \<Rightarrow> (migration_error, statement list) result" where
  "migrate_with_rls it app_role reg =
    bind_r (entity_topological_sort it reg) (\<lambda>classes.
      phases [tables_phase classes,
              each (\<lambda>cls. Inr (generate_immutability_triggers cls)) classes,
              each generate_tenant_index classes,
              each generate_tenant_unique_constraint classes,
              each (generate_composite_fks reg) classes,
              Inr [TenantFunction app_role],
              each generate_rls_policy classes])"

definition migrate_with_rls_and_roles ::
  "(string set \<Rightarrow> string list) \<Rightarrow> RoleConfig \<Rightarrow> entity_registry \<Rightarrow> (migration_error, statement list) result" where
  "migrate_with_rls_and_roles it config reg =
    bind_r (entity_topological_sort it reg) (\<lambda>classes.
      phases [Inr [DatabaseRoles config],
              tables_phase classes,
              each (generate_table_ownership (rl_owner config)) classes,
              each (\<lambda>cls. Inr (generate_immutability_triggers cls)) classes,
              each generate_tenant_index classes,
              each generate_tenant_unique_constraint classes,
              each generate_tenant_scoped_unique_constraints classes,
              each (generate_composite_fks reg) classes,
              Inr [TenantFunction (Some (rl_app config))],
              each generate_rls_policy classes,
              Inr [EvidenceActiveView ''public'']])"

end
