(* ===== verification/Migration_Correct.thy ===== *)
theory Migration_Correct
  imports Migration
begin

text \<open>
  Correctness of migrations: tables are created after the tables they reference and dropped before them, exactly when the references have no
  cycle; what the immutability trigger protects; and which statements a migration of registered entities contains.
\<close>

section \<open>References between tables\<close>

definition fk_relation :: "entity_registry \<Rightarrow> (string \<times> string) set" where
  "fk_relation reg = {(d, n). \<exists>cls. map_of reg n = Some cls \<and> d \<in> get_fk_dependencies cls \<and> d \<noteq> n \<and> map_of reg d \<noteq> None}"

definition fk_edges :: "(string set \<Rightarrow> string list) \<Rightarrow> string set \<Rightarrow> entity_registry \<Rightarrow> (string \<times> string) list" where
  "fk_edges it N reg =
    concat (map (\<lambda>(n, cls). map (\<lambda>d. (d, n)) (filter (\<lambda>d. d \<in> N) (filter (\<lambda>d. d \<noteq> n) (it (get_fk_dependencies cls))))) reg)"

lemma finite_fk_dependencies [simp]: "finite (get_fk_dependencies cls)"
  by (simp add: get_fk_dependencies_def split: option.splits)

lemma set_fk_edges:
  assumes "distinct (dict_keys reg)" "lists_sets it"
  shows "set (fk_edges it (set (dict_keys reg)) reg) = fk_relation reg"
proof -
  have it: "set (it (get_fk_dependencies cls)) = get_fk_dependencies cls" for cls using assms(2) by (simp add: lists_sets_def)
  have "map_of reg d \<noteq> None \<longleftrightarrow> d \<in> fst ` set reg" for d by (metis map_of_eq_None_iff)
  then show ?thesis
    unfolding fk_relation_def fk_edges_def map_of_eq_Some_iff [OF assms(1)] by (auto simp: it)
qed

lemma foldl_add_fk: "foldl (add_fk N name) st ds = foldl (add_prerequisite N name) st (filter (\<lambda>d. d \<noteq> name) ds)"
  by (induction ds arbitrary: st) (auto simp: add_fk_def)

lemma fk_graph_for: "graph_for (set (dict_keys reg)) (fk_edges it (set (dict_keys reg)) reg) (fk_graph it reg)"
proof -
  let ?N = "set (dict_keys reg)"
  let ?add = "\<lambda>st (name, cls). foldl (add_fk ?N name) st (it (get_fk_dependencies cls))"
  let ?start = "(dict_update [] (map (\<lambda>(name, _). (name, 0)) reg), dict_update [] (map (\<lambda>(name, _). (name, [])) reg)) :: degrees \<times> (string, string list) dict"
  have step: "graph_for ?N (E @ fk_edges it ?N es) (foldl ?add st es)" if "graph_for ?N E st" "set es \<subseteq> set reg" for E st es
    using that
  proof (induction es arbitrary: E st)
    case (Cons e es)
    obtain n cls where e: "e = (n, cls)" by fastforce
    then have "n \<in> ?N" using Cons.prems(2) by force
    from Cons.IH [OF graph_for_prerequisites [OF Cons.prems(1) this, of "filter (\<lambda>d. d \<noteq> n) (it (get_fk_dependencies cls))"]] Cons.prems(2)
    show ?case by (simp add: e fk_edges_def foldl_add_fk)
  qed (simp add: fk_edges_def)
  have keys: "map (\<lambda>(name, _). (name, x)) reg = map (\<lambda>e. (fst e, x)) reg" for x :: 'x by (simp add: case_prod_beta)
  have "graph_for ?N [] ?start"
    by (simp add: graph_for_def keys distinct_dict_update map_of_dict_update_const image_image)
  from step [OF this, of reg] show ?thesis by (simp add: fk_graph_def)
qed

lemma fk_edges_between: "set (fk_edges it (set (dict_keys reg)) reg) \<subseteq> set (dict_keys reg) \<times> set (dict_keys reg)"
  by (force simp: fk_edges_def)

text \<open>The names in the order of the sort.\<close>

lemma entity_topological_sort_cases:
  assumes "distinct (dict_keys reg)" "lists_sets it"
  obtains (ordered) names where "entity_topological_sort it reg = Inr (map (\<lambda>n. the (map_of reg n)) names)" "distinct names"
      "set names = set (dict_keys reg)" "\<forall>d n. (d, n) \<in> fk_relation reg \<longrightarrow> precedes names d n"
  | (circular) rest where "entity_topological_sort it reg = Inl (CircularFk rest)" "\<not> acyclic (fk_relation reg)"
proof -
  let ?N = "set (dict_keys reg)" let ?E = "fk_edges it ?N reg"
  obtain deg deps where g: "fk_graph it reg = (deg, deps)" by fastforce
  define names where "names = drain deps (map fst (filter (\<lambda>e. snd e = 0) deg)) deg []"
  have graph: "graph_for ?N ?E (deg, deps)" using fk_graph_for [of reg it] g by simp
  then have "\<forall>p\<in>?N. map_of deps p = Some (map snd (filter (\<lambda>e. fst e = p) ?E))" unfolding graph_for_def snd_conv by blast
  then obtain deg' where inv: "drain_inv ?N ?E [] deg' names"
    using drain_keeps [OF drain_inv_start [OF graph] fk_edges_between] unfolding names_def by blast
  then have names: "distinct names" "set names \<subseteq> ?N" by (auto simp: drain_inv_def)
  have rel: "set ?E = fk_relation reg" by (rule set_fk_edges [OF assms])
  have found: "n \<in> ?N \<Longrightarrow> \<exists>cls. map_of reg n = Some cls" for n by (metis list.set_map map_of_eq_None_iff not_None_eq)
  have "List.map_filter (map_of reg) ns = map (\<lambda>n. the (map_of reg n)) ns" if "set ns \<subseteq> ?N" for ns
    using that
  proof (induction ns)
    case (Cons n ns)
    then obtain cls where "map_of reg n = Some cls" using found [of n] by auto
    then show ?case using Cons by (simp add: map_filter_simps)
  qed (simp add: map_filter_simps)
  from this [OF names(2)]
  have sort: "entity_topological_sort it reg =
      (if length names \<noteq> length reg then Inl (CircularFk (?N - set (map get_table_name (map (\<lambda>n. the (map_of reg n)) names))))
       else Inr (map (\<lambda>n. the (map_of reg n)) names))"
    by (simp add: entity_topological_sort_def g names_def [symmetric] image_image)
  have len: "length names = length reg \<longleftrightarrow> set names = ?N"
    using distinct_card [OF names(1)] distinct_card [OF assms(1)] card_subset_eq [OF _ names(2)] by auto
  show thesis
  proof (cases "set names = ?N")
    case True
    have "precedes names d n" if e: "(d, n) \<in> fk_relation reg" for d n
    proof -
      have "n \<in> set names" using fk_edges_between [of it reg] e True unfolding rel by blast
      then show ?thesis using inv e unfolding drain_inv_def rel by blast
    qed
    then show ?thesis using ordered [of names] sort len names(1) True by simp
  next
    case False
    then have "\<not> acyclic (fk_relation reg)" using drain_acyclic [OF inv _ fk_edges_between] unfolding rel by blast
    then show ?thesis using circular sort len False by auto
  qed
qed

section \<open>Registered entities\<close>

text \<open>The registries that the decorator builds, each class being registered once.\<close>

inductive registered :: "entity_registry \<Rightarrow> entity_registry \<Rightarrow> bool" where
  none: "registered [] []"
| add: "registered entities reg \<Longrightarrow> \<forall>(t, c)\<in>set reg. ec_name c \<noteq> ec_name cls \<Longrightarrow> ec_table_attr cls = None \<or> ec_table_attr cls = Some table \<Longrightarrow>
    register_entity table schema immutable cls (entities, reg) = Inr (cls', entities', reg') \<Longrightarrow> registered entities' reg'"

lemma registered_ok:
  "registered entities reg \<Longrightarrow> distinct (dict_keys reg) \<and>
     (\<forall>t cls. map_of reg t = Some cls \<longrightarrow> ec_config_table cls = Some t \<and> get_table_name cls = t)"
proof (induction rule: registered.induct)
  case (add entities reg cls table schema immutable cls' entities' reg')
  let ?c = "cls\<lparr>ec_config_table := Some table, ec_config_schema := schema, ec_content_frozen := immutable\<rparr>"
  have "reg' = dict_set table ?c reg" 
    using add.hyps(2,4) by (auto simp: register_entity_def register_persistable_def Let_def split: option.splits if_splits dest: map_of_Some_in)
  moreover have "get_table_name ?c = table" using add.hyps(3) by (auto simp: get_table_name_def)
  ultimately show ?case using add.IH by (auto simp: distinct_dict_set)
qed simp

lemma tables_phase_config:
  assumes "\<forall>cls\<in>set classes. \<exists>t. ec_config_table cls = Some t"
  shows "tables_phase classes = Inr (map (\<lambda>cls. CreateTable (ec_config_schema cls) (the (ec_config_table cls))) classes)"
proof -
  have "map_r (\<lambda>cls. bind_r (generate_ddl cls) (\<lambda>s. Inr [s])) classes =
      Inr (map (\<lambda>cls. [CreateTable (ec_config_schema cls) (the (ec_config_table cls))]) classes)"
    using assms by (induction classes) (auto simp: generate_ddl_def)
  then show ?thesis by (simp add: tables_phase_def each_def)
qed


section \<open>Protection\<close>

text \<open>The update trigger of an immutable entity lets an update pass exactly if it changes no field of the class but the id and the allowed ones.\<close>

theorem update_trigger_protects:
  "generate_immutable_update_trigger cls = UpdateTrigger schema table immutable_fields allowed \<Longrightarrow>
   update_trigger_passes immutable_fields allowed old new \<longleftrightarrow>
     (\<forall>f\<in>set (map fst (ec_fields cls)) - {''id''} - get_allowed_update_fields cls. old f = new f)"
proof -
  assume g: "generate_immutable_update_trigger cls = UpdateTrigger schema table immutable_fields allowed"
  let ?A = "get_allowed_update_fields cls"
  have fs: "immutable_fields = filter (\<lambda>n. n \<noteq> ''id'' \<and> n \<notin> ?A) (map fst (ec_fields cls))" "allowed = sorted_list_of_set ?A"
    using g by (auto simp: generate_immutable_update_trigger_def Let_def)
  have sub: "set allowed \<subseteq> ?A" unfolding fs(2) by (cases "finite ?A") auto
  have "hd (filter (\<lambda>f. old f \<noteq> new f) immutable_fields) \<notin> set allowed" if "length (filter (\<lambda>f. old f \<noteq> new f) immutable_fields) = 1"
  proof -
    have "hd (filter (\<lambda>f. old f \<noteq> new f) immutable_fields) \<in> set immutable_fields"
      using that hd_in_set [of "filter (\<lambda>f. old f \<noteq> new f) immutable_fields"] by fastforce
    then show ?thesis using sub by (auto simp: fs(1))
  qed
  then have "update_trigger_passes immutable_fields allowed old new \<longleftrightarrow> filter (\<lambda>f. old f \<noteq> new f) immutable_fields = []"
    by (auto simp: update_trigger_passes_def Let_def)
  then show ?thesis by (auto simp: filter_empty_conv fs(1))
qed

text \<open>The fields of the class \<open>Entity\<close>, which its subclasses share: the data of an entity is in its content.\<close>

definition ENTITY_FIELDS :: "(string \<times> string option) list" where
  "ENTITY_FIELDS = map (\<lambda>n. (n, None))
    [''id'', ''created_at'', ''metadata'', ''content'', ''updated_at'', ''updated_by'', ''is_deleted'', ''deleted_at'', ''deleted_by'', ''is_active'', ''version'',
     ''content_hash'', ''integrity_hash'']"

definition plain_entity :: "entity_class \<Rightarrow> bool" where
  "plain_entity cls \<longleftrightarrow> ec_fields cls = ENTITY_FIELDS \<and> ec_table_attr cls = None \<and> ec_immutable_attr cls = None"

lemma plain_entity_unscoped: "plain_entity cls \<Longrightarrow> \<not> is_tenant_scoped cls" "plain_entity cls \<Longrightarrow> \<not> is_immutable_entity cls"
  by (auto simp: plain_entity_def is_tenant_scoped_def ENTITY_FIELDS_def is_immutable_entity_def)

lemma each_none: "\<forall>cls\<in>set classes. f cls = Inr [] \<Longrightarrow> each f classes = Inr []"
proof -
  assume "\<forall>cls\<in>set classes. f cls = Inr []"
  then have "map_r f classes = Inr (map (\<lambda>_. []) classes)" by (induction classes) auto
  then show ?thesis by (simp add: each_def)
qed



section \<open>A sample\<close>

definition sample_class :: "string \<Rightarrow> (string \<times> string option) list \<Rightarrow> entity_class" where
  "sample_class name content =
    \<lparr>ec_name = name, ec_table_attr = None, ec_schema_attr = None, ec_config_table = None, ec_config_schema = ''public'', ec_content_frozen = False,
     ec_fields = ENTITY_FIELDS, ec_content_fields = Some content, ec_immutable_attr = None, ec_allowed_attr = None, ec_unique_attr = None\<rparr>"

definition sample_registry :: "entity_registry \<times> entity_registry" where
  "sample_registry =
    (let reg = [(''consents'', (sample_class ''Consent'' [(''tenant_id'', Some ''tenants''), (''scope'', None)])\<lparr>ec_config_table := Some ''consents'', ec_content_frozen := True\<rparr>),
                (''tenants'', (sample_class ''Tenant'' [])\<lparr>ec_config_table := Some ''tenants''\<rparr>)]
     in (reg, reg))"

lemma sample_registered: "registered (fst sample_registry) (snd sample_registry)"
proof -
  let ?c = "sample_class ''Consent'' [(''tenant_id'', Some ''tenants''), (''scope'', None)]" and ?t = "sample_class ''Tenant'' []"
  have 1: "registered [(''consents'', ?c\<lparr>ec_config_table := Some ''consents'', ec_content_frozen := True\<rparr>)] [(''consents'', ?c\<lparr>ec_config_table := Some ''consents'', ec_content_frozen := True\<rparr>)]"
    by (rule registered.add [OF registered.none, of ?c "''consents''" "''public''" True])
      (simp_all add: register_entity_def register_persistable_def sample_class_def Let_def)
  show ?thesis
    by (rule registered.add [OF 1, of ?t "''tenants''" "''public''" False])
      (simp_all add: register_entity_def register_persistable_def sample_class_def sample_registry_def Let_def)
qed

lemma sample_acyclic: "acyclic (fk_relation (snd sample_registry))"
proof (rule precedes_acyclic)
  show "distinct [''tenants'', ''consents'']" by simp
  fix d n assume "(d, n) \<in> fk_relation (snd sample_registry)"
  then have "d = ''tenants''" "n = ''consents''"
    by (auto simp: fk_relation_def sample_registry_def sample_class_def get_fk_dependencies_def map_filter_simps Let_def split: if_splits)
  then show "precedes [''tenants'', ''consents''] d n" using precedes_append [of "''tenants''" "[''tenants'']" "''consents''" "[''consents'']"] by simp
qed


theorem update_trigger_protects_witness:
  "\<not> update_trigger_passes [''created_at'', ''metadata''] [] (\<lambda>_. None) ((\<lambda>_. None)(''metadata'' := Some (1 :: nat)))"
proof -
  let ?cls = "sample_class ''Consent'' []\<lparr>ec_fields := [(''id'', None), (''created_at'', None), (''metadata'', None)]\<rparr>"
  have "generate_immutable_update_trigger ?cls = UpdateTrigger ''public'' ''Unset'' [''created_at'', ''metadata''] []"
    by (simp add: generate_immutable_update_trigger_def sample_class_def get_allowed_update_fields_def get_schema_def get_table_name_def)
  from update_trigger_protects [OF this, of "\<lambda>_. None" "(\<lambda>_. None)(''metadata'' := Some (1 :: nat))"] show ?thesis
    by (auto simp: sample_class_def get_allowed_update_fields_def)
qed


text \<open>A change of a column that is no field of the class, as the columns of a flattened content are, passes the trigger.\<close>

lemma content_columns_change:
  "f \<notin> set (map fst (ec_fields cls)) \<Longrightarrow> generate_immutable_update_trigger cls = UpdateTrigger schema table immutable_fields allowed \<Longrightarrow>
   update_trigger_passes immutable_fields allowed row (row(f := v))"
  by (auto simp: generate_immutable_update_trigger_def update_trigger_passes_def Let_def filter_empty_conv)

end
