(* ===== verification/Vocabulary.thy ===== *)
theory Vocabulary
  imports Py_Text "HOL-Library.List_Lexorder" "HOL-Library.Char_ord"
begin

text \<open>
  The registry of vocabulary features and the workflows composed from them (\<open>libs/canon/src/canon/enforcement/vocabulary.py\<close>).
\<close>

section \<open>Features\<close>

datatype FeaturePattern = PatternQuery | PatternMutation | PatternRequirement | PatternCascade

record FeatureSpec =
  ft_name :: string
  ft_category :: string
  ft_pattern :: FeaturePattern
  ft_regulatory_basis :: "string option"
  ft_description :: "string option"
  ft_dependencies :: "string list"

definition is_query :: "FeatureSpec \<Rightarrow> bool" where
  "is_query f \<longleftrightarrow> ft_pattern f = PatternQuery"

definition is_mutation :: "FeatureSpec \<Rightarrow> bool" where
  "is_mutation f \<longleftrightarrow> ft_pattern f \<in> {PatternMutation, PatternCascade}"

definition is_requirement :: "FeatureSpec \<Rightarrow> bool" where
  "is_requirement f \<longleftrightarrow> ft_pattern f = PatternRequirement"

type_synonym vocabulary_registry = "(string, FeatureSpec) dict"

text \<open>The decorator \<open>vocabulary\<close>, applied to a function of a given name and docstring.\<close>

definition register_feature ::
  "string \<Rightarrow> FeaturePattern \<Rightarrow> string option \<Rightarrow> string list \<Rightarrow> string \<Rightarrow> string option \<Rightarrow> vocabulary_registry \<Rightarrow> vocabulary_registry" where
  "register_feature category pat regulatory_basis dependencies func_name doc reg =
    dict_set func_name
      \<lparr>ft_name = func_name, ft_category = category, ft_pattern = pat, ft_regulatory_basis = regulatory_basis, ft_description = doc,
       ft_dependencies = dependencies\<rparr> reg"

definition get_feature :: "vocabulary_registry \<Rightarrow> string \<Rightarrow> FeatureSpec option" where
  "get_feature reg name = map_of reg name"

text \<open>A filter that is \<open>None\<close> or empty is not applied.\<close>

definition given :: "string option \<Rightarrow> string option" where
  "given x = (if x = Some [] then None else x)"

definition list_features :: "vocabulary_registry \<Rightarrow> string option \<Rightarrow> FeaturePattern option \<Rightarrow> string option \<Rightarrow> FeatureSpec list" where
  "list_features reg category pat regulation =
    filter (\<lambda>f. case given regulation of
                  None \<Rightarrow> True
                | Some r \<Rightarrow> (case given (ft_regulatory_basis f) of None \<Rightarrow> False | Some b \<Rightarrow> py_contains (py_lower r) (py_lower b)))
      (filter (\<lambda>f. case pat of None \<Rightarrow> True | Some p \<Rightarrow> ft_pattern f = p)
        (filter (\<lambda>f. case given category of None \<Rightarrow> True | Some c \<Rightarrow> ft_category f = c) (map snd reg)))"

definition list_categories :: "vocabulary_registry \<Rightarrow> string list" where
  "list_categories reg = sorted_list_of_set (ft_category ` set (map snd reg))"

section \<open>Workflows\<close>

record WorkflowStep =
  ws_feature :: FeatureSpec
  ws_depends_on :: "int list"

record WorkflowSpec =
  wf_name :: string
  wf_steps :: "WorkflowStep list"

definition feature_names :: "WorkflowSpec \<Rightarrow> string list" where
  "feature_names w = map (\<lambda>s. ft_name (ws_feature s)) (wf_steps w)"

definition workflow_regulatory_basis :: "WorkflowSpec \<Rightarrow> string list" where
  "workflow_regulatory_basis w = List.map_filter (\<lambda>s. given (ft_regulatory_basis (ws_feature s))) (wf_steps w)"

definition workflow_categories :: "WorkflowSpec \<Rightarrow> string list" where
  "workflow_categories w =
    foldl (\<lambda>seen s. if ft_category (ws_feature s) \<in> set seen then seen else seen @ [ft_category (ws_feature s)]) [] (wf_steps w)"

datatype workflow_problem = NotYetExecuted nat string int | InvalidIndex nat string int

definition dependency_problems :: "nat \<Rightarrow> nat \<Rightarrow> string \<Rightarrow> int \<Rightarrow> workflow_problem list" where
  "dependency_problems n i name dep =
    (if dep \<ge> int i then [NotYetExecuted i name dep] else []) @ (if dep < 0 \<or> dep \<ge> int n then [InvalidIndex i name dep] else [])"

definition validate_workflow :: "WorkflowSpec \<Rightarrow> workflow_problem list" where
  "validate_workflow w =
    concat (map (\<lambda>(i, s). concat (map (dependency_problems (length (wf_steps w)) i (ft_name (ws_feature s))) (ws_depends_on s)))
      (enumerate 0 (wf_steps w)))"

datatype compose_error = FeatureNotRegistered string "string list"

fun compose_steps ::
  "vocabulary_registry \<Rightarrow> nat \<Rightarrow> (string, nat) dict \<Rightarrow> string list \<Rightarrow> (compose_error, WorkflowStep list) result" where
  "compose_steps reg i name_to_idx [] = Inr []"
| "compose_steps reg i name_to_idx (nm # nms) =
    (case get_feature reg nm of
       None \<Rightarrow> Inl (FeatureNotRegistered nm (sorted_list_of_set (set (dict_keys reg))))
     | Some f \<Rightarrow>
         (let deps = List.map_filter (\<lambda>d. map_option int (map_of name_to_idx d)) (ft_dependencies f)
          in bind_r (compose_steps reg (Suc i) (dict_set nm i name_to_idx) nms) (\<lambda>steps.
               Inr (\<lparr>ws_feature = f, ws_depends_on = deps\<rparr> # steps))))"

definition compose_workflow :: "vocabulary_registry \<Rightarrow> string \<Rightarrow> string list \<Rightarrow> (compose_error, WorkflowSpec) result" where
  "compose_workflow reg name names = bind_r (compose_steps reg 0 [] names) (\<lambda>steps. Inr \<lparr>wf_name = name, wf_steps = steps\<rparr>)"

section \<open>Properties\<close>

text \<open>The latest place of a name among the names composed so far.\<close>

definition latest :: "string list \<Rightarrow> string \<Rightarrow> nat \<Rightarrow> bool" where
  "latest before n k \<longleftrightarrow> k < length before \<and> before ! k = n \<and> (\<forall>j. k < j \<longrightarrow> j < length before \<longrightarrow> before ! j \<noteq> n)"

lemma latest_snoc: "latest (before @ [nm]) n k \<longleftrightarrow> (if n = nm then k = length before else latest before n k)"
proof (cases "n = nm")
  case True
  then show ?thesis by (auto simp: latest_def nth_append not_less_eq less_Suc_eq)
next
  case False
  then show ?thesis by (auto simp: latest_def nth_append less_Suc_eq)
qed

lemma latest_bound: "latest (take k names) n j \<Longrightarrow> j < k"
  by (simp add: latest_def)

definition indices_ok :: "string list \<Rightarrow> (string, nat) dict \<Rightarrow> bool" where
  "indices_ok before idx \<longleftrightarrow> (\<forall>n k. map_of idx n = Some k \<longleftrightarrow> latest before n k)"

lemma indices_ok_snoc: "indices_ok before idx \<Longrightarrow> indices_ok (before @ [nm]) (dict_set nm (length before) idx)"
  unfolding indices_ok_def latest_snoc by auto

text \<open>The step at place \<open>k\<close>: the feature of the name there, and for each declared dependency that occurs before it its latest place.\<close>

definition step_spec :: "vocabulary_registry \<Rightarrow> string list \<Rightarrow> nat \<Rightarrow> WorkflowStep \<Rightarrow> bool" where
  "step_spec reg names k s \<longleftrightarrow>
     get_feature reg (names ! k) = Some (ws_feature s) \<and>
     set (ws_depends_on s) = {int j |j d. d \<in> set (ft_dependencies (ws_feature s)) \<and> latest (take k names) d j}"

lemma dependency_indices:
  "indices_ok before idx \<Longrightarrow> set (List.map_filter (\<lambda>x. map_option int (map_of idx x)) deps) = {int j |j d. d \<in> set deps \<and> latest before d j}"
  unfolding indices_ok_def by (force simp: List.map_filter_def)

lemma compose_steps_spec:
  assumes "indices_ok before idx" "compose_steps reg (length before) idx names = Inr steps"
  shows "length steps = length names \<and> (\<forall>k<length steps. step_spec reg (before @ names) (length before + k) (steps ! k))"
  using assms
proof (induction names arbitrary: before idx steps)
  case (Cons nm names)
  obtain f rest where f: "get_feature reg nm = Some f" "compose_steps reg (length (before @ [nm])) (dict_set nm (length before) idx) names = Inr rest"
    "steps = \<lparr>ws_feature = f, ws_depends_on = List.map_filter (\<lambda>d. map_option int (map_of idx d)) (ft_dependencies f)\<rparr> # rest"
    using Cons.prems(2) by (auto simp: Let_def split: option.splits)
  have IH: "length rest = length names" "\<forall>k<length rest. step_spec reg ((before @ [nm]) @ names) (length (before @ [nm]) + k) (rest ! k)"
    using Cons.IH [OF indices_ok_snoc [OF Cons.prems(1)] f(2)] by auto
  have "step_spec reg (before @ nm # names) (length before) (hd steps)"
    unfolding step_spec_def using f(1) by (simp add: f(3) dependency_indices [OF Cons.prems(1)])
  then show ?case using IH by (auto simp: f(3) nth_Cons less_Suc_eq_0_disj split: nat.splits)
qed simp

text \<open>A composed workflow has one step per name, in the order given, each with its registered feature and the places of its dependencies; it is
  always valid. Composition fails exactly on the first name that is not registered.\<close>

theorem compose_workflow_valid:
  "case compose_workflow reg name names of
     Inl e \<Rightarrow> \<exists>nm. e = FeatureNotRegistered nm (sorted_list_of_set (set (dict_keys reg))) \<and> find_first (\<lambda>n. get_feature reg n = None) names = Some nm
   | Inr w \<Rightarrow> wf_name w = name \<and> length (wf_steps w) = length names \<and> (\<forall>k<length names. step_spec reg names k (wf_steps w ! k)) \<and>
       validate_workflow w = []"
proof (cases "compose_steps reg 0 [] names")
  case (Inl e)
  have "\<exists>nm. e = FeatureNotRegistered nm (sorted_list_of_set (set (dict_keys reg))) \<and> find_first (\<lambda>n. get_feature reg n = None) names = Some nm"
    if "compose_steps reg i idx names = Inl e" for i idx
    using that by (induction reg i idx names rule: compose_steps.induct) (auto simp: Let_def bind_r_Inl_iff split: option.splits)
  then show ?thesis using Inl by (simp add: compose_workflow_def)
next
  case (Inr steps)
  have spec: "length steps = length names" "\<forall>k<length steps. step_spec reg names k (steps ! k)"
    using compose_steps_spec [of "[]" "[]" reg names steps] Inr by (auto simp: indices_ok_def latest_def)
  have "dependency_problems (length steps) i nm d = []" if "i < length steps" "d \<in> set (ws_depends_on (steps ! i))" for i nm d
    using spec(2) that by (fastforce simp: step_spec_def dependency_problems_def dest: latest_bound)
  then have "validate_workflow \<lparr>wf_name = name, wf_steps = steps\<rparr> = []"
    by (auto simp: validate_workflow_def in_set_enumerate_eq)
  then show ?thesis using Inr spec by (simp add: compose_workflow_def)
qed

text \<open>A declared dependency that comes later or not at all is dropped without notice.\<close>

lemma missing_dependency_dropped:
  "map_sum id (\<lambda>w. (feature_names w, map ws_depends_on (wf_steps w), validate_workflow w))
     (compose_workflow (register_feature ''evidence'' PatternMutation None [''verify_consent''] ''seal_cep'' None []) ''w'' [''seal_cep'']) =
   Inr ([''seal_cep''], [[]], [])"
  by code_simp

end
