(* ===== verification/Exchange.thy ===== *)
theory Exchange
  imports Flow_Correct
begin

text \<open>
  The message exchange of sessions (\<open>libs/kron/src/kron/session/exchange.py\<close>, \<open>message.py\<close>): a mailbox per registered entity, which is a flow
  with a progression for the outgoing messages and one per sender for the incoming ones. A mailbox is an object of the pile of flows; the
  ids drawn for flows, progressions and messages are arguments. \<open>collect\<close> takes the outbox in one step and then runs the deliveries as concurrent tasks,
  each of which is one step: \<open>collect_start\<close> and \<open>deliver_to\<close> are these steps, and the order in which the tasks run is an argument.
\<close>

section \<open>Data\<close>

record 'c message = element +
  ms_content :: 'c
  ms_sender :: "uuid option"
  ms_recipient :: "uuid option"
  ms_channel :: "string option"

type_synonym 'c message_flow = "('c, unit) message_ext flow"

record 'c mailbox = element +
  mb_flow :: "'c message_flow"

record 'c exchange =
  xc_flows :: "'c mailbox pile"
  xc_owners :: "(uuid, uuid) dict"
  xc_stop :: bool

datatype exchange_error =
    AlreadyRegistered uuid | SenderNotRegistered uuid | OwnerNotRegistered uuid | ExchangePile pile_error | ExchangeFlow flow_error

definition is_broadcast :: "'c message \<Rightarrow> bool" where
  "is_broadcast m \<longleftrightarrow> ms_recipient m = None"

definition is_direct :: "'c message \<Rightarrow> bool" where
  "is_direct m \<longleftrightarrow> ms_recipient m \<noteq> None"

definition OUTBOX :: string where
  "OUTBOX = ''outbox''"

definition inbox_name :: "uuid option \<Rightarrow> string" where
  "inbox_name sender = ''inbox_'' @ (case sender of None \<Rightarrow> ''None'' | Some u \<Rightarrow> u)"

definition new_exchange :: "'c exchange" where
  "new_exchange = \<lparr>xc_flows = empty_pile None False, xc_owners = [], xc_stop = False\<rparr>"

section \<open>Registration\<close>

definition mailbox_of :: "uuid \<Rightarrow> 'c exchange \<Rightarrow> 'c mailbox option" where
  "mailbox_of owner x =
    (case map_of (xc_owners x) owner of None \<Rightarrow> None | Some fid \<Rightarrow> map_of (pl_items (xc_flows x)) fid)"

definition exchange_get :: "uuid \<Rightarrow> 'c exchange \<Rightarrow> 'c message_flow option" where
  "exchange_get owner x = map_option mb_flow (mailbox_of owner x)"

definition exchange_has :: "uuid \<Rightarrow> 'c exchange \<Rightarrow> bool" where
  "exchange_has owner x \<longleftrightarrow> map_of (xc_owners x) owner \<noteq> None"

definition owner_ids :: "'c exchange \<Rightarrow> uuid list" where
  "owner_ids x = dict_keys (xc_owners x)"

text \<open>A progression without ids and with a name.\<close>

definition named_progression :: "uuid \<Rightarrow> string \<Rightarrow> prog_element" where
  "named_progression pid nm = \<lparr>el_id = pid, el_type = ''Progression'', fp_prog = new_progression (Some nm) []\<rparr>"

definition empty_mailbox :: "uuid \<Rightarrow> 'c message_flow" where
  "empty_mailbox owner =
    \<lparr>fl_name = Some owner, fl_items = empty_pile (Some {''Message''}) True, fl_progressions = empty_pile None False, fl_names = []\<rparr>"

definition register ::
  "(string \<Rightarrow> string \<Rightarrow> bool) \<Rightarrow> uuid \<Rightarrow> uuid \<Rightarrow> uuid \<Rightarrow> 'c exchange \<Rightarrow> (exchange_error, 'c message_flow) result \<times> 'c exchange" where
  "register sub owner fid pid x =
    (if map_of (xc_owners x) owner \<noteq> None then (Inl (AlreadyRegistered owner), x)
     else
       (case add_progression sub (named_progression pid OUTBOX) (empty_mailbox owner) of
          (Inl e, _) \<Rightarrow> (Inl (ExchangeFlow e), x)
        | (Inr _, f) \<Rightarrow>
            (case pile_add sub \<lparr>el_id = fid, el_type = ''Flow'', mb_flow = f\<rparr> (xc_flows x) of
               (Inl e, fs) \<Rightarrow> (Inl (ExchangePile e), x\<lparr>xc_flows := fs\<rparr>)
             | (Inr _, fs) \<Rightarrow> (Inr f, x\<lparr>xc_flows := fs, xc_owners := dict_set owner fid (xc_owners x)\<rparr>))))"

text \<open>\<open>pile.pop(uid, None)\<close>.\<close>

definition pop_or_none :: "uuid \<Rightarrow> 'x pile \<Rightarrow> (pile_error, 'x option) result \<times> 'x pile" where
  "pop_or_none uid p =
    (case pile_pop uid None p of
       (Inl e, p') \<Rightarrow> (if e = ItemNotFound then Inr None else Inl e, p')
     | (Inr y, p') \<Rightarrow> (Inr (Some y), p'))"

definition unregister :: "uuid \<Rightarrow> 'c exchange \<Rightarrow> (exchange_error, 'c message_flow option) result \<times> 'c exchange" where
  "unregister owner x =
    (case map_of (xc_owners x) owner of
       None \<Rightarrow> (Inr None, x)
     | Some fid \<Rightarrow>
         (let (r, fs) = pop_or_none fid (xc_flows x)
          in (map_sum ExchangePile (map_option mb_flow) r, x\<lparr>xc_flows := fs, xc_owners := dict_pop owner (xc_owners x)\<rparr>)))"

section \<open>Messages\<close>

text \<open>The mailbox object of an owner after its flow has been changed in place.\<close>

definition put_flow :: "uuid \<Rightarrow> 'c message_flow \<Rightarrow> 'c exchange \<Rightarrow> 'c exchange" where
  "put_flow owner f x =
    (case mailbox_of owner x of
       None \<Rightarrow> x
     | Some mb \<Rightarrow> x\<lparr>xc_flows := (xc_flows x)\<lparr>pl_items := dict_set (the (map_of (xc_owners x) owner)) (mb\<lparr>mb_flow := f\<rparr>) (pl_items (xc_flows x))\<rparr>\<rparr>)"

definition new_message :: "uuid \<Rightarrow> uuid \<Rightarrow> uuid option \<Rightarrow> 'c \<Rightarrow> string option \<Rightarrow> 'c message" where
  "new_message mid sender recipient content channel =
    \<lparr>el_id = mid, el_type = ''Message'', ms_content = content, ms_sender = Some sender, ms_recipient = recipient, ms_channel = channel\<rparr>"

definition send ::
  "(string \<Rightarrow> string \<Rightarrow> bool) \<Rightarrow> (string \<Rightarrow> uuid option) \<Rightarrow> uuid \<Rightarrow> uuid \<Rightarrow> uuid option \<Rightarrow> 'c \<Rightarrow> string option \<Rightarrow> 'c exchange \<Rightarrow>
   (exchange_error, 'c message) result \<times> 'c exchange" where
  "send sub parse mid sender recipient content channel x =
    (case exchange_get sender x of
       None \<Rightarrow> (Inl (SenderNotRegistered sender), x)
     | Some f \<Rightarrow>
         (let m = new_message mid sender recipient content channel
          in case add_item sub parse m [RefText OUTBOX] f of
               (Inl e, f') \<Rightarrow> (Inl (ExchangeFlow e), put_flow sender f' x)
             | (Inr _, f') \<Rightarrow> (Inr m, put_flow sender f' x)))"

text \<open>The loop over the outbox: \<open>popleft\<close> until it is empty, each message taken out of the items; an id without an item is passed over.\<close>

definition pop_first :: "progression \<Rightarrow> progression" where
  "pop_first p = (case prog_popleft p of Inl _ \<Rightarrow> p | Inr (_, p') \<Rightarrow> p')"

fun take_messages :: "uuid \<Rightarrow> uuid list \<Rightarrow> 'c message_flow \<Rightarrow> (flow_error, 'c message list) result \<times> 'c message_flow" where
  "take_messages ob [] f = (Inr [], f)"
| "take_messages ob (u # us) f =
    (case pop_or_none u (fl_items f) of
       (Inl e, its) \<Rightarrow> (Inl (FlowPile e), f\<lparr>fl_items := its, fl_progressions := on_progression pop_first ob (fl_progressions f)\<rparr>)
     | (Inr om, its) \<Rightarrow>
         (let (r, f') = take_messages ob us (f\<lparr>fl_items := its, fl_progressions := on_progression pop_first ob (fl_progressions f)\<rparr>)
          in (map_sum id (\<lambda>ms. case om of None \<Rightarrow> ms | Some m \<Rightarrow> m # ms) r, f')))"

text \<open>The deliveries of a message: a copy for every other owner, or the registered recipient.\<close>

definition deliveries_of :: "uuid \<Rightarrow> uuid list \<Rightarrow> 'c message \<Rightarrow> (uuid \<times> 'c message) list" where
  "deliveries_of owner owners m =
    (case ms_recipient m of
       None \<Rightarrow> map (\<lambda>r. (r, m)) (filter (\<lambda>r. r \<noteq> owner) owners)
     | Some r \<Rightarrow> if r \<in> set owners then [(r, m)] else [])"

definition collect_start ::
  "(string \<Rightarrow> uuid option) \<Rightarrow> uuid \<Rightarrow> 'c exchange \<Rightarrow> (exchange_error, (uuid \<times> 'c message) list) result \<times> 'c exchange" where
  "collect_start parse owner x =
    (case exchange_get owner x of
       None \<Rightarrow> (Inl (OwnerNotRegistered owner), x)
     | Some f \<Rightarrow>
         (case get_progression parse (RefText OUTBOX) f of
            Inl e \<Rightarrow> (Inl (ExchangeFlow e), x)
          | Inr outbox \<Rightarrow>
              (let (r, f') = take_messages (el_id outbox) (pg_order (fp_prog outbox)) f
               in (map_sum ExchangeFlow (\<lambda>ms. concat (map (deliveries_of owner (owner_ids x)) ms)) r, put_flow owner f' x))))"

text \<open>One delivery; the exceptions it raises are kept by \<open>gather\<close> and dropped.\<close>

definition deliver_to ::
  "(string \<Rightarrow> string \<Rightarrow> bool) \<Rightarrow> (string \<Rightarrow> uuid option) \<Rightarrow> uuid \<Rightarrow> uuid \<Rightarrow> 'c message \<Rightarrow> 'c exchange \<Rightarrow> (flow_error, unit) result \<times> 'c exchange" where
  "deliver_to sub parse pid recipient m x =
    (case exchange_get recipient x of
       None \<Rightarrow> (Inr (), x)
     | Some f \<Rightarrow>
         (case add_progression sub (named_progression pid (inbox_name (ms_sender m))) f of
            (Inl e, f1) \<Rightarrow>
              if e = FlowPile ExistsError \<or> (\<exists>nm. e = NameExists nm)
              then (let (r, f2) = add_item sub parse m [RefText (inbox_name (ms_sender m))] f1 in (r, put_flow recipient f2 x))
              else (Inl e, put_flow recipient f1 x)
          | (Inr _, f1) \<Rightarrow> (let (r, f2) = add_item sub parse m [RefText (inbox_name (ms_sender m))] f1 in (r, put_flow recipient f2 x))))"

fun deliver_all ::
  "(string \<Rightarrow> string \<Rightarrow> bool) \<Rightarrow> (string \<Rightarrow> uuid option) \<Rightarrow> (uuid \<Rightarrow> uuid \<Rightarrow> uuid) \<Rightarrow> (uuid \<times> 'c message) list \<Rightarrow> 'c exchange \<Rightarrow> 'c exchange" where
  "deliver_all sub parse gen [] x = x"
| "deliver_all sub parse gen ((r, m) # ds) x = deliver_all sub parse gen ds (snd (deliver_to sub parse (gen r (el_id m)) r m x))"

text \<open>\<open>gen\<close> draws the ids of progressions, \<open>schedule\<close> is the order the delivery tasks run in.\<close>

definition collect ::
  "(string \<Rightarrow> string \<Rightarrow> bool) \<Rightarrow> (string \<Rightarrow> uuid option) \<Rightarrow> (uuid \<Rightarrow> uuid \<Rightarrow> uuid) \<Rightarrow>
   ((uuid \<times> 'c message) list \<Rightarrow> (uuid \<times> 'c message) list) \<Rightarrow> uuid \<Rightarrow> 'c exchange \<Rightarrow> (exchange_error, nat) result \<times> 'c exchange" where
  "collect sub parse gen schedule owner x =
    (case collect_start parse owner x of
       (Inl e, x') \<Rightarrow> (Inl e, x')
     | (Inr ds, x') \<Rightarrow> (Inr (card (set (map (\<lambda>d. el_id (snd d)) ds))), deliver_all sub parse gen (schedule ds) x'))"

text \<open>A \<open>ValueError\<close> of one owner is passed over; other exceptions end the round.\<close>

fun collect_owners ::
  "(string \<Rightarrow> string \<Rightarrow> bool) \<Rightarrow> (string \<Rightarrow> uuid option) \<Rightarrow> (uuid \<Rightarrow> uuid \<Rightarrow> uuid) \<Rightarrow>
   ((uuid \<times> 'c message) list \<Rightarrow> (uuid \<times> 'c message) list) \<Rightarrow> uuid list \<Rightarrow> 'c exchange \<Rightarrow> (exchange_error, nat) result \<times> 'c exchange" where
  "collect_owners sub parse gen schedule [] x = (Inr 0, x)"
| "collect_owners sub parse gen schedule (owner # owners) x =
    (case collect sub parse gen schedule owner x of
       (Inr n, x') \<Rightarrow> (let (r, x'') = collect_owners sub parse gen schedule owners x' in (map_sum id (\<lambda>k. n + k) r, x''))
     | (Inl e, x') \<Rightarrow>
         (case e of
            OwnerNotRegistered _ \<Rightarrow> collect_owners sub parse gen schedule owners x'
          | ExchangeFlow (FlowPile PileValueError) \<Rightarrow> collect_owners sub parse gen schedule owners x'
          | _ \<Rightarrow> (Inl e, x')))"

definition collect_all ::
  "(string \<Rightarrow> string \<Rightarrow> bool) \<Rightarrow> (string \<Rightarrow> uuid option) \<Rightarrow> (uuid \<Rightarrow> uuid \<Rightarrow> uuid) \<Rightarrow>
   ((uuid \<times> 'c message) list \<Rightarrow> (uuid \<times> 'c message) list) \<Rightarrow> 'c exchange \<Rightarrow> (exchange_error, nat) result \<times> 'c exchange" where
  "collect_all sub parse gen schedule x = collect_owners sub parse gen schedule (owner_ids x) x"

definition exchange_stop :: "'c exchange \<Rightarrow> 'c exchange" where
  "exchange_stop x = x\<lparr>xc_stop := True\<rparr>"

section \<open>Reading\<close>

definition is_inbox :: "string \<Rightarrow> bool" where
  "is_inbox nm \<longleftrightarrow> take 6 nm = ''inbox_''"

text \<open>The messages of the progressions that are inboxes, of one sender if it is given.\<close>

definition receive :: "uuid \<Rightarrow> uuid option \<Rightarrow> 'c exchange \<Rightarrow> (pile_error, 'c message list) result" where
  "receive owner sender x =
    (case exchange_get owner x of
       None \<Rightarrow> Inr []
     | Some f \<Rightarrow>
         bind_r (pile_list (fl_progressions f)) (\<lambda>prs.
           Inr (concat (map (\<lambda>pr. case real_name pr of
                                  None \<Rightarrow> []
                                | Some nm \<Rightarrow>
                                    if is_inbox nm \<and> (sender \<noteq> None \<longrightarrow> nm = inbox_name sender)
                                    then List.map_filter (map_of (pl_items (fl_items f))) (pg_order (fp_prog pr)) else []) prs))))"

definition pop_message ::
  "(string \<Rightarrow> uuid option) \<Rightarrow> uuid \<Rightarrow> uuid \<Rightarrow> 'c exchange \<Rightarrow> (flow_error, 'c message option) result \<times> 'c exchange" where
  "pop_message parse owner sender x =
    (case exchange_get owner x of
       None \<Rightarrow> (Inr None, x)
     | Some f \<Rightarrow>
         (case get_progression parse (RefText (inbox_name (Some sender))) f of
            Inl e \<Rightarrow> (if \<exists>k. e = FlowKeyError k then Inr None else Inl e, x)
          | Inr inbox \<Rightarrow>
              (case pg_order (fp_prog inbox) of
                 [] \<Rightarrow> (Inr None, x)
               | u # us \<Rightarrow>
                   (let (r, its) = pop_or_none u (fl_items f)
                    in (map_sum FlowPile id r,
                        put_flow owner (f\<lparr>fl_items := its, fl_progressions := on_progression pop_first (el_id inbox) (fl_progressions f)\<rparr>) x)))))"

end
