(* ===== verification/Exchange_Correct.thy ===== *)
theory Exchange_Correct
  imports Exchange
begin

text \<open>
  The exchange refines queues of messages: an outgoing queue per owner, an incoming one per owner and sender, and the deliveries under way.
\<close>

section \<open>Mailboxes as queues\<close>

definition line :: "'x flow \<Rightarrow> string \<Rightarrow> uuid list" where
  "line f nm = (case map_of (fl_names f) nm of None \<Rightarrow> [] | Some pid \<Rightarrow> pg_order (fp_prog (the (prog_at f pid))))"

definition queue :: "'c message_flow \<Rightarrow> string \<Rightarrow> 'c message list" where
  "queue f nm = map (\<lambda>u. the (item_at f u)) (line f nm)"

text \<open>Every message of a mailbox is in exactly one of its progressions, once.\<close>

definition box_ok :: "'c message_flow \<Rightarrow> bool" where
  "box_ok f \<longleftrightarrow> flow_ok f \<and>
     pl_item_type (fl_items f) = Some {''Message''} \<and> pl_strict_type (fl_items f) \<and> pl_item_type (fl_progressions f) = None \<and>
     (\<forall>pid pr. prog_at f pid = Some pr \<longrightarrow> real_name pr \<noteq> None) \<and>
     (\<forall>nm. distinct (line f nm)) \<and> (\<forall>nm nm'. nm \<noteq> nm' \<longrightarrow> set (line f nm) \<inter> set (line f nm') = {}) \<and>
     dom (item_at f) = (\<Union>nm. set (line f nm))"

lemma line_at: "map_of (fl_names f) nm = Some pid \<Longrightarrow> prog_at f pid = Some pr \<Longrightarrow> line f nm = pg_order (fp_prog pr)"
  by (simp add: line_def)

lemma flow_names:
  assumes "flow_ok f" "map_of (fl_names f) nm = Some pid"
  obtains pr where "prog_at f pid = Some pr" "real_name pr = Some nm" "el_id pr = pid" "line f nm = pg_order (fp_prog pr)" "prog_ok (fp_prog pr)"
proof -
  have "\<exists>pr. prog_at f pid = Some pr \<and> real_name pr = Some nm" using assms unfolding flow_ok_def names_ok_def by blast
  then obtain pr where pr: "prog_at f pid = Some pr" "real_name pr = Some nm" by blast
  moreover have "el_id pr = pid" "prog_ok (fp_prog pr)" using assms(1) pr(1) pile_item_id by (auto simp: flow_ok_def progs_ok_def)
  ultimately show ?thesis using that assms(2) line_at by metis
qed

text \<open>Different names denote different progressions.\<close>

lemma names_inj: "flow_ok f \<Longrightarrow> map_of (fl_names f) nm = Some pid \<Longrightarrow> map_of (fl_names f) nm' = Some pid \<Longrightarrow> nm = nm'"
  using flow_names by (metis option.inject)

lemma get_by_name:
  assumes "flow_ok f" "map_of (fl_names f) nm = Some pid"
  shows "\<exists>pr. get_progression parse (RefText nm) f = Inr pr \<and> el_id pr = pid \<and> pg_order (fp_prog pr) = line f nm"
  using flow_names [OF assms] by (metis (no_types, lifting) assms(2) get_progression_def lookup_progression_def pile_get_def prog_ref.simps(10) option.simps(5) map_sum.simps(2) id_apply)

lemma empty_mailbox_ok: "box_ok (empty_mailbox owner)" "line (empty_mailbox owner) = (\<lambda>_. [])" "item_at (empty_mailbox owner) = Map.empty"
proof -
  show l: "line (empty_mailbox owner) = (\<lambda>_. [])" by (simp add: line_def empty_mailbox_def fun_eq_iff)
  show i: "item_at (empty_mailbox owner) = Map.empty" by (simp add: empty_mailbox_def empty_pile_def)
  have "flow_ok (empty_mailbox owner)"
    unfolding flow_ok_def progs_ok_def names_ok_def empty_mailbox_def by (simp add: empty_pile_ok) (simp add: empty_pile_def)
  then show "box_ok (empty_mailbox owner)" by (simp add: box_ok_def l i) (simp add: empty_mailbox_def empty_pile_def)
qed

lemma open_box:
  assumes "box_ok f" "map_of (fl_names f) nm = None" "nm \<noteq> []" "prog_at f pid = None"
  shows "\<exists>f'. add_progression sub (named_progression pid nm) f = (Inr (), f') \<and> box_ok f' \<and> line f' = line f \<and> item_at f' = item_at f \<and>
    map_of (fl_names f') = (map_of (fl_names f))(nm \<mapsto> pid)"
proof -
  let ?pr = "named_progression pid nm"
  let ?f = "f\<lparr>fl_progressions := store ?pr (fl_progressions f), fl_names := register_name ?pr (fl_names f)\<rparr>"
  have pr: "real_name ?pr = Some nm" "el_id ?pr = pid" "pg_order (fp_prog ?pr) = []" "prog_ok (fp_prog ?pr)"
    using assms(3) by (simp_all add: named_progression_def real_name_def new_progression_def prog_ok_def)
  have add: "add_progression sub ?pr f = (Inr (), ?f)"
    using assms by (simp add: add_progression_def name_taken_def pr missing_ids_def pile_add_def type_ok_def box_ok_def)
  have ok: "flow_ok f" using assms(1) by (simp add: box_ok_def)
  from add_progression_ok [OF ok pr(4), of sub] have ok': "flow_ok ?f" "prog_at ?f = (prog_at f)(pid \<mapsto> ?pr)" "item_at ?f = item_at f"
    unfolding add by (simp_all add: pr(2))
  have names: "map_of (register_name ?pr (fl_names f)) = (map_of (fl_names f))(nm \<mapsto> pid)" by (simp add: register_name_def pr)
  have "line ?f n = line f n" for n
  proof (cases "map_of (fl_names f) n")
    case None
    then show ?thesis by (simp add: line_def names store_lookup pr)
  next
    case (Some p)
    then obtain q where "prog_at f p = Some q" using flow_names [OF ok] by blast
    then show ?thesis using Some assms(2,4) by (auto simp: line_def names store_lookup pr)
  qed
  then have l: "line ?f = line f" by (simp add: fun_eq_iff)
  have "real_name q \<noteq> None" if "prog_at ?f p = Some q" for p q
    using assms(1) that pr(1) unfolding ok'(2) box_ok_def by (auto split: if_splits)
  then have "box_ok ?f" using assms(1) ok'(1) unfolding box_ok_def l ok'(3) by (simp add: store_def)
  then show ?thesis using add l ok'(3) names by (intro exI [of _ ?f]) simp
qed

lemma put_box:
  assumes "box_ok f" "map_of (fl_names f) nm = Some pid" "item_at f (el_id m) = None" "el_type m = ''Message''"
  shows "\<exists>f'. add_item sub parse m [RefText nm] f = (Inr (), f') \<and> box_ok f' \<and> line f' = (line f)(nm := line f nm @ [el_id m]) \<and>
    item_at f' = (item_at f)(el_id m \<mapsto> m) \<and> fl_names f' = fl_names f"
proof -
  have ok: "flow_ok f" using assms(1) by (simp add: box_ok_def)
  obtain pr where pr: "get_progression parse (RefText nm) f = Inr pr" "el_id pr = pid" "pg_order (fp_prog pr) = line f nm"
    using get_by_name [OF ok assms(2)] by blast
  let ?f = "f\<lparr>fl_items := store m (fl_items f), fl_progressions := on_progression (prog_append (el_id m)) pid (fl_progressions f)\<rparr>"
  have refs: "map_r (resolve_ref parse f) [RefText nm] = Inr [pid]" by (simp add: resolve_ref_def pr)
  have add: "add_item sub parse m [RefText nm] f = (Inr (), ?f)"
    using assms unfolding add_item_def refs by (simp add: pile_add_def type_ok_def box_ok_def)
  from add_item_ok [OF ok, where sub = sub and parse = parse and item = m and refs = "[RefText nm]"]
  have ok': "flow_ok ?f" "item_at ?f = (item_at f)(el_id m \<mapsto> m)" unfolding add by simp_all
  have "line ?f n = (if n = nm then line f nm @ [el_id m] else line f n)" for n
  proof (cases "map_of (fl_names f) n")
    case None
    then show ?thesis using assms(2) by (auto simp: line_def)
  next
    case (Some p)
    obtain q where q: "prog_at f p = Some q" using flow_names [OF ok Some] by blast
    show ?thesis using Some q assms(2) names_inj [OF ok assms(2), of n]
      by (auto simp: line_def on_progression_lookup(1) prog_append_def)
  qed
  then have l: "line ?f = (line f)(nm := line f nm @ [el_id m])" by auto
  have new: "el_id m \<notin> set (line f n)" for n using assms(1,3) unfolding box_ok_def by (metis UN_I UNIV_I domIff)
  have "real_name q \<noteq> None" if "prog_at ?f p = Some q" for p q
    using assms(1) that by (auto simp: box_ok_def on_progression_lookup(1) real_name_def prog_append_def split: if_splits)
  moreover have "pl_item_type (fl_progressions ?f) = pl_item_type (fl_progressions f)" by (simp add: on_progression_def split: option.split)
  moreover have "dom (item_at ?f) = (\<Union>n. set (line ?f n))" using assms(1) unfolding l ok'(2) by (auto simp: box_ok_def split: if_splits)
  ultimately have "box_ok ?f" using assms(1) ok'(1) new unfolding box_ok_def l by (simp add: store_def)
  then show ?thesis using add l ok'(2) by (intro exI [of _ ?f]) simp
qed

lemma pop_first_props: "pg_order (pop_first p) = tl (pg_order p)" "pg_name (pop_first p) = pg_name p" "prog_ok p \<Longrightarrow> prog_ok (pop_first p)"
  "set (pg_order (pop_first p)) \<subseteq> set (pg_order p)"
  by (auto simp: pop_first_def prog_popleft_def forget_def prog_ok_def split: list.split)

lemma pop_or_none_ok: "pile_ok p \<Longrightarrow> pop_or_none u p = (Inr (map_of (pl_items p) u), if map_of (pl_items p) u = None then p else pile_drop u p)"
  using pile_remove_ok [of p u] by (auto simp: pop_or_none_def pile_pop_def pile_remove_def split: option.splits)

lemma take_box:
  fixes f :: "'c message_flow"
  assumes "box_ok f" "map_of (fl_names f) nm = Some pid" "line f nm = u # us"
  defines "f' \<equiv> f\<lparr>fl_items := pile_drop u (fl_items f), fl_progressions := on_progression pop_first pid (fl_progressions f)\<rparr>"
  shows "pop_or_none u (fl_items f) = (Inr (Some (the (item_at f u))), pile_drop u (fl_items f))"
    "box_ok f'" "line f' = (line f)(nm := us)" "item_at f' = (item_at f)(u := None)" "fl_names f' = fl_names f"
proof -
  have ok: "flow_ok f" and its: "pile_ok (fl_items f)" using assms(1) unfolding box_ok_def flow_ok_def by blast+
  have dist: "distinct (u # us)" using assms(1,3) unfolding box_ok_def by metis
  have other: "u \<notin> set (line f n)" if "n \<noteq> nm" for n using assms(1,3) that unfolding box_ok_def by (metis disjoint_iff list.set_intros(1))
  have "u \<in> dom (item_at f)" using assms(1,3) unfolding box_ok_def by (metis UN_I UNIV_I list.set_intros(1))
  then show "pop_or_none u (fl_items f) = (Inr (Some (the (item_at f u))), pile_drop u (fl_items f))"
    using pop_or_none_ok [OF its, of u] by auto
  show i: "item_at f' = (item_at f)(u := None)" using pile_seq.get_drop [OF its] by (auto simp: f'_def fun_eq_iff)
  show "fl_names f' = fl_names f" by (simp add: f'_def)
  have ln: "line f' n = (if n = nm then us else line f n)" for n
  proof (cases "map_of (fl_names f) n")
    case None
    then show ?thesis using assms(2) by (auto simp: line_def f'_def)
  next
    case (Some p)
    obtain q where q: "prog_at f p = Some q" using flow_names [OF ok Some] by blast
    show ?thesis using Some q assms(2,3) names_inj [OF ok assms(2), of n]
      by (auto simp: line_def on_progression_lookup(1) pop_first_props f'_def)
  qed
  then show l: "line f' = (line f)(nm := us)" by auto
  have dom: "dom (item_at f') = (\<Union>n. set (line f' n))"
  proof -
    have "dom (item_at f) = (\<Union>n. set (line f n))" using assms(1) by (simp add: box_ok_def)
    also have "\<dots> - {u} = (\<Union>n. set (line f' n))" using other dist assms(3) unfolding ln by (auto split: if_splits) (metis set_ConsD)
    finally show ?thesis by (simp add: i)
  qed
  have ok1: "progs_ok (dom (item_at f)) (fl_progressions f)" "names_ok (fl_names f) (fl_progressions f)" using ok unfolding flow_ok_def by blast+
  have "prog_ok (pop_first (fp_prog pr)) \<and> set (pg_order (pop_first (fp_prog pr))) \<subseteq> dom (item_at f)" if "prog_at f pid = Some pr" for pr
    using ok1(1) that pop_first_props(3,4) unfolding progs_ok_def by blast
  from on_progression_ok [OF ok1 pop_first_props(2) this]
  have ps: "progs_ok (dom (item_at f)) (fl_progressions f')" "names_ok (fl_names f') (fl_progressions f')" by (simp_all add: f'_def)
  have named: "real_name q \<noteq> None" if "prog_at f' p = Some q" for p q
    using assms(1) that by (auto simp: box_ok_def f'_def on_progression_lookup(1) real_name_def pop_first_props split: if_splits)
  have "set (pg_order (fp_prog q)) \<subseteq> dom (item_at f')" if q: "prog_at f' p = Some q" for p q
  proof -
    obtain n where "real_name q = Some n" using named [OF q] by blast
    then have "map_of (fl_names f') n = Some p" by (rule names_okD [OF ps(2) q])
    from line_at [OF this q] have "pg_order (fp_prog q) = line f' n" ..
    then show ?thesis unfolding dom by auto
  qed
  then have "progs_ok (dom (item_at f')) (fl_progressions f')" using ps(1) by (auto simp: progs_ok_def)
  then have "flow_ok f'" using ps(2) pile_drop_props(2) [OF its] by (simp add: flow_ok_def f'_def)
  moreover have "pl_item_type (fl_items f') = pl_item_type (fl_items f)" "pl_strict_type (fl_items f') = pl_strict_type (fl_items f)"
    "pl_item_type (fl_progressions f') = pl_item_type (fl_progressions f)"
    by (auto simp: f'_def on_progression_def pile_drop_def pile_remove_def take_out_def Let_def split: option.split sum.split)
  moreover have "distinct (line f' n)" for n using assms(1) dist unfolding ln box_ok_def by (simp split: if_split)
  moreover have "set (line f' n) \<inter> set (line f' n') = {}" if "n \<noteq> n'" for n n'
  proof -
    have "set (line f' k) \<subseteq> set (line f k)" for k using assms(3) by (auto simp: ln)
    moreover have "set (line f n) \<inter> set (line f n') = {}" using assms(1) that unfolding box_ok_def by blast
    ultimately show ?thesis by blast
  qed
  ultimately show "box_ok f'" using assms(1) named dom unfolding box_ok_def by (simp only: simp_thms) blast
qed


lemma queue_ids: "box_ok f \<Longrightarrow> map el_id (queue f nm) = line f nm"
proof -
  assume ok: "box_ok f"
  have "el_id (the (item_at f u)) = u" if "u \<in> set (line f nm)" for u
  proof -
    have "u \<in> dom (item_at f)" using ok that unfolding box_ok_def by blast
    moreover have "pile_ok (fl_items f)" using ok unfolding box_ok_def flow_ok_def by blast
    ultimately show ?thesis using pile_item_id by fastforce
  qed
  then show ?thesis by (simp add: queue_def map_idI)
qed

lemma line_items: "box_ok f \<Longrightarrow> u \<in> set (line f nm) \<Longrightarrow> item_at f u \<noteq> None"
  unfolding box_ok_def by blast

lemma queue_cong: "(\<And>u. u \<in> set (line f' nm) \<Longrightarrow> item_at f' u = item_at f u) \<Longrightarrow> line f' nm = line f nm \<Longrightarrow> queue f' nm = queue f nm"
  by (simp add: queue_def)

text \<open>The effect of an added message on the queues.\<close>

lemma put_queue:
  assumes "box_ok f" "item_at f (el_id m) = None" "line f' = (line f)(nm := line f nm @ [el_id m])" "item_at f' = (item_at f)(el_id m \<mapsto> m)"
  shows "queue f' n = (if n = nm then queue f nm @ [m] else queue f n)"
proof -
  have "u \<noteq> el_id m" if "u \<in> set (line f k)" for u k using line_items [OF assms(1) that] assms(2) by auto
  then show ?thesis by (auto simp: queue_def assms(3,4))
qed

lemma take_queue:
  assumes "box_ok f" "line f nm = u # us" "line f' = (line f)(nm := us)" "item_at f' = (item_at f)(u := None)"
  shows "queue f' n = (if n = nm then tl (queue f nm) else queue f n)"
proof -
  have "distinct (u # us)" using assms(1,2) unfolding box_ok_def by metis
  moreover have "u \<notin> set (line f k)" if "k \<noteq> nm" for k using assms(1,2) that unfolding box_ok_def by (metis disjoint_iff list.set_intros(1))
  ultimately show ?thesis using assms(2) by (auto simp: queue_def assms(3,4))
qed

lemma take_messages_ok:
  "box_ok f \<Longrightarrow> map_of (fl_names f) nm = Some ob \<Longrightarrow> line f nm = us \<Longrightarrow>
   \<exists>f'. take_messages ob us f = (Inr (queue f nm), f') \<and> box_ok f' \<and> line f' = (line f)(nm := []) \<and> fl_names f' = fl_names f \<and>
     item_at f' = (\<lambda>v. if v \<in> set us then None else item_at f v) \<and> (\<forall>n. queue f' n = (if n = nm then [] else queue f n))"
proof (induction us arbitrary: f)
  case Nil
  then show ?case by (auto simp: queue_def fun_eq_iff)
next
  case (Cons u us)
  define g where "g = f\<lparr>fl_items := pile_drop u (fl_items f), fl_progressions := on_progression pop_first ob (fl_progressions f)\<rparr>"
  note t = take_box [OF Cons.prems, folded g_def]
  have q: "queue g n = (if n = nm then tl (queue f nm) else queue f n)" for n by (rule take_queue [OF Cons.prems(1,3) t(3,4)])
  have head: "queue f nm = the (item_at f u) # queue g nm" unfolding q by (simp add: queue_def Cons.prems(3))
  have "line g nm = us" "map_of (fl_names g) nm = Some ob" by (simp_all add: t(3,5) Cons.prems(2))
  from Cons.IH [OF t(2) this(2,1)] obtain f' where
    f': "take_messages ob us g = (Inr (queue g nm), f')" "box_ok f'" "line f' = (line g)(nm := [])" "fl_names f' = fl_names g"
      "item_at f' = (\<lambda>v. if v \<in> set us then None else item_at g v)" "\<forall>n. queue f' n = (if n = nm then [] else queue g n)" by blast
  have "take_messages ob (u # us) f = (Inr (queue f nm), f')" using f'(1) by (simp add: t(1) g_def [symmetric] head)
  moreover have "line f' = (line f)(nm := [])" by (simp add: f'(3) t(3))
  moreover have "item_at f' = (\<lambda>v. if v \<in> set (u # us) then None else item_at f v)" by (auto simp: f'(5) t(4))
  moreover have "\<forall>n. queue f' n = (if n = nm then [] else queue f n)" by (simp add: f'(6) q)
  ultimately show ?case using f'(2,4) t(5) by auto
qed

lemma take_messages_progs: "prog_at (snd (take_messages ob us f)) p = None \<longleftrightarrow> prog_at f p = None"
proof (induction us arbitrary: f)
  case (Cons u us)
  obtain r its where p: "pop_or_none u (fl_items f) = (r, its)" by (cases "pop_or_none u (fl_items f)")
  let ?f = "f\<lparr>fl_items := its, fl_progressions := on_progression pop_first ob (fl_progressions f)\<rparr>"
  have "map_of (pl_items (on_progression pop_first ob (fl_progressions f))) p = None \<longleftrightarrow> prog_at f p = None"
    unfolding on_progression_lookup(1) by (simp del: map_of_eq_None_iff)
  then show ?case using Cons [of ?f] by (cases r) (simp_all add: p case_prod_beta del: map_of_eq_None_iff)
qed simp

section \<open>The index of owners\<close>

definition index_ok :: "'c exchange \<Rightarrow> bool" where
  "index_ok x \<longleftrightarrow> pile_ok (xc_flows x) \<and> pl_item_type (xc_flows x) = None \<and> distinct (dict_keys (xc_owners x)) \<and>
     (\<forall>owner fid. map_of (xc_owners x) owner = Some fid \<longrightarrow> map_of (pl_items (xc_flows x)) fid \<noteq> None) \<and>
     inj_on (map_of (xc_owners x)) (dom (map_of (xc_owners x)))"

lemma get_registered: "index_ok x \<Longrightarrow> exchange_get owner x = None \<longleftrightarrow> owner \<notin> set (owner_ids x)"
  unfolding owner_ids_def set_map map_of_eq_None_iff [symmetric]
  by (cases "map_of (xc_owners x) owner") (auto simp: exchange_get_def mailbox_of_def index_ok_def simp del: map_of_eq_None_iff not_None_eq)

lemma put_flow_props:
  assumes "index_ok x" "exchange_get owner x = Some f"
  shows "index_ok (put_flow owner f' x)" "exchange_get k (put_flow owner f' x) = (if k = owner then Some f' else exchange_get k x)"
    "owner_ids (put_flow owner f' x) = owner_ids x"
proof -
  obtain fid mb where o: "map_of (xc_owners x) owner = Some fid" "map_of (pl_items (xc_flows x)) fid = Some mb"
    using assms(2) by (auto simp: exchange_get_def mailbox_of_def split: option.splits)
  have ps: "pile_ok (xc_flows x)" using assms(1) by (simp add: index_ok_def)
  let ?mb = "mb\<lparr>mb_flow := f'\<rparr>"
  have fid: "el_id ?mb = fid" using pile_item_id [OF ps o(2)] by simp
  have put: "put_flow owner f' x = x\<lparr>xc_flows := (xc_flows x)\<lparr>pl_items := dict_set fid ?mb (pl_items (xc_flows x))\<rparr>\<rparr>"
    by (simp add: put_flow_def mailbox_of_def o)
  have "pile_ok (xc_flows (put_flow owner f' x))" unfolding put using update_elems(2) [OF ps, of ?mb] o(2) unfolding fid by simp
  then show "index_ok (put_flow owner f' x)" using assms(1) unfolding index_ok_def put by simp
  have uniq: "k = owner" if "map_of (xc_owners x) k = Some fid" for k
    using assms(1) that o(1) unfolding index_ok_def by (elim conjE inj_onD) auto
  show "exchange_get k (put_flow owner f' x) = (if k = owner then Some f' else exchange_get k x)"
  proof (cases "map_of (xc_owners x) k")
    case None
    then show ?thesis using o(1) by (auto simp: exchange_get_def mailbox_of_def put)
  next
    case (Some i)
    then show ?thesis using o uniq [of k] by (cases "i = fid") (auto simp: exchange_get_def mailbox_of_def put)
  qed
  show "owner_ids (put_flow owner f' x) = owner_ids x" by (simp add: owner_ids_def put)
qed


section \<open>The invariant\<close>

abbreviation box :: "'c exchange \<Rightarrow> uuid \<Rightarrow> 'c message_flow option" where
  "box x owner \<equiv> exchange_get owner x"

text \<open>The queue of a name in the mailbox of an owner; \<open>used\<close> holds of the ids of the messages that are somewhere.\<close>

definition waiting :: "'c exchange \<Rightarrow> uuid \<Rightarrow> string \<Rightarrow> 'c message list" where
  "waiting x owner nm = (case box x owner of None \<Rightarrow> [] | Some f \<Rightarrow> queue f nm)"

definition used :: "'c exchange \<Rightarrow> (uuid \<times> 'c message) list \<Rightarrow> uuid \<Rightarrow> bool" where
  "used x flight u \<longleftrightarrow> (\<exists>owner f. box x owner = Some f \<and> item_at f u \<noteq> None) \<or> u \<in> el_id ` snd ` set flight"

definition boxes_ok :: "'c exchange \<Rightarrow> bool" where
  "boxes_ok x \<longleftrightarrow> (\<forall>owner f. box x owner = Some f \<longrightarrow>
     box_ok f \<and> map_of (fl_names f) OUTBOX \<noteq> None \<and> (\<forall>m\<in>set (queue f OUTBOX). ms_sender m = Some owner \<and> el_type m = ''Message'') \<and>
     (\<forall>owner' f'. box x owner' = Some f' \<longrightarrow> owner' \<noteq> owner \<longrightarrow> (\<forall>u\<in>set (line f OUTBOX). item_at f' u = None)))"

text \<open>The deliveries under way: a message is in no outbox any more and not yet in the mailbox of its recipient.\<close>

definition flight_ok :: "'c exchange \<Rightarrow> (uuid \<times> 'c message) list \<Rightarrow> bool" where
  "flight_ok x flight \<longleftrightarrow> distinct (map (\<lambda>(r, m). (r, el_id m)) flight) \<and>
     (\<forall>(r, m)\<in>set flight. el_type m = ''Message'' \<and> ms_sender m \<noteq> None \<and> (\<forall>f. box x r = Some f \<longrightarrow> item_at f (el_id m) = None) \<and>
        (\<forall>owner f. box x owner = Some f \<longrightarrow> el_id m \<notin> set (line f OUTBOX)))"

definition post_ok :: "'c exchange \<Rightarrow> (uuid \<times> 'c message) list \<Rightarrow> bool" where
  "post_ok x flight \<longleftrightarrow> index_ok x \<and> boxes_ok x \<and> flight_ok x flight"

lemma boxes_okD:
  assumes "boxes_ok x" "box x owner = Some f"
  shows "box_ok f" "map_of (fl_names f) OUTBOX \<noteq> None" "\<And>m. m \<in> set (queue f OUTBOX) \<Longrightarrow> ms_sender m = Some owner \<and> el_type m = ''Message''"
    "\<And>owner' f' u. box x owner' = Some f' \<Longrightarrow> owner' \<noteq> owner \<Longrightarrow> u \<in> set (line f OUTBOX) \<Longrightarrow> item_at f' u = None"
  using assms unfolding boxes_ok_def by blast+

text \<open>A change of one mailbox keeps the invariant of the mailboxes if it keeps them apart.\<close>

lemma boxes_ok_put:
  assumes "index_ok x" "boxes_ok x" "box x owner = Some f" "box_ok f'" "map_of (fl_names f') OUTBOX \<noteq> None"
    "\<And>m. m \<in> set (queue f' OUTBOX) \<Longrightarrow> ms_sender m = Some owner \<and> el_type m = ''Message''"
    "\<And>k g u. box x k = Some g \<Longrightarrow> k \<noteq> owner \<Longrightarrow> u \<in> set (line f' OUTBOX) \<Longrightarrow> item_at g u = None"
    "\<And>k g u. box x k = Some g \<Longrightarrow> k \<noteq> owner \<Longrightarrow> u \<in> set (line g OUTBOX) \<Longrightarrow> item_at f' u = None"
  shows "boxes_ok (put_flow owner f' x)"
  unfolding boxes_ok_def put_flow_props(2) [OF assms(1,3)]
proof (intro allI impI)
  fix k g assume g: "(if k = owner then Some f' else box x k) = Some g"
  show "box_ok g \<and> map_of (fl_names g) OUTBOX \<noteq> None \<and> (\<forall>m\<in>set (queue g OUTBOX). ms_sender m = Some k \<and> el_type m = ''Message'') \<and>
     (\<forall>k' g'. (if k' = owner then Some f' else box x k') = Some g' \<longrightarrow> k' \<noteq> k \<longrightarrow> (\<forall>u\<in>set (line g OUTBOX). item_at g' u = None))"
  proof (cases "k = owner")
    case True
    then have "g = f'" using g by simp
    then show ?thesis using assms(4-7) True by auto
  next
    case False
    then have g: "box x k = Some g" using g by simp
    note ok = boxes_okD [OF assms(2) g]
    have "item_at g' u = None" if "(if k' = owner then Some f' else box x k') = Some g'" "k' \<noteq> k" "u \<in> set (line g OUTBOX)" for k' g' u
      using that assms(8) [OF g False that(3)] ok(4) [of k' g' u] by (auto split: if_splits)
    then show ?thesis using ok(1-3) by blast
  qed
qed

lemma flight_okD:
  assumes "flight_ok x flight" "(r, m) \<in> set flight"
  shows "el_type m = ''Message''" "ms_sender m \<noteq> None" "\<And>f. box x r = Some f \<Longrightarrow> item_at f (el_id m) = None"
    "\<And>owner f. box x owner = Some f \<Longrightarrow> el_id m \<notin> set (line f OUTBOX)"
  using assms unfolding flight_ok_def by blast+

lemma flight_okI:
  assumes "distinct (map (\<lambda>(r, m). (r, el_id m)) flight)"
    "\<And>r m. (r, m) \<in> set flight \<Longrightarrow> el_type m = ''Message'' \<and> ms_sender m \<noteq> None"
    "\<And>r m f. (r, m) \<in> set flight \<Longrightarrow> box x r = Some f \<Longrightarrow> item_at f (el_id m) = None"
    "\<And>r m owner f. (r, m) \<in> set flight \<Longrightarrow> box x owner = Some f \<Longrightarrow> el_id m \<notin> set (line f OUTBOX)"
  shows "flight_ok x flight"
  using assms unfolding flight_ok_def by blast

lemma flight_ok_put:
  assumes "index_ok x" "flight_ok x flight" "box x owner = Some f"
    "\<And>m. (owner, m) \<in> set flight \<Longrightarrow> item_at f' (el_id m) = None" "\<And>r m. (r, m) \<in> set flight \<Longrightarrow> el_id m \<notin> set (line f' OUTBOX)"
  shows "flight_ok (put_flow owner f' x) flight"
proof (rule flight_okI)
  show "distinct (map (\<lambda>(r, m). (r, el_id m)) flight)" using assms(2) by (simp add: flight_ok_def)
  fix r m assume rm: "(r, m) \<in> set flight"
  note d = flight_okD [OF assms(2) rm]
  show "el_type m = ''Message'' \<and> ms_sender m \<noteq> None" using d(1,2) by blast
  show "item_at g (el_id m) = None" if "box (put_flow owner f' x) r = Some g" for g
    using that d(3) assms(4) rm unfolding put_flow_props(2) [OF assms(1,3)] by (cases "r = owner") auto
  show "el_id m \<notin> set (line g OUTBOX)" if "box (put_flow owner f' x) k = Some g" for k g
    using that d(4) assms(5) [OF rm] unfolding put_flow_props(2) [OF assms(1,3)] by (cases "k = owner") auto
qed

lemma waiting_put:
  assumes "index_ok x" "box x owner = Some f"
  shows "waiting (put_flow owner f' x) k nm = (if k = owner then queue f' nm else waiting x k nm)"
  by (simp add: waiting_def put_flow_props(2) [OF assms])

lemma waiting_at: "box x owner = Some f \<Longrightarrow> waiting x owner nm = queue f nm"
  by (simp add: waiting_def)

section \<open>Steps\<close>

lemma inbox_not_outbox [simp]: "inbox_name sender \<noteq> OUTBOX" "inbox_name sender \<noteq> []" "OUTBOX \<noteq> inbox_name sender"
  by (simp_all add: inbox_name_def OUTBOX_def)

lemma send_step:
  assumes ok: "post_ok x flight" and fresh: "\<not> used x flight mid" and f: "box x sender = Some f" and m_def: "m = new_message mid sender recipient content channel"
  shows "\<exists>x'. send sub parse mid sender recipient content channel x = (Inr m, x') \<and> post_ok x' flight \<and> owner_ids x' = owner_ids x \<and>
    waiting x' = (\<lambda>k n. if k = sender \<and> n = OUTBOX then waiting x sender OUTBOX @ [m] else waiting x k n)"
proof -
  have ix: "index_ok x" and bs: "boxes_ok x" and fl: "flight_ok x flight" using ok by (simp_all add: post_ok_def)
  note b = boxes_okD [OF bs f]
  obtain pid where pid: "map_of (fl_names f) OUTBOX = Some pid" using b(2) by blast
  have new: "item_at g mid = None" if "box x k = Some g" for k g using fresh that unfolding used_def by blast
  have m: "el_id m = mid" "el_type m = ''Message''" "ms_sender m = Some sender" by (simp_all add: m_def new_message_def)
  obtain f' where f': "add_item sub parse m [RefText OUTBOX] f = (Inr (), f')" "box_ok f'" "line f' = (line f)(OUTBOX := line f OUTBOX @ [mid])"
    "item_at f' = (item_at f)(mid \<mapsto> m)" "fl_names f' = fl_names f"
    using put_box [OF b(1) pid, of m sub parse] new [OF f] m by auto
  have q: "queue f' n = (if n = OUTBOX then queue f OUTBOX @ [m] else queue f n)" for n
    by (rule put_queue [OF b(1)]) (simp_all add: new [OF f] m f'(3,4))
  have "boxes_ok (put_flow sender f' x)"
  proof (rule boxes_ok_put [OF ix bs f f'(2)])
    show "map_of (fl_names f') OUTBOX \<noteq> None" by (simp add: f'(5) pid)
    show "ms_sender m' = Some sender \<and> el_type m' = ''Message''" if "m' \<in> set (queue f' OUTBOX)" for m' using that b(3) m by (auto simp: q)
    show "item_at g u = None" if "box x k = Some g" "k \<noteq> sender" "u \<in> set (line f' OUTBOX)" for k g u
      using that b(4) [OF that(1,2)] new [OF that(1)] by (auto simp: f'(3))
    show "item_at f' u = None" if g: "box x k = Some g" "k \<noteq> sender" "u \<in> set (line g OUTBOX)" for k g u
    proof -
      have "u \<noteq> mid" using line_items [OF boxes_okD(1) [OF bs g(1)] g(3)] new [OF g(1)] by auto
      then show ?thesis using boxes_okD(4) [OF bs g(1) f _ g(3)] g(2) by (auto simp: f'(4))
    qed
  qed
  moreover have "flight_ok (put_flow sender f' x) flight"
  proof (rule flight_ok_put [OF ix fl f])
    have old: "el_id m' \<noteq> mid" if "(r, m') \<in> set flight" for r m' using fresh that by (force simp: used_def)
    show "item_at f' (el_id m') = None" if "(sender, m') \<in> set flight" for m' using flight_okD(3) [OF fl that f] old [OF that] by (simp add: f'(4))
    show "el_id m' \<notin> set (line f' OUTBOX)" if "(r, m') \<in> set flight" for r m' using flight_okD(4) [OF fl that f] old [OF that] by (simp add: f'(3))
  qed
  ultimately have "post_ok (put_flow sender f' x) flight" using put_flow_props(1) [OF ix f] by (simp add: post_ok_def)
  moreover have "send sub parse mid sender recipient content channel x = (Inr m, put_flow sender f' x)"
    using f'(1) by (simp add: send_def f m_def Let_def)
  moreover have "waiting (put_flow sender f' x) = (\<lambda>k n. if k = sender \<and> n = OUTBOX then waiting x sender OUTBOX @ [m] else waiting x k n)"
    by (auto simp: fun_eq_iff waiting_put [OF ix f] q waiting_at [OF f])
  ultimately show ?thesis using put_flow_props(3) [OF ix f] by blast
qed


lemma deliveries_of_mem: "(r, m') \<in> set (deliveries_of owner owners m) \<Longrightarrow> m' = m \<and> r \<in> set owners"
  by (auto simp: deliveries_of_def split: option.splits if_splits)

lemma distinct_deliveries:
  "distinct owners \<Longrightarrow> distinct (map el_id ms) \<Longrightarrow> distinct (map (\<lambda>(r, m). (r, el_id m)) (concat (map (deliveries_of owner owners) ms)))"
proof (induction ms)
  case (Cons m ms)
  have "distinct (map (\<lambda>(r, m). (r, el_id m)) (deliveries_of owner owners m))"
    using Cons.prems(1) by (auto simp: deliveries_of_def distinct_map inj_on_def split: option.split)
  moreover have "el_id m' \<in> el_id ` set ms" if "(r, m') \<in> set (concat (map (deliveries_of owner owners) ms))" for r m'
    using that by (auto dest: deliveries_of_mem)
  moreover have "el_id m' = el_id m" if "(r, m') \<in> set (deliveries_of owner owners m)" for r m' using that by (auto dest: deliveries_of_mem)
  ultimately show ?case using Cons by fastforce
qed simp

text \<open>The messages of an outbox with their recipients, in the order of the outbox.\<close>

definition outgoing :: "'c exchange \<Rightarrow> uuid \<Rightarrow> (uuid \<times> 'c message) list" where
  "outgoing x owner = concat (map (deliveries_of owner (owner_ids x)) (waiting x owner OUTBOX))"

lemma collect_start_step:
  assumes ok: "post_ok x flight" and f: "box x owner = Some f"
  shows "\<exists>x'. collect_start parse owner x = (Inr (outgoing x owner), x') \<and> post_ok x' (flight @ outgoing x owner) \<and> owner_ids x' = owner_ids x \<and>
    waiting x' = (\<lambda>k n. if k = owner \<and> n = OUTBOX then [] else waiting x k n) \<and> (\<forall>k g g'. box x k = Some g \<longrightarrow> box x' k = Some g' \<longrightarrow> fl_names g' = fl_names g \<and> (\<forall>p. prog_at g' p = None \<longleftrightarrow> prog_at g p = None))"
proof -
  have ix: "index_ok x" and bs: "boxes_ok x" and fl: "flight_ok x flight" using ok by (simp_all add: post_ok_def)
  note b = boxes_okD [OF bs f]
  obtain pid where pid: "map_of (fl_names f) OUTBOX = Some pid" using b(2) by blast
  have fok: "flow_ok f" using b(1) unfolding box_ok_def by blast
  obtain pr where pr: "get_progression parse (RefText OUTBOX) f = Inr pr" "el_id pr = pid" "pg_order (fp_prog pr) = line f OUTBOX"
    using get_by_name [OF fok pid] by blast
  obtain f' where f': "take_messages pid (line f OUTBOX) f = (Inr (queue f OUTBOX), f')" "box_ok f'" "line f' = (line f)(OUTBOX := [])" "fl_names f' = fl_names f"
    "item_at f' = (\<lambda>v. if v \<in> set (line f OUTBOX) then None else item_at f v)" "\<forall>n. queue f' n = (if n = OUTBOX then [] else queue f n)"
    using take_messages_ok [OF b(1) pid refl] by blast
  let ?x = "put_flow owner f' x"
  have start: "collect_start parse owner x = (Inr (outgoing x owner), ?x)"
    by (simp add: collect_start_def f pr f'(1) outgoing_def waiting_at [OF f])
  have "boxes_ok ?x"
  proof (rule boxes_ok_put [OF ix bs f f'(2)])
    show "item_at f' u = None" if "box x k = Some g" "k \<noteq> owner" "u \<in> set (line g OUTBOX)" for k g u
      using boxes_okD(4) [OF bs that(1) f _ that(3)] that(2) by (simp add: f'(5))
  qed (simp_all add: f'(3,4,6) pid)
  moreover have "flight_ok ?x (flight @ outgoing x owner)"
  proof (rule flight_okI)
    have out: "m \<in> set (queue f OUTBOX) \<and> el_id m \<in> set (line f OUTBOX) \<and> r \<in> set (owner_ids x)" if "(r, m) \<in> set (outgoing x owner)" for r m
      using that queue_ids [OF b(1), of OUTBOX, symmetric] unfolding outgoing_def waiting_at [OF f] by (auto dest: deliveries_of_mem)
    have "distinct (map el_id (queue f OUTBOX))" using b(1) unfolding queue_ids [OF b(1)] box_ok_def by blast
    moreover have "distinct (owner_ids x)" using ix by (simp add: index_ok_def owner_ids_def)
    ultimately have "distinct (map (\<lambda>(r, m). (r, el_id m)) (outgoing x owner))"
      unfolding outgoing_def waiting_at [OF f] by (rule distinct_deliveries [rotated])
    moreover have "el_id m \<noteq> el_id m'" if "(r, m) \<in> set flight" "(r', m') \<in> set (outgoing x owner)" for r m r' m'
      using flight_okD(4) [OF fl that(1) f] out [OF that(2)] by auto
    ultimately show "distinct (map (\<lambda>(r, m). (r, el_id m)) (flight @ outgoing x owner))" using fl by (fastforce simp: flight_ok_def)
    fix r m assume rm: "(r, m) \<in> set (flight @ outgoing x owner)"
    show "el_type m = ''Message'' \<and> ms_sender m \<noteq> None" using rm flight_okD(1,2) [OF fl] out b(3) by fastforce
    show "item_at g (el_id m) = None" if g: "box ?x r = Some g" for g
    proof (cases "r = owner")
      case True
      then have "g = f'" using g put_flow_props(2) [OF ix f] by simp
      then show ?thesis using rm flight_okD(3) [OF fl _ f] out True by (auto simp: f'(5))
    next
      case False
      then have g: "box x r = Some g" using g put_flow_props(2) [OF ix f] by simp
      show ?thesis using rm flight_okD(3) [OF fl _ g] out b(4) [OF g False] by auto
    qed
    show "el_id m \<notin> set (line g OUTBOX)" if g: "box ?x k = Some g" for k g
    proof (cases "k = owner")
      case True
      then have "g = f'" using g put_flow_props(2) [OF ix f] by simp
      then show ?thesis by (simp add: f'(3))
    next
      case False
      then have g: "box x k = Some g" using g put_flow_props(2) [OF ix f] by simp
      show ?thesis using rm flight_okD(4) [OF fl _ g] out b(4) [OF g False] line_items [OF boxes_okD(1) [OF bs g]] by fastforce
    qed
  qed
  ultimately have "post_ok ?x (flight @ outgoing x owner)" using put_flow_props(1) [OF ix f] by (simp add: post_ok_def)
  moreover have "waiting ?x = (\<lambda>k n. if k = owner \<and> n = OUTBOX then [] else waiting x k n)"
    by (auto simp: fun_eq_iff waiting_put [OF ix f] f'(6) waiting_at [OF f])
  moreover have "\<forall>p. prog_at f' p = None \<longleftrightarrow> prog_at f p = None" using take_messages_progs [of pid "line f OUTBOX" f] unfolding f'(1) by simp
  then have "\<forall>k g g'. box x k = Some g \<longrightarrow> box ?x k = Some g' \<longrightarrow> fl_names g' = fl_names g \<and> (\<forall>p. prog_at g' p = None \<longleftrightarrow> prog_at g p = None)"
    by (auto simp: put_flow_props(2) [OF ix f] f f'(4) simp del: map_of_eq_None_iff split: if_splits)
  ultimately show ?thesis using start put_flow_props(3) [OF ix f] by blast
qed


lemma flight_ok_subset: "flight_ok x (d # flight) \<Longrightarrow> flight_ok x flight"
  by (auto simp: flight_ok_def)

text \<open>After the progression of the inbox has been asked for, it is there, and nothing else has changed.\<close>

lemma ensure_inbox:
  assumes "box_ok f" "nm \<noteq> []" "map_of (fl_names f) nm = None \<longrightarrow> prog_at f pid = None"
  obtains r f' p where "add_progression sub (named_progression pid nm) f = (r, f')" "r = Inr () \<or> (\<exists>e. r = Inl (NameExists e))"
    "box_ok f'" "line f' = line f" "item_at f' = item_at f" "map_of (fl_names f') nm = Some p" "\<And>n. map_of (fl_names f) n \<noteq> None \<Longrightarrow> map_of (fl_names f') n \<noteq> None"
proof (cases "map_of (fl_names f) nm")
  case None
  from open_box [OF assms(1) None assms(2), of pid sub] assms(3) None obtain f' where
    "add_progression sub (named_progression pid nm) f = (Inr (), f')" "box_ok f'" "line f' = line f" "item_at f' = item_at f"
    "map_of (fl_names f') = (map_of (fl_names f))(nm \<mapsto> pid)" by auto
  then show ?thesis by (intro that [of "Inr ()" f' pid]) auto
next
  case (Some p)
  have "real_name (named_progression pid nm) = Some nm" using assms(2) by (simp add: named_progression_def real_name_def new_progression_def)
  then have "add_progression sub (named_progression pid nm) f = (Inl (NameExists nm), f)" using Some by (simp add: add_progression_def name_taken_def)
  then show ?thesis using assms(1) Some by (intro that [of "Inl (NameExists nm)" f p]) auto
qed

lemma deliver_step:
  assumes ok: "post_ok x ((r, m) # flight)"
    and fresh: "\<And>f. box x r = Some f \<Longrightarrow> map_of (fl_names f) (inbox_name (ms_sender m)) = None \<Longrightarrow> prog_at f pid = None"
  shows "\<exists>x'. deliver_to sub parse pid r m x = (Inr (), x') \<and> post_ok x' flight \<and> owner_ids x' = owner_ids x \<and>
    waiting x' = (\<lambda>k n. waiting x k n @ (if k = r \<and> n = inbox_name (ms_sender m) \<and> r \<in> set (owner_ids x) then [m] else [])) \<and>
    (\<forall>k g. box x' k = Some g \<longrightarrow> (if k = r then map_of (fl_names g) (inbox_name (ms_sender m)) \<noteq> None else box x k = Some g))"
proof -
  let ?nm = "inbox_name (ms_sender m)"
  have ix: "index_ok x" and bs: "boxes_ok x" and fl: "flight_ok x ((r, m) # flight)" using ok by (simp_all add: post_ok_def)
  note fl' = flight_ok_subset [OF fl]
  show ?thesis
  proof (cases "box x r")
    case None
    then have "deliver_to sub parse pid r m x = (Inr (), x)" "r \<notin> set (owner_ids x)" using get_registered [OF ix, of r] by (simp_all add: deliver_to_def)
    moreover have "post_ok x flight" using ix bs fl' by (simp add: post_ok_def)
    ultimately show ?thesis using None by auto
  next
    case f: (Some f)
    note b = boxes_okD [OF bs f]
    have m: "el_type m = ''Message''" "item_at f (el_id m) = None" "\<And>k g. box x k = Some g \<Longrightarrow> el_id m \<notin> set (line g OUTBOX)"
      using flight_okD [OF fl, of r m] f by auto
    have reg: "r \<in> set (owner_ids x)" using get_registered [OF ix, of r] f by auto
    have "map_of (fl_names f) ?nm = None \<longrightarrow> prog_at f pid = None" using fresh [OF f] by blast
    from b(1) inbox_not_outbox(2) this show ?thesis
    proof (rule ensure_inbox [where sub = sub])
      fix res f1 p
      assume 1: "add_progression sub (named_progression pid ?nm) f = (res, f1)" "res = Inr () \<or> (\<exists>e. res = Inl (NameExists e))"
        "box_ok f1" "line f1 = line f" "item_at f1 = item_at f" "map_of (fl_names f1) ?nm = Some p"
        "\<And>n. map_of (fl_names f) n \<noteq> None \<Longrightarrow> map_of (fl_names f1) n \<noteq> None"
      have "item_at f1 (el_id m) = None" by (simp only: 1(5) m(2))
      from put_box [OF 1(3) 1(6) this m(1), of sub parse] obtain f2 where
        2: "add_item sub parse m [RefText ?nm] f1 = (Inr (), f2)" "box_ok f2" "line f2 = (line f1)(?nm := line f1 ?nm @ [el_id m])"
          "item_at f2 = (item_at f1)(el_id m \<mapsto> m)" "fl_names f2 = fl_names f1" by blast
      have deliver: "deliver_to sub parse pid r m x = (Inr (), put_flow r f2 x)"
        using 1(2) by (auto simp: deliver_to_def f 1(1) 2(1))
      have out: "line f2 OUTBOX = line f OUTBOX" by (simp add: 2(3) 1(4))
      have q: "queue f2 n = (if n = ?nm then queue f n @ [m] else queue f n)" for n
        using put_queue [OF b(1) m(2), of f2 ?nm n] 2(3,4) 1(4,5) by auto
      have "boxes_ok (put_flow r f2 x)"
      proof (rule boxes_ok_put [OF ix bs f 2(2)])
        show "map_of (fl_names f2) OUTBOX \<noteq> None" using 1(7) [OF b(2)] by (simp add: 2(5))
        show "ms_sender m' = Some r \<and> el_type m' = ''Message''" if "m' \<in> set (queue f2 OUTBOX)" for m'
          using that b(3) by (simp add: q)
        show "item_at g u = None" if "box x k = Some g" "k \<noteq> r" "u \<in> set (line f2 OUTBOX)" for k g u using b(4) that unfolding out by blast
        show "item_at f2 u = None" if g: "box x k = Some g" "k \<noteq> r" "u \<in> set (line g OUTBOX)" for k g u
          using boxes_okD(4) [OF bs g(1) f _ g(3)] g(2,3) m(3) [OF g(1)] unfolding 2(4) 1(5) by auto
      qed
      moreover have "flight_ok (put_flow r f2 x) flight"
      proof (rule flight_ok_put [OF ix fl' f])
        show "item_at f2 (el_id m') = None" if m': "(r, m') \<in> set flight" for m'
        proof -
          have "(r, el_id m) \<notin> (\<lambda>(k, m). (k, el_id m)) ` set flight" using fl by (simp add: flight_ok_def)
          then have "el_id m' \<noteq> el_id m" using m' by (metis (mono_tags, lifting) case_prod_conv image_eqI)
          then show ?thesis using flight_okD(3) [OF fl' m' f] unfolding 2(4) 1(5) by simp
        qed
        show "el_id m' \<notin> set (line f2 OUTBOX)" if "(k, m') \<in> set flight" for k m' using flight_okD(4) [OF fl' that f] by (simp add: out)
      qed
      ultimately have "post_ok (put_flow r f2 x) flight" using put_flow_props(1) [OF ix f] by (simp add: post_ok_def)
      moreover have "waiting (put_flow r f2 x) = (\<lambda>k n. waiting x k n @ (if k = r \<and> n = ?nm \<and> r \<in> set (owner_ids x) then [m] else []))"
        by (auto simp: fun_eq_iff waiting_put [OF ix f] q waiting_at [OF f] reg)
      moreover have "\<forall>k g. box (put_flow r f2 x) k = Some g \<longrightarrow> (if k = r then map_of (fl_names g) ?nm \<noteq> None else box x k = Some g)"
        by (auto simp: put_flow_props(2) [OF ix f] 2(5) 1(6))
      ultimately show ?thesis using deliver put_flow_props(3) [OF ix f] by blast
    qed
  qed
qed

lemma pop_step:
  assumes ok: "post_ok x flight" and no_id: "parse (inbox_name (Some sender)) = None"
  shows "\<exists>x' r. pop_message parse owner sender x = (r, x') \<and> post_ok x' flight \<and> owner_ids x' = owner_ids x \<and>
    (case waiting x owner (inbox_name (Some sender)) of
       [] \<Rightarrow> r = Inr None \<and> x' = x
     | m # ms \<Rightarrow> r = Inr (Some m) \<and> waiting x' = (\<lambda>k n. if k = owner \<and> n = inbox_name (Some sender) then ms else waiting x k n))"
proof -
  let ?nm = "inbox_name (Some sender)"
  have ix: "index_ok x" and bs: "boxes_ok x" and fl: "flight_ok x flight" using ok by (simp_all add: post_ok_def)
  show ?thesis
  proof (cases "waiting x owner ?nm")
    case Nil
    have "pop_message parse owner sender x = (Inr None, x)"
    proof (cases "box x owner")
      case None
      then show ?thesis by (simp add: pop_message_def)
    next
      case f: (Some f)
      have fok: "flow_ok f" using boxes_okD(1) [OF bs f] unfolding box_ok_def by blast
      have empty: "line f ?nm = []" using Nil by (simp add: waiting_at [OF f] queue_def)
      show ?thesis
      proof (cases "map_of (fl_names f) ?nm")
        case None
        then have "get_progression parse (RefText ?nm) f = Inl (FlowKeyError ?nm)" by (simp add: get_progression_def no_id)
        then show ?thesis by (simp add: pop_message_def f)
      next
        case (Some p)
        then show ?thesis using get_by_name [OF fok Some, of parse] empty by (auto simp: pop_message_def f)
      qed
    qed
    then show ?thesis using Nil ok by simp
  next
    case (Cons m ms)
    then obtain f where f: "box x owner = Some f" "queue f ?nm = m # ms" by (auto simp: waiting_def split: option.splits)
    note b = boxes_okD [OF bs f(1)]
    then obtain u us where us: "line f ?nm = u # us" "the (item_at f u) = m" using f(2) by (cases "line f ?nm") (auto simp: queue_def)
    then obtain p where p: "map_of (fl_names f) ?nm = Some p" by (cases "map_of (fl_names f) ?nm") (auto simp: line_def)
    define f' where "f' = f\<lparr>fl_items := pile_drop u (fl_items f), fl_progressions := on_progression pop_first p (fl_progressions f)\<rparr>"
    note t = take_box [OF b(1) p us(1), folded f'_def]
    have fok: "flow_ok f" using b(1) unfolding box_ok_def by blast
    obtain pr where pr: "get_progression parse (RefText ?nm) f = Inr pr" "el_id pr = p" "pg_order (fp_prog pr) = line f ?nm"
      using get_by_name [OF fok p] by blast
    have pop: "pop_message parse owner sender x = (Inr (Some m), put_flow owner f' x)"
      by (simp add: pop_message_def f(1) pr us t(1) f'_def)
    have q: "queue f' n = (if n = ?nm then ms else queue f n)" for n using take_queue [OF b(1) us(1) t(3,4), of n] f(2) by simp
    have out: "line f' OUTBOX = line f OUTBOX" by (simp add: t(3))
    have "boxes_ok (put_flow owner f' x)"
    proof (rule boxes_ok_put [OF ix bs f(1) t(2)])
      show "item_at g v = None" if "box x k = Some g" "k \<noteq> owner" "v \<in> set (line f' OUTBOX)" for k g v using b(4) that unfolding out by blast
      show "item_at f' v = None" if g: "box x k = Some g" "k \<noteq> owner" "v \<in> set (line g OUTBOX)" for k g v
        using boxes_okD(4) [OF bs g(1) f(1) _ g(3)] g(2) unfolding t(4) by auto
    qed (use b(2,3) inbox_not_outbox(1) in \<open>auto simp: t(5) q\<close>)
    moreover have "flight_ok (put_flow owner f' x) flight"
      by (rule flight_ok_put [OF ix fl f(1)]) (use flight_okD(3,4) [OF fl _ f(1)] in \<open>auto simp: t(4) out\<close>)
    ultimately have "post_ok (put_flow owner f' x) flight" using put_flow_props(1) [OF ix f(1)] by (simp add: post_ok_def)
    moreover have "waiting (put_flow owner f' x) = (\<lambda>k n. if k = owner \<and> n = ?nm then ms else waiting x k n)"
      by (auto simp: fun_eq_iff waiting_put [OF ix f(1)] q waiting_at [OF f(1)])
    ultimately show ?thesis using pop put_flow_props(3) [OF ix f(1)] Cons by simp
  qed
qed


text \<open>The invariant speaks of the mailboxes only.\<close>

lemma post_ok_boxes:
  assumes "index_ok x'" "boxes_ok x" "flight_ok x flight" "\<And>k g. box x' k = Some g \<Longrightarrow> box x k = Some g \<or> (box_ok g \<and> map_of (fl_names g) OUTBOX \<noteq> None \<and> item_at g = Map.empty)"
  shows "post_ok x' flight"
proof -
  have empty: "line g n = []" if "box_ok g" "item_at g = Map.empty" for g :: "'c message_flow" and n
    using line_items [OF that(1), of _ n] that(2) by (metis list.set_intros(1) neq_Nil_conv)
  have "boxes_ok x'" unfolding boxes_ok_def
  proof (intro allI impI)
    fix k g assume g: "box x' k = Some g"
    show "box_ok g \<and> map_of (fl_names g) OUTBOX \<noteq> None \<and> (\<forall>m\<in>set (queue g OUTBOX). ms_sender m = Some k \<and> el_type m = ''Message'') \<and>
       (\<forall>k' g'. box x' k' = Some g' \<longrightarrow> k' \<noteq> k \<longrightarrow> (\<forall>u\<in>set (line g OUTBOX). item_at g' u = None))"
    proof (cases "box x k = Some g")
      case True
      note b = boxes_okD [OF assms(2) True]
      have "item_at g' u = None" if "box x' k' = Some g'" "k' \<noteq> k" "u \<in> set (line g OUTBOX)" for k' g' u
        using assms(4) [OF that(1)] b(4) [OF _ that(2,3)] by auto
      then show ?thesis using b(1-3) by blast
    next
      case False
      then have "box_ok g" "map_of (fl_names g) OUTBOX \<noteq> None" "item_at g = Map.empty" using assms(4) [OF g] by auto
      then show ?thesis using empty [of g OUTBOX] by (simp add: queue_def)
    qed
  qed
  moreover have "flight_ok x' flight"
  proof (rule flight_okI)
    show "distinct (map (\<lambda>(r, m). (r, el_id m)) flight)" using assms(3) by (simp add: flight_ok_def)
    fix r m assume rm: "(r, m) \<in> set flight"
    note d = flight_okD [OF assms(3) rm]
    show "el_type m = ''Message'' \<and> ms_sender m \<noteq> None" using d(1,2) by blast
    show "item_at g (el_id m) = None" if "box x' r = Some g" for g using assms(4) [OF that] d(3) by auto
    show "el_id m \<notin> set (line g OUTBOX)" if "box x' k = Some g" for k g using assms(4) [OF that] d(4) empty [of g OUTBOX] by auto
  qed
  ultimately show ?thesis using assms(1) by (simp add: post_ok_def)
qed

lemma register_step:
  fixes x :: "'c exchange"
  assumes ok: "post_ok x flight" and fid: "map_of (pl_items (xc_flows x)) fid = None" and new: "owner \<notin> set (owner_ids x)"
  shows "\<exists>x' f. register sub owner fid pid x = (Inr f, x') \<and> post_ok x' flight \<and> set (owner_ids x') = insert owner (set (owner_ids x)) \<and> waiting x' = waiting x"
proof -
  have ix: "index_ok x" and bs: "boxes_ok x" and fl: "flight_ok x flight" using ok by (simp_all add: post_ok_def)
  have ps: "pile_ok (xc_flows x)" using ix by (simp add: index_ok_def)
  have none: "map_of (xc_owners x) owner = None" using new unfolding owner_ids_def map_of_eq_None_iff by simp
  have "OUTBOX \<noteq> []" "prog_at (empty_mailbox owner :: 'c message_flow) pid = None" "map_of (fl_names (empty_mailbox owner :: 'c message_flow)) OUTBOX = None"
    by (simp_all add: OUTBOX_def empty_mailbox_def empty_pile_def)
  from open_box [OF empty_mailbox_ok(1) this(3,1,2), of sub] obtain f where
    f: "add_progression sub (named_progression pid OUTBOX) (empty_mailbox owner) = (Inr (), f :: 'c message_flow)" "box_ok f" "line f = (\<lambda>_. [])" "item_at f = Map.empty"
      "map_of (fl_names f) = (map_of (fl_names (empty_mailbox owner :: 'c message_flow)))(OUTBOX \<mapsto> pid)" unfolding empty_mailbox_ok(2,3) by blast
  let ?mb = "\<lparr>el_id = fid, el_type = ''Flow'', mb_flow = f\<rparr>"
  let ?x = "x\<lparr>xc_flows := store ?mb (xc_flows x), xc_owners := dict_set owner fid (xc_owners x)\<rparr>"
  have add: "pile_add sub ?mb (xc_flows x) = (Inr (), store ?mb (xc_flows x))"
    using fid ix by (simp add: pile_add_def type_ok_def index_ok_def)
  have reg: "register sub owner fid pid x = (Inr f, ?x)" using f(1) by (simp add: register_def none add)
  have taken: "i \<noteq> fid" if "map_of (xc_owners x) k = Some i" for k i using ix that fid unfolding index_ok_def by blast
  have get: "box ?x k = (if k = owner then Some f else box x k)" for k
    using taken [of k] by (cases "map_of (xc_owners x) k") (auto simp: exchange_get_def mailbox_of_def store_lookup)
  have "pile_ok (store ?mb (xc_flows x))" using store_props(2) [OF ps, of ?mb] fid by simp
  moreover have "inj_on ((map_of (xc_owners x))(owner \<mapsto> fid)) (insert owner (dom (map_of (xc_owners x))))"
    using ix taken none unfolding index_ok_def inj_on_def by (auto simp: dom_def)
  ultimately have "index_ok ?x"
    using ix distinct_dict_set unfolding index_ok_def by (auto simp: store_lookup) (simp add: store_def)
  then have "post_ok ?x flight" by (rule post_ok_boxes [OF _ bs fl]) (use f in \<open>auto simp: get split: if_splits\<close>)
  moreover have "waiting ?x = waiting x"
    using get_registered [OF ix, of owner] new by (auto simp: fun_eq_iff waiting_def get queue_def f(3))
  moreover have "set (owner_ids ?x) = insert owner (set (owner_ids x))" by (simp add: owner_ids_def)
  ultimately show ?thesis using reg by blast
qed

lemma unregister_step:
  assumes ok: "post_ok x flight"
  shows "\<exists>x'. unregister owner x = (Inr (box x owner), x') \<and> post_ok x' flight \<and> set (owner_ids x') = set (owner_ids x) - {owner} \<and>
    waiting x' = (\<lambda>k n. if k = owner then [] else waiting x k n)"
proof -
  have ix: "index_ok x" and bs: "boxes_ok x" and fl: "flight_ok x flight" using ok by (simp_all add: post_ok_def)
  have ps: "pile_ok (xc_flows x)" using ix by (simp add: index_ok_def)
  show ?thesis
  proof (cases "map_of (xc_owners x) owner")
    case None
    then have "box x owner = None" by (simp add: exchange_get_def mailbox_of_def del: map_of_eq_None_iff)
    moreover from this have "owner \<notin> set (owner_ids x)" using get_registered [OF ix] by blast
    ultimately show ?thesis using None ok by (auto simp: unregister_def fun_eq_iff waiting_def)
  next
    case (Some fid)
    then obtain mb where mb: "map_of (pl_items (xc_flows x)) fid = Some mb" using ix unfolding index_ok_def by blast
    let ?x = "x\<lparr>xc_flows := pile_drop fid (xc_flows x), xc_owners := dict_pop owner (xc_owners x)\<rparr>"
    have un: "unregister owner x = (Inr (box x owner), ?x)"
      by (simp add: unregister_def Some mb pop_or_none_ok [OF ps] exchange_get_def mailbox_of_def)
    have uniq: "i \<noteq> fid" if "map_of (xc_owners x) k = Some i" "k \<noteq> owner" for k i
      using ix that Some unfolding index_ok_def inj_on_def by (metis domI)
    have drop: "map_of (pl_items (pile_drop fid (xc_flows x))) i = (if i = fid then None else map_of (pl_items (xc_flows x)) i)" for i
      using pile_seq.get_drop [OF ps] by simp
    have get: "box ?x k = (if k = owner then None else box x k)" for k
      using uniq [of k] by (cases "map_of (xc_owners x) k") (auto simp: exchange_get_def mailbox_of_def map_of_dict_pop drop)
    have "pl_item_type (pile_drop fid (xc_flows x)) = None"
      using ix by (auto simp: index_ok_def pile_drop_def pile_remove_def take_out_def Let_def split: option.split sum.split)
    moreover have "inj_on ((map_of (xc_owners x))(owner := None)) (dom ((map_of (xc_owners x))(owner := None)))"
      using ix unfolding index_ok_def inj_on_def by auto
    ultimately have "index_ok ?x"
      using ix uniq dict_pop_distinct pile_drop_props(2) [OF ps] unfolding index_ok_def by (auto simp: map_of_dict_pop drop)
    then have "post_ok ?x flight" by (rule post_ok_boxes [OF _ bs fl]) (auto simp: get split: if_splits)
    moreover have "set (owner_ids ?x) = set (owner_ids x) - {owner}" by (auto simp: owner_ids_def dict_pop_def)
    moreover have "waiting ?x = (\<lambda>k n. if k = owner then [] else waiting x k n)" by (auto simp: fun_eq_iff waiting_def get)
    ultimately show ?thesis using un by blast
  qed
qed

lemma new_exchange_ok: "post_ok new_exchange []"
  by (auto simp: post_ok_def index_ok_def boxes_ok_def flight_ok_def new_exchange_def empty_pile_ok exchange_get_def mailbox_of_def)
    (simp add: empty_pile_def)


section \<open>Runs\<close>

lemma post_ok_mset: "post_ok x flight \<Longrightarrow> mset flight' = mset flight \<Longrightarrow> post_ok x flight'"
proof -
  assume ok: "post_ok x flight" and m: "mset flight' = mset flight"
  have "mset (map (\<lambda>(r, m). (r, el_id m)) flight') = mset (map (\<lambda>(r, m). (r, el_id m)) flight)" using m by simp
  then have "distinct (map (\<lambda>(r, m). (r, el_id m)) flight') = distinct (map (\<lambda>(r, m). (r, el_id m)) flight)" by (rule mset_eq_imp_distinct_iff)
  then show ?thesis using ok mset_eq_setD [OF m] unfolding post_ok_def flight_ok_def by simp
qed

text \<open>The exchanges that operations lead to, with the deliveries under way, in any interleaving; ids are drawn fresh.\<close>

inductive reachable_post :: "(string \<Rightarrow> string \<Rightarrow> bool) \<Rightarrow> (string \<Rightarrow> uuid option) \<Rightarrow> 'c exchange \<Rightarrow> (uuid \<times> 'c message) list \<Rightarrow> bool"
  for sub parse where
  created: "reachable_post sub parse new_exchange []"
| registered: "reachable_post sub parse x flight \<Longrightarrow> map_of (pl_items (xc_flows x)) fid = None \<Longrightarrow> register sub owner fid pid x = (r, x') \<Longrightarrow>
    reachable_post sub parse x' flight"
| unregistered: "reachable_post sub parse x flight \<Longrightarrow> unregister owner x = (r, x') \<Longrightarrow> reachable_post sub parse x' flight"
| sent: "reachable_post sub parse x flight \<Longrightarrow> \<not> used x flight mid \<Longrightarrow> send sub parse mid sender recipient content channel x = (r, x') \<Longrightarrow>
    reachable_post sub parse x' flight"
| collecting: "reachable_post sub parse x flight \<Longrightarrow> collect_start parse owner x = (Inr ds, x') \<Longrightarrow> reachable_post sub parse x' (flight @ ds)"
| delivered: "reachable_post sub parse x flight \<Longrightarrow> (r, m) \<in> set flight \<Longrightarrow>
    \<forall>f. box x r = Some f \<longrightarrow> map_of (fl_names f) (inbox_name (ms_sender m)) = None \<longrightarrow> prog_at f pid = None \<Longrightarrow>
    deliver_to sub parse pid r m x = (res, x') \<Longrightarrow> reachable_post sub parse x' (remove1 (r, m) flight)"
| popped: "reachable_post sub parse x flight \<Longrightarrow> parse (inbox_name (Some sender)) = None \<Longrightarrow> pop_message parse owner sender x = (res, x') \<Longrightarrow>
    reachable_post sub parse x' flight"

lemma flight_first: "post_ok x flight \<Longrightarrow> d \<in> set flight \<Longrightarrow> post_ok x (d # remove1 d flight)"
  by (rule post_ok_mset) simp_all

lemma reachable_post_ok: "reachable_post sub parse x flight \<Longrightarrow> post_ok x flight"
proof (induction rule: reachable_post.induct)
  case created
  show ?case by (rule new_exchange_ok)
next
  case (registered x flight fid owner pid r x')
  show ?case
  proof (cases "owner \<in> set (owner_ids x)")
    case True
    then have "map_of (xc_owners x) owner \<noteq> None" unfolding owner_ids_def map_of_eq_None_iff by simp
    then show ?thesis using registered by (simp add: register_def)
  next
    case False
    then show ?thesis using register_step [OF registered.IH registered.hyps(2) False, of sub pid] registered.hyps(3) by auto
  qed
next
  case (unregistered x flight owner r x')
  then show ?case using unregister_step [OF unregistered.IH, of owner] by auto
next
  case (sent x flight mid sender recipient content channel r x')
  show ?case
  proof (cases "box x sender")
    case None
    then show ?thesis using sent by (simp add: send_def)
  next
    case (Some f)
    show ?thesis using send_step [OF sent.IH sent.hyps(2) Some refl, of sub parse recipient content channel] sent.hyps(3) by auto
  qed
next
  case (collecting x flight owner ds x')
  then obtain f where "box x owner = Some f" by (auto simp: collect_start_def split: option.splits)
  from collect_start_step [OF collecting.IH this, of parse] collecting.hyps(2) show ?case by auto
next
  case (delivered x flight r m pid res x')
  from deliver_step [OF flight_first [OF delivered.IH delivered.hyps(2)], of pid sub parse] delivered.hyps(3,4) show ?case by auto
next
  case (popped x flight sender owner res x')
  from pop_step [where parse = parse and sender = sender and owner = owner, OF popped.IH popped.hyps(2)] popped.hyps(3) show ?case by auto
qed

section \<open>Rounds\<close>

text \<open>The recipients of the messages of an owner.\<close>

definition addressed :: "'c exchange \<Rightarrow> uuid \<Rightarrow> uuid \<Rightarrow> 'c message \<Rightarrow> bool" where
  "addressed x owner r m \<longleftrightarrow> r \<in> set (owner_ids x) \<and> (case ms_recipient m of None \<Rightarrow> r \<noteq> owner | Some r' \<Rightarrow> r' = r)"

lemma outgoing_to: "index_ok x \<Longrightarrow> map snd (filter (\<lambda>d. fst d = r) (outgoing x owner)) = filter (addressed x owner r) (waiting x owner OUTBOX)"
proof -
  assume "index_ok x"
  then have d: "distinct (owner_ids x)" by (simp add: index_ok_def owner_ids_def)
  have eq: "filter (\<lambda>k. k = r) ks = (if r \<in> set ks then [r] else [])" if "distinct ks" for ks using that by (induction ks) auto
  have one: "map snd (filter (\<lambda>d. fst d = r) (deliveries_of owner (owner_ids x) m)) = (if addressed x owner r m then [m] else [])" for m
  proof (cases "ms_recipient m")
    case None
    have "filter (\<lambda>d. fst d = r) (map (\<lambda>k. (k, m)) ks) = map (\<lambda>k. (k, m)) (filter (\<lambda>k. k = r) ks)" for ks by (induction ks) auto
    then show ?thesis using eq [OF distinct_filter [OF d], of "\<lambda>k. k \<noteq> owner"] None by (simp add: deliveries_of_def addressed_def)
  next
    case (Some k)
    then show ?thesis by (auto simp: deliveries_of_def addressed_def)
  qed
  have "map snd (filter (\<lambda>d. fst d = r) (concat (map (deliveries_of owner (owner_ids x)) ms))) = filter (addressed x owner r) ms" for ms
    by (induction ms) (simp_all add: one)
  then show ?thesis by (simp add: outgoing_def)
qed

lemma deliver_all_ok:
  "post_ok x (ds @ flight) \<Longrightarrow> (\<And>r m. (r, m) \<in> set ds \<Longrightarrow> ms_sender m = Some s) \<Longrightarrow>
   (\<And>r m f. (r, m) \<in> set ds \<Longrightarrow> box x r = Some f \<Longrightarrow> map_of (fl_names f) (inbox_name (Some s)) = None \<Longrightarrow> prog_at f (gen r (el_id m)) = None) \<Longrightarrow>
   post_ok (deliver_all sub parse gen ds x) flight \<and> owner_ids (deliver_all sub parse gen ds x) = owner_ids x \<and>
   waiting (deliver_all sub parse gen ds x) =
     (\<lambda>k n. waiting x k n @ (if n = inbox_name (Some s) \<and> k \<in> set (owner_ids x) then map snd (filter (\<lambda>d. fst d = k) ds) else []))"
proof (induction ds arbitrary: x)
  case Nil
  then show ?case by (simp add: fun_eq_iff)
next
  case (Cons d ds)
  obtain r m where d: "d = (r, m)" by (cases d)
  have s: "ms_sender m = Some s" by (rule Cons.prems(2) [of r]) (simp add: d)
  from deliver_step [of x r m "ds @ flight" "gen r (el_id m)" sub parse] Cons.prems(1,3) obtain x' where
    x': "deliver_to sub parse (gen r (el_id m)) r m x = (Inr (), x')" "post_ok x' (ds @ flight)" "owner_ids x' = owner_ids x"
      "waiting x' = (\<lambda>k n. waiting x k n @ (if k = r \<and> n = inbox_name (Some s) \<and> r \<in> set (owner_ids x) then [m] else []))"
      "\<forall>k g. box x' k = Some g \<longrightarrow> (if k = r then map_of (fl_names g) (inbox_name (Some s)) \<noteq> None else box x k = Some g)"
    unfolding d s by force
  have fresh: "prog_at f (gen r' (el_id m')) = None" if "(r', m') \<in> set ds" "box x' r' = Some f" "map_of (fl_names f) (inbox_name (Some s)) = None" for r' m' f
  proof -
    have "box x r' = Some f" using x'(5) that(2,3) by (metis (no_types, lifting))
    then show ?thesis using Cons.prems(3) that by simp
  qed
  have senders: "ms_sender m' = Some s" if "(r', m') \<in> set ds" for r' m' by (rule Cons.prems(2) [of r']) (simp add: that)
  have rest: "post_ok (deliver_all sub parse gen ds x') flight" "owner_ids (deliver_all sub parse gen ds x') = owner_ids x"
    "waiting (deliver_all sub parse gen ds x') =
      (\<lambda>k n. waiting x' k n @ (if n = inbox_name (Some s) \<and> k \<in> set (owner_ids x) then map snd (filter (\<lambda>d. fst d = k) ds) else []))"
    using Cons.IH [OF x'(2)] senders fresh x'(3) by simp_all
  have eq: "deliver_all sub parse gen (d # ds) x = deliver_all sub parse gen ds x'" by (simp add: d x'(1))
  have "waiting (deliver_all sub parse gen ds x') k n =
      waiting x k n @ (if n = inbox_name (Some s) \<and> k \<in> set (owner_ids x) then map snd (filter (\<lambda>e. fst e = k) (d # ds)) else [])" for k n
    unfolding rest(3) x'(4) by (simp add: d)
  then show ?case unfolding eq using rest(1,2) by (simp only: simp_thms fun_eq_iff)
qed


lemma outgoing_senders: "post_ok x flight \<Longrightarrow> (r, m) \<in> set (outgoing x owner) \<Longrightarrow> ms_sender m = Some owner"
proof -
  assume ok: "post_ok x flight" and rm: "(r, m) \<in> set (outgoing x owner)"
  then have "m \<in> set (waiting x owner OUTBOX)" by (auto simp: outgoing_def dest: deliveries_of_mem)
  moreover obtain f where f: "box x owner = Some f" using calculation by (cases "box x owner") (auto simp: waiting_def)
  moreover have "boxes_ok x" using ok by (simp add: post_ok_def)
  ultimately show ?thesis using boxes_okD(3) [of x owner f m] by (simp add: waiting_at)
qed

lemma collect_step:
  assumes ok: "post_ok x flight" and reg: "owner \<in> set (owner_ids x)" and perm: "mset (schedule (outgoing x owner)) = mset (outgoing x owner)"
    and fresh: "\<And>r m f. (r, m) \<in> set (outgoing x owner) \<Longrightarrow> box x r = Some f \<Longrightarrow> map_of (fl_names f) (inbox_name (Some owner)) = None \<Longrightarrow> prog_at f (gen r (el_id m)) = None"
  shows "\<exists>x'. collect sub parse gen schedule owner x = (Inr (card (el_id ` snd ` set (outgoing x owner))), x') \<and> post_ok x' flight \<and> owner_ids x' = owner_ids x \<and>
    waiting x' = (\<lambda>k n. if k = owner \<and> n = OUTBOX then []
       else waiting x k n @ (if n = inbox_name (Some owner) \<and> k \<in> set (owner_ids x) then map snd (filter (\<lambda>d. fst d = k) (schedule (outgoing x owner))) else []))"
proof -
  let ?ds = "schedule (outgoing x owner)"
  have ix: "index_ok x" using ok by (simp add: post_ok_def)
  obtain f where f: "box x owner = Some f" using reg get_registered [OF ix, of owner] by auto
  from collect_start_step [OF ok f, of parse] obtain x1 where
    x1: "collect_start parse owner x = (Inr (outgoing x owner), x1)" "post_ok x1 (flight @ outgoing x owner)" "owner_ids x1 = owner_ids x"
      "waiting x1 = (\<lambda>k n. if k = owner \<and> n = OUTBOX then [] else waiting x k n)"
      "\<And>k g g'. box x k = Some g \<Longrightarrow> box x1 k = Some g' \<Longrightarrow> fl_names g' = fl_names g \<and> (\<forall>p. prog_at g' p = None \<longleftrightarrow> prog_at g p = None)"
    by blast
  have ds: "post_ok x1 (?ds @ flight)" by (rule post_ok_mset [OF x1(2)]) (simp add: perm)
  have in_ds: "(r, m) \<in> set ?ds \<longleftrightarrow> (r, m) \<in> set (outgoing x owner)" for r m using mset_eq_setD [OF perm] by simp
  have "prog_at g (gen r (el_id m)) = None" if "(r, m) \<in> set ?ds" "box x1 r = Some g" "map_of (fl_names g) (inbox_name (Some owner)) = None" for r m g
  proof -
    have "index_ok x1" using x1(2) by (simp add: post_ok_def)
    then have "box x r \<noteq> None" using get_registered [OF ix, of r] get_registered [of x1 r] x1(3) that(2) by simp
    then obtain g0 where g0: "box x r = Some g0" by blast
    note same = x1(5) [OF g0 that(2)]
    then have "prog_at g0 (gen r (el_id m)) = None" using fresh g0 that(1,3) in_ds by metis
    then show ?thesis using same by blast
  qed
  moreover have "ms_sender m = Some owner" if "(r, m) \<in> set ?ds" for r m using outgoing_senders [OF ok] that in_ds by blast
  ultimately have all: "post_ok (deliver_all sub parse gen ?ds x1) flight" "owner_ids (deliver_all sub parse gen ?ds x1) = owner_ids x"
    "waiting (deliver_all sub parse gen ?ds x1) =
      (\<lambda>k n. waiting x1 k n @ (if n = inbox_name (Some owner) \<and> k \<in> set (owner_ids x) then map snd (filter (\<lambda>d. fst d = k) ?ds) else []))"
    using deliver_all_ok [OF ds, of owner gen sub parse] x1(3) by simp_all
  have "collect sub parse gen schedule owner x = (Inr (card (el_id ` snd ` set (outgoing x owner))), deliver_all sub parse gen ?ds x1)"
    by (simp add: collect_def x1(1) image_image)
  then show ?thesis using all by (intro exI [of _ "deliver_all sub parse gen ?ds x1"]) (auto simp: x1(4) fun_eq_iff)
qed


lemma concat_only: "distinct xs \<Longrightarrow> y \<in> set xs \<Longrightarrow> (\<And>z. z \<in> set xs \<Longrightarrow> z \<noteq> y \<Longrightarrow> g z = []) \<Longrightarrow> concat (map g xs) = g y"
proof -
  assume a: "distinct xs" "y \<in> set xs" "\<And>z. z \<in> set xs \<Longrightarrow> z \<noteq> y \<Longrightarrow> g z = []"
  obtain us vs where xs: "xs = us @ y # vs" using split_list [OF a(2)] by blast
  have "\<forall>z\<in>set us \<union> set vs. g z = []" using a(1,3) by (auto simp: xs)
  then have "concat (map g us) = []" "concat (map g vs) = []" by simp_all
  then show ?thesis by (simp only: xs map_append concat_append list.map concat.simps append_Nil append_Nil2)
qed

text \<open>Reading from a sender lists its queue.\<close>

lemma receive_ok: "post_ok x flight \<Longrightarrow> receive owner (Some s) x = Inr (waiting x owner (inbox_name (Some s)))"
proof (cases "box x owner")
  case (Some f)
  let ?nm = "inbox_name (Some s)"
  assume ok: "post_ok x flight"
  then have b: "box_ok f" using boxes_okD(1) [OF _ Some] by (simp add: post_ok_def)
  then have fok: "flow_ok f" unfolding box_ok_def by blast
  then have ps: "pile_ok (fl_progressions f)" unfolding flow_ok_def progs_ok_def by blast
  let ?g = "\<lambda>pr. case real_name pr of None \<Rightarrow> []
    | Some nm \<Rightarrow> if is_inbox nm \<and> (Some s \<noteq> None \<longrightarrow> nm = ?nm) then List.map_filter (map_of (pl_items (fl_items f))) (pg_order (fp_prog pr)) else []"
  have g: "?g pr = (if real_name pr = Some ?nm then List.map_filter (item_at f) (pg_order (fp_prog pr)) else [])" for pr
    by (auto simp: is_inbox_def inbox_name_def split: option.split)
  have elems: "pr \<in> set (pile_elems (fl_progressions f)) \<Longrightarrow> prog_at f (el_id pr) = Some pr" for pr
    using pile_seq.get_Some [OF ps] by blast
  have dist: "distinct (pile_elems (fl_progressions f))"
    using keys_of_elems [OF ps] ps by (metis distinct_map pile_ok_def)
  have "concat (map ?g (pile_elems (fl_progressions f))) = queue f ?nm"
  proof (cases "map_of (fl_names f) ?nm")
    case None
    have "real_name pr \<noteq> Some ?nm" if "pr \<in> set (pile_elems (fl_progressions f))" for pr
      using fok None elems [OF that] names_okD unfolding flow_ok_def by fastforce
    then have "concat (map ?g (pile_elems (fl_progressions f))) = []" unfolding g by simp
    then show ?thesis using None by (simp add: queue_def line_def)
  next
    case p: (Some p)
    from fok p show ?thesis
    proof (rule flow_names)
      fix pr assume pr: "prog_at f p = Some pr" "real_name pr = Some ?nm" "el_id pr = p" "line f ?nm = pg_order (fp_prog pr)" "prog_ok (fp_prog pr)"
      have mem: "pr \<in> set (pile_elems (fl_progressions f))" using pile_seq.get_Some [OF ps] pr(1) by blast
      have "real_name q \<noteq> Some ?nm" if q: "q \<in> set (pile_elems (fl_progressions f))" "q \<noteq> pr" for q
      proof
        assume "real_name q = Some ?nm"
        then have "map_of (fl_names f) ?nm = Some (el_id q)" using fok elems [OF q(1)] names_okD unfolding flow_ok_def by blast
        then show False using p elems [OF q(1)] pr(1) q(2) by simp
      qed
      then have "concat (map ?g (pile_elems (fl_progressions f))) = ?g pr" unfolding g by (intro concat_only [OF dist mem]) simp
      also have "\<dots> = List.map_filter (item_at f) (line f ?nm)" unfolding g by (simp add: pr)
      also have "\<dots> = queue f ?nm"
      proof -
        have "List.map_filter (item_at f) us = map (\<lambda>u. the (item_at f u)) us" if "set us \<subseteq> set (line f ?nm)" for us
          using that line_items [OF b] by (induction us) (force simp: map_filter_simps)+
        then show ?thesis by (simp add: queue_def)
      qed
      finally show ?thesis .
    qed
  qed
  then show ?thesis using Some by (simp add: receive_def pile_list_ok [OF ps] waiting_at)
qed (simp add: receive_def waiting_def)


section \<open>Properties\<close>

text \<open>C12: In any interleaving of operations and deliveries the exchange behaves as queues: sending appends to the outbox of the sender, starting a round takes the
  outbox and puts its messages under way to their recipients, a delivery never fails and appends to the inbox of the sender at a registered recipient, reading
  lists the inbox of a sender and popping takes its oldest message. Nothing else changes.\<close>

theorem exchange_refines_queues:
  assumes "reachable_post sub parse x flight"
  shows "(\<not> used x flight mid \<longrightarrow>
      (case send sub parse mid sender recipient content channel x of
         (Inl e, x') \<Rightarrow> e = SenderNotRegistered sender \<and> sender \<notin> set (owner_ids x) \<and> x' = x
       | (Inr m, x') \<Rightarrow> sender \<in> set (owner_ids x) \<and> m = new_message mid sender recipient content channel \<and>
           waiting x' = (\<lambda>k n. if k = sender \<and> n = OUTBOX then waiting x sender OUTBOX @ [m] else waiting x k n))) \<and>
    (case collect_start parse owner x of
       (Inl e, x') \<Rightarrow> e = OwnerNotRegistered owner \<and> owner \<notin> set (owner_ids x) \<and> x' = x
     | (Inr ds, x') \<Rightarrow> (\<forall>r. map snd (filter (\<lambda>d. fst d = r) ds) = filter (addressed x owner r) (waiting x owner OUTBOX)) \<and>
         waiting x' = (\<lambda>k n. if k = owner \<and> n = OUTBOX then [] else waiting x k n)) \<and>
    ((r, m) \<in> set flight \<longrightarrow> (\<forall>f. exchange_get r x = Some f \<longrightarrow> prog_at f pid = None) \<longrightarrow>
      (case deliver_to sub parse pid r m x of
         (res, x') \<Rightarrow> res = Inr () \<and>
           waiting x' = (\<lambda>k n. waiting x k n @ (if k = r \<and> n = inbox_name (ms_sender m) \<and> r \<in> set (owner_ids x) then [m] else [])))) \<and>
    receive owner (Some sender) x = Inr (waiting x owner (inbox_name (Some sender))) \<and>
    (parse (inbox_name (Some sender)) = None \<longrightarrow>
      (case (waiting x owner (inbox_name (Some sender)), pop_message parse owner sender x) of
         ([], res, x') \<Rightarrow> res = Inr None \<and> x' = x
       | (m # ms, res, x') \<Rightarrow> res = Inr (Some m) \<and> waiting x' = (\<lambda>k n. if k = owner \<and> n = inbox_name (Some sender) then ms else waiting x k n)))"
proof -
  have ok: "post_ok x flight" by (rule reachable_post_ok [OF assms])
  then have ix: "index_ok x" by (simp add: post_ok_def)
  have 1: "case send sub parse mid sender recipient content channel x of
         (Inl e, x') \<Rightarrow> e = SenderNotRegistered sender \<and> sender \<notin> set (owner_ids x) \<and> x' = x
       | (Inr m, x') \<Rightarrow> sender \<in> set (owner_ids x) \<and> m = new_message mid sender recipient content channel \<and>
           waiting x' = (\<lambda>k n. if k = sender \<and> n = OUTBOX then waiting x sender OUTBOX @ [m] else waiting x k n)" if "\<not> used x flight mid"
  proof (cases "box x sender")
    case None
    then show ?thesis using get_registered [OF ix, of sender] by (simp add: send_def)
  next
    case (Some f)
    then have "sender \<in> set (owner_ids x)" using get_registered [OF ix, of sender] by auto
    then show ?thesis using send_step [OF ok that Some refl, of sub parse recipient content channel] by auto
  qed
  have 2: "case collect_start parse owner x of
       (Inl e, x') \<Rightarrow> e = OwnerNotRegistered owner \<and> owner \<notin> set (owner_ids x) \<and> x' = x
     | (Inr ds, x') \<Rightarrow> (\<forall>r. map snd (filter (\<lambda>d. fst d = r) ds) = filter (addressed x owner r) (waiting x owner OUTBOX)) \<and>
         waiting x' = (\<lambda>k n. if k = owner \<and> n = OUTBOX then [] else waiting x k n)"
  proof (cases "box x owner")
    case None
    then show ?thesis using get_registered [OF ix, of owner] by (simp add: collect_start_def)
  next
    case (Some f)
    from collect_start_step [OF ok Some, of parse] obtain x' where
      "collect_start parse owner x = (Inr (outgoing x owner), x')" "waiting x' = (\<lambda>k n. if k = owner \<and> n = OUTBOX then [] else waiting x k n)" by blast
    then show ?thesis using outgoing_to [OF ix] by simp
  qed
  have 3: "case deliver_to sub parse pid r m x of
         (res, x') \<Rightarrow> res = Inr () \<and>
           waiting x' = (\<lambda>k n. waiting x k n @ (if k = r \<and> n = inbox_name (ms_sender m) \<and> r \<in> set (owner_ids x) then [m] else []))"
    if "(r, m) \<in> set flight" "\<forall>f. exchange_get r x = Some f \<longrightarrow> prog_at f pid = None"
    using deliver_step [OF flight_first [OF ok that(1)], of pid sub parse] that(2) by auto
  have 4: "case (waiting x owner (inbox_name (Some sender)), pop_message parse owner sender x) of
         ([], res, x') \<Rightarrow> res = Inr None \<and> x' = x
       | (m # ms, res, x') \<Rightarrow> res = Inr (Some m) \<and> waiting x' = (\<lambda>k n. if k = owner \<and> n = inbox_name (Some sender) then ms else waiting x k n)"
    if p: "parse (inbox_name (Some sender)) = None"
    using pop_step [where parse = parse and sender = sender and owner = owner, OF ok p]
    by (cases "waiting x owner (inbox_name (Some sender))") auto
  show ?thesis using 1 2 3 4 receive_ok [OF ok] by blast
qed

text \<open>C13: A round delivers every message exactly once: afterwards the outbox is empty and the inbox of the owner at every registered entity has got
  exactly the messages addressed to it, by name or by broadcast, whatever order the deliveries run in, and in the order they were sent if they run in the order
  they were started. The result counts the messages that had a recipient.\<close>

theorem collect_delivers_once:
  assumes "reachable_post sub parse x flight" "owner \<in> set (owner_ids x)" "\<forall>ds. mset (schedule ds) = mset ds"
    "\<forall>r f u. exchange_get r x = Some f \<longrightarrow> prog_at f (gen r u) = None"
  shows "\<exists>x' delivered. collect sub parse gen schedule owner x =
        (Inr (card {el_id m | m r. m \<in> set (waiting x owner OUTBOX) \<and> addressed x owner r m}), x') \<and>
      owner_ids x' = owner_ids x \<and>
      waiting x' = (\<lambda>k n. if k = owner \<and> n = OUTBOX then [] else waiting x k n @ (if n = inbox_name (Some owner) then delivered k else [])) \<and>
      (\<forall>k. mset (delivered k) = mset (filter (addressed x owner k) (waiting x owner OUTBOX))) \<and>
      (schedule = (\<lambda>ds. ds) \<longrightarrow> (\<forall>k. delivered k = filter (addressed x owner k) (waiting x owner OUTBOX)))"
proof -
  have ok: "post_ok x flight" by (rule reachable_post_ok [OF assms(1)])
  then have ix: "index_ok x" by (simp add: post_ok_def)
  define del where "del = (\<lambda>k. if k \<in> set (owner_ids x) then map snd (filter (\<lambda>d. fst d = k) (schedule (outgoing x owner))) else [])"
  note to = outgoing_to [OF ix]
  have none: "filter (addressed x owner k) (waiting x owner OUTBOX) = []" if "k \<notin> set (owner_ids x)" for k
    using that by (simp add: addressed_def filter_empty_conv)
  have "(r, m) \<in> set (outgoing x owner) \<longleftrightarrow> m \<in> set (waiting x owner OUTBOX) \<and> addressed x owner r m" for r m
  proof -
    have "m \<in> set (map snd (filter (\<lambda>d. fst d = r) (outgoing x owner))) \<longleftrightarrow> (r, m) \<in> set (outgoing x owner)" by force
    then show ?thesis unfolding to by auto
  qed
  then have ids: "el_id ` snd ` set (outgoing x owner) = {el_id m | m r. m \<in> set (waiting x owner OUTBOX) \<and> addressed x owner r m}" by force
  from collect_step [where schedule = schedule and gen = gen and sub = sub and parse = parse, OF ok assms(2) spec [OF assms(3)]] assms(4) obtain x' where
    x': "collect sub parse gen schedule owner x = (Inr (card (el_id ` snd ` set (outgoing x owner))), x')" "owner_ids x' = owner_ids x"
      "waiting x' = (\<lambda>k n. if k = owner \<and> n = OUTBOX then []
         else waiting x k n @ (if n = inbox_name (Some owner) \<and> k \<in> set (owner_ids x) then map snd (filter (\<lambda>d. fst d = k) (schedule (outgoing x owner))) else []))"
    by blast
  have "waiting x' = (\<lambda>k n. if k = owner \<and> n = OUTBOX then [] else waiting x k n @ (if n = inbox_name (Some owner) then del k else []))"
    unfolding x'(3) by (intro ext) (simp add: del_def)
  moreover have "mset (del k) = mset (filter (addressed x owner k) (waiting x owner OUTBOX))" for k
  proof (cases "k \<in> set (owner_ids x)")
    case True
    then show ?thesis unfolding to [symmetric] by (simp add: mset_filter assms(3) del_def)
  qed (simp add: none del_def)
  moreover have "del k = filter (addressed x owner k) (waiting x owner OUTBOX)" if "schedule = (\<lambda>ds. ds)" for k
    using none [of k] by (simp add: that to del_def)
  ultimately show ?thesis using x'(1,2) unfolding ids by (intro exI [of _ x'] exI [of _ del]) simp
qed


section \<open>A sample\<close>

text \<open>Two entities; the first has sent a broadcast and a message to an entity that is not registered.\<close>

definition sample_exchange :: "nat exchange" where
  "sample_exchange =
    (let x1 = snd (register (=) ''a'' ''fa'' ''pa'' new_exchange);
         x2 = snd (register (=) ''b'' ''fb'' ''pb'' x1);
         x3 = snd (send (=) (\<lambda>_. None) ''m1'' ''a'' None 7 None x2)
     in snd (send (=) (\<lambda>_. None) ''m2'' ''a'' (Some ''c'') 8 None x3))"

lemma not_used:
  assumes "post_ok x []" "list_all (\<lambda>k. map_option (\<lambda>f. pile_contains u (fl_items f)) (box x k) = Some False) (owner_ids x)"
  shows "\<not> used x [] u"
proof
  assume "used x [] u"
  then obtain k f where k: "box x k = Some f" "item_at f u \<noteq> None" by (auto simp: used_def)
  then have "k \<in> set (owner_ids x)" using get_registered [of x k] assms(1) by (auto simp: post_ok_def)
  then have "\<not> pile_contains u (fl_items f)" using assms(2) k(1) by (auto simp: list_all_iff)
  then show False using k(2) by (simp add: pile_contains_def)
qed

lemma sample_post: "reachable_post (=) (\<lambda>_. None) sample_exchange []"
proof -
  define x1 :: "nat exchange" where "x1 = snd (register (=) ''a'' ''fa'' ''pa'' new_exchange)"
  define x2 where "x2 = snd (register (=) ''b'' ''fb'' ''pb'' x1)"
  define x3 where "x3 = snd (send (=) (\<lambda>_. None) ''m1'' ''a'' None 7 None x2)"
  have free: "\<not> pile_contains ''fa'' (xc_flows (new_exchange :: nat exchange))" "\<not> pile_contains ''fb'' (xc_flows x1)" unfolding x1_def by code_simp+
  have r1: "reachable_post (=) (\<lambda>_. None) x1 []"
    using free(1) unfolding x1_def by (intro reachable_post.registered [OF reachable_post.created _ surjective_pairing]) (simp add: pile_contains_def)
  have r2: "reachable_post (=) (\<lambda>_. None) x2 []"
    using free(2) unfolding x2_def by (intro reachable_post.registered [OF r1 _ surjective_pairing]) (simp add: pile_contains_def)
  have "list_all (\<lambda>k. map_option (\<lambda>f. pile_contains ''m1'' (fl_items f)) (box x2 k) = Some False) (owner_ids x2)" unfolding x2_def x1_def by code_simp
  then have r3: "reachable_post (=) (\<lambda>_. None) x3 []"
    unfolding x3_def by (intro reachable_post.sent [OF r2 _ surjective_pairing] not_used [OF reachable_post_ok [OF r2]])
  have "list_all (\<lambda>k. map_option (\<lambda>f. pile_contains ''m2'' (fl_items f)) (box x3 k) = Some False) (owner_ids x3)" unfolding x3_def x2_def x1_def by code_simp
  then show ?thesis unfolding sample_exchange_def Let_def x1_def [symmetric] x2_def [symmetric] x3_def [symmetric]
    by (intro reachable_post.sent [OF r3 _ surjective_pairing] not_used [OF reachable_post_ok [OF r3]])
qed

lemma sample_exchange_state:
  "owner_ids sample_exchange = [''a'', ''b'']"
  "waiting sample_exchange ''a'' OUTBOX = [new_message ''m1'' ''a'' None 7 None, new_message ''m2'' ''a'' (Some ''c'') 8 None]"
  "waiting sample_exchange ''b'' (inbox_name (Some ''a'')) = []"
  by code_simp+

theorem exchange_refines_queues_witness:
  "\<exists>x'. send (=) (\<lambda>_. None) ''m3'' ''b'' (Some ''a'') 9 None sample_exchange = (Inr (new_message ''m3'' ''b'' (Some ''a'') 9 None), x') \<and>
     waiting x' ''a'' OUTBOX = [new_message ''m1'' ''a'' None 7 None, new_message ''m2'' ''a'' (Some ''c'') 8 None] \<and>
     receive ''b'' (Some ''a'') sample_exchange = Inr []"
proof -
  have "list_all (\<lambda>k. map_option (\<lambda>f. pile_contains ''m3'' (fl_items f)) (box sample_exchange k) = Some False) (owner_ids sample_exchange)" by code_simp
  then have new: "\<not> used sample_exchange [] ''m3''" by (rule not_used [OF reachable_post_ok [OF sample_post]])
  note q = exchange_refines_queues [where sender = "''b''" and recipient = "Some ''a''" and content = 9 and channel = None, OF sample_post, THEN conjunct1, THEN mp, OF new]
  have "receive ''b'' (Some ''a'') sample_exchange = Inr []"
    using exchange_refines_queues [OF sample_post, THEN conjunct2, THEN conjunct2, THEN conjunct2, THEN conjunct1, of "''b''" "''a''"] sample_exchange_state(3) by simp
  moreover obtain r x' where r: "send (=) (\<lambda>_. None) ''m3'' ''b'' (Some ''a'') 9 None sample_exchange = (r, x')"
    by (cases "send (=) (\<lambda>_. None) ''m3'' ''b'' (Some ''a'') 9 None sample_exchange")
  ultimately show ?thesis using q by (cases r) (simp_all add: sample_exchange_state)
qed

theorem collect_delivers_once_witness:
  "\<exists>x'. collect (=) (\<lambda>_. None) (\<lambda>_ _. ''q'') rev ''a'' sample_exchange = (Inr 1, x') \<and>
     waiting x' ''a'' OUTBOX = [] \<and> mset (waiting x' ''b'' (inbox_name (Some ''a''))) = {#new_message ''m1'' ''a'' None 7 None#}"
proof -
  have progs: "list_all (\<lambda>k. map_option (\<lambda>f. pile_contains ''q'' (fl_progressions f)) (box sample_exchange k) = Some False) (owner_ids sample_exchange)" by code_simp
  have fresh: "prog_at f ''q'' = None" if f: "box sample_exchange k = Some f" for k f
  proof -
    have "index_ok sample_exchange" using reachable_post_ok [OF sample_post] by (simp add: post_ok_def)
    then have "k \<in> set (owner_ids sample_exchange)" using get_registered [of sample_exchange k] f by auto
    then have "\<not> pile_contains ''q'' (fl_progressions f)" using progs f by (auto simp: list_all_iff)
    then show ?thesis by (simp add: pile_contains_def)
  qed
  have to: "addressed sample_exchange ''a'' k (new_message ''m1'' ''a'' None (7::nat) None) \<longleftrightarrow> k = ''b''"
    "\<not> addressed sample_exchange ''a'' k (new_message ''m2'' ''a'' (Some ''c'') (8::nat) None)" for k
    by (auto simp: addressed_def sample_exchange_state(1) new_message_def)
  have "m \<in> set (waiting sample_exchange ''a'' OUTBOX) \<and> addressed sample_exchange ''a'' r m \<longleftrightarrow> m = new_message ''m1'' ''a'' None 7 None \<and> r = ''b''" for m r
    unfolding sample_exchange_state(2) list.set using to [of r] by blast
  then have n: "card {el_id m | m r. m \<in> set (waiting sample_exchange ''a'' OUTBOX) \<and> addressed sample_exchange ''a'' r m} = 1" by (simp add: new_message_def)
  have "''a'' \<in> set (owner_ids sample_exchange)" "\<forall>ds. mset (rev ds) = mset ds" by (simp_all add: sample_exchange_state)
  from collect_delivers_once [OF sample_post this, of "\<lambda>_ _. ''q''"] fresh obtain x' del where
    x': "collect (=) (\<lambda>_. None) (\<lambda>_ _. ''q'') rev ''a'' sample_exchange = (Inr 1, x')"
      "waiting x' = (\<lambda>k n. if k = ''a'' \<and> n = OUTBOX then [] else waiting sample_exchange k n @ (if n = inbox_name (Some ''a'') then del k else []))"
      "\<forall>k. mset (del k) = mset (filter (addressed sample_exchange ''a'' k) (waiting sample_exchange ''a'' OUTBOX))"
    unfolding n by blast
  have "mset (del ''b'') = {#new_message ''m1'' ''a'' None 7 None#}" using x'(3) to by (simp add: sample_exchange_state(2))
  then show ?thesis using x'(1) by (intro exI [of _ x']) (simp add: x'(2) sample_exchange_state(3))
qed

end
