(* ===== verification/Float_Arith.thy ===== *)
theory Float_Arith
  imports Resilience
begin

text \<open>
  Arithmetic on finite floats. \<open>fl\<close> is the double nearest to a rational, the result of an arithmetic operation whose exact value is that rational; the
  quantities of the theories that use it stay far below overflow, where \<open>fl\<close> does not round. Rounding has a relative error of at most
  \<open>2\<^sup>-\<^sup>5\<^sup>3\<close>, down to half of the smallest subnormal, and never crosses a double.
\<close>

definition fl :: "rat \<Rightarrow> rat" where
  "fl q = (if q = 0 then 0 else (case round_double \<bar>q\<bar> of Finite v \<Rightarrow> (if q < 0 then - v else v) | _ \<Rightarrow> q))"

lemma float_sub_fl: "float_sub a b = fl (a - b)"
  by (auto simp: float_sub_def fl_def split: py_float.split)

section \<open>The last place\<close>

lemma bit_length_bounds: "0 < n \<Longrightarrow> 2 ^ (bit_length n - 1) \<le> n \<and> n < 2 ^ bit_length n \<and> 0 < bit_length n"
proof (induction n rule: bit_length.induct)
  case (1 n)
  show ?case
  proof (cases "n = 1")
    case True
    then show ?thesis by (simp add: bit_length.simps [of "Suc 0"] bit_length.simps [of 0])
  next
    case False
    then have n2: "0 < n div 2" "n \<noteq> 0" using 1(2) by auto
    from 1(1) [OF n2(2,1)] have IH: "2 ^ (bit_length (n div 2) - 1) \<le> n div 2" "n div 2 < 2 ^ bit_length (n div 2)" "0 < bit_length (n div 2)" by auto
    have b: "bit_length n = Suc (bit_length (n div 2))" using n2(2) by (subst bit_length.simps) simp
    have "(2 :: nat) ^ bit_length (n div 2) = 2 * 2 ^ (bit_length (n div 2) - 1)" using IH(3) by (metis Suc_pred' power_Suc)
    then have "2 ^ bit_length (n div 2) \<le> n" using IH(1) by linarith
    moreover have "n < 2 * 2 ^ bit_length (n div 2)" using IH(2) by linarith
    ultimately show ?thesis by (simp add: b)
  qed
qed

lemma scale2_powi: "scale2 e q = q * 2 powi e"
proof (cases "0 \<le> e")
  case False
  then show ?thesis by (simp only: scale2_def power_int_def if_False power_inverse divide_inverse)
qed (simp add: scale2_def power_int_def)

text \<open>\<open>grid k q\<close>: the numbers at \<open>q\<close> of 53 bits are \<open>2\<^sup>k\<close> apart.\<close>

definition grid :: "int \<Rightarrow> rat \<Rightarrow> bool" where
  "grid k q \<longleftrightarrow> 2 ^ 52 * 2 powi k \<le> q \<and> q < 2 ^ 53 * 2 powi k"

lemma powi_two_add: "(2 :: rat) powi (k + 53) = 2 ^ 53 * 2 powi k" "(2 :: rat) powi (k + 1) = 2 * 2 powi k"
  by (simp_all add: power_int_add)

lemma grid_mono: "grid k q \<Longrightarrow> grid l r \<Longrightarrow> q \<le> r \<Longrightarrow> k \<le> l"
proof (rule ccontr)
  assume g: "grid k q" "grid l r" "q \<le> r" "\<not> k \<le> l"
  then have "(2 :: rat) powi (l + 1) \<le> 2 powi k" by (intro power_int_increasing) auto
  then have "2 * 2 powi l \<le> (2 :: rat) powi k" unfolding powi_two_add .
  then show False using g(1-3) unfolding grid_def by simp
qed

lemma powi_bounds:
  assumes "2 ^ (b - 1) \<le> m" "m < 2 ^ b" "0 < b"
  shows "2 powi (int b - 1) \<le> (of_nat m :: rat)" "(of_nat m :: rat) < 2 powi int b"
proof -
  have "(2 :: rat) powi (int b - 1) = 2 ^ (b - 1)" using assms(3) by (simp add: power_int_def nat_diff_distrib')
  also have "\<dots> \<le> of_nat m" using assms(1) by (metis of_nat_le_iff of_nat_numeral of_nat_power)
  finally show "2 powi (int b - 1) \<le> (of_nat m :: rat)" .
  show "(of_nat m :: rat) < 2 powi int b" using assms(2) by (metis of_nat_less_iff of_nat_numeral of_nat_power power_int_of_nat)
qed

lemma ulp_exponent_grid:
  assumes "0 < q"
  shows "\<exists>k. grid k q \<and> ulp_exponent q = max (- 1074) k"
proof -
  obtain n d where nd: "quotient_of q = (n, d)" by (cases "quotient_of q")
  have d: "0 < d" by (rule quotient_of_denom_pos [OF nd])
  have q: "q = of_int n / of_int d" by (rule quotient_of_div [OF nd])
  have n: "0 < n" using assms d unfolding q by (simp add: zero_less_divide_iff)
  let ?b = "bit_length (nat n)" and ?c = "bit_length (nat d)"
  have bn: "2 ^ (?b - 1) \<le> nat n" "nat n < 2 ^ ?b" "0 < ?b" using bit_length_bounds [of "nat n"] n by auto
  have bd: "2 ^ (?c - 1) \<le> nat d" "nat d < 2 ^ ?c" "0 < ?c" using bit_length_bounds [of "nat d"] d by auto
  have num: "2 powi (int ?b - 1) \<le> (of_int n :: rat)" "(of_int n :: rat) < 2 powi int ?b"
    using powi_bounds [OF bn] n by simp_all
  have den: "2 powi (int ?c - 1) \<le> (of_int d :: rat)" "(of_int d :: rat) < 2 powi int ?c"
    using powi_bounds [OF bd] d by simp_all
  define e where "e = int ?b - int ?c - 53"
  have e: "(2 :: rat) ^ 53 * 2 powi e = 2 powi int ?b / 2 powi int ?c" "2 powi (int ?b - 1) = (2 :: rat) powi int ?b / 2" "2 powi (int ?c - 1) = (2 :: rat) powi int ?c / 2"
    unfolding e_def by (simp_all add: power_int_diff)
  have pos: "0 < (2 :: rat) powi int ?b" "0 < (2 :: rat) powi int ?c" "0 < (of_int d :: rat)" using d by simp_all
  have lo: "2 ^ 52 * 2 powi e \<le> q"
  proof -
    have "2 powi int ?b / 2 / 2 powi int ?c \<le> q" unfolding q using num(1) den(2) pos n unfolding e(2) by (intro frac_le) auto
    moreover have "2 * (2 ^ 52 * 2 powi e) = (2 :: rat) ^ 53 * 2 powi e" by simp
    ultimately show ?thesis unfolding e(1) by simp
  qed
  have hi: "q < 2 * (2 ^ 53 * 2 powi e)"
  proof -
    have "q < 2 powi int ?b / (2 powi int ?c / 2)" unfolding q using num(2) den(1) pos n unfolding e(3) by (intro frac_less) auto
    then show ?thesis unfolding e(1) by (simp add: mult.commute)
  qed
  have test: "2 ^ 53 \<le> scale2 (- e) q \<longleftrightarrow> 2 ^ 53 * 2 powi e \<le> q"
    unfolding scale2_powi by (simp add: power_int_minus field_simps)
  have ulp: "ulp_exponent q = max (- 1074) (if 2 ^ 53 * 2 powi e \<le> q then e + 1 else e)"
    unfolding ulp_exponent_def nd Let_def prod.case e_def [symmetric] test ..
  show ?thesis
  proof (cases "2 ^ 53 * 2 powi e \<le> q")
    case True
    then have "grid (e + 1) q" using hi unfolding grid_def powi_two_add by simp
    then show ?thesis using True unfolding ulp by auto
  next
    case False
    then have "grid e q" using lo unfolding grid_def by simp
    then show ?thesis using False unfolding ulp by auto
  qed
qed


section \<open>Rounding\<close>

text \<open>The relative error of normal numbers and the absolute error of subnormal ones.\<close>

definition roundoff :: rat where
  "roundoff = 1 / 2 ^ 53"

definition tiny :: rat where
  "tiny = 2 powi (- 1075)"

lemma roundoff_pos: "0 < roundoff" "0 < tiny"
  unfolding roundoff_def tiny_def by (simp_all only: zero_less_power_int zero_less_numeral zero_less_divide_1_iff zero_less_power)

definition nearest :: "rat \<Rightarrow> rat" where
  "nearest q = of_int (round_half_even (q * 2 powi (- ulp_exponent q))) * 2 powi ulp_exponent q"

lemma fl_pos: "0 < q \<Longrightarrow> fl q = nearest q \<or> fl q = q"
  by (auto simp: fl_def round_double_def Let_def scale2_powi nearest_def)

lemma fl_neg: "fl (- q) = - fl q"
  by (auto simp: fl_def split: py_float.split)

lemma fl_zero [simp]: "fl 0 = 0"
  by (simp add: fl_def)

lemma nearest_error:
  assumes "0 < q"
  shows "\<bar>nearest q - q\<bar> \<le> q * roundoff + tiny"
proof -
  let ?p = "(2 :: rat) powi ulp_exponent q"
  obtain k where k: "grid k q" "ulp_exponent q = max (- 1074) k" using ulp_exponent_grid [OF assms] by blast
  have p: "0 < ?p" by simp
  define t where "t = q * 2 powi (- ulp_exponent q)"
  have t: "t * ?p = q" by (simp add: t_def power_int_minus)
  have "\<bar>of_int (round_half_even t) - t\<bar> * ?p \<le> 1 / 2 * ?p" using round_half_even_error p by (intro mult_right_mono) auto
  moreover have "\<bar>of_int (round_half_even t) - t\<bar> * ?p = \<bar>of_int (round_half_even t) * ?p - t * ?p\<bar>"
    by (simp add: left_diff_distrib [symmetric] abs_mult)
  ultimately have err: "\<bar>nearest q - q\<bar> \<le> ?p / 2" unfolding nearest_def t_def [symmetric] t by simp
  show ?thesis
  proof (cases "k \<le> - 1074")
    case True
    have "(2 :: rat) powi (- 1074 + - 1) = 2 powi (- 1074) * 2 powi (- 1)" by (rule power_int_add) simp
    moreover have "(- 1074 + - 1 :: int) = - 1075" "(2 :: rat) powi (- 1) = 1 / 2" by simp_all
    ultimately have "(2 :: rat) powi (- 1074) / 2 = tiny" unfolding tiny_def by (metis times_divide_eq_right mult.right_neutral)
    then have "?p / 2 = tiny" using True unfolding k(2) by (simp only: max_absorb1)
    moreover have "0 \<le> q * roundoff" using assms roundoff_pos by simp
    ultimately show ?thesis using err by linarith
  next
    case False
    then have "2 ^ 52 * ?p \<le> q" using k unfolding grid_def by simp
    then have "?p / 2 \<le> q * roundoff" by (simp add: roundoff_def)
    then show ?thesis using err roundoff_pos by linarith
  qed
qed

lemma fl_error: "\<bar>fl q - q\<bar> \<le> \<bar>q\<bar> * roundoff + tiny"
proof -
  have pos: "\<bar>fl r - r\<bar> \<le> r * roundoff + tiny" if "0 < r" for r
    using fl_pos [OF that] nearest_error [OF that] that by auto
  consider "q = 0" | "0 < q" | "0 < - q" by linarith
  then show ?thesis
  proof cases
    case 3
    then show ?thesis using pos [OF 3] fl_neg [of q] by simp
  qed (use pos roundoff_pos in auto)
qed

lemma fl_nonneg: "0 \<le> q \<Longrightarrow> 0 \<le> fl q"
proof (cases "q = 0")
  case False
  assume "0 \<le> q"
  then have q: "0 < q" using False by simp
  have "0 \<le> \<lfloor>q * 2 powi (- ulp_exponent q)\<rfloor>" using q by simp
  then have "0 \<le> round_half_even (q * 2 powi (- ulp_exponent q))" by (simp add: round_half_even_def Let_def)
  then have "0 \<le> nearest q" unfolding nearest_def by simp
  then show ?thesis using fl_pos [OF q] q by auto
qed simp

text \<open>Rounding up stays below a double.\<close>

definition is_double :: "rat \<Rightarrow> bool" where
  "is_double y \<longleftrightarrow> (\<exists>n. y = of_int n * 2 powi ulp_exponent y)"

lemma round_half_even_le: "q \<le> of_int n \<Longrightarrow> round_half_even q \<le> n"
proof -
  assume q: "q \<le> of_int n"
  show ?thesis
  proof (cases "\<lfloor>q\<rfloor> = n")
    case True
    then have "q = of_int n" using q by linarith
    then show ?thesis by simp
  next
    case False
    then have "\<lfloor>q\<rfloor> + 1 \<le> n" using q by linarith
    then show ?thesis by (auto simp: round_half_even_def Let_def)
  qed
qed

lemma fl_le_double:
  assumes "0 \<le> q" "q \<le> y" "is_double y"
  shows "fl q \<le> y"
proof (cases "q = 0")
  case False
  then have q: "0 < q" "0 < y" using assms by auto
  obtain k l where kl: "grid k q" "ulp_exponent q = max (- 1074) k" "grid l y" "ulp_exponent y = max (- 1074) l"
    using ulp_exponent_grid [OF q(1)] ulp_exponent_grid [OF q(2)] by blast
  then have le: "ulp_exponent q \<le> ulp_exponent y" using grid_mono [OF kl(1,3) assms(2)] by simp
  obtain n where n: "y = of_int n * 2 powi ulp_exponent y" using assms(3) by (auto simp: is_double_def)
  define i where "i = n * 2 ^ nat (ulp_exponent y - ulp_exponent q)"
  have "(2 :: rat) powi ulp_exponent y = 2 ^ nat (ulp_exponent y - ulp_exponent q) * 2 powi ulp_exponent q"
    using le by (simp add: power_int_add [symmetric] power_int_of_nat [symmetric] del: power_int_of_nat)
  then have y: "y = of_int i * 2 powi ulp_exponent q" using n by (simp add: i_def)
  have "q * 2 powi (- ulp_exponent q) \<le> of_int i" using assms(2) unfolding y by (simp add: power_int_minus field_simps)
  then have "round_half_even (q * 2 powi (- ulp_exponent q)) \<le> i" by (rule round_half_even_le)
  then have "nearest q \<le> y" unfolding nearest_def y by simp
  then show ?thesis using fl_pos [OF q(1)] assms(2) by auto
qed (use assms in simp)


lemma fl_double: "0 < q \<Longrightarrow> is_double q \<Longrightarrow> fl q = q"
proof -
  assume q: "0 < q" "is_double q"
  then obtain n where n: "q = of_int n * 2 powi ulp_exponent q" by (auto simp: is_double_def)
  have "q * 2 powi (- ulp_exponent q) = of_int n" by (subst (1) n) (simp add: power_int_minus)
  then have "nearest q = q" using n by (simp add: nearest_def)
  then show ?thesis using fl_pos [OF q(1)] by auto
qed

text \<open>Ints of at most 53 bits are doubles.\<close>

lemma small_int_double: "0 < n \<Longrightarrow> n < 2 ^ 53 \<Longrightarrow> is_double (of_int n)"
proof -
  assume n: "0 < n" "n < 2 ^ 53"
  then have q: "0 < (of_int n :: rat)" by simp
  obtain k where k: "grid k (of_int n)" "ulp_exponent (of_int n) = max (- 1074) k" using ulp_exponent_grid [OF q] by blast
  have "(of_int n :: rat) < of_int (2 ^ 53)" using n(2) by (simp only: of_int_less_iff)
  then have "2 ^ 52 * 2 powi k < (2 :: rat) ^ 53" using k(1) unfolding grid_def by simp
  then have "(2 :: rat) powi k < 2 powi 1" by simp
  then have "k < 1" using power_int_increasing [of 1 k "2 :: rat"] by force
  then have e: "ulp_exponent (of_int n) \<le> 0" unfolding k(2) by simp
  let ?m = "nat (- ulp_exponent (of_int n :: rat))"
  have "(2 :: rat) powi ulp_exponent (of_int n) = inverse (2 ^ ?m)" using e by (auto simp: power_int_def power_one_over inverse_eq_divide)
  then have "of_int n = (of_int (n * 2 ^ ?m) :: rat) * 2 powi ulp_exponent (of_int n)" by simp
  then show ?thesis unfolding is_double_def by blast
qed

lemma fl_small_int: "0 \<le> n \<Longrightarrow> n < 2 ^ 53 \<Longrightarrow> fl (of_int n) = of_int n"
  using fl_double [OF _ small_int_double, of n] by (cases "n = 0") auto

lemma fl_numeral [simp]: "(numeral k :: int) < 2 ^ 53 \<Longrightarrow> fl (numeral k) = numeral k"
  using fl_small_int [of "numeral k"] by simp

end
