(* ===== verification/Rate_Limiter.thy ===== *)
theory Rate_Limiter
  imports Float_Arith
begin

text \<open>
  The token bucket of the services (\<open>libs/kron/src/kron/services/utilities/rate_limiter.py\<close>). The clock readings are arguments; each block under
  the lock is one operation, and the blocks of concurrent clients follow each other in any order. Amounts of tokens are ints below \<open>2\<^sup>5\<^sup>3\<close>, which
  are exact floats, and results of float operations are rounded.
\<close>

section \<open>The bucket\<close>

record RateLimitConfig =
  rt_capacity :: int
  rt_refill_rate :: rat
  rt_initial_tokens :: int

datatype limiter_error = LimiterValueError string

definition rate_limit_config :: "int \<Rightarrow> rat \<Rightarrow> int option \<Rightarrow> (limiter_error, RateLimitConfig) result" where
  "rate_limit_config capacity refill_rate initial_tokens =
    (if capacity \<le> 0 then Inl (LimiterValueError ''capacity must be > 0'')
     else if refill_rate \<le> 0 then Inl (LimiterValueError ''refill_rate must be > 0'')
     else
       (case initial_tokens of
          None \<Rightarrow> Inr \<lparr>rt_capacity = capacity, rt_refill_rate = refill_rate, rt_initial_tokens = capacity\<rparr>
        | Some n \<Rightarrow>
            if n < 0 then Inl (LimiterValueError ''initial_tokens must be >= 0'')
            else if n > capacity then Inl (LimiterValueError ''initial_tokens cannot exceed capacity'')
            else Inr \<lparr>rt_capacity = capacity, rt_refill_rate = refill_rate, rt_initial_tokens = n\<rparr>))"

record TokenBucket =
  tb_capacity :: int
  tb_refill_rate :: rat
  tb_tokens :: rat
  tb_last_refill :: rat

definition new_bucket :: "rat \<Rightarrow> RateLimitConfig \<Rightarrow> TokenBucket" where
  "new_bucket now config =
    \<lparr>tb_capacity = rt_capacity config, tb_refill_rate = rt_refill_rate config, tb_tokens = fl (of_int (rt_initial_tokens config)), tb_last_refill = now\<rparr>"

definition refill :: "rat \<Rightarrow> TokenBucket \<Rightarrow> TokenBucket" where
  "refill now b =
    (let elapsed = fl (now - tb_last_refill b);
         new_tokens = fl (elapsed * tb_refill_rate b)
     in b\<lparr>tb_tokens := min (of_int (tb_capacity b)) (fl (tb_tokens b + new_tokens)), tb_last_refill := now\<rparr>)"

text \<open>The block under the lock that \<open>acquire\<close> and \<open>try_acquire\<close> share.\<close>

definition take_tokens :: "int \<Rightarrow> rat \<Rightarrow> TokenBucket \<Rightarrow> bool \<times> TokenBucket" where
  "take_tokens n now b =
    (let b1 = refill now b
     in if tb_tokens b1 \<ge> of_int n then (True, b1\<lparr>tb_tokens := fl (tb_tokens b1 - of_int n)\<rparr>) else (False, b1))"

definition try_acquire :: "int \<Rightarrow> rat \<Rightarrow> TokenBucket \<Rightarrow> (limiter_error, bool) result \<times> TokenBucket" where
  "try_acquire n now b =
    (if n \<le> 0 then (Inl (LimiterValueError ''tokens must be > 0''), b) else (let (r, b') = take_tokens n now b in (Inr r, b')))"

definition release :: "int \<Rightarrow> TokenBucket \<Rightarrow> (limiter_error, unit) result \<times> TokenBucket" where
  "release n b =
    (if n \<le> 0 then (Inl (LimiterValueError ''tokens must be > 0''), b)
     else (Inr (), b\<lparr>tb_tokens := min (of_int (tb_capacity b)) (fl (tb_tokens b + of_int n))\<rparr>))"

definition reset_bucket :: "rat \<Rightarrow> TokenBucket \<Rightarrow> TokenBucket" where
  "reset_bucket now b = b\<lparr>tb_tokens := fl (of_int (tb_capacity b)), tb_last_refill := now\<rparr>"

text \<open>One round of the loop of \<open>acquire\<close>, which was entered at \<open>start\<close>: the outcome, or how long to sleep before the next round. The clock is read
  in the block at \<open>now\<close> and for the timeout at \<open>later\<close>.\<close>

datatype acquire_outcome = Acquired | TimedOut | Sleep rat

definition check_acquire :: "int \<Rightarrow> TokenBucket \<Rightarrow> (limiter_error, unit) result" where
  "check_acquire n b =
    (if n \<le> 0 then Inl (LimiterValueError ''tokens must be > 0'')
     else if n > tb_capacity b then Inl (LimiterValueError ''exceeds bucket capacity'')
     else Inr ())"

definition acquire_round :: "int \<Rightarrow> rat option \<Rightarrow> rat \<Rightarrow> rat \<Rightarrow> rat \<Rightarrow> TokenBucket \<Rightarrow> acquire_outcome \<times> TokenBucket" where
  "acquire_round n timeout start now later b =
    (let (got, b') = take_tokens n now b
     in if got then (Acquired, b')
        else
          (let wait_time = fl (fl (of_int n - tb_tokens b') / tb_refill_rate b')
           in case timeout of
                None \<Rightarrow> (Sleep wait_time, b')
              | Some limit \<Rightarrow>
                  (let elapsed = fl (later - start)
                   in if fl (elapsed + wait_time) > limit then (TimedOut, b') else (Sleep (min wait_time (fl (limit - elapsed))), b'))))"

section \<open>Histories\<close>

text \<open>Blocks of any clients: attempts to take tokens, with success or without, tokens given back, and resets.\<close>

datatype bucket_op = OpTake int rat | OpRelease int | OpReset rat

fun op_time :: "bucket_op \<Rightarrow> rat option" where
  "op_time (OpTake _ now) = Some now"
| "op_time (OpRelease _) = None"
| "op_time (OpReset now) = Some now"

fun valid_op :: "bucket_op \<Rightarrow> bool" where
  "valid_op (OpTake n _) \<longleftrightarrow> 0 < n"
| "valid_op (OpRelease n) \<longleftrightarrow> 0 < n"
| "valid_op (OpReset _) \<longleftrightarrow> True"

fun bucket_step :: "bucket_op \<Rightarrow> TokenBucket \<Rightarrow> int \<times> TokenBucket" where
  "bucket_step (OpTake n now) b = (let (got, b') = take_tokens n now b in (if got then n else 0, b'))"
| "bucket_step (OpRelease n) b = (- n, snd (release n b))"
| "bucket_step (OpReset now) b = (0, reset_bucket now b)"

text \<open>The tokens handed out and not given back, and the bucket, after a history.\<close>

fun bucket_run :: "bucket_op list \<Rightarrow> TokenBucket \<Rightarrow> int \<times> TokenBucket" where
  "bucket_run [] b = (0, b)"
| "bucket_run (x # xs) b = (let (k, b1) = bucket_step x b; (m, b2) = bucket_run xs b1 in (k + m, b2))"

text \<open>The clock does not run backwards.\<close>

fun in_time :: "rat \<Rightarrow> bucket_op list \<Rightarrow> bool" where
  "in_time t [] = True"
| "in_time t (x # xs) = (case op_time x of None \<Rightarrow> in_time t xs | Some now \<Rightarrow> t \<le> now \<and> in_time now xs)"

fun is_reset :: "bucket_op \<Rightarrow> bool" where
  "is_reset (OpReset _) = True"
| "is_reset _ = False"

section \<open>The invariant\<close>

definition bucket_ok :: "TokenBucket \<Rightarrow> bool" where
  "bucket_ok b \<longleftrightarrow> 0 < tb_capacity b \<and> tb_capacity b < 2 ^ 53 \<and> 0 < tb_refill_rate b \<and> 0 \<le> tb_tokens b \<and> tb_tokens b \<le> of_int (tb_capacity b)"

lemma refill_ok: "bucket_ok b \<Longrightarrow> tb_last_refill b \<le> now \<Longrightarrow> bucket_ok (refill now b)"
proof -
  assume b: "bucket_ok b" and t: "tb_last_refill b \<le> now"
  have "0 \<le> fl (now - tb_last_refill b)" using t by (intro fl_nonneg) simp
  then have "0 \<le> fl (fl (now - tb_last_refill b) * tb_refill_rate b)" using b by (intro fl_nonneg) (simp add: bucket_ok_def)
  then have "0 \<le> fl (tb_tokens b + fl (fl (now - tb_last_refill b) * tb_refill_rate b))" using b by (intro fl_nonneg) (simp add: bucket_ok_def)
  then show ?thesis using b by (simp add: bucket_ok_def refill_def Let_def)
qed

lemma spend_ok:
  assumes "bucket_ok b" "of_int n \<le> tb_tokens b" "0 < n"
  shows "bucket_ok (b\<lparr>tb_tokens := fl (tb_tokens b - of_int n)\<rparr>)"
proof -
  have "tb_tokens b - of_int n \<le> of_int (tb_capacity b)" using assms by (simp add: bucket_ok_def)
  then have "fl (tb_tokens b - of_int n) \<le> of_int (tb_capacity b)"
    using assms by (intro fl_le_double small_int_double) (simp_all add: bucket_ok_def)
  moreover have "0 \<le> fl (tb_tokens b - of_int n)" using assms(2) by (intro fl_nonneg) simp
  ultimately show ?thesis using assms(1) by (simp add: bucket_ok_def)
qed


lemma fl_upper: "0 \<le> q \<Longrightarrow> q \<le> of_int c \<Longrightarrow> fl q \<le> q + of_int c * roundoff + tiny"
proof -
  assume "0 \<le> q" "q \<le> of_int c"
  then have "\<bar>q\<bar> * roundoff \<le> of_int c * roundoff" using roundoff_pos(1) by (intro mult_right_mono) auto
  then show ?thesis using fl_error [of q] by linarith
qed

lemma fl_upper_rel: "0 \<le> q \<Longrightarrow> fl q \<le> q * (1 + roundoff) + tiny"
  using fl_error [of q] by (simp add: algebra_simps)

text \<open>What rounding can add in one operation.\<close>

definition slack :: "TokenBucket \<Rightarrow> rat" where
  "slack b = 2 * of_int (tb_capacity b) * roundoff + 4 * tiny * (tb_refill_rate b + 1)"

lemma roundoff_small: "(1 + roundoff) ^ 2 \<le> 2" "1 + roundoff \<le> 2"
  by (simp_all add: roundoff_def power2_eq_square)

lemma refill_gain:
  assumes "bucket_ok b" "tb_last_refill b \<le> now"
  shows "tb_tokens (refill now b) \<le> tb_tokens b + (1 + roundoff) ^ 3 * tb_refill_rate b * (now - tb_last_refill b) +
    of_int (tb_capacity b) * roundoff + tiny * (2 * tb_refill_rate b + 3)"
proof -
  let ?u = "1 + roundoff" and ?t = "tb_tokens b" and ?r = "tb_refill_rate b" and ?d = "now - tb_last_refill b" and ?c = "of_int (tb_capacity b) :: rat"
  have pos: "0 \<le> ?d" "0 < ?r" "0 \<le> ?t" "?t \<le> ?c" using assms by (simp_all add: bucket_ok_def)
  note u = roundoff_pos roundoff_small
  define a where "a = fl ?d"
  define n where "n = fl (a * ?r)"
  have a: "0 \<le> a" "a \<le> ?d * ?u + tiny" using fl_nonneg [OF pos(1)] fl_upper_rel [OF pos(1)] by (simp_all add: a_def)
  have ar: "0 \<le> a * ?r" using a(1) pos(2) by simp
  have n: "0 \<le> n" "n \<le> a * ?r * ?u + tiny" using fl_nonneg [OF ar] fl_upper_rel [OF ar] by (simp_all add: n_def)
  have "a * ?r * ?u \<le> (?d * ?u + tiny) * ?r * ?u" using a(2) pos(2) u(1) by (intro mult_right_mono) auto
  then have "n * ?u \<le> ((?d * ?u + tiny) * ?r * ?u + tiny) * ?u" using n(2) u(1) by (intro mult_right_mono) linarith+
  also have "\<dots> = ?u ^ 3 * ?r * ?d + tiny * (?r * ?u ^ 2 + ?u)" by (simp add: algebra_simps power2_eq_square power3_eq_cube)
  finally have n': "n * ?u \<le> ?u ^ 3 * ?r * ?d + tiny * (?r * ?u ^ 2 + ?u)" .
  have "?r * ?u ^ 2 \<le> ?r * 2" using u(3) pos(2) by (intro mult_left_mono) auto
  then have "tiny * (?r * ?u ^ 2 + ?u) \<le> tiny * (2 * ?r + 2)" using u(2,4) by (intro mult_left_mono) linarith+
  moreover have "?t * roundoff \<le> ?c * roundoff" using pos(4) u(1) by (intro mult_right_mono) auto
  moreover have "fl (?t + n) \<le> ?t + ?t * roundoff + n * ?u + tiny"
    using fl_upper_rel [of "?t + n"] pos(3) n(1) by (simp add: algebra_simps)
  moreover have "tiny * (2 * ?r + 3) = tiny * (2 * ?r + 2) + tiny" by (simp add: algebra_simps)
  ultimately have "fl (?t + n) \<le> ?t + ?u ^ 3 * ?r * ?d + ?c * roundoff + tiny * (2 * ?r + 3)" using n' by linarith
  then show ?thesis by (simp add: refill_def Let_def a_def n_def min_le_iff_disj)
qed

lemma slack_nonneg: "bucket_ok b \<Longrightarrow> 0 \<le> slack b"
  using roundoff_pos by (simp add: slack_def bucket_ok_def)

text \<open>Tokens in the bucket and tokens handed out grow together only by the refill and by rounding, and by a reset.\<close>

lemma step_gain:
  assumes "bucket_ok b" "valid_op x" "case op_time x of None \<Rightarrow> True | Some now \<Rightarrow> tb_last_refill b \<le> now"
  defines "b' \<equiv> snd (bucket_step x b)"
  shows "bucket_ok b'" "tb_capacity b' = tb_capacity b" "tb_refill_rate b' = tb_refill_rate b"
    "tb_last_refill b' = (case op_time x of None \<Rightarrow> tb_last_refill b | Some now \<Rightarrow> now)"
    "tb_tokens b' + of_int (fst (bucket_step x b)) \<le> tb_tokens b + (if is_reset x then of_int (tb_capacity b) else 0) +
       (1 + roundoff) ^ 3 * tb_refill_rate b * (tb_last_refill b' - tb_last_refill b) + slack b"
proof -
  let ?c = "of_int (tb_capacity b) :: rat" and ?r = "tb_refill_rate b"
  note u = roundoff_pos
  have b: "0 < ?r" "0 \<le> tb_tokens b" "tb_tokens b \<le> ?c" "0 < tb_capacity b" "tb_capacity b < 2 ^ 53" using assms(1) by (simp_all add: bucket_ok_def)
  have rest: "0 \<le> ?c * roundoff" "tiny * (2 * ?r + 3) + tiny \<le> 4 * tiny * (?r + 1)" using b u by (simp_all add: algebra_simps)
  have slack: "?c * roundoff + tiny \<le> slack b" "2 * (?c * roundoff) + tiny * (2 * ?r + 3) + tiny \<le> slack b" "?c * roundoff + tiny * (2 * ?r + 3) \<le> slack b"
    using rest b u unfolding slack_def by (simp_all add: algebra_simps)
  show "tb_last_refill b' = (case op_time x of None \<Rightarrow> tb_last_refill b | Some now \<Rightarrow> now)"
    by (cases x) (simp_all add: b'_def take_tokens_def refill_def release_def reset_bucket_def Let_def)
  show "tb_capacity b' = tb_capacity b" "tb_refill_rate b' = ?r"
    by (cases x; simp add: b'_def take_tokens_def refill_def release_def reset_bucket_def Let_def)+
  have "bucket_ok b' \<and> tb_tokens b' + of_int (fst (bucket_step x b)) \<le> tb_tokens b + (if is_reset x then of_int (tb_capacity b) else 0) +
       (1 + roundoff) ^ 3 * tb_refill_rate b * (tb_last_refill b' - tb_last_refill b) + slack b"
  proof (cases x)
    case (OpTake n now)
    define b1 where "b1 = refill now b"
    have t: "tb_last_refill b \<le> now" "0 < n" using assms(2,3) OpTake by simp_all
    have b1: "bucket_ok b1" "tb_capacity b1 = tb_capacity b" "tb_last_refill b1 = now" using refill_ok [OF assms(1) t(1)] by (simp_all add: b1_def refill_def Let_def)
    note gain = refill_gain [OF assms(1) t(1), folded b1_def]
    show ?thesis
    proof (cases "of_int n \<le> tb_tokens b1")
      case True
      have "fl (tb_tokens b1 - of_int n) \<le> tb_tokens b1 - of_int n + ?c * roundoff + tiny"
        using fl_upper [of "tb_tokens b1 - of_int n" "tb_capacity b"] True b1 t(2) by (simp add: bucket_ok_def)
      then show ?thesis
        using True spend_ok [OF b1(1) True t(2)] gain slack(2) b1(3) OpTake by (simp add: b'_def take_tokens_def Let_def b1_def [symmetric])
    next
      case False
      then show ?thesis using b1 gain slack(3) OpTake by (simp add: b'_def take_tokens_def Let_def b1_def [symmetric])
    qed
  next
    case (OpRelease n)
    have n: "0 < n" using assms(2) OpRelease by simp
    have "min ?c (fl (tb_tokens b + of_int n)) \<le> tb_tokens b + of_int n + ?c * roundoff + tiny"
    proof (cases "tb_tokens b + of_int n \<le> ?c")
      case True
      then have "fl (tb_tokens b + of_int n) \<le> tb_tokens b + of_int n + ?c * roundoff + tiny" using b n by (intro fl_upper) auto
      then show ?thesis by linarith
    qed (use rest u in linarith)
    moreover have "0 \<le> fl (tb_tokens b + of_int n)" using b n by (intro fl_nonneg) simp
    ultimately show ?thesis using assms(1) b n slack(1) OpRelease by (simp add: b'_def release_def bucket_ok_def)
  next
    case (OpReset now)
    have c: "fl ?c \<le> ?c" "0 \<le> fl ?c" using b fl_small_int [of "tb_capacity b"] by simp_all
    have "0 \<le> (1 + roundoff) ^ 3 * ?r * (now - tb_last_refill b)" using assms(3) OpReset b u by simp
    then show ?thesis using assms(1) b c slack_nonneg [OF assms(1)] OpReset by (simp add: b'_def reset_bucket_def bucket_ok_def)
  qed
  then show "bucket_ok b'" "tb_tokens b' + of_int (fst (bucket_step x b)) \<le> tb_tokens b + (if is_reset x then of_int (tb_capacity b) else 0) +
       (1 + roundoff) ^ 3 * tb_refill_rate b * (tb_last_refill b' - tb_last_refill b) + slack b"
    by blast+
qed


lemma run_gain:
  "bucket_ok b \<Longrightarrow> list_all valid_op xs \<Longrightarrow> in_time (tb_last_refill b) xs \<Longrightarrow> bucket_run xs b = (m, b') \<Longrightarrow>
   bucket_ok b' \<and> tb_capacity b' = tb_capacity b \<and>
   tb_tokens b' + of_int m \<le> tb_tokens b + of_nat (length (filter is_reset xs)) * of_int (tb_capacity b) +
     (1 + roundoff) ^ 3 * tb_refill_rate b * (tb_last_refill b' - tb_last_refill b) + of_nat (length xs) * slack b"
proof (induction xs arbitrary: b m)
  case (Cons x xs)
  define b1 where "b1 = snd (bucket_step x b)"
  define k where "k = fst (bucket_step x b)"
  obtain m' where m': "bucket_run xs b1 = (m', b')" "m = k + m'"
    using Cons.prems(4) by (cases "bucket_run xs b1") (auto simp: b1_def k_def Let_def case_prod_beta)
  have "case op_time x of None \<Rightarrow> True | Some now \<Rightarrow> tb_last_refill b \<le> now" using Cons.prems(3) by (auto split: option.splits)
  note st = step_gain [OF Cons.prems(1) _ this, folded b1_def k_def]
  have v: "valid_op x" using Cons.prems(2) by simp
  have "in_time (tb_last_refill b1) xs" using Cons.prems(3) unfolding st(4) [OF v] by (auto split: option.splits)
  from Cons.IH [OF st(1) [OF v] _ this m'(1)] Cons.prems(2)
  have IH: "bucket_ok b'" "tb_capacity b' = tb_capacity b"
    "tb_tokens b' + of_int m' \<le> tb_tokens b1 + of_nat (length (filter is_reset xs)) * of_int (tb_capacity b) +
     (1 + roundoff) ^ 3 * tb_refill_rate b * (tb_last_refill b' - tb_last_refill b1) + of_nat (length xs) * slack b"
    using st(2,3) [OF v] by (simp_all add: slack_def)
  have "(1 + roundoff) ^ 3 * tb_refill_rate b * (tb_last_refill b' - tb_last_refill b) =
      (1 + roundoff) ^ 3 * tb_refill_rate b * (tb_last_refill b' - tb_last_refill b1) + (1 + roundoff) ^ 3 * tb_refill_rate b * (tb_last_refill b1 - tb_last_refill b)"
    by (simp only: distrib_left [symmetric]) simp
  then show ?case using IH st(5) [OF v] m'(2) by (cases "is_reset x") (simp_all add: distrib_right)
qed simp

section \<open>Properties\<close>

text \<open>C14: The bucket limits the rate, whatever clients do at whatever times: the tokens handed out and not given back are at most the capacity, once more for
  every reset, plus the refill of the time passed, up to the rounding of floats, whose share per operation is explicit; the bucket holds between none and its capacity.\<close>

theorem rate_limited:
  assumes "rate_limit_config capacity rate initial = Inr config" "capacity < 2 ^ 53" "list_all valid_op xs" "in_time t0 xs"
    "bucket_run xs (new_bucket t0 config) = (handed_out, b)"
  shows "of_int handed_out \<le> of_nat (1 + length (filter is_reset xs)) * of_int capacity + (1 + 1 / 2 ^ 53) ^ 3 * rate * (tb_last_refill b - t0) +
      of_nat (length xs) * (2 * of_int capacity / 2 ^ 53 + 4 * 2 powi (- 1075) * (rate + 1)) \<and>
    0 \<le> tb_tokens b \<and> tb_tokens b \<le> of_int capacity"
proof -
  define b0 where "b0 = new_bucket t0 config"
  have cfg: "0 < capacity" "0 < rate" "rt_capacity config = capacity" "rt_refill_rate config = rate" "0 \<le> rt_initial_tokens config" "rt_initial_tokens config \<le> capacity"
    using assms(1) by (auto simp: rate_limit_config_def split: if_splits option.splits)
  have "fl (of_int (rt_initial_tokens config)) = of_int (rt_initial_tokens config)" using cfg assms(2) by (intro fl_small_int) auto
  moreover have "(of_int (rt_initial_tokens config) :: rat) \<le> of_int capacity" using cfg(6) by simp
  ultimately have tokens: "tb_tokens b0 \<le> of_int capacity" "0 \<le> tb_tokens b0" using cfg(5) by (auto simp: b0_def new_bucket_def intro: fl_nonneg)
  have b0: "tb_capacity b0 = capacity" "tb_refill_rate b0 = rate" "tb_last_refill b0 = t0" by (simp_all add: b0_def new_bucket_def cfg)
  have ok: "bucket_ok b0" using cfg assms(2) tokens by (simp add: bucket_ok_def b0)
  have "in_time (tb_last_refill b0) xs" using assms(4) by (simp add: b0)
  from run_gain [OF ok assms(3) this assms(5) [folded b0_def]]
  have run: "bucket_ok b" "tb_capacity b = capacity"
    "tb_tokens b + of_int handed_out \<le> tb_tokens b0 + of_nat (length (filter is_reset xs)) * of_int capacity +
       (1 + roundoff) ^ 3 * rate * (tb_last_refill b - t0) + of_nat (length xs) * slack b0" unfolding b0 by blast+
  have slack: "slack b0 = 2 * of_int capacity / 2 ^ 53 + 4 * 2 powi (- 1075) * (rate + 1)" by (simp add: slack_def b0 roundoff_def tiny_def)
  have u: "1 + roundoff = 1 + 1 / 2 ^ 53" by (simp add: roundoff_def)
  have b: "0 \<le> tb_tokens b" "tb_tokens b \<le> of_int capacity" using run(1,2) by (simp_all add: bucket_ok_def)
  have one: "of_nat (1 + length (filter is_reset xs)) * (of_int capacity :: rat) = of_int capacity + of_nat (length (filter is_reset xs)) * of_int capacity"
    by (simp add: distrib_right)
  show ?thesis using run(3) b tokens unfolding slack u one by linarith
qed


section \<open>A sample\<close>

definition sample_rate :: RateLimitConfig where
  "sample_rate = \<lparr>rt_capacity = 10, rt_refill_rate = 1, rt_initial_tokens = 10\<rparr>"

lemma sample_bucket_run:
  "bucket_run [OpTake 3 0, OpTake 7 2, OpTake 4 2] (new_bucket 0 sample_rate) = (10, \<lparr>tb_capacity = 10, tb_refill_rate = 1, tb_tokens = 2, tb_last_refill = 2\<rparr>)"
  by (simp add: sample_rate_def new_bucket_def take_tokens_def refill_def Let_def)

theorem rate_limited_witness:
  "(10 :: rat) \<le> 10 + (1 + 1 / 2 ^ 53) ^ 3 * 2 + 3 * (20 / 2 ^ 53 + 8 * 2 powi (- 1075)) \<and>
   fst (bucket_run [OpTake 3 0, OpTake 7 2, OpTake 4 2] (new_bucket 0 sample_rate)) = 10"
proof -
  have config: "rate_limit_config 10 1 None = Inr sample_rate" by (simp add: rate_limit_config_def sample_rate_def)
  have "list_all valid_op [OpTake 3 0, OpTake 7 2, OpTake 4 2]" "in_time 0 [OpTake 3 0, OpTake 7 2, OpTake 4 2]" "(10 :: int) < 2 ^ 53" by simp_all
  from rate_limited [OF config this(3,1,2) sample_bucket_run] show ?thesis unfolding sample_bucket_run by simp
qed

end
