(* ===== verification/Retry.thy ===== *)
theory Retry
  imports Float_Arith
begin

text \<open>
  Retries with exponential backoff (\<open>retry_with_backoff\<close> and \<open>RetryConfig\<close> of \<open>libs/kron/src/kron/services/utilities/resilience.py\<close>). The function that is
  called is a sequence of outcomes, one per attempt. Python's float power is the argument \<open>fpow\<close>, \<^const>\<open>None\<close> where it raises \<open>OverflowError\<close>, and
  \<open>rnd\<close> the numbers \<open>random()\<close> returns.
\<close>

record 'e RetryConfig =
  ry_max_retries :: int
  ry_initial_delay :: rat
  ry_max_delay :: rat
  ry_exponential_base :: rat
  ry_jitter :: bool
  ry_retry_on :: "'e \<Rightarrow> bool"

datatype retry_config_error = RetryValueError string

definition check_retry_config :: "'e RetryConfig \<Rightarrow> (retry_config_error, 'e RetryConfig) result" where
  "check_retry_config c =
    (if ry_max_retries c < 0 then Inl (RetryValueError ''max_retries must be >= 0'')
     else if ry_initial_delay c \<le> 0 then Inl (RetryValueError ''initial_delay must be > 0'')
     else if ry_max_delay c \<le> 0 then Inl (RetryValueError ''max_delay must be > 0'')
     else if ry_max_delay c < ry_initial_delay c then Inl (RetryValueError ''max_delay must be >= initial_delay'')
     else if ry_exponential_base c \<le> 0 then Inl (RetryValueError ''exponential_base must be > 0'')
     else Inr c)"

definition calculate_delay :: "(rat \<Rightarrow> nat \<Rightarrow> rat option) \<Rightarrow> (nat \<Rightarrow> rat) \<Rightarrow> 'e RetryConfig \<Rightarrow> nat \<Rightarrow> rat option" where
  "calculate_delay fpow rnd c attempt =
    map_option (\<lambda>p. let delay = min (fl (ry_initial_delay c * p)) (ry_max_delay c)
                    in if ry_jitter c then fl (delay * fl (1 / 2 + fl (rnd attempt * (1 / 2)))) else delay)
      (fpow (ry_exponential_base c) attempt)"

text \<open>What ends the loop, beside the result: an exception of the function, the overflow of the power, or the end of an empty range.\<close>

datatype 'e retry_error = Raised 'e | DelayOverflow | LoopExit

text \<open>\<open>k\<close> attempts are left, the next is number \<open>attempt\<close>; the result and the times slept.\<close>

fun retry_loop ::
  "(rat \<Rightarrow> nat \<Rightarrow> rat option) \<Rightarrow> (nat \<Rightarrow> rat) \<Rightarrow> 'e RetryConfig \<Rightarrow> (nat \<Rightarrow> ('e, 'r) result) \<Rightarrow> nat \<Rightarrow> nat \<Rightarrow> ('e retry_error, 'r) result \<times> rat list" where
  "retry_loop fpow rnd c call 0 attempt = (Inl LoopExit, [])"
| "retry_loop fpow rnd c call (Suc k) attempt =
    (case call attempt of
       Inr v \<Rightarrow> (Inr v, [])
     | Inl e \<Rightarrow>
         if \<not> ry_retry_on c e then (Inl (Raised e), [])
         else if int attempt \<ge> ry_max_retries c then (Inl (Raised e), [])
         else
           (case calculate_delay fpow rnd c attempt of
              None \<Rightarrow> (Inl DelayOverflow, [])
            | Some d \<Rightarrow> (let (r, ds) = retry_loop fpow rnd c call k (Suc attempt) in (r, d # ds))))"

definition retry_with_backoff ::
  "(rat \<Rightarrow> nat \<Rightarrow> rat option) \<Rightarrow> (nat \<Rightarrow> rat) \<Rightarrow> 'e RetryConfig \<Rightarrow> (nat \<Rightarrow> ('e, 'r) result) \<Rightarrow> ('e retry_error, 'r) result \<times> rat list" where
  "retry_with_backoff fpow rnd c call = retry_loop fpow rnd c call (nat (ry_max_retries c + 1)) 0"

section \<open>Delays\<close>

lemma half_double: "is_double (1 / 2)"
proof -
  have "(1 / 2 :: rat) = of_int (2 ^ 52) * 2 powi (- 53)" by (simp add: power_int_def power_one_over)
  moreover have "grid (- 53) (1 / 2)" by (simp add: grid_def power_int_def power_one_over)
  then have "ulp_exponent (1 / 2) = - 53"
  proof -
    obtain k where k: "grid k (1 / 2)" "ulp_exponent (1 / 2) = max (- 1074) k" using ulp_exponent_grid [of "1 / 2"] by auto
    have "k = - 53" using grid_mono [OF k(1) \<open>grid (- 53) (1 / 2)\<close> order_refl] grid_mono [OF \<open>grid (- 53) (1 / 2)\<close> k(1) order_refl] by simp
    then show ?thesis using k(2) by simp
  qed
  ultimately show ?thesis unfolding is_double_def by metis
qed

text \<open>No delay exceeds the maximum.\<close>

lemma calculate_delay_bounds:
  assumes "check_retry_config c = Inr c'" "is_double (ry_max_delay c)" "0 \<le> rnd n" "rnd n \<le> 1" "\<And>p. fpow (ry_exponential_base c) n = Some p \<Longrightarrow> 0 \<le> p"
    "calculate_delay fpow rnd c n = Some d"
  shows "0 \<le> d \<and> d \<le> ry_max_delay c"
proof -
  obtain p where p: "fpow (ry_exponential_base c) n = Some p" using assms(6) by (auto simp: calculate_delay_def)
  define e where "e = min (fl (ry_initial_delay c * p)) (ry_max_delay c)"
  define f where "f = fl (1 / 2 + fl (rnd n * (1 / 2)))"
  have d: "d = (if ry_jitter c then fl (e * f) else e)" using assms(6) unfolding calculate_delay_def p e_def f_def Let_def option.map(2) by blast
  have pos: "0 < ry_initial_delay c" "0 < ry_max_delay c" using assms(1) by (auto simp: check_retry_config_def split: if_splits)
  have "0 \<le> ry_initial_delay c * p" using pos(1) assms(5) [OF p] by simp
  then have e: "0 \<le> e" "e \<le> ry_max_delay c" using pos(2) fl_nonneg by (auto simp: e_def)
  have "0 \<le> fl (rnd n * (1 / 2))" using assms(3) by (intro fl_nonneg) simp
  moreover have "fl (rnd n * (1 / 2)) \<le> 1 / 2" by (rule fl_le_double [OF _ _ half_double]) (use assms(3,4) in auto)
  moreover have "is_double 1" using small_int_double [of 1] by simp
  ultimately have f: "0 \<le> f" "f \<le> 1" using fl_nonneg [of "1 / 2 + fl (rnd n * (1 / 2))"] fl_le_double [of "1 / 2 + fl (rnd n * (1 / 2))" 1]
    unfolding f_def by linarith+
  have "e * f \<le> ry_max_delay c" using e f mult_left_mono [OF f(2) e(1)] by simp
  then have "fl (e * f) \<le> ry_max_delay c" using assms(2) e(1) f(1) by (intro fl_le_double) auto
  then show ?thesis using e f by (auto simp: d fl_nonneg)
qed

section \<open>The loop\<close>

text \<open>An attempt that ends the loop: a result or an exception that is not retried.\<close>

definition final :: "'e RetryConfig \<Rightarrow> ('e, 'r) result \<Rightarrow> bool" where
  "final c out = (case out of Inr _ \<Rightarrow> True | Inl e \<Rightarrow> \<not> ry_retry_on c e)"

fun as_outcome :: "('e, 'r) result \<Rightarrow> ('e retry_error, 'r) result" where
  "as_outcome (Inl e) = Inl (Raised e)"
| "as_outcome (Inr v) = Inr v"

lemma retry_loop_spec:
  assumes "\<And>n. n < nat (ry_max_retries c) \<Longrightarrow> fpow (ry_exponential_base c) n \<noteq> None"
  shows "k + attempt = nat (ry_max_retries c + 1) \<Longrightarrow> 0 < k \<Longrightarrow> \<exists>j ds. attempt \<le> j \<and> j \<le> nat (ry_max_retries c) \<and>
    retry_loop fpow rnd c call k attempt = (as_outcome (call j), ds) \<and>
    (\<forall>i. attempt \<le> i \<and> i < j \<longrightarrow> \<not> final c (call i)) \<and> (final c (call j) \<or> j = nat (ry_max_retries c)) \<and>
    length ds = j - attempt \<and> (\<forall>i<length ds. calculate_delay fpow rnd c (attempt + i) = Some (ds ! i))"
proof (induction k arbitrary: attempt)
  case (Suc k)
  show ?case
  proof (cases "final c (call attempt) \<or> attempt = nat (ry_max_retries c)")
    case True
    have max: "attempt \<le> nat (ry_max_retries c)" using Suc.prems(1) by simp
    have "retry_loop fpow rnd c call (Suc k) attempt = (as_outcome (call attempt), [])"
      using True by (cases "call attempt") (auto simp: final_def)
    then show ?thesis using True max by (intro exI [of _ attempt] exI [of _ "[]"]) auto
  next
    case False
    then obtain e where e: "call attempt = Inl e" "ry_retry_on c e" by (auto simp: final_def split: sum.splits)
    have less: "attempt < nat (ry_max_retries c)" using False Suc.prems(1) by linarith
    obtain d where d: "calculate_delay fpow rnd c attempt = Some d" using assms [OF less] by (auto simp: calculate_delay_def)
    have "k + Suc attempt = nat (ry_max_retries c + 1)" "0 < k" using Suc.prems(1) less by linarith+
    from Suc.IH [OF this] obtain j ds where
      j: "Suc attempt \<le> j" "j \<le> nat (ry_max_retries c)" "retry_loop fpow rnd c call k (Suc attempt) = (as_outcome (call j), ds)"
        "\<forall>i. Suc attempt \<le> i \<and> i < j \<longrightarrow> \<not> final c (call i)" "final c (call j) \<or> j = nat (ry_max_retries c)"
        "length ds = j - Suc attempt" "\<forall>i<length ds. calculate_delay fpow rnd c (Suc attempt + i) = Some (ds ! i)" by blast
    have "retry_loop fpow rnd c call (Suc k) attempt = (as_outcome (call j), d # ds)" using e d j(3) less by simp
    moreover have "\<not> final c (call i)" if "attempt \<le> i" "i < j" for i using False j(4) that by (cases "i = attempt") auto
    moreover have "calculate_delay fpow rnd c (attempt + i) = Some ((d # ds) ! i)" if "i < length (d # ds)" for i
      using j(7) that d by (cases i) auto
    ultimately show ?thesis using j(1,2,5,6) by (intro exI [of _ j] exI [of _ "d # ds"]) auto
  qed
qed simp

text \<open>C15: The function is called until it returns, raises an exception that is not to be retried, or has failed once more than there are retries; the
  outcome of the last call is the result, and between the calls the loop sleeps for delays between zero and the maximum.\<close>

theorem retry_outcome:
  assumes "check_retry_config c = Inr c'" "is_double (ry_max_delay c)" "\<forall>n. 0 \<le> rnd n \<and> rnd n \<le> 1"
    "\<forall>n < nat (ry_max_retries c). \<exists>p\<ge>0. fpow (ry_exponential_base c) n = Some p"
  shows "\<exists>j ds. retry_with_backoff fpow rnd c call = (as_outcome (call j), ds) \<and> j \<le> nat (ry_max_retries c) \<and>
    (\<forall>i<j. \<exists>e. call i = Inl e \<and> ry_retry_on c e) \<and> (j < nat (ry_max_retries c) \<longrightarrow> (\<forall>e. call j = Inl e \<longrightarrow> \<not> ry_retry_on c e)) \<and>
    length ds = j \<and> (\<forall>d\<in>set ds. 0 \<le> d \<and> d \<le> ry_max_delay c)"
proof -
  have max: "0 \<le> ry_max_retries c" using assms(1) by (auto simp: check_retry_config_def split: if_splits)
  have pow: "n < nat (ry_max_retries c) \<Longrightarrow> fpow (ry_exponential_base c) n \<noteq> None" for n using assms(4) by fastforce
  from retry_loop_spec [where fpow = fpow and c = c, OF pow, of "nat (ry_max_retries c + 1)" 0 rnd call] max obtain j ds where
    j: "j \<le> nat (ry_max_retries c)" "retry_with_backoff fpow rnd c call = (as_outcome (call j), ds)"
      "\<forall>i<j. \<not> final c (call i)" "final c (call j) \<or> j = nat (ry_max_retries c)"
      "length ds = j" "\<forall>i<length ds. calculate_delay fpow rnd c i = Some (ds ! i)"
    by (auto simp: retry_with_backoff_def)
  have "0 \<le> d \<and> d \<le> ry_max_delay c" if "d \<in> set ds" for d
  proof -
    obtain i where i: "i < length ds" "ds ! i = d" using \<open>d \<in> set ds\<close> by (auto simp: in_set_conv_nth)
    have "i < nat (ry_max_retries c)" using i(1) j(1,5) by simp
    then have "0 \<le> p" if "fpow (ry_exponential_base c) i = Some p" for p using assms(4) that by fastforce
    then show ?thesis using calculate_delay_bounds [OF assms(1,2), of rnd i fpow d] assms(3) j(6) i by auto
  qed
  moreover have "\<exists>e. call i = Inl e \<and> ry_retry_on c e" if "i < j" for i using j(3) that by (cases "call i") (auto simp: final_def)
  moreover have "j < nat (ry_max_retries c) \<longrightarrow> (\<forall>e. call j = Inl e \<longrightarrow> \<not> ry_retry_on c e)" using j(4) by (auto simp: final_def)
  ultimately show ?thesis using j(1,2,5) by blast
qed

text \<open>A power that overflows ends the retries with another exception than the one of the function, before the cap of the delay is looked at.\<close>

lemma backoff_overflow:
  assumes "0 < ry_max_retries c" "call 0 = Inl e" "ry_retry_on c e" "fpow (ry_exponential_base c) 0 = Some p"
    "call 1 = Inl e" "1 < ry_max_retries c" "fpow (ry_exponential_base c) 1 = None"
  shows "fst (retry_with_backoff fpow rnd c call) = Inl DelayOverflow"
proof -
  have "nat (ry_max_retries c + 1) = Suc (Suc (nat (ry_max_retries c - 1)))" using assms(1) by arith
  then show ?thesis using assms by (simp add: retry_with_backoff_def calculate_delay_def Let_def)
qed


theorem retry_outcome_witness:
  "\<exists>ds. retry_with_backoff (\<lambda>b n. Some (b ^ n)) (\<lambda>_. 0) \<lparr>ry_max_retries = 3, ry_initial_delay = 1, ry_max_delay = 60, ry_exponential_base = 2, ry_jitter = True, ry_retry_on = \<lambda>e. e = ''connection''\<rparr>
      (\<lambda>n. if n < 2 then Inl ''connection'' else Inr n) = (Inr 2, ds) \<and> length ds = 2 \<and> (\<forall>d\<in>set ds. 0 \<le> d \<and> d \<le> 60)"
proof -
  let ?c = "\<lparr>ry_max_retries = 3, ry_initial_delay = 1, ry_max_delay = 60, ry_exponential_base = 2, ry_jitter = True, ry_retry_on = \<lambda>e. e = ''connection''\<rparr>"
  let ?call = "\<lambda>n :: nat. if n < 2 then Inl ''connection'' else Inr n"
  have "check_retry_config ?c = Inr ?c" "\<forall>n. (0 :: rat) \<le> 0 \<and> (0 :: rat) \<le> 1" by (simp_all add: check_retry_config_def)
  moreover have "is_double (ry_max_delay ?c)" using small_int_double [of 60] by simp
  ultimately obtain j ds where j: "retry_with_backoff (\<lambda>b n. Some (b ^ n)) (\<lambda>_. 0) ?c ?call = (as_outcome (?call j), ds)" "j \<le> 3"
    "\<forall>i<j. \<exists>e. ?call i = Inl e \<and> e = ''connection''" "j < 3 \<longrightarrow> (\<forall>e. ?call j = Inl e \<longrightarrow> e \<noteq> ''connection'')" "length ds = j" "\<forall>d\<in>set ds. 0 \<le> d \<and> d \<le> 60"
    using retry_outcome [of ?c ?c "\<lambda>_. 0" "\<lambda>b n. Some (b ^ n)" ?call] by auto
  have "j = 2" using j(2-4) by (cases "j < 2"; cases "j = 3") (auto dest: spec [of _ 2])
  then show ?thesis using j by auto
qed

end
