(* ===== verification/Node.thy ===== *)
theory Node
  imports Merkle Complex_Main
begin

text \<open>
  Nodes (\<open>libs/kron/src/kron/core/node.py\<close>, \<open>element.py\<close>, \<open>compute_chain_hash\<close> of \<open>utils/_hash.py\<close>, the field names of \<open>specs/catalog\<close>, and the entities of
  \<open>libs/canon/src/canon/entities/entity.py\<close>). A class is a record of its configuration, its declared fields and the type of its content. What Pydantic and the JSON library
  do is an argument: the bytes a content is serialised to, the validation of actors, dumps and loading. Clock readings are arguments.
\<close>

section \<open>Classes and their configuration\<close>

text \<open>The type of a content, of which only the field names matter: a Pydantic model, an optional one, or something else.\<close>

datatype content_type = ModelType "string list" | OptionalModel "string list" | OtherType

text \<open>The settings that are read; an unset, missing or empty table name, key or content type is \<^const>\<open>None\<close>.\<close>

record NodeConfig =
  nc_table_name :: "string option"
  nc_schema :: string
  nc_meta_key :: string
  nc_embedding_enabled :: bool
  nc_embedding_dim :: "int option"
  nc_polymorphic :: bool
  nc_registry_key :: "string option"
  nc_flatten_content :: bool
  nc_content_frozen :: bool
  nc_content_type :: "content_type option"
  nc_content_hashing :: bool
  nc_integrity_hashing :: bool
  nc_soft_delete :: bool
  nc_track_deleted_by :: bool
  nc_track_is_active :: bool
  nc_versioning :: bool
  nc_track_updated_at :: bool
  nc_track_updated_by :: bool

definition default_config :: NodeConfig where
  "default_config =
    \<lparr>nc_table_name = None, nc_schema = ''public'', nc_meta_key = ''node_metadata'', nc_embedding_enabled = False, nc_embedding_dim = None,
     nc_polymorphic = False, nc_registry_key = None, nc_flatten_content = False, nc_content_frozen = False, nc_content_type = None,
     nc_content_hashing = False, nc_integrity_hashing = False, nc_soft_delete = False, nc_track_deleted_by = False, nc_track_is_active = False,
     nc_versioning = False, nc_track_updated_at = False, nc_track_updated_by = False\<rparr>"

text \<open>\<open>is_persisted\<close>: an empty name counts as unset.\<close>

definition is_persisted :: "NodeConfig \<Rightarrow> bool" where
  "is_persisted c \<longleftrightarrow> nc_table_name c \<noteq> None \<and> nc_table_name c \<noteq> Some []"

definition has_audit_fields :: "NodeConfig \<Rightarrow> bool" where
  "has_audit_fields c \<longleftrightarrow>
    nc_content_hashing c \<or> nc_integrity_hashing c \<or> nc_soft_delete c \<or> nc_versioning c \<or> nc_track_updated_at c"

record node_class =
  cl_name :: string
  cl_node_config :: "NodeConfig option"
  cl_fields :: "string list"
  cl_resolved :: "content_type option"

definition get_config :: "node_class \<Rightarrow> NodeConfig" where
  "get_config cls = (case cl_node_config cls of None \<Rightarrow> default_config | Some c \<Rightarrow> c)"

definition node_content_type :: "node_class \<Rightarrow> content_type option" where
  "node_content_type cls = (case nc_content_type (get_config cls) of Some t \<Rightarrow> Some t | None \<Rightarrow> cl_resolved cls)"

text \<open>The names of the specifications, and the fields every node has.\<close>

definition content_spec_names :: "string list" where
  "content_spec_names = [''id'', ''created_at'', ''content'', ''metadata'', ''embedding'', ''node_metadata'']"

definition audit_spec_names :: "string list" where
  "audit_spec_names =
    [''updated_at'', ''updated_by'', ''is_active'', ''is_deleted'', ''deleted_at'', ''deleted_by'', ''version'', ''content_hash'', ''integrity_hash'']"

definition node_fields :: "string list" where
  "node_fields = [''id'', ''created_at'', ''metadata'', ''content'']"

datatype node_error =
    Unsupported string
  | InvalidActor string
  | NotSerializable
  | PayloadTooLarge
  | NodeValueError string
  | ValidationFailed
  | KronClassNotText
  | DispatchTooDeep

section \<open>Creation of classes\<close>

text \<open>\<open>embedding=\<close>: not given, a vector annotation with its dimension, or another value.\<close>

datatype embedding_arg = NoEmbedding | VectorOf int | NotVector

definition resolve_embedding :: "embedding_arg \<Rightarrow> bool \<Rightarrow> int option \<Rightarrow> (node_error, int option) result" where
  "resolve_embedding embedding enabled dimension =
    (case embedding of
       VectorOf n \<Rightarrow> Inr (Some n)
     | NotVector \<Rightarrow> Inl (NodeValueError ''embedding must be Vector[dim] annotation'')
     | NoEmbedding \<Rightarrow>
         if enabled
         then (case dimension of
                 None \<Rightarrow> Inl (NodeValueError ''embedding_dim must be positive when embedding_enabled=True'')
               | Some n \<Rightarrow> if n \<le> 0 then Inl (NodeValueError ''embedding_dim must be positive when embedding_enabled=True'') else Inr (Some n))
         else Inr None)"

text \<open>The fields to include; \<open>opts\<close> holds the flags of the call.\<close>

definition included_fields :: "bool \<Rightarrow> bool \<Rightarrow> NodeConfig \<Rightarrow> string list" where
  "included_fields has_content has_embedding opts =
    [''id'', ''created_at''] @
    (if has_content then [''content''] else []) @
    (if has_embedding then [''embedding''] else []) @
    (if nc_track_updated_at opts \<or> nc_content_hashing opts \<or> nc_integrity_hashing opts \<or> nc_soft_delete opts \<or> nc_versioning opts
     then ''updated_at'' # (if nc_track_updated_by opts then [''updated_by''] else [])
     else []) @
    (if nc_content_hashing opts then [''content_hash''] else []) @
    (if nc_integrity_hashing opts then [''integrity_hash''] else []) @
    (if nc_soft_delete opts then [''is_deleted'', ''deleted_at''] @ (if nc_track_deleted_by opts then [''deleted_by''] else []) else []) @
    (if nc_versioning opts then [''version''] else []) @
    (if nc_track_is_active opts then [''is_active''] else [])"

text \<open>\<open>create_node\<close>: the class has the fields of \<open>Node\<close> and the included ones. It is composed, and its content annotation resolved, before it gets its configuration.\<close>

definition create_node ::
  "string \<Rightarrow> string list option \<Rightarrow> embedding_arg \<Rightarrow> bool \<Rightarrow> int option \<Rightarrow> NodeConfig \<Rightarrow> (node_error, node_class) result" where
  "create_node name content embedding enabled dimension opts =
    bind_r (resolve_embedding embedding enabled dimension) (\<lambda>d.
      Inr \<lparr>cl_name = name,
           cl_node_config = Some (opts\<lparr>nc_embedding_enabled := d \<noteq> None, nc_embedding_dim := d, nc_content_type := map_option ModelType content\<rparr>),
           cl_fields = node_fields @ filter (\<lambda>f. f \<notin> set node_fields) (included_fields (content \<noteq> None) (d \<noteq> None) opts),
           cl_resolved = Some (case content of None \<Rightarrow> OtherType | Some fs \<Rightarrow> OptionalModel fs)\<rparr>)"

definition get_canon_config_v1 :: NodeConfig where
  "get_canon_config_v1 = default_config
    \<lparr>nc_flatten_content := True, nc_content_hashing := True, nc_integrity_hashing := True, nc_soft_delete := True, nc_track_deleted_by := True,
     nc_track_is_active := True, nc_versioning := True, nc_track_updated_at := True, nc_track_updated_by := True\<rparr>"

text \<open>An entity class with the given content model, registered for a table.\<close>

definition entity_node :: "string \<Rightarrow> string \<Rightarrow> string \<Rightarrow> bool \<Rightarrow> string list \<Rightarrow> node_class" where
  "entity_node name table schema immutable content =
    \<lparr>cl_name = name,
     cl_node_config = Some (get_canon_config_v1\<lparr>nc_table_name := Some table, nc_schema := schema, nc_content_frozen := immutable\<rparr>),
     cl_fields = node_fields @ [''updated_at'', ''updated_by'', ''is_deleted'', ''deleted_at'', ''deleted_by'', ''is_active'', ''version'', ''content_hash'', ''integrity_hash''],
     cl_resolved = Some (ModelType content)\<rparr>"

section \<open>Tables\<close>

fun extract_base_type :: "content_type option \<Rightarrow> content_type option" where
  "extract_base_type (Some (OptionalModel fs)) = Some (ModelType fs)"
| "extract_base_type t = t"

definition ddl_content_type :: "node_class \<Rightarrow> content_type option" where
  "ddl_content_type cls = (case nc_content_type (get_config cls) of Some t \<Rightarrow> Some t | None \<Rightarrow> extract_base_type (cl_resolved cls))"

definition flattened_columns :: "node_class \<Rightarrow> string list option" where
  "flattened_columns cls =
    (if nc_flatten_content (get_config cls) then (case ddl_content_type cls of Some (ModelType fs) \<Rightarrow> Some fs | _ \<Rightarrow> None) else None)"

definition ddl_include :: "node_class \<Rightarrow> string list" where
  "ddl_include cls =
    (let c = get_config cls in
     [''id'', ''created_at''] @
     (if nc_embedding_enabled c then [''embedding''] else []) @
     (if flattened_columns cls = None then [''content''] else []) @
     [nc_meta_key c] @
     (if nc_track_updated_at c then [''updated_at''] else []) @
     (if nc_track_updated_by c then [''updated_by''] else []) @
     (if nc_track_is_active c then [''is_active''] else []) @
     (if nc_soft_delete c then [''is_deleted'', ''deleted_at''] @ (if nc_track_deleted_by c then [''deleted_by''] else []) else []) @
     (if nc_versioning c then [''version''] else []) @
     (if nc_content_hashing c then [''content_hash''] else []) @
     (if nc_integrity_hashing c then [''integrity_hash''] else []) @
     (case flattened_columns cls of None \<Rightarrow> [] | Some fs \<Rightarrow> fs))"

text \<open>The columns of the table that \<open>generate_ddl\<close> creates: the specifications must have distinct names, and every included name must be one of them.\<close>

definition ddl_columns :: "node_class \<Rightarrow> (node_error, string set) result" where
  "ddl_columns cls =
    (let names = content_spec_names @ audit_spec_names @ (case flattened_columns cls of None \<Rightarrow> [] | Some fs \<Rightarrow> fs)
     in if \<not> is_persisted (get_config cls) then Inl (NodeValueError ''not persistable'')
        else if \<not> distinct names then Inl (NodeValueError ''Duplicate field names found'')
        else if \<not> set (ddl_include cls) \<subseteq> set names then Inl (NodeValueError ''Some specified fields are not allowed'')
        else Inr (set (ddl_include cls)))"

section \<open>Nodes\<close>

text \<open>Values as they are stored in metadata and rows.\<close>

datatype py_value = VNull | VBool bool | VInt int | VText string | VTime rat | VList "py_value list" | VDict "(string \<times> py_value) list"

text \<open>The fields of a node. One that the class does not declare has an arbitrary value, which no operation reads.\<close>

record 'c node =
  nd_id :: uuid
  nd_created_at :: rat
  nd_metadata :: "(string, py_value) dict"
  nd_content :: "'c option"
  nd_updated_at :: rat
  nd_updated_by :: "uuid option"
  nd_is_active :: bool
  nd_is_deleted :: bool
  nd_deleted_at :: "rat option"
  nd_deleted_by :: "uuid option"
  nd_version :: int
  nd_content_hash :: "string option"
  nd_integrity_hash :: "string option"

text \<open>
  \<open>ne_hash\<close> are the digests of \<open>hashlib\<close>, \<open>ne_dumpb\<close> is the deterministic JSON of a content (\<^const>\<open>None\<close> where it raises), \<open>ne_actor\<close> the validation of a text as the
  type of the actor fields, and \<open>ne_str\<close> Python's \<open>str\<close> of values that are no texts.
\<close>

record 'c node_env =
  ne_class :: node_class
  ne_hash :: hasher
  ne_dumpb :: "'c \<Rightarrow> bytes option"
  ne_actor :: "string \<Rightarrow> uuid option"
  ne_str :: "py_value \<Rightarrow> string"

definition has_field :: "'c node_env \<Rightarrow> string \<Rightarrow> bool" where
  "has_field env name \<longleftrightarrow> name \<in> set (cl_fields (ne_class env))"

section \<open>Hashes\<close>

definition utf8_char :: "char \<Rightarrow> bytes" where
  "utf8_char c =
    (let n = code c in if n < 128 then [of_nat n] else [of_nat (192 + n div 64), of_nat (128 + n mod 64)])"

definition utf8 :: "string \<Rightarrow> bytes" where
  "utf8 s = concat (map utf8_char s)"

definition GENESIS_HASH :: string where
  "GENESIS_HASH = ''GENESIS''"

definition chain_input :: "string \<Rightarrow> string option \<Rightarrow> string" where
  "chain_input payload_hash previous =
    payload_hash @ '':'' @ (case previous of None \<Rightarrow> GENESIS_HASH | Some p \<Rightarrow> if p = [] then GENESIS_HASH else p)"

definition compute_chain_hash :: "hasher \<Rightarrow> string \<Rightarrow> string option \<Rightarrow> HashAlgorithm \<Rightarrow> string option" where
  "compute_chain_hash H payload_hash previous algorithm = compute_hash H (utf8 (chain_input payload_hash previous)) algorithm"

text \<open>\<open>compute_hash(content, none_as_valid=True)\<close>.\<close>

definition hash_payload :: "'c node_env \<Rightarrow> 'c option \<Rightarrow> (node_error, bytes) result" where
  "hash_payload env content =
    (case content of
       None \<Rightarrow> Inr (utf8 ''null'')
     | Some c \<Rightarrow> (case ne_dumpb env c of None \<Rightarrow> Inl NotSerializable | Some p \<Rightarrow> Inr p))"

definition content_hash_of :: "'c node_env \<Rightarrow> 'c option \<Rightarrow> (node_error, string) result" where
  "content_hash_of env content =
    bind_r (hash_payload env content) (\<lambda>p.
      case compute_hash (ne_hash env) p SHA256 of None \<Rightarrow> Inl PayloadTooLarge | Some h \<Rightarrow> Inr h)"

definition rehash :: "'c node_env \<Rightarrow> 'c node \<Rightarrow> (node_error, string option) result \<times> 'c node" where
  "rehash env n =
    (if \<not> nc_content_hashing (get_config (ne_class env)) then (Inr None, n)
     else
       (case content_hash_of env (nd_content n) of
          Inl e \<Rightarrow> (Inl e, n)
        | Inr h \<Rightarrow>
            (Inr (Some h),
             if has_field env ''content_hash'' then n\<lparr>nd_content_hash := Some h\<rparr>
             else n\<lparr>nd_metadata := dict_set ''content_hash'' (VText h) (nd_metadata n)\<rparr>)))"

text \<open>The stored hash of the content, in the field or in the metadata.\<close>

definition stored_content_hash :: "'c node_env \<Rightarrow> 'c node \<Rightarrow> string option" where
  "stored_content_hash env n =
    (if has_field env ''content_hash'' then nd_content_hash n
     else
       (case map_of (nd_metadata n) ''content_hash'' of
          None \<Rightarrow> None
        | Some VNull \<Rightarrow> None
        | Some (VText h) \<Rightarrow> Some h
        | Some v \<Rightarrow> Some (ne_str env v)))"

definition update_integrity_hash :: "'c node_env \<Rightarrow> string option \<Rightarrow> 'c node \<Rightarrow> (node_error, string option) result \<times> 'c node" where
  "update_integrity_hash env previous n =
    (if \<not> nc_integrity_hashing (get_config (ne_class env)) then (Inr None, n)
     else
       (case (case stored_content_hash env n of None \<Rightarrow> content_hash_of env (nd_content n) | Some h \<Rightarrow> Inr h) of
          Inl e \<Rightarrow> (Inl e, n)
        | Inr h \<Rightarrow>
            (case compute_chain_hash (ne_hash env) h previous SHA256 of
               None \<Rightarrow> (Inl PayloadTooLarge, n)
             | Some ih \<Rightarrow>
                 (Inr (Some ih),
                  if has_field env ''integrity_hash'' then n\<lparr>nd_integrity_hash := Some ih\<rparr>
                  else n\<lparr>nd_metadata := dict_set ''integrity_hash'' (VText ih) (nd_metadata n)\<rparr>))))"

section \<open>Lifecycle\<close>

text \<open>Each operation returns how it ends and the node, which keeps what was assigned before an exception.\<close>

type_synonym 'c node_result = "(node_error, unit) result \<times> 'c node"

definition touch :: "'c node_env \<Rightarrow> rat \<Rightarrow> string option \<Rightarrow> 'c node \<Rightarrow> 'c node_result" where
  "touch env now actor n =
    (let c = get_config (ne_class env);
         n1 = (if nc_track_updated_at c \<and> has_field env ''updated_at'' then n\<lparr>nd_updated_at := now\<rparr> else n)
     in case (if actor \<noteq> None \<and> has_field env ''updated_by'' then map_option Some (ne_actor env (the actor)) else Some (nd_updated_by n1)) of
          None \<Rightarrow> (Inl (InvalidActor (the actor)), n1)
        | Some u \<Rightarrow>
            (let n2 = n1\<lparr>nd_updated_by := u\<rparr>;
                 n3 = (if nc_versioning c \<and> has_field env ''version'' then n2\<lparr>nd_version := nd_version n2 + 1\<rparr> else n2)
             in if nc_content_hashing c then (let (r, n4) = rehash env n3 in (map_sum id (\<lambda>_. ()) r, n4)) else (Inr (), n3)))"

definition soft_delete :: "'c node_env \<Rightarrow> rat \<Rightarrow> rat \<Rightarrow> string option \<Rightarrow> 'c node \<Rightarrow> 'c node_result" where
  "soft_delete env now later actor n =
    (if \<not> nc_soft_delete (get_config (ne_class env)) then (Inl (Unsupported ''soft_delete''), n)
     else
       (let n1 = (if has_field env ''deleted_at'' then n\<lparr>nd_deleted_at := Some now\<rparr> else n);
            n2 = (if has_field env ''is_deleted'' then n1\<lparr>nd_is_deleted := True\<rparr> else n1)
        in case (if actor \<noteq> None \<and> has_field env ''deleted_by'' then map_option Some (ne_actor env (the actor)) else Some (nd_deleted_by n2)) of
             None \<Rightarrow> (Inl (InvalidActor (the actor)), n2)
           | Some u \<Rightarrow> touch env later actor (n2\<lparr>nd_deleted_by := u\<rparr>)))"

definition restore :: "'c node_env \<Rightarrow> rat \<Rightarrow> string option \<Rightarrow> 'c node \<Rightarrow> 'c node_result" where
  "restore env now actor n =
    (if \<not> nc_soft_delete (get_config (ne_class env)) then (Inl (Unsupported ''restore''), n)
     else
       (let n1 = (if has_field env ''deleted_at'' then n\<lparr>nd_deleted_at := None\<rparr> else n);
            n2 = (if has_field env ''is_deleted'' then n1\<lparr>nd_is_deleted := False\<rparr> else n1);
            n3 = (if has_field env ''deleted_by'' then n2\<lparr>nd_deleted_by := None\<rparr> else n2)
        in touch env now actor n3))"

definition activate :: "'c node_env \<Rightarrow> rat \<Rightarrow> string option \<Rightarrow> 'c node \<Rightarrow> 'c node_result" where
  "activate env now actor n =
    (if \<not> nc_track_is_active (get_config (ne_class env)) then (Inl (Unsupported ''activate''), n)
     else touch env now actor (if has_field env ''is_active'' then n\<lparr>nd_is_active := True\<rparr> else n))"

definition deactivate :: "'c node_env \<Rightarrow> rat \<Rightarrow> string option \<Rightarrow> 'c node \<Rightarrow> 'c node_result" where
  "deactivate env now actor n =
    (if \<not> nc_track_is_active (get_config (ne_class env)) then (Inl (Unsupported ''deactivate''), n)
     else touch env now actor (if has_field env ''is_active'' then n\<lparr>nd_is_active := False\<rparr> else n))"

section \<open>Rows\<close>

text \<open>
  What Pydantic does for the classes: \<open>pd_dump\<close> the dump of a node without its content, as loaded from its JSON, with the creation time as a time; \<open>pd_content\<close> its content;
  \<open>pd_content_dump\<close> and \<open>pd_content_load\<close> the dump of a content and the constructor of the content type; \<open>pd_validate\<close> the validation of a dictionary whose content
  may be an object. \<^const>\<open>None\<close> is the validation error.
\<close>

datatype 'c cell = Val py_value | Obj 'c

record ('n, 'c) pydantic =
  pd_dump :: "'n \<Rightarrow> (string, py_value) dict"
  pd_content :: "'n \<Rightarrow> 'c option"
  pd_content_dump :: "'c \<Rightarrow> (string, py_value) dict"
  pd_content_load :: "node_class \<Rightarrow> (string, 'c cell) dict \<Rightarrow> 'c option"
  pd_validate :: "node_class \<Rightarrow> (string, 'c cell) dict \<Rightarrow> 'n option"

definition rename_key :: "string \<Rightarrow> string \<Rightarrow> (string, 'v) dict \<Rightarrow> (string, 'v) dict" where
  "rename_key old new d = (case map_of d old of None \<Rightarrow> d | Some v \<Rightarrow> dict_set new v (dict_pop old d))"

text \<open>The metadata with the name of the class.\<close>

definition inject_class :: "string \<Rightarrow> (string, py_value) dict \<Rightarrow> (string, py_value) dict" where
  "inject_class name d =
    (case map_of d ''metadata'' of
       Some (VDict m) \<Rightarrow> dict_set ''metadata'' (VDict (dict_set ''kron_class'' (VText name) m)) d
     | _ \<Rightarrow> d)"

definition can_flatten :: "node_class \<Rightarrow> 'c option \<Rightarrow> bool" where
  "can_flatten cls content \<longleftrightarrow>
    nc_flatten_content (get_config cls) \<and> content \<noteq> None \<and> (\<exists>fs. node_content_type cls = Some (ModelType fs))"

text \<open>\<open>to_dict(mode="db")\<close>.\<close>

definition to_row :: "('n, 'c) pydantic \<Rightarrow> node_class \<Rightarrow> 'n \<Rightarrow> (string, py_value) dict" where
  "to_row pd cls n =
    (if can_flatten cls (pd_content pd n)
     then dict_update (rename_key ''metadata'' (nc_meta_key (get_config cls)) (inject_class (cl_name cls) (pd_dump pd n)))
            (pd_content_dump pd (the (pd_content pd n)))
     else rename_key ''metadata'' ''node_metadata''
            (inject_class (cl_name cls)
              (dict_set ''content'' (case pd_content pd n of None \<Rightarrow> VNull | Some c \<Rightarrow> VDict (pd_content_dump pd c)) (pd_dump pd n))))"

fun pop_keys :: "string list \<Rightarrow> (string, 'v) dict \<Rightarrow> (string, 'v) dict" where
  "pop_keys [] d = d"
| "pop_keys (k # ks) d = pop_keys ks (dict_pop k d)"

definition gather_content ::
  "('n, 'c) pydantic \<Rightarrow> node_class \<Rightarrow> (string, 'c cell) dict \<Rightarrow> (node_error, (string, 'c cell) dict) result" where
  "gather_content pd cls data =
    (if nc_flatten_content (get_config cls) \<and> map_of data ''content'' = None
     then
       (case node_content_type cls of
          Some (ModelType fs) \<Rightarrow>
            (case pd_content_load pd cls (filter (\<lambda>(k, v). k \<in> set fs) data) of
               None \<Rightarrow> Inl ValidationFailed
             | Some c \<Rightarrow> Inr (dict_set ''content'' (Obj c) (pop_keys fs data)))
        | _ \<Rightarrow> Inr data)
     else Inr data)"

definition restore_metadata :: "string \<Rightarrow> (string, 'v) dict \<Rightarrow> (string, 'v) dict" where
  "restore_metadata key data =
    dict_pop ''node_metadata''
      (if map_of data key \<noteq> None then rename_key key ''metadata'' data
       else if map_of data ''metadata'' = None then rename_key ''node_metadata'' ''metadata'' data
       else data)"

text \<open>The class named in the metadata, and the data without it. Missing metadata become an empty dictionary.\<close>

definition take_class :: "(string, 'c cell) dict \<Rightarrow> py_value option \<times> (string, 'c cell) dict" where
  "take_class data =
    (case map_of data ''metadata'' of
       None \<Rightarrow> (None, dict_set ''metadata'' (Val (VDict [])) data)
     | Some (Val (VDict m)) \<Rightarrow> (map_of m ''kron_class'', dict_set ''metadata'' (Val (VDict (dict_pop ''kron_class'' m))) data)
     | _ \<Rightarrow> (None, data))"

fun truthy :: "py_value \<Rightarrow> bool" where
  "truthy VNull = False"
| "truthy (VBool b) = b"
| "truthy (VInt i) = (i \<noteq> 0)"
| "truthy (VText s) = (s \<noteq> [])"
| "truthy (VTime t) = True"
| "truthy (VList xs) = (xs \<noteq> [])"
| "truthy (VDict d) = (d \<noteq> [])"

definition short_name :: "string \<Rightarrow> string" where
  "short_name s = rev (takeWhile (\<lambda>c. c \<noteq> CHR ''.'') (rev s))"

text \<open>The class to dispatch to, if another one is registered under the full or the short name.\<close>

definition dispatch :: "(string \<Rightarrow> node_class option) \<Rightarrow> node_class \<Rightarrow> py_value option \<Rightarrow> (node_error, node_class option) result" where
  "dispatch registry cls kron_class =
    (case kron_class of
       None \<Rightarrow> Inr None
     | Some v \<Rightarrow>
         if \<not> truthy v \<or> v = VText (cl_name cls) then Inr None
         else
           (case v of
              VText s \<Rightarrow>
                (case (case registry s of Some t \<Rightarrow> Some t | None \<Rightarrow> registry (short_name s)) of
                   None \<Rightarrow> Inr None
                 | Some t \<Rightarrow> if t = cls then Inr None else Inr (Some t))
            | _ \<Rightarrow> Inl KronClassNotText))"

text \<open>\<open>from_dict(data, from_row=True)\<close>. Every dispatch follows a class name that was taken out of the data, so there are at most as many as entries of the data.\<close>

fun from_row_loop ::
  "nat \<Rightarrow> ('n, 'c) pydantic \<Rightarrow> (string \<Rightarrow> node_class option) \<Rightarrow> node_class \<Rightarrow> (string, 'c cell) dict \<Rightarrow> (node_error, 'n) result" where
  "from_row_loop 0 pd registry cls data = Inl DispatchTooDeep"
| "from_row_loop (Suc fuel) pd registry cls data =
    bind_r (gather_content pd cls data) (\<lambda>gathered.
      let (kron_class, data') = take_class (restore_metadata (nc_meta_key (get_config cls)) gathered)
      in bind_r (dispatch registry cls kron_class) (\<lambda>target.
           case target of
             Some t \<Rightarrow> from_row_loop fuel pd registry t data'
           | None \<Rightarrow> (case pd_validate pd cls data' of None \<Rightarrow> Inl ValidationFailed | Some n \<Rightarrow> Inr n)))"

definition from_row :: "('n, 'c) pydantic \<Rightarrow> (string \<Rightarrow> node_class option) \<Rightarrow> node_class \<Rightarrow> (string, py_value) dict \<Rightarrow> (node_error, 'n) result" where
  "from_row pd registry cls row = from_row_loop (Suc (length row)) pd registry cls (map (map_prod id Val) row)"

end
