(* ===== verification/Node_Correct.thy ===== *)
theory Node_Correct
  imports Node
begin

text \<open>
  Correctness of nodes. Sealing contents one after the other makes a chain whose last hash fixes the whole sequence of contents; the lifecycle operations keep the
  deletion marks consistent and record what they did; rows of a table that can be created can be read back, and when rows fit their table.
\<close>

section \<open>Bytes of texts\<close>

lemma code_bound: "code c < 256"
  by (simp add: code_def)

lemma code_inj: "code c = code d \<Longrightarrow> c = d"
  by (simp add: code_def)

lemma utf8_char_bytes:
  "map unat (utf8_char c) = (if code c < 128 then [code c] else [192 + code c div 64, 128 + code c mod 64])"
proof -
  have small: "n < 256 \<Longrightarrow> unat (of_nat n :: 8 word) = n" for n by (simp add: unat_of_nat)
  have "code c div 64 < 4" using code_bound [of c] by (simp add: div_less_iff_less_mult)
  then have "192 + code c div 64 < 256" "128 + code c mod 64 < 256" using mod_less_divisor [of 64 "code c"] by simp_all
  from this [THEN small] small [of "code c"] code_bound [of c] show ?thesis by (cases "code c < 128") (simp_all only: utf8_char_def Let_def list.map if_True if_False)
qed

text \<open>No encoding of a character is the beginning of another one.\<close>

lemma utf8_char_prefix:
  assumes "utf8_char c @ xs = utf8_char d @ ys"
  shows "c = d \<and> xs = ys"
proof -
  have e: "map unat (utf8_char c) @ map unat xs = map unat (utf8_char d) @ map unat ys" using assms by (metis map_append)
  have "code c = code d"
  proof (cases "code c < 128")
    case True
    then have "map unat (utf8_char c) = [code c]" by (simp add: utf8_char_bytes)
    with e True show ?thesis unfolding utf8_char_bytes [of d] by (cases "code d < 128") simp_all
  next
    case False
    then have "map unat (utf8_char c) = [192 + code c div 64, 128 + code c mod 64]" by (simp add: utf8_char_bytes)
    with e have "code c div 64 = code d div 64 \<and> code c mod 64 = code d mod 64" unfolding utf8_char_bytes [of d]
      by (cases "code d < 128") (simp_all del: div_less)
    then show ?thesis by (metis div_mult_mod_eq)
  qed
  then have "c = d" by (rule code_inj)
  with assms show ?thesis by simp
qed

lemma utf8_Nil_iff [simp]: "utf8 s = [] \<longleftrightarrow> s = []"
  by (cases s) (simp_all add: utf8_def utf8_char_def Let_def)

lemma utf8_inj: "utf8 s = utf8 t \<Longrightarrow> s = t"
proof (induction s arbitrary: t)
  case Nil
  then show ?case using utf8_Nil_iff [of t] by (simp add: utf8_def)
next
  case (Cons c s)
  then obtain d t' where t: "t = d # t'" by (cases t) (auto simp: utf8_def utf8_char_def Let_def split: if_splits)
  with Cons.prems have "utf8_char c @ utf8 s = utf8_char d @ utf8 t'" by (simp add: utf8_def)
  from utf8_char_prefix [OF this] Cons.IH [of t'] t show ?case by simp
qed

section \<open>Chains\<close>

text \<open>A hash without a colon is recovered from the text that is hashed for the chain.\<close>

lemma chain_input_inj:
  assumes "chain_input h p = chain_input k q" "CHR '':'' \<notin> set h" "CHR '':'' \<notin> set k"
  shows "h = k \<and> chain_input [] p = chain_input [] q"
proof -
  have cut: "x \<notin> set xs \<Longrightarrow> takeWhile (\<lambda>c. c \<noteq> x) (xs @ x # ys) = xs" for x :: char and xs ys by (induction xs) auto
  have "takeWhile (\<lambda>c. c \<noteq> CHR '':'') (chain_input h p) = h" "takeWhile (\<lambda>c. c \<noteq> CHR '':'') (chain_input k q) = k"
    using cut [OF assms(2)] cut [OF assms(3)] by (simp_all add: chain_input_def)
  with assms(1) have "h = k" by simp
  with assms(1) show ?thesis by (simp add: chain_input_def)
qed

text \<open>The nodes of a list are sealed in order, each with the hash of the one before.\<close>

definition seal_all :: "'c node_env \<Rightarrow> 'c node list \<Rightarrow> (node_error, string option) result" where
  "seal_all env ns = foldl (\<lambda>r n. bind_r r (\<lambda>p. fst (update_integrity_hash env p n))) (Inr None) ns"

lemma seal_all_simps [simp]:
  "seal_all env [] = Inr None"
  "seal_all env (ns @ [n]) = bind_r (seal_all env ns) (\<lambda>p. fst (update_integrity_hash env p n))"
  by (simp_all add: seal_all_def)

text \<open>The stored hash of the content, if there is one, is its hash.\<close>

definition hash_current :: "'c node_env \<Rightarrow> 'c node \<Rightarrow> bool" where
  "hash_current env n \<longleftrightarrow> (\<forall>h. stored_content_hash env n = Some h \<longrightarrow> content_hash_of env (nd_content n) = Inr h)"

text \<open>All byte strings that are hashed for the chain.\<close>

definition hashed_bytes :: "'c node_env \<Rightarrow> 'c node list \<Rightarrow> bytes set" where
  "hashed_bytes env ns =
    {b. \<exists>ms n ys p. ns = ms @ n # ys \<and> seal_all env ms = Inr p \<and>
        (hash_payload env (nd_content n) = Inr b \<or> (\<exists>h. content_hash_of env (nd_content n) = Inr h \<and> b = utf8 (chain_input h p)))}"

lemma hashed_bytes_butlast: "hashed_bytes env ns \<subseteq> hashed_bytes env (ns @ [n])"
  by (fastforce simp: hashed_bytes_def)

lemma hashed_bytes_last:
  assumes "seal_all env ns = Inr p"
  shows "hash_payload env (nd_content n) = Inr b \<Longrightarrow> b \<in> hashed_bytes env (ns @ [n])"
    "content_hash_of env (nd_content n) = Inr h \<Longrightarrow> utf8 (chain_input h p) \<in> hashed_bytes env (ns @ [n])"
  using assms by (auto simp: hashed_bytes_def)

lemma content_hash_digest:
  "content_hash_of env c = Inr h \<longleftrightarrow>
    (\<exists>b. hash_payload env c = Inr b \<and> int (length b) \<le> MAX_HASH_INPUT_BYTES \<and> h = ne_hash env SHA256 b)"
  by (cases "hash_payload env c") (auto simp: content_hash_of_def compute_hash_def)

lemma integrity_digest:
  assumes "fst (update_integrity_hash env p n) = Inr r" "nc_integrity_hashing (get_config (ne_class env))" "hash_current env n"
  obtains h where "content_hash_of env (nd_content n) = Inr h" "r = Some (ne_hash env SHA256 (utf8 (chain_input h p)))"
proof -
  obtain h where h: "content_hash_of env (nd_content n) = Inr h"
    "(case stored_content_hash env n of None \<Rightarrow> content_hash_of env (nd_content n) | Some h \<Rightarrow> Inr h) = Inr h"
    using assms by (cases "stored_content_hash env n"; cases "content_hash_of env (nd_content n)")
      (auto simp: update_integrity_hash_def hash_current_def)
  with assms(1,2) that show thesis
    by (auto simp: update_integrity_hash_def compute_chain_hash_def compute_hash_def split: if_splits)
qed

text \<open>A digest is not the mark of the first entry.\<close>

lemma chain_start:
  assumes "chain_input [] p = chain_input [] q" "\<forall>h. p = Some h \<or> q = Some h \<longrightarrow> h \<noteq> [] \<and> set h \<subseteq> set ''0123456789abcdef''"
  shows "p = q"
proof -
  have "GENESIS_HASH \<noteq> h" if "set h \<subseteq> set ''0123456789abcdef''" for h
  proof
    assume "GENESIS_HASH = h"
    then have "CHR ''G'' \<in> set h" by (auto simp: GENESIS_HASH_def)
    with that show False by auto
  qed
  then show ?thesis using assms by (cases p; cases q) (auto simp: chain_input_def)
qed

lemma chain_determines:
  assumes hex: "\<forall>b. ne_hash env SHA256 b \<noteq> [] \<and> set (ne_hash env SHA256 b) \<subseteq> set ''0123456789abcdef''"
    and on: "nc_integrity_hashing (get_config (ne_class env))"
  shows "seal_all env ns = Inr r \<Longrightarrow> seal_all env ms = Inr r \<Longrightarrow> list_all (hash_current env) ns \<Longrightarrow> list_all (hash_current env) ms \<Longrightarrow>
    inj_on (ne_hash env SHA256) (hashed_bytes env ns \<union> hashed_bytes env ms) \<Longrightarrow>
    map (\<lambda>n. hash_payload env (nd_content n)) ns = map (\<lambda>n. hash_payload env (nd_content n)) ms"
proof (induction ns arbitrary: ms r rule: rev_induct)
  case Nil
  have "ms = []"
  proof (rule ccontr)
    assume "ms \<noteq> []"
    then obtain ms' m where ms: "ms = ms' @ [m]" by (cases ms rule: rev_cases) auto
    with Nil obtain p where "fst (update_integrity_hash env p m) = Inr None" by (auto simp: bind_r_def split: sum.splits)
    with Nil(4) ms on show False by (auto elim: integrity_digest)
  qed
  then show ?case by simp
next
  case (snoc n ns)
  then obtain p where p: "seal_all env ns = Inr p" "fst (update_integrity_hash env p n) = Inr r" by auto
  with snoc.prems(3) on obtain h where h: "content_hash_of env (nd_content n) = Inr h" "r = Some (ne_hash env SHA256 (utf8 (chain_input h p)))"
    by (auto elim: integrity_digest)
  with snoc.prems(2) have "ms \<noteq> []" by auto
  then obtain ms' m where ms: "ms = ms' @ [m]" by (cases ms rule: rev_cases) auto
  with snoc.prems(2) obtain q where q: "seal_all env ms' = Inr q" "fst (update_integrity_hash env q m) = Inr r" by auto
  with snoc.prems(4) ms on obtain k where k: "content_hash_of env (nd_content m) = Inr k" "r = Some (ne_hash env SHA256 (utf8 (chain_input k q)))"
    by (auto elim: integrity_digest)
  have inj: "a = b" if "ne_hash env SHA256 a = ne_hash env SHA256 b" "a \<in> hashed_bytes env (ns @ [n])" "b \<in> hashed_bytes env (ms' @ [m])" for a b
    using snoc.prems(5) that ms by (auto dest: inj_onD)
  have hexes: "set (ne_hash env SHA256 b) \<subseteq> set ''0123456789abcdef''" for b using hex by simp
  have digests: "CHR '':'' \<notin> set (ne_hash env SHA256 b)" for b using hexes [of b] by auto
  from h(1) obtain b where b: "hash_payload env (nd_content n) = Inr b" "h = ne_hash env SHA256 b" by (auto simp: content_hash_digest)
  from k(1) obtain b' where b': "hash_payload env (nd_content m) = Inr b'" "k = ne_hash env SHA256 b'" by (auto simp: content_hash_digest)
  have "utf8 (chain_input h p) = utf8 (chain_input k q)"
    using inj [OF _ hashed_bytes_last(2) [OF p(1) h(1)] hashed_bytes_last(2) [OF q(1) k(1)]] h(2) k(2) by simp
  then have "chain_input h p = chain_input k q" by (rule utf8_inj)
  from chain_input_inj [OF this] digests b(2) b'(2) have hk: "h = k" and pq: "chain_input [] p = chain_input [] q" by auto
  have "b = b'" using inj [OF _ hashed_bytes_last(1) [OF p(1) b(1)] hashed_bytes_last(1) [OF q(1) b'(1)]] hk b(2) b'(2) by simp
  moreover have "p = q"
  proof (rule chain_start [OF pq], intro allI impI)
    have start: "x \<noteq> [] \<and> set x \<subseteq> set ''0123456789abcdef''" if x: "seal_all env xs = Inr (Some x)" and cur: "list_all (hash_current env) xs" for x xs
    proof -
      from x have "xs \<noteq> []" by auto
      then obtain ys y where ys: "xs = ys @ [y]" by (cases xs rule: rev_cases) auto
      with x obtain s where "fst (update_integrity_hash env s y) = Inr (Some x)" by auto
      with cur ys on obtain d where "x = ne_hash env SHA256 d" by (auto elim: integrity_digest)
      then show ?thesis using hex by simp
    qed
    fix x
    assume "p = Some x \<or> q = Some x"
    moreover have "list_all (hash_current env) ns" "list_all (hash_current env) ms'" using snoc.prems(3,4) ms by simp_all
    ultimately show "x \<noteq> [] \<and> set x \<subseteq> set ''0123456789abcdef''" using start p(1) q(1) by blast
  qed
  moreover have "inj_on (ne_hash env SHA256) (hashed_bytes env ns \<union> hashed_bytes env ms')"
    using snoc.prems(5) hashed_bytes_butlast [of env ns n] hashed_bytes_butlast [of env ms' m] ms by (auto intro: inj_on_subset)
  ultimately have "map (\<lambda>n. hash_payload env (nd_content n)) ns = map (\<lambda>n. hash_payload env (nd_content n)) ms'"
    using snoc.IH [OF p(1), of ms'] q(1) snoc.prems(3,4) ms by simp
  with \<open>b = b'\<close> show ?case unfolding ms map_append b(1) b'(1) list.map by (simp only: b(1) b'(1))
qed

lemma utf8_length: "length (utf8 s) \<le> 2 * length s"
proof -
  have "length (utf8_char c) \<le> 2" for c by (simp add: utf8_char_def Let_def)
  then have "sum_list (map (length \<circ> utf8_char) s) \<le> sum_list (map (\<lambda>_. 2) s)" by (intro sum_list_mono) simp
  then show ?thesis by (simp add: utf8_def length_concat sum_list_triv o_def)
qed

text \<open>Sealing only fails on contents that cannot be hashed.\<close>

lemma seal_all_total:
  assumes digests: "\<forall>b. length (ne_hash env SHA256 b) = 64"
    and on: "nc_integrity_hashing (get_config (ne_class env))"
  shows "list_all (hash_current env) ns \<Longrightarrow> \<forall>n\<in>set ns. \<exists>h. content_hash_of env (nd_content n) = Inr h \<Longrightarrow>
    \<exists>r. seal_all env ns = Inr r \<and> (\<forall>h. r = Some h \<longrightarrow> length h = 64)"
proof (induction ns rule: rev_induct)
  case (snoc n ns)
  then obtain p h where p: "seal_all env ns = Inr p" "\<forall>h. p = Some h \<longrightarrow> length h = 64" and h: "content_hash_of env (nd_content n) = Inr h"
    by auto
  have "length h = 64" using h digests by (auto simp: content_hash_digest)
  then have "length (chain_input h p) \<le> 200" using p(2) by (cases p) (simp_all add: chain_input_def GENESIS_HASH_def)
  then have short: "int (length (utf8 (chain_input h p))) \<le> MAX_HASH_INPUT_BYTES"
    using utf8_length [of "chain_input h p"] by (simp add: MAX_HASH_INPUT_BYTES_def)
  have "(case stored_content_hash env n of None \<Rightarrow> content_hash_of env (nd_content n) | Some h \<Rightarrow> Inr h) = Inr h"
    using snoc.prems(1) h by (cases "stored_content_hash env n") (auto simp: hash_current_def)
  then have "fst (update_integrity_hash env p n) = Inr (Some (ne_hash env SHA256 (utf8 (chain_input h p))))"
    using on short by (simp add: update_integrity_hash_def compute_chain_hash_def compute_hash_def)
  then show ?case using p(1) digests by simp
qed simp

section \<open>Lifecycle\<close>

text \<open>The operations on a node, and the assignment of a content in between.\<close>

datatype 'c node_op =
    OpTouch rat "string option"
  | OpDelete rat rat "string option"
  | OpRestore rat "string option"
  | OpActivate rat "string option"
  | OpDeactivate rat "string option"
  | OpRehash
  | OpSeal "string option"
  | OpContent "'c option"

fun node_step :: "'c node_env \<Rightarrow> 'c node_op \<Rightarrow> 'c node \<Rightarrow> 'c node_result" where
  "node_step env (OpTouch now actor) n = touch env now actor n"
| "node_step env (OpDelete now later actor) n = soft_delete env now later actor n"
| "node_step env (OpRestore now actor) n = restore env now actor n"
| "node_step env (OpActivate now actor) n = activate env now actor n"
| "node_step env (OpDeactivate now actor) n = deactivate env now actor n"
| "node_step env OpRehash n = (let (r, n') = rehash env n in (map_sum id (\<lambda>_. ()) r, n'))"
| "node_step env (OpSeal previous) n = (let (r, n') = update_integrity_hash env previous n in (map_sum id (\<lambda>_. ()) r, n'))"
| "node_step env (OpContent c) n = (Inr (), n\<lparr>nd_content := c\<rparr>)"

definition node_run :: "'c node_env \<Rightarrow> 'c node_op list \<Rightarrow> 'c node \<Rightarrow> 'c node" where
  "node_run env ops n = foldl (\<lambda>n op. snd (node_step env op n)) n ops"

definition actor_ok :: "'c node_env \<Rightarrow> string \<Rightarrow> string option \<Rightarrow> bool" where
  "actor_ok env field actor \<longleftrightarrow> actor \<noteq> None \<and> has_field env field \<longrightarrow> ne_actor env (the actor) \<noteq> None"

text \<open>The operations that reach the version counter: they are supported and their actor is valid.\<close>

fun recorded :: "'c node_env \<Rightarrow> 'c node_op \<Rightarrow> bool" where
  "recorded env (OpTouch now actor) \<longleftrightarrow> actor_ok env ''updated_by'' actor"
| "recorded env (OpDelete now later actor) \<longleftrightarrow>
    nc_soft_delete (get_config (ne_class env)) \<and> actor_ok env ''deleted_by'' actor \<and> actor_ok env ''updated_by'' actor"
| "recorded env (OpRestore now actor) \<longleftrightarrow> nc_soft_delete (get_config (ne_class env)) \<and> actor_ok env ''updated_by'' actor"
| "recorded env (OpActivate now actor) \<longleftrightarrow> nc_track_is_active (get_config (ne_class env)) \<and> actor_ok env ''updated_by'' actor"
| "recorded env (OpDeactivate now actor) \<longleftrightarrow> nc_track_is_active (get_config (ne_class env)) \<and> actor_ok env ''updated_by'' actor"
| "recorded env OpRehash \<longleftrightarrow> False"
| "recorded env (OpSeal previous) \<longleftrightarrow> False"
| "recorded env (OpContent c) \<longleftrightarrow> False"

definition marks_ok :: "'c node_env \<Rightarrow> 'c node \<Rightarrow> bool" where
  "marks_ok env n \<longleftrightarrow>
    (has_field env ''is_deleted'' \<and> has_field env ''deleted_at'' \<longrightarrow> nd_is_deleted n = (nd_deleted_at n \<noteq> None)) \<and>
    (has_field env ''is_deleted'' \<and> has_field env ''deleted_by'' \<and> nd_deleted_by n \<noteq> None \<longrightarrow> nd_is_deleted n)"

text \<open>What no operation changes, and what only the marks of deletion and activity are changed by.\<close>

definition same_entry :: "'c node \<Rightarrow> 'c node \<Rightarrow> bool" where
  "same_entry n n' \<longleftrightarrow> nd_id n' = nd_id n \<and> nd_created_at n' = nd_created_at n"

definition same_marks :: "'c node \<Rightarrow> 'c node \<Rightarrow> bool" where
  "same_marks n n' \<longleftrightarrow> nd_is_deleted n' = nd_is_deleted n \<and> nd_deleted_at n' = nd_deleted_at n \<and> nd_deleted_by n' = nd_deleted_by n \<and>
    nd_is_active n' = nd_is_active n \<and> same_entry n n'"

lemma rehash_effect:
  assumes "rehash env n = (r, n')"
  shows "same_marks n n' \<and> nd_version n' = nd_version n \<and> nd_updated_at n' = nd_updated_at n \<and> nd_updated_by n' = nd_updated_by n \<and>
    nd_content n' = nd_content n \<and>
    (nc_content_hashing (get_config (ne_class env)) \<longrightarrow>
      ((\<exists>x. r = Inr x) \<longleftrightarrow> (\<exists>h. content_hash_of env (nd_content n) = Inr h)) \<and>
      (\<forall>x. r = Inr x \<longrightarrow> stored_content_hash env n' = x \<and> Inr (the x) = content_hash_of env (nd_content n) \<and> x \<noteq> None))"
  using assms by (cases "content_hash_of env (nd_content n)")
    (auto simp: rehash_def same_marks_def same_entry_def stored_content_hash_def has_field_def split: if_splits)

lemma seal_effect:
  assumes "update_integrity_hash env p n = (r, n')"
  shows "same_marks n n' \<and> nd_version n' = nd_version n \<and> nd_content n' = nd_content n"
  using assms by (auto simp: update_integrity_hash_def same_marks_def same_entry_def split: if_splits sum.splits option.splits)

text \<open>The version after an operation.\<close>

definition counts :: "'c node_env \<Rightarrow> bool" where
  "counts env \<longleftrightarrow> nc_versioning (get_config (ne_class env)) \<and> has_field env ''version''"

definition hashable :: "'c node_env \<Rightarrow> 'c node \<Rightarrow> bool" where
  "hashable env n \<longleftrightarrow> (nc_content_hashing (get_config (ne_class env)) \<longrightarrow> (\<exists>h. content_hash_of env (nd_content n) = Inr h))"

text \<open>What is on record after a successful operation: its time, its actor and the hash of the content.\<close>

definition on_record :: "'c node_env \<Rightarrow> rat \<Rightarrow> string option \<Rightarrow> 'c node \<Rightarrow> bool" where
  "on_record env now actor n \<longleftrightarrow>
    (nc_track_updated_at (get_config (ne_class env)) \<and> has_field env ''updated_at'' \<longrightarrow> nd_updated_at n = now) \<and>
    (\<forall>a. actor = Some a \<and> has_field env ''updated_by'' \<longrightarrow> nd_updated_by n = ne_actor env a \<and> ne_actor env a \<noteq> None) \<and>
    (nc_content_hashing (get_config (ne_class env)) \<longrightarrow>
      (\<exists>h. stored_content_hash env n = Some h \<and> content_hash_of env (nd_content n) = Inr h))"

lemma touch_effect:
  assumes "touch env now actor n = (r, n')"
  shows "same_marks n n'" "nd_content n' = nd_content n"
    "nd_version n' = (if counts env \<and> actor_ok env ''updated_by'' actor then nd_version n + 1 else nd_version n)"
    "r = Inr () \<longleftrightarrow> actor_ok env ''updated_by'' actor \<and> hashable env n"
    "r = Inr () \<Longrightarrow> on_record env now actor n'"
proof -
  define n1 where "n1 = (if nc_track_updated_at (get_config (ne_class env)) \<and> has_field env ''updated_at'' then n\<lparr>nd_updated_at := now\<rparr> else n)"
  define u where "u = (if actor \<noteq> None \<and> has_field env ''updated_by'' then map_option Some (ne_actor env (the actor)) else Some (nd_updated_by n1))"
  have n1: "same_marks n n1" "nd_content n1 = nd_content n" "nd_version n1 = nd_version n"
    "nc_track_updated_at (get_config (ne_class env)) \<and> has_field env ''updated_at'' \<Longrightarrow> nd_updated_at n1 = now"
    by (auto simp: n1_def same_marks_def same_entry_def)
  have bad: "u = None \<longleftrightarrow> \<not> actor_ok env ''updated_by'' actor" by (auto simp: u_def actor_ok_def)
  have all: "same_marks n n' \<and> nd_content n' = nd_content n \<and>
    nd_version n' = (if counts env \<and> actor_ok env ''updated_by'' actor then nd_version n + 1 else nd_version n) \<and>
    (r = Inr () \<longleftrightarrow> actor_ok env ''updated_by'' actor \<and> hashable env n) \<and> (r = Inr () \<longrightarrow> on_record env now actor n')"
  proof (cases u)
    case None
    then have "(r, n') = (Inl (InvalidActor (the actor)), n1)" using assms unfolding touch_def Let_def n1_def [symmetric] u_def [symmetric] by simp
    then show ?thesis using n1 None bad by simp
  next
    case (Some v)
    define n3 where "n3 = (let n2 = n1\<lparr>nd_updated_by := v\<rparr> in if nc_versioning (get_config (ne_class env)) \<and> has_field env ''version'' then n2\<lparr>nd_version := nd_version n2 + 1\<rparr> else n2)"
    have ok: "actor_ok env ''updated_by'' actor" using Some bad by simp
    have n3: "same_marks n n3" "nd_content n3 = nd_content n" "nd_updated_at n3 = nd_updated_at n1" "nd_updated_by n3 = v"
      "nd_version n3 = (if counts env then nd_version n + 1 else nd_version n)"
      using n1 by (auto simp: n3_def Let_def same_marks_def same_entry_def counts_def)
    have v: "nd_updated_by n3 = ne_actor env a \<and> ne_actor env a \<noteq> None" if "actor = Some a" "has_field env ''updated_by''" for a
      using Some that by (auto simp: u_def n3(4))
    have step: "(r, n') = (if nc_content_hashing (get_config (ne_class env)) then (let (r, n4) = rehash env n3 in (map_sum id (\<lambda>_. ()) r, n4)) else (Inr (), n3))"
      using assms Some unfolding touch_def Let_def n1_def [symmetric] u_def [symmetric] n3_def by simp
    show ?thesis
    proof (cases "nc_content_hashing (get_config (ne_class env))")
      case False
      then have "r = Inr ()" "n' = n3" using step by simp_all
      then show ?thesis using False n3(1-3,5) n1(4) v ok by (simp add: hashable_def on_record_def)
    next
      case True
      obtain r' n4 where h: "rehash env n3 = (r', n4)" by (cases "rehash env n3")
      then have rn: "r = map_sum id (\<lambda>_. ()) r'" "n' = n4" using step True by simp_all
      note e = rehash_effect [OF h]
      have m: "same_marks n n4" using e n3(1) by (simp add: same_marks_def same_entry_def)
      have out: "r = Inr () \<longleftrightarrow> (\<exists>x. r' = Inr x)" using rn(1) by (cases r') auto
      have "on_record env now actor n'" if "r = Inr ()"
      proof -
        from that out obtain x where x: "r' = Inr x" by auto
        with e True have "stored_content_hash env n4 = x" "Inr (the x) = content_hash_of env (nd_content n3)" "x \<noteq> None" by blast+
        then show ?thesis using e n3 n1(4) v rn(2) by (auto simp: on_record_def)
      qed
      then show ?thesis using m e n3 rn(2) out ok True by (auto simp: hashable_def)
    qed
  qed
  then show "same_marks n n'" "nd_content n' = nd_content n"
    "nd_version n' = (if counts env \<and> actor_ok env ''updated_by'' actor then nd_version n + 1 else nd_version n)"
    "r = Inr () \<longleftrightarrow> actor_ok env ''updated_by'' actor \<and> hashable env n"
    "r = Inr () \<Longrightarrow> on_record env now actor n'" by blast+
qed

text \<open>Every lifecycle operation ends in a touch of a node with other marks, or stops before it.\<close>

fun op_actor :: "'c node_op \<Rightarrow> (rat \<times> string option) option" where
  "op_actor (OpTouch now actor) = Some (now, actor)"
| "op_actor (OpDelete now later actor) = Some (later, actor)"
| "op_actor (OpRestore now actor) = Some (now, actor)"
| "op_actor (OpActivate now actor) = Some (now, actor)"
| "op_actor (OpDeactivate now actor) = Some (now, actor)"
| "op_actor _ = None"

text \<open>The marks an operation leaves when it succeeds.\<close>

fun marked :: "'c node_env \<Rightarrow> 'c node_op \<Rightarrow> 'c node \<Rightarrow> 'c node \<Rightarrow> bool" where
  "marked env (OpDelete now later actor) n n' \<longleftrightarrow>
    (has_field env ''deleted_at'' \<longrightarrow> nd_deleted_at n' = Some now) \<and> (has_field env ''is_deleted'' \<longrightarrow> nd_is_deleted n') \<and>
    (\<forall>a. actor = Some a \<and> has_field env ''deleted_by'' \<longrightarrow> nd_deleted_by n' = ne_actor env a \<and> ne_actor env a \<noteq> None) \<and> nd_is_active n' = nd_is_active n"
| "marked env (OpRestore now actor) n n' \<longleftrightarrow>
    (has_field env ''deleted_at'' \<longrightarrow> nd_deleted_at n' = None) \<and> (has_field env ''is_deleted'' \<longrightarrow> \<not> nd_is_deleted n') \<and>
    (has_field env ''deleted_by'' \<longrightarrow> nd_deleted_by n' = None) \<and> nd_is_active n' = nd_is_active n"
| "marked env (OpActivate now actor) n n' \<longleftrightarrow>
    (has_field env ''is_active'' \<longrightarrow> nd_is_active n') \<and> nd_is_deleted n' = nd_is_deleted n \<and> nd_deleted_at n' = nd_deleted_at n \<and> nd_deleted_by n' = nd_deleted_by n"
| "marked env (OpDeactivate now actor) n n' \<longleftrightarrow>
    (has_field env ''is_active'' \<longrightarrow> \<not> nd_is_active n') \<and> nd_is_deleted n' = nd_is_deleted n \<and> nd_deleted_at n' = nd_deleted_at n \<and> nd_deleted_by n' = nd_deleted_by n"
| "marked env op n n' \<longleftrightarrow> same_marks n n'"

text \<open>What one operation does.\<close>

definition step_effect :: "'c node_env \<Rightarrow> 'c node_op \<Rightarrow> 'c node \<Rightarrow> (node_error, unit) result \<Rightarrow> 'c node \<Rightarrow> bool" where
  "step_effect env op n r n' \<longleftrightarrow>
    same_entry n n' \<and> (marks_ok env n \<longrightarrow> marks_ok env n') \<and>
    nd_version n' = (if counts env \<and> recorded env op then nd_version n + 1 else nd_version n) \<and>
    (\<forall>now actor. op_actor op = Some (now, actor) \<longrightarrow>
      nd_content n' = nd_content n \<and> (r = Inr () \<longleftrightarrow> recorded env op \<and> hashable env n) \<and> (r = Inr () \<longrightarrow> on_record env now actor n' \<and> marked env op n n'))"

lemma touched_effect:
  assumes "touch env now actor n1 = (r, n')" "op_actor op = Some (now, actor)" "recorded env op \<longleftrightarrow> actor_ok env ''updated_by'' actor"
    "same_entry n n1" "nd_content n1 = nd_content n" "nd_version n1 = nd_version n" "marks_ok env n \<longrightarrow> marks_ok env n1"
    "\<And>m. same_marks n1 m \<Longrightarrow> marked env op n m"
  shows "step_effect env op n r n'"
proof -
  note t = touch_effect [OF assms(1)]
  have "same_entry n n'" using t(1) assms(4) by (simp add: same_marks_def same_entry_def)
  moreover have "marks_ok env n1 \<longrightarrow> marks_ok env n'" using t(1) by (simp add: same_marks_def marks_ok_def)
  moreover have "hashable env n1 = hashable env n" using assms(5) by (simp add: hashable_def)
  ultimately show ?thesis using t assms(2,3,5-8) unfolding step_effect_def by simp
qed

lemma stopped_effect:
  assumes "op_actor op = Some (now, actor)" "\<not> recorded env op" "same_entry n n'" "marks_ok env n \<longrightarrow> marks_ok env n'"
    "nd_version n' = nd_version n" "nd_content n' = nd_content n"
  shows "step_effect env op n (Inl e) n'"
  using assms by (simp add: step_effect_def)

lemma soft_delete_effect:
  assumes "soft_delete env now later actor n = (r, n')"
  shows "step_effect env (OpDelete now later actor) n r n'"
proof (cases "nc_soft_delete (get_config (ne_class env))")
  case True
  define n2 where "n2 = (let n1 = (if has_field env ''deleted_at'' then n\<lparr>nd_deleted_at := Some now\<rparr> else n)
    in if has_field env ''is_deleted'' then n1\<lparr>nd_is_deleted := True\<rparr> else n1)"
  define u where "u = (if actor \<noteq> None \<and> has_field env ''deleted_by'' then map_option Some (ne_actor env (the actor)) else Some (nd_deleted_by n2))"
  have n2: "same_entry n n2" "nd_content n2 = nd_content n" "nd_version n2 = nd_version n" "marks_ok env n \<longrightarrow> marks_ok env n2"
    "has_field env ''deleted_at'' \<Longrightarrow> nd_deleted_at n2 = Some now" "has_field env ''is_deleted'' \<Longrightarrow> nd_is_deleted n2" "nd_is_active n2 = nd_is_active n"
    by (auto simp: n2_def Let_def same_entry_def marks_ok_def)
  have bad: "u = None \<longleftrightarrow> \<not> actor_ok env ''deleted_by'' actor" by (auto simp: u_def actor_ok_def)
  show ?thesis
  proof (cases u)
    case None
    then have "r = Inl (InvalidActor (the actor)) \<and> n' = n2" using assms True unfolding soft_delete_def Let_def u_def n2_def by simp
    then show ?thesis using n2 None bad by (auto intro: stopped_effect)
  next
    case (Some v)
    then have t: "touch env later actor (n2\<lparr>nd_deleted_by := v\<rparr>) = (r, n')" using assms True unfolding soft_delete_def Let_def u_def n2_def by simp
    have v: "v = ne_actor env a \<and> ne_actor env a \<noteq> None" if "actor = Some a" "has_field env ''deleted_by''" for a
      using Some that by (auto simp: u_def)
    have "marks_ok env (n2\<lparr>nd_deleted_by := v\<rparr>)" if "marks_ok env n" using that n2(4,6) by (simp add: marks_ok_def)
    moreover have "marked env (OpDelete now later actor) n m" if "same_marks (n2\<lparr>nd_deleted_by := v\<rparr>) m" for m
      using that n2(5-7) v by (simp add: same_marks_def)
    ultimately show ?thesis using touched_effect [OF t, of "OpDelete now later actor" n] n2(1-3) Some bad True by (simp add: same_entry_def)
  qed
next
  case False
  then show ?thesis using assms by (auto simp: soft_delete_def same_entry_def intro: stopped_effect)
qed

lemma restore_effect:
  assumes "restore env now actor n = (r, n')"
  shows "step_effect env (OpRestore now actor) n r n'"
proof (cases "nc_soft_delete (get_config (ne_class env))")
  case True
  define n3 where "n3 = (let n1 = (if has_field env ''deleted_at'' then n\<lparr>nd_deleted_at := None\<rparr> else n);
      n2 = (if has_field env ''is_deleted'' then n1\<lparr>nd_is_deleted := False\<rparr> else n1)
    in if has_field env ''deleted_by'' then n2\<lparr>nd_deleted_by := None\<rparr> else n2)"
  have n3: "same_entry n n3" "nd_content n3 = nd_content n" "nd_version n3 = nd_version n" "marks_ok env n \<longrightarrow> marks_ok env n3"
    "has_field env ''deleted_at'' \<Longrightarrow> nd_deleted_at n3 = None" "has_field env ''is_deleted'' \<Longrightarrow> \<not> nd_is_deleted n3"
    "has_field env ''deleted_by'' \<Longrightarrow> nd_deleted_by n3 = None" "nd_is_active n3 = nd_is_active n"
    by (auto simp: n3_def Let_def same_entry_def marks_ok_def)
  have t: "touch env now actor n3 = (r, n')" using assms True unfolding restore_def Let_def n3_def by simp
  have "marked env (OpRestore now actor) n m" if "same_marks n3 m" for m using that n3(5-8) by (simp add: same_marks_def)
  then show ?thesis using touched_effect [OF t, of "OpRestore now actor" n] n3(1-4) True by simp
next
  case False
  then show ?thesis using assms by (auto simp: restore_def same_entry_def intro: stopped_effect)
qed

lemma activate_effect:
  assumes "activate env now actor n = (r, n')"
  shows "step_effect env (OpActivate now actor) n r n'"
proof (cases "nc_track_is_active (get_config (ne_class env))")
  case True
  let ?n1 = "if has_field env ''is_active'' then n\<lparr>nd_is_active := True\<rparr> else n"
  have t: "touch env now actor ?n1 = (r, n')" using assms True by (simp add: activate_def)
  show ?thesis by (rule touched_effect [OF t]) (use True in \<open>auto simp: same_entry_def same_marks_def marks_ok_def\<close>)
next
  case False
  then show ?thesis using assms by (auto simp: activate_def same_entry_def intro: stopped_effect)
qed

lemma deactivate_effect:
  assumes "deactivate env now actor n = (r, n')"
  shows "step_effect env (OpDeactivate now actor) n r n'"
proof (cases "nc_track_is_active (get_config (ne_class env))")
  case True
  let ?n1 = "if has_field env ''is_active'' then n\<lparr>nd_is_active := False\<rparr> else n"
  have t: "touch env now actor ?n1 = (r, n')" using assms True by (simp add: deactivate_def)
  show ?thesis by (rule touched_effect [OF t]) (use True in \<open>auto simp: same_entry_def same_marks_def marks_ok_def\<close>)
next
  case False
  then show ?thesis using assms by (auto simp: deactivate_def same_entry_def intro: stopped_effect)
qed

lemma node_step_effect:
  assumes "node_step env op n = (r, n')"
  shows "step_effect env op n r n'"
proof (cases op)
  case (OpTouch now actor)
  with assms have t: "touch env now actor n = (r, n')" by simp
  show ?thesis unfolding OpTouch by (rule touched_effect [OF t]) (simp_all add: same_entry_def)
next
  case OpRehash
  obtain r' m where h: "rehash env n = (r', m)" by (cases "rehash env n")
  with assms OpRehash have "n' = m" by simp
  with rehash_effect [OF h] show ?thesis by (simp add: OpRehash step_effect_def same_marks_def marks_ok_def)
next
  case (OpSeal p)
  obtain r' m where h: "update_integrity_hash env p n = (r', m)" by (cases "update_integrity_hash env p n")
  with assms OpSeal have "n' = m" by simp
  with seal_effect [OF h] show ?thesis by (simp add: OpSeal step_effect_def same_marks_def marks_ok_def)
qed (use assms soft_delete_effect restore_effect activate_effect deactivate_effect in \<open>auto simp: step_effect_def [of _ "OpContent _"] same_entry_def marks_ok_def\<close>)

lemma node_run_effect:
  "marks_ok env n \<Longrightarrow> marks_ok env (node_run env ops n) \<and> same_entry n (node_run env ops n) \<and>
    nd_version (node_run env ops n) = (if counts env then nd_version n + int (length (filter (recorded env) ops)) else nd_version n)"
proof (induction ops arbitrary: n)
  case (Cons op ops)
  obtain r n' where s: "node_step env op n = (r, n')" by (cases "node_step env op n")
  note e = node_step_effect [OF s, unfolded step_effect_def]
  have "marks_ok env n'" using e Cons.prems by simp
  from Cons.IH [OF this] e s show ?case by (simp add: node_run_def same_entry_def)
qed (simp add: node_run_def same_entry_def)

section \<open>Properties\<close>

text \<open>C17: Sealing nodes one after the other succeeds if their contents can be hashed, and the last hash fixes the contents of the whole chain: two chains that end in the same hash
  serialise to the same bytes entry by entry, unless two of the byte strings hashed collide. The stored content hashes must be current, and digests are 64 hexadecimal digits.\<close>

theorem integrity_chain:
  assumes digests: "\<forall>b. length (ne_hash env SHA256 b) = 64 \<and> set (ne_hash env SHA256 b) \<subseteq> set ''0123456789abcdef''"
    and on: "nc_integrity_hashing (get_config (ne_class env))" and current: "list_all (hash_current env) ns" "list_all (hash_current env) ms"
  shows "((\<forall>n\<in>set ns. \<exists>h. content_hash_of env (nd_content n) = Inr h) \<longrightarrow> (\<exists>r. seal_all env ns = Inr r)) \<and>
    (seal_all env ns = Inr r \<and> seal_all env ms = Inr r \<and> inj_on (ne_hash env SHA256) (hashed_bytes env ns \<union> hashed_bytes env ms) \<longrightarrow>
      map (\<lambda>n. hash_payload env (nd_content n)) ns = map (\<lambda>n. hash_payload env (nd_content n)) ms)"
proof (intro conjI impI)
  assume "\<forall>n\<in>set ns. \<exists>h. content_hash_of env (nd_content n) = Inr h"
  then show "\<exists>r. seal_all env ns = Inr r" using seal_all_total [OF _ on current(1)] digests by auto
next
  have hex: "\<forall>b. ne_hash env SHA256 b \<noteq> [] \<and> set (ne_hash env SHA256 b) \<subseteq> set ''0123456789abcdef''"
  proof
    fix b
    have "length (ne_hash env SHA256 b) = 64" using digests by blast
    then have "ne_hash env SHA256 b \<noteq> []" by auto
    then show "ne_hash env SHA256 b \<noteq> [] \<and> set (ne_hash env SHA256 b) \<subseteq> set ''0123456789abcdef''" using digests by blast
  qed
  assume "seal_all env ns = Inr r \<and> seal_all env ms = Inr r \<and> inj_on (ne_hash env SHA256) (hashed_bytes env ns \<union> hashed_bytes env ms)"
  then show "map (\<lambda>n. hash_payload env (nd_content n)) ns = map (\<lambda>n. hash_payload env (nd_content n)) ms"
    using chain_determines [OF hex on _ _ current] by blast
qed

text \<open>C16: Whatever operations run on a node, with whatever actors and contents: its identity stays, a node is marked deleted exactly while it has a time of deletion and has a deleter only
  then, and the version counts the operations that were supported and had a valid actor. A lifecycle operation succeeds exactly if it is such an operation and the content can be hashed, and then its
  time, its actor, its marks and the hash of the content are on record.\<close>

theorem lifecycle_audit:
  assumes "marks_ok env n" "node_run env ops n = n'" "node_step env op n' = (r, n'')"
  shows "same_entry n n' \<and> marks_ok env n' \<and> nd_version n' = (if counts env then nd_version n + int (length (filter (recorded env) ops)) else nd_version n) \<and>
    (\<forall>now actor. op_actor op = Some (now, actor) \<longrightarrow>
      (r = Inr () \<longleftrightarrow> recorded env op \<and> hashable env n') \<and> (r = Inr () \<longrightarrow> on_record env now actor n'' \<and> marked env op n' n''))"
proof -
  have "step_effect env op n' r n''" by (rule node_step_effect [OF assms(3)])
  then show ?thesis using node_run_effect [OF assms(1), of ops] assms(2) unfolding step_effect_def by blast
qed

text \<open>A second deletion without an actor keeps the first one's deleter beside the new time.\<close>

lemma deleter_outlives_deletion:
  assumes "nc_soft_delete (get_config (ne_class env))" "has_field env ''deleted_at''" "has_field env ''deleted_by''" "soft_delete env now later None n = (Inr (), n')"
  shows "nd_deleted_at n' = Some now" "nd_deleted_by n' = nd_deleted_by n"
proof -
  define n2 where "n2 = (let n1 = n\<lparr>nd_deleted_at := Some now\<rparr> in if has_field env ''is_deleted'' then n1\<lparr>nd_is_deleted := True\<rparr> else n1)"
  have "touch env later None (n2\<lparr>nd_deleted_by := nd_deleted_by n2\<rparr>) = (Inr (), n')"
    using assms unfolding n2_def soft_delete_def Let_def by (cases "has_field env ''is_deleted''") simp_all
  from touch_effect(1) [OF this] show "nd_deleted_at n' = Some now" "nd_deleted_by n' = nd_deleted_by n"
    by (auto simp: same_marks_def n2_def Let_def)
qed

text \<open>An actor that is not valid leaves a deletion half done.\<close>

lemma rejected_actor_deletes:
  assumes "nc_soft_delete (get_config (ne_class env))" "has_field env ''deleted_at''" "has_field env ''is_deleted''" "has_field env ''deleted_by''" "ne_actor env a = None"
  shows "soft_delete env now later (Some a) n = (Inl (InvalidActor a), n\<lparr>nd_deleted_at := Some now, nd_is_deleted := True\<rparr>)"
  using assms by (simp add: soft_delete_def Let_def)

section \<open>A sample\<close>

definition sample_env :: "nat node_env" where
  "sample_env =
    \<lparr>ne_class = entity_node ''jobs.Job'' ''jobs'' ''public'' False [''title''],
     ne_hash = (\<lambda>_ b. replicate 64 (if length b < 10 then CHR ''0'' else CHR ''1'')),
     ne_dumpb = (\<lambda>c. if c < 256 then Some [of_nat c] else None), ne_actor = (\<lambda>a. if a = ''alice'' then Some ''u1'' else None), ne_str = (\<lambda>_. [])\<rparr>"

definition sample_node :: "uuid \<Rightarrow> nat \<Rightarrow> nat node" where
  "sample_node u c =
    \<lparr>nd_id = u, nd_created_at = 0, nd_metadata = [], nd_content = Some c, nd_updated_at = 0, nd_updated_by = None, nd_is_active = True, nd_is_deleted = False,
     nd_deleted_at = None, nd_deleted_by = None, nd_version = 1, nd_content_hash = None, nd_integrity_hash = None\<rparr>"

lemma sample_env_config:
  "nc_integrity_hashing (get_config (ne_class sample_env))" "nc_content_hashing (get_config (ne_class sample_env))" "nc_soft_delete (get_config (ne_class sample_env))"
  "nc_versioning (get_config (ne_class sample_env))"
  by (simp_all add: sample_env_def entity_node_def get_config_def get_canon_config_v1_def)

lemma sample_env_fields:
  "has_field sample_env ''content_hash''" "has_field sample_env ''version''" "has_field sample_env ''deleted_by''" "has_field sample_env ''updated_by''"
  "has_field sample_env ''deleted_at''" "has_field sample_env ''is_deleted''"
  by (simp_all add: sample_env_def entity_node_def has_field_def node_fields_def)

lemma sample_hash: "content_hash_of sample_env (Some 7) = Inr (replicate 64 CHR ''0'')"
  by (simp add: content_hash_of_def hash_payload_def compute_hash_def MAX_HASH_INPUT_BYTES_def sample_env_def)

theorem integrity_chain_witness:
  "\<exists>r. seal_all sample_env [sample_node ''a'' 7] = Inr r \<and> hash_payload sample_env (Some 7) = hash_payload sample_env (nd_content (sample_node ''b'' 7))"
proof -
  have digests: "\<forall>b. length (ne_hash sample_env SHA256 b) = 64 \<and> set (ne_hash sample_env SHA256 b) \<subseteq> set ''0123456789abcdef''" by (simp add: sample_env_def)
  have cur: "list_all (hash_current sample_env) [sample_node u 7]" for u
    by (simp add: hash_current_def stored_content_hash_def sample_env_fields sample_node_def)
  note chain = integrity_chain [OF digests sample_env_config(1) cur [of "''a''"] cur [of "''b''"]]
  obtain r where r: "seal_all sample_env [sample_node ''a'' 7] = Inr r" using chain sample_hash by (auto simp: sample_node_def)
  have same: "seal_all sample_env [sample_node ''b'' 7] = seal_all sample_env [sample_node ''a'' 7]"
    by (simp add: seal_all_def update_integrity_hash_def stored_content_hash_def sample_env_fields sample_node_def split: sum.splits option.splits)
  have payload: "hash_payload sample_env (Some 7) = Inr [7]" by (simp add: hash_payload_def sample_env_def)
  let ?long = "utf8 (chain_input (replicate 64 CHR ''0'') None)"
  have hashed: "hashed_bytes sample_env [sample_node u 7] \<subseteq> {[7], ?long}" for u
    by (auto simp: hashed_bytes_def sample_node_def payload sample_hash Cons_eq_append_conv)
  have "length ?long > 64" by (simp add: chain_input_def utf8_def length_concat utf8_char_def Let_def code_def)
  then have "inj_on (ne_hash sample_env SHA256) {[7], ?long}" by (auto simp: sample_env_def inj_on_def)
  then have "inj_on (ne_hash sample_env SHA256) (hashed_bytes sample_env [sample_node ''a'' 7] \<union> hashed_bytes sample_env [sample_node ''b'' 7])"
    using hashed by (blast intro: inj_on_subset)
  then show ?thesis using chain r same by (auto simp: sample_node_def)
qed

theorem lifecycle_audit_witness:
  "nd_version (node_run sample_env [OpDelete 1 2 (Some ''alice''), OpDelete 3 4 (Some ''mallory''), OpRestore 5 None] (sample_node ''a'' 7)) = 3"
proof -
  have "marks_ok sample_env (sample_node ''a'' 7)" by (simp add: marks_ok_def sample_node_def)
  moreover have "ne_actor sample_env ''alice'' \<noteq> None" "ne_actor sample_env ''mallory'' = None" by (simp_all add: sample_env_def)
  ultimately show ?thesis
    using lifecycle_audit [of sample_env "sample_node ''a'' 7" "[OpDelete 1 2 (Some ''alice''), OpDelete 3 4 (Some ''mallory''), OpRestore 5 None]", OF _ refl surjective_pairing]
    by (simp add: counts_def actor_ok_def sample_env_config sample_env_fields) (simp add: sample_node_def)
qed

end
