(* ===== verification/Node_Rows.thy ===== *)
theory Node_Rows
  imports Node
begin

text \<open>
  Rows of nodes: what \<open>to_dict(mode="db")\<close> writes can be read back by \<open>from_dict(from_row=True)\<close> on the class and on a base class, if the table of the class can be created;
  when the columns of a row are columns of the table; and that reading ends.
\<close>

section \<open>Dictionaries\<close>

lemma dict_set_appends: "map_of d k = None \<Longrightarrow> dict_set k v d = d @ [(k, v)]"
  by (induction d) (auto split: if_splits)

lemma dict_pop_set_new: "map_of d k = None \<Longrightarrow> dict_pop k (dict_set k v d) = d"
  by (induction d) (auto simp: dict_pop_def split: if_splits)

lemma dict_pop_absent: "map_of d k = None \<Longrightarrow> dict_pop k d = d"
  by (induction d) (auto simp: dict_pop_def split: if_splits)

lemma dict_update_disjoint:
  "distinct (dict_keys e) \<Longrightarrow> fst ` set d \<inter> fst ` set e = {} \<Longrightarrow> dict_update d e = d @ e"
proof (induction e arbitrary: d)
  case (Cons x e)
  obtain k v where x: "x = (k, v)" by (cases x)
  have "map_of d k = None" using Cons.prems(2) by (simp add: map_of_eq_None_iff x)
  then have "dict_update d (x # e) = dict_update (d @ [(k, v)]) e" by (simp add: x dict_set_appends)
  moreover have "fst ` set (d @ [(k, v)]) \<inter> fst ` set e = {}" using Cons.prems x by auto
  ultimately show ?case using Cons.IH [of "d @ [(k, v)]"] Cons.prems(1) x by simp
qed simp

lemma map_of_rename_key:
  "map_of (rename_key old new d) = (case map_of d old of None \<Rightarrow> map_of d | Some v \<Rightarrow> (map_of d)(old := None, new \<mapsto> v))"
  by (cases "map_of d old") (simp_all add: rename_key_def map_of_dict_pop)

lemma keys_rename_key:
  "fst ` set (rename_key old new d) = (if old \<in> fst ` set d then insert new (fst ` set d - {old}) else fst ` set d)"
proof (cases "map_of d old")
  case None
  then have "old \<notin> fst ` set d" by (simp add: map_of_eq_None_iff)
  then show ?thesis unfolding rename_key_def None by simp
next
  case (Some v)
  moreover have "old \<in> fst ` set d" using Some by (metis domI dom_map_of_conv_image_fst)
  ultimately show ?thesis by (auto simp: rename_key_def dict_pop_def)
qed

lemma map_of_pop_keys: "map_of (pop_keys ks d) k = (if k \<in> set ks then None else map_of d k)"
  by (induction ks arbitrary: d) (auto simp: map_of_dict_pop)

lemma map_of_vals: "map_of (map (map_prod id f) d) k = map_option f (map_of d k)"
  by (induction d) auto

lemma map_of_restore_metadata:
  "map_of (restore_metadata key d) =
    (if map_of d key \<noteq> None then map_of (rename_key key ''metadata'' d)
     else if map_of d ''metadata'' = None then map_of (rename_key ''node_metadata'' ''metadata'' d)
     else map_of d)(''node_metadata'' := None)"
  by (simp add: restore_metadata_def map_of_dict_pop)

section \<open>The classes\<close>

text \<open>The classes that the factory and the entities make.\<close>

definition made_class :: "node_class \<Rightarrow> bool" where
  "made_class cls \<longleftrightarrow>
    (\<exists>name content embedding enabled dimension opts. create_node name content embedding enabled dimension opts = Inr cls) \<or>
    (\<exists>name table schema immutable content. cls = entity_node name table schema immutable content)"

definition fields_ok :: "node_class \<Rightarrow> bool" where
  "fields_ok cls \<longleftrightarrow> {''metadata'', ''content''} \<subseteq> set (cl_fields cls) \<and>
    set (cl_fields cls) \<subseteq> set (content_spec_names @ audit_spec_names) - {''node_metadata''}"

lemma included_fields_names: "set (included_fields c e opts) \<subseteq> set (content_spec_names @ audit_spec_names) - {''node_metadata'', ''metadata''}"
  by (auto simp: included_fields_def content_spec_names_def audit_spec_names_def)

lemma made_fields_ok:
  assumes "made_class cls"
  shows "fields_ok cls"
proof -
  consider (made) name content embedding enabled dimension opts where "create_node name content embedding enabled dimension opts = Inr cls"
    | (entity) name table schema immutable content where "cls = entity_node name table schema immutable content"
    using assms by (auto simp: made_class_def)
  then show ?thesis
  proof cases
    case made
    then obtain d where "cl_fields cls = node_fields @ filter (\<lambda>f. f \<notin> set node_fields) (included_fields (content \<noteq> None) (d \<noteq> (None :: int option)) opts)"
      by (auto simp: create_node_def)
    then have "set (cl_fields cls) \<subseteq> set node_fields \<union> set (included_fields (content \<noteq> None) (d \<noteq> None) opts)" "set node_fields \<subseteq> set (cl_fields cls)"
      by auto
    moreover have "set node_fields \<subseteq> set (content_spec_names @ audit_spec_names) - {''node_metadata''}" "{''metadata'', ''content''} \<subseteq> set node_fields"
      by (simp_all add: node_fields_def content_spec_names_def)
    ultimately show ?thesis using included_fields_names [of "content \<noteq> None" "d \<noteq> None" opts] unfolding fields_ok_def by blast
  next
    case entity
    then show ?thesis by (simp add: fields_ok_def entity_node_def node_fields_def content_spec_names_def audit_spec_names_def)
  qed
qed

text \<open>A class whose content is stored in columns of its own.\<close>

definition flattens :: "node_class \<Rightarrow> string list \<Rightarrow> bool" where
  "flattens cls fs \<longleftrightarrow> nc_flatten_content (get_config cls) \<and> node_content_type cls = Some (ModelType fs)"

lemma flattens_columns: "flattens cls fs \<Longrightarrow> flattened_columns cls = Some fs"
  by (auto simp: flattens_def flattened_columns_def ddl_content_type_def node_content_type_def split: option.splits)

lemma ddl_names_distinct:
  assumes "ddl_columns cls = Inr cols" "flattens cls fs"
  shows "set fs \<inter> set (content_spec_names @ audit_spec_names) = {}" "cols = set (ddl_include cls)"
  using assms flattens_columns [OF assms(2)] by (auto simp: ddl_columns_def Let_def split: if_splits)

section \<open>Reading rows\<close>

text \<open>
  What the round trip needs of Pydantic: a dump has the declared fields, with the metadata a dictionary without the reserved key; a content is built from its own dump; and a
  dictionary with the dumped fields and the content is validated to the node.
\<close>

definition dumps_back :: "('n, 'c) pydantic \<Rightarrow> node_class \<Rightarrow> string list \<Rightarrow> 'n \<Rightarrow> 'c \<Rightarrow> bool" where
  "dumps_back pd cls fs n c \<longleftrightarrow>
    pd_content pd n = Some c \<and>
    distinct (dict_keys (pd_dump pd n)) \<and> fst ` set (pd_dump pd n) = set (cl_fields cls) - {''content''} \<and>
    (\<exists>m. map_of (pd_dump pd n) ''metadata'' = Some (VDict m) \<and> map_of m ''kron_class'' = None) \<and>
    distinct (dict_keys (pd_content_dump pd c)) \<and> fst ` set (pd_content_dump pd c) = set fs \<and>
    pd_content_load pd cls (map (map_prod id Val) (pd_content_dump pd c)) = Some c \<and>
    (\<forall>d. map_of d = (\<lambda>k. map_option Val (map_of (pd_dump pd n) k))(''content'' \<mapsto> Obj c) \<longrightarrow> pd_validate pd cls d = Some n)"

text \<open>One pass over data that holds the metadata under a key and the fields of the content beside the others.\<close>

definition holds_node ::
  "('n, 'c) pydantic \<Rightarrow> string list \<Rightarrow> 'n \<Rightarrow> 'c \<Rightarrow> string \<Rightarrow> (string, py_value) dict \<Rightarrow> (string, 'c cell) dict \<Rightarrow> bool" where
  "holds_node pd fs n c key m data \<longleftrightarrow>
    filter (\<lambda>(k, v). k \<in> set fs) data = map (map_prod id Val) (pd_content_dump pd c) \<and>
    (\<forall>k. k \<notin> set fs \<longrightarrow> map_of data k =
      (if k = key then Some (Val (VDict m)) else if k \<in> {''metadata'', ''node_metadata'', ''content''} then None
       else map_option Val (map_of (pd_dump pd n) k)))"

text \<open>The metadata are found under either key.\<close>

lemma restored_lookup:
  assumes g: "\<And>k. map_of g k = (if k = ''content'' then x else if k = key then Some y else if k \<in> {''metadata'', ''node_metadata''} then None else f k)"
    and keys: "meta \<in> {''node_metadata'', ''metadata''}" "key \<in> {meta, ''metadata''}" and f: "f ''node_metadata'' = None"
  shows "map_of (restore_metadata meta g) = f(''content'' := x, ''metadata'' \<mapsto> y)"
proof -
  obtain M N C where names: "M = ''metadata''" "N = ''node_metadata''" "C = ''content''" and neq: "M \<noteq> N" "M \<noteq> C" "N \<noteq> C" by simp
  note g = g [folded names] and keys = keys [folded names] and f = f [folded names]
  have r: "map_of (restore_metadata meta g) =
    (if map_of g meta \<noteq> None then map_of (rename_key meta M g) else if map_of g M = None then map_of (rename_key N M g) else map_of g)(N := None)"
    unfolding names by (rule map_of_restore_metadata)
  consider (same) "key = meta" "meta = N" | (plain) "key = M" "meta = N" | (kept) "key = M" "meta = M" using keys by auto
  then have "map_of (restore_metadata meta g) = f(C := x, M \<mapsto> y)"
  proof cases
    case same
    then have "map_of g meta = Some y" using g neq by simp
    then show ?thesis using r g neq f same by (intro ext) (simp add: map_of_rename_key)
  next
    case plain
    then have "map_of g meta = None" "map_of g M = Some y" using g [of meta] g [of M] neq by simp_all
    then show ?thesis unfolding r using g neq f plain by (intro ext) simp
  next
    case kept
    then have "map_of g meta = Some y" using g neq by simp
    then show ?thesis using r g neq f kept by (intro ext) (simp add: map_of_rename_key)
  qed
  then show ?thesis unfolding names .
qed

lemma upd_again: "f a = Some v \<Longrightarrow> a \<noteq> b \<Longrightarrow> (f(b \<mapsto> x, a \<mapsto> y))(a \<mapsto> v) = f(b \<mapsto> x)"
  by (rule ext) simp

lemma read_pass:
  assumes holds: "holds_node pd fs n c key m data" and fields: "fields_ok cls" and flat: "flattens cls fs"
    and apart: "set fs \<inter> set (content_spec_names @ audit_spec_names) = {}"
    and loads: "dumps_back pd cls fs n c"
    and keys: "nc_meta_key (get_config cls) \<in> {''node_metadata'', ''metadata''}" "key \<in> {nc_meta_key (get_config cls), ''metadata''}"
    and m: "map_of (pd_dump pd n) ''metadata'' = Some (VDict (dict_pop ''kron_class'' m))" "map_of m ''kron_class'' \<in> {None, Some (VText (cl_name cls))}"
  shows "from_row_loop (Suc fuel) pd registry cls data = Inr n"
proof -
  have out: "''content'' \<notin> set fs" "''metadata'' \<notin> set fs" "''node_metadata'' \<notin> set fs" using apart by (auto simp: content_spec_names_def)
  have lookup: "k \<notin> set fs \<Longrightarrow> map_of data k =
      (if k = key then Some (Val (VDict m)) else if k \<in> {''metadata'', ''node_metadata'', ''content''} then None
       else map_option Val (map_of (pd_dump pd n) k))" for k using holds by (simp add: holds_node_def)
  have dump: "k \<notin> set (cl_fields cls) - {''content''} \<Longrightarrow> map_of (pd_dump pd n) k = None" for k
    using loads by (simp add: dumps_back_def map_of_eq_None_iff)
  have "map_of data ''content'' = None" using lookup [of "''content''"] out keys by auto
  moreover have "pd_content_load pd cls (filter (\<lambda>(k, v). k \<in> set fs) data) = Some c" using holds loads by (simp add: holds_node_def dumps_back_def)
  ultimately have gathered: "gather_content pd cls data = Inr (dict_set ''content'' (Obj c) (pop_keys fs data))" (is "_ = Inr ?g")
    using flat by (simp add: gather_content_def flattens_def)
  have g: "map_of ?g k = (if k = ''content'' then Some (Obj c) else if k = key then Some (Val (VDict m)) else if k \<in> {''metadata'', ''node_metadata''} then None
       else map_option Val (map_of (pd_dump pd n) k))" for k
  proof (cases "k \<in> set fs")
    case True
    then have "k \<noteq> ''content''" "k \<noteq> key" "k \<notin> set (cl_fields cls)" using out keys apart fields by (auto simp: fields_ok_def)
    then show ?thesis using True dump [of k] by (simp add: map_of_pop_keys)
  next
    case False
    then show ?thesis using lookup [of k] by (simp add: map_of_pop_keys)
  qed
  let ?r = "restore_metadata (nc_meta_key (get_config cls)) ?g"
  have "''node_metadata'' \<notin> set (cl_fields cls)" using fields unfolding fields_ok_def by blast
  then have "map_of (pd_dump pd n) ''node_metadata'' = None" by (intro dump) blast
  then have "map_option Val (map_of (pd_dump pd n) ''node_metadata'') = None" by simp
  then have r: "map_of ?r = (\<lambda>k. map_option Val (map_of (pd_dump pd n) k))(''content'' \<mapsto> Obj c, ''metadata'' \<mapsto> Val (VDict m))"
    by (rule restored_lookup [OF g keys])
  then have "map_of ?r ''metadata'' = Some (Val (VDict m))" by simp
  then have taken: "take_class ?r = (map_of m ''kron_class'', dict_set ''metadata'' (Val (VDict (dict_pop ''kron_class'' m))) ?r)" (is "_ = (_, ?d)")
    by (simp add: take_class_def)
  have "map_of ?d = (\<lambda>k. map_option Val (map_of (pd_dump pd n) k))(''content'' \<mapsto> Obj c)" 
    unfolding map_of_dict_set r by (rule upd_again) (simp_all add: m(1))
  then have "pd_validate pd cls ?d = Some n" using loads by (simp add: dumps_back_def)
  moreover have "dispatch registry cls (map_of m ''kron_class'') = Inr None" using m(2) by (auto simp: dispatch_def)
  ultimately show ?thesis by (simp add: gathered taken)
qed

lemma filter_dict_set: "k \<notin> A \<Longrightarrow> filter (\<lambda>(k, v). k \<in> A) (dict_set k x d) = filter (\<lambda>(k, v). k \<in> A) d"
  by (induction d) auto

lemma filter_dict_pop: "k \<notin> A \<Longrightarrow> filter (\<lambda>(k, v). k \<in> A) (dict_pop k d) = filter (\<lambda>(k, v). k \<in> A) d"
  by (induction d) (auto simp: dict_pop_def)

lemma filter_rename_key: "old \<notin> A \<Longrightarrow> new \<notin> A \<Longrightarrow> filter (\<lambda>(k, v). k \<in> A) (rename_key old new d) = filter (\<lambda>(k, v). k \<in> A) d"
  by (cases "map_of d old") (simp_all add: rename_key_def filter_dict_set filter_dict_pop del: map_of_eq_None_iff)

lemma filter_restore_metadata:
  "key \<notin> A \<Longrightarrow> ''metadata'' \<notin> A \<Longrightarrow> ''node_metadata'' \<notin> A \<Longrightarrow>
    filter (\<lambda>(k, v). k \<in> A) (restore_metadata key d) = filter (\<lambda>(k, v). k \<in> A) d"
  by (simp add: restore_metadata_def filter_dict_pop filter_rename_key)

lemma meta_key_apart:
  assumes "set fs \<inter> set (content_spec_names @ audit_spec_names) = {}" "key \<in> {''node_metadata'', ''metadata''}"
  shows "key \<notin> set fs" "''metadata'' \<notin> set fs" "''node_metadata'' \<notin> set fs" "''content'' \<notin> set fs"
proof -
  have "{''node_metadata'', ''metadata'', ''content''} \<subseteq> set (content_spec_names @ audit_spec_names)" by (simp add: content_spec_names_def)
  then show "key \<notin> set fs" "''metadata'' \<notin> set fs" "''node_metadata'' \<notin> set fs" "''content'' \<notin> set fs" using assms by blast+
qed

lemma fields_apart:
  "fields_ok cls \<Longrightarrow> set fs \<inter> set (content_spec_names @ audit_spec_names) = {} \<Longrightarrow> set (cl_fields cls) \<inter> set fs = {}"
  unfolding fields_ok_def by blast

text \<open>The row of a node in these terms.\<close>

lemma row_shape:
  assumes loads: "dumps_back pd cls fs n c" and fields: "fields_ok cls" and flat: "flattens cls fs"
    and apart: "set fs \<inter> set (content_spec_names @ audit_spec_names) = {}" and key: "nc_meta_key (get_config cls) \<in> {''node_metadata'', ''metadata''}"
  obtains m b where "to_row pd cls n = b @ pd_content_dump pd c"
    "fst ` set b = insert (nc_meta_key (get_config cls)) (set (cl_fields cls) - {''content'', ''metadata''})"
    "map_of (pd_dump pd n) ''metadata'' = Some (VDict m)" "map_of m ''kron_class'' = None"
    "map_of b = (map_of (pd_dump pd n))(''metadata'' := None, nc_meta_key (get_config cls) \<mapsto> VDict (dict_set ''kron_class'' (VText (cl_name cls)) m))"
proof -
  let ?mk = "nc_meta_key (get_config cls)"
  obtain m where m: "map_of (pd_dump pd n) ''metadata'' = Some (VDict m)" "map_of m ''kron_class'' = None" using loads by (auto simp: dumps_back_def)
  let ?m = "VDict (dict_set ''kron_class'' (VText (cl_name cls)) m)"
  let ?i = "inject_class (cl_name cls) (pd_dump pd n)"
  let ?b = "rename_key ''metadata'' ?mk ?i"
  have i: "?i = dict_set ''metadata'' ?m (pd_dump pd n)" by (simp add: inject_class_def m(1))
  have keys: "fst ` set (pd_dump pd n) = set (cl_fields cls) - {''content''}" using loads by (simp add: dumps_back_def)
  have "''metadata'' \<in> fst ` set ?i" by (simp add: i)
  then have bk: "fst ` set ?b = insert ?mk (fst ` set ?i - {''metadata''})" unfolding keys_rename_key by simp
  also have "fst ` set ?i - {''metadata''} = set (cl_fields cls) - {''content'', ''metadata''}" unfolding i set_keys_dict_set keys by blast
  finally have b: "fst ` set ?b = insert ?mk (set (cl_fields cls) - {''content'', ''metadata''})" .
  have "?mk \<notin> set fs" by (rule meta_key_apart(1) [OF apart key])
  moreover have "set (cl_fields cls) \<inter> set fs = {}" by (rule fields_apart [OF fields apart])
  ultimately have "fst ` set ?b \<inter> set fs = {}" unfolding b by blast
  then have "fst ` set ?b \<inter> fst ` set (pd_content_dump pd c) = {}" "distinct (dict_keys (pd_content_dump pd c))" using loads by (simp_all add: dumps_back_def)
  from dict_update_disjoint [OF this(2,1)] have "to_row pd cls n = ?b @ pd_content_dump pd c"
    using flat loads by (simp add: to_row_def can_flatten_def flattens_def dumps_back_def)
  moreover have "map_of ?b = (map_of (pd_dump pd n))(''metadata'' := None, ?mk \<mapsto> ?m)"
    by (simp add: map_of_rename_key i)
  ultimately show thesis using that [OF _ b m(1,2)] by blast
qed

lemma row_holds:
  fixes pd :: "('n, 'c) pydantic"
  assumes "dumps_back pd cls fs n c" "fields_ok cls" "flattens cls fs" "set fs \<inter> set (content_spec_names @ audit_spec_names) = {}"
    "nc_meta_key (get_config cls) \<in> {''node_metadata'', ''metadata''}"
  obtains m where "holds_node pd fs n c (nc_meta_key (get_config cls)) (dict_set ''kron_class'' (VText (cl_name cls)) m) (map (map_prod id Val) (to_row pd cls n))"
    "map_of (pd_dump pd n) ''metadata'' = Some (VDict m)" "map_of m ''kron_class'' = None"
proof -
  let ?mk = "nc_meta_key (get_config cls)"
  obtain m b where row: "to_row pd cls n = b @ pd_content_dump pd c"
    and bk: "fst ` set b = insert ?mk (set (cl_fields cls) - {''content'', ''metadata''})"
    and m: "map_of (pd_dump pd n) ''metadata'' = Some (VDict m)" "map_of m ''kron_class'' = None"
    and b: "map_of b = (map_of (pd_dump pd n))(''metadata'' := None, ?mk \<mapsto> VDict (dict_set ''kron_class'' (VText (cl_name cls)) m))"
    by (rule row_shape [OF assms])
  have content: "fst ` set (pd_content_dump pd c) = set fs" using assms(1) by (simp add: dumps_back_def)
  have mk: "?mk \<notin> set fs" by (rule meta_key_apart(1) [OF assms(4,5)])
  have "fst x \<notin> set fs" if "x \<in> set b" for x
  proof -
    have "fst x \<in> fst ` set b" using that by simp
    then have "fst x = ?mk \<or> fst x \<in> set (cl_fields cls)" unfolding bk by (elim insertE DiffE) simp_all
    then show ?thesis using mk fields_apart [OF assms(2,4)] by auto
  qed
  then have none: "filter (\<lambda>(k, v). k \<in> set fs) (map (map_prod id Val) b :: (string, 'c cell) dict) = []" by (auto simp: filter_empty_conv)
  have "k \<in> set fs" if "(k, v) \<in> set (pd_content_dump pd c)" for k v using that content by force
  then have "filter (\<lambda>(k, v). k \<in> set fs) (map (map_prod id Val) (pd_content_dump pd c) :: (string, 'c cell) dict) = map (map_prod id Val) (pd_content_dump pd c)"
    by (auto simp: filter_id_conv)
  with none have cols: "filter (\<lambda>(k, v). k \<in> set fs) (map (map_prod id Val) (to_row pd cls n) :: (string, 'c cell) dict) = map (map_prod id Val) (pd_content_dump pd c)"
    unfolding row map_append filter_append by simp
  have dump: "fst ` set (pd_dump pd n) = set (cl_fields cls) - {''content''}" using assms(1) by (simp add: dumps_back_def)
  have "''content'' \<notin> fst ` set (pd_dump pd n)" "''node_metadata'' \<notin> fst ` set (pd_dump pd n)" unfolding dump using assms(2) unfolding fields_ok_def by blast+
  then have gone: "map_of (pd_dump pd n) ''content'' = None" "map_of (pd_dump pd n) ''node_metadata'' = None" by (simp_all add: map_of_eq_None_iff)
  have "map_of (map (map_prod id Val) (to_row pd cls n)) k =
      (if k = ?mk then Some (Val (VDict (dict_set ''kron_class'' (VText (cl_name cls)) m))) else if k \<in> {''metadata'', ''node_metadata'', ''content''} then None
       else map_option Val (map_of (pd_dump pd n) k))" if k: "k \<notin> set fs" for k
  proof -
    have "map_of (pd_content_dump pd c) k = None" using k content by (simp add: map_of_eq_None_iff)
    then have "map_of (to_row pd cls n) k = map_of b k" unfolding row map_of_append map_add_def by (cases "map_of b k") simp_all
    then show ?thesis unfolding map_of_vals b using gone by (cases "k = ?mk"; cases "k = ''metadata''"; cases "k = ''content''"; cases "k = ''node_metadata''") simp_all
  qed
  with cols have "holds_node pd fs n c ?mk (dict_set ''kron_class'' (VText (cl_name cls)) m) (map (map_prod id Val) (to_row pd cls n))"
    unfolding holds_node_def by blast
  then show thesis using that m by blast
qed

section \<open>Termination\<close>

text \<open>The entries that name a class.\<close>

fun names_class :: "'c cell \<Rightarrow> bool" where
  "names_class (Val (VDict m)) \<longleftrightarrow> map_of m ''kron_class'' \<noteq> None"
| "names_class _ \<longleftrightarrow> False"

definition bearers :: "(string, 'c cell) dict \<Rightarrow> nat" where
  "bearers d = length (filter (\<lambda>e. names_class (snd e)) d)"

lemma bearers_simps [simp]: "bearers [] = 0" "bearers (e # d) = (if names_class (snd e) then Suc (bearers d) else bearers d)"
  by (simp_all add: bearers_def)

lemma bearers_set: "bearers (dict_set k v d) \<le> bearers d + (if names_class v then 1 else 0)"
  by (induction d) (auto split: if_splits)

lemma bearers_overwrite: "map_of d k = Some w \<Longrightarrow> names_class w \<Longrightarrow> \<not> names_class v \<Longrightarrow> Suc (bearers (dict_set k v d)) = bearers d"
  by (induction d) (auto split: if_splits)

lemma bearers_pop: "bearers (dict_pop k d) \<le> bearers d"
  by (induction d) (auto simp: dict_pop_def)

lemma bearers_pop_class: "map_of d k = Some v \<Longrightarrow> names_class v \<Longrightarrow> Suc (bearers (dict_pop k d)) \<le> bearers d"
proof (induction d)
  case (Cons e d)
  then show ?case using bearers_pop [of k d] by (cases e) (auto simp: dict_pop_def split: if_splits)
qed simp

lemma bearers_rename: "bearers (rename_key old new d) \<le> bearers d"
proof (cases "map_of d old")
  case None
  then show ?thesis by (simp add: rename_key_def del: map_of_eq_None_iff)
next
  case (Some v)
  then show ?thesis using bearers_set [of new v "dict_pop old d"] bearers_pop [of old d] bearers_pop_class [OF Some]
    by (cases "names_class v") (simp_all add: rename_key_def)
qed

lemma bearers_restore: "bearers (restore_metadata key d) \<le> bearers d"
proof -
  have "bearers (restore_metadata key d) \<le> bearers (if map_of d key \<noteq> None then rename_key key ''metadata'' d
       else if map_of d ''metadata'' = None then rename_key ''node_metadata'' ''metadata'' d else d)"
    unfolding restore_metadata_def by (rule bearers_pop)
  also have "\<dots> \<le> bearers d" by (split if_split, split if_split) (simp add: bearers_rename)
  finally show ?thesis .
qed

lemma bearers_gather:
  assumes "gather_content pd cls d = Inr g"
  shows "bearers g \<le> bearers d"
proof -
  have pops: "bearers (pop_keys ks d) \<le> bearers d" for ks
  proof (induction ks arbitrary: d)
    case (Cons k ks)
    show ?case using Cons.IH [of "dict_pop k d"] bearers_pop [of k d] by simp
  qed simp
  have "bearers (dict_set ''content'' (Obj c) (pop_keys fs d)) \<le> bearers d" for c fs
    using bearers_set [of "''content''" "Obj c" "pop_keys fs d"] pops [of fs] by simp
  then show ?thesis using assms by (auto simp: gather_content_def split: if_splits option.splits content_type.splits)
qed

lemma bearers_take:
  assumes "take_class d = (Some v, d')"
  shows "Suc (bearers d') = bearers d"
proof -
  obtain m where m: "map_of d ''metadata'' = Some (Val (VDict m))" "map_of m ''kron_class'' = Some v"
    "d' = dict_set ''metadata'' (Val (VDict (dict_pop ''kron_class'' m))) d"
    using assms by (auto simp: take_class_def split: option.splits cell.splits py_value.splits)
  show ?thesis unfolding m(3) by (rule bearers_overwrite [OF m(1)]) (simp_all add: m(2) map_of_dict_pop del: map_of_eq_None_iff)
qed

lemma from_row_loop_ends: "bearers d < fuel \<Longrightarrow> from_row_loop fuel pd registry cls d \<noteq> Inl DispatchTooDeep"
proof (induction fuel arbitrary: cls d)
  case (Suc fuel)
  show ?case
  proof (cases "gather_content pd cls d")
    case (Inl e)
    then show ?thesis by (auto simp: gather_content_def split: if_splits option.splits content_type.splits)
  next
    case (Inr g)
    obtain kc d' where taken: "take_class (restore_metadata (nc_meta_key (get_config cls)) g) = (kc, d')" by fastforce
    show ?thesis
    proof (cases "dispatch registry cls kc")
      case (Inl e)
      then have "e \<noteq> DispatchTooDeep" by (auto simp: dispatch_def split: option.splits if_splits py_value.splits)
      then show ?thesis using \<open>gather_content pd cls d = Inr g\<close> taken Inl by simp
    next
      case (Inr target)
      show ?thesis
      proof (cases target)
        case None
        then show ?thesis using \<open>gather_content pd cls d = Inr g\<close> taken Inr by (auto split: option.splits)
      next
        case (Some t)
        with Inr obtain v where "kc = Some v" by (auto simp: dispatch_def split: option.splits)
        with taken have "Suc (bearers d') \<le> bearers d"
          using bearers_take bearers_restore [of "nc_meta_key (get_config cls)" g] bearers_gather [OF \<open>gather_content pd cls d = Inr g\<close>] by fastforce
        then show ?thesis using Suc.IH [of d' t] Suc.prems \<open>gather_content pd cls d = Inr g\<close> taken Inr Some by simp
      qed
    qed
  qed
qed simp

text \<open>Reading a row ends within its fuel.\<close>

lemma from_row_ends:
  fixes pd :: "('n, 'c) pydantic"
  shows "from_row pd registry cls row \<noteq> Inl DispatchTooDeep"
proof -
  have "bearers (map (map_prod id Val) row :: (string, 'c cell) dict) \<le> length row" by (induction row) auto
  then show ?thesis unfolding from_row_def by (intro from_row_loop_ends) simp
qed

section \<open>Properties\<close>

text \<open>A pass on a base class that does not flatten leaves the metadata without the name of the class.\<close>

lemma base_pass:
  assumes holds: "holds_node pd fs n c key (dict_set ''kron_class'' (VText (cl_name cls)) m) data"
    and base: "\<not> nc_flatten_content (get_config base)" "nc_meta_key (get_config base) = key" "registry (cl_name cls) = Some cls" "cl_name base \<noteq> cl_name cls" "cl_name cls \<noteq> []"
    and key: "key \<in> {''node_metadata'', ''metadata''}" and apart: "set fs \<inter> set (content_spec_names @ audit_spec_names) = {}"
    and m: "map_of m ''kron_class'' = None" and gone: "map_of (pd_dump pd n) ''node_metadata'' = None"
  obtains data' where "from_row_loop (Suc fuel) pd registry base data = from_row_loop fuel pd registry cls data'" "holds_node pd fs n c ''metadata'' m data'"
proof -
  let ?m = "dict_set ''kron_class'' (VText (cl_name cls)) m"
  let ?r = "restore_metadata key data"
  note out = meta_key_apart [OF apart key]
  have lookup: "k \<notin> set fs \<Longrightarrow> map_of data k =
      (if k = key then Some (Val (VDict ?m)) else if k \<in> {''metadata'', ''node_metadata'', ''content''} then None
       else map_option Val (map_of (pd_dump pd n) k))" for k using holds by (simp add: holds_node_def)
  define f where "f = (\<lambda>k. if k \<in> set fs then map_of data k else map_option Val (map_of (pd_dump pd n) k))"
  have g: "map_of data k = (if k = ''content'' then None else if k = key then Some (Val (VDict ?m)) else if k \<in> {''metadata'', ''node_metadata''} then None else f k)" for k
  proof (cases "k \<in> set fs")
    case True
    then have "k \<noteq> ''content''" "k \<noteq> key" "k \<notin> {''metadata'', ''node_metadata''}" using out by blast+
    then show ?thesis using True by (simp add: f_def)
  next
    case False
    then have "f k = map_option Val (map_of (pd_dump pd n) k)" by (simp add: f_def)
    moreover have "''content'' \<noteq> key" using key by auto
    ultimately show ?thesis using lookup [OF False] by (cases "k = ''content''") simp_all
  qed
  have "f ''node_metadata'' = None" using gone out by (simp add: f_def)
  from restored_lookup [OF g key _ this] have r: "map_of ?r = f(''content'' := None, ''metadata'' \<mapsto> Val (VDict ?m))" by simp
  then have "map_of ?r ''metadata'' = Some (Val (VDict ?m))" by simp
  moreover have "dict_pop ''kron_class'' ?m = m" by (rule dict_pop_set_new [OF m])
  ultimately have taken: "take_class ?r = (Some (VText (cl_name cls)), dict_set ''metadata'' (Val (VDict m)) ?r)" (is "_ = (_, ?d)") by (simp add: take_class_def)
  have "base \<noteq> cls" using base(4) by auto
  then have "dispatch registry base (Some (VText (cl_name cls))) = Inr (Some cls)" using base(3-5) by (simp add: dispatch_def)
  moreover have "gather_content pd base data = Inr data" using base(1) by (simp add: gather_content_def)
  ultimately have "from_row_loop (Suc fuel) pd registry base data = from_row_loop fuel pd registry cls ?d" using base(2) taken by simp
  moreover have "filter (\<lambda>(k, v). k \<in> set fs) ?d = map (map_prod id Val) (pd_content_dump pd c)"
    using holds out by (simp add: filter_dict_set filter_restore_metadata holds_node_def)
  moreover have "map_of ?d k = (if k = ''metadata'' then Some (Val (VDict m)) else if k \<in> {''metadata'', ''node_metadata'', ''content''} then None
       else map_option Val (map_of (pd_dump pd n) k))" if "k \<notin> set fs" for k
    using that gone out(3) by (simp add: r f_def)
  ultimately show thesis using that unfolding holds_node_def by blast
qed


text \<open>The columns of a row and of the table.\<close>

lemma row_keys:
  assumes "made_class cls" "ddl_columns cls = Inr cols" "flattens cls fs" "nc_meta_key (get_config cls) \<in> {''node_metadata'', ''metadata''}" "dumps_back pd cls fs n c"
  shows "fst ` set (to_row pd cls n) = insert (nc_meta_key (get_config cls)) (set (cl_fields cls) - {''content'', ''metadata''}) \<union> set fs"
proof -
  obtain m b where b: "to_row pd cls n = b @ pd_content_dump pd c"
    "fst ` set b = insert (nc_meta_key (get_config cls)) (set (cl_fields cls) - {''content'', ''metadata''})"
    by (rule row_shape [OF assms(5) made_fields_ok [OF assms(1)] assms(3) ddl_names_distinct(1) [OF assms(2,3)] assms(4)])
  then show ?thesis using assms(5) by (simp add: image_Un dumps_back_def)
qed

lemma created_class:
  assumes "create_node name (Some fs) embedding enabled dimension opts = Inr cls"
  obtains d where "get_config cls = opts\<lparr>nc_embedding_enabled := d \<noteq> None, nc_embedding_dim := d, nc_content_type := Some (ModelType fs)\<rparr>"
    "cl_fields cls = node_fields @ filter (\<lambda>f. f \<notin> set node_fields) (included_fields True (d \<noteq> None) opts)"
  using assms by (auto simp: create_node_def get_config_def)

lemma subset_but_one: "A \<subseteq> insert x C \<Longrightarrow> A \<subseteq> C \<longleftrightarrow> (x \<in> A \<longrightarrow> x \<in> C)"
  by blast

lemma mem_if: "x \<in> set (if P then y # xs else []) \<longleftrightarrow> P \<and> (x = y \<or> x \<in> set xs)"
  by simp

lemma created_included:
  assumes "get_config cls = opts\<lparr>nc_embedding_enabled := e, nc_embedding_dim := d, nc_content_type := t\<rparr>"
  shows "set (included_fields True e opts) \<subseteq> {''content'', ''updated_at''} \<union> set (ddl_include cls)"
proof
  fix f
  assume "f \<in> set (included_fields True e opts)"
  then show "f \<in> {''content'', ''updated_at''} \<union> set (ddl_include cls)"
    unfolding included_fields_def append_Cons append_Nil set_append Un_iff mem_if list.set insert_iff empty_iff
    by (elim disjE conjE FalseE) (simp_all add: ddl_include_def Let_def assms)
qed

lemma included_updated_at:
  "''updated_at'' \<in> set (included_fields c e opts) \<longleftrightarrow>
    nc_track_updated_at opts \<or> nc_content_hashing opts \<or> nc_integrity_hashing opts \<or> nc_soft_delete opts \<or> nc_versioning opts"
  by (simp add: included_fields_def)

lemma ddl_updated_at:
  assumes "flattened_columns cls = Some fs" "''updated_at'' \<notin> set fs" "nc_meta_key (get_config cls) \<noteq> ''updated_at''"
  shows "''updated_at'' \<in> set (ddl_include cls) \<longleftrightarrow> nc_track_updated_at (get_config cls)"
  using assms by (simp add: ddl_include_def Let_def)


text \<open>A node whose content is missing, or whose class annotates it as optional, is not flattened: its row has a content, for which its table has no column.\<close>

lemma unflattened_row_misfits:
  assumes "ddl_columns cls = Inr cols" "flattened_columns cls = Some fs" "nc_meta_key (get_config cls) = ''node_metadata''" "\<not> can_flatten cls (pd_content pd n)"
  shows "''content'' \<in> fst ` set (to_row pd cls n)" "''content'' \<notin> cols"
proof -
  have content: "''content'' \<in> fst ` set (dict_set ''content'' v d)" for v and d :: "(string, py_value) dict" by simp
  have "''content'' \<in> fst ` set (inject_class nm d)" if "''content'' \<in> fst ` set d" for nm d
    using that by (auto simp: inject_class_def split: option.splits py_value.splits)
  moreover have "''content'' \<in> fst ` set (rename_key ''metadata'' ''node_metadata'' d)" if "''content'' \<in> fst ` set d" for d :: "(string, py_value) dict"
    unfolding keys_rename_key using that by simp
  ultimately show "''content'' \<in> fst ` set (to_row pd cls n)" using assms(4) content by (simp add: to_row_def)
  have "distinct (content_spec_names @ audit_spec_names @ fs)" "cols = set (ddl_include cls)" using assms(1,2) by (auto simp: ddl_columns_def Let_def split: if_splits)
  then have "''content'' \<notin> set fs" by (auto simp: content_spec_names_def)
  then show "''content'' \<notin> cols" using assms(2,3) \<open>cols = set (ddl_include cls)\<close> by (simp add: ddl_include_def Let_def)
qed

section \<open>A sample\<close>

text \<open>Nodes as the dump of their fields and a text as content.\<close>

definition sample_pd :: "((string, py_value) dict \<times> string, string) pydantic" where
  "sample_pd =
    \<lparr>pd_dump = fst, pd_content = (\<lambda>n. Some (snd n)), pd_content_dump = (\<lambda>c. [(''title'', VText c)]),
     pd_content_load = (\<lambda>_ d. case map_of d ''title'' of Some (Val (VText c)) \<Rightarrow> Some c | _ \<Rightarrow> None),
     pd_validate = (\<lambda>cls d. Some
       (map (\<lambda>f. (f, case map_of d f of Some (Val v) \<Rightarrow> v | _ \<Rightarrow> VNull)) (filter (\<lambda>f. f \<noteq> ''content'') (cl_fields cls)),
        case map_of d ''content'' of Some (Obj c) \<Rightarrow> c | _ \<Rightarrow> []))\<rparr>"

definition sample_row_node :: "node_class \<Rightarrow> (string, py_value) dict \<times> string" where
  "sample_row_node cls = (map (\<lambda>f. (f, if f = ''metadata'' then VDict [] else VInt 0)) (filter (\<lambda>f. f \<noteq> ''content'') (cl_fields cls)), ''audit'')"

lemma sample_dumps_back:
  assumes "fields_ok cls" "distinct (cl_fields cls)"
  shows "dumps_back sample_pd cls [''title''] (sample_row_node cls) ''audit''"
proof -
  let ?g = "\<lambda>f. if f = ''metadata'' then VDict [] else VInt 0"
  let ?fs = "filter (\<lambda>f. f \<noteq> ''content'') (cl_fields cls)"
  let ?dump = "map (\<lambda>f. (f, ?g f)) ?fs"
  have dump: "pd_dump sample_pd (sample_row_node cls) = ?dump" by (simp add: sample_pd_def sample_row_node_def)
  have lookup: "map_of ?dump f = (if f \<in> set (cl_fields cls) \<and> f \<noteq> ''content'' then Some (?g f) else None)" for f
    by (simp only: map_of_map_restrict restrict_map_def o_def) simp
  have "''metadata'' \<in> set (cl_fields cls)" using assms(1) by (simp add: fields_ok_def)
  then have meta: "map_of ?dump ''metadata'' = Some (VDict [])" unfolding lookup by simp
  have valid: "pd_validate sample_pd cls d = Some (sample_row_node cls)"
    if d: "map_of d = (\<lambda>k. map_option Val (map_of ?dump k))(''content'' \<mapsto> Obj ''audit'')" for d
  proof -
    have "(case map_of d f of Some (Val v) \<Rightarrow> v | _ \<Rightarrow> VNull) = ?g f" if "f \<in> set ?fs" for f using that unfolding d lookup by simp
    then have "map (\<lambda>f. (f, case map_of d f of Some (Val v) \<Rightarrow> v | _ \<Rightarrow> VNull)) ?fs = ?dump" by simp
    moreover have "map_of d ''content'' = Some (Obj ''audit'')" unfolding d by simp
    ultimately show ?thesis by (simp add: sample_pd_def sample_row_node_def)
  qed
  have keys: "dict_keys ?dump = ?fs" by (simp add: o_def)
  have "fst ` set ?dump = set ?fs" using arg_cong [OF keys, of set] by (simp only: set_map)
  then have "fst ` set ?dump = set (cl_fields cls) - {''content''}" by auto
  moreover have "distinct (dict_keys ?dump)" unfolding keys using assms(2) by simp
  ultimately show ?thesis unfolding dumps_back_def dump using meta valid by (simp add: sample_pd_def sample_row_node_def)
qed

definition sample_entity :: node_class where
  "sample_entity = entity_node ''jobs.Job'' ''jobs'' ''public'' False [''title'']"

lemma sample_entity_facts:
  "distinct (cl_fields sample_entity)" "made_class sample_entity" "flattens sample_entity [''title'']" "nc_meta_key (get_config sample_entity) = ''node_metadata''"
  "cl_name sample_entity = ''jobs.Job''"
proof -
  show "made_class sample_entity" unfolding made_class_def sample_entity_def by blast
qed (simp_all add: sample_entity_def entity_node_def node_fields_def flattens_def node_content_type_def get_config_def get_canon_config_v1_def default_config_def)

lemma sample_entity_ddl: "ddl_columns sample_entity = Inr (set (ddl_include sample_entity))"
  by (simp add: sample_entity_def entity_node_def ddl_columns_def flattened_columns_def ddl_content_type_def is_persisted_def ddl_include_def Let_def
      get_config_def get_canon_config_v1_def default_config_def content_spec_names_def audit_spec_names_def)

definition plain_node :: node_class where
  "plain_node = \<lparr>cl_name = ''kron.core.node.Node'', cl_node_config = None, cl_fields = node_fields, cl_resolved = Some OtherType\<rparr>"


text \<open>A class with soft deletion whose update time is not tracked: its rows have a column too many.\<close>

definition sample_options :: NodeConfig where
  "sample_options = default_config\<lparr>nc_table_name := Some ''jobs'', nc_flatten_content := True, nc_soft_delete := True\<rparr>"

definition sample_created :: node_class where
  "sample_created =
    \<lparr>cl_name = ''Job'', cl_node_config = Some (sample_options\<lparr>nc_content_type := Some (ModelType [''title''])\<rparr>),
     cl_fields = [''id'', ''created_at'', ''metadata'', ''content'', ''updated_at'', ''is_deleted'', ''deleted_at''], cl_resolved = Some (OptionalModel [''title''])\<rparr>"

lemma sample_created: "create_node ''Job'' (Some [''title'']) NoEmbedding False None sample_options = Inr sample_created"
  by (simp add: create_node_def resolve_embedding_def sample_created_def sample_options_def default_config_def node_fields_def included_fields_def)


end
