(* ===== verification/Spec2Isabelle.thy ===== *)
theory Spec2Isabelle
  imports Runtime_Correct Roles Grants_Correct Inbox_Correct Conditions_Correct Merkle_Correct Resilience Graph_Correct Flow_Correct
    Schema_Diff_Correct Policy_Engine Service Constraints Dag_Correct Decision_Cache Migration_Correct Vocabulary
    Exchange_Correct Rate_Limiter Retry Node_Correct Node_Rows
begin

text \<open>
  \<^bold>\<open>CanonSys\<close>. A charter is a compliance workflow written in a small indentation-based language. The compiler
  (\<open>src/libs/canon/src/canon/dsl\<close>) turns its text into a checked syntax tree with an order of the phases of each workflow; the
  runtime (\<open>src/libs/canon/src/canon/runtime\<close>) executes it on a PostgreSQL database: it creates one row per phase, lets users
  and triggers move phases along a lifecycle, and activates the phases whose requirements have become satisfied. Around
  the runtime stand roles, document grants, the inbox and conditions; evidence is recorded and
  batches of hashes are timestamped through Merkle trees. Actions pass policies that are resolved for a request and evaluated by an embedded Open Policy
  Agent, whose decisions are cached per tenant, and the database schema is created from the entity classes and migrated from the difference of two specifications.
  The library \<open>src/libs/kron\<close> below them has the containers of the framework, nodes and events, the executor of operation graphs, the exchange of messages, and the circuit
  breaker, retries and rate limits through which services call out. This development models these parts and proves what makes them correct.

  \<^bold>\<open>Conventions\<close> (\<open>Prelude\<close>). Python's \<open>dict\<close> is an association list in insertion order, an exception is the left side of
  a result, \<open>int\<close> is unbounded, a \<open>str\<close> is a list of the 256 characters of HOL with Python's character classes on
  them. Where the order of a Python set is observable it is an argument (\<open>set_iter\<close>). Random identifiers
  and clock readings are arguments. \<open>Py_Float\<close> models floats as rationals, infinities and not-a-number, with rounding of
  decimal literals to doubles; \<open>Py_Text\<close> the conversions between texts and integers and the string methods. \<open>Kahn\<close> holds the counters and the
  loop that the topological sorts share.

  \<^bold>\<open>The compiler.\<close>
  \<^item> \<open>Tokens\<close>, \<open>Lexer\<close> (\<open>tokens.py\<close>, \<open>lexer.py\<close>): the lexer as a record and one function per method; the main loop terminates by a
    measure on the remaining input. \<open>Lexer_Correct\<close>: the stream ends with its only EOF, indentation is balanced, and
    every token and error carries a line and column of the source.
  \<^item> \<open>Ast\<close>, \<open>Parser\<close> (\<open>ast.py\<close>, \<open>parser.py\<close>): the syntax tree and the recursive-descent parser. Each loop carries fuel, one more than the
    number of tokens; \<open>Parser_Correct\<close> shows that every iteration consumes a token, so the fuel never runs out on a
    stream that ends with EOF. \<open>Front_End\<close> composes lexer and parser.
  \<^item> \<open>Topo\<close> (\<open>Resolver._topological_sort\<close>, \<open>_find_cycle\<close>): Kahn's algorithm, terminating by the number of unreleased phases
    and the queue; the cycle search is fuelled by the number of phases. \<open>Topo_Correct\<close>: the order contains every phase
    once and after its requirements, exactly the acyclic workflows without a repeated requirement are accepted, and a
    reported cycle is a cycle.
  \<^item> \<open>Catalog\<close>, \<open>Resolver\<close>, \<open>Compiler\<close> (\<open>catalog.py\<close>, \<open>resolver.py\<close>, \<open>compiler.py\<close>). The registries of features, packages and policies are protocols in
    the source and functions here. \<open>Resolver_Correct\<close>: the resolver accepts exactly the charters that a declarative
    specification calls valid. A locale of keyed stores states the contract of the schema catalog and of the charter registry and is interpreted
    on both.

  \<^bold>\<open>The runtime.\<close>
  \<^item> \<open>Phase_State\<close> (\<open>phase_state.py\<close>): states, transition table, and that every chain of transitions ends.
  \<^item> \<open>Runtime_Db\<close>: the tables as lists of row records and the query shapes of \<open>db/crud.py\<close>. Each operation runs to its end as in one transaction.
  \<^item> \<open>Evidence\<close>, \<open>Trigger\<close>, \<open>Require_Eval\<close>, \<open>Cascade\<close>, \<open>Registry\<close>, \<open>Workflow\<close> (the modules of the same names): every operation as a
    function on the database, with the errors it returns and the exceptions it raises.
  \<^item> \<open>Cascade_Correct\<close>, \<open>Runtime_Invariants\<close>, \<open>Run_Start\<close>: what each operation changes. The locales \<open>phase_move\<close> and \<open>quiet_move\<close> say what a change
    of statuses must satisfy to keep the invariants, their lemmas are proved once and interpreted for every kind of move.
  \<^item> \<open>Runtime_Steps\<close>: the operations as a step relation on registry and database, in any order and at any time; the reachable
    states satisfy the invariant, by rule induction. The step \<open>claim\<close> (a user takes a waiting phase) is the transition the
    documentation describes and no runtime function performs. \<open>Runtime_Correct\<close>: phases are worked on in order, a ready phase is
    activated, a run is never stuck, statuses move along the lifecycle, and what starting and completing do.
    \<open>Runtime_Demo\<close> executes a charter from its source text and supplies the witnesses.
  \<^item> \<open>Roles\<close> (\<open>roles.py\<close>): enforcement of MFA and break-glass. \<open>Grants\<close>, \<open>Grants_Correct\<close> (\<open>grants.py\<close>): tokens for documents as a state machine; access is
    short-lived, revocation and delegation do what they say. \<open>Inbox\<close>, \<open>Inbox_Correct\<close> (\<open>inbox.py\<close>): the queries as SQL evaluates
    them; under the keys the schema enforces the inbox is exactly what waits for the user. \<open>Conditions\<close>,
    \<open>Conditions_Correct\<close> (\<open>conditions.py\<close>): coercions and comparisons of Python values; the text of floats and containers and \<open>float()\<close> of a text
    are arguments.

  \<^bold>\<open>Services.\<close>
  \<^item> \<open>Merkle\<close>, \<open>Merkle_Correct\<close> (\<open>utils/tsa/merkle.py\<close>, \<open>batch.py\<close>, \<open>compute_hash\<close> on bytes): the digest functions and the timestamp authority
    are arguments. Proofs verify and are logarithmic; a verifying proof of the right length proves a leaf if the byte strings hashed for the
    tree and the proof do not collide.
  \<^item> \<open>Resilience\<close> (\<open>services/utilities/resilience.py\<close>): the circuit breaker with interleaved calls. \<open>Float_Arith\<close>: the error of rounding to doubles. \<open>Retry\<close> (the same module): retries
    with exponential backoff, the float power and the random numbers as arguments; the loop runs over the range of attempts, so it ends. \<open>Rate_Limiter\<close> (\<open>rate_limiter.py\<close>): the token bucket
    in float arithmetic; what it hands out is bounded with an explicit share for rounding.
  \<^item> \<open>Decision_Cache\<close> (\<open>src/libs/canon/src/canon/utils/cache.py\<close>): the cache of policy decisions with its keys, expiry, eviction and invalidation; what it serves is compared with a ledger of what was stored.

  \<^bold>\<open>Policies and enforcement\<close> (\<open>src/libs/canon/src/canon/utils/opa\<close>, \<open>enforcement\<close>).
  \<^item> \<open>Opa_Decoder\<close> (\<open>decoder.py\<close>): results as Python values with opaque objects; unwrapping runs at most twelve rounds, as in the code, and decoding of nested lists
    is fuelled by the stack depth, which the nesting of the value bounds. The decoder fails closed, and unwrapped values have no envelopes.
  \<^item> \<open>Policy_Types\<close> (\<open>policy.py\<close>, \<open>types.py\<close>, \<open>degraded.py\<close>): levels, results, aggregation and the counters of degraded mode.
  \<^item> \<open>Policy_Resolver\<close>, \<open>Policy_Resolver_Correct\<close> (\<open>resolver.py\<close>): the index and the seven stages; which policies are resolved, mutual exclusion, and the order by
    prerequisites.
  \<^item> \<open>Policy_Engine\<close> (\<open>engine.py\<close>): evaluation with the regorus engine and the quota check as arguments. Resolution, evaluation, decoding and aggregation compose to the
    property that an allowed action is granted by every resolved policy that is not advisory.
  \<^item> \<open>Vocabulary\<close> (\<open>vocabulary.py\<close>): features and the composition of workflows from them.
  \<^item> \<open>Service\<close> (\<open>service.py\<close>): calls of actions with hooks, policies, validation and handler as a trace of events. \<open>Constraints\<close> (\<open>constraints.py\<close>): the
    regulatory constraints with their errors.

  \<^bold>\<open>Schema migration.\<close>
  \<^item> \<open>Sql_Ddl\<close> (\<open>src/libs/kron/src/kron/utils/sql/_sql_validation.py\<close>, \<open>specs/adapters/sql_ddl.py\<close>): identifiers, specifications of tables and their DDL text.
  \<^item> \<open>Schema_Diff\<close>, \<open>Schema_Diff_Correct\<close> (\<open>src/libs/canon/src/canon/db/migration/diff.py\<close>): the comparison of specifications. The locale \<open>object_kind\<close> is the contract of a kind of
    named objects (what its removal, addition and replacement emit); it is interpreted on foreign keys, indexes, triggers, check and unique constraints and
    gives what a plan contains for each object, when it is empty and when it is dangerous.

  \<^item> \<open>Migration\<close>, \<open>Migration_Correct\<close> (\<open>db/migration/migration.py\<close>, \<open>rls.py\<close>, \<open>roles.py\<close>, \<open>entities/entity.py\<close>): registration of entity classes, the order of their tables by references, triggers
    and row-level security as statements. Statements are sent one by one and not in a transaction.

  \<^bold>\<open>Operations and messages\<close> (\<open>src/libs/kron/src/kron/core/event.py\<close>, \<open>operations/flow.py\<close>, \<open>session\<close>).
  \<^item> \<open>Events\<close>: invocation with capture of errors, their serialisation, fresh clones. \<open>Dag_Executor\<close>, \<open>Dag_Correct\<close>: one task per operation of a graph, with dependencies and a limiter; a step of any
    task is a transition, and order, absence of deadlock, termination and outcomes hold for every interleaving.
  \<^item> \<open>Exchange\<close>, \<open>Exchange_Correct\<close> (\<open>exchange.py\<close>, \<open>message.py\<close>): mailboxes as flows. Operations and the deliveries under way are a state machine whose reachable states refine queues; collecting an outbox
    delivers each message once to each addressee.
  \<^item> \<open>Node\<close> (\<open>core/node.py\<close>, \<open>element.py\<close>, \<open>utils/_hash.py\<close>): classes, columns, hashes, lifecycle and rows, with Pydantic and the JSON library as arguments. \<open>Node_Correct\<close>: the chain of integrity hashes fixes its
    contents, and the lifecycle operations keep and record what they should. \<open>Node_Rows\<close>: rows are read back, when they fit their table, and that the dispatch to other classes ends within its fuel, one more than the
    entries of the row.

  \<^bold>\<open>Containers\<close> (\<open>src/libs/kron/src/kron/core\<close>).
  \<^item> \<open>Progression\<close> (\<open>progression.py\<close>): a list of ids with the set of its members; the two agree after any sequence of operations.
  \<^item> \<open>Pile\<close>, \<open>Pile_Correct\<close> (\<open>pile.py\<close>): a dictionary of elements with a progression. The locale \<open>keyed_sequence\<close> is the contract of a sequence of
    elements with distinct keys; it is interpreted on piles and carries the lookup laws that graphs and flows use.
  \<^item> \<open>Graph\<close> (\<open>graph.py\<close>): two piles and adjacency sets, whose iteration order is an argument. \<open>Graph_Invariant\<close>: every graph that can be built is well formed, by rule induction over the
    mutations. \<open>Graph_Acyclic\<close>: the three-colour search, fuelled by the number of nodes, decides acyclicity. \<open>Graph_Sort\<close>, \<open>Graph_Path\<close>: Kahn's algorithm and the
    breadth-first search, fuelled by the number of nodes they can enqueue. \<open>Graph_Correct\<close> states the properties and evaluates a sample.
  \<^item> \<open>Flow\<close>, \<open>Flow_Correct\<close> (\<open>flow.py\<close>): items and named progressions over them, referential integrity and the index of names.

  \<^bold>\<open>Not modelled.\<close> The execution of SQL, connection pooling and concurrency between transactions; Pydantic
  validation of entities; logging and metrics; the formatting of messages where the values they are formatted from are kept instead; the
  Rego evaluator, key management and timestamp authorities, whose code is elsewhere; the pool of engines, the OPA client and orchestrator and the generation of Rego; introspection
  of a live database; endpoints and models of kron, its specifications of fields and its sessions; serialisation of the containers; telemetry, redaction and just-in-time access, which call
  external services; and the domain packages under \<open>src/hub\<close>.
\<close>

end
